(* ===== verification/Effects.thy ===== *)
theory Effects
  imports Main
begin

text \<open>
  Code that awaits other services: an action runs on a state, may change it and returns a value or raises an
  error; what it changed before raising stays. \<open>wpr m Q E s\<close> says that \<open>m\<close> run from \<open>s\<close> ends in \<open>Q\<close> with
  its value, or in \<open>E\<close> with its error; \<open>wp\<close> is the same where the error carries nothing. The equations of
  \<open>wp_simps\<close> reduce a handler to the conditions of its steps.

  \<open>await f\<close> is a call that runs \<open>f\<close> on a world. The script of a \<open>System\<close> says, call by call, how it ends
  (\<open>CallResult\<close>) and what the rest of the program does to the world while the handler waits before and
  after it. What the rest may do is a relation: \<open>obeys R\<close> bounds every step of the script by \<open>R\<close>.
\<close>

named_theorems wp_simps \<open>weakest preconditions of actions\<close>

subsection \<open>Actions\<close>

datatype ('e, 'a) outcome = Returned 'a | Raised 'e

abbreviation Threw :: "(unit, 'a) outcome" where
  "Threw \<equiv> Raised ()"

type_synonym ('s, 'e, 'a) action = "'s \<Rightarrow> ('e, 'a) outcome \<times> 's"

definition ret :: "'a \<Rightarrow> ('s, 'e, 'a) action" where
  "ret x = (\<lambda>s. (Returned x, s))"

definition raise :: "'e \<Rightarrow> ('s, 'e, 'a) action" where
  "raise e = (\<lambda>s. (Raised e, s))"

definition andThen :: "('s, 'e, 'a) action \<Rightarrow> ('a \<Rightarrow> ('s, 'e, 'b) action) \<Rightarrow> ('s, 'e, 'b) action" where
  "andThen m k = (\<lambda>s. case m s of (Returned x, s') \<Rightarrow> k x s' | (Raised e, s') \<Rightarrow> (Raised e, s'))"

definition onError :: "('s, 'e, 'a) action \<Rightarrow> ('e \<Rightarrow> ('s, 'f, 'a) action) \<Rightarrow> ('s, 'f, 'a) action" where
  "onError m h = (\<lambda>s. case m s of (Returned x, s') \<Rightarrow> (Returned x, s') | (Raised e, s') \<Rightarrow> h e s')"

definition modify :: "('s \<Rightarrow> 's) \<Rightarrow> ('s, 'e, unit) action" where
  "modify f = (\<lambda>s. (Returned (), f s))"

definition gets :: "('s \<Rightarrow> 'a) \<Rightarrow> ('s, 'e, 'a) action" where
  "gets f = (\<lambda>s. (Returned (f s), s))"

definition onlyIf :: "bool \<Rightarrow> ('s, 'e, unit) action \<Rightarrow> ('s, 'e, unit) action" where
  "onlyIf b m = (if b then m else ret ())"

fun forEach :: "('x \<Rightarrow> ('s, 'e, unit) action) \<Rightarrow> 'x list \<Rightarrow> ('s, 'e, unit) action" where
  "forEach f [] = ret ()"
| "forEach f (x # xs) = andThen (f x) (\<lambda>_. forEach f xs)"

text \<open>\<open>Promise.all\<close>: every action is started, and the first error is raised once all have ended.\<close>

fun joinAll :: "('x \<Rightarrow> ('s, 'e, unit) action) \<Rightarrow> 'x list \<Rightarrow> ('s, 'e, unit) action" where
  "joinAll f [] = ret ()"
| "joinAll f (x # xs) =
     (\<lambda>s. case f x s of (r, s') \<Rightarrow> (case joinAll f xs s' of (r', s'') \<Rightarrow>
        (case r of Returned _ \<Rightarrow> r' | Raised e \<Rightarrow> Raised e, s'')))"

abbreviation throw :: "('s, unit, 'a) action" where
  "throw \<equiv> raise ()"

abbreviation tryCatch :: "('s, unit, 'a) action \<Rightarrow> ('s, unit, 'a) action \<Rightarrow> ('s, unit, 'a) action" where
  "tryCatch m h \<equiv> onError m (\<lambda>_. h)"

subsection \<open>Weakest preconditions\<close>

definition wpr :: "('s, 'e, 'a) action \<Rightarrow> ('a \<Rightarrow> 's \<Rightarrow> bool) \<Rightarrow> ('e \<Rightarrow> 's \<Rightarrow> bool) \<Rightarrow> 's \<Rightarrow> bool" where
  "wpr m Q E s = (case m s of (Returned x, s') \<Rightarrow> Q x s' | (Raised e, s') \<Rightarrow> E e s')"

abbreviation wp :: "('s, 'e, 'a) action \<Rightarrow> ('a \<Rightarrow> 's \<Rightarrow> bool) \<Rightarrow> ('s \<Rightarrow> bool) \<Rightarrow> 's \<Rightarrow> bool" where
  "wp m Q E s \<equiv> wpr m Q (\<lambda>_. E) s"

lemmas wp_def = wpr_def

lemma wp_ret [wp_simps]: "wpr (ret x) Q E s = Q x s"
  by (simp add: wpr_def ret_def)

lemma wp_raise [wp_simps]: "wpr (raise e) Q E s = E e s"
  by (simp add: wpr_def raise_def)

lemma wp_andThen [wp_simps]: "wpr (andThen m k) Q E s = wpr m (\<lambda>x. wpr (k x) Q E) E s"
  by (simp add: wpr_def andThen_def split: prod.split outcome.split)

lemma wp_onError [wp_simps]: "wpr (onError m h) Q E s = wpr m Q (\<lambda>e. wpr (h e) Q E) s"
  by (simp add: wpr_def onError_def split: prod.split outcome.split)

lemma wp_modify [wp_simps]: "wpr (modify f) Q E s = Q () (f s)"
  by (simp add: wpr_def modify_def)

lemma wp_gets [wp_simps]: "wpr (gets f) Q E s = Q (f s) s"
  by (simp add: wpr_def gets_def)

lemma wp_onlyIf: "wpr (onlyIf b m) Q E s = (if b then wpr m Q E s else Q () s)"
  by (simp add: wpr_def onlyIf_def ret_def)

lemma wpr_mono:
  assumes "wpr m Q E s" "\<And>x s'. Q x s' \<Longrightarrow> Q' x s'" "\<And>e s'. E e s' \<Longrightarrow> E' e s'"
  shows "wpr m Q' E' s"
  using assms by (auto simp: wpr_def split: prod.splits outcome.splits)

lemma wp_mono:
  assumes "wp m Q E s" "\<And>x s'. Q x s' \<Longrightarrow> Q' x s'" "\<And>s'. E s' \<Longrightarrow> E' s'"
  shows "wp m Q' E' s"
  using assms by (rule wpr_mono)

lemma wp_conj: "wp m Q E s \<Longrightarrow> wp m Q' E' s \<Longrightarrow> wp m (\<lambda>x s. Q x s \<and> Q' x s) (\<lambda>s. E s \<and> E' s) s"
  by (auto simp: wpr_def split: prod.splits outcome.splits)

lemma wp_forEach:
  assumes "I s" and "\<And>x s. x \<in> set xs \<Longrightarrow> I s \<Longrightarrow> wpr (f x) (\<lambda>_. I) E s"
  shows "wpr (forEach f xs) (\<lambda>_. I) E s"
  using assms
proof (induction xs arbitrary: s)
  case Nil
  then show ?case by (simp add: wp_ret)
next
  case (Cons x xs)
  have "wpr (f x) (\<lambda>_. I) E s" using Cons.prems by simp
  then have "wpr (f x) (\<lambda>_. wpr (forEach f xs) (\<lambda>_. I) E) E s"
    by (rule wpr_mono) (simp_all add: Cons.IH Cons.prems(2))
  then show ?case by (simp add: wp_andThen)
qed

lemma wp_joinAll:
  assumes "I s" and "\<And>x s. x \<in> set xs \<Longrightarrow> I s \<Longrightarrow> wpr (f x) (\<lambda>_. I) (\<lambda>_. I) s"
  shows "wpr (joinAll f xs) (\<lambda>_. I) (\<lambda>_. I) s"
  using assms
proof (induction xs arbitrary: s)
  case (Cons x xs)
  obtain r s' where f: "f x s = (r, s')" by (cases "f x s")
  have "I s'" using Cons.prems(2) [of x s] Cons.prems(1) f by (cases r) (auto simp: wpr_def)
  then have "wpr (joinAll f xs) (\<lambda>_. I) (\<lambda>_. I) s'" using Cons by simp
  then show ?case using f by (auto simp: wpr_def split: prod.splits outcome.splits)
qed (simp add: wp_ret)

lemma wp_state: "wp m (\<lambda>_. P) P s \<Longrightarrow> P (snd (m s))"
  by (auto simp: wpr_def split: prod.splits outcome.splits)

lemmas wp_tryCatch = wp_onError

subsection \<open>Calls\<close>

text \<open>How a database, Redis or network call ends: done; refused, with no effect; or with an exception
  although it took effect.\<close>

datatype CallResult = Done | Refused | Unacknowledged

record 'w System =
  world :: 'w
  script :: "(('w \<Rightarrow> 'w) \<times> CallResult \<times> ('w \<Rightarrow> 'w)) list"

type_synonym ('w, 'e, 'a) job = "('w System, 'e, 'a) action"

definition await :: "'e \<Rightarrow> ('w \<Rightarrow> 'a \<times> 'w) \<Rightarrow> ('w, 'e, 'a) job" where
  "await e f s =
     (case script s of
        [] \<Rightarrow> (case f (world s) of (x, w) \<Rightarrow> (Returned x, s\<lparr>world := w\<rparr>))
      | (before, res, after) # rest \<Rightarrow>
          (if res = Refused then (Raised e, s\<lparr>world := after (before (world s)), script := rest\<rparr>)
           else (case f (before (world s)) of (x, w) \<Rightarrow>
             (if res = Done then Returned x else Raised e, s\<lparr>world := after w, script := rest\<rparr>))))"

definition alter :: "('w \<Rightarrow> 'w) \<Rightarrow> ('w, 'e, unit) job" where
  "alter f = modify (\<lambda>s. s\<lparr>world := f (world s)\<rparr>)"

definition peek :: "('w \<Rightarrow> 'a) \<Rightarrow> ('w, 'e, 'a) job" where
  "peek f = gets (\<lambda>s. f (world s))"

text \<open>A timer, and a call in the background whose failure is only logged.\<close>

definition pause :: "('w \<Rightarrow> 'w) \<Rightarrow> ('w, 'e, unit) job" where
  "pause f = onError (await () (\<lambda>w. ((), f w))) (\<lambda>_. ret ())"

definition within :: "('w \<Rightarrow> 'w \<Rightarrow> bool) \<Rightarrow> ('w \<Rightarrow> 'w) \<Rightarrow> bool" where
  "within R g \<longleftrightarrow> (\<forall>w. R w (g w))"

definition obeys :: "('w \<Rightarrow> 'w \<Rightarrow> bool) \<Rightarrow> 'w System \<Rightarrow> bool" where
  "obeys R s \<longleftrightarrow> list_all (\<lambda>(before, _, after). within R before \<and> within R after) (script s)"

definition stableUnder :: "('w \<Rightarrow> 'w \<Rightarrow> bool) \<Rightarrow> ('w \<Rightarrow> bool) \<Rightarrow> bool" where
  "stableUnder R P \<longleftrightarrow> (\<forall>w w'. R w w' \<longrightarrow> P w \<longrightarrow> P w')"

text \<open>\<open>P\<close> holds of the world, and the steps of the others obey \<open>R\<close>.\<close>

definition under :: "('w \<Rightarrow> 'w \<Rightarrow> bool) \<Rightarrow> ('w \<Rightarrow> bool) \<Rightarrow> 'w System \<Rightarrow> bool" where
  "under R P s \<longleftrightarrow> obeys R s \<and> P (world s)"

lemma under_mono: "under R P s \<Longrightarrow> (\<And>w. P w \<Longrightarrow> P' w) \<Longrightarrow> under R P' s"
  by (simp add: under_def)

lemma obeys_new: "obeys R \<lparr> world = w, script = [] \<rparr>"
  by (simp add: obeys_def)

lemma stable_step: "stableUnder R P \<Longrightarrow> within R g \<Longrightarrow> P w \<Longrightarrow> P (g w)"
  by (auto simp: stableUnder_def within_def)

lemma stableUnder_conj: "stableUnder R P \<Longrightarrow> stableUnder R P' \<Longrightarrow> stableUnder R (\<lambda>w. P w \<and> P' w)"
  by (auto simp: stableUnder_def)

lemma stableUnder_const: "stableUnder R (\<lambda>_. c)"
  by (simp add: stableUnder_def)

lemma wp_await:
  assumes s: "under R P s"
    and st: "stableUnder R P" "\<And>x. stableUnder R (Q x)" "stableUnder R E"
    and step: "\<And>w x w'. P w \<Longrightarrow> f w = (x, w') \<Longrightarrow> Q x w'"
    and err: "\<And>w. P w \<Longrightarrow> E w" "\<And>x w. Q x w \<Longrightarrow> E w"
  shows "wpr (await e f) (\<lambda>x. under R (Q x)) (\<lambda>e'. under R (\<lambda>w. e' = e \<and> E w)) s"
proof (cases "script s")
  case Nil
  then show ?thesis using s step [of "world s"]
    by (auto simp: wpr_def await_def under_def obeys_def split: prod.split)
next
  case (Cons c rest)
  obtain before res after where c: "c = (before, res, after)" by (cases c)
  have w: "within R before" "within R after" and rest: "obeys R (s\<lparr>script := rest\<rparr>)"
    using s Cons c by (auto simp: under_def obeys_def)
  have P1: "P (before (world s))"
    using stable_step [OF st(1) w(1)] s by (simp add: under_def)
  obtain x w' where f: "f (before (world s)) = (x, w')" by (cases "f (before (world s))")
  have Q1: "Q x (after w')" by (rule stable_step [OF st(2) w(2) step [OF P1 f]])
  have E1: "E (after (before (world s)))" by (rule stable_step [OF st(3) w(2) err(1) [OF P1]])
  have "obeys R (s\<lparr>world := v, script := rest\<rparr>)" for v
    using rest by (simp add: obeys_def)
  then show ?thesis
    using f Q1 E1 err(2) [OF Q1] by (simp add: wpr_def await_def Cons c under_def)
qed

lemma wp_alter:
  assumes "under R P s" "\<And>w. P w \<Longrightarrow> Q (f w)"
  shows "wpr (alter f) (\<lambda>_. under R Q) E s"
  using assms by (simp add: wpr_def alter_def modify_def under_def obeys_def)

lemma wp_peek:
  assumes "under R P s"
  shows "wpr (peek f) (\<lambda>x. under R (\<lambda>w. P w \<and> f w = x)) E s"
  using assms by (simp add: wpr_def peek_def gets_def under_def)

subsection \<open>What a job keeps\<close>

text \<open>\<open>keeps R P m\<close>: as long as the others obey \<open>R\<close>, \<open>m\<close> ends with \<open>P\<close>, whether it returns or raises.\<close>

definition keeps :: "('w \<Rightarrow> 'w \<Rightarrow> bool) \<Rightarrow> ('w \<Rightarrow> bool) \<Rightarrow> ('w, 'e, 'a) job \<Rightarrow> bool" where
  "keeps R P m \<longleftrightarrow> (\<forall>s. under R P s \<longrightarrow> wpr m (\<lambda>_. under R P) (\<lambda>_. under R P) s)"

lemma keepsD: "keeps R P m \<Longrightarrow> under R P s \<Longrightarrow> wpr m (\<lambda>_. under R P) (\<lambda>_. under R P) s"
  by (simp add: keeps_def)

lemma keeps_ret: "keeps R P (ret x)"
  by (simp add: keeps_def wp_ret)

lemma keeps_raise: "keeps R P (raise e)"
  by (simp add: keeps_def wp_raise)

lemma keeps_andThen:
  assumes "keeps R P m" "\<And>x. keeps R P (k x)"
  shows "keeps R P (andThen m k)"
  unfolding keeps_def wp_andThen
proof (intro allI impI)
  fix s assume "under R P s"
  then have "wpr m (\<lambda>_. under R P) (\<lambda>_. under R P) s" by (rule keepsD [OF assms(1)])
  then show "wpr m (\<lambda>x. wpr (k x) (\<lambda>_. under R P) (\<lambda>_. under R P)) (\<lambda>_. under R P) s"
    by (rule wpr_mono) (auto intro: keepsD [OF assms(2)])
qed

lemma keeps_onError:
  assumes "keeps R P m" "\<And>e. keeps R P (h e)"
  shows "keeps R P (onError m h)"
  unfolding keeps_def wp_onError
proof (intro allI impI)
  fix s assume "under R P s"
  then have "wpr m (\<lambda>_. under R P) (\<lambda>_. under R P) s" by (rule keepsD [OF assms(1)])
  then show "wpr m (\<lambda>_. under R P) (\<lambda>e. wpr (h e) (\<lambda>_. under R P) (\<lambda>_. under R P)) s"
    by (rule wpr_mono) (auto intro: keepsD [OF assms(2)])
qed

lemma keeps_alter: "(\<And>w. P w \<Longrightarrow> P (f w)) \<Longrightarrow> keeps R P (alter f)"
  by (simp add: keeps_def wpr_def alter_def modify_def under_def obeys_def)

lemma keeps_peek: "keeps R P (peek f)"
  by (simp add: keeps_def wpr_def peek_def gets_def)

lemma keeps_await:
  assumes "stableUnder R P" "\<And>w. P w \<Longrightarrow> P (snd (f w))"
  shows "keeps R P (await e f)"
  unfolding keeps_def
proof (intro allI impI)
  fix s assume "under R P s"
  from wp_await [OF this assms(1) assms(1) assms(1), of f e] assms(2)
  have "wpr (await e f) (\<lambda>_. under R P) (\<lambda>e'. under R (\<lambda>w. e' = e \<and> P w)) s" by (metis snd_conv)
  then show "wpr (await e f) (\<lambda>_. under R P) (\<lambda>_. under R P) s"
    by (rule wpr_mono) (auto simp: under_def)
qed

lemma keeps_if: "(b \<Longrightarrow> keeps R P m) \<Longrightarrow> (\<not> b \<Longrightarrow> keeps R P k) \<Longrightarrow> keeps R P (if b then m else k)"
  by simp

lemma keeps_onlyIf: "keeps R P m \<Longrightarrow> keeps R P (onlyIf b m)"
  by (simp add: onlyIf_def keeps_ret)

lemmas keeps_intros = keeps_andThen keeps_onError keeps_ret keeps_raise keeps_peek keeps_if keeps_onlyIf

lemma keeps_forEach: "(\<And>x. keeps R P (f x)) \<Longrightarrow> keeps R P (forEach f xs)"
  by (induction xs) (auto intro: keeps_intros)

text \<open>A step whose condition is kept by the rest, and a run.\<close>

lemma wpr_then:
  assumes "wpr m Q E s" "\<And>x s'. Q x s' \<Longrightarrow> wpr (k x) Q' E s'"
  shows "wpr (andThen m k) Q' E s"
  unfolding wp_andThen by (rule wpr_mono [OF assms(1)]) (use assms(2) in auto)

lemma wpr_run: "wpr m Q E s \<Longrightarrow> m s = (r, s') \<Longrightarrow> (case r of Returned x \<Rightarrow> Q x s' | Raised e \<Rightarrow> E e s')"
  by (cases r) (simp_all add: wpr_def)

subsection \<open>When every call succeeds\<close>

definition allDone :: "'w System \<Rightarrow> bool" where
  "allDone s \<longleftrightarrow> list_all (\<lambda>(_, res, _). res = Done) (script s)"

definition underDone :: "('w \<Rightarrow> 'w \<Rightarrow> bool) \<Rightarrow> ('w \<Rightarrow> bool) \<Rightarrow> 'w System \<Rightarrow> bool" where
  "underDone R P s \<longleftrightarrow> under R P s \<and> allDone s"

lemma wp_await_done:
  assumes s: "underDone R P s" and st: "stableUnder R P" "stableUnder R Q"
    and step: "\<And>w. P w \<Longrightarrow> Q (snd (f w))"
  shows "wpr (await e f) (\<lambda>_. underDone R Q) E s"
proof (cases "script s")
  case Nil
  then show ?thesis using s step [of "world s"]
    by (auto simp: wpr_def await_def underDone_def under_def obeys_def allDone_def split: prod.split)
next
  case (Cons c rest)
  obtain before res after where c: "c = (before, res, after)" by (cases c)
  have w: "within R before" "within R after" "res = Done" and rest: "obeys R (s\<lparr>script := rest\<rparr>)" "allDone (s\<lparr>script := rest\<rparr>)"
    using s Cons c by (auto simp: underDone_def under_def obeys_def allDone_def)
  have P1: "P (before (world s))" using stable_step [OF st(1) w(1)] s by (simp add: underDone_def under_def)
  have "Q (after (snd (f (before (world s)))))" by (rule stable_step [OF st(2) w(2) step [OF P1]])
  moreover have "obeys R (s\<lparr>world := v, script := rest\<rparr>)" "allDone (s\<lparr>world := v, script := rest\<rparr>)" for v
    using rest by (simp_all add: obeys_def allDone_def)
  ultimately show ?thesis
    using w(3) by (cases "f (before (world s))") (simp add: wpr_def await_def Cons c underDone_def under_def)
qed

lemma wp_alter_done: "underDone R P s \<Longrightarrow> (\<And>w. P w \<Longrightarrow> Q (f w)) \<Longrightarrow> wpr (alter f) (\<lambda>_. underDone R Q) E s"
  by (simp add: wpr_def alter_def modify_def underDone_def under_def obeys_def allDone_def)

lemma wp_peek_done: "underDone R P s \<Longrightarrow> wpr (peek f) (\<lambda>x s'. s' = s \<and> x = f (world s)) E s"
  by (simp add: wpr_def peek_def gets_def)

lemma underDone_mono: "underDone R P s \<Longrightarrow> (\<And>w. P w \<Longrightarrow> Q w) \<Longrightarrow> underDone R Q s"
  by (auto simp: underDone_def under_def)

end
