(* ===== verification/Prelude.thy ===== *)
theory Prelude
  imports Complex_Main
begin

text \<open>
  Shared vocabulary of the development.

  \<^item> Strings are ASCII (\<open>string\<close> is \<open>char list\<close>); \<open>js_trim\<close> and \<open>js_upper\<close> are
    JavaScript's \<open>trim\<close> and \<open>toUpperCase\<close> on that range, and \<open>normaliseIcao\<close> is the
    key function \<open>icao.trim().toUpperCase()\<close> that several components of the repository
    define for themselves.
  \<^item> A JavaScript \<open>number\<close> that a feed delivers is a \<open>jsnum\<close>: \<open>Some x\<close> for a finite
    value and \<open>None\<close> for every value on which \<open>Number.isFinite\<close> is false (NaN, the
    infinities, and an absent field). Comparisons with \<open>None\<close> are false, as with NaN.
    Rounding of IEEE doubles is not modelled; clock values and satoshi amounts are
    integers below \<open>2 ^ 53\<close>, where doubles are exact.
  \<^item> \<open>Date.now()\<close> is an explicit argument \<open>now :: int\<close> (epoch milliseconds).
  \<^item> The locale \<open>keyed_component\<close> is the interface of every in-memory table of the
    services that is keyed by aircraft: one operation touches one key and the new entry
    depends on the old entry of that key only. Inside it the interleaving lemma is proved
    once: the entry of a key after a mixed stream is the entry after the key's own
    sub-stream.
  \<^item> The locale \<open>exclusive_pool\<close> is the interface of the two pools of outputs, of an aircraft and
    of the treasury.
\<close>

named_theorems norm_simps \<open>rules for normalised keys\<close>
named_theorems op_defs \<open>definitions unfolded when an operation is analysed branch by branch\<close>

type_synonym jsnum = "real option"
type_synonym millis = int

subsection \<open>Strings\<close>

definition js_ws :: "char \<Rightarrow> bool" where
  "js_ws c \<longleftrightarrow> (let n = (of_char c :: nat) in (9 \<le> n \<and> n \<le> 13) \<or> n = 32)"

definition upper_char :: "char \<Rightarrow> char" where
  "upper_char c =
     (if 97 \<le> (of_char c :: nat) \<and> (of_char c :: nat) \<le> 122
      then char_of (of_char c - 32 :: nat) else c)"

definition lower_char :: "char \<Rightarrow> char" where
  "lower_char c =
     (if 65 \<le> (of_char c :: nat) \<and> (of_char c :: nat) \<le> 90
      then char_of (of_char c + 32 :: nat) else c)"

definition trim_left :: "string \<Rightarrow> string" where
  "trim_left s = dropWhile js_ws s"

definition js_trim :: "string \<Rightarrow> string" where
  "js_trim s = rev (trim_left (rev (trim_left s)))"

definition js_upper :: "string \<Rightarrow> string" where
  "js_upper s = map upper_char s"

definition js_lower :: "string \<Rightarrow> string" where
  "js_lower s = map lower_char s"

definition padStart :: "nat \<Rightarrow> char \<Rightarrow> string \<Rightarrow> string" where
  "padStart n c s = replicate (n - length s) c @ s"

definition normaliseIcao :: "string \<Rightarrow> string" where
  "normaliseIcao icao = js_upper (js_trim icao)"

lemma of_char_upper:
  "of_char (upper_char c) =
     (let n = (of_char c :: nat) in if 97 \<le> n \<and> n \<le> 122 then n - 32 else n)"
  by (auto simp: upper_char_def Let_def)

lemma upper_char_idem [simp]: "upper_char (upper_char c) = upper_char c"
  using of_char_upper [of c] by (auto simp: upper_char_def [of "upper_char c"] Let_def split: if_splits)

lemma js_ws_upper [simp]: "js_ws (upper_char c) = js_ws c"
  using of_char_upper [of c] by (auto simp: js_ws_def Let_def split: if_splits)

lemma js_upper_idem [simp]: "js_upper (js_upper s) = js_upper s"
  by (simp add: js_upper_def)

lemma dropWhile_js_upper: "trim_left (js_upper s) = js_upper (trim_left s)"
  by (induction s) (auto simp: js_upper_def trim_left_def)

lemma js_trim_upper: "js_trim (js_upper s) = js_upper (js_trim s)"
  by (metis (no_types, lifting) dropWhile_js_upper js_trim_def js_upper_def rev_map)

lemma trim_left_idem [simp]: "trim_left (trim_left s) = trim_left s"
  by (simp add: trim_left_def)

lemma trim_left_rev_trim_left:
  "trim_left s = s \<Longrightarrow> trim_left (rev (trim_left (rev s))) = rev (trim_left (rev s))"
proof (cases s)
  case (Cons c cs)
  assume eq: "trim_left s = s"
  have "\<not> js_ws c"
  proof
    assume "js_ws c"
    then have "length (trim_left s) \<le> length cs"
      using Cons by (simp add: trim_left_def length_dropWhile_le)
    with eq Cons show False by simp
  qed
  moreover have "trim_left (rev cs @ [c]) = trim_left (rev cs) @ [c]"
    using calculation by (simp add: trim_left_def dropWhile_append3)
  ultimately show ?thesis
    using Cons by (simp add: trim_left_def)
qed (simp add: trim_left_def)

lemma js_trim_idem [simp]: "js_trim (js_trim s) = js_trim s"
  using trim_left_rev_trim_left [of "trim_left s"] by (simp add: js_trim_def)

lemma normaliseIcao_idem [simp, norm_simps]:
  "normaliseIcao (normaliseIcao s) = normaliseIcao s"
  by (simp add: normaliseIcao_def js_trim_upper)

subsection \<open>Numbers\<close>

text \<open>Reading a \<open>jsnum\<close> the way the sanitisers of the repository do: 0 when not finite.\<close>

definition num_or_zero :: "jsnum \<Rightarrow> real" where
  "num_or_zero x = (case x of None \<Rightarrow> 0 | Some r \<Rightarrow> r)"

lemma num_or_zero_simps [simp]: "num_or_zero None = 0" "num_or_zero (Some r) = r"
  by (simp_all add: num_or_zero_def)

subsection \<open>Tables keyed by aircraft\<close>

locale keyed_component =
  fixes upd :: "'r \<Rightarrow> 'd \<Rightarrow> 'd"
    and key :: "'r \<Rightarrow> 'k"
    and view :: "'d \<Rightarrow> 'k \<Rightarrow> 's option"
    and step :: "'r \<Rightarrow> 's option \<Rightarrow> 's option"
  assumes view_upd: "view (upd r d) = (view d)(key r := step r (view d (key r)))"
begin

lemma view_other: "k \<noteq> key r \<Longrightarrow> view (upd r d) k = view d k"
  by (simp add: view_upd)

lemma view_same: "view (upd r d) (key r) = step r (view d (key r))"
  by (simp add: view_upd)

lemma run_project:
  "view (fold upd rs d) k = fold step (filter (\<lambda>r. key r = k) rs) (view d k)"
  by (induction rs arbitrary: d) (auto simp: view_upd)

lemma run_untouched: "k \<notin> key ` set rs \<Longrightarrow> view (fold upd rs d) k = view d k"
  by (induction rs arbitrary: d) (auto simp: view_upd)

lemma run_invariant:
  assumes step: "\<And>r s s'. \<lbrakk>\<And>t. s = Some t \<Longrightarrow> P t; step r s = Some s'\<rbrakk> \<Longrightarrow> P s'"
    and init: "\<And>k s. view d k = Some s \<Longrightarrow> P s"
  shows "view (fold upd rs d) k = Some s \<Longrightarrow> P s"
  using init
proof (induction rs arbitrary: d)
  case Nil
  then show ?case by simp
next
  case (Cons r rs)
  have "P s'" if "view (upd r d) k' = Some s'" for k' s'
    using that Cons.prems(2) by (auto simp: view_upd intro: step split: if_splits)
  with Cons.IH [of "upd r d"] Cons.prems(1) show ?case by simp
qed

lemma commute: "key r \<noteq> key r' \<Longrightarrow> view (upd r (upd r' d)) = view (upd r' (upd r d))"
  by (simp add: view_upd fun_upd_twist)

end

subsection \<open>Outputs held by one task\<close>

text \<open>
  A pool hands out its members by marking them. Every step of the program keeps the invariant of the pool, and a
  step that does not free a member leaves its mark; so a member stays marked through every run of such steps.
\<close>

locale exclusive_pool =
  fixes step :: "'e \<Rightarrow> 'm \<Rightarrow> 'm"
    and inv :: "'m \<Rightarrow> bool"
    and holds :: "'k \<Rightarrow> 'm \<Rightarrow> bool"
    and frees :: "'k \<Rightarrow> 'e \<Rightarrow> bool"
  assumes step_inv: "inv m \<Longrightarrow> inv (step a m)"
    and step_holds: "inv m \<Longrightarrow> holds k m \<Longrightarrow> \<not> frees k a \<Longrightarrow> holds k (step a m)"
begin

lemma run_inv: "inv m \<Longrightarrow> inv (fold step as m)"
  by (induction as arbitrary: m) (simp_all add: step_inv)

lemma run_holds:
  "inv m \<Longrightarrow> holds k m \<Longrightarrow> list_all (\<lambda>a. \<not> frees k a) as \<Longrightarrow> holds k (fold step as m)"
  by (induction as arbitrary: m) (simp_all add: step_inv step_holds)

end

end
