(* ===== verification/Types.thy ===== *)
theory Types
  imports Prelude
begin

text \<open>
  The shared data model of \<open>packages/types/src/index.ts\<close>: flight phases, record types,
  the telemetry record with every field of the interface, phase transitions, alert
  severities and the write-rate constants. Optional and possibly non-finite numbers are
  \<open>jsnum\<close>; timestamps are epoch milliseconds (\<open>None\<close> when not finite). The pipeline
  stamps them with \<open>Date.now()\<close> in \<open>mergeRecords\<close>, so they are integers.
\<close>

datatype FlightPhase =
  PARKED | TAXI | TAKEOFF | CLIMB | CRUISE | DESCENT | APPROACH | LANDING | TAXI_IN

datatype RecordType =
  TELEMETRY | FLIGHT_EVENT | TELEMETRY_DELTA | AGENT_ANALYSIS | AGENT_MONITOR

text \<open>\<open>EmergencyString\<close>; the hyphenless source literals are the constructor suffixes.\<close>

datatype EmergencyString =
  Em_none | Em_general | Em_lifeguard | Em_minfuel | Em_nordo | Em_unlawful | Em_downed

record TelemetryRecord =
  tr_icao :: string
  tr_callsign :: string
  tr_reg :: string
  tr_squawk :: "string option"
  tr_aircraft_type :: string
  tr_aircraft_desc :: "string option"
  tr_category :: string
  tr_ts :: "millis option"
  tr_ts_pos :: "millis option"
  tr_lat :: jsnum
  tr_lon :: jsnum
  tr_alt_baro :: jsnum
  tr_alt_geom :: jsnum
  tr_on_ground :: bool
  tr_gs :: jsnum
  tr_ias :: jsnum
  tr_tas :: jsnum
  tr_mach :: jsnum
  tr_track :: jsnum
  tr_true_heading :: jsnum
  tr_mag_heading :: jsnum
  tr_baro_rate :: jsnum
  tr_geom_rate :: jsnum
  tr_roll :: jsnum
  tr_wind_dir :: jsnum
  tr_wind_speed :: jsnum
  tr_oat :: jsnum
  tr_tat :: jsnum
  tr_nav_qnh :: jsnum
  tr_nav_alt_mcp :: jsnum
  tr_nav_alt_fms :: jsnum
  tr_nav_heading :: jsnum
  tr_nav_modes :: "string list"
  tr_nic :: jsnum
  tr_rc :: jsnum
  tr_adsb_version :: jsnum
  tr_position_source :: jsnum
  tr_num_receivers :: jsnum
  tr_emergency :: "EmergencyString option"
  tr_data_sources :: "string list"
  tr_seq :: nat
  tr_flight_id :: "string option"

text \<open>The all-zero record of \<open>emptyRecord\<close> in \<open>services/ingestion/src/merger.ts\<close>.\<close>

definition emptyRecord :: TelemetryRecord where
  "emptyRecord =
    \<lparr> tr_icao = '''', tr_callsign = '''', tr_reg = '''', tr_squawk = Some '''',
      tr_aircraft_type = '''', tr_aircraft_desc = None, tr_category = '''',
      tr_ts = Some 0, tr_ts_pos = Some 0, tr_lat = Some 0, tr_lon = Some 0,
      tr_alt_baro = Some 0, tr_alt_geom = Some 0, tr_on_ground = False,
      tr_gs = Some 0, tr_ias = Some 0, tr_tas = Some 0, tr_mach = Some 0,
      tr_track = Some 0, tr_true_heading = Some 0, tr_mag_heading = Some 0,
      tr_baro_rate = Some 0, tr_geom_rate = Some 0, tr_roll = Some 0,
      tr_wind_dir = Some 0, tr_wind_speed = Some 0, tr_oat = Some 0, tr_tat = Some 0,
      tr_nav_qnh = Some 0, tr_nav_alt_mcp = Some 0, tr_nav_alt_fms = Some 0,
      tr_nav_heading = Some 0, tr_nav_modes = [], tr_nic = Some 0, tr_rc = Some 0,
      tr_adsb_version = Some 0, tr_position_source = Some 0, tr_num_receivers = Some 0,
      tr_emergency = Some Em_none, tr_data_sources = [], tr_seq = 0,
      tr_flight_id = None \<rparr>"

record PhaseTransition =
  pt_aircraft_icao :: string
  pt_from_phase :: FlightPhase
  pt_to_phase :: FlightPhase
  pt_timestamp :: millis
  pt_telemetry :: TelemetryRecord

datatype AlertSeverity = INFO | WARNING | CRITICAL | EMERGENCY

definition MIN_WRITE_INTERVAL_MS :: millis where
  "MIN_WRITE_INTERVAL_MS = 1000"

fun DEFAULT_WRITE_RATES :: "FlightPhase \<Rightarrow> millis" where
  "DEFAULT_WRITE_RATES PARKED = 60000"
| "DEFAULT_WRITE_RATES TAXI = 2000"
| "DEFAULT_WRITE_RATES TAKEOFF = MIN_WRITE_INTERVAL_MS"
| "DEFAULT_WRITE_RATES CLIMB = MIN_WRITE_INTERVAL_MS"
| "DEFAULT_WRITE_RATES CRUISE = MIN_WRITE_INTERVAL_MS"
| "DEFAULT_WRITE_RATES DESCENT = MIN_WRITE_INTERVAL_MS"
| "DEFAULT_WRITE_RATES APPROACH = MIN_WRITE_INTERVAL_MS"
| "DEFAULT_WRITE_RATES LANDING = MIN_WRITE_INTERVAL_MS"
| "DEFAULT_WRITE_RATES TAXI_IN = 2000"

text \<open>\<open>isEmergencySquawk\<close>.\<close>

definition isEmergencySquawk :: "string \<Rightarrow> bool" where
  "isEmergencySquawk code \<longleftrightarrow> code = ''7700'' \<or> code = ''7600'' \<or> code = ''7500''"

text \<open>The byte each record type is written as.\<close>

fun recordTypeByte :: "RecordType \<Rightarrow> nat" where
  "recordTypeByte TELEMETRY = 1"
| "recordTypeByte FLIGHT_EVENT = 2"
| "recordTypeByte TELEMETRY_DELTA = 3"
| "recordTypeByte AGENT_ANALYSIS = 4"
| "recordTypeByte AGENT_MONITOR = 5"

lemma recordTypeByte_inj [simp]: "recordTypeByte a = recordTypeByte b \<longleftrightarrow> a = b"
  by (cases a; cases b) simp_all

lemma recordTypeByte_range: "1 \<le> recordTypeByte a" "recordTypeByte a \<le> 5"
  by (cases a; simp)+

text \<open>The two halves of the phase set: an aircraft with weight on wheels, and one without.\<close>

definition ground_phases :: "FlightPhase set" where
  "ground_phases = {PARKED, TAXI, LANDING, TAXI_IN}"

definition air_phases :: "FlightPhase set" where
  "air_phases = {TAKEOFF, CLIMB, CRUISE, DESCENT, APPROACH}"

lemma ground_phases_iff [simp]:
  "PARKED \<in> ground_phases" "TAXI \<in> ground_phases" "LANDING \<in> ground_phases"
  "TAXI_IN \<in> ground_phases" "TAKEOFF \<notin> ground_phases" "CLIMB \<notin> ground_phases"
  "CRUISE \<notin> ground_phases" "DESCENT \<notin> ground_phases" "APPROACH \<notin> ground_phases"
  by (simp_all add: ground_phases_def)

lemma air_phases_compl: "p \<in> air_phases \<longleftrightarrow> p \<notin> ground_phases"
  by (cases p) (simp_all add: ground_phases_def air_phases_def)

end
