(* ===== verification/Feed_Clients.thy ===== *)
theory Feed_Clients
  imports Types
begin

text \<open>
  The feed clients of the ingestion service, \<open>services/ingestion/src/clients/\<close>, up to the HTTP
  request: how one aircraft of an adsb.fi, dump1090 or OpenSky answer becomes a
  \<open>Partial<TelemetryRecord>\<close>, with \<open>normaliseCallsign\<close> of
  \<open>packages/types/src/callsign.ts\<close>.

  A partial record is a JavaScript object: a map from property names to values. The
  answers are JSON, so every number in them is finite and an absent property is \<open>None\<close>; the
  interfaces are taken at their word about the type of a property. Lemmas give the
  type of every property a client writes and the spelling of the address.
\<close>

subsection \<open>Objects\<close>

datatype JsValue = JNull | JNum jsnum | JStr string | JBool bool | JStrs "string list"

type_synonym JsObject = "string \<rightharpoonup> JsValue"

datatype JsType = TNum | TStr | TBool | TStrs

fun hasType :: "JsType \<Rightarrow> JsValue \<Rightarrow> bool" where
  "hasType TNum (JNum _) = True"
| "hasType TStr (JStr _) = True"
| "hasType TBool (JBool _) = True"
| "hasType TStrs (JStrs _) = True"
| "hasType _ _ = False"

text \<open>The interface \<open>TelemetryRecord\<close> as a table of property types.\<close>

definition telemetryProps :: "(string \<times> JsType) list" where
  "telemetryProps =
    [(''icao'', TStr), (''callsign'', TStr), (''reg'', TStr), (''squawk'', TStr),
     (''aircraft_type'', TStr), (''category'', TStr), (''ts'', TNum), (''ts_pos'', TNum),
     (''lat'', TNum), (''lon'', TNum), (''alt_baro'', TNum), (''alt_geom'', TNum),
     (''on_ground'', TBool), (''gs'', TNum), (''ias'', TNum), (''tas'', TNum), (''mach'', TNum),
     (''track'', TNum), (''true_heading'', TNum), (''mag_heading'', TNum), (''baro_rate'', TNum),
     (''geom_rate'', TNum), (''roll'', TNum), (''wind_dir'', TNum), (''wind_speed'', TNum),
     (''oat'', TNum), (''tat'', TNum), (''nav_qnh'', TNum), (''nav_alt_mcp'', TNum),
     (''nav_alt_fms'', TNum), (''nav_heading'', TNum), (''nav_modes'', TStrs), (''nic'', TNum),
     (''rc'', TNum), (''adsb_version'', TNum), (''position_source'', TNum),
     (''num_receivers'', TNum), (''emergency'', TStr), (''data_sources'', TStrs), (''seq'', TNum)]"

definition optionalProps :: "(string \<times> JsType) list" where
  "optionalProps = [(''aircraft_desc'', TStr), (''flight_id'', TStr)]"

definition propType :: "string \<Rightarrow> JsType option" where
  "propType = map_of (telemetryProps @ optionalProps)"

definition valueTyped :: "string \<Rightarrow> JsValue \<Rightarrow> bool" where
  "valueTyped f v \<longleftrightarrow> (case propType f of Some t \<Rightarrow> hasType t v | None \<Rightarrow> False)"

text \<open>Every property is one of the interface's, at its type.\<close>

definition partialTyped :: "JsObject \<Rightarrow> bool" where
  "partialTyped ob \<longleftrightarrow> (\<forall>f v. ob f = Some v \<longrightarrow> valueTyped f v)"

definition telemetryTyped :: "JsObject \<Rightarrow> bool" where
  "telemetryTyped ob \<longleftrightarrow> partialTyped ob \<and> list_all (\<lambda>ft. ob (fst ft) \<noteq> None) telemetryProps"

definition listTyped :: "(string \<times> JsValue) list \<Rightarrow> bool" where
  "listTyped l \<longleftrightarrow> list_all (\<lambda>fv. valueTyped (fst fv) (snd fv)) l"

lemma listTyped_Nil [simp]: "listTyped []"
  by (simp add: listTyped_def)

lemma listTyped_append [simp]: "listTyped (l @ l') \<longleftrightarrow> listTyped l \<and> listTyped l'"
  by (simp add: listTyped_def)

lemma partialTyped_map_of: "listTyped l \<Longrightarrow> partialTyped (map_of l)"
  unfolding partialTyped_def listTyped_def list_all_iff
  by (force dest!: map_of_SomeD)

subsection \<open>Callsigns\<close>

definition filler :: "char \<Rightarrow> bool" where
  "filler c \<longleftrightarrow> c \<in> set ''-_.?#*''"

definition alnum :: "char \<Rightarrow> bool" where
  "alnum c \<longleftrightarrow> (let n = (of_char c :: nat) in (65 \<le> n \<and> n \<le> 90) \<or> (48 \<le> n \<and> n \<le> 57))"

definition normaliseCallsign :: "string option \<Rightarrow> string option \<Rightarrow> string option" where
  "normaliseCallsign raw icao =
     (case raw of None \<Rightarrow> None
      | Some r \<Rightarrow>
          (let cs = js_upper (js_trim (filter (\<lambda>c. c \<noteq> CHR ''@'') r)) in
           if cs = '''' then None
           else if list_all filler cs then None
           else if \<not> list_ex alnum cs then None
           else (case map_option normaliseIcao icao of
                   None \<Rightarrow> Some cs
                 | Some hex \<Rightarrow> if hex \<noteq> '''' \<and> cs = hex then None else Some cs)))"

definition callsignOr :: "string \<Rightarrow> string option \<Rightarrow> string" where
  "callsignOr d c = (case c of Some s \<Rightarrow> s | None \<Rightarrow> d)"

text \<open>What \<open>normaliseCallsign\<close> accepts: trimmed, upper case, with a letter or a digit, without
  padding, and never the address itself.\<close>

lemma normaliseCallsign_accepts:
  assumes "normaliseCallsign raw icao = Some cs"
  shows "list_ex alnum cs" "normaliseIcao cs = cs" "\<And>i. icao = Some i \<Longrightarrow> cs \<noteq> normaliseIcao i"
proof -
  obtain r where r: "raw = Some r" "cs = js_upper (js_trim (filter (\<lambda>c. c \<noteq> CHR ''@'') r))"
    and ex: "list_ex alnum cs" and no: "\<And>i. icao = Some i \<Longrightarrow> cs \<noteq> '''' \<Longrightarrow> cs \<noteq> normaliseIcao i" and ne: "cs \<noteq> ''''"
    using assms by (auto simp: normaliseCallsign_def Let_def split: option.splits if_splits)
  show "list_ex alnum cs" by (rule ex)
  show "normaliseIcao cs = cs" by (simp add: r(2) normaliseIcao_def js_trim_upper)
  show "\<And>i. icao = Some i \<Longrightarrow> cs \<noteq> normaliseIcao i" using no ne by blast
qed

lemma normaliseCallsign_stable:
  assumes "normaliseCallsign raw icao = Some cs"
  shows "CHR ''@'' \<in> set cs \<or> normaliseCallsign (Some cs) icao = Some cs"
proof (cases "CHR ''@'' \<in> set cs")
  case no_pad: False
  have "filter (\<lambda>c. c \<noteq> CHR ''@'') cs = cs" using no_pad by (auto simp: filter_id_conv)
  moreover have "js_upper (js_trim cs) = cs"
    using normaliseCallsign_accepts(2) [OF assms] by (simp add: normaliseIcao_def)
  ultimately have "normaliseCallsign (Some cs) icao = Some cs"
    using assms by (auto simp: normaliseCallsign_def Let_def split: option.splits if_splits)
  then show ?thesis by simp
qed simp

subsection \<open>adsb.fi\<close>

datatype AltBaro = Ground | Feet real

text \<open>The two feeds share the readsb vocabulary; \<open>ac_desc\<close>, \<open>ac_on_ground\<close> and \<open>ac_seen_pos\<close>
  only occur in the adsb.fi interface.\<close>

record ReadsbAircraft =
  ac_hex :: "string option"
  ac_flight :: "string option"
  ac_alt_baro :: "AltBaro option"
  ac_alt_geom :: "real option"
  ac_gs :: "real option"
  ac_ias :: "real option"
  ac_tas :: "real option"
  ac_mach :: "real option"
  ac_track :: "real option"
  ac_true_heading :: "real option"
  ac_mag_heading :: "real option"
  ac_baro_rate :: "real option"
  ac_geom_rate :: "real option"
  ac_roll :: "real option"
  ac_squawk :: "string option"
  ac_emergency :: "string option"
  ac_category :: "string option"
  ac_lat :: "real option"
  ac_lon :: "real option"
  ac_nic :: "real option"
  ac_rc :: "real option"
  ac_version :: "real option"
  ac_nav_qnh :: "real option"
  ac_nav_altitude_mcp :: "real option"
  ac_nav_altitude_fms :: "real option"
  ac_nav_heading :: "real option"
  ac_nav_modes :: "string list option"
  ac_wd :: "real option"
  ac_ws :: "real option"
  ac_oat :: "real option"
  ac_tat :: "real option"
  ac_r :: "string option"
  ac_t :: "string option"

record AdsbFiAircraft = ReadsbAircraft +
  ac_desc :: "string option"
  ac_on_ground :: "bool option"
  ac_seen_pos :: "real option"

text \<open>The \<open>??\<close> operator with a literal on the right.\<close>

definition numOr0 :: "real option \<Rightarrow> JsValue" where
  "numOr0 x = JNum (Some (case x of Some r \<Rightarrow> r | None \<Rightarrow> 0))"

definition strOrEmpty :: "string option \<Rightarrow> JsValue" where
  "strOrEmpty s = JStr (case s of Some t \<Rightarrow> t | None \<Rightarrow> '''')"

definition KNOWN_EMERGENCY :: "string list" where
  "KNOWN_EMERGENCY =
     [''none'', ''general'', ''lifeguard'', ''minfuel'', ''nordo'', ''unlawful'', ''downed'']"

definition normaliseEmergency :: "string option \<Rightarrow> string" where
  "normaliseEmergency raw =
     (case raw of None \<Rightarrow> ''none''
      | Some r \<Rightarrow> if r = '''' then ''none''
                  else (let lower = js_lower (js_trim r) in
                        if lower \<in> set KNOWN_EMERGENCY then lower else ''none''))"

definition altBaroOf :: "AltBaro option \<Rightarrow> JsValue" where
  "altBaroOf a = JNum (Some (case a of Some (Feet r) \<Rightarrow> r | _ \<Rightarrow> 0))"

definition hasPosition :: "real option \<Rightarrow> real option \<Rightarrow> bool" where
  "hasPosition lat lon \<longleftrightarrow>
     (case (lat, lon) of (Some a, Some b) \<Rightarrow> \<not> (a = 0 \<and> b = 0) | _ \<Rightarrow> False)"

definition mapAdsbFiAircraft :: "AdsbFiAircraft \<Rightarrow> JsObject option" where
  "mapAdsbFiAircraft ac =
     (case ac_hex ac of None \<Rightarrow> None
      | Some hex \<Rightarrow> if hex = '''' then None else
     (let onGround = (ac_alt_baro ac = Some Ground \<or> ac_on_ground ac = Some True);
          emergency = normaliseEmergency (ac_emergency ac);
          icao = js_upper hex
      in Some (map_of (
       [(''icao'', JStr icao),
        (''callsign'', JStr (callsignOr '''' (normaliseCallsign (ac_flight ac) (Some icao)))),
        (''reg'', strOrEmpty (ac_r ac)), (''aircraft_type'', strOrEmpty (ac_t ac)),
        (''aircraft_desc'', strOrEmpty (ac_desc ac)), (''category'', strOrEmpty (ac_category ac)),
        (''alt_baro'', altBaroOf (ac_alt_baro ac)), (''alt_geom'', numOr0 (ac_alt_geom ac)),
        (''on_ground'', JBool onGround), (''gs'', numOr0 (ac_gs ac)), (''ias'', numOr0 (ac_ias ac)),
        (''tas'', numOr0 (ac_tas ac)), (''mach'', numOr0 (ac_mach ac)), (''track'', numOr0 (ac_track ac)),
        (''true_heading'', numOr0 (ac_true_heading ac)), (''mag_heading'', numOr0 (ac_mag_heading ac)),
        (''baro_rate'', numOr0 (ac_baro_rate ac)), (''geom_rate'', numOr0 (ac_geom_rate ac)),
        (''roll'', numOr0 (ac_roll ac)), (''squawk'', strOrEmpty (ac_squawk ac)),
        (''emergency'', JStr emergency), (''nic'', numOr0 (ac_nic ac)), (''rc'', numOr0 (ac_rc ac)),
        (''adsb_version'', numOr0 (ac_version ac)), (''wind_dir'', numOr0 (ac_wd ac)),
        (''wind_speed'', numOr0 (ac_ws ac)), (''oat'', numOr0 (ac_oat ac)), (''tat'', numOr0 (ac_tat ac)),
        (''nav_qnh'', numOr0 (ac_nav_qnh ac)), (''nav_alt_mcp'', numOr0 (ac_nav_altitude_mcp ac)),
        (''nav_alt_fms'', numOr0 (ac_nav_altitude_fms ac)), (''nav_heading'', numOr0 (ac_nav_heading ac)),
        (''nav_modes'', JStrs (case ac_nav_modes ac of Some l \<Rightarrow> l | None \<Rightarrow> [])),
        (''data_sources'', JStrs [''adsbfi''])]
       @ (if hasPosition (ac_lat ac) (ac_lon ac)
          then [(''lat'', JNum (ac_lat ac)), (''lon'', JNum (ac_lon ac))] else [])))))"

subsection \<open>The local receiver\<close>

definition mapDump1090Aircraft :: "ReadsbAircraft \<Rightarrow> JsObject option" where
  "mapDump1090Aircraft ac =
     (case ac_hex ac of None \<Rightarrow> None
      | Some hex \<Rightarrow> if hex = '''' then None else
     (let onGround = (ac_alt_baro ac = Some Ground);
          emergency = normaliseEmergency (ac_emergency ac);
          icao = js_upper hex
      in Some (map_of
       [(''icao'', JStr icao),
        (''callsign'', JStr (callsignOr '''' (normaliseCallsign (ac_flight ac) (Some icao)))),
        (''reg'', strOrEmpty (ac_r ac)), (''aircraft_type'', strOrEmpty (ac_t ac)),
        (''category'', strOrEmpty (ac_category ac)), (''lat'', numOr0 (ac_lat ac)),
        (''lon'', numOr0 (ac_lon ac)), (''alt_baro'', altBaroOf (ac_alt_baro ac)),
        (''alt_geom'', numOr0 (ac_alt_geom ac)), (''on_ground'', JBool onGround),
        (''gs'', numOr0 (ac_gs ac)), (''ias'', numOr0 (ac_ias ac)), (''tas'', numOr0 (ac_tas ac)),
        (''mach'', numOr0 (ac_mach ac)), (''track'', numOr0 (ac_track ac)),
        (''true_heading'', numOr0 (ac_true_heading ac)), (''mag_heading'', numOr0 (ac_mag_heading ac)),
        (''baro_rate'', numOr0 (ac_baro_rate ac)), (''geom_rate'', numOr0 (ac_geom_rate ac)),
        (''roll'', numOr0 (ac_roll ac)), (''squawk'', strOrEmpty (ac_squawk ac)),
        (''emergency'', JStr emergency), (''nic'', numOr0 (ac_nic ac)), (''rc'', numOr0 (ac_rc ac)),
        (''adsb_version'', numOr0 (ac_version ac)), (''wind_dir'', numOr0 (ac_wd ac)),
        (''wind_speed'', numOr0 (ac_ws ac)), (''oat'', numOr0 (ac_oat ac)), (''tat'', numOr0 (ac_tat ac)),
        (''nav_qnh'', numOr0 (ac_nav_qnh ac)), (''nav_alt_mcp'', numOr0 (ac_nav_altitude_mcp ac)),
        (''nav_alt_fms'', numOr0 (ac_nav_altitude_fms ac)), (''nav_heading'', numOr0 (ac_nav_heading ac)),
        (''nav_modes'', JStrs (case ac_nav_modes ac of Some l \<Rightarrow> l | None \<Rightarrow> [])),
        (''data_sources'', JStrs [''rtlsdr''])])))"

subsection \<open>OpenSky\<close>

definition MPS_TO_KNOTS :: real where "MPS_TO_KNOTS = 194384 / 100000"
definition METRES_TO_FEET :: real where "METRES_TO_FEET = 328084 / 100000"
definition MPS_TO_FTMIN :: real where "MPS_TO_FTMIN = 19685 / 100"

text \<open>The columns of a state vector the client reads, for a vector of at least 17 entries.\<close>

record OpenSkyState =
  os_icao24 :: "string option"
  os_callsign :: "string option"
  os_time_position :: "real option"
  os_longitude :: "real option"
  os_latitude :: "real option"
  os_baro_altitude :: "real option"
  os_on_ground :: "bool option"
  os_velocity :: "real option"
  os_true_track :: "real option"
  os_vertical_rate :: "real option"
  os_geo_altitude :: "real option"
  os_squawk :: "string option"
  os_position_source :: "real option"

definition scaledOr0 :: "real option \<Rightarrow> real \<Rightarrow> JsValue" where
  "scaledOr0 x k = JNum (Some (case x of Some r \<Rightarrow> r * k | None \<Rightarrow> 0))"

definition mapOpenSkyState :: "OpenSkyState option \<Rightarrow> JsObject option" where
  "mapOpenSkyState st =
     (case st of None \<Rightarrow> None
      | Some s \<Rightarrow> (case os_icao24 s of None \<Rightarrow> None
      | Some icao \<Rightarrow> if icao = '''' then None else
     (let upperIcao = js_upper icao;
          callsign = (case os_callsign s of
                        Some c \<Rightarrow> callsignOr '''' (normaliseCallsign (Some c) (Some upperIcao))
                      | None \<Rightarrow> '''')
      in Some (map_of
       [(''icao'', JStr upperIcao), (''callsign'', JStr callsign),
        (''ts_pos'', scaledOr0 (os_time_position s) 1000),
        (''lat'', numOr0 (os_latitude s)), (''lon'', numOr0 (os_longitude s)),
        (''alt_baro'', scaledOr0 (os_baro_altitude s) METRES_TO_FEET),
        (''alt_geom'', scaledOr0 (os_geo_altitude s) METRES_TO_FEET),
        (''on_ground'', JBool (case os_on_ground s of Some b \<Rightarrow> b | None \<Rightarrow> False)),
        (''gs'', scaledOr0 (os_velocity s) MPS_TO_KNOTS), (''track'', numOr0 (os_true_track s)),
        (''baro_rate'', scaledOr0 (os_vertical_rate s) MPS_TO_FTMIN),
        (''squawk'', strOrEmpty (os_squawk s)), (''position_source'', numOr0 (os_position_source s)),
        (''data_sources'', JStrs [''opensky''])]))))"

subsection \<open>What the clients deliver\<close>

definition strProp :: "JsObject \<Rightarrow> string \<Rightarrow> string" where
  "strProp ob f = (case ob f of Some (JStr s) \<Rightarrow> s | _ \<Rightarrow> '''')"

text \<open>A partial record the merger can rely on: typed, with an upper-case non-empty address and
  the name of its feed.\<close>

definition feedRecord :: "string \<Rightarrow> JsObject \<Rightarrow> bool" where
  "feedRecord src ob \<longleftrightarrow> partialTyped ob \<and> strProp ob ''icao'' \<noteq> ''''
     \<and> js_upper (strProp ob ''icao'') = strProp ob ''icao'' \<and> ob ''data_sources'' = Some (JStrs [src])"

text \<open>The table, property by property.\<close>

lemma propType_eval [simp]:
  "propType ''icao'' = Some TStr"
  "propType ''callsign'' = Some TStr"
  "propType ''reg'' = Some TStr"
  "propType ''squawk'' = Some TStr"
  "propType ''aircraft_type'' = Some TStr"
  "propType ''category'' = Some TStr"
  "propType ''ts'' = Some TNum"
  "propType ''ts_pos'' = Some TNum"
  "propType ''lat'' = Some TNum"
  "propType ''lon'' = Some TNum"
  "propType ''alt_baro'' = Some TNum"
  "propType ''alt_geom'' = Some TNum"
  "propType ''on_ground'' = Some TBool"
  "propType ''gs'' = Some TNum"
  "propType ''ias'' = Some TNum"
  "propType ''tas'' = Some TNum"
  "propType ''mach'' = Some TNum"
  "propType ''track'' = Some TNum"
  "propType ''true_heading'' = Some TNum"
  "propType ''mag_heading'' = Some TNum"
  "propType ''baro_rate'' = Some TNum"
  "propType ''geom_rate'' = Some TNum"
  "propType ''roll'' = Some TNum"
  "propType ''wind_dir'' = Some TNum"
  "propType ''wind_speed'' = Some TNum"
  "propType ''oat'' = Some TNum"
  "propType ''tat'' = Some TNum"
  "propType ''nav_qnh'' = Some TNum"
  "propType ''nav_alt_mcp'' = Some TNum"
  "propType ''nav_alt_fms'' = Some TNum"
  "propType ''nav_heading'' = Some TNum"
  "propType ''nav_modes'' = Some TStrs"
  "propType ''nic'' = Some TNum"
  "propType ''rc'' = Some TNum"
  "propType ''adsb_version'' = Some TNum"
  "propType ''position_source'' = Some TNum"
  "propType ''num_receivers'' = Some TNum"
  "propType ''emergency'' = Some TStr"
  "propType ''data_sources'' = Some TStrs"
  "propType ''seq'' = Some TNum"
  "propType ''aircraft_desc'' = Some TStr"
  "propType ''flight_id'' = Some TStr"
  by code_simp+

lemma hasType_values [simp]:
  "hasType TNum (numOr0 x)" "hasType TStr (strOrEmpty s)" "hasType TNum (altBaroOf a)"
  "hasType TNum (scaledOr0 x k)"
  by (simp_all add: numOr0_def strOrEmpty_def altBaroOf_def scaledOr0_def)

lemma listTyped_Cons [simp]: "listTyped ((f, v) # l) \<longleftrightarrow> valueTyped f v \<and> listTyped l"
  by (simp add: listTyped_def)

lemma valueTyped_simp [simp]: "propType f = Some t \<Longrightarrow> valueTyped f v = hasType t v"
  by (simp add: valueTyped_def)

lemma js_upper_eq_Nil [simp]: "js_upper s = [] \<longleftrightarrow> s = []"
  by (simp add: js_upper_def)

lemma feedRecord_intro:
  assumes "listTyped ((''icao'', JStr (js_upper hex)) # l)" and "hex \<noteq> ''''"
    and "map_of l ''data_sources'' = Some (JStrs [src])"
  shows "feedRecord src (map_of ((''icao'', JStr (js_upper hex)) # l))"
  using partialTyped_map_of [OF assms(1)] assms(2,3) by (simp add: feedRecord_def strProp_def)

text \<open>The guard every client shares: an entry without an address is skipped.\<close>

lemma guarded_delivers:
  assumes "(case h of None \<Rightarrow> None | Some hex \<Rightarrow> if hex = '''' then None else Some (f hex)) = Some ob"
    and "\<And>hex. hex \<noteq> '''' \<Longrightarrow> feedRecord src (f hex)"
  shows "feedRecord src ob"
  using assms by (auto split: option.splits if_splits)

lemma adsbfi_delivers: "mapAdsbFiAircraft ac = Some ob \<Longrightarrow> feedRecord ''adsbfi'' ob"
  unfolding mapAdsbFiAircraft_def Let_def append_Cons
  by (erule guarded_delivers, erule feedRecord_intro [rotated]) simp_all

lemma rtlsdr_delivers: "mapDump1090Aircraft ac = Some ob \<Longrightarrow> feedRecord ''rtlsdr'' ob"
  unfolding mapDump1090Aircraft_def Let_def
  by (erule guarded_delivers, erule feedRecord_intro [rotated]) simp_all

lemma opensky_delivers: "mapOpenSkyState st = Some ob \<Longrightarrow> feedRecord ''opensky'' ob"
  unfolding mapOpenSkyState_def Let_def
  by (cases st, simp, simp only: option.case, erule guarded_delivers,
      erule feedRecord_intro [rotated]) simp_all

subsection \<open>The requests\<close>

text \<open>What a request comes to: an exception (time-out, malformed JSON), a status that is not a
  success, an answer without a list, or a list. A batch of the adsb.fi client asks for at most
  \<open>MAX_BATCH\<close> aircraft; an exception in one batch discards the batches before it, a bad status
  skips the batch.\<close>

datatype 'a answer = Throws | NotOk | NoList | Entries "'a list"

definition MAX_BATCH :: nat where "MAX_BATCH = 300"

function batches :: "'a list \<Rightarrow> 'a list list" where
  "batches l = (if l = [] then [] else take MAX_BATCH l # batches (drop MAX_BATCH l))"
  by pat_completeness auto
termination by (relation "measure length") (auto simp: MAX_BATCH_def)

declare batches.simps [simp del]

definition entriesOf :: "('a \<Rightarrow> JsObject option) \<Rightarrow> 'a answer \<Rightarrow> JsObject list" where
  "entriesOf f a = (case a of Entries l \<Rightarrow> List.map_filter f l | _ \<Rightarrow> [])"

definition fetchAdsbFi :: "(string list \<Rightarrow> AdsbFiAircraft answer) \<Rightarrow> string list \<Rightarrow> JsObject list" where
  "fetchAdsbFi net icaoList =
     (if icaoList = [] then []
      else let answers = map (\<lambda>b. net (map js_lower b)) (batches icaoList) in
           if Throws \<in> set answers then [] else concat (map (entriesOf mapAdsbFiAircraft) answers))"

definition fetchOpenSky :: "(string list \<Rightarrow> OpenSkyState option answer) \<Rightarrow> string list \<Rightarrow> JsObject list" where
  "fetchOpenSky net icaoList =
     (if icaoList = [] then [] else entriesOf mapOpenSkyState (net (map js_lower icaoList)))"

definition fetchRtlSdr :: "ReadsbAircraft answer \<Rightarrow> JsObject list" where
  "fetchRtlSdr a = entriesOf mapDump1090Aircraft a"

text \<open>Every aircraft is asked for exactly once, in requests of bounded size.\<close>

lemma batches_concat: "concat (batches l) = l"
  by (induction l rule: batches.induct) (subst batches.simps, simp)

lemma batches_bounded: "b \<in> set (batches l) \<Longrightarrow> b \<noteq> [] \<and> length b \<le> MAX_BATCH"
proof (induction l rule: batches.induct)
  case (1 l)
  then show ?case
    by (cases "l = []") (auto simp: batches.simps [of l] batches.simps [of "[]"] MAX_BATCH_def)
qed

lemma entriesOf_delivers:
  "\<lbrakk>p \<in> set (entriesOf f a); \<And>x ob. f x = Some ob \<Longrightarrow> feedRecord src ob\<rbrakk> \<Longrightarrow> feedRecord src p"
  by (auto simp: entriesOf_def List.map_filter_def split: answer.splits)

lemma fetches_deliver:
  "p \<in> set (fetchAdsbFi net icaos) \<Longrightarrow> feedRecord ''adsbfi'' p"
  "p \<in> set (fetchOpenSky net2 icaos) \<Longrightarrow> feedRecord ''opensky'' p"
  "p \<in> set (fetchRtlSdr a) \<Longrightarrow> feedRecord ''rtlsdr'' p"
  by (auto simp: fetchAdsbFi_def fetchOpenSky_def fetchRtlSdr_def Let_def split: if_splits
      dest: entriesOf_delivers [OF _ adsbfi_delivers] entriesOf_delivers [OF _ opensky_delivers]
        entriesOf_delivers [OF _ rtlsdr_delivers])

end
