(* ===== verification/Airports.thy ===== *)
theory Airports
  imports Types
begin

text \<open>
  The airport database: \<open>packages/airports/src/airport-lookup.ts\<close>. Reading the CSV text, the
  codes that may be stored, great-circle distances and the nearest-airport search.

  A grid key is the pair of the two floors it is printed from. Distances are exact reals; the
  distance is \<open>None\<close> where the square root of the source is \<open>NaN\<close>. \<open>Math.atan2\<close> is only applied to
  non-negative arguments. \<open>AirportInfo\<close> has the fields of \<open>AirportEntry\<close> with \<open>icao\<close> renamed,
  so answers are entries. Results: the search returns the nearest airport of the cells it visits;
  these do not wrap at the antimeridian; the CSV reader inverts quoted printing.
\<close>

definition EARTH_RADIUS_MILES :: real where "EARTH_RADIUS_MILES = 39587613 / 10000"

datatype AirportSizeType = large_airport | medium_airport | small_airport

definition INCLUDED_TYPES :: "string \<rightharpoonup> AirportSizeType" where
  "INCLUDED_TYPES =
     [''large_airport'' \<mapsto> large_airport, ''medium_airport'' \<mapsto> medium_airport,
      ''small_airport'' \<mapsto> small_airport]"

record AirportEntry =
  ap_icao :: "string option"
  ap_name :: string
  ap_lat :: real
  ap_lon :: real
  ap_elevation_ft :: real
  ap_iso_country :: string
  ap_municipality :: string
  ap_type :: AirportSizeType

subsection \<open>Codes\<close>

definition codeChar :: "char \<Rightarrow> bool" where
  "codeChar c \<longleftrightarrow> (let n = (of_char c :: nat) in (65 \<le> n \<and> n \<le> 90) \<or> (48 \<le> n \<and> n \<le> 57))"

definition AIRPORT_ICAO_CODE :: "string \<Rightarrow> bool" where
  "AIRPORT_ICAO_CODE s \<longleftrightarrow> length s = 4 \<and> list_all codeChar s"

definition normaliseAirportIcao :: "string option \<Rightarrow> string option" where
  "normaliseAirportIcao raw =
     (case raw of None \<Rightarrow> None
      | Some r \<Rightarrow> (let code = js_upper (js_trim r) in if AIRPORT_ICAO_CODE code then Some code else None))"

definition resolveAirportIcao :: "string \<Rightarrow> string \<Rightarrow> string option" where
  "resolveAirportIcao icaoColumn ident =
     (case normaliseAirportIcao (Some icaoColumn) of Some c \<Rightarrow> Some c
      | None \<Rightarrow> normaliseAirportIcao (Some ident))"

text \<open>What passes is four characters of the alphabet, and stable under normalising again.\<close>

lemma normaliseAirportIcao_stable:
  assumes "normaliseAirportIcao raw = Some code"
  shows "AIRPORT_ICAO_CODE code" "normaliseAirportIcao (Some code) = Some code"
proof -
  obtain r where r: "code = js_upper (js_trim r)" "AIRPORT_ICAO_CODE code"
    using assms by (auto simp: normaliseAirportIcao_def Let_def split: option.splits if_splits)
  show "AIRPORT_ICAO_CODE code" by (rule r(2))
  have "js_upper (js_trim code) = code" using r(1) by (simp add: js_trim_upper)
  then show "normaliseAirportIcao (Some code) = Some code" using r(2) by (simp add: normaliseAirportIcao_def)
qed

subsection \<open>The CSV text\<close>

definition pushRow :: "string list \<Rightarrow> string list list \<Rightarrow> string list list" where
  "pushRow row rows = (if list_ex (\<lambda>cell. length cell > 0) row then rows @ [row] else rows)"

function (sequential) csvScan ::
  "string \<Rightarrow> bool \<Rightarrow> string \<Rightarrow> string list \<Rightarrow> string list list \<Rightarrow> string list list" where
  "csvScan [] inQuotes field row rows = pushRow (row @ [field]) rows"
| "csvScan (c # cs) True field row rows =
     (if c = CHR 0x22 then
        (case cs of
           c' # cs' \<Rightarrow> if c' = CHR 0x22 then csvScan cs' True (field @ [CHR 0x22]) row rows
                       else csvScan cs False field row rows
         | [] \<Rightarrow> csvScan cs False field row rows)
      else csvScan cs True (field @ [c]) row rows)"
| "csvScan (c # cs) False field row rows =
     (if c = CHR 0x22 then csvScan cs True field row rows
      else if c = CHR '','' then csvScan cs False [] (row @ [field]) rows
      else if c = CHR 0x0A then csvScan cs False [] [] (pushRow (row @ [field]) rows)
      else if c = CHR 0x0D then
        csvScan (case cs of c' # cs' \<Rightarrow> if c' = CHR 0x0A then cs' else cs | [] \<Rightarrow> cs)
          False [] [] (pushRow (row @ [field]) rows)
      else csvScan cs False (field @ [c]) row rows)"
  by pat_completeness auto
termination by (relation "measure (\<lambda>(s, _). length s)") (auto split: list.splits)

definition parseCsv :: "string \<Rightarrow> string list list" where
  "parseCsv content = csvScan content False [] [] []"

definition headerIndex :: "string list \<Rightarrow> string \<rightharpoonup> nat" where
  "headerIndex headerRow =
     foldl (\<lambda>m i. m(js_trim (headerRow ! i) \<mapsto> i)) Map.empty [0..<length headerRow]"

definition cell :: "string list \<Rightarrow> (string \<rightharpoonup> nat) \<Rightarrow> string \<Rightarrow> string" where
  "cell row col key =
     (case col key of None \<Rightarrow> ''''
      | Some idx \<Rightarrow> if idx < length row then js_trim (row ! idx) else '''')"

text \<open>\<open>parseFloat\<close> is \<open>Number.parseFloat\<close> of the language.\<close>

definition parseAirportRow ::
  "(string \<Rightarrow> jsnum) \<Rightarrow> (string \<rightharpoonup> nat) \<Rightarrow> string list \<Rightarrow> AirportEntry option" where
  "parseAirportRow parseFloat col row =
     (case INCLUDED_TYPES (cell row col ''type'') of None \<Rightarrow> None
      | Some ty \<Rightarrow>
          (let ident = cell row col ''ident'' in
           if ident = '''' then None
           else (let icao = resolveAirportIcao (cell row col ''icao_code'') ident in
             case (parseFloat (cell row col ''latitude_deg''), parseFloat (cell row col ''longitude_deg'')) of
               (Some lat, Some lon) \<Rightarrow>
                 (let elevRaw = cell row col ''elevation_ft'';
                      elevation_ft = (if elevRaw = '''' then Some 0 else parseFloat elevRaw)
                  in Some \<lparr> ap_icao = icao, ap_name = cell row col ''name'', ap_lat = lat, ap_lon = lon,
                            ap_elevation_ft = num_or_zero elevation_ft,
                            ap_iso_country = cell row col ''iso_country'',
                            ap_municipality = cell row col ''municipality'', ap_type = ty \<rparr>)
             | _ \<Rightarrow> None)))"

definition parseAirportRows :: "(string \<Rightarrow> jsnum) \<Rightarrow> string list list \<Rightarrow> AirportEntry list" where
  "parseAirportRows parseFloat rows =
     (case rows of [] \<Rightarrow> []
      | hdr # rest \<Rightarrow> List.map_filter (parseAirportRow parseFloat (headerIndex hdr)) rest)"

subsection \<open>Distances\<close>

definition toRad :: "real \<Rightarrow> real" where
  "toRad deg = deg * pi / 180"

definition atan2 :: "real \<Rightarrow> real \<Rightarrow> real" where
  "atan2 y x = (if x > 0 then arctan (y / x) else if y > 0 then pi / 2 else 0)"

definition haversineDistanceMiles :: "real \<Rightarrow> real \<Rightarrow> real \<Rightarrow> real \<Rightarrow> jsnum" where
  "haversineDistanceMiles lat1 lon1 lat2 lon2 =
     (let lat1R = toRad lat1; lat2R = toRad lat2;
          sinDLat = sin (toRad (lat2 - lat1) / 2); sinDLon = sin (toRad (lon2 - lon1) / 2);
          a = sinDLat * sinDLat + cos lat1R * cos lat2R * sinDLon * sinDLon
      in if a < 0 then None
         else Some (EARTH_RADIUS_MILES * (2 * atan2 (sqrt a) (sqrt (max 0 (1 - a))))))"

subsection \<open>The search\<close>

type_synonym grid = "int \<times> int \<rightharpoonup> AirportEntry list"

definition gridKey :: "real \<Rightarrow> real \<Rightarrow> int \<times> int" where
  "gridKey lat lon = (\<lfloor>lat\<rfloor>, \<lfloor>lon\<rfloor>)"

definition buildGrid :: "AirportEntry list \<Rightarrow> grid" where
  "buildGrid airports =
     fold (\<lambda>a g. let key = gridKey (ap_lat a) (ap_lon a) in
        g(key \<mapsto> (case g key of Some b \<Rightarrow> b @ [a] | None \<Rightarrow> [a]))) airports Map.empty"

record AirportLookup =
  airports :: "AirportEntry list"
  cells :: grid
  byIcao :: "string \<rightharpoonup> AirportEntry"

definition newLookup :: "AirportEntry list \<Rightarrow> AirportLookup" where
  "newLookup as =
     \<lparr> airports = as, cells = buildGrid as,
       byIcao = fold (\<lambda>a m. case ap_icao a of Some c \<Rightarrow> m(c \<mapsto> a) | None \<Rightarrow> m) as Map.empty \<rparr>"

text \<open>\<open>outcome\<close> is the outcome of reading the file: its text, or the \<open>code\<close> of the exception. A
  leading byte-order mark is no character of the model.\<close>

definition loadLookup ::
  "(string \<Rightarrow> jsnum) \<Rightarrow> string + string \<Rightarrow> string + AirportLookup" where
  "loadLookup parseFloat outcome =
     (case outcome of
        Inr raw \<Rightarrow> Inr (newLookup (parseAirportRows parseFloat (parseCsv raw)))
      | Inl code \<Rightarrow> if code = ''ENOENT'' then Inr (newLookup []) else Inl code)"

definition countAirports :: "AirportLookup \<Rightarrow> nat" where
  "countAirports l = length (airports l)"

definition findByIcao :: "string \<Rightarrow> AirportLookup \<Rightarrow> AirportEntry option" where
  "findByIcao icao l = (case normaliseAirportIcao (Some icao) of None \<Rightarrow> None | Some key \<Rightarrow> byIcao l key)"

text \<open>\<open>d < bestDist\<close>, with \<open>Infinity\<close> before the first hit.\<close>

definition better :: "real \<Rightarrow> real \<Rightarrow> AirportEntry \<Rightarrow> (AirportEntry \<times> real) option \<Rightarrow> (AirportEntry \<times> real) option" where
  "better lat lon a best =
     (case haversineDistanceMiles lat lon (ap_lat a) (ap_lon a) of None \<Rightarrow> best
      | Some d \<Rightarrow> (case best of None \<Rightarrow> Some (a, d) | Some (_, bd) \<Rightarrow> if d < bd then Some (a, d) else best))"

definition neighbourKeys :: "real \<Rightarrow> real \<Rightarrow> (int \<times> int) list" where
  "neighbourKeys lat lon =
     concat (map (\<lambda>dLat. map (\<lambda>dLon. (\<lfloor>lat\<rfloor> + dLat, \<lfloor>lon\<rfloor> + dLon)) [-1, 0, 1]) [-1, 0, 1])"

definition candidates :: "real \<Rightarrow> real \<Rightarrow> AirportLookup \<Rightarrow> AirportEntry list" where
  "candidates lat lon l =
     concat (map (\<lambda>k. case cells l k of Some b \<Rightarrow> b | None \<Rightarrow> []) (neighbourKeys lat lon))"

definition findNearest :: "jsnum \<Rightarrow> jsnum \<Rightarrow> jsnum \<Rightarrow> AirportLookup \<Rightarrow> AirportEntry option" where
  "findNearest lat lon maxDistanceMiles l =
     (case (lat, lon, maxDistanceMiles) of
        (Some la, Some lo, Some mx) \<Rightarrow>
          (case fold (better la lo) (candidates la lo l) None of
             None \<Rightarrow> None
           | Some (a, d) \<Rightarrow> if d > mx then None else Some a)
      | _ \<Rightarrow> None)"

subsection \<open>What the search finds\<close>

lemma buildGrid_cells:
  "(case buildGrid as k of Some b \<Rightarrow> b | None \<Rightarrow> []) = filter (\<lambda>a. gridKey (ap_lat a) (ap_lon a) = k) as"
  by (induction as rule: rev_induct) (auto simp: buildGrid_def Let_def split: option.splits)

lemma near_floor: "\<bar>x - y\<bar> < 1 \<Longrightarrow> \<lfloor>x\<rfloor> - \<lfloor>y\<rfloor> \<in> {-1, 0, 1 :: int}" for x y :: real
  by (simp add: abs_less_iff) linarith

definition nearby :: "real \<Rightarrow> real \<Rightarrow> AirportEntry \<Rightarrow> bool" where
  "nearby lat lon a \<longleftrightarrow> \<bar>ap_lat a - lat\<bar> < 1 \<and> \<bar>ap_lon a - lon\<bar> < 1"

lemma neighbourKeys_mem:
  "k - \<lfloor>lat\<rfloor> \<in> {-1, 0, 1} \<Longrightarrow> j - \<lfloor>lon\<rfloor> \<in> {-1, 0, 1} \<Longrightarrow> (k, j) \<in> set (neighbourKeys lat lon)"
proof -
  assume a: "k - \<lfloor>lat\<rfloor> \<in> {-1, 0, 1}" "j - \<lfloor>lon\<rfloor> \<in> {-1, 0, 1}"
  define d e where "d = k - \<lfloor>lat\<rfloor>" and "e = j - \<lfloor>lon\<rfloor>"
  have k: "k = \<lfloor>lat\<rfloor> + d" "j = \<lfloor>lon\<rfloor> + e" by (simp_all add: d_def e_def)
  have de: "d \<in> {-1, 0, 1}" "e \<in> {-1, 0, 1}" using a by (simp_all only: d_def e_def)
  show ?thesis unfolding k neighbourKeys_def using de by (simp; blast)
qed

lemma candidates_set:
  "set (candidates lat lon (newLookup as)) \<subseteq> set as"
  "a \<in> set as \<Longrightarrow> nearby lat lon a \<Longrightarrow> a \<in> set (candidates lat lon (newLookup as))"
proof -
  show "set (candidates lat lon (newLookup as)) \<subseteq> set as"
    by (auto simp: candidates_def newLookup_def buildGrid_cells)
  assume a: "a \<in> set as" "nearby lat lon a"
  have n: "\<bar>ap_lat a - lat\<bar> < 1" "\<bar>ap_lon a - lon\<bar> < 1" using a(2) by (simp_all add: nearby_def)
  have "\<lfloor>ap_lat a\<rfloor> - \<lfloor>lat\<rfloor> \<in> {-1, 0, 1}" "\<lfloor>ap_lon a\<rfloor> - \<lfloor>lon\<rfloor> \<in> {-1, 0, 1}"
    by (rule near_floor [OF n(1)], rule near_floor [OF n(2)])
  then have k: "gridKey (ap_lat a) (ap_lon a) \<in> set (neighbourKeys lat lon)"
    unfolding gridKey_def by (rule neighbourKeys_mem)
  have "a \<in> set (filter (\<lambda>x. gridKey (ap_lat x) (ap_lon x) = gridKey (ap_lat a) (ap_lon a)) as)"
    using a(1) by simp
  with k show "a \<in> set (candidates lat lon (newLookup as))"
    unfolding candidates_def newLookup_def by (fastforce simp: buildGrid_cells)
qed

definition distTo :: "real \<Rightarrow> real \<Rightarrow> AirportEntry \<Rightarrow> jsnum" where
  "distTo lat lon a = haversineDistanceMiles lat lon (ap_lat a) (ap_lon a)"

text \<open>\<open>nearest_of as best\<close>: the accumulator holds an airport of \<open>as\<close> at the least distance.\<close>

definition nearest_of ::
  "real \<Rightarrow> real \<Rightarrow> AirportEntry list \<Rightarrow> (AirportEntry \<times> real) option \<Rightarrow> bool" where
  "nearest_of lat lon as best \<longleftrightarrow>
     (case best of None \<Rightarrow> (\<forall>a \<in> set as. distTo lat lon a = None)
      | Some (a, d) \<Rightarrow> a \<in> set as \<and> distTo lat lon a = Some d
          \<and> (\<forall>b \<in> set as. \<forall>e. distTo lat lon b = Some e \<longrightarrow> d \<le> e))"

lemma nearest_of_step:
  assumes "nearest_of lat lon as best"
  shows "nearest_of lat lon (as @ [x]) (better lat lon x best)"
proof (cases "distTo lat lon x")
  case None
  then show ?thesis using assms
    by (cases best) (auto simp: nearest_of_def better_def distTo_def)
next
  case (Some d)
  show ?thesis
  proof (cases best)
    case None
    then show ?thesis using assms Some by (simp add: nearest_of_def better_def distTo_def)
  next
    fix p assume p: "best = Some p"
    obtain a b where ab: "p = (a, b)" by (cases p)
    show ?thesis using assms Some p ab
      by (cases "d < b") (fastforce simp: nearest_of_def better_def distTo_def)+
  qed
qed

lemma nearest_of_fold: "nearest_of lat lon as (fold (better lat lon) as None)"
proof (induction as rule: rev_induct)
  case Nil
  show ?case by (simp add: nearest_of_def)
next
  case (snoc x xs)
  show ?case using nearest_of_step [OF snoc] by simp
qed

definition exampleAirport :: AirportEntry where
  "exampleAirport = \<lparr> ap_icao = Some ''GULF'', ap_name = ''Gulf'', ap_lat = 0, ap_lon = 0, ap_elevation_ft = 0,
     ap_iso_country = ''GA'', ap_municipality = [], ap_type = small_airport \<rparr>"

text \<open>C25: an answer is an airport of the database, within the limit, and no airport less than a degree
  away in latitude and longitude is closer; no answer means that none of those is within it.\<close>

theorem findNearest_nearest:
  "case findNearest (Some lat) (Some lon) (Some mx) (newLookup as) of
     Some a \<Rightarrow> a \<in> set as \<and> (\<exists>d. distTo lat lon a = Some d \<and> d \<le> mx
       \<and> (\<forall>b \<in> set as. nearby lat lon b \<longrightarrow> (\<forall>e. distTo lat lon b = Some e \<longrightarrow> d \<le> e)))
   | None \<Rightarrow> (\<forall>b \<in> set as. nearby lat lon b \<longrightarrow> (\<forall>e. distTo lat lon b = Some e \<longrightarrow> mx < e))"
proof -
  define cs where "cs = candidates lat lon (newLookup as)"
  define best where "best = fold (better lat lon) cs None"
  have n: "nearest_of lat lon cs best" unfolding best_def by (rule nearest_of_fold)
  have sub: "set cs \<subseteq> set as" and near: "\<And>b. b \<in> set as \<Longrightarrow> nearby lat lon b \<Longrightarrow> b \<in> set cs"
    unfolding cs_def by (rule candidates_set(1), rule candidates_set(2))
  have f: "findNearest (Some lat) (Some lon) (Some mx) (newLookup as) =
      (case best of None \<Rightarrow> None | Some (a, d) \<Rightarrow> if d > mx then None else Some a)"
    by (simp add: findNearest_def best_def cs_def)
  show ?thesis
  proof (cases best)
    case None
    then show ?thesis using n near f by (auto simp: nearest_of_def)
  next
    fix p assume p: "best = Some p"
    obtain a d where ab: "p = (a, d)" by (cases p)
    have a: "a \<in> set cs" "distTo lat lon a = Some d"
      and m: "\<And>b e. b \<in> set cs \<Longrightarrow> distTo lat lon b = Some e \<Longrightarrow> d \<le> e"
      using n p ab by (auto simp: nearest_of_def)
    show ?thesis
    proof (cases "d > mx")
      case True
      then show ?thesis using f p ab m near by fastforce
    next
      case False
      then show ?thesis using f p ab a m near sub by fastforce
    qed
  qed
qed

lemma findNearest_nearest_witness:
  "findNearest (Some 0) (Some 0) (Some 10) (newLookup [exampleAirport]) = Some exampleAirport"
proof -
  have z: "distTo 0 0 exampleAirport = Some 0" "nearby 0 0 exampleAirport"
    by (simp_all add: exampleAirport_def nearby_def distTo_def haversineDistanceMiles_def atan2_def
        toRad_def Let_def)
  show ?thesis
    using findNearest_nearest [where lat = 0 and lon = 0 and mx = 10 and as = "[exampleAirport]"] z
    by (cases "findNearest (Some 0) (Some 0) (Some 10) (newLookup [exampleAirport])") auto
qed

text \<open>The neighbouring cells do not wrap at the antimeridian: an airport at the very place of the
  aircraft, written with the other sign of 180 degrees, is not found.\<close>

lemma findNearest_antimeridian:
  assumes "ap_lat a = 0" "ap_lon a = -180"
  shows "distTo 0 180 a = Some 0"
    and "findNearest (Some 0) (Some 180) (Some 10) (newLookup [a]) = None"
proof -
  have "toRad (- 360) / 2 = - pi" by (simp add: toRad_def)
  then show "distTo 0 180 a = Some 0"
    using assms by (simp add: distTo_def haversineDistanceMiles_def atan2_def Let_def toRad_def)
  have "candidates 0 180 (newLookup [a]) = []"
    using assms by (simp add: candidates_def newLookup_def buildGrid_def gridKey_def neighbourKeys_def)
  then show "findNearest (Some 0) (Some 180) (Some 10) (newLookup [a]) = None"
    by (simp add: findNearest_def)
qed

text \<open>An airport is found again under any spelling of its code.\<close>

lemma byIcao_has_code:
  "byIcao (newLookup as) c = Some a \<Longrightarrow> a \<in> set as \<and> ap_icao a = Some c"
  by (induction as rule: rev_induct) (auto simp: newLookup_def split: option.splits if_splits)

lemma findByIcao_code:
  assumes "findByIcao s (newLookup as) = Some a"
  shows "a \<in> set as \<and> normaliseAirportIcao (Some s) = ap_icao a"
  using assms byIcao_has_code by (auto simp: findByIcao_def split: option.splits)

subsection \<open>The CSV round trip\<close>

definition quoteField :: "string \<Rightarrow> string" where
  "quoteField f = CHR 0x22 # concat (map (\<lambda>c. if c = CHR 0x22 then [c, c] else [c]) f) @ [CHR 0x22]"

fun printFields :: "string list \<Rightarrow> string" where
  "printFields [] = []"
| "printFields [f] = quoteField f"
| "printFields (f # fs) = quoteField f @ CHR '','' # printFields fs"

definition printCsv :: "string list list \<Rightarrow> string" where
  "printCsv rows = concat (map (\<lambda>r. printFields r @ [CHR 0x0A]) rows)"

lemma csvScan_quoted:
  "csvScan (concat (map (\<lambda>c. if c = CHR 0x22 then [c, c] else [c]) f) @ CHR 0x22 # x # rest) True acc row rows
     = csvScan (x # rest) False (acc @ f) row rows" if "x \<noteq> CHR 0x22"
  by (induction f arbitrary: acc) (auto simp: that)

lemma csvScan_field:
  assumes "x \<noteq> CHR 0x22"
  shows "csvScan (quoteField f @ x # rest) False [] row rows = csvScan (x # rest) False f row rows"
  using csvScan_quoted [OF assms, of f rest "[]" row rows] by (simp add: quoteField_def)

lemma csvScan_row:
  "fs \<noteq> [] \<Longrightarrow> csvScan (printFields fs @ CHR 0x0A # rest) False [] row rows
     = csvScan rest False [] [] (pushRow (row @ fs) rows)"
proof (induction fs arbitrary: row rule: printFields.induct)
  case 1
  then show ?case by simp
next
  case (2 f)
  show ?case by (simp add: csvScan_field)
next
  case (3 f g fs)
  then show ?case by (simp add: csvScan_field)
qed

lemma csvScan_rows:
  assumes "list_all (\<lambda>r. list_ex (\<lambda>c. length c > 0) r) rs"
  shows "csvScan (printCsv rs) False [] [] rows = rows @ rs"
  using assms
proof (induction rs arbitrary: rows)
  case Nil
  show ?case by (simp add: printCsv_def pushRow_def)
next
  case (Cons r rs)
  then have "r \<noteq> []" by auto
  then have "csvScan (printCsv (r # rs)) False [] [] rows = csvScan (printCsv rs) False [] [] (pushRow r rows)"
    using csvScan_row [of r "printCsv rs" "[]" rows] by (simp add: printCsv_def)
  then show ?case using Cons by (simp add: pushRow_def)
qed

text \<open>Whatever the fields contain (commas, quotes, line ends), a table printed with quoted fields is
  read back as it was, for rows that have at least one non-empty field.\<close>

lemma parseCsv_printCsv:
  assumes "list_all (\<lambda>r. list_ex (\<lambda>c. length c > 0) r) rows"
  shows "parseCsv (printCsv rows) = rows"
  using csvScan_rows [OF assms, of "[]"] by (simp add: parseCsv_def)

lemma parseCsv_printCsv_witness:
  "parseCsv (printCsv [[''a,b'', []], [[CHR 0x22, CHR 0x0A]]]) = [[''a,b'', []], [[CHR 0x22, CHR 0x0A]]]"
  by (rule parseCsv_printCsv) simp

end
