(* ===== verification/Session_Store.thy ===== *)
theory Session_Store
  imports Effects Feed_Clients Airports "HOL-Library.Sublist" "HOL-Library.Multiset"
begin

text \<open>
  What the ingestion service keeps of a flight: the tables \<open>flight_sessions\<close> and
  \<open>session_positions\<close> with their statements in \<open>packages/db/src/queries.ts\<close>, the functions of
  \<open>services/ingestion/src/session-manager.ts\<close> on them, the buffer of positions
  (\<open>session-position-recorder.ts\<close>) and the memory of failed destination writes
  (\<open>dest-resolve-backoff.ts\<close>).

  A table is the list of its rows in insertion order. Row identifiers are drawn by the database; here they
  are counted. A timestamp column is its epoch milliseconds, and the clock of the
  database is the clock of the service. Whether a call succeeds is decided by the caller
  (\<open>Phase_Engine\<close>). Results: rows keep to the widths of their columns, an expired session ends no
  earlier than it started, the buffer stores what it accepted in order and keeps the newest points of an outage,
  and a stored path is thinned to its cap plus one point.
\<close>

subsection \<open>The tables\<close>

record FlightSession =
  fs_id :: nat
  fs_aircraft_icao :: string
  fs_callsign :: string
  fs_origin_icao :: "string option"
  fs_origin_name :: "string option"
  fs_dest_icao :: "string option"
  fs_dest_name :: "string option"
  fs_phase :: FlightPhase
  fs_started_at :: millis
  fs_ended_at :: "millis option"
  fs_total_tx_count :: int
  fs_total_sats_spent :: int

record SessionPosition =
  sp_flight_id :: nat
  sp_aircraft_icao :: string
  sp_ts :: millis
  sp_lat :: real
  sp_lon :: real
  sp_alt_baro :: "int option"
  sp_gs :: "int option"
  sp_track :: "int option"
  sp_phase :: FlightPhase

record SessionDb =
  flight_sessions :: "FlightSession list"
  session_positions :: "SessionPosition list"
  nextSession :: nat

definition isOpen :: "FlightSession \<Rightarrow> bool" where
  "isOpen r \<longleftrightarrow> fs_ended_at r = None"

text \<open>The columns \<open>dest_icao\<close> and \<open>dest_name\<close> of a new row are never given by a caller.\<close>

definition createFlightSession ::
  "millis \<Rightarrow> string \<Rightarrow> string \<Rightarrow> string option \<Rightarrow> string option \<Rightarrow> FlightPhase \<Rightarrow> SessionDb \<Rightarrow>
     FlightSession \<times> SessionDb" where
  "createFlightSession now icao callsign origin_icao origin_name phase db =
     (let row = \<lparr> fs_id = nextSession db, fs_aircraft_icao = icao, fs_callsign = callsign,
                  fs_origin_icao = origin_icao, fs_origin_name = origin_name,
                  fs_dest_icao = None, fs_dest_name = None, fs_phase = phase,
                  fs_started_at = now, fs_ended_at = None,
                  fs_total_tx_count = 0, fs_total_sats_spent = 0 \<rparr>
      in (row, db\<lparr>flight_sessions := flight_sessions db @ [row], nextSession := nextSession db + 1\<rparr>))"

text \<open>\<open>update ... where id\<close>, for updates that leave the key columns alone.\<close>

definition updateFlightSession ::
  "nat \<Rightarrow> (FlightSession \<Rightarrow> FlightSession) \<Rightarrow> SessionDb \<Rightarrow> SessionDb" where
  "updateFlightSession i updates db =
     db\<lparr>flight_sessions := map (\<lambda>r. if fs_id r = i then updates r else r) (flight_sessions db)\<rparr>"

text \<open>\<open>orderBy started_at desc\<close> and the first row.\<close>

definition newestOf :: "FlightSession list \<Rightarrow> FlightSession option" where
  "newestOf rows =
     foldl (\<lambda>best r. case best of None \<Rightarrow> Some r
       | Some b \<Rightarrow> if fs_started_at r > fs_started_at b then Some r else Some b) None rows"

definition getActiveSession :: "string \<Rightarrow> SessionDb \<Rightarrow> FlightSession option" where
  "getActiveSession icao db =
     newestOf (filter (\<lambda>r. fs_aircraft_icao r = icao \<and> isOpen r) (flight_sessions db))"

definition positionsOf :: "nat \<Rightarrow> SessionDb \<Rightarrow> SessionPosition list" where
  "positionsOf i db = filter (\<lambda>p. sp_flight_id p = i) (session_positions db)"

definition getSessionLastPositionTs :: "nat \<Rightarrow> SessionDb \<Rightarrow> millis option" where
  "getSessionLastPositionTs i db =
     foldl (\<lambda>m p. case m of None \<Rightarrow> Some (sp_ts p) | Some t \<Rightarrow> Some (max t (sp_ts p))) None (positionsOf i db)"

definition insertSessionPositions :: "SessionPosition list \<Rightarrow> SessionDb \<Rightarrow> SessionDb" where
  "insertSessionPositions rows db = db\<lparr>session_positions := session_positions db @ rows\<rparr>"

text \<open>The last activity of a session as the sweep computes it.\<close>

definition lastMs :: "SessionDb \<Rightarrow> FlightSession \<Rightarrow> millis" where
  "lastMs db r = max (case getSessionLastPositionTs (fs_id r) db of Some t \<Rightarrow> t | None \<Rightarrow> 0) (fs_started_at r)"

definition isStale :: "millis \<Rightarrow> SessionDb \<Rightarrow> FlightSession \<Rightarrow> bool" where
  "isStale cutoff db r \<longleftrightarrow> isOpen r \<and> lastMs db r < cutoff"

definition expireStaleFlightSessions :: "millis \<Rightarrow> SessionDb \<Rightarrow> (nat \<times> string) list \<times> SessionDb" where
  "expireStaleFlightSessions cutoff db =
     (map (\<lambda>r. (fs_id r, fs_aircraft_icao r)) (filter (isStale cutoff db) (flight_sessions db)),
      db\<lparr>flight_sessions := map (\<lambda>r. if isStale cutoff db r then r\<lparr>fs_ended_at := Some (lastMs db r)\<rparr> else r)
                                 (flight_sessions db)\<rparr>)"

definition getFlightSessions :: "string \<Rightarrow> nat \<Rightarrow> nat \<Rightarrow> SessionDb \<Rightarrow> FlightSession list" where
  "getFlightSessions icao limit offset db =
     take limit (drop offset (rev (sort_key fs_started_at
       (filter (\<lambda>r. fs_aircraft_icao r = icao) (flight_sessions db)))))"

definition getActiveFlightSessions :: "nat \<Rightarrow> SessionDb \<Rightarrow> FlightSession list" where
  "getActiveFlightSessions limit db =
     take limit (rev (sort_key fs_started_at (filter isOpen (flight_sessions db))))"

text \<open>\<open>distinct on (aircraft_icao) ... order by aircraft_icao, started_at desc\<close>: the newest row of each
  aircraft; then newest first.\<close>

definition showsLife :: "millis \<Rightarrow> SessionDb \<Rightarrow> FlightSession \<Rightarrow> bool" where
  "showsLife since db r \<longleftrightarrow> isOpen r \<and>
     (list_ex (\<lambda>p. sp_ts p \<ge> since) (positionsOf (fs_id r) db) \<or> fs_started_at r \<ge> since)"

definition getLiveFlightSessions :: "millis \<Rightarrow> nat \<Rightarrow> SessionDb \<Rightarrow> FlightSession list" where
  "getLiveFlightSessions since limit db =
     (let live = filter (showsLife since db) (flight_sessions db);
          newest = List.map_filter (\<lambda>icao. newestOf (filter (\<lambda>r. fs_aircraft_icao r = icao) live))
                     (remdups (map fs_aircraft_icao live))
      in take limit (rev (sort_key fs_started_at newest)))"

text \<open>\<open>ceil(total / maxPoints)\<close>, and the rows whose number satisfies the \<open>where\<close> clause.\<close>

definition thin :: "nat \<Rightarrow> 'a list \<Rightarrow> 'a list" where
  "thin step xs =
     map snd (filter (\<lambda>(rn, _). (rn - 1) mod step = 0 \<or> rn = length xs) (zip [1..<length xs + 1] xs))"

definition getSessionPath :: "nat \<Rightarrow> nat \<Rightarrow> SessionDb \<Rightarrow> SessionPosition list" where
  "getSessionPath i maxPoints db =
     (let rows = sort_key sp_ts (positionsOf i db); total = length rows
      in if total = 0 then []
         else if total \<le> maxPoints then rows
         else thin ((total + maxPoints - 1) div maxPoints) rows)"

subsection \<open>The session manager\<close>

definition AIRPORT_NAME_MAX_LENGTH :: nat where "AIRPORT_NAME_MAX_LENGTH = 100"

definition airportNameForStorage :: "string \<Rightarrow> string option" where
  "airportNameForStorage name =
     (let trimmed = js_trim name in
      if trimmed = [] then None
      else if length trimmed \<le> AIRPORT_NAME_MAX_LENGTH then Some trimmed
      else Some (take AIRPORT_NAME_MAX_LENGTH trimmed))"

text \<open>\<open>db\<close> sees the insertion only when the caller lets the call through.\<close>

definition startSession ::
  "millis \<Rightarrow> string \<Rightarrow> string \<Rightarrow> AirportLookup \<Rightarrow> jsnum \<Rightarrow> jsnum \<Rightarrow> FlightPhase \<Rightarrow> SessionDb \<Rightarrow>
     FlightSession \<times> SessionDb" where
  "startSession now icao callsign l lat lon initialPhase =
     (let nearest = findNearest lat lon (Some 10) l;
          originIcao = normaliseAirportIcao (Option.bind nearest ap_icao);
          originName = (case nearest of Some a \<Rightarrow> airportNameForStorage (ap_name a) | None \<Rightarrow> None)
      in createFlightSession now icao callsign originIcao originName initialPhase)"

definition startAirborneSession ::
  "millis \<Rightarrow> string \<Rightarrow> string \<Rightarrow> FlightPhase \<Rightarrow> SessionDb \<Rightarrow> FlightSession \<times> SessionDb" where
  "startAirborneSession now icao callsign initialPhase =
     createFlightSession now icao callsign None None initialPhase"

definition expireSession :: "FlightSession \<Rightarrow> millis \<Rightarrow> SessionDb \<Rightarrow> SessionDb" where
  "expireSession session lastActivityMs =
     updateFlightSession (fs_id session)
       (\<lambda>r. r\<lparr>fs_ended_at := Some (max (fs_started_at session) lastActivityMs)\<rparr>)"

definition updateSessionPhase :: "nat \<Rightarrow> FlightPhase \<Rightarrow> SessionDb \<Rightarrow> SessionDb" where
  "updateSessionPhase i phase = updateFlightSession i (\<lambda>r. r\<lparr>fs_phase := phase\<rparr>)"

definition closeSession :: "millis \<Rightarrow> nat \<Rightarrow> int \<Rightarrow> int \<Rightarrow> SessionDb \<Rightarrow> SessionDb" where
  "closeSession now i txCount sats =
     updateFlightSession i (\<lambda>r. r\<lparr>fs_ended_at := Some now, fs_phase := PARKED,
       fs_total_tx_count := txCount, fs_total_sats_spent := sats\<rparr>)"

text \<open>\<open>None\<close> is the exception of a code that cannot be stored. The statement is only sent when there is
  something to write.\<close>

definition updateSessionDest ::
  "nat \<Rightarrow> string option \<Rightarrow> string \<Rightarrow> (SessionDb \<Rightarrow> SessionDb) option" where
  "updateSessionDest i destIcao destName =
     (let code = normaliseAirportIcao destIcao;
          unstorable = (case destIcao of Some d \<Rightarrow> js_trim d \<noteq> [] \<and> code = None | None \<Rightarrow> False);
          stored = airportNameForStorage destName
      in if unstorable then None
         else if code = None \<and> stored = None then Some id
         else Some (updateFlightSession i (\<lambda>r.
           r\<lparr>fs_dest_icao := (case code of Some c \<Rightarrow> Some c | None \<Rightarrow> fs_dest_icao r),
             fs_dest_name := (case stored of Some n \<Rightarrow> Some n | None \<Rightarrow> fs_dest_name r)\<rparr>)))"

definition incrementTxCount :: "nat \<Rightarrow> SessionDb \<Rightarrow> SessionDb" where
  "incrementTxCount i = updateFlightSession i (\<lambda>r. r\<lparr>fs_total_tx_count := fs_total_tx_count r + 1\<rparr>)"

subsection \<open>The position recorder\<close>

fun SAMPLE_INTERVAL_MS :: "FlightPhase \<Rightarrow> millis" where
  "SAMPLE_INTERVAL_MS PARKED = 60000"
| "SAMPLE_INTERVAL_MS TAXI = 5000"
| "SAMPLE_INTERVAL_MS TAKEOFF = 2000"
| "SAMPLE_INTERVAL_MS CLIMB = 5000"
| "SAMPLE_INTERVAL_MS CRUISE = 15000"
| "SAMPLE_INTERVAL_MS DESCENT = 5000"
| "SAMPLE_INTERVAL_MS APPROACH = 2000"
| "SAMPLE_INTERVAL_MS LANDING = 2000"
| "SAMPLE_INTERVAL_MS TAXI_IN = 5000"

definition MIN_MOVE_DEG :: real where "MIN_MOVE_DEG = 3 / 10000"
definition STATIONARY_INTERVAL_MS :: millis where "STATIONARY_INTERVAL_MS = 60000"
definition FLUSH_BATCH_SIZE :: nat where "FLUSH_BATCH_SIZE = 500"
definition MAX_RETAINED_ON_FAILURE :: nat where "MAX_RETAINED_ON_FAILURE = 2000"

text \<open>\<open>rc_inflight\<close> is the batch of the flush that is running (\<open>flushing\<close>).\<close>

record SessionPositionRecorder =
  rc_buffer :: "SessionPosition list"
  rc_lastSample :: "string \<rightharpoonup> millis \<times> real \<times> real"
  rc_inflight :: "SessionPosition list option"

definition newRecorder :: SessionPositionRecorder where
  "newRecorder = \<lparr> rc_buffer = [], rc_lastSample = Map.empty, rc_inflight = None \<rparr>"

definition flushStart :: "SessionPositionRecorder \<Rightarrow> SessionPositionRecorder" where
  "flushStart rc =
     (if rc_inflight rc \<noteq> None \<or> rc_buffer rc = [] then rc
      else rc\<lparr>rc_inflight := Some (rc_buffer rc), rc_buffer := []\<rparr>)"

text \<open>The rest of \<open>flush\<close>, once the insertion has ended.\<close>

definition retained :: "SessionPosition list \<Rightarrow> SessionPosition list" where
  "retained ps = drop (length ps - MAX_RETAINED_ON_FAILURE) ps"

definition flushEnd ::
  "CallResult \<Rightarrow> SessionPositionRecorder \<Rightarrow> SessionDb \<Rightarrow> SessionPositionRecorder \<times> SessionDb" where
  "flushEnd res rc db =
     (case rc_inflight rc of None \<Rightarrow> (rc, db)
      | Some batch \<Rightarrow>
          ((if res = Done then rc\<lparr>rc_inflight := None\<rparr>
            else rc\<lparr>rc_inflight := None, rc_buffer := retained (batch @ rc_buffer rc)\<rparr>),
           if res = Refused then db else insertSessionPositions batch db))"

definition js_round :: "real \<Rightarrow> int" where
  "js_round x = \<lfloor>x + 1 / 2\<rfloor>"

definition frameTs :: "millis \<Rightarrow> TelemetryRecord \<Rightarrow> millis" where
  "frameTs now r = (case tr_ts r of Some t \<Rightarrow> if t > 0 then t else now | None \<Rightarrow> now)"

text \<open>The sampling gate of \<open>record\<close>.\<close>

definition sampleDue ::
  "SessionPositionRecorder \<Rightarrow> string \<Rightarrow> FlightPhase \<Rightarrow> millis \<Rightarrow> real \<Rightarrow> real \<Rightarrow> bool" where
  "sampleDue rc icao phase ts lat lon =
     (case rc_lastSample rc icao of None \<Rightarrow> True
      | Some (lts, llat, llon) \<Rightarrow>
          if ts - lts < SAMPLE_INTERVAL_MS phase then False
          else (let moved = \<bar>lat - llat\<bar> > MIN_MOVE_DEG \<or> \<bar>lon - llon\<bar> > MIN_MOVE_DEG
                in moved \<or> ts - lts \<ge> STATIONARY_INTERVAL_MS))"

definition sampleOf ::
  "millis \<Rightarrow> nat \<Rightarrow> FlightPhase \<Rightarrow> TelemetryRecord \<Rightarrow> bool \<Rightarrow> SessionPositionRecorder \<Rightarrow> SessionPosition option" where
  "sampleOf now flightId phase r forced rc =
     (case (tr_lat r, tr_lon r) of
        (Some lat, Some lon) \<Rightarrow>
          if lat = 0 \<and> lon = 0 then None
          else (let ts = frameTs now r; icao = normaliseIcao (tr_icao r)
                in if forced \<or> sampleDue rc icao phase ts lat lon
                   then Some \<lparr> sp_flight_id = flightId, sp_aircraft_icao = icao, sp_ts = ts,
                               sp_lat = lat, sp_lon = lon,
                               sp_alt_baro = map_option js_round (tr_alt_baro r),
                               sp_gs = map_option js_round (tr_gs r),
                               sp_track = map_option js_round (tr_track r), sp_phase = phase \<rparr>
                   else None)
      | _ \<Rightarrow> None)"

definition recordPosition ::
  "millis \<Rightarrow> nat \<Rightarrow> FlightPhase \<Rightarrow> TelemetryRecord \<Rightarrow> bool \<Rightarrow> SessionPositionRecorder \<Rightarrow>
     SessionPositionRecorder" where
  "recordPosition now flightId phase r forced rc =
     (case sampleOf now flightId phase r forced rc of None \<Rightarrow> rc
      | Some p \<Rightarrow>
          (let rc' = rc\<lparr>rc_lastSample := (rc_lastSample rc)(sp_aircraft_icao p \<mapsto> (sp_ts p, sp_lat p, sp_lon p)),
                       rc_buffer := rc_buffer rc @ [p]\<rparr>
           in if length (rc_buffer rc') \<ge> FLUSH_BATCH_SIZE then flushStart rc' else rc'))"

definition clearAircraft :: "string \<Rightarrow> SessionPositionRecorder \<Rightarrow> SessionPositionRecorder" where
  "clearAircraft icao rc = rc\<lparr>rc_lastSample := (rc_lastSample rc)(normaliseIcao icao := None)\<rparr>"

subsection \<open>The memory of failed destination writes\<close>

definition DEST_RESOLVE_BACKOFF_MS :: millis where "DEST_RESOLVE_BACKOFF_MS = 60000"

record DestResolveBackoff =
  failedAt :: "nat \<rightharpoonup> millis"
  logged :: "nat set"

definition newBackoff :: DestResolveBackoff where
  "newBackoff = \<lparr> failedAt = Map.empty, logged = {} \<rparr>"

definition shouldSkip :: "millis \<Rightarrow> nat \<Rightarrow> DestResolveBackoff \<Rightarrow> bool" where
  "shouldSkip now i b =
     (case failedAt b i of None \<Rightarrow> False | Some t \<Rightarrow> now - t < DEST_RESOLVE_BACKOFF_MS)"

definition recordFailure :: "millis \<Rightarrow> nat \<Rightarrow> DestResolveBackoff \<Rightarrow> bool \<times> DestResolveBackoff" where
  "recordFailure now i b =
     (i \<notin> logged b, b\<lparr>logged := insert i (logged b), failedAt := (failedAt b)(i \<mapsto> now)\<rparr>)"

definition clearBackoff :: "nat \<Rightarrow> DestResolveBackoff \<Rightarrow> DestResolveBackoff" where
  "clearBackoff i b = b\<lparr>failedAt := (failedAt b)(i := None), logged := logged b - {i}\<rparr>"

subsection \<open>What is stored, and in which order\<close>

text \<open>The events of a recorder: a frame to consider, a timer tick, the end of a flush, the end of a
  session. \<open>offered\<close> is the sequence of points that passed the gate.\<close>

datatype RecorderEvent =
  Frame millis nat FlightPhase TelemetryRecord bool
| FlushTick
| FlushEnds CallResult
| SessionEnds string

fun recorderStep ::
  "RecorderEvent \<Rightarrow> SessionPositionRecorder \<times> SessionDb \<Rightarrow> SessionPositionRecorder \<times> SessionDb" where
  "recorderStep (Frame now i p r f) (rc, db) = (recordPosition now i p r f rc, db)"
| "recorderStep FlushTick (rc, db) = (flushStart rc, db)"
| "recorderStep (FlushEnds res) (rc, db) = flushEnd res rc db"
| "recorderStep (SessionEnds icao) (rc, db) = (clearAircraft icao rc, db)"

fun offeredBy :: "RecorderEvent \<Rightarrow> SessionPositionRecorder \<Rightarrow> SessionPosition list" where
  "offeredBy (Frame now i p r f) rc = (case sampleOf now i p r f rc of Some x \<Rightarrow> [x] | None \<Rightarrow> [])"
| "offeredBy _ rc = []"

fun offered :: "RecorderEvent list \<Rightarrow> SessionPositionRecorder \<times> SessionDb \<Rightarrow> SessionPosition list" where
  "offered [] s = []"
| "offered (e # es) s = offeredBy e (fst s) @ offered es (recorderStep e s)"

definition pendingPoints :: "SessionPositionRecorder \<Rightarrow> SessionPosition list" where
  "pendingPoints rc = (case rc_inflight rc of Some b \<Rightarrow> b | None \<Rightarrow> []) @ rc_buffer rc"

lemma flushStart_pending [simp]: "pendingPoints (flushStart rc) = pendingPoints rc"
  by (auto simp: flushStart_def pendingPoints_def)

lemma recordPosition_pending:
  "pendingPoints (recordPosition now i p r f rc) =
     pendingPoints rc @ offeredBy (Frame now i p r f) rc"
proof (cases "sampleOf now i p r f rc")
  case None
  then show ?thesis by (simp add: recordPosition_def)
next
  case (Some x)
  have "pendingPoints (rc\<lparr>rc_lastSample := m, rc_buffer := rc_buffer rc @ [x]\<rparr>) = pendingPoints rc @ [x]" for m
    by (simp add: pendingPoints_def)
  with Some show ?thesis by (simp add: recordPosition_def Let_def)
qed

lemma clearAircraft_pending [simp]: "pendingPoints (clearAircraft icao rc) = pendingPoints rc"
  by (simp add: clearAircraft_def pendingPoints_def)

text \<open>\<open>faithful\<close>: of the points accepted so far, a final part is waiting and the stored ones are a
  selection of those before it, in order and without repetition.\<close>

definition faithful ::
  "SessionPosition list \<Rightarrow> SessionPosition list \<Rightarrow> SessionPositionRecorder \<times> SessionDb \<Rightarrow> bool" where
  "faithful initial acc s \<longleftrightarrow>
     (\<exists>before stored. acc = before @ pendingPoints (fst s) \<and> subseq stored before
        \<and> session_positions (snd s) = initial @ stored)"

lemma retained_suffix: "\<exists>dropped. ps = dropped @ retained ps"
  by (metis append_take_drop_id retained_def)

lemma retained_length: "length (retained ps) = min MAX_RETAINED_ON_FAILURE (length ps)"
  by (simp add: retained_def)

lemma flushEnd_faithful:
  assumes f: "faithful initial acc (rc, db)" and res: "res \<noteq> Unacknowledged"
  shows "faithful initial acc (flushEnd res rc db)"
proof (cases "rc_inflight rc")
  case None
  then show ?thesis using f by (simp add: flushEnd_def)
next
  case (Some batch)
  obtain before stored where a: "acc = before @ batch @ rc_buffer rc" "subseq stored before"
    "session_positions db = initial @ stored"
    using f Some by (auto simp: faithful_def pendingPoints_def)
  obtain dropped where d: "batch @ rc_buffer rc = dropped @ retained (batch @ rc_buffer rc)"
    using retained_suffix by blast
  show ?thesis
  proof (cases res)
    case Done
    have "subseq (stored @ batch) (before @ batch)" using a(2) by (simp add: list_emb_append_mono)
    then show ?thesis using a Some Done
      by (auto simp: faithful_def flushEnd_def pendingPoints_def insertSessionPositions_def)
  next
    case Refused
    have "acc = (before @ dropped) @ retained (batch @ rc_buffer rc)" using a(1) d by simp
    moreover have "subseq stored (before @ dropped)"
      using a(2) list_emb_append_mono [OF a(2), of "[]" dropped] by simp
    ultimately show ?thesis using a Some Refused
      unfolding faithful_def by (intro exI [of _ "before @ dropped"] exI [of _ stored])
        (simp add: flushEnd_def pendingPoints_def)
  next
    case Unacknowledged
    then show ?thesis using res by simp
  qed
qed

lemma recorderStep_faithful:
  assumes f: "faithful initial acc s" and e: "e \<noteq> FlushEnds Unacknowledged"
  shows "faithful initial (acc @ offeredBy e (fst s)) (recorderStep e s)"
proof -
  obtain rc db where s: "s = (rc, db)" by (cases s)
  show ?thesis
  proof (cases e)
    case (Frame now i p r fo)
    then show ?thesis using f s by (auto simp: faithful_def recordPosition_pending)
  next
    case FlushTick
    then show ?thesis using f s by (simp add: faithful_def)
  next
    case (FlushEnds res)
    then show ?thesis using f s e flushEnd_faithful [of initial acc rc db res] by auto
  next
    case (SessionEnds icao)
    then show ?thesis using f s by (simp add: faithful_def)
  qed
qed

lemma run_faithful:
  assumes "faithful initial acc s" and "list_all (\<lambda>e. e \<noteq> FlushEnds Unacknowledged) es"
  shows "faithful initial (acc @ offered es s) (fold recorderStep es s)"
  using assms
proof (induction es arbitrary: acc s)
  case Nil
  then show ?case by simp
next
  case (Cons e es)
  then have "faithful initial (acc @ offeredBy e (fst s)) (recorderStep e s)"
    by (simp add: recorderStep_faithful)
  from Cons.IH [OF this] Cons.prems show ?case by simp
qed
text \<open>
  Positions are stored in order and an outage loses only the oldest ones. After any sequence of
  frames, timer ticks, ends of flights and flushes that succeed or fail without effect, the accepted points are
  some earlier points followed by those still waiting; what the table has gained is a selection of the earlier
  points in their order, none twice. A failed flush keeps the newest 2,000 waiting points.
\<close>

lemma positions_stored_in_order:
  assumes "list_all (\<lambda>e. e \<noteq> FlushEnds Unacknowledged) es"
  shows "(case fold recorderStep es (newRecorder, db) of (rc, db') \<Rightarrow>
            (\<exists>before stored. offered es (newRecorder, db) = before @ pendingPoints rc \<and> subseq stored before
               \<and> session_positions db' = session_positions db @ stored)
            \<and> (rc_inflight rc \<noteq> None \<longrightarrow>
                 rc_buffer (fst (flushEnd Refused rc db')) = retained (pendingPoints rc)
                 \<and> length (retained (pendingPoints rc)) = min 2000 (length (pendingPoints rc))))"
proof -
  obtain rc db' where r: "fold recorderStep es (newRecorder, db) = (rc, db')"
    by (cases "fold recorderStep es (newRecorder, db)")
  have "faithful (session_positions db) [] (newRecorder, db)"
    by (simp add: faithful_def newRecorder_def pendingPoints_def)
  from run_faithful [OF this assms] r
  have "faithful (session_positions db) (offered es (newRecorder, db)) (rc, db')" by simp
  moreover have "rc_buffer (fst (flushEnd Refused rc db')) = retained (pendingPoints rc)"
    if "rc_inflight rc \<noteq> None"
    using that by (auto simp: flushEnd_def pendingPoints_def)
  moreover have "length (retained (pendingPoints rc)) = min 2000 (length (pendingPoints rc))"
    by (simp add: retained_length MAX_RETAINED_ON_FAILURE_def)
  ultimately show ?thesis using r by (auto simp: faithful_def)
qed

definition demoFrame :: TelemetryRecord where
  "demoFrame = emptyRecord\<lparr>tr_icao := ''400F2A'', tr_ts := Some 1, tr_lat := Some 51, tr_lon := Some 0\<rparr>"

definition demoPoint :: SessionPosition where
  "demoPoint = \<lparr> sp_flight_id = 7, sp_aircraft_icao = ''400F2A'', sp_ts = 1,
     sp_lat = 51, sp_lon = 0, sp_alt_baro = Some 0, sp_gs = Some 0, sp_track = Some 0, sp_phase = TAXI \<rparr>"

lemma demo_sample [simp]: "sampleOf 0 7 TAXI demoFrame True rc = Some demoPoint"
proof -
  have "normaliseIcao ''400F2A'' = ''400F2A''" by code_simp
  then show ?thesis
    by (simp add: sampleOf_def demoFrame_def demoPoint_def emptyRecord_def frameTs_def Let_def js_round_def)
qed

definition demoEvents :: "RecorderEvent list" where
  "demoEvents = [Frame 0 7 TAXI demoFrame True, FlushTick, FlushEnds Refused, FlushTick, FlushEnds Done]"

definition demoDb :: SessionDb where
  "demoDb = \<lparr> flight_sessions = [], session_positions = [], nextSession = 8 \<rparr>"

lemma positions_stored_in_order_witness:
  "session_positions (snd (fold recorderStep demoEvents (newRecorder, demoDb))) = [demoPoint]"
proof -
  have ok: "list_all (\<lambda>e. e \<noteq> FlushEnds Unacknowledged) demoEvents" by (simp add: demoEvents_def)
  have off: "offered demoEvents (newRecorder, demoDb) = [demoPoint]" by (simp add: demoEvents_def)
  have p: "pendingPoints (fst (fold recorderStep demoEvents (newRecorder, demoDb))) = []"
    and o: "length (session_positions (snd (fold recorderStep demoEvents (newRecorder, demoDb)))) = 1"
    by (simp_all add: demoEvents_def demoDb_def recordPosition_def flushStart_def flushEnd_def newRecorder_def
        pendingPoints_def retained_def MAX_RETAINED_ON_FAILURE_def FLUSH_BATCH_SIZE_def Let_def
        insertSessionPositions_def)
  have e: "session_positions demoDb = []" by (simp add: demoDb_def)
  obtain rc db' where r: "fold recorderStep demoEvents (newRecorder, demoDb) = (rc, db')"
    by (cases "fold recorderStep demoEvents (newRecorder, demoDb)")
  show ?thesis
    using positions_stored_in_order [OF ok, of demoDb] p o unfolding r off e
    by (auto simp: length_Suc_conv split: if_splits)
qed

subsection \<open>Stored paths\<close>

lemma map_snd_filter_zip:
  "map snd (filter (\<lambda>(rn, _). P rn) (zip [k..<k + length xs] xs)) = nths xs {j. P (k + j)}"
proof (induction xs arbitrary: k)
  case Nil
  show ?case by simp
next
  case (Cons x xs)
  have "[k..<k + length (x # xs)] = k # [Suc k..<Suc k + length xs]" by (simp add: upt_rec)
  moreover have "{j. P (k + Suc j)} = {j. P (Suc k + j)}" by simp
  ultimately show ?case using Cons.IH [of "Suc k"] by (simp add: nths_Cons)
qed

lemma thin_nths:
  "thin step xs = nths xs {j. j mod step = 0 \<or> j + 1 = length xs}"
  using map_snd_filter_zip [of "\<lambda>rn. (rn - 1) mod step = 0 \<or> rn = length xs" 1 xs]
  by (simp add: thin_def add.commute)

lemma card_multiples:
  fixes s n :: nat
  assumes "0 < s"
  shows "card {j. j < n \<and> j mod s = 0} \<le> (n + s - 1) div s"
proof -
  have "inj_on (\<lambda>j. j div s) {j. j < n \<and> j mod s = 0}"
    by (rule inj_onI) (metis (mono_tags, lifting) add.right_neutral mem_Collect_eq mult_div_mod_eq)
  moreover have "(\<lambda>j. j div s) ` {j. j < n \<and> j mod s = 0} \<subseteq> {..<(n + s - 1) div s}"
  proof (rule image_subsetI)
    fix j assume "j \<in> {j. j < n \<and> j mod s = 0}"
    then have j: "j < n" "j mod s = 0" by auto
    then have "j = s * (j div s)" by auto
    then have "s * (j div s) + s \<le> n + s - 1" using j(1) by linarith
    then have "s * Suc (j div s) \<le> n + s - 1" by simp
    then have "j div s < (n + s - 1) div s"
      using assms by (metis Suc_le_lessD div_le_mono nonzero_mult_div_cancel_left less_not_refl2)
    then show "j div s \<in> {..<(n + s - 1) div s}" by simp
  qed
  ultimately show ?thesis
    using card_inj_on_le [of "\<lambda>j. j div s" _ "{..<(n + s - 1) div s}"] by simp
qed

lemma ceil_steps:
  fixes m n s :: nat
  assumes "0 < m" "0 < n" "s = (n + m - 1) div m"
  shows "0 < s" "(n + s - 1) div s \<le> m"
proof -
  have "1 = m div m" using assms(1) by simp
  also have "\<dots> \<le> s" unfolding assms(3) using assms(2) by (intro div_le_mono) simp
  finally show s: "0 < s" by simp
  have "n + m - 1 = m * s + (n + m - 1) mod m" unfolding assms(3) by simp
  moreover have "(n + m - 1) mod m < m" using assms(1) by (rule mod_less_divisor)
  ultimately have "n \<le> m * s" using assms(1) by linarith
  then have "(n + s - 1) div s \<le> (m * s + s - 1) div s" by (intro div_le_mono) simp
  also have "(m * s + s - 1) div s = m"
  proof (rule div_nat_eqI)
    show "s * m \<le> m * s + s - 1" using s by (simp add: mult.commute)
    show "m * s + s - 1 < s * Suc m" using s by (simp add: mult.commute)
  qed
  finally show "(n + s - 1) div s \<le> m" .
qed

lemma thin_length:
  assumes "0 < s"
  shows "length (thin s xs) \<le> (length xs + s - 1) div s + 1"
proof -
  have "length (thin s xs) = card {j. j < length xs \<and> (j mod s = 0 \<or> j + 1 = length xs)}"
    by (simp add: thin_nths length_nths)
  also have "\<dots> \<le> card ({j. j < length xs \<and> j mod s = 0} \<union> {length xs - 1})"
    by (intro card_mono) auto
  also have "\<dots> \<le> card {j. j < length xs \<and> j mod s = 0} + card {length xs - 1}"
    by (rule card_Un_le)
  also have "\<dots> \<le> (length xs + s - 1) div s + 1"
    using card_multiples [OF assms, of "length xs"] by simp
  finally show ?thesis .
qed

lemma thin_ends:
  assumes "xs \<noteq> []"
  shows "hd (thin s xs) = hd xs" "last (thin s xs) = last xs" "thin s xs \<noteq> []"
proof -
  obtain y ys where c: "xs = y # ys" using assms by (cases xs) auto
  obtain zs z where d: "xs = zs @ [z]" using assms by (cases xs rule: rev_cases) auto
  show "hd (thin s xs) = hd xs" "thin s xs \<noteq> []" by (simp_all add: thin_nths c nths_Cons)
  show "last (thin s xs) = last xs" by (simp add: thin_nths d nths_append nths_Cons)
qed

lemma thin_subseq: "subseq (thin s xs) xs"
  unfolding thin_nths subseq_conv_nths by blast

text \<open>
  A stored path keeps its shape at any cap: it is a selection of the positions of the flight, oldest
  first, with the first and the last of them, complete when they are within the cap and at most one point
  above the cap otherwise.
\<close>

lemma path_is_thinned:
  assumes "0 < maxPoints" and "positionsOf i db \<noteq> []"
  shows "(let path = getSessionPath i maxPoints db; all = sort_key sp_ts (positionsOf i db) in
            subseq path all \<and> sorted (map sp_ts path) \<and> hd path = hd all \<and> last path = last all
            \<and> length path \<le> maxPoints + 1 \<and> (length all \<le> maxPoints \<longrightarrow> path = all))"
proof -
  define xs where "xs = sort_key sp_ts (positionsOf i db)"
  have ne: "xs \<noteq> []" unfolding xs_def using assms(2) by (metis length_0_conv length_sort)
  have srt: "sorted (map sp_ts xs)" unfolding xs_def by simp
  show ?thesis
  proof (cases "length xs \<le> maxPoints")
    case True
    then show ?thesis using ne srt by (simp add: getSessionPath_def Let_def xs_def [symmetric])
  next
    case False
    define s where "s = (length xs + maxPoints - 1) div maxPoints"
    have "0 < length xs" using ne by simp
    note c = ceil_steps [OF assms(1) this s_def]
    have p: "getSessionPath i maxPoints db = thin s xs"
      unfolding getSessionPath_def Let_def xs_def [symmetric] s_def [symmetric] using ne False by simp
    have "sorted (map sp_ts (thin s xs))"
      using srt subseq_map [OF thin_subseq [of s xs], of sp_ts] by (metis sorted_nths subseq_conv_nths)
    moreover have "length (thin s xs) \<le> maxPoints + 1"
      using thin_length [OF c(1), of xs] c(2) by linarith
    ultimately show ?thesis
      using ne False thin_ends [OF ne, of s] thin_subseq [of s xs] by (simp add: p xs_def [symmetric])
  qed
qed

definition pointAt :: "millis \<Rightarrow> SessionPosition" where
  "pointAt t = demoPoint\<lparr>sp_ts := t\<rparr>"

definition demoPath :: SessionDb where
  "demoPath = demoDb\<lparr>session_positions := map pointAt [3, 1, 2, 4]\<rparr>"

text \<open>The cap is exceeded by one already by four points at a cap of two.\<close>

lemma path_is_thinned_witness:
  "getSessionPath 7 2 demoPath = map pointAt [1, 3, 4]
   \<and> subseq (getSessionPath 7 2 demoPath) (sort_key sp_ts (positionsOf 7 demoPath))"
proof -
  have p: "positionsOf 7 demoPath = map pointAt [3, 1, 2, 4]"
    by (simp add: positionsOf_def demoPath_def pointAt_def demoPoint_def)
  have s: "sort_key sp_ts (positionsOf 7 demoPath) = map pointAt [1, 2, 3, 4]"
    unfolding p by (simp add: pointAt_def)
  have "positionsOf 7 demoPath \<noteq> []" unfolding p by simp
  then have "subseq (getSessionPath 7 2 demoPath) (sort_key sp_ts (positionsOf 7 demoPath))"
    using path_is_thinned [of 2 7 demoPath] by (simp add: Let_def)
  moreover have "getSessionPath 7 2 demoPath = map pointAt [1, 3, 4]"
    by (simp add: getSessionPath_def Let_def s thin_def upt_rec)
  ultimately show ?thesis by simp
qed

subsection \<open>Column widths\<close>

text \<open>\<open>fits\<close>: the airport codes of a row are four characters of the alphabet and its airport names have between one
  and a hundred characters, as the columns \<open>varchar(4)\<close> and \<open>varchar(100)\<close> require.\<close>

definition fitsName :: "string option \<Rightarrow> bool" where
  "fitsName n \<longleftrightarrow> (case n of None \<Rightarrow> True | Some s \<Rightarrow> 0 < length s \<and> length s \<le> 100)"

definition fitsCode :: "string option \<Rightarrow> bool" where
  "fitsCode c \<longleftrightarrow> (case c of None \<Rightarrow> True | Some s \<Rightarrow> AIRPORT_ICAO_CODE s)"

definition fits :: "FlightSession \<Rightarrow> bool" where
  "fits r \<longleftrightarrow> fitsCode (fs_origin_icao r) \<and> fitsName (fs_origin_name r)
     \<and> fitsCode (fs_dest_icao r) \<and> fitsName (fs_dest_name r)"

lemma airportNameForStorage_fits: "fitsName (airportNameForStorage name)"
  by (auto simp: fitsName_def airportNameForStorage_def AIRPORT_NAME_MAX_LENGTH_def Let_def)

lemma normaliseAirportIcao_fits: "fitsCode (normaliseAirportIcao raw)"
  by (auto simp: fitsCode_def normaliseAirportIcao_def Let_def split: option.splits)

lemma createFlightSession_fits:
  assumes "createFlightSession now icao cs oi on p db = (r, db')" "fitsCode oi" "fitsName on"
  shows "fits r"
  using assms by (auto simp: createFlightSession_def Let_def fits_def fitsCode_def fitsName_def)

definition rowsFit :: "SessionDb \<Rightarrow> bool" where
  "rowsFit db \<longleftrightarrow> (\<forall>r \<in> set (flight_sessions db). fits r)"

lemma updateFlightSession_fit:
  assumes "rowsFit db" and "\<And>r. fits r \<Longrightarrow> fits (f r)"
  shows "rowsFit (updateFlightSession i f db)"
  using assms by (auto simp: rowsFit_def updateFlightSession_def)

lemma updateSessionDest_fit:
  assumes "updateSessionDest i code name = Some f" and "rowsFit db"
  shows "rowsFit (f db)"
proof (cases "f = id")
  case True
  then show ?thesis using assms(2) by simp
next
  case False
  have c: "fitsCode (normaliseAirportIcao code)" "fitsName (airportNameForStorage name)"
    by (rule normaliseAirportIcao_fits airportNameForStorage_fits)+
  have "f = updateFlightSession i (\<lambda>r.
           r\<lparr>fs_dest_icao := (case normaliseAirportIcao code of Some c \<Rightarrow> Some c | None \<Rightarrow> fs_dest_icao r),
             fs_dest_name := (case airportNameForStorage name of Some n \<Rightarrow> Some n | None \<Rightarrow> fs_dest_name r)\<rparr>)"
    using assms(1) False by (simp add: updateSessionDest_def Let_def split: if_splits)
  then show ?thesis
    using c by (auto intro!: updateFlightSession_fit [OF assms(2)] simp: fits_def split: option.splits)
qed

subsection \<open>Open sessions\<close>

definition openIds :: "SessionDb \<Rightarrow> string \<Rightarrow> nat set" where
  "openIds db icao = fs_id ` {r \<in> set (flight_sessions db). fs_aircraft_icao r = icao \<and> isOpen r}"

definition usedIds :: "SessionDb \<Rightarrow> nat set" where
  "usedIds db = fs_id ` set (flight_sessions db)"

definition keepsKeys :: "(FlightSession \<Rightarrow> FlightSession) \<Rightarrow> bool" where
  "keepsKeys f \<longleftrightarrow> (\<forall>r. fs_id (f r) = fs_id r \<and> fs_aircraft_icao (f r) = fs_aircraft_icao r
     \<and> fs_started_at (f r) = fs_started_at r)"

text \<open>
  The interface the engine relies on. A table of sessions gives a new row an identifier that was
  not in use; ending a row removes it from the open ones; nothing else opens a row. Then a hand-over, that is ending the
  only open row and creating another, leaves one open row.
\<close>

locale session_table =
  fixes invar :: "'db \<Rightarrow> bool"
    and opened :: "'db \<Rightarrow> string \<Rightarrow> nat set"
    and used :: "'db \<Rightarrow> nat set"
    and create :: "string \<Rightarrow> 'x \<Rightarrow> 'db \<Rightarrow> nat \<times> 'db"
    and finish :: "nat \<Rightarrow> 'y \<Rightarrow> 'db \<Rightarrow> 'db"
  assumes opened_used: "opened db a \<subseteq> used db"
    and create_law: "invar db \<Longrightarrow> create a x db = (i, db') \<Longrightarrow>
      invar db' \<and> i \<notin> used db \<and> opened db' = (opened db)(a := insert i (opened db a))"
    and finish_law: "invar db \<Longrightarrow>
      invar (finish i y db) \<and> used (finish i y db) = used db \<and> opened (finish i y db) a = opened db a - {i}"
begin

definition single :: "'db \<Rightarrow> bool" where
  "single db \<longleftrightarrow> (\<forall>a. \<exists>i. opened db a \<subseteq> {i})"

lemma finish_single: "invar db \<Longrightarrow> single db \<Longrightarrow> single (finish i y db)"
  unfolding single_def using finish_law by (metis Diff_subset subset_trans)

lemma finish_last: "invar db \<Longrightarrow> opened db a \<subseteq> {i} \<Longrightarrow> opened (finish i y db) a = {}"
  using finish_law by auto

lemma create_single:
  assumes "invar db" "single db" "opened db a = {}" "create a x db = (i, db')"
  shows "single db'" "opened db' a = {i}"
proof -
  have op: "opened db' = (opened db)(a := insert i (opened db a))"
    using create_law [OF assms(1,4)] by blast
  show o: "opened db' a = {i}" using op assms(3) by simp
  show "single db'" unfolding single_def
  proof
    fix b
    show "\<exists>j. opened db' b \<subseteq> {j}"
      using o assms(2) op by (cases "b = a") (auto simp: single_def)
  qed
qed

lemma hand_over:
  assumes "invar db" "single db" "opened db a \<subseteq> {i}" "create a x (finish i y db) = (j, db')"
  shows "single db' \<and> opened db' a = {j} \<and> j \<notin> opened db a"
proof -
  have f: "invar (finish i y db)" "single (finish i y db)" "opened (finish i y db) a = {}"
    using assms finish_law finish_single finish_last by blast+
  have "j \<notin> opened db a"
    using create_law [OF f(1) assms(4)] finish_law [OF assms(1)] opened_used by blast
  then show ?thesis using create_single [OF f assms(4)] by simp
qed

end

definition keysOk :: "SessionDb \<Rightarrow> bool" where
  "keysOk db \<longleftrightarrow> distinct (map fs_id (flight_sessions db)) \<and> (\<forall>i \<in> usedIds db. i < nextSession db)"

text \<open>The two statements of the interface: creation as every caller makes it, and the update that sets
  \<open>ended_at\<close> and possibly other columns that are no keys.\<close>

definition createRow ::
  "string \<Rightarrow> millis \<times> string \<times> string option \<times> string option \<times> FlightPhase \<Rightarrow> SessionDb \<Rightarrow> nat \<times> SessionDb" where
  "createRow icao x db =
     (case x of (now, cs, oi, on, p) \<Rightarrow>
        (case createFlightSession now icao cs oi on p db of (r, db') \<Rightarrow> (fs_id r, db')))"

definition finishRow :: "nat \<Rightarrow> millis \<times> (FlightPhase \<times> int \<times> int) option \<Rightarrow> SessionDb \<Rightarrow> SessionDb" where
  "finishRow i y =
     updateFlightSession i (\<lambda>r. case y of
        (t, None) \<Rightarrow> r\<lparr>fs_ended_at := Some t\<rparr>
      | (t, Some (p, n, sats)) \<Rightarrow> r\<lparr>fs_ended_at := Some t, fs_phase := p,
           fs_total_tx_count := n, fs_total_sats_spent := sats\<rparr>)"

lemma expireSession_finish:
  "expireSession s t = finishRow (fs_id s) (max (fs_started_at s) t, None)"
  by (simp add: expireSession_def finishRow_def)

lemma closeSession_finish: "closeSession now i n sats = finishRow i (now, Some (PARKED, n, sats))"
  by (simp add: closeSession_def finishRow_def)

text \<open>A statement that rewrites rows in place and leaves their keys alone.\<close>

definition rewriteRows :: "(FlightSession \<Rightarrow> FlightSession) \<Rightarrow> SessionDb \<Rightarrow> SessionDb" where
  "rewriteRows g db = db\<lparr>flight_sessions := map g (flight_sessions db)\<rparr>"

lemma updateFlightSession_rewrite:
  "updateFlightSession i f = rewriteRows (\<lambda>r. if fs_id r = i then f r else r)"
  by (simp add: updateFlightSession_def rewriteRows_def fun_eq_iff)

lemma keepsKeys_if: "keepsKeys f \<Longrightarrow> keepsKeys (\<lambda>r. if P r then f r else r)"
  by (simp add: keepsKeys_def)

lemma rewriteRows_ids:
  assumes "keepsKeys g"
  shows "map fs_id (flight_sessions (rewriteRows g db)) = map fs_id (flight_sessions db)"
  using assms by (simp add: rewriteRows_def keepsKeys_def)

lemma rewriteRows_keys:
  assumes "keepsKeys g"
  shows "usedIds (rewriteRows g db) = usedIds db" and "keysOk (rewriteRows g db) = keysOk db"
proof -
  show u: "usedIds (rewriteRows g db) = usedIds db"
    using arg_cong [OF rewriteRows_ids [OF assms], of set db] unfolding usedIds_def set_map .
  show "keysOk (rewriteRows g db) = keysOk db"
    unfolding keysOk_def u rewriteRows_ids [OF assms] by (simp add: rewriteRows_def)
qed

lemma openIds_rewrite:
  assumes "keepsKeys g"
  shows "openIds (rewriteRows g db) a =
    fs_id ` {r \<in> set (flight_sessions db). fs_aircraft_icao r = a \<and> isOpen (g r)}"
proof -
  have "{r \<in> set (map g (flight_sessions db)). fs_aircraft_icao r = a \<and> isOpen r} =
      g ` {r \<in> set (flight_sessions db). fs_aircraft_icao r = a \<and> isOpen (g r)}"
    using assms by (auto simp: keepsKeys_def)
  then show ?thesis using assms by (simp add: openIds_def rewriteRows_def image_image keepsKeys_def)
qed

lemma updateFlightSession_keys:
  assumes "keepsKeys f"
  shows "usedIds (updateFlightSession i f db) = usedIds db"
    and "keysOk (updateFlightSession i f db) = keysOk db"
  unfolding updateFlightSession_rewrite by (rule rewriteRows_keys [OF keepsKeys_if [OF assms]])+

lemma openIds_update:
  assumes "keepsKeys f" "\<And>r. isOpen (f r) = isOpen r"
  shows "openIds (updateFlightSession i f db) = openIds db"
proof
  fix a
  have "isOpen (if fs_id r = i then f r else r) = isOpen r" for r using assms(2) by simp
  then show "openIds (updateFlightSession i f db) a = openIds db a"
    unfolding updateFlightSession_rewrite openIds_rewrite [OF keepsKeys_if [OF assms(1)]]
    by (simp add: openIds_def)
qed

lemma keepsKeys_finish:
  "keepsKeys (\<lambda>r. case y of (t, None) \<Rightarrow> r\<lparr>fs_ended_at := Some t\<rparr>
      | (t, Some (p, n, sats)) \<Rightarrow> r\<lparr>fs_ended_at := Some t, fs_phase := p,
           fs_total_tx_count := n, fs_total_sats_spent := sats\<rparr>)"
  by (simp add: keepsKeys_def split: prod.split option.split)

lemma openIds_finish: "openIds (finishRow i y db) a = openIds db a - {i}"
proof -
  let ?g = "\<lambda>r. case y of (t, None) \<Rightarrow> r\<lparr>fs_ended_at := Some t\<rparr>
      | (t, Some (p, n, sats)) \<Rightarrow> r\<lparr>fs_ended_at := Some t, fs_phase := p,
           fs_total_tx_count := n, fs_total_sats_spent := sats\<rparr>"
  have "\<not> isOpen (?g r)" for r
  proof -
    obtain t z where y: "y = (t, z)" by (cases y)
    show ?thesis unfolding y by (cases z) (auto simp: isOpen_def)
  qed
  then have o: "isOpen (if fs_id r = i then ?g r else r) = (fs_id r \<noteq> i \<and> isOpen r)" for r by simp
  show ?thesis
    unfolding finishRow_def updateFlightSession_rewrite openIds_rewrite [OF keepsKeys_if [OF keepsKeys_finish]] o
    by (auto simp: openIds_def)
qed

lemma createRow_law:
  assumes "keysOk db" "createRow a x db = (i, db')"
  shows "keysOk db' \<and> i \<notin> usedIds db \<and> openIds db' = (openIds db)(a := insert i (openIds db a))"
proof -
  obtain now cs oi on p where x: "x = (now, cs, oi, on, p)" by (cases x)
  define row where "row = fst (createFlightSession now a cs oi on p db)"
  have r: "fs_id row = nextSession db" "fs_aircraft_icao row = a" "isOpen row"
    by (simp_all add: row_def createFlightSession_def Let_def isOpen_def)
  have c: "createFlightSession now a cs oi on p db =
      (row, db\<lparr>flight_sessions := flight_sessions db @ [row], nextSession := nextSession db + 1\<rparr>)"
    by (simp add: row_def createFlightSession_def Let_def)
  have i: "i = nextSession db"
    and d: "db' = db\<lparr>flight_sessions := flight_sessions db @ [row], nextSession := nextSession db + 1\<rparr>"
    using assms(2) by (auto simp: x createRow_def c r)
  have n: "i \<notin> usedIds db" using assms(1) i by (auto simp: keysOk_def)
  have "keysOk db'" using assms(1) n r i by (auto simp: keysOk_def d usedIds_def)
  moreover have "openIds db' b = (if b = a then insert i (openIds db b) else openIds db b)" for b
  proof -
    have "{x \<in> set (flight_sessions db'). fs_aircraft_icao x = b \<and> isOpen x} =
        (if b = a then {row} else {}) \<union> {x \<in> set (flight_sessions db). fs_aircraft_icao x = b \<and> isOpen x}"
      using r by (auto simp: d)
    then show ?thesis using r i by (simp add: openIds_def)
  qed
  ultimately show ?thesis using n by (simp add: fun_eq_iff)
qed

interpretation sessionTable: session_table keysOk openIds usedIds createRow finishRow
proof unfold_locales
  show "openIds db a \<subseteq> usedIds db" for db a by (auto simp: openIds_def usedIds_def)
  show "keysOk db' \<and> i \<notin> usedIds db \<and> openIds db' = (openIds db)(a := insert i (openIds db a))"
    if "keysOk db" "createRow a x db = (i, db')" for db a x i db'
    by (rule createRow_law [OF that])
  show "keysOk (finishRow i y db) \<and> usedIds (finishRow i y db) = usedIds db
      \<and> openIds (finishRow i y db) a = openIds db a - {i}" if "keysOk db" for db i y a
    using that updateFlightSession_keys [OF keepsKeys_finish, of i y db] openIds_finish
    unfolding finishRow_def by blast
qed

lemmas single_open_def = sessionTable.single_def

lemma newestOf_in: "newestOf rows = Some r \<Longrightarrow> r \<in> set rows"
  by (induction rows arbitrary: r rule: rev_induct) (auto simp: newestOf_def split: option.splits if_splits)

lemma newestOf_None: "newestOf rows = None \<longleftrightarrow> rows = []"
  by (induction rows rule: rev_induct) (auto simp: newestOf_def split: option.splits if_splits)

lemma getActiveSession_open:
  assumes "getActiveSession icao db = Some r"
  shows "r \<in> set (flight_sessions db)" "fs_aircraft_icao r = icao" "isOpen r" "fs_id r \<in> openIds db icao"
  using newestOf_in [OF assms [unfolded getActiveSession_def]] by (auto simp: openIds_def)

lemma getActiveSession_None: "getActiveSession icao db = None \<longleftrightarrow> openIds db icao = {}"
  by (auto simp: getActiveSession_def newestOf_None openIds_def filter_empty_conv)

text \<open>The newest open session: none of the aircraft's open rows started later.\<close>

lemma newestOf_latest: "newestOf rows = Some r \<Longrightarrow> x \<in> set rows \<Longrightarrow> fs_started_at x \<le> fs_started_at r"
proof (induction rows arbitrary: r rule: rev_induct)
  case Nil
  then show ?case by simp
next
  case (snoc y ys)
  have u: "newestOf (ys @ [y]) = (case newestOf ys of None \<Rightarrow> Some y
      | Some b \<Rightarrow> if fs_started_at y > fs_started_at b then Some y else Some b)"
    by (simp add: newestOf_def)
  show ?case
  proof (cases "newestOf ys")
    case None
    then show ?thesis using snoc.prems u newestOf_None [of ys] by simp
  next
    case (Some b)
    then show ?thesis using snoc.prems u snoc.IH [OF Some]
      by (auto split: if_splits)
  qed
qed

lemma expireStale_rewrite:
  "snd (expireStaleFlightSessions cutoff db) =
     rewriteRows (\<lambda>r. if isStale cutoff db r then r\<lparr>fs_ended_at := Some (lastMs db r)\<rparr> else r) db"
  by (simp add: expireStaleFlightSessions_def rewriteRows_def)

lemma expireStale_open:
  fixes db db' :: SessionDb and cutoff :: millis
  defines "db' \<equiv> snd (expireStaleFlightSessions cutoff db)"
  shows "openIds db' a \<subseteq> openIds db a" "keysOk db' = keysOk db" "usedIds db' = usedIds db"
    "session_positions db' = session_positions db"
proof -
  let ?g = "\<lambda>r. if isStale cutoff db r then r\<lparr>fs_ended_at := Some (lastMs db r)\<rparr> else r"
  have k: "keepsKeys ?g" by (simp add: keepsKeys_def)
  have "isOpen (?g r) \<Longrightarrow> isOpen r" for r by (simp add: isOpen_def split: if_splits)
  then show "openIds db' a \<subseteq> openIds db a"
    unfolding db'_def expireStale_rewrite openIds_rewrite [OF k] openIds_def [of db a] by blast
  show "keysOk db' = keysOk db" "usedIds db' = usedIds db"
    unfolding db'_def expireStale_rewrite by (rule rewriteRows_keys [OF k])+
  show "session_positions db' = session_positions db" by (simp add: db'_def expireStale_rewrite rewriteRows_def)
qed

text \<open>What the sweep ends: exactly the open rows without a sign of life since the cutoff, no earlier than they
  started.\<close>

lemma expireStale_exact:
  assumes "r \<in> set (flight_sessions db)" "isStale cutoff db r"
  shows "(fs_id r, fs_aircraft_icao r) \<in> set (fst (expireStaleFlightSessions cutoff db))"
    and "fs_started_at r \<le> lastMs db r" and "lastMs db r < cutoff"
  using assms by (auto simp: expireStaleFlightSessions_def lastMs_def isStale_def)

lemma getLiveFlightSessions_one_each:
  "distinct (map fs_aircraft_icao (getLiveFlightSessions since limit db))"
proof -
  define live where "live = filter (showsLife since db) (flight_sessions db)"
  define pick where "pick = (\<lambda>icao. newestOf (filter (\<lambda>r. fs_aircraft_icao r = icao) live))"
  have p: "fs_aircraft_icao r = icao" if "pick icao = Some r" for icao r
    using newestOf_in [OF that [unfolded pick_def]] by simp
  have "distinct (map fs_aircraft_icao (List.map_filter pick xs)) \<and>
      set (map fs_aircraft_icao (List.map_filter pick xs)) \<subseteq> set xs" if "distinct xs" for xs
    using that by (induction xs) (auto simp: List.map_filter_simps split: option.splits dest: p)
  from this [of "remdups (map fs_aircraft_icao live)"]
  have d: "distinct (map fs_aircraft_icao (List.map_filter pick (remdups (map fs_aircraft_icao live))))"
    by simp
  have "mset (map fs_aircraft_icao (rev (sort_key fs_started_at xs))) = mset (map fs_aircraft_icao xs)"
    for xs :: "FlightSession list" by simp
  note ms = mset_eq_imp_distinct_iff [OF this]
  then have "distinct (map fs_aircraft_icao (take limit (rev (sort_key fs_started_at
      (List.map_filter pick (remdups (map fs_aircraft_icao live)))))))"
    using d unfolding take_map [symmetric] by (intro distinct_take) (simp only: ms)
  then show ?thesis unfolding getLiveFlightSessions_def Let_def live_def pick_def .
qed

end
