(* ===== verification/Flight_Phase.thy ===== *)
theory Flight_Phase
  imports Types
begin

text \<open>
  The flight-phase detector of \<open>packages/flight-phase/src/state-machine.ts\<close>.

  \<open>AircraftPhaseState\<close> is the state of one aircraft, \<open>stepAirbornePhase\<close> one airborne
  step (the source mutates the state record in place, the model returns it with the
  phase), \<open>airborneLoop\<close> the \<open>for (step < 16)\<close> loop, \<open>updateState\<close> the body of
  \<open>updateWithTransitions\<close> for a known aircraft, and \<open>updateWithTransitions\<close> the method
  itself on the map of all aircraft. Listeners are identified by numbers; a call to a
  listener is recorded in the result (the source isolates their failures). \<open>now\<close> is
  \<open>Date.now()\<close>, used only when a record carries no finite timestamp.
\<close>

record AircraftPhaseState =
  currentPhase :: FlightPhase
  previousPhase :: "FlightPhase option"
  phaseEnteredAt :: millis
  stableVrateStartedAt :: "millis option"
  descentStartedAt :: "millis option"
  lastOnGround :: bool
  lastRecord :: "TelemetryRecord option"

definition PARKED_SLOW_MS :: millis where "PARKED_SLOW_MS = 60000"
definition STABLE_VRATE_MS :: millis where "STABLE_VRATE_MS = 60000"
definition DESCENT_SUSTAIN_MS :: millis where "DESCENT_SUSTAIN_MS = 30000"
definition CLIMB_ALT_FT :: real where "CLIMB_ALT_FT = 3000"
definition APPROACH_ALT_FT :: real where "APPROACH_ALT_FT = 10000"
definition VSI_LEVEL_LOW :: real where "VSI_LEVEL_LOW = -300"
definition VSI_LEVEL_HIGH :: real where "VSI_LEVEL_HIGH = 300"
definition VSI_CLIMB_THRESHOLD :: real where "VSI_CLIMB_THRESHOLD = 300"
definition VSI_DESCENT_THRESHOLD :: real where "VSI_DESCENT_THRESHOLD = -300"
definition TAXI_GS_KTS :: real where "TAXI_GS_KTS = 5"
definition CRUISE_INITIAL_ALT_FT :: real where "CRUISE_INITIAL_ALT_FT = 25000"

lemmas phase_consts =
  PARKED_SLOW_MS_def STABLE_VRATE_MS_def DESCENT_SUSTAIN_MS_def CLIMB_ALT_FT_def
  APPROACH_ALT_FT_def VSI_LEVEL_LOW_def VSI_LEVEL_HIGH_def VSI_CLIMB_THRESHOLD_def
  VSI_DESCENT_THRESHOLD_def TAXI_GS_KTS_def CRUISE_INITIAL_ALT_FT_def

definition telemetryTimeMs :: "millis \<Rightarrow> TelemetryRecord \<Rightarrow> millis" where
  "telemetryTimeMs now r = (case tr_ts r of Some t \<Rightarrow> t | None \<Rightarrow> now)"

definition sanitizeGs :: "TelemetryRecord \<Rightarrow> real" where
  "sanitizeGs r = (case tr_gs r of None \<Rightarrow> 0 | Some g \<Rightarrow> max 0 g)"

definition sanitizeBaroRate :: "TelemetryRecord \<Rightarrow> real" where
  "sanitizeBaroRate r = num_or_zero (tr_baro_rate r)"

definition sanitizeAltBaro :: "TelemetryRecord \<Rightarrow> real" where
  "sanitizeAltBaro r = num_or_zero (tr_alt_baro r)"

definition inferInitialPhase :: "TelemetryRecord \<Rightarrow> FlightPhase" where
  "inferInitialPhase r =
     (if tr_on_ground r then PARKED
      else if sanitizeAltBaro r \<ge> CRUISE_INITIAL_ALT_FT then CRUISE else CLIMB)"

definition freshParkedState :: "millis \<Rightarrow> AircraftPhaseState" where
  "freshParkedState ts =
     \<lparr> currentPhase = PARKED, previousPhase = None, phaseEnteredAt = ts,
       stableVrateStartedAt = None, descentStartedAt = None, lastOnGround = True,
       lastRecord = None \<rparr>"

definition createStateFromFirstRecord :: "millis \<Rightarrow> TelemetryRecord \<Rightarrow> AircraftPhaseState" where
  "createStateFromFirstRecord now r =
     \<lparr> currentPhase = inferInitialPhase r, previousPhase = None,
       phaseEnteredAt = telemetryTimeMs now r, stableVrateStartedAt = None,
       descentStartedAt = None, lastOnGround = tr_on_ground r, lastRecord = Some r \<rparr>"

text \<open>The first two \<open>if\<close> statements of the step: the descent and the level timers.\<close>

definition noteDescent :: "FlightPhase \<Rightarrow> AircraftPhaseState \<Rightarrow> real \<Rightarrow> millis \<Rightarrow> AircraftPhaseState" where
  "noteDescent phase st baro ts =
     (if phase = CLIMB \<or> phase = CRUISE then
        (if baro < VSI_DESCENT_THRESHOLD then
           (if descentStartedAt st = None then st\<lparr>descentStartedAt := Some ts\<rparr> else st)
         else st\<lparr>descentStartedAt := None\<rparr>)
      else st\<lparr>descentStartedAt := None\<rparr>)"

definition noteLevel :: "FlightPhase \<Rightarrow> AircraftPhaseState \<Rightarrow> real \<Rightarrow> millis \<Rightarrow> AircraftPhaseState" where
  "noteLevel phase st baro ts =
     (if phase = CLIMB then
        (if baro \<ge> VSI_LEVEL_LOW \<and> baro \<le> VSI_LEVEL_HIGH then
           (if stableVrateStartedAt st = None then st\<lparr>stableVrateStartedAt := Some ts\<rparr> else st)
         else st\<lparr>stableVrateStartedAt := None\<rparr>)
      else st\<lparr>stableVrateStartedAt := None\<rparr>)"

definition heldFor :: "millis option \<Rightarrow> millis \<Rightarrow> millis \<Rightarrow> bool" where
  "heldFor started ts dur = (case started of None \<Rightarrow> False | Some t0 \<Rightarrow> ts - t0 \<ge> dur)"

definition stepAirbornePhase ::
  "FlightPhase \<Rightarrow> AircraftPhaseState \<Rightarrow> real \<Rightarrow> real \<Rightarrow> millis \<Rightarrow> FlightPhase \<times> AircraftPhaseState" where
  "stepAirbornePhase phase st0 alt baro ts =
     (let st = noteLevel phase (noteDescent phase st0 baro ts) baro ts in
      if phase = TAKEOFF \<and> alt > CLIMB_ALT_FT \<and> baro > VSI_CLIMB_THRESHOLD then (CLIMB, st)
      else if phase = CLIMB \<and> baro < VSI_DESCENT_THRESHOLD
              \<and> heldFor (descentStartedAt st) ts DESCENT_SUSTAIN_MS then (DESCENT, st)
      else if phase = CLIMB \<and> baro \<ge> VSI_LEVEL_LOW \<and> baro \<le> VSI_LEVEL_HIGH
              \<and> heldFor (stableVrateStartedAt st) ts STABLE_VRATE_MS then (CRUISE, st)
      else if phase = CRUISE \<and> baro > VSI_CLIMB_THRESHOLD then (CLIMB, st)
      else if phase = CRUISE \<and> baro < VSI_DESCENT_THRESHOLD
              \<and> heldFor (descentStartedAt st) ts DESCENT_SUSTAIN_MS then (DESCENT, st)
      else if phase = DESCENT \<and> alt < APPROACH_ALT_FT then (APPROACH, st)
      else (phase, st))"

text \<open>
  \<open>for (let step = 0; step < 16; step++)\<close>: the first argument counts the remaining
  iterations, as the source's bound does.
\<close>

fun airborneLoop ::
  "nat \<Rightarrow> FlightPhase \<Rightarrow> AircraftPhaseState \<Rightarrow> real \<Rightarrow> real \<Rightarrow> millis \<Rightarrow> FlightPhase \<times> AircraftPhaseState" where
  "airborneLoop 0 phase st alt baro ts = (phase, st)"
| "airborneLoop (Suc n) phase st alt baro ts =
     (case stepAirbornePhase phase st alt baro ts of (nxt, st') \<Rightarrow>
        if nxt = phase then (phase, st') else airborneLoop n nxt st' alt baro ts)"

text \<open>The \<open>onGround\<close> branch: the slow-taxi timer, \<open>PARKED\<close>, \<open>TAXI\<close> and \<open>TAXI_IN\<close>.\<close>

definition groundStep ::
  "AircraftPhaseState \<Rightarrow> real \<Rightarrow> millis \<Rightarrow> FlightPhase \<times> AircraftPhaseState" where
  "groundStep st0 gs ts =
     (let st1 = st0\<lparr>descentStartedAt := None\<rparr>;
          st = (if gs < TAXI_GS_KTS
                then (if stableVrateStartedAt st1 = None
                      then st1\<lparr>stableVrateStartedAt := Some ts\<rparr> else st1)
                else st1\<lparr>stableVrateStartedAt := None\<rparr>);
          phase0 = currentPhase st0;
          phase1 = (if gs < TAXI_GS_KTS \<and> heldFor (stableVrateStartedAt st) ts PARKED_SLOW_MS
                    then PARKED else phase0);
          phase2 = (if gs \<ge> TAXI_GS_KTS \<and> (phase1 = LANDING \<or> phase1 = PARKED \<or> phase1 = TAXI_IN)
                    then (if phase1 = LANDING then TAXI_IN else TAXI) else phase1)
      in (phase2, st))"

text \<open>Branch selection of \<open>updateWithTransitions\<close>: the phase before it is compared.\<close>

definition classify ::
  "AircraftPhaseState \<Rightarrow> bool \<Rightarrow> real \<Rightarrow> real \<Rightarrow> real \<Rightarrow> millis \<Rightarrow> FlightPhase \<times> AircraftPhaseState" where
  "classify st onGround gs baro alt ts =
     (if \<not> lastOnGround st \<and> onGround then
        (LANDING, st\<lparr>descentStartedAt := None,
                     stableVrateStartedAt := (if gs < TAXI_GS_KTS then Some ts else None)\<rparr>)
      else if lastOnGround st \<and> \<not> onGround then
        (TAKEOFF, st\<lparr>stableVrateStartedAt := None, descentStartedAt := None\<rparr>)
      else if onGround then groundStep st gs ts
      else airborneLoop 16 (currentPhase st) st alt baro ts)"

definition updateState ::
  "millis \<Rightarrow> TelemetryRecord \<Rightarrow> AircraftPhaseState \<Rightarrow> AircraftPhaseState \<times> PhaseTransition list" where
  "updateState now r st0 =
     (let ts = telemetryTimeMs now r;
          onGround = tr_on_ground r;
          gs = sanitizeGs r;
          fromPhase = currentPhase st0;
          (phase, st) = classify st0 onGround gs (sanitizeBaroRate r) (sanitizeAltBaro r) ts;
          (st', transitions) =
            (if phase \<noteq> fromPhase then
               (st\<lparr>previousPhase := Some fromPhase, currentPhase := phase, phaseEnteredAt := ts,
                   descentStartedAt := None,
                   stableVrateStartedAt :=
                     (if onGround \<and> gs < TAXI_GS_KTS then Some ts else None)\<rparr>,
                [\<lparr> pt_aircraft_icao = normaliseIcao (tr_icao r), pt_from_phase = fromPhase,
                   pt_to_phase = phase, pt_timestamp = ts, pt_telemetry = r \<rparr>])
             else (st, []))
      in (st'\<lparr>lastOnGround := onGround, lastRecord := Some r\<rparr>, transitions))"

record FlightPhaseDetector =
  states :: "string \<rightharpoonup> AircraftPhaseState"
  listeners :: "nat list"

definition newDetector :: FlightPhaseDetector where
  "newDetector = \<lparr> states = Map.empty, listeners = [] \<rparr>"

text \<open>
  \<open>updateWithTransitions\<close>: the new detector, the phase, the transitions, and the listener
  calls in order.
\<close>

definition updateWithTransitions ::
  "millis \<Rightarrow> TelemetryRecord \<Rightarrow> FlightPhaseDetector \<Rightarrow>
     FlightPhaseDetector \<times> FlightPhase \<times> PhaseTransition list \<times> (nat \<times> PhaseTransition) list" where
  "updateWithTransitions now r d =
     (let icao = normaliseIcao (tr_icao r) in
      case states d icao of
        None \<Rightarrow>
          (let st = createStateFromFirstRecord now r
           in (d\<lparr>states := (states d)(icao \<mapsto> st)\<rparr>, currentPhase st, [], []))
      | Some st0 \<Rightarrow>
          (case updateState now r st0 of (st, transitions) \<Rightarrow>
             (d\<lparr>states := (states d)(icao \<mapsto> st)\<rparr>, currentPhase st, transitions,
              concat (map (\<lambda>t. map (\<lambda>l. (l, t)) (listeners d)) transitions))))"

definition update :: "millis \<Rightarrow> TelemetryRecord \<Rightarrow> FlightPhaseDetector \<Rightarrow> FlightPhaseDetector" where
  "update now r d = fst (updateWithTransitions now r d)"

definition getPhase :: "FlightPhaseDetector \<Rightarrow> string \<Rightarrow> FlightPhase" where
  "getPhase d icao = (case states d (normaliseIcao icao) of Some s \<Rightarrow> currentPhase s | None \<Rightarrow> PARKED)"

definition getState :: "FlightPhaseDetector \<Rightarrow> string \<Rightarrow> AircraftPhaseState option" where
  "getState d icao = states d (normaliseIcao icao)"

definition onTransition :: "nat \<Rightarrow> FlightPhaseDetector \<Rightarrow> FlightPhaseDetector" where
  "onTransition l d = d\<lparr>listeners := listeners d @ [l]\<rparr>"

text \<open>The closure \<open>onTransition\<close> returns: it removes the first occurrence.\<close>

definition unsubscribe :: "nat \<Rightarrow> FlightPhaseDetector \<Rightarrow> FlightPhaseDetector" where
  "unsubscribe l d = d\<lparr>listeners := remove1 l (listeners d)\<rparr>"

definition reset :: "millis \<Rightarrow> string \<Rightarrow> FlightPhaseDetector \<Rightarrow> FlightPhaseDetector" where
  "reset now icao d = d\<lparr>states := (states d)(normaliseIcao icao \<mapsto> freshParkedState now)\<rparr>"


subsection \<open>Airborne steps\<close>

lemmas step_unfold =
  stepAirbornePhase_def noteLevel_def noteDescent_def heldFor_def phase_consts Let_def

text \<open>The airborne transition relation for one sample: what a single step may do.\<close>

inductive air_step :: "real \<Rightarrow> real \<Rightarrow> FlightPhase \<Rightarrow> FlightPhase \<Rightarrow> bool" for alt baro where
  takeoff_climb: "alt > 3000 \<Longrightarrow> baro > 300 \<Longrightarrow> air_step alt baro TAKEOFF CLIMB"
| climb_descent: "baro < -300 \<Longrightarrow> air_step alt baro CLIMB DESCENT"
| climb_cruise: "-300 \<le> baro \<Longrightarrow> baro \<le> 300 \<Longrightarrow> air_step alt baro CLIMB CRUISE"
| cruise_climb: "baro > 300 \<Longrightarrow> air_step alt baro CRUISE CLIMB"
| cruise_descent: "baro < -300 \<Longrightarrow> air_step alt baro CRUISE DESCENT"
| descent_approach: "alt < 10000 \<Longrightarrow> air_step alt baro DESCENT APPROACH"

inductive_simps air_step_simps [simp]:
  "air_step alt baro TAKEOFF q" "air_step alt baro CLIMB q" "air_step alt baro CRUISE q"
  "air_step alt baro DESCENT q" "air_step alt baro APPROACH q" "air_step alt baro PARKED q"
  "air_step alt baro TAXI q" "air_step alt baro LANDING q" "air_step alt baro TAXI_IN q"

lemma step_air:
  "stepAirbornePhase p st alt baro ts = (q, st') \<Longrightarrow> q = p \<or> air_step alt baro p q"
  by (auto simp: step_unfold air_step.simps split: if_splits)

lemma air_step_short:
  "air_step alt baro p q \<Longrightarrow> air_step alt baro q r \<Longrightarrow> \<not> air_step alt baro r s"
  by (cases p; cases q; cases r; simp)

lemma air_step_acyclic: "air_step alt baro p q \<Longrightarrow> air_step alt baro q r \<Longrightarrow> r \<noteq> p"
  by (cases p; cases q; cases r; simp)

lemma air_step_irrefl: "\<not> air_step alt baro p p"
  by (cases p; simp)

definition frame_of :: "AircraftPhaseState \<Rightarrow> _" where
  "frame_of st =
     (currentPhase st, previousPhase st, phaseEnteredAt st, lastOnGround st, lastRecord st)"

text \<open>
  The timers in closed form: a timer keeps its start while its condition holds, starts at
  the first sample that satisfies it, and is cleared by the first that does not.
\<close>

definition tick :: "bool \<Rightarrow> millis \<Rightarrow> millis option \<Rightarrow> millis option" where
  "tick running ts started =
     (if running then Some (case started of None \<Rightarrow> ts | Some t0 \<Rightarrow> t0) else None)"

lemma tick_idem [simp]: "tick b ts (tick b ts t) = tick b ts t"
  by (simp add: tick_def)

lemma tick_False [simp]: "tick False ts t = None"
  by (simp add: tick_def)

lemma tick_not_None: "tick b ts t \<noteq> None \<longleftrightarrow> b"
  by (simp add: tick_def)

lemma noteDescent_eq:
  "noteDescent p st baro ts =
     st\<lparr>descentStartedAt :=
        tick ((p = CLIMB \<or> p = CRUISE) \<and> baro < VSI_DESCENT_THRESHOLD) ts (descentStartedAt st)\<rparr>"
  by (cases st) (auto simp: noteDescent_def tick_def split: option.split)

lemma noteLevel_eq:
  "noteLevel p st baro ts =
     st\<lparr>stableVrateStartedAt :=
        tick (p = CLIMB \<and> baro \<ge> VSI_LEVEL_LOW \<and> baro \<le> VSI_LEVEL_HIGH) ts
             (stableVrateStartedAt st)\<rparr>"
  by (cases st) (auto simp: noteLevel_def tick_def split: option.split)

lemma groundStep_snd:
  "snd (groundStep st gs ts) =
     st\<lparr>descentStartedAt := None,
        stableVrateStartedAt := tick (gs < TAXI_GS_KTS) ts (stableVrateStartedAt st)\<rparr>"
  by (cases st) (auto simp: groundStep_def tick_def Let_def split: option.split)

lemma step_snd:
  "snd (stepAirbornePhase p st alt baro ts) = noteLevel p (noteDescent p st baro ts) baro ts"
  by (simp add: stepAirbornePhase_def Let_def)

lemma step_frame: "stepAirbornePhase p st alt baro ts = (q, st') \<Longrightarrow> frame_of st' = frame_of st"
  using step_snd [of p st alt baro ts] by (simp add: noteDescent_eq noteLevel_eq frame_of_def)

lemma step_idem:
  assumes "stepAirbornePhase p st alt baro ts = (q, st')"
  shows "stepAirbornePhase p st' alt baro ts = (q, st')"
proof -
  have st': "st' = noteLevel p (noteDescent p st baro ts) baro ts"
    using step_snd [of p st alt baro ts] assms by simp
  then have "noteLevel p (noteDescent p st' baro ts) baro ts = st'"
    by (simp add: noteDescent_eq noteLevel_eq)
  with assms st' show ?thesis
    by (simp add: stepAirbornePhase_def Let_def)
qed

lemma step_timers:
  assumes "stepAirbornePhase p st alt baro ts = (q, st')"
  shows "descentStartedAt st' \<noteq> None \<Longrightarrow> p = CLIMB \<or> p = CRUISE"
    and "stableVrateStartedAt st' \<noteq> None \<Longrightarrow> p = CLIMB"
  using step_snd [of p st alt baro ts] assms
  by (auto simp: noteDescent_eq noteLevel_eq tick_def split: if_splits)

text \<open>Three iterations decide: the source's cap of 16 never truncates the loop.\<close>

lemma loop_cap: "airborneLoop (3 + n) p st alt baro ts = airborneLoop 3 p st alt baro ts"
proof -
  obtain q st1 where s1: "stepAirbornePhase p st alt baro ts = (q, st1)" by fastforce
  obtain r st2 where s2: "stepAirbornePhase q st1 alt baro ts = (r, st2)" by fastforce
  obtain s st3 where s3: "stepAirbornePhase r st2 alt baro ts = (s, st3)" by fastforce
  have "q = p \<or> r = q \<or> s = r"
    using step_air [OF s1] step_air [OF s2] step_air [OF s3] air_step_short by blast
  then show ?thesis by (auto simp: s1 s2 s3 numeral_eq_Suc)
qed

lemma loop_fixpoint:
  assumes "airborneLoop (3 + n) p st alt baro ts = (q, st')"
  shows "stepAirbornePhase q st' alt baro ts = (q, st')"
proof -
  obtain q1 st1 where s1: "stepAirbornePhase p st alt baro ts = (q1, st1)" by fastforce
  obtain q2 st2 where s2: "stepAirbornePhase q1 st1 alt baro ts = (q2, st2)" by fastforce
  obtain q3 st3 where s3: "stepAirbornePhase q2 st2 alt baro ts = (q3, st3)" by fastforce
  have "q1 = p \<or> q2 = q1 \<or> q3 = q2"
    using step_air [OF s1] step_air [OF s2] step_air [OF s3] air_step_short by blast
  then consider "q1 = p" | "q1 \<noteq> p" "q2 = q1" | "q1 \<noteq> p" "q2 \<noteq> q1" "q3 = q2" by blast
  then show ?thesis
  proof cases
    case 1
    with assms s1 step_idem [OF s1] show ?thesis
      unfolding loop_cap by (simp add: numeral_eq_Suc)
  next
    case 2
    with assms s1 s2 step_idem [OF s2] show ?thesis
      unfolding loop_cap by (simp add: numeral_eq_Suc)
  next
    case 3
    with assms s1 s2 s3 step_idem [OF s3] show ?thesis
      unfolding loop_cap by (simp add: numeral_eq_Suc)
  qed
qed

lemma loop_steps:
  "airborneLoop n p st alt baro ts = (q, st') \<Longrightarrow> (air_step alt baro)\<^sup>*\<^sup>* p q"
proof (induction n arbitrary: p st)
  case 0
  then show ?case by simp
next
  case (Suc n)
  obtain nxt st1 where s: "stepAirbornePhase p st alt baro ts = (nxt, st1)" by fastforce
  show ?case
  proof (cases "nxt = p")
    case True
    with Suc.prems s show ?thesis by simp
  next
    case False
    with step_air [OF s] have "air_step alt baro p nxt" by simp
    moreover from False Suc.prems s have "(air_step alt baro)\<^sup>*\<^sup>* nxt q"
      by (auto intro: Suc.IH)
    ultimately show ?thesis by (rule converse_rtranclp_into_rtranclp)
  qed
qed

lemma loop_frame: "airborneLoop n p st alt baro ts = (q, st') \<Longrightarrow> frame_of st' = frame_of st"
  by (induction n arbitrary: p st) (auto split: prod.splits if_splits dest: step_frame)

lemma loop_air: "airborneLoop n p st alt baro ts = (q, st') \<Longrightarrow> p \<notin> ground_phases \<Longrightarrow> q \<notin> ground_phases"
proof -
  have "air_step alt baro a b \<Longrightarrow> b \<notin> ground_phases" for a b
    by (cases a) auto
  then show "airborneLoop n p st alt baro ts = (q, st') \<Longrightarrow> p \<notin> ground_phases \<Longrightarrow> q \<notin> ground_phases"
    by (metis loop_steps rtranclp.cases)
qed

subsection \<open>Transitions of a whole update\<close>

text \<open>
  \<open>phase_edge p q\<close>: the transitions the detector can report. The airborne edges to
  \<open>APPROACH\<close> from \<open>CLIMB\<close> and \<open>CRUISE\<close> are two steps of the loop in one sample.
\<close>

inductive phase_edge :: "FlightPhase \<Rightarrow> FlightPhase \<Rightarrow> bool" where
  touchdown: "p \<in> air_phases \<Longrightarrow> phase_edge p LANDING"
| liftoff: "p \<in> ground_phases \<Longrightarrow> phase_edge p TAKEOFF"
| park: "p \<in> {TAXI, LANDING, TAXI_IN} \<Longrightarrow> phase_edge p PARKED"
| taxi_in: "phase_edge LANDING TAXI_IN"
| taxi_out: "p \<in> {PARKED, TAXI_IN} \<Longrightarrow> phase_edge p TAXI"
| climb: "p \<in> {TAKEOFF, CRUISE} \<Longrightarrow> phase_edge p CLIMB"
| level_off: "phase_edge CLIMB CRUISE"
| descend: "p \<in> {CLIMB, CRUISE} \<Longrightarrow> phase_edge p DESCENT"
| approach: "p \<in> {CLIMB, CRUISE, DESCENT} \<Longrightarrow> phase_edge p APPROACH"

lemma air_steps_edge:
  assumes "(air_step alt baro)\<^sup>*\<^sup>* p q" and "p \<noteq> q"
  shows "phase_edge p q"
proof -
  from assms obtain r where pr: "air_step alt baro p r" and rq: "(air_step alt baro)\<^sup>*\<^sup>* r q"
    by (metis converse_rtranclpE)
  from rq consider "r = q" | "air_step alt baro r q"
    by (metis air_step_short converse_rtranclpE pr)
  then show ?thesis
  proof cases
    case 1
    with pr show ?thesis by (cases p) (auto intro: phase_edge.intros)
  next
    case 2
    with pr show ?thesis by (cases p; cases r) (auto intro: phase_edge.intros)
  qed
qed

definition coherent :: "AircraftPhaseState \<Rightarrow> bool" where
  "coherent s \<longleftrightarrow> (lastOnGround s \<longleftrightarrow> currentPhase s \<in> ground_phases)"

text \<open>
  The state invariant: the phase and the weight-on-wheels flag agree, the previous phase
  differs from the current one, and a timer only runs in a phase that reads it.
\<close>

definition phase_inv :: "AircraftPhaseState \<Rightarrow> bool" where
  "phase_inv s \<longleftrightarrow>
     coherent s
     \<and> previousPhase s \<noteq> Some (currentPhase s)
     \<and> (descentStartedAt s \<noteq> None \<longrightarrow> currentPhase s = CLIMB \<or> currentPhase s = CRUISE)
     \<and> (stableVrateStartedAt s \<noteq> None \<longrightarrow> currentPhase s = CLIMB \<or> currentPhase s \<in> ground_phases)"

lemma groundStep_phase:
  assumes "groundStep st gs ts = (q, st')"
  shows "q = currentPhase st \<or> q = PARKED \<or> (q = TAXI_IN \<and> currentPhase st = LANDING)
         \<or> (q = TAXI \<and> currentPhase st \<in> {PARKED, TAXI_IN})"
proof (cases "gs < TAXI_GS_KTS")
  case True
  with assms show ?thesis
    by (simp add: groundStep_def Let_def split: if_splits)
next
  case False
  with assms show ?thesis
    by (simp add: groundStep_def Let_def split: if_splits)
qed

lemma groundStep_frame:
  assumes "groundStep st gs ts = (q, st')"
  shows "frame_of st' = frame_of st \<and> descentStartedAt st' = None"
  using groundStep_snd [of st gs ts] assms by (simp add: frame_of_def)

lemma classify_phase:
  assumes "classify st og gs baro alt ts = (q, st')" and "coherent st"
  shows "(q \<in> ground_phases \<longleftrightarrow> og) \<and> (q \<noteq> currentPhase st \<longrightarrow> phase_edge (currentPhase st) q)"
proof (cases "og = lastOnGround st")
  case False
  with assms show ?thesis
    by (auto simp: classify_def coherent_def air_phases_compl intro: phase_edge.intros
             split: if_splits)
next
  case same: True
  show ?thesis
  proof (cases og)
    case True
    with same assms have g: "groundStep st gs ts = (q, st')" "currentPhase st \<in> ground_phases"
      by (auto simp: classify_def coherent_def)
    from groundStep_phase [OF g(1)] g(2) True show ?thesis
      by (cases "currentPhase st") (auto intro: phase_edge.intros)
  next
    case False
    with same assms have l: "airborneLoop 16 (currentPhase st) st alt baro ts = (q, st')"
      and a: "currentPhase st \<notin> ground_phases"
      by (auto simp: classify_def coherent_def)
    from loop_air [OF l a] False loop_steps [OF l] show ?thesis
      by (auto intro: air_steps_edge)
  qed
qed

lemma classify_frame:
  "classify st og gs baro alt ts = (q, st') \<Longrightarrow> frame_of st' = frame_of st"
  by (auto simp: classify_def frame_of_def split: if_splits dest!: loop_frame groundStep_frame)

lemma classify_timers:
  assumes "classify st og gs baro alt ts = (q, st')" and "coherent st" and "q = currentPhase st"
  shows "(descentStartedAt st' \<noteq> None \<longrightarrow> q = CLIMB \<or> q = CRUISE)
       \<and> (stableVrateStartedAt st' \<noteq> None \<longrightarrow> q = CLIMB \<or> q \<in> ground_phases)"
proof (cases "og")
  case True
  with assms classify_phase [OF assms(1,2)] have "q \<in> ground_phases" by simp
  moreover have "descentStartedAt st' = None"
    using assms(1) True
    by (auto simp: classify_def split: if_splits dest!: groundStep_frame)
  ultimately show ?thesis by simp
next
  case False
  with assms classify_phase [OF assms(1,2)] have "\<not> lastOnGround st"
    by (auto simp: coherent_def)
  with False assms have "airborneLoop (3 + 13) q st alt baro ts = (q, st')"
    by (simp add: classify_def)
  then have "stepAirbornePhase q st' alt baro ts = (q, st')"
    by (rule loop_fixpoint)
  from step_timers [OF this] show ?thesis by auto
qed

lemma updateState_fields:
  assumes u: "updateState now r st = (st', trs)"
    and c: "classify st (tr_on_ground r) (sanitizeGs r) (sanitizeBaroRate r) (sanitizeAltBaro r)
              (telemetryTimeMs now r) = (q, st1)"
  shows "currentPhase st' = q"
    and "lastOnGround st' = tr_on_ground r"
    and "lastRecord st' = Some r"
    and "previousPhase st' = (if q = currentPhase st then previousPhase st else Some (currentPhase st))"
    and "descentStartedAt st' = (if q = currentPhase st then descentStartedAt st1 else None)"
    and "stableVrateStartedAt st' =
           (if q = currentPhase st then stableVrateStartedAt st1
            else if tr_on_ground r \<and> sanitizeGs r < TAXI_GS_KTS then Some (telemetryTimeMs now r)
            else None)"
    and "trs = (if q = currentPhase st then []
                else [\<lparr> pt_aircraft_icao = normaliseIcao (tr_icao r),
                        pt_from_phase = currentPhase st, pt_to_phase = q,
                        pt_timestamp = telemetryTimeMs now r, pt_telemetry = r \<rparr>])"
proof -
  have fr: "currentPhase st1 = currentPhase st" "previousPhase st1 = previousPhase st"
    using classify_frame [OF c] by (simp_all add: frame_of_def)
  have upd: "updateState now r st =
     (if q = currentPhase st then (st1\<lparr>lastOnGround := tr_on_ground r, lastRecord := Some r\<rparr>, [])
      else (st1\<lparr>previousPhase := Some (currentPhase st), currentPhase := q,
                phaseEnteredAt := telemetryTimeMs now r, descentStartedAt := None,
                stableVrateStartedAt :=
                  (if tr_on_ground r \<and> sanitizeGs r < TAXI_GS_KTS
                   then Some (telemetryTimeMs now r) else None),
                lastOnGround := tr_on_ground r, lastRecord := Some r\<rparr>,
            [\<lparr> pt_aircraft_icao = normaliseIcao (tr_icao r), pt_from_phase = currentPhase st,
               pt_to_phase = q, pt_timestamp = telemetryTimeMs now r, pt_telemetry = r \<rparr>]))"
    by (simp add: updateState_def c Let_def)
  show "currentPhase st' = q"
    and "lastOnGround st' = tr_on_ground r"
    and "lastRecord st' = Some r"
    and "previousPhase st' = (if q = currentPhase st then previousPhase st else Some (currentPhase st))"
    and "descentStartedAt st' = (if q = currentPhase st then descentStartedAt st1 else None)"
    and "stableVrateStartedAt st' =
           (if q = currentPhase st then stableVrateStartedAt st1
            else if tr_on_ground r \<and> sanitizeGs r < TAXI_GS_KTS then Some (telemetryTimeMs now r)
            else None)"
    and "trs = (if q = currentPhase st then []
                else [\<lparr> pt_aircraft_icao = normaliseIcao (tr_icao r),
                        pt_from_phase = currentPhase st, pt_to_phase = q,
                        pt_timestamp = telemetryTimeMs now r, pt_telemetry = r \<rparr>])"
    using u upd fr by (auto split: if_split_asm)
qed

lemma classify_total:
  obtains q st1 where
    "classify st (tr_on_ground r) (sanitizeGs r) (sanitizeBaroRate r) (sanitizeAltBaro r)
       (telemetryTimeMs now r) = (q, st1)"
  by fastforce

lemma updateState_edge:
  assumes "updateState now r st = (st', trs)" and "coherent st" and "t \<in> set trs"
  shows "phase_edge (pt_from_phase t) (pt_to_phase t) \<and> pt_from_phase t = currentPhase st
       \<and> pt_to_phase t = currentPhase st' \<and> pt_aircraft_icao t = normaliseIcao (tr_icao r)"
proof -
  obtain q st1 where c: "classify st (tr_on_ground r) (sanitizeGs r) (sanitizeBaroRate r)
      (sanitizeAltBaro r) (telemetryTimeMs now r) = (q, st1)" by (rule classify_total)
  with assms updateState_fields [OF assms(1) c] classify_phase [OF c assms(2)] show ?thesis
    by (auto split: if_splits)
qed

lemma updateState_trs:
  assumes "updateState now r st = (st', trs)"
  shows "length trs \<le> 1" and "trs = [] \<longleftrightarrow> currentPhase st' = currentPhase st"
proof -
  obtain q st1 where c: "classify st (tr_on_ground r) (sanitizeGs r) (sanitizeBaroRate r)
      (sanitizeAltBaro r) (telemetryTimeMs now r) = (q, st1)" by (rule classify_total)
  show "length trs \<le> 1" "trs = [] \<longleftrightarrow> currentPhase st' = currentPhase st"
    using updateState_fields(1,7) [OF assms c] by simp_all
qed

lemma updateState_inv:
  assumes u: "updateState now r st = (st', trs)" and inv: "phase_inv st"
  shows "phase_inv st'"
proof -
  obtain q st1 where c: "classify st (tr_on_ground r) (sanitizeGs r) (sanitizeBaroRate r)
      (sanitizeAltBaro r) (telemetryTimeMs now r) = (q, st1)" by (rule classify_total)
  from inv have coh: "coherent st" by (simp add: phase_inv_def)
  have ph: "q \<in> ground_phases \<longleftrightarrow> tr_on_ground r"
    using classify_phase [OF c coh] by simp
  show ?thesis
  proof (cases "q = currentPhase st")
    case True
    with classify_timers [OF c coh True] inv ph show ?thesis
      by (simp add: phase_inv_def coherent_def updateState_fields [OF u c])
  next
    case False
    with ph show ?thesis
      by (simp add: phase_inv_def coherent_def updateState_fields [OF u c])
  qed
qed

lemma createState_inv: "phase_inv (createStateFromFirstRecord now r)"
  by (auto simp: phase_inv_def coherent_def createStateFromFirstRecord_def inferInitialPhase_def)

lemma freshParked_inv: "phase_inv (freshParkedState now)"
  by (simp add: phase_inv_def coherent_def freshParkedState_def)


subsection \<open>The detector as a table keyed by aircraft\<close>

text \<open>A timed record: the value of \<open>Date.now()\<close> at the call, and the record.\<close>

type_synonym sample = "millis \<times> TelemetryRecord"

definition sampleKey :: "sample \<Rightarrow> string" where
  "sampleKey x = normaliseIcao (tr_icao (snd x))"

definition updateSample :: "sample \<Rightarrow> FlightPhaseDetector \<Rightarrow> FlightPhaseDetector" where
  "updateSample x d = update (fst x) (snd x) d"

fun sampleStep :: "sample \<Rightarrow> AircraftPhaseState option \<Rightarrow> AircraftPhaseState option" where
  "sampleStep x None = Some (createStateFromFirstRecord (fst x) (snd x))"
| "sampleStep x (Some st) = Some (fst (updateState (fst x) (snd x) st))"

lemma states_update:
  "states (update now r d) =
     (states d)(normaliseIcao (tr_icao r) := sampleStep (now, r) (states d (normaliseIcao (tr_icao r))))"
  by (auto simp: update_def updateWithTransitions_def Let_def split: option.splits prod.splits)

interpretation detector: keyed_component updateSample sampleKey states sampleStep
  by unfold_locales (simp add: updateSample_def sampleKey_def states_update)

inductive reachable :: "FlightPhaseDetector \<Rightarrow> bool" where
  start: "reachable newDetector"
| observe: "reachable d \<Longrightarrow> reachable (update now r d)"
| subscribe: "reachable d \<Longrightarrow> reachable (onTransition l d)"
| leave: "reachable d \<Longrightarrow> reachable (unsubscribe l d)"
| forget: "reachable d \<Longrightarrow> reachable (reset now icao d)"

lemma sampleStep_inv:
  "(\<And>t. s = Some t \<Longrightarrow> phase_inv t) \<Longrightarrow> sampleStep x s = Some s' \<Longrightarrow> phase_inv s'"
  by (cases s) (auto simp: createState_inv intro: updateState_inv prod.collapse [symmetric])

lemma reachable_states:
  "reachable d \<Longrightarrow> states d k = Some s \<Longrightarrow> phase_inv s \<and> normaliseIcao k = k"
proof (induction arbitrary: k s rule: reachable.induct)
  case (observe d now r)
  show ?case
  proof (cases "k = normaliseIcao (tr_icao r)")
    case True
    with observe show ?thesis
      by (auto simp: states_update intro: sampleStep_inv)
  next
    case False
    with observe show ?thesis by (simp add: states_update)
  qed
qed (auto simp: newDetector_def onTransition_def unsubscribe_def reset_def freshParked_inv
          split: if_splits)

subsection \<open>Dwell history\<close>

definition slowOnGround :: "sample \<Rightarrow> bool" where
  "slowOnGround x \<longleftrightarrow> tr_on_ground (snd x) \<and> sanitizeGs (snd x) < TAXI_GS_KTS"

definition sampleTime :: "sample \<Rightarrow> millis" where
  "sampleTime x = telemetryTimeMs (fst x) (snd x)"

text \<open>
  \<open>dwell xs t0\<close>: the history ends in an unbroken run of slow on-ground samples, the first
  of which was taken at \<open>t0\<close>.
\<close>

definition dwell :: "sample list \<Rightarrow> millis \<Rightarrow> bool" where
  "dwell xs t0 \<longleftrightarrow>
     (\<exists>us y vs. xs = us @ y # vs \<and> (\<forall>x \<in> set (y # vs). slowOnGround x) \<and> sampleTime y = t0)"

lemma dwell_snoc:
  assumes "dwell xs t0" and "slowOnGround x"
  shows "dwell (xs @ [x]) t0"
proof -
  from assms(1) obtain us y vs where "xs = us @ y # vs" "\<forall>x \<in> set (y # vs). slowOnGround x"
    "sampleTime y = t0" unfolding dwell_def by blast
  with assms(2) have "xs @ [x] = us @ y # (vs @ [x]) \<and> (\<forall>x \<in> set (y # vs @ [x]). slowOnGround x)
    \<and> sampleTime y = t0" by auto
  then show ?thesis unfolding dwell_def by blast
qed

lemma dwell_start: "slowOnGround x \<Longrightarrow> dwell (xs @ [x]) (sampleTime x)"
  unfolding dwell_def by (rule exI [of _ xs], rule exI [of _ x], rule exI [of _ "[]"]) simp

definition dwell_inv :: "sample list \<Rightarrow> AircraftPhaseState \<Rightarrow> bool" where
  "dwell_inv xs s \<longleftrightarrow>
     (\<forall>t0. lastOnGround s \<longrightarrow> stableVrateStartedAt s = Some t0 \<longrightarrow> dwell xs t0)"

lemma classify_ground_timer:
  assumes "classify st True gs baro alt ts = (q, st1)"
  shows "stableVrateStartedAt st1 =
    (if lastOnGround st then tick (gs < TAXI_GS_KTS) ts (stableVrateStartedAt st)
     else if gs < TAXI_GS_KTS then Some ts else None)"
proof (cases "lastOnGround st")
  case True
  with assms groundStep_snd [of st gs ts] show ?thesis by (simp add: classify_def)
next
  case False
  with assms show ?thesis by (auto simp: classify_def)
qed

lemma updateState_dwell:
  assumes inv: "dwell_inv xs st"
  shows "dwell_inv (xs @ [x]) (fst (updateState (fst x) (snd x) st))"
proof -
  let ?r = "snd x" and ?now = "fst x"
  obtain q st1 where c: "classify st (tr_on_ground ?r) (sanitizeGs ?r) (sanitizeBaroRate ?r)
      (sanitizeAltBaro ?r) (telemetryTimeMs ?now ?r) = (q, st1)" by (rule classify_total)
  obtain st' trs where u: "updateState ?now ?r st = (st', trs)" by fastforce
  note f = updateState_fields [OF u c]
  show ?thesis
  proof (cases "slowOnGround x")
    case True
    then have slow: "tr_on_ground ?r" "sanitizeGs ?r < TAXI_GS_KTS"
      by (simp_all add: slowOnGround_def)
    have tm: "stableVrateStartedAt st1 =
        (if lastOnGround st then tick True (sampleTime x) (stableVrateStartedAt st)
         else Some (sampleTime x))"
      using classify_ground_timer c slow by (simp add: sampleTime_def)
    with f(6) slow inv True show ?thesis
      by (auto simp: u dwell_inv_def tick_def sampleTime_def [symmetric]
               intro: dwell_start dwell_snoc split: if_splits option.splits)
  next
    case False
    then consider "\<not> tr_on_ground ?r" | "tr_on_ground ?r" "\<not> sanitizeGs ?r < TAXI_GS_KTS"
      by (auto simp: slowOnGround_def)
    then show ?thesis
    proof cases
      case 1
      with f(2) show ?thesis by (simp add: u dwell_inv_def)
    next
      case 2
      with f(6) classify_ground_timer [of st "sanitizeGs ?r"] c show ?thesis
        by (simp add: u dwell_inv_def)
    qed
  qed
qed

lemma run_dwell:
  "fold sampleStep xs None = Some s \<Longrightarrow> dwell_inv xs s"
proof (induction xs arbitrary: s rule: rev_induct)
  case Nil
  then show ?case by simp
next
  case (snoc x xs)
  show ?case
  proof (cases "fold sampleStep xs None")
    case None
    with snoc.prems show ?thesis
      by (auto simp: dwell_inv_def createStateFromFirstRecord_def)
  next
    case (Some st)
    with snoc.IH [of st] snoc.prems show ?thesis
      by (auto intro: updateState_dwell)
  qed
qed

lemma parked_needs_timer:
  assumes "classify st og gs baro alt ts = (PARKED, st1)" and "currentPhase st \<noteq> PARKED"
    and "coherent st"
  shows "og \<and> lastOnGround st \<and> gs < TAXI_GS_KTS
       \<and> heldFor (tick True ts (stableVrateStartedAt st)) ts PARKED_SLOW_MS"
proof -
  have og: "og" using classify_phase [OF assms(1,3)] by simp
  with assms(1,2) have l: "lastOnGround st" and g: "groundStep st gs ts = (PARKED, st1)"
    by (auto simp: classify_def split: if_splits)
  have "gs < TAXI_GS_KTS"
    using g assms(2) by (rule_tac ccontr) (auto simp: groundStep_def Let_def split: if_splits)
  moreover from this have "heldFor (stableVrateStartedAt st1) ts PARKED_SLOW_MS"
    using g assms(2) by (auto simp: groundStep_def Let_def split: if_splits)
  ultimately show ?thesis
    using og l groundStep_snd [of st gs ts] g by simp
qed

subsection \<open>Reaching cruise\<close>

definition levelFlight :: "sample \<Rightarrow> bool" where
  "levelFlight x \<longleftrightarrow> \<not> tr_on_ground (snd x)
     \<and> VSI_LEVEL_LOW \<le> sanitizeBaroRate (snd x) \<and> sanitizeBaroRate (snd x) \<le> VSI_LEVEL_HIGH"

text \<open>Level since \<open>t0\<close>: already in cruise, or climbing with the level timer running.\<close>

definition levelSince :: "millis \<Rightarrow> AircraftPhaseState \<Rightarrow> bool" where
  "levelSince t0 s \<longleftrightarrow> \<not> lastOnGround s
     \<and> (currentPhase s = CRUISE
        \<or> currentPhase s = CLIMB \<and> (\<exists>t. stableVrateStartedAt s = Some t \<and> t \<le> t0))"

lemma level_climb_step:
  assumes "VSI_LEVEL_LOW \<le> baro" and "baro \<le> VSI_LEVEL_HIGH"
  shows "stepAirbornePhase CLIMB st alt baro ts =
    (let tm = tick True ts (stableVrateStartedAt st) in
     (if heldFor tm ts STABLE_VRATE_MS then CRUISE else CLIMB,
      st\<lparr>descentStartedAt := None, stableVrateStartedAt := tm\<rparr>))"
  using assms
  by (simp add: stepAirbornePhase_def noteDescent_eq noteLevel_eq phase_consts Let_def)

lemma level_cruise_step:
  assumes "VSI_LEVEL_LOW \<le> baro" and "baro \<le> VSI_LEVEL_HIGH"
  shows "stepAirbornePhase CRUISE st alt baro ts =
    (CRUISE, st\<lparr>descentStartedAt := None, stableVrateStartedAt := None\<rparr>)"
  using assms
  by (simp add: stepAirbornePhase_def noteDescent_eq noteLevel_eq phase_consts Let_def)

lemma airborneLoop_16:
  "airborneLoop 16 p st alt baro ts =
     (case stepAirbornePhase p st alt baro ts of (q, st') \<Rightarrow>
        if q = p then (p, st') else airborneLoop 15 q st' alt baro ts)"
  "airborneLoop 15 p st alt baro ts =
     (case stepAirbornePhase p st alt baro ts of (q, st') \<Rightarrow>
        if q = p then (p, st') else airborneLoop 14 q st' alt baro ts)"
  using airborneLoop.simps(2) [of 15 p st alt baro ts] airborneLoop.simps(2) [of 14 p st alt baro ts]
  by simp_all

lemma level_loop:
  assumes "VSI_LEVEL_LOW \<le> baro" and "baro \<le> VSI_LEVEL_HIGH"
  shows "fst (airborneLoop 16 CRUISE st alt baro ts) = CRUISE"
    and "airborneLoop 16 CLIMB st alt baro ts =
      (let tm = tick True ts (stableVrateStartedAt st) in
       if heldFor tm ts STABLE_VRATE_MS
       then (CRUISE, st\<lparr>descentStartedAt := None, stableVrateStartedAt := None\<rparr>)
       else (CLIMB, st\<lparr>descentStartedAt := None, stableVrateStartedAt := tm\<rparr>))"
proof -
  show "fst (airborneLoop 16 CRUISE st alt baro ts) = CRUISE"
    by (simp add: airborneLoop_16 level_cruise_step [OF assms])
  show "airborneLoop 16 CLIMB st alt baro ts =
      (let tm = tick True ts (stableVrateStartedAt st) in
       if heldFor tm ts STABLE_VRATE_MS
       then (CRUISE, st\<lparr>descentStartedAt := None, stableVrateStartedAt := None\<rparr>)
       else (CLIMB, st\<lparr>descentStartedAt := None, stableVrateStartedAt := tm\<rparr>))"
    by (simp add: airborneLoop_16 level_cruise_step [OF assms] level_climb_step [OF assms] Let_def)
qed

lemma level_update:
  assumes lv: "levelFlight x" and air: "\<not> lastOnGround st"
    and ph: "currentPhase st = CLIMB \<or> currentPhase st = CRUISE"
  shows "let st' = fst (updateState (fst x) (snd x) st);
             tm = tick True (sampleTime x) (stableVrateStartedAt st) in
         \<not> lastOnGround st'
         \<and> (if currentPhase st = CRUISE \<or> heldFor tm (sampleTime x) STABLE_VRATE_MS
            then currentPhase st' = CRUISE
            else currentPhase st' = CLIMB \<and> stableVrateStartedAt st' = tm)"
proof -
  let ?r = "snd x" and ?now = "fst x"
  obtain q st1 where c: "classify st (tr_on_ground ?r) (sanitizeGs ?r) (sanitizeBaroRate ?r)
      (sanitizeAltBaro ?r) (telemetryTimeMs ?now ?r) = (q, st1)" by (rule classify_total)
  obtain st' trs where u: "updateState ?now ?r st = (st', trs)" by fastforce
  note f = updateState_fields [OF u c]
  from lv have b: "VSI_LEVEL_LOW \<le> sanitizeBaroRate ?r" "sanitizeBaroRate ?r \<le> VSI_LEVEL_HIGH"
    and og: "\<not> tr_on_ground ?r" by (simp_all add: levelFlight_def)
  from c og air have l: "airborneLoop 16 (currentPhase st) st (sanitizeAltBaro ?r)
      (sanitizeBaroRate ?r) (sampleTime x) = (q, st1)"
    by (simp add: classify_def sampleTime_def)
  from ph show ?thesis
  proof
    assume "currentPhase st = CLIMB"
    with l level_loop(2) [OF b] f og show ?thesis
      by (auto simp: u Let_def split: if_splits)
  next
    assume "currentPhase st = CRUISE"
    with l level_loop(1) [OF b, of st "sanitizeAltBaro ?r" "sampleTime x"] f og show ?thesis
      by (simp add: u Let_def)
  qed
qed

lemma level_run:
  assumes "\<forall>x \<in> set xs. levelFlight x" and "levelSince t0 st"
  shows "\<exists>st'. fold sampleStep xs (Some st) = Some st' \<and> levelSince t0 st'"
  using assms
proof (induction xs arbitrary: st)
  case Nil
  then show ?case by simp
next
  case (Cons x xs)
  have "levelSince t0 (fst (updateState (fst x) (snd x) st))"
    using level_update [of x st] Cons.prems
    by (auto simp: levelSince_def Let_def tick_def split: if_splits)
  with Cons show ?case by simp
qed

lemma cruise_from_climb:
  assumes ph: "currentPhase st = CLIMB" and air: "\<not> lastOnGround st"
    and tm: "\<forall>t. stableVrateStartedAt st = Some t \<longrightarrow> t \<le> sampleTime a"
    and lv: "\<forall>x \<in> set (a # mid @ [b]). levelFlight x"
    and t: "sampleTime b - sampleTime a \<ge> STABLE_VRATE_MS"
  shows "\<exists>st'. fold sampleStep (a # mid @ [b]) (Some st) = Some st' \<and> currentPhase st' = CRUISE"
proof -
  have "levelSince (sampleTime a) (fst (updateState (fst a) (snd a) st))"
    using level_update [of a st] assms
    by (auto simp: levelSince_def Let_def tick_def split: if_splits option.splits)
  from level_run [OF _ this, of mid] lv obtain s where
    s: "fold sampleStep (a # mid) (Some st) = Some s" "levelSince (sampleTime a) s" by auto
  have "currentPhase (fst (updateState (fst b) (snd b) s)) = CRUISE"
    using level_update [of b s] s(2) lv t
    by (auto simp: levelSince_def Let_def tick_def heldFor_def split: if_splits)
  with s(1) show ?thesis by simp
qed

subsection \<open>No climb out of a descent\<close>

lemma descent_step:
  assumes "\<not> tr_on_ground (snd x)" and "\<not> lastOnGround st"
    and "currentPhase st \<in> {DESCENT, APPROACH}"
  shows "let st' = fst (updateState (fst x) (snd x) st)
         in \<not> lastOnGround st' \<and> currentPhase st' \<in> {DESCENT, APPROACH}
            \<and> (currentPhase st = APPROACH \<longrightarrow> currentPhase st' = APPROACH)"
proof -
  let ?r = "snd x" and ?now = "fst x"
  obtain q st1 where c: "classify st (tr_on_ground ?r) (sanitizeGs ?r) (sanitizeBaroRate ?r)
      (sanitizeAltBaro ?r) (telemetryTimeMs ?now ?r) = (q, st1)" by (rule classify_total)
  obtain st' trs where u: "updateState ?now ?r st = (st', trs)" by fastforce
  note f = updateState_fields [OF u c]
  from c assms have l: "airborneLoop 16 (currentPhase st) st (sanitizeAltBaro ?r)
      (sanitizeBaroRate ?r) (telemetryTimeMs ?now ?r) = (q, st1)"
    by (simp add: classify_def)
  have absorb: "(air_step alt baro)\<^sup>*\<^sup>* p p' \<Longrightarrow> p \<in> {DESCENT, APPROACH} \<Longrightarrow>
      p' \<in> {DESCENT, APPROACH} \<and> (p = APPROACH \<longrightarrow> p' = APPROACH)" for alt baro p p'
    by (induction rule: converse_rtranclp_induct) auto
  from absorb [OF loop_steps [OF l] assms(3)] f assms(1) show ?thesis
    by (simp add: u Let_def)
qed

lemma descent_run:
  assumes "\<forall>x \<in> set xs. \<not> tr_on_ground (snd x)" and "\<not> lastOnGround st"
    and "currentPhase st \<in> {DESCENT, APPROACH}"
  shows "\<exists>st'. fold sampleStep xs (Some st) = Some st' \<and> currentPhase st' \<in> {DESCENT, APPROACH}
               \<and> (currentPhase st = APPROACH \<longrightarrow> currentPhase st' = APPROACH)"
  using assms
proof (induction xs arbitrary: st)
  case Nil
  then show ?case by simp
next
  case (Cons x xs)
  then show ?case
    using descent_step [of x st] Cons.IH [of "fst (updateState (fst x) (snd x) st)"]
    by (fastforce simp: Let_def)
qed

subsection \<open>Properties\<close>

lemmas detector_run = detector.run_project
lemmas detector_eval =
  updateWithTransitions_def updateState_def createStateFromFirstRecord_def inferInitialPhase_def
  classify_def groundStep_def telemetryTimeMs_def sanitizeGs_def sanitizeBaroRate_def
  sanitizeAltBaro_def airborneLoop_16 stepAirbornePhase_def noteLevel_def noteDescent_def
  heldFor_def phase_consts newDetector_def emptyRecord_def Let_def

text \<open>
  C2: in every reachable detector the stored phase agrees with the weight-on-wheels flag, the
  previous phase differs from the current one, the descent timer runs only in \<open>CLIMB\<close> and
  \<open>CRUISE\<close>, and the shared level/slow timer runs only in \<open>CLIMB\<close> and on the ground.
\<close>

theorem phase_state_invariant:
  assumes "reachable d" and "states d k = Some s"
  shows "(lastOnGround s \<longleftrightarrow> currentPhase s \<in> ground_phases)
       \<and> previousPhase s \<noteq> Some (currentPhase s)
       \<and> (descentStartedAt s \<noteq> None \<longrightarrow> currentPhase s = CLIMB \<or> currentPhase s = CRUISE)
       \<and> (stableVrateStartedAt s \<noteq> None \<longrightarrow> currentPhase s = CLIMB \<or> currentPhase s \<in> ground_phases)
       \<and> normaliseIcao k = k"
  using reachable_states [OF assms] by (simp add: phase_inv_def coherent_def)

theorem phase_state_invariant_witness:
  "lastOnGround (freshParkedState 7)
     \<longleftrightarrow> currentPhase (freshParkedState 7) \<in> ground_phases"
proof -
  let ?d = "reset 7 ''4ca7b1'' newDetector"
  have "reachable ?d" by (rule reachable.forget [OF reachable.start])
  moreover have "states ?d (normaliseIcao ''4ca7b1'') = Some (freshParkedState 7)"
    by (simp add: reset_def)
  ultimately show ?thesis using phase_state_invariant by blast
qed

text \<open>
  One update reports at most one transition; the phase it returns is the phase the
  detector then stores; a reported transition is an edge of \<open>phase_edge\<close> from the old phase
  of that aircraft to the new one; nothing is reported when the phase is unchanged; and every
  listener is called once per transition, in subscription order.
\<close>

lemma update_reports_edges:
  assumes "reachable d" and "updateWithTransitions now r d = (d', ph, trs, calls)"
  shows "length trs \<le> 1
       \<and> getPhase d' (tr_icao r) = ph
       \<and> (\<forall>t \<in> set trs. phase_edge (pt_from_phase t) (pt_to_phase t)
              \<and> pt_from_phase t = getPhase d (tr_icao r) \<and> pt_to_phase t = ph
              \<and> pt_aircraft_icao t = normaliseIcao (tr_icao r))
       \<and> (getState d (tr_icao r) \<noteq> None \<longrightarrow> (trs = [] \<longleftrightarrow> ph = getPhase d (tr_icao r)))
       \<and> calls = concat (map (\<lambda>t. map (\<lambda>l. (l, t)) (listeners d)) trs)"
proof (cases "states d (normaliseIcao (tr_icao r))")
  case None
  with assms(2) show ?thesis
    by (auto simp: updateWithTransitions_def getPhase_def getState_def Let_def)
next
  case (Some st)
  obtain st' trs' where u: "updateState now r st = (st', trs')" by fastforce
  from reachable_states [OF assms(1) Some] have coh: "coherent st"
    by (simp add: phase_inv_def)
  have edges: "\<forall>t \<in> set trs'. phase_edge (pt_from_phase t) (pt_to_phase t)
      \<and> pt_from_phase t = currentPhase st \<and> pt_to_phase t = currentPhase st'
      \<and> pt_aircraft_icao t = normaliseIcao (tr_icao r)"
    using updateState_edge [OF u coh] by blast
  from assms(2) Some u have "trs = trs'" "ph = currentPhase st'"
    "states d' = (states d)(normaliseIcao (tr_icao r) \<mapsto> st')"
    "calls = concat (map (\<lambda>t. map (\<lambda>l. (l, t)) (listeners d)) trs)"
    by (auto simp: updateWithTransitions_def Let_def)
  with Some edges updateState_trs [OF u] show ?thesis
    by (auto simp: getPhase_def getState_def)
qed

lemma update_reports_edges_witness:
  "case updateWithTransitions 5 (emptyRecord\<lparr>tr_on_ground := False\<rparr>) (reset 4 '''' newDetector) of
     (d', ph, trs, calls) \<Rightarrow>
       map pt_to_phase trs = [TAKEOFF] \<and> getPhase d' '''' = TAKEOFF
       \<and> list_all (\<lambda>t. phase_edge (pt_from_phase t) (pt_to_phase t)) trs"
proof -
  let ?r = "emptyRecord\<lparr>tr_on_ground := False\<rparr>" and ?d = "reset 4 '''' newDetector"
  have re: "reachable ?d" by (rule reachable.forget [OF reachable.start])
  obtain d' ph trs calls where u: "updateWithTransitions 5 ?r ?d = (d', ph, trs, calls)"
    by (metis prod_cases4)
  have "ph = TAKEOFF" and "map pt_to_phase trs = [TAKEOFF]"
    using u by (auto simp: detector_eval reset_def freshParkedState_def)
  moreover from update_reports_edges [OF re u]
  have "getPhase d' '''' = ph" "list_all (\<lambda>t. phase_edge (pt_from_phase t) (pt_to_phase t)) trs"
    unfolding list_all_iff by (simp add: emptyRecord_def, blast)
  ultimately show ?thesis by (simp only: u prod.case simp_thms)
qed

text \<open>
  The cap of 16 iterations never truncates the airborne loop: any bound of at least three
  gives the same result, and that result is a fixed point of the step.
\<close>

lemma airborne_loop_converges:
  "airborneLoop (3 + n) p st alt baro ts = airborneLoop 16 p st alt baro ts
   \<and> (case airborneLoop 16 p st alt baro ts of
        (q, st') \<Rightarrow> stepAirbornePhase q st' alt baro ts = (q, st'))"
proof -
  have n: "airborneLoop 16 p st alt baro ts = airborneLoop (3 + 13) p st alt baro ts" by simp
  show ?thesis
    unfolding n using loop_cap [of n p st alt baro ts] loop_cap [of 13 p st alt baro ts]
    by (auto split: prod.split intro: loop_fixpoint [of 13])
qed

text \<open>
  Aircraft do not interfere. After any interleaved stream, the phase of an aircraft is
  the phase after its own samples alone.
\<close>

lemma phase_is_per_aircraft:
  "getState (fold updateSample xs newDetector) icao =
   getState (fold updateSample (filter (\<lambda>x. sampleKey x = normaliseIcao icao) xs) newDetector) icao"
  by (simp add: getState_def detector_run)


definition demoSample :: "millis \<Rightarrow> bool \<Rightarrow> real \<Rightarrow> real \<Rightarrow> real \<Rightarrow> sample" where
  "demoSample t ground gs alt baro =
     (t, emptyRecord\<lparr>tr_ts := Some t, tr_on_ground := ground, tr_gs := Some gs,
                     tr_alt_baro := Some alt, tr_baro_rate := Some baro\<rparr>)"

lemma demoSample_simps [simp]:
  "sampleTime (demoSample t g gs alt baro) = t"
  "sampleKey (demoSample t g gs alt baro) = normaliseIcao ''''"
  "slowOnGround (demoSample t g gs alt baro) \<longleftrightarrow> g \<and> max 0 gs < 5"
  "levelFlight (demoSample t g gs alt baro) \<longleftrightarrow> \<not> g \<and> -300 \<le> baro \<and> baro \<le> 300"
  "tr_on_ground (snd (demoSample t g gs alt baro)) = g"
  by (simp_all add: demoSample_def sampleTime_def sampleKey_def slowOnGround_def levelFlight_def
        telemetryTimeMs_def sanitizeGs_def sanitizeBaroRate_def phase_consts emptyRecord_def)


text \<open>
  A climb that levels off reaches cruise. If an aircraft is in \<open>CLIMB\<close> (its level timer
  not already in the future) and all its samples in a stream are airborne with a vertical rate
  within the level band, the first and last being at least \<open>STABLE_VRATE_MS\<close> apart, then it is
  in \<open>CRUISE\<close> at the end, whatever the other aircraft in the stream do.
\<close>

lemma level_climb_reaches_cruise:
  assumes "states d k = Some st" and "currentPhase st = CLIMB" and "\<not> lastOnGround st"
    and "\<forall>t. stableVrateStartedAt st = Some t \<longrightarrow> t \<le> sampleTime a"
    and "filter (\<lambda>x. sampleKey x = k) xs = a # mid @ [b]"
    and "\<forall>x \<in> set (a # mid @ [b]). levelFlight x"
    and "sampleTime b - sampleTime a \<ge> STABLE_VRATE_MS"
  shows "\<exists>st'. states (fold updateSample xs d) k = Some st' \<and> currentPhase st' = CRUISE"
  using cruise_from_climb [of st a mid b] assms by (simp add: detector_run)

lemma level_climb_reaches_cruise_witness:
  "\<exists>st'. states (fold updateSample
       [demoSample 1000 False 300 20000 100, demoSample 31000 False 300 20000 0,
        demoSample 61000 False 300 20000 (-50)]
       (newDetector\<lparr>states := [normaliseIcao '''' \<mapsto>
          (freshParkedState 0)\<lparr>currentPhase := CLIMB, lastOnGround := False\<rparr>]\<rparr>)) (normaliseIcao '''')
     = Some st' \<and> currentPhase st' = CRUISE"
  by (rule level_climb_reaches_cruise
        [where st = "(freshParkedState 0)\<lparr>currentPhase := CLIMB, lastOnGround := False\<rparr>"
           and a = "demoSample 1000 False 300 20000 100"
           and mid = "[demoSample 31000 False 300 20000 0]"
           and b = "demoSample 61000 False 300 20000 (-50)"])
     (simp_all add: newDetector_def freshParkedState_def phase_consts)

text \<open>
  A go-around is not seen. Once an aircraft is in \<open>DESCENT\<close> or \<open>APPROACH\<close>, airborne
  samples alone never bring it back to \<open>CLIMB\<close> or \<open>CRUISE\<close>, whatever its vertical rate and
  altitude; from \<open>APPROACH\<close> it does not leave \<open>APPROACH\<close> until it touches the ground.
\<close>

lemma descent_is_one_way:
  assumes "states d k = Some st" and "currentPhase st \<in> {DESCENT, APPROACH}"
    and "\<not> lastOnGround st"
    and "\<forall>x \<in> set xs. sampleKey x = k \<longrightarrow> \<not> tr_on_ground (snd x)"
  shows "\<exists>st'. states (fold updateSample xs d) k = Some st'
           \<and> currentPhase st' \<in> {DESCENT, APPROACH}
           \<and> (currentPhase st = APPROACH \<longrightarrow> currentPhase st' = APPROACH)"
  using descent_run [of "filter (\<lambda>x. sampleKey x = k) xs" st] assms
  by (simp add: detector_run)

lemma descent_is_one_way_witness:
  "\<exists>st'. states (fold updateSample
       [demoSample 1000 False 160 900 (-700), demoSample 2000 False 160 1500 2500]
       (newDetector\<lparr>states := [normaliseIcao '''' \<mapsto>
          (freshParkedState 0)\<lparr>currentPhase := APPROACH, lastOnGround := False\<rparr>]\<rparr>)) (normaliseIcao '''')
     = Some st' \<and> currentPhase st' = APPROACH"
proof -
  let ?st = "(freshParkedState 0)\<lparr>currentPhase := APPROACH, lastOnGround := False\<rparr>"
  from descent_is_one_way [where d = "newDetector\<lparr>states := [normaliseIcao '''' \<mapsto> ?st]\<rparr>"
      and k = "normaliseIcao ''''" and st = ?st
      and xs = "[demoSample 1000 False 160 900 (-700), demoSample 2000 False 160 1500 2500]"]
  show ?thesis by (auto simp: demoSample_def)
qed

end
