(* ===== verification/Write_Rate.thy ===== *)
theory Write_Rate
  imports Types
begin

text \<open>
  Emergency classification (\<open>packages/flight-phase/src/emergency.ts\<close>) and the write-rate
  controller (\<open>packages/flight-phase/src/write-rate.ts\<close>), with the decision the ingestion
  phase engine takes on every telemetry message (\<open>onTelemetryMessage\<close> in
  \<open>services/ingestion/src/phase-engine.ts\<close>).

  The four JavaScript collections of the controller are two maps and two sets. Headings are
  reals, \<open>js_mod\<close> is JavaScript's remainder on non-negative numbers. The description of an
  emergency is kept structured (\<open>EmergencyDescription\<close>) instead of rendered as text.
\<close>

subsection \<open>Emergencies\<close>

definition is_digit :: "char \<Rightarrow> bool" where
  "is_digit c \<longleftrightarrow> 48 \<le> (of_char c :: nat) \<and> (of_char c :: nat) \<le> 57"

definition normaliseSquawk :: "string option \<Rightarrow> string" where
  "normaliseSquawk raw =
     (case raw of None \<Rightarrow> ''''
      | Some r \<Rightarrow>
          (let s = js_trim r in
           if length s = 0 then ''''
           else (let digits = filter is_digit s in
                 if length digits \<ge> 4 then drop (length digits - 4) digits
                 else padStart 4 (CHR ''0'') digits)))"

definition isEmergencyCondition :: "TelemetryRecord \<Rightarrow> bool" where
  "isEmergencyCondition r =
     (let code = normaliseSquawk (tr_squawk r) in
      if code = ''7700'' \<or> code = ''7600'' \<or> code = ''7500'' then True
      else (case tr_emergency r of None \<Rightarrow> False | Some em \<Rightarrow> em \<noteq> Em_none))"

definition EMERGENCY_SQUAWK_MAP :: "string \<rightharpoonup> string" where
  "EMERGENCY_SQUAWK_MAP =
     [''7700'' \<mapsto> ''General Emergency'', ''7600'' \<mapsto> ''Radio Failure'',
      ''7500'' \<mapsto> ''Hijack/Unlawful Interference'']"

fun EMERGENCY_FIELD_LABELS :: "EmergencyString \<Rightarrow> string option" where
  "EMERGENCY_FIELD_LABELS Em_none = None"
| "EMERGENCY_FIELD_LABELS Em_general = Some ''General emergency''"
| "EMERGENCY_FIELD_LABELS Em_lifeguard = Some ''Lifeguard / medical''"
| "EMERGENCY_FIELD_LABELS Em_minfuel = Some ''Minimum fuel''"
| "EMERGENCY_FIELD_LABELS Em_nordo = Some ''Loss of communication''"
| "EMERGENCY_FIELD_LABELS Em_unlawful = Some ''Unlawful interference''"
| "EMERGENCY_FIELD_LABELS Em_downed = Some ''Aircraft downed''"

datatype EmergencyDescription =
  SquawkAndField string string string | SquawkOnly string string | FieldOnly string

definition getEmergencyDescription :: "TelemetryRecord \<Rightarrow> EmergencyDescription option" where
  "getEmergencyDescription r =
     (let code = normaliseSquawk (tr_squawk r);
          squawkLabel = EMERGENCY_SQUAWK_MAP code;
          fieldLabel = (case tr_emergency r of None \<Rightarrow> None
                        | Some em \<Rightarrow> if em = Em_none then None else EMERGENCY_FIELD_LABELS em)
      in case squawkLabel of
           Some l \<Rightarrow> (case fieldLabel of Some f \<Rightarrow> Some (SquawkAndField code l f)
                                       | None \<Rightarrow> Some (SquawkOnly code l))
         | None \<Rightarrow> (case fieldLabel of Some f \<Rightarrow> Some (FieldOnly f) | None \<Rightarrow> None))"

subsection \<open>The controller\<close>

record SignificantChangeThresholds =
  headingDeg :: real
  altitudeFt :: real
  verticalRateFpm :: real

definition DEFAULT_SIGNIFICANT_CHANGE :: SignificantChangeThresholds where
  "DEFAULT_SIGNIFICANT_CHANGE = \<lparr> headingDeg = 10, altitudeFt = 500, verticalRateFpm = 1000 \<rparr>"

record WrittenState =
  ws_phase :: FlightPhase
  ws_squawk :: string
  ws_onGround :: bool
  ws_headingDeg :: jsnum
  ws_altitudeFt :: jsnum
  ws_verticalRateBand :: int

record WriteRateController =
  lastWriteMs :: "string \<rightharpoonup> millis"
  emergencyOverrides :: "string set"
  proximityOverrides :: "string set"
  writtenState :: "string \<rightharpoonup> WrittenState"
  rates :: "FlightPhase \<Rightarrow> millis option"
  thresholds :: SignificantChangeThresholds

text \<open>The constructor: overrides replace the default rate of a phase; \<open>None\<close> inside an
  override is a value that is not finite.\<close>

definition newController ::
  "(FlightPhase \<Rightarrow> millis option option) \<Rightarrow> SignificantChangeThresholds \<Rightarrow> WriteRateController" where
  "newController overrides th =
     \<lparr> lastWriteMs = Map.empty, emergencyOverrides = {}, proximityOverrides = {},
       writtenState = Map.empty,
       rates = (\<lambda>p. case overrides p of Some x \<Rightarrow> x | None \<Rightarrow> Some (DEFAULT_WRITE_RATES p)),
       thresholds = th \<rparr>"

definition headingOf :: "TelemetryRecord \<Rightarrow> jsnum" where
  "headingOf r =
     (case tr_true_heading r of Some h \<Rightarrow> Some h
      | None \<Rightarrow> (case tr_mag_heading r of Some h \<Rightarrow> Some h | None \<Rightarrow> tr_track r))"

definition verticalRateBand :: "TelemetryRecord \<Rightarrow> real \<Rightarrow> int" where
  "verticalRateBand r thresholdFpm =
     (let rate = (case tr_baro_rate r of Some b \<Rightarrow> (if b \<noteq> 0 then Some b else tr_geom_rate r)
                  | None \<Rightarrow> tr_geom_rate r)
      in case rate of None \<Rightarrow> 0
         | Some x \<Rightarrow> if x \<ge> thresholdFpm then 1 else if x \<le> - thresholdFpm then -1 else 0)"

definition js_mod :: "real \<Rightarrow> real \<Rightarrow> real" where
  "js_mod x m = x - m * of_int \<lfloor>x / m\<rfloor>"

definition angularDeltaDeg :: "real \<Rightarrow> real \<Rightarrow> real" where
  "angularDeltaDeg a b =
     (let diff = js_mod \<bar>a - b\<bar> 360 in if diff > 180 then 360 - diff else diff)"

definition snapshot :: "WriteRateController \<Rightarrow> FlightPhase \<Rightarrow> TelemetryRecord \<Rightarrow> WrittenState" where
  "snapshot c phase r =
     \<lparr> ws_phase = phase,
       ws_squawk = (case tr_squawk r of Some s \<Rightarrow> s | None \<Rightarrow> ''''),
       ws_onGround = tr_on_ground r,
       ws_headingDeg = headingOf r,
       ws_altitudeFt = tr_alt_baro r,
       ws_verticalRateBand = verticalRateBand r (verticalRateFpm (thresholds c)) \<rparr>"

text \<open>Both values finite, and at least the threshold apart.\<close>

definition movedBy :: "(real \<Rightarrow> real \<Rightarrow> real) \<Rightarrow> jsnum \<Rightarrow> jsnum \<Rightarrow> real \<Rightarrow> bool" where
  "movedBy gap x y threshold =
     (case x of None \<Rightarrow> False | Some a \<Rightarrow>
        (case y of None \<Rightarrow> False | Some b \<Rightarrow> gap a b \<ge> threshold))"

definition hasSignificantChange ::
  "WriteRateController \<Rightarrow> string \<Rightarrow> FlightPhase \<Rightarrow> TelemetryRecord \<Rightarrow> bool" where
  "hasSignificantChange c key phase r =
     (case writtenState c key of
        None \<Rightarrow> False
      | Some previous \<Rightarrow>
          (let current = snapshot c phase r in
           ws_phase current \<noteq> ws_phase previous
           \<or> ws_onGround current \<noteq> ws_onGround previous
           \<or> ws_squawk current \<noteq> ws_squawk previous
           \<or> ws_verticalRateBand current \<noteq> ws_verticalRateBand previous
           \<or> movedBy angularDeltaDeg (ws_headingDeg current) (ws_headingDeg previous)
                (headingDeg (thresholds c))
           \<or> movedBy (\<lambda>x y. \<bar>x - y\<bar>) (ws_altitudeFt current) (ws_altitudeFt previous)
                (altitudeFt (thresholds c))))"

definition getIntervalMs ::
  "WriteRateController \<Rightarrow> string \<Rightarrow> FlightPhase \<Rightarrow> TelemetryRecord option \<Rightarrow> millis" where
  "getIntervalMs c icao phase r =
     (let key = normaliseIcao icao in
      if key \<in> emergencyOverrides c then MIN_WRITE_INTERVAL_MS
      else if (case r of Some rec \<Rightarrow> isEmergencyCondition rec | None \<Rightarrow> False)
           then MIN_WRITE_INTERVAL_MS
      else (let interval = (case rates c phase of Some b \<Rightarrow> b | None \<Rightarrow> MIN_WRITE_INTERVAL_MS)
            in if key \<in> proximityOverrides c then min interval MIN_WRITE_INTERVAL_MS
               else interval))"

definition shouldWrite ::
  "millis \<Rightarrow> WriteRateController \<Rightarrow> string \<Rightarrow> FlightPhase \<Rightarrow> TelemetryRecord \<Rightarrow> bool" where
  "shouldWrite now c icao phase r =
     (let key = normaliseIcao icao in
      case lastWriteMs c key of
        None \<Rightarrow> True
      | Some prev \<Rightarrow>
          if hasSignificantChange c key phase r then True
          else now - prev \<ge> getIntervalMs c key phase (Some r))"

datatype WriteTrigger = First | Event | Interval

definition getWriteTrigger ::
  "millis \<Rightarrow> WriteRateController \<Rightarrow> string \<Rightarrow> FlightPhase \<Rightarrow> TelemetryRecord \<Rightarrow> WriteTrigger option" where
  "getWriteTrigger now c icao phase r =
     (let key = normaliseIcao icao in
      case lastWriteMs c key of
        None \<Rightarrow> Some First
      | Some prev \<Rightarrow>
          if hasSignificantChange c key phase r then Some Event
          else if now - prev \<ge> getIntervalMs c key phase (Some r) then Some Interval else None)"

definition recordWrite ::
  "millis \<Rightarrow> string \<Rightarrow> FlightPhase option \<Rightarrow> TelemetryRecord option \<Rightarrow> WriteRateController \<Rightarrow>
     WriteRateController" where
  "recordWrite now icao phase r c =
     (let key = normaliseIcao icao;
          c' = c\<lparr>lastWriteMs := (lastWriteMs c)(key \<mapsto> now)\<rparr>
      in case (phase, r) of
           (Some p, Some rec) \<Rightarrow> c'\<lparr>writtenState := (writtenState c)(key \<mapsto> snapshot c p rec)\<rparr>
         | _ \<Rightarrow> c')"

definition setEmergencyOverride :: "string \<Rightarrow> bool \<Rightarrow> WriteRateController \<Rightarrow> WriteRateController" where
  "setEmergencyOverride icao active c =
     (let key = normaliseIcao icao in
      c\<lparr>emergencyOverrides := (if active then insert key (emergencyOverrides c)
                               else emergencyOverrides c - {key})\<rparr>)"

definition setProximityOverride :: "string \<Rightarrow> bool \<Rightarrow> WriteRateController \<Rightarrow> WriteRateController" where
  "setProximityOverride icao active c =
     (let key = normaliseIcao icao in
      c\<lparr>proximityOverrides := (if active then insert key (proximityOverrides c)
                               else proximityOverrides c - {key})\<rparr>)"

definition resetController :: "string \<Rightarrow> WriteRateController \<Rightarrow> WriteRateController" where
  "resetController icao c =
     (let key = normaliseIcao icao in
      c\<lparr>lastWriteMs := (lastWriteMs c)(key := None),
        emergencyOverrides := emergencyOverrides c - {key},
        proximityOverrides := proximityOverrides c - {key},
        writtenState := (writtenState c)(key := None)\<rparr>)"

text \<open>
  The decision of \<open>onTelemetryMessage\<close> for one message: both overrides are refreshed, the
  trigger is computed, and a write that is due is recorded. \<open>near\<close> is \<open>isNearAirport\<close>.
\<close>

definition writeDecision ::
  "millis \<Rightarrow> bool \<Rightarrow> FlightPhase \<Rightarrow> TelemetryRecord \<Rightarrow> WriteRateController \<Rightarrow>
     WriteRateController \<times> WriteTrigger option" where
  "writeDecision now near phase r c0 =
     (let icao = normaliseIcao (tr_icao r);
          c1 = setEmergencyOverride icao (isEmergencyCondition r) c0;
          c2 = setProximityOverride icao near c1;
          trigger = getWriteTrigger now c2 icao phase r
      in (if trigger \<noteq> None then recordWrite now icao (Some phase) (Some r) c2 else c2, trigger))"


subsection \<open>Bearings\<close>

lemma js_mod_range: "0 < m \<Longrightarrow> 0 \<le> js_mod x m \<and> js_mod x m < m"
proof -
  assume m: "0 < m"
  with floor_divide_lower [OF m, of x] floor_divide_upper [OF m, of x] show ?thesis
    by (simp add: js_mod_def algebra_simps)
qed

lemma angularDelta_reaches:
  "\<exists>k :: int. angularDeltaDeg a b = \<bar>a - b - 360 * of_int k\<bar>"
proof -
  let ?q = "\<lfloor>\<bar>a - b\<bar> / 360\<rfloor>" and ?d = "js_mod \<bar>a - b\<bar> 360"
  have d: "?d = \<bar>a - b\<bar> - 360 * of_int ?q" "0 \<le> ?d" "?d < 360"
    using js_mod_range [of 360 "\<bar>a - b\<bar>"] by (simp_all add: js_mod_def)
  define k where "k = (if ?d > 180 then ?q + 1 else ?q)"
  have "angularDeltaDeg a b = \<bar>\<bar>a - b\<bar> - 360 * of_int k\<bar>"
    using d by (simp add: angularDeltaDeg_def k_def Let_def)
  then show ?thesis
    by (cases "a \<ge> b") (auto intro: exI [of _ k] exI [of _ "- k"])
qed

lemma angularDelta_range: "0 \<le> angularDeltaDeg a b \<and> angularDeltaDeg a b \<le> 180"
  using js_mod_range [of 360 "\<bar>a - b\<bar>"] by (simp add: angularDeltaDeg_def Let_def)

lemma angularDelta_least: "angularDeltaDeg a b \<le> \<bar>a - b - 360 * of_int k\<bar>"
proof -
  obtain j where j: "angularDeltaDeg a b = \<bar>a - b - 360 * of_int j\<bar>"
    using angularDelta_reaches by blast
  show ?thesis
  proof (cases "j = k")
    case False
    then have "1 \<le> \<bar>of_int (j - k) :: real\<bar>" by (simp del: of_int_diff)
    then have "360 \<le> \<bar>360 * of_int j - 360 * of_int k :: real\<bar>"
      by (simp add: abs_if algebra_simps split: if_splits)
    with j angularDelta_range [of a b] show ?thesis by linarith
  qed (simp add: j)
qed

lemma angularDelta_self [simp]: "angularDeltaDeg a a = 0"
  by (simp add: angularDeltaDeg_def js_mod_def)

subsection \<open>Decisions\<close>

lemma getWriteTrigger_recorded [simp]:
  "lastWriteMs (recordWrite now icao p r c) = (lastWriteMs c)(normaliseIcao icao \<mapsto> now)"
  "rates (recordWrite now icao p r c) = rates c"
  "thresholds (recordWrite now icao p r c) = thresholds c"
  by (auto simp: recordWrite_def Let_def split: option.splits)

lemma overrides_frame [simp]:
  "lastWriteMs (setEmergencyOverride icao a c) = lastWriteMs c"
  "rates (setEmergencyOverride icao a c) = rates c"
  "writtenState (setEmergencyOverride icao a c) = writtenState c"
  "proximityOverrides (setEmergencyOverride icao a c) = proximityOverrides c"
  "thresholds (setEmergencyOverride icao a c) = thresholds c"
  "lastWriteMs (setProximityOverride icao a c) = lastWriteMs c"
  "rates (setProximityOverride icao a c) = rates c"
  "writtenState (setProximityOverride icao a c) = writtenState c"
  "emergencyOverrides (setProximityOverride icao a c) = emergencyOverrides c"
  "thresholds (setProximityOverride icao a c) = thresholds c"
  by (simp_all add: setEmergencyOverride_def setProximityOverride_def Let_def)

lemma overrides_member:
  "k \<in> emergencyOverrides (setEmergencyOverride icao a c)
     \<longleftrightarrow> (if k = normaliseIcao icao then a else k \<in> emergencyOverrides c)"
  "k \<in> proximityOverrides (setProximityOverride icao a c)
     \<longleftrightarrow> (if k = normaliseIcao icao then a else k \<in> proximityOverrides c)"
  by (auto simp: setEmergencyOverride_def setProximityOverride_def Let_def)

interpretation writeTimesTable: keyed_component
  "\<lambda>(now, icao, p, r). recordWrite now icao p r" "\<lambda>(now, icao, p, r). normaliseIcao icao"
  lastWriteMs "\<lambda>(now, icao, p, r) _. Some now"
  by unfold_locales auto

text \<open>The controller in which \<open>writeDecision\<close> evaluates the trigger, and the interval it uses.\<close>

definition decisionInterval ::
  "WriteRateController \<Rightarrow> bool \<Rightarrow> FlightPhase \<Rightarrow> TelemetryRecord \<Rightarrow> millis" where
  "decisionInterval c near phase r =
     (let interval = (case rates c phase of Some b \<Rightarrow> b | None \<Rightarrow> MIN_WRITE_INTERVAL_MS) in
      if isEmergencyCondition r then MIN_WRITE_INTERVAL_MS
      else if near then min interval MIN_WRITE_INTERVAL_MS else interval)"

lemma writeDecision_cases:
  assumes "writeDecision now near phase r c = (c', trigger)"
  defines "k \<equiv> normaliseIcao (tr_icao r)"
  shows "trigger =
      (case lastWriteMs c k of
         None \<Rightarrow> Some First
       | Some prev \<Rightarrow>
           if hasSignificantChange c k phase r then Some Event
           else if now - prev \<ge> decisionInterval c near phase r then Some Interval else None)"
    and "lastWriteMs c' =
      (if trigger = None then lastWriteMs c else (lastWriteMs c)(k \<mapsto> now))"
    and "rates c' = rates c" and "thresholds c' = thresholds c"
proof -
  have hs: "hasSignificantChange (setProximityOverride k near
      (setEmergencyOverride k (isEmergencyCondition r) c)) k phase r = hasSignificantChange c k phase r"
    by (cases "writtenState c k") (simp_all add: hasSignificantChange_def snapshot_def Let_def)
  have iv: "getIntervalMs (setProximityOverride k near
      (setEmergencyOverride k (isEmergencyCondition r) c)) k phase (Some r)
      = decisionInterval c near phase r"
    by (simp add: getIntervalMs_def decisionInterval_def overrides_member k_def Let_def)
  show "trigger =
      (case lastWriteMs c k of
         None \<Rightarrow> Some First
       | Some prev \<Rightarrow>
           if hasSignificantChange c k phase r then Some Event
           else if now - prev \<ge> decisionInterval c near phase r then Some Interval else None)"
    and "lastWriteMs c' =
      (if trigger = None then lastWriteMs c else (lastWriteMs c)(k \<mapsto> now))"
    and "rates c' = rates c" and "thresholds c' = thresholds c"
    using assms(1) hs iv
    by (auto simp: writeDecision_def getWriteTrigger_def Let_def k_def [symmetric]
             simp del: not_None_eq split: if_splits option.splits)
      (simp_all add: k_def)
qed

lemma decisionInterval_floor:
  assumes "\<forall>p b. rates c p = Some b \<longrightarrow> MIN_WRITE_INTERVAL_MS \<le> b"
  shows "MIN_WRITE_INTERVAL_MS \<le> decisionInterval c near phase r"
  using assms by (auto simp: decisionInterval_def Let_def split: option.splits)

text \<open>A telemetry message as the phase engine sees it, and the writes of one aircraft.\<close>

type_synonym message = "millis \<times> bool \<times> FlightPhase \<times> TelemetryRecord"

fun writesOf :: "string \<Rightarrow> message list \<Rightarrow> WriteRateController \<Rightarrow> (millis \<times> WriteTrigger) list" where
  "writesOf k [] c = []"
| "writesOf k ((now, near, phase, r) # ms) c =
     (case writeDecision now near phase r c of (c', trigger) \<Rightarrow>
        (if normaliseIcao (tr_icao r) = k
         then (case trigger of Some t \<Rightarrow> [(now, t)] | None \<Rightarrow> []) else [])
        @ writesOf k ms c')"

text \<open>
  \<open>spaced prev ws\<close>: reading the writes \<open>ws\<close> after a write at \<open>prev\<close>, the first write ever is
  the only one triggered as \<open>First\<close>, and a write triggered by the interval alone comes at
  least the floor after the write before it.
\<close>

fun spaced :: "millis option \<Rightarrow> (millis \<times> WriteTrigger) list \<Rightarrow> bool" where
  "spaced prev [] = True"
| "spaced prev ((t, trg) # ws) =
     ((trg = First \<longleftrightarrow> prev = None)
      \<and> (trg = Interval \<longrightarrow> (\<exists>p. prev = Some p \<and> t - p \<ge> MIN_WRITE_INTERVAL_MS))
      \<and> spaced (Some t) ws)"

lemma spaced_nth:
  "spaced prev ws \<Longrightarrow> Suc i < length ws \<Longrightarrow>
     snd (ws ! Suc i) \<noteq> First
     \<and> (snd (ws ! Suc i) = Interval \<longrightarrow> fst (ws ! Suc i) - fst (ws ! i) \<ge> MIN_WRITE_INTERVAL_MS)"
proof (induction ws arbitrary: prev i)
  case Nil
  then show ?case by simp
next
  case (Cons w ws)
  obtain t trg where w: "w = (t, trg)" by fastforce
  show ?case
  proof (cases i)
    case 0
    with Cons.prems w show ?thesis by (cases ws) auto
  next
    case (Suc j)
    with Cons.prems w Cons.IH [of "Some t" j] show ?thesis by simp
  qed
qed

lemma writesOf_spaced:
  "\<forall>p b. rates c p = Some b \<longrightarrow> MIN_WRITE_INTERVAL_MS \<le> b \<Longrightarrow>
     spaced (lastWriteMs c k) (writesOf k ms c)"
proof (induction ms arbitrary: c)
  case Nil
  then show ?case by simp
next
  case (Cons m ms)
  obtain now near phase r where m: "m = (now, near, phase, r)" by (metis prod_cases4)
  obtain c' trigger where d: "writeDecision now near phase r c = (c', trigger)" by fastforce
  note cs = writeDecision_cases [OF d]
  have IH: "spaced (lastWriteMs c' k) (writesOf k ms c')"
    using Cons.prems by (intro Cons.IH) (simp add: cs(3))
  note floor = decisionInterval_floor [OF Cons.prems, of near phase r]
  show ?case
  proof (cases "normaliseIcao (tr_icao r) = k")
    case False
    with cs(2) have "lastWriteMs c' k = lastWriteMs c k" by auto
    with IH False show ?thesis by (simp add: m d)
  next
    case True
    with IH cs(1,2) floor show ?thesis
      by (auto simp: m d split: option.splits if_splits)
  qed
qed

lemmas write_eval =
  writeDecision_def getWriteTrigger_def recordWrite_def setEmergencyOverride_def
  setProximityOverride_def hasSignificantChange_def snapshot_def movedBy_def getIntervalMs_def
  newController_def DEFAULT_SIGNIFICANT_CHANGE_def headingOf_def verticalRateBand_def
  isEmergencyCondition_def normaliseSquawk_def js_trim_def trim_left_def MIN_WRITE_INTERVAL_MS_def
  emptyRecord_def Let_def

text \<open>
  \<open>shouldWrite\<close> and \<open>getWriteTrigger\<close>, coded separately, decide alike; and after a
  write of a sample, a later sample with the same recorded features is written exactly when
  the interval has elapsed (for positive thresholds).
\<close>

lemma write_quiet_until_interval:
  assumes "0 < headingDeg (thresholds c)" and "0 < altitudeFt (thresholds c)"
    and "snapshot c phase r = snapshot c phase0 r0"
    and "normaliseIcao icao = normaliseIcao icao0"
    and c': "c' = recordWrite t0 icao0 (Some phase0) (Some r0) c"
  shows "(shouldWrite now c' icao phase r \<longleftrightarrow> getWriteTrigger now c' icao phase r \<noteq> None)
       \<and> (shouldWrite now c' icao phase r \<longleftrightarrow> now - t0 \<ge> getIntervalMs c' icao phase (Some r))"
proof
  show "shouldWrite now c' icao phase r \<longleftrightarrow> getWriteTrigger now c' icao phase r \<noteq> None"
    by (simp add: shouldWrite_def getWriteTrigger_def Let_def split: option.split)
  have ws: "writtenState c' (normaliseIcao icao) = Some (snapshot c phase r)"
    using assms(3,4) by (simp add: c' recordWrite_def Let_def)
  have th: "thresholds c' = thresholds c" "snapshot c' phase r = snapshot c phase r"
    by (simp_all add: c' snapshot_def)
  have "\<not> hasSignificantChange c' (normaliseIcao icao) phase r"
    using assms(1,2) by (auto simp: hasSignificantChange_def ws th movedBy_def Let_def split: option.split)
  then show "shouldWrite now c' icao phase r \<longleftrightarrow> now - t0 \<ge> getIntervalMs c' icao phase (Some r)"
    using assms(4) by (simp add: shouldWrite_def c' getIntervalMs_def Let_def)
qed

lemma write_quiet_until_interval_witness:
  "let c' = recordWrite 0 ''X'' (Some CRUISE) (Some emptyRecord)
              (newController (\<lambda>_. None) DEFAULT_SIGNIFICANT_CHANGE)
   in shouldWrite 1500 c' ''X'' CRUISE (emptyRecord\<lparr>tr_seq := 2\<rparr>)
      \<longleftrightarrow> getWriteTrigger 1500 c' ''X'' CRUISE (emptyRecord\<lparr>tr_seq := 2\<rparr>) \<noteq> None"
proof -
  let ?c = "newController (\<lambda>_. None) DEFAULT_SIGNIFICANT_CHANGE"
  have h: "0 < headingDeg (thresholds ?c)" "0 < altitudeFt (thresholds ?c)"
    "snapshot ?c CRUISE (emptyRecord\<lparr>tr_seq := 2\<rparr>) = snapshot ?c CRUISE emptyRecord"
    by (simp_all add: newController_def DEFAULT_SIGNIFICANT_CHANGE_def snapshot_def headingOf_def
        verticalRateBand_def emptyRecord_def)
  show ?thesis
    using write_quiet_until_interval [OF h refl refl, of 1500 0 "''X''"] by (simp add: Let_def)
qed

text \<open>
  \<open>angularDeltaDeg\<close> is the shortest angular distance: it lies between 0 and 180 degrees,
  and it is the least of the distances between the two bearings over all full turns.
\<close>

lemma angular_delta_shortest:
  "0 \<le> angularDeltaDeg a b \<and> angularDeltaDeg a b \<le> 180
   \<and> (\<exists>k :: int. angularDeltaDeg a b = \<bar>a - b - 360 * of_int k\<bar>)
   \<and> (\<forall>k :: int. angularDeltaDeg a b \<le> \<bar>a - b - 360 * of_int k\<bar>)"
  using angularDelta_range angularDelta_reaches angularDelta_least by blast

text \<open>
  The archive is never stale at the default rates. After the phase engine has processed
  a message, the last write of that aircraft is less than the phase interval old, and less
  than \<open>MIN_WRITE_INTERVAL_MS\<close> old when the record is an emergency or the aircraft is near an
  airport.
\<close>

lemma archive_freshness:
  assumes "rates c = (\<lambda>p. Some (DEFAULT_WRITE_RATES p))"
    and "writeDecision now near phase r c = (c', trigger)"
  shows "\<exists>l. lastWriteMs c' (normaliseIcao (tr_icao r)) = Some l
    \<and> now - l < (if isEmergencyCondition r \<or> near then MIN_WRITE_INTERVAL_MS
                 else DEFAULT_WRITE_RATES phase)"
proof -
  have floor: "0 < DEFAULT_WRITE_RATES phase"
    "decisionInterval c near phase r \<le> (if isEmergencyCondition r \<or> near then MIN_WRITE_INTERVAL_MS
       else DEFAULT_WRITE_RATES phase)"
    by (cases phase; simp add: MIN_WRITE_INTERVAL_MS_def)
       (simp add: decisionInterval_def assms(1) Let_def)
  with writeDecision_cases(1,2) [OF assms(2)] show ?thesis
    by (fastforce simp: MIN_WRITE_INTERVAL_MS_def split: option.splits if_splits)
qed

lemma archive_freshness_witness:
  "\<exists>l. lastWriteMs (fst (writeDecision 5000 False CRUISE emptyRecord
          (newController (\<lambda>_. None) DEFAULT_SIGNIFICANT_CHANGE))) (normaliseIcao '''') = Some l
     \<and> 5000 - l < DEFAULT_WRITE_RATES CRUISE"
proof -
  let ?c = "newController (\<lambda>_. None) DEFAULT_SIGNIFICANT_CHANGE"
  have "rates ?c = (\<lambda>p. Some (DEFAULT_WRITE_RATES p))" by (simp add: newController_def)
  from archive_freshness [OF this, of 5000 False CRUISE emptyRecord] show ?thesis
    by (force simp: emptyRecord_def isEmergencyCondition_def normaliseSquawk_def js_trim_def
          trim_left_def Let_def prod_eq_iff MIN_WRITE_INTERVAL_MS_def)
qed



text \<open>
  a record is described exactly when it is an emergency: \<open>getEmergencyDescription\<close> has a
  text if and only if \<open>isEmergencyCondition\<close> holds, and it names the squawk code exactly when
  the normalised code is one of the three emergency codes.
\<close>

lemma emergency_described:
  "(getEmergencyDescription r \<noteq> None \<longleftrightarrow> isEmergencyCondition r)
   \<and> (EMERGENCY_SQUAWK_MAP (normaliseSquawk (tr_squawk r)) \<noteq> None
        \<longleftrightarrow> isEmergencySquawk (normaliseSquawk (tr_squawk r)))"
proof -
  let ?code = "normaliseSquawk (tr_squawk r)"
  have lab: "em \<noteq> Em_none \<longleftrightarrow> EMERGENCY_FIELD_LABELS em \<noteq> None" for em
    by (cases em) simp_all
  have sq: "EMERGENCY_SQUAWK_MAP ?code \<noteq> None \<longleftrightarrow> isEmergencySquawk ?code"
    by (simp add: EMERGENCY_SQUAWK_MAP_def isEmergencySquawk_def)
  have cond: "isEmergencyCondition r \<longleftrightarrow> isEmergencySquawk ?code
      \<or> (\<exists>em. tr_emergency r = Some em \<and> em \<noteq> Em_none)"
    by (auto simp: isEmergencyCondition_def isEmergencySquawk_def Let_def split: option.split)
  have "getEmergencyDescription r \<noteq> None \<longleftrightarrow> EMERGENCY_SQUAWK_MAP ?code \<noteq> None
      \<or> (\<exists>em. tr_emergency r = Some em \<and> EMERGENCY_FIELD_LABELS em \<noteq> None)"
    by (auto simp: getEmergencyDescription_def Let_def split: option.splits if_splits)
  with sq cond lab show ?thesis by simp
qed

end
