(* ===== verification/Phase_Engine.thy ===== *)
theory Phase_Engine
  imports Session_Store Effects Flight_Phase Write_Rate
begin

text \<open>
  The phase engine of the ingestion service, \<open>services/ingestion/src/phase-engine.ts\<close>: the handler of a
  telemetry message with its phase transitions, the resolution of a session at first contact, the
  retirement of sessions, destinations, and the sweep of stale sessions.

  Every database and Redis call is a \<open>call\<close>: the state carries an \<open>environment\<close> that says, call by call, how
  it ends (\<open>CallResult\<close>) and what happens while the handler waits before and after it: the clock advances, a
  sweep runs its statement or its continuation, a flush of positions starts or ends. Messages of one aircraft
  are processed one after the other, as the code chains them; the handlers of other aircraft, which touch
  other keys and other rows, are not interleaved. The rendered summary of a flight event, log
  lines and metrics are left out.

  Results: an aircraft never has two open sessions, whatever calls fail; stored positions belong to the
  aircraft of their session; a departure after a long silence gets a session of its own; parking ends the
  flight.
\<close>

subsection \<open>State\<close>

definition AIRPORT_PROXIMITY_MILES :: real where "AIRPORT_PROXIMITY_MILES = 10"
definition AIRPORT_PROXIMITY_MAX_ALT_FT :: real where "AIRPORT_PROXIMITY_MAX_ALT_FT = 10000"
definition NEW_FLIGHT_GAP_MS :: millis where "NEW_FLIGHT_GAP_MS = 30 * 60000"
definition RESUME_MAX_GAP_MS :: millis where "RESUME_MAX_GAP_MS = 3 * 60 * 60000"
definition STALE_SESSION_AFTER_MS :: millis where "STALE_SESSION_AFTER_MS = 6 * 60 * 60000"
definition DEST_RESOLVE_MAX_ALT_FT :: real where "DEST_RESOLVE_MAX_ALT_FT = 6000"
definition DEST_RESOLVE_RADIUS_MILES :: real where "DEST_RESOLVE_RADIUS_MILES = 12"
definition ORIGIN_RESOLVE_MAX_ALT_FT :: real where "ORIGIN_RESOLVE_MAX_ALT_FT = 10000"

definition AIRBORNE_PHASES :: "FlightPhase set" where
  "AIRBORNE_PHASES = {TAKEOFF, CLIMB, CRUISE, DESCENT, APPROACH, LANDING}"

record SessionAgg =
  ag_sessionId :: nat
  ag_startTs :: millis
  ag_lastLat :: jsnum
  ag_lastLon :: jsnum
  ag_distanceMiles :: jsnum
  ag_maxAltFt :: real
  ag_gsSum :: real
  ag_gsCount :: nat
  ag_txCount :: int

datatype FlightEventType =
  Pushback | Taxi_Start | Takeoff | Top_Of_Climb | Cruise | Top_Of_Descent | Approach | Landing
| Taxi_End | Parked | Emergency

record FlightStats =
  duration_min :: real
  distance_miles :: jsnum
  max_alt_ft :: real
  avg_gs_kts :: real
  total_tx_count :: int
  total_bsv_sats :: int

text \<open>\<open>fe_flight_id = None\<close> is the identifier \<open>orphan-...\<close>.\<close>

record FlightEventRecord =
  fe_event :: FlightEventType
  fe_flight_id :: "nat option"
  fe_icao :: string
  fe_callsign :: string
  fe_reg :: string
  fe_airport_icao :: "string option"
  fe_airport_name :: "string option"
  fe_destination_icao :: "string option"
  fe_destination_name :: "string option"
  fe_lat :: jsnum
  fe_lon :: jsnum
  fe_alt_baro :: jsnum
  fe_gs :: jsnum
  fe_track :: int
  fe_stats :: "FlightStats option"

text \<open>What is published: a write request, a flight event, the enriched record with the session it is shown with,
  and the sign of life.\<close>

datatype Published =
  PWrite string TelemetryRecord
| PFlightEvent string FlightEventRecord
| PBroadcast TelemetryRecord FlightPhase "FlightSession option"
| PActivity string

datatype Interference =
  ClockAdvances nat
| SweepQuery CallResult
| SweepApply
| RecorderTick
| RecorderFlushEnds CallResult

record Engine =
  clock :: millis
  lookup :: AirportLookup
  detector :: FlightPhaseDetector
  controller :: WriteRateController
  recorder :: SessionPositionRecorder
  activeSessions :: "string \<rightharpoonup> FlightSession"
  sequenceCounters :: "string \<rightharpoonup> nat"
  sessionAggs :: "string \<rightharpoonup> SessionAgg"
  lastFrameTsByIcao :: "string \<rightharpoonup> millis"
  sessionResolutionDone :: "string set"
  destBackoff :: DestResolveBackoff
  destResolved :: "nat set"
  db :: SessionDb
  sweeps :: "(nat \<times> string) list list"
  published :: "Published list"
  environment :: "(Interference list \<times> CallResult \<times> Interference list) list"

type_synonym 'a handler = "(Engine, unit, 'a) action"

definition newEngine ::
  "millis \<Rightarrow> AirportLookup \<Rightarrow> WriteRateController \<Rightarrow> SessionDb \<Rightarrow> Engine" where
  "newEngine now l c d =
     \<lparr> clock = now, lookup = l, detector = newDetector, controller = c, recorder = newRecorder,
       activeSessions = Map.empty, sequenceCounters = Map.empty, sessionAggs = Map.empty,
       lastFrameTsByIcao = Map.empty, sessionResolutionDone = {}, destBackoff = newBackoff,
       destResolved = {}, db = d, sweeps = [], published = [], environment = [] \<rparr>"

subsection \<open>Sweeps and waiting\<close>

definition forgetDestState :: "nat \<Rightarrow> Engine \<Rightarrow> Engine" where
  "forgetDestState i e =
     e\<lparr>destBackoff := clearBackoff i (destBackoff e), destResolved := destResolved e - {i}\<rparr>"

definition dropSession :: "string \<Rightarrow> Engine \<Rightarrow> Engine" where
  "dropSession icao e =
     e\<lparr>activeSessions := (activeSessions e)(icao := None), sessionAggs := (sessionAggs e)(icao := None)\<rparr>"

definition holdsSession :: "string \<Rightarrow> nat \<Rightarrow> Engine \<Rightarrow> bool" where
  "holdsSession icao i e \<longleftrightarrow> map_option fs_id (activeSessions e icao) = Some i"

text \<open>\<open>sweepStaleSessions\<close>: its statement, and what follows once the rows have come back. A failed
  statement ends the sweep.\<close>

definition sweepQuery :: "CallResult \<Rightarrow> Engine \<Rightarrow> Engine" where
  "sweepQuery res e =
     (if res = Refused then e
      else (case expireStaleFlightSessions (clock e - STALE_SESSION_AFTER_MS) (db e) of
              (expired, d) \<Rightarrow>
                (let e' = e\<lparr>db := d\<rparr>
                 in if res = Done \<and> expired \<noteq> [] then e'\<lparr>sweeps := sweeps e @ [expired]\<rparr> else e')))"

definition sweepRow :: "nat \<times> string \<Rightarrow> Engine \<Rightarrow> Engine" where
  "sweepRow row e =
     (let icao = normaliseIcao (snd row); e1 = forgetDestState (fst row) e
      in if holdsSession icao (fst row) e1
         then (let e2 = dropSession icao e1 in e2\<lparr>recorder := clearAircraft icao (recorder e2)\<rparr>)
         else e1)"

definition sweepApply :: "Engine \<Rightarrow> Engine" where
  "sweepApply e =
     (case sweeps e of [] \<Rightarrow> e | rows # rest \<Rightarrow> fold sweepRow rows (e\<lparr>sweeps := rest\<rparr>))"

definition recorderFlushEnds :: "CallResult \<Rightarrow> Engine \<Rightarrow> Engine" where
  "recorderFlushEnds res e =
     (case flushEnd res (recorder e) (db e) of (rc, d) \<Rightarrow> e\<lparr>recorder := rc, db := d\<rparr>)"

fun interfere :: "Interference \<Rightarrow> Engine \<Rightarrow> Engine" where
  "interfere (ClockAdvances n) e = e\<lparr>clock := clock e + int n\<rparr>"
| "interfere (SweepQuery res) e = sweepQuery res e"
| "interfere SweepApply e = sweepApply e"
| "interfere RecorderTick e = e\<lparr>recorder := flushStart (recorder e)\<rparr>"
| "interfere (RecorderFlushEnds res) e = recorderFlushEnds res e"

text \<open>A call that runs \<open>f\<close>. An exhausted environment lets everything succeed undisturbed.\<close>

definition call :: "(Engine \<Rightarrow> 'a \<times> Engine) \<Rightarrow> 'a handler" where
  "call f e =
     (case environment e of
        [] \<Rightarrow> (case f e of (x, e') \<Rightarrow> (Returned x, e'))
      | (before, res, after) # rest \<Rightarrow>
          (let e1 = fold interfere before (e\<lparr>environment := rest\<rparr>)
           in if res = Refused then (Threw, fold interfere after e1)
              else (case f e1 of (x, e2) \<Rightarrow>
                (if res = Done then Returned x else Threw, fold interfere after e2))))"

definition query :: "(SessionDb \<Rightarrow> 'a) \<Rightarrow> 'a handler" where
  "query f = call (\<lambda>e. (f (db e), e))"

definition statement :: "(millis \<Rightarrow> SessionDb \<Rightarrow> 'a \<times> SessionDb) \<Rightarrow> 'a handler" where
  "statement f = call (\<lambda>e. case f (clock e) (db e) of (x, d) \<Rightarrow> (x, e\<lparr>db := d\<rparr>))"

definition exec :: "(SessionDb \<Rightarrow> SessionDb) \<Rightarrow> unit handler" where
  "exec f = statement (\<lambda>_ d. ((), f d))"

definition publish :: "Published \<Rightarrow> unit handler" where
  "publish p = call (\<lambda>e. ((), e\<lparr>published := published e @ [p]\<rparr>))"

subsection \<open>Aggregates and events\<close>

definition headingOfEvent :: "TelemetryRecord \<Rightarrow> int" where
  "headingOfEvent r =
     (let deg = (\<lambda>x. let n = js_round x in sgn n * (\<bar>n\<bar> mod 360)) in
      case tr_track r of Some t \<Rightarrow> deg t
      | None \<Rightarrow> (case tr_mag_heading r of Some m \<Rightarrow> deg m
      | None \<Rightarrow> (case tr_true_heading r of Some th \<Rightarrow> deg th | None \<Rightarrow> 0)))"

definition finiteGs :: "TelemetryRecord \<Rightarrow> real option" where
  "finiteGs r = (case tr_gs r of Some g \<Rightarrow> if g \<ge> 0 then Some g else None | None \<Rightarrow> None)"

definition initSessionAgg :: "string \<Rightarrow> nat \<Rightarrow> millis \<Rightarrow> TelemetryRecord \<Rightarrow> int \<Rightarrow> Engine \<Rightarrow> Engine" where
  "initSessionAgg icao i startTs r initialTxCount e =
     e\<lparr>sessionAggs := (sessionAggs e)(icao \<mapsto>
        \<lparr> ag_sessionId = i, ag_startTs = startTs, ag_lastLat = tr_lat r, ag_lastLon = tr_lon r,
          ag_distanceMiles = Some 0, ag_maxAltFt = num_or_zero (tr_alt_baro r),
          ag_gsSum = num_or_zero (finiteGs r), ag_gsCount = (if finiteGs r = None then 0 else 1),
          ag_txCount = initialTxCount \<rparr>)\<rparr>"

definition addNum :: "jsnum \<Rightarrow> jsnum \<Rightarrow> jsnum" where
  "addNum x y = (case (x, y) of (Some a, Some b) \<Rightarrow> Some (a + b) | _ \<Rightarrow> None)"

definition accumulateAgg :: "TelemetryRecord \<Rightarrow> SessionAgg \<Rightarrow> SessionAgg" where
  "accumulateAgg r a0 =
     (let a1 = (case (tr_lat r, tr_lon r) of
                  (Some lat, Some lon) \<Rightarrow>
                    (let moved = (case (ag_lastLat a0, ag_lastLon a0) of
                        (Some llat, Some llon) \<Rightarrow>
                          addNum (ag_distanceMiles a0) (haversineDistanceMiles llat llon lat lon)
                      | _ \<Rightarrow> ag_distanceMiles a0)
                     in a0\<lparr>ag_distanceMiles := moved, ag_lastLat := Some lat, ag_lastLon := Some lon\<rparr>)
                | _ \<Rightarrow> a0);
          a2 = (case tr_alt_baro r of Some alt \<Rightarrow> if alt > ag_maxAltFt a1 then a1\<lparr>ag_maxAltFt := alt\<rparr> else a1
                | None \<Rightarrow> a1)
      in (case finiteGs r of
            Some g \<Rightarrow> a2\<lparr>ag_gsSum := ag_gsSum a2 + g, ag_gsCount := ag_gsCount a2 + 1\<rparr>
          | None \<Rightarrow> a2))"

definition accumulateTelemetry :: "string \<Rightarrow> TelemetryRecord \<Rightarrow> Engine \<Rightarrow> Engine" where
  "accumulateTelemetry icao r e =
     (case sessionAggs e icao of None \<Rightarrow> e
      | Some a \<Rightarrow> e\<lparr>sessionAggs := (sessionAggs e)(icao \<mapsto> accumulateAgg r a)\<rparr>)"

definition nextEventSeq :: "string \<Rightarrow> Engine \<Rightarrow> Engine" where
  "nextEventSeq icao e =
     (let key = normaliseIcao icao; n = (case sequenceCounters e key of Some n \<Rightarrow> n | None \<Rightarrow> 0)
      in e\<lparr>sequenceCounters := (sequenceCounters e)(key \<mapsto> n + 1)\<rparr>)"

definition buildPartialStats :: "string \<Rightarrow> TelemetryRecord \<Rightarrow> Engine \<Rightarrow> FlightStats" where
  "buildPartialStats icao r e =
     (let agg = sessionAggs e icao;
          now = (case tr_ts r of Some t \<Rightarrow> if t \<noteq> 0 then t else clock e | None \<Rightarrow> clock e);
          startTs = (case agg of Some a \<Rightarrow> ag_startTs a | None \<Rightarrow> now)
      in \<lparr> duration_min = max 0 (real_of_int (now - startTs) / 60000),
           distance_miles = (case agg of Some a \<Rightarrow> ag_distanceMiles a | None \<Rightarrow> Some 0),
           max_alt_ft = (case agg of Some a \<Rightarrow> ag_maxAltFt a | None \<Rightarrow> num_or_zero (tr_alt_baro r)),
           avg_gs_kts = (case agg of
              Some a \<Rightarrow> if ag_gsCount a > 0 then ag_gsSum a / real (ag_gsCount a) else num_or_zero (tr_gs r)
            | None \<Rightarrow> num_or_zero (tr_gs r)),
           total_tx_count = (case agg of Some a \<Rightarrow> ag_txCount a | None \<Rightarrow> 0), total_bsv_sats = 0 \<rparr>)"

definition withRow :: "FlightSession option \<Rightarrow> FlightStats \<Rightarrow> FlightStats" where
  "withRow row st =
     (case row of None \<Rightarrow> st
      | Some r \<Rightarrow> st\<lparr>total_tx_count := fs_total_tx_count r, total_bsv_sats := fs_total_sats_spent r\<rparr>)"

definition resolveSessionStats :: "string \<Rightarrow> TelemetryRecord \<Rightarrow> FlightStats handler" where
  "resolveSessionStats icao r =
     andThen (gets (buildPartialStats icao r)) (\<lambda>partial.
     andThen (query (getActiveSession icao)) (\<lambda>row. ret (withRow row partial)))"

definition callsignFor :: "TelemetryRecord \<Rightarrow> string \<Rightarrow> string" where
  "callsignFor r icao = callsignOr icao (normaliseCallsign (Some (tr_callsign r)) (Some icao))"

definition generateFlightEvent ::
  "FlightEventType \<Rightarrow> TelemetryRecord \<Rightarrow> FlightSession option \<Rightarrow> FlightStats option \<Rightarrow> Engine \<Rightarrow> FlightEventRecord" where
  "generateFlightEvent ev r session stats e =
     (let icao = normaliseIcao (tr_icao r);
          nearest = findNearest (tr_lat r) (tr_lon r) (Some 15) (lookup e)
      in \<lparr> fe_event = ev, fe_flight_id = map_option fs_id session, fe_icao = icao,
           fe_callsign = callsignFor r icao, fe_reg = js_trim (tr_reg r),
           fe_airport_icao = Option.bind nearest ap_icao, fe_airport_name = map_option ap_name nearest,
           fe_destination_icao = Option.bind session fs_dest_icao,
           fe_destination_name = Option.bind session fs_dest_name,
           fe_lat = tr_lat r, fe_lon = tr_lon r, fe_alt_baro = tr_alt_baro r, fe_gs = tr_gs r,
           fe_track = headingOfEvent r, fe_stats = stats \<rparr>)"

definition publishFlightEvent :: "FlightEventRecord \<Rightarrow> string \<Rightarrow> unit handler" where
  "publishFlightEvent ev icao =
     andThen (modify (nextEventSeq icao)) (\<lambda>_. publish (PFlightEvent (normaliseIcao icao) ev))"

subsection \<open>Adopting and retiring sessions\<close>

definition activate :: "string \<Rightarrow> FlightSession \<Rightarrow> Engine \<Rightarrow> Engine" where
  "activate icao s e = e\<lparr>activeSessions := (activeSessions e)(icao \<mapsto> s)\<rparr>"

definition recordPoint :: "nat \<Rightarrow> FlightPhase \<Rightarrow> TelemetryRecord \<Rightarrow> bool \<Rightarrow> Engine \<Rightarrow> Engine" where
  "recordPoint i phase r forced e = e\<lparr>recorder := recordPosition (clock e) i phase r forced (recorder e)\<rparr>"

definition adopt :: "string \<Rightarrow> FlightSession \<Rightarrow> TelemetryRecord \<Rightarrow> Engine \<Rightarrow> Engine" where
  "adopt icao s r e =
     (if sessionAggs e icao = None
      then initSessionAgg icao (fs_id s) (fs_started_at s) r (fs_total_tx_count s) (activate icao s e)
      else activate icao s e)"

definition adoptDbSession :: "string \<Rightarrow> TelemetryRecord \<Rightarrow> millis \<Rightarrow> millis \<Rightarrow> FlightSession option handler" where
  "adoptDbSession icao r recTs maxGapMs =
     andThen (query (getActiveSession icao)) (\<lambda>dbSession.
     case dbSession of None \<Rightarrow> ret None
     | Some s \<Rightarrow>
         andThen (query (getSessionLastPositionTs (fs_id s))) (\<lambda>stored.
         let lastMs = (case stored of Some t \<Rightarrow> t | None \<Rightarrow> fs_started_at s) in
         if recTs - lastMs > maxGapMs
         then andThen (modify (forgetDestState (fs_id s))) (\<lambda>_.
              andThen (exec (expireSession s lastMs)) (\<lambda>_. ret None))
         else andThen (modify (adopt icao s r)) (\<lambda>_. ret (Some s))))"

definition releaseSession :: "string \<Rightarrow> nat \<Rightarrow> Engine \<Rightarrow> Engine" where
  "releaseSession icao i e =
     (let e1 = forgetDestState i e;
          e2 = (if holdsSession icao i e1 then dropSession icao e1 else e1)
      in e2\<lparr>recorder := clearAircraft icao (recorder e2)\<rparr>)"

definition retireSession :: "string \<Rightarrow> FlightSession \<Rightarrow> millis option \<Rightarrow> unit handler" where
  "retireSession icao s lastActivityMs =
     andThen (case lastActivityMs of Some t \<Rightarrow> ret (Some t) | None \<Rightarrow> query (getSessionLastPositionTs (fs_id s)))
     (\<lambda>known. let lastMs = (case known of Some t \<Rightarrow> t | None \<Rightarrow> fs_started_at s) in
     andThen (exec (expireSession s lastMs)) (\<lambda>_. modify (releaseSession icao (fs_id s))))"

definition retireLingering :: "string \<Rightarrow> unit handler" where
  "retireLingering icao =
     andThen (gets (\<lambda>e. activeSessions e icao)) (\<lambda>active.
     andThen (case active of Some s \<Rightarrow> ret (Some s) | None \<Rightarrow> query (getActiveSession icao)) (\<lambda>session.
     case session of None \<Rightarrow> ret ()
     | Some s \<Rightarrow> andThen (gets (\<lambda>e. lastFrameTsByIcao e icao)) (\<lambda>t. retireSession icao s t)))"

text \<open>Creating a session and holding it, from an origin or from nowhere.\<close>

definition hold :: "string \<Rightarrow> FlightSession \<Rightarrow> millis \<Rightarrow> TelemetryRecord \<Rightarrow> Engine \<Rightarrow> Engine" where
  "hold icao s recTs r e = initSessionAgg icao (fs_id s) recTs r 0 (activate icao s e)"

definition openFromAirport :: "string \<Rightarrow> TelemetryRecord \<Rightarrow> millis \<Rightarrow> FlightPhase \<Rightarrow> FlightSession handler" where
  "openFromAirport icao r recTs phase =
     andThen (gets lookup) (\<lambda>l.
     andThen (statement (\<lambda>now. startSession now icao (callsignFor r icao) l (tr_lat r) (tr_lon r) phase)) (\<lambda>s.
     andThen (modify (hold icao s recTs r)) (\<lambda>_. ret s)))"

definition openAirborne :: "string \<Rightarrow> TelemetryRecord \<Rightarrow> millis \<Rightarrow> FlightPhase \<Rightarrow> FlightSession handler" where
  "openAirborne icao r recTs phase =
     andThen (statement (\<lambda>now. startAirborneSession now icao (callsignFor r icao) phase)) (\<lambda>s.
     andThen (modify (hold icao s recTs r)) (\<lambda>_. ret s))"

definition resolveSessionOnFirstContact :: "string \<Rightarrow> FlightPhase \<Rightarrow> TelemetryRecord \<Rightarrow> unit handler" where
  "resolveSessionOnFirstContact icao phase r =
     tryCatch
       (andThen (gets (\<lambda>e. frameTs (clock e) r)) (\<lambda>recTs.
        let airborne = phase \<in> AIRBORNE_PHASES;
            maxGap = (if airborne then RESUME_MAX_GAP_MS else NEW_FLIGHT_GAP_MS) in
        andThen (adoptDbSession icao r recTs maxGap) (\<lambda>session.
        onlyIf (session = None \<and> airborne)
          (andThen (openAirborne icao r recTs phase) (\<lambda>s. modify (recordPoint (fs_id s) phase r True))))))
       (ret ())"

subsection \<open>Destinations\<close>

definition nonEmpty :: "string option \<Rightarrow> bool" where
  "nonEmpty s \<longleftrightarrow> (case s of None \<Rightarrow> False | Some x \<Rightarrow> x \<noteq> [])"

definition destinationSettled :: "FlightSession \<Rightarrow> Engine \<Rightarrow> bool" where
  "destinationSettled s e \<longleftrightarrow> fs_id s \<in> destResolved e \<or> nonEmpty (fs_dest_icao s) \<or> nonEmpty (fs_dest_name s)"

definition noteDestResolveFailure :: "nat \<Rightarrow> Engine \<Rightarrow> Engine" where
  "noteDestResolveFailure i e = e\<lparr>destBackoff := snd (recordFailure (clock e) i (destBackoff e))\<rparr>"

definition settleDest :: "string \<Rightarrow> FlightSession \<Rightarrow> Engine \<Rightarrow> Engine" where
  "settleDest icao s e =
     activate icao s (e\<lparr>destBackoff := clearBackoff (fs_id s) (destBackoff e),
                        destResolved := insert (fs_id s) (destResolved e)\<rparr>)"

text \<open>The result is the session object, which a resolution changes in place.\<close>

definition withDest :: "AirportEntry \<Rightarrow> FlightSession \<Rightarrow> FlightSession" where
  "withDest a s =
     s\<lparr>fs_dest_icao := (case normaliseAirportIcao (ap_icao a) of Some c \<Rightarrow> Some c | None \<Rightarrow> fs_dest_icao s),
       fs_dest_name := (case airportNameForStorage (ap_name a) of Some n \<Rightarrow> Some n | None \<Rightarrow> fs_dest_name s)\<rparr>"

definition storeDest :: "AirportEntry \<Rightarrow> FlightSession \<Rightarrow> unit handler" where
  "storeDest a s =
     (let code = normaliseAirportIcao (ap_icao a); nm = airportNameForStorage (ap_name a) in
      if code \<noteq> None \<or> nm \<noteq> None
      then (case updateSessionDest (fs_id s) code (case nm of Some n \<Rightarrow> n | None \<Rightarrow> []) of
              None \<Rightarrow> throw | Some f \<Rightarrow> exec f)
      else ret ())"

definition resolveDest :: "string \<Rightarrow> FlightSession \<Rightarrow> TelemetryRecord \<Rightarrow> real \<Rightarrow> FlightSession handler" where
  "resolveDest icao s r radiusMiles =
     andThen (gets (\<lambda>e. findNearest (tr_lat r) (tr_lon r) (Some radiusMiles) (lookup e))) (\<lambda>nearest.
     case nearest of None \<Rightarrow> ret s
     | Some a \<Rightarrow> andThen (storeDest a s) (\<lambda>_.
                 andThen (modify (settleDest icao (withDest a s))) (\<lambda>_. ret (withDest a s))))"

definition maybeResolveDest :: "string \<Rightarrow> FlightSession \<Rightarrow> TelemetryRecord \<Rightarrow> real \<Rightarrow> FlightSession handler" where
  "maybeResolveDest icao s r radiusMiles =
     andThen (gets (\<lambda>e. destinationSettled s e \<or> shouldSkip (clock e) (fs_id s) (destBackoff e))) (\<lambda>skip.
     if skip then ret s
     else tryCatch (resolveDest icao s r radiusMiles)
            (andThen (modify (noteDestResolveFailure (fs_id s))) (\<lambda>_. ret s)))"

subsection \<open>Phase transitions\<close>

definition taxiOut :: "string \<Rightarrow> TelemetryRecord \<Rightarrow> millis \<Rightarrow> unit handler" where
  "taxiOut icao r recTs =
     andThen (retireLingering icao) (\<lambda>_.
     andThen (openFromAirport icao r recTs TAXI) (\<lambda>s.
     andThen (modify (recordPoint (fs_id s) TAXI r True)) (\<lambda>_.
     andThen (gets (generateFlightEvent Taxi_Start r (Some s) None)) (\<lambda>ev.
     publishFlightEvent ev icao))))"

text \<open>A held session ends when a take-off follows a long silence.\<close>

definition splitAtGap ::
  "string \<Rightarrow> FlightPhase \<Rightarrow> millis \<Rightarrow> FlightSession option \<Rightarrow> FlightSession option handler" where
  "splitAtGap icao to recTs session =
     (case session of None \<Rightarrow> ret None
      | Some s \<Rightarrow>
          if to \<noteq> TAKEOFF then ret (Some s)
          else andThen (gets (\<lambda>e. lastFrameTsByIcao e icao)) (\<lambda>prevTs.
            case prevTs of None \<Rightarrow> ret (Some s)
            | Some p \<Rightarrow> if recTs - p > NEW_FLIGHT_GAP_MS
                        then andThen (retireSession icao s (Some p)) (\<lambda>_. ret None)
                        else ret (Some s)))"

definition lowEnough :: "TelemetryRecord \<Rightarrow> bool" where
  "lowEnough r \<longleftrightarrow> tr_on_ground r
     \<or> (case tr_alt_baro r of Some a \<Rightarrow> a < ORIGIN_RESOLVE_MAX_ALT_FT | None \<Rightarrow> False)"

definition openFor ::
  "string \<Rightarrow> FlightPhase \<Rightarrow> TelemetryRecord \<Rightarrow> millis \<Rightarrow> FlightSession option \<Rightarrow> FlightSession option handler" where
  "openFor icao to r recTs session =
     (case session of Some s \<Rightarrow> ret (Some s)
      | None \<Rightarrow>
          if to = TAKEOFF
          then andThen (if lowEnough r then openFromAirport icao r recTs TAKEOFF
                        else openAirborne icao r recTs TAKEOFF) (\<lambda>s. ret (Some s))
          else if to \<in> AIRBORNE_PHASES
          then andThen (openAirborne icao r recTs to) (\<lambda>s. ret (Some s))
          else ret None)"

definition sessionFor :: "string \<Rightarrow> FlightPhase \<Rightarrow> TelemetryRecord \<Rightarrow> millis \<Rightarrow> FlightSession option handler" where
  "sessionFor icao to r recTs =
     andThen (gets (\<lambda>e. activeSessions e icao)) (\<lambda>active.
     andThen (case active of Some s \<Rightarrow> ret (Some s)
              | None \<Rightarrow> adoptDbSession icao r recTs RESUME_MAX_GAP_MS) (\<lambda>s0.
     andThen (splitAtGap icao to recTs s0) (\<lambda>s1. openFor icao to r recTs s1)))"

definition notePhase :: "string \<Rightarrow> FlightSession \<Rightarrow> FlightPhase \<Rightarrow> TelemetryRecord \<Rightarrow> unit handler" where
  "notePhase icao s to r =
     andThen (exec (updateSessionPhase (fs_id s) to)) (\<lambda>_.
     modify (recordPoint (fs_id s) to r True \<circ> activate icao (s\<lparr>fs_phase := to\<rparr>)))"

definition announce :: "FlightEventType \<Rightarrow> string \<Rightarrow> TelemetryRecord \<Rightarrow> FlightSession \<Rightarrow> unit handler" where
  "announce ev icao r s =
     andThen (resolveSessionStats icao r) (\<lambda>stats.
     andThen (gets (generateFlightEvent ev r (Some s) (Some stats))) (\<lambda>x. publishFlightEvent x icao))"

definition flushNow :: "unit handler" where
  "flushNow e =
     (if rc_inflight (recorder e) \<noteq> None \<or> rc_buffer (recorder e) = [] then (Returned (), e)
      else (let e1 = e\<lparr>recorder := flushStart (recorder e)\<rparr> in
        case environment e1 of [] \<Rightarrow> (Returned (), recorderFlushEnds Done e1)
        | (before, res, after) # rest \<Rightarrow>
            (Returned (), fold interfere after (recorderFlushEnds res
               (fold interfere before (e1\<lparr>environment := rest\<rparr>))))))"

definition endFlight :: "string \<Rightarrow> nat \<Rightarrow> Engine \<Rightarrow> Engine" where
  "endFlight icao i e =
     (let e1 = dropSession icao (forgetDestState i e)
      in e1\<lparr>controller := resetController icao (controller e1),
            recorder := clearAircraft icao (recorder e1)\<rparr>)"

definition park :: "string \<Rightarrow> FlightSession \<Rightarrow> TelemetryRecord \<Rightarrow> millis \<Rightarrow> unit handler" where
  "park icao s r recTs =
     andThen (resolveSessionStats icao r) (\<lambda>stats.
     andThen (query (getActiveSession icao)) (\<lambda>fresh.
     let finalStats = withRow fresh
           (stats\<lparr>duration_min := max 0 (real_of_int (recTs - fs_started_at s) / 60000)\<rparr>) in
     andThen (gets (generateFlightEvent Parked r (Some s) (Some finalStats))) (\<lambda>ev.
     andThen (publishFlightEvent ev icao) (\<lambda>_.
     andThen (gets clock) (\<lambda>now.
     andThen (exec (closeSession now (fs_id s) (total_tx_count finalStats) (total_bsv_sats finalStats))) (\<lambda>_.
     andThen (modify (endFlight icao (fs_id s))) (\<lambda>_. flushNow)))))))"

text \<open>The events and the end of a flight; at most one branch applies.\<close>

definition followUp ::
  "string \<Rightarrow> FlightPhase \<Rightarrow> FlightPhase \<Rightarrow> TelemetryRecord \<Rightarrow> millis \<Rightarrow> FlightSession \<Rightarrow> unit handler" where
  "followUp icao frm to r recTs s =
     (if to = TAKEOFF then announce Takeoff icao r s
      else if to = CRUISE then announce Top_Of_Climb icao r s
      else if to = DESCENT then announce Top_Of_Descent icao r s
      else if to = LANDING then
        andThen (maybeResolveDest icao s r 15) (\<lambda>s'. announce Landing icao r s')
      else if to = PARKED \<and> frm \<noteq> PARKED then park icao s r recTs
      else ret ())"

text \<open>The part of the handler inside the \<open>try\<close>.\<close>

definition transitionBody :: "PhaseTransition \<Rightarrow> millis \<Rightarrow> unit handler" where
  "transitionBody t recTs =
     (let icao = normaliseIcao (pt_aircraft_icao t); r = pt_telemetry t;
          frm = pt_from_phase t; to = pt_to_phase t in
      if frm = PARKED \<and> to = TAXI then taxiOut icao r recTs
      else andThen (sessionFor icao to r recTs) (\<lambda>session.
           case session of None \<Rightarrow> ret ()
           | Some s \<Rightarrow> andThen (notePhase icao s to r) (\<lambda>_. followUp icao frm to r recTs s)))"

definition handlePhaseTransition :: "PhaseTransition \<Rightarrow> unit handler" where
  "handlePhaseTransition t =
     andThen (gets (\<lambda>e. frameTs (clock e) (pt_telemetry t))) (\<lambda>recTs.
       tryCatch (transitionBody t recTs) (ret ()))"

subsection \<open>Messages\<close>

definition isNearAirport :: "AirportLookup \<Rightarrow> TelemetryRecord \<Rightarrow> bool" where
  "isNearAirport l r =
     (if countAirports l = 0 then False
      else (case (tr_lat r, tr_lon r) of
        (Some lat, Some lon) \<Rightarrow>
          if (case tr_alt_baro r of Some a \<Rightarrow> a > AIRPORT_PROXIMITY_MAX_ALT_FT | None \<Rightarrow> False)
             \<and> \<not> tr_on_ground r then False
          else (case findNearest (Some lat) (Some lon) (Some AIRPORT_PROXIMITY_MILES) l of None \<Rightarrow> False
            | Some a \<Rightarrow> (case haversineDistanceMiles lat lon (ap_lat a) (ap_lon a) of
                Some d \<Rightarrow> d \<le> AIRPORT_PROXIMITY_MILES | None \<Rightarrow> False))
      | _ \<Rightarrow> False))"

definition detectPhaseUpdate :: "TelemetryRecord \<Rightarrow> (FlightPhase \<times> PhaseTransition list) handler" where
  "detectPhaseUpdate r e =
     (case updateWithTransitions (clock e) r (detector e) of
        (d, phase, transitions, _) \<Rightarrow> (Returned (phase, transitions), e\<lparr>detector := d\<rparr>))"

definition firstContact :: "string \<Rightarrow> FlightPhase \<Rightarrow> TelemetryRecord \<Rightarrow> unit handler" where
  "firstContact icao phase r =
     andThen (gets (\<lambda>e. activeSessions e icao = None \<and> icao \<notin> sessionResolutionDone e)) (\<lambda>due.
     onlyIf due
       (andThen (modify (\<lambda>e. e\<lparr>sessionResolutionDone := insert icao (sessionResolutionDone e)\<rparr>)) (\<lambda>_.
        resolveSessionOnFirstContact icao phase r)))"

definition refreshOverrides :: "string \<Rightarrow> TelemetryRecord \<Rightarrow> Engine \<Rightarrow> Engine" where
  "refreshOverrides icao r e =
     e\<lparr>controller := setProximityOverride icao (isNearAirport (lookup e) r)
         (setEmergencyOverride icao (isEmergencyCondition r) (controller e))\<rparr>"

definition countTx :: "string \<Rightarrow> Engine \<Rightarrow> Engine" where
  "countTx icao e =
     (case sessionAggs e icao of None \<Rightarrow> e
      | Some a \<Rightarrow> e\<lparr>sessionAggs := (sessionAggs e)(icao \<mapsto> a\<lparr>ag_txCount := ag_txCount a + 1\<rparr>)\<rparr>)"

definition requestWrite :: "string \<Rightarrow> FlightPhase \<Rightarrow> TelemetryRecord \<Rightarrow> unit handler" where
  "requestWrite icao phase r =
     andThen (modify (refreshOverrides icao r)) (\<lambda>_.
     andThen (gets (\<lambda>e. getWriteTrigger (clock e) (controller e) icao phase r)) (\<lambda>trigger.
     onlyIf (trigger \<noteq> None)
       (andThen (publish (PWrite icao r)) (\<lambda>_.
        andThen (modify (\<lambda>e. e\<lparr>controller := recordWrite (clock e) icao (Some phase) (Some r) (controller e)\<rparr>)) (\<lambda>_.
        andThen (gets (\<lambda>e. activeSessions e icao)) (\<lambda>session.
        case session of None \<Rightarrow> ret ()
        | Some s \<Rightarrow> andThen (exec (incrementTxCount (fs_id s))) (\<lambda>_. modify (countTx icao))))))))"

definition lowOnApproach :: "FlightPhase \<Rightarrow> TelemetryRecord \<Rightarrow> bool" where
  "lowOnApproach phase r \<longleftrightarrow> phase = APPROACH
     \<and> (case tr_alt_baro r of Some a \<Rightarrow> a < DEST_RESOLVE_MAX_ALT_FT | None \<Rightarrow> False)"

definition followSession :: "string \<Rightarrow> FlightPhase \<Rightarrow> TelemetryRecord \<Rightarrow> FlightSession option handler" where
  "followSession icao phase r =
     andThen (gets (\<lambda>e. activeSessions e icao)) (\<lambda>session.
     case session of None \<Rightarrow> ret None
     | Some s \<Rightarrow>
         andThen (modify (recordPoint (fs_id s) phase r False)) (\<lambda>_.
         andThen (gets (destinationSettled s)) (\<lambda>settled.
         if \<not> settled \<and> lowOnApproach phase r
         then andThen (maybeResolveDest icao s r DEST_RESOLVE_RADIUS_MILES) (\<lambda>s'. ret (Some s'))
         else ret (Some s))))"

definition noteFrame :: "string \<Rightarrow> TelemetryRecord \<Rightarrow> Engine \<Rightarrow> Engine" where
  "noteFrame icao r e =
     (let e1 = accumulateTelemetry icao r e
      in e1\<lparr>lastFrameTsByIcao := (lastFrameTsByIcao e1)(icao \<mapsto> frameTs (clock e1) r)\<rparr>)"

text \<open>\<open>None\<close> is a message that is no JSON.\<close>

definition onTelemetryMessage :: "TelemetryRecord option \<Rightarrow> unit handler" where
  "onTelemetryMessage message =
     (case message of None \<Rightarrow> ret ()
      | Some r \<Rightarrow>
          (let icao = normaliseIcao (tr_icao r) in
           andThen (detectPhaseUpdate r) (\<lambda>(phase, transitions).
           andThen (forEach handlePhaseTransition transitions) (\<lambda>_.
           andThen (firstContact icao phase r) (\<lambda>_.
           andThen (requestWrite icao phase r) (\<lambda>_.
           andThen (followSession icao phase r) (\<lambda>session.
           andThen (publish (PBroadcast r phase session)) (\<lambda>_.
           andThen (publish (PActivity icao)) (\<lambda>_.
           modify (noteFrame icao r))))))))))"

text \<open>The chain of an aircraft swallows the exception of a handler. Between messages, whatever may happen
  during a wait may happen too.\<close>

datatype EngineEvent =
  Message "(Interference list \<times> CallResult \<times> Interference list) list" "TelemetryRecord option"
| Meanwhile Interference

fun engineStep :: "EngineEvent \<Rightarrow> Engine \<Rightarrow> Engine" where
  "engineStep (Message env m) e = snd (onTelemetryMessage m (e\<lparr>environment := env\<rparr>))"
| "engineStep (Meanwhile i) e = interfere i e"

subsection \<open>The invariant\<close>

definition rowKeys :: "SessionDb \<Rightarrow> (nat \<times> string \<times> millis) set" where
  "rowKeys d = (\<lambda>r. (fs_id r, fs_aircraft_icao r, fs_started_at r)) ` set (flight_sessions d)"

text \<open>The table: keys are in order, no aircraft has two open rows, rows fit their columns, and no row ends
  before it starts or starts in the future.\<close>

definition timesOk :: "millis \<Rightarrow> FlightSession \<Rightarrow> bool" where
  "timesOk now r \<longleftrightarrow> fs_started_at r \<le> now \<and> (\<forall>t. fs_ended_at r = Some t \<longrightarrow> fs_started_at r \<le> t)"

definition dbInv :: "millis \<Rightarrow> SessionDb \<Rightarrow> bool" where
  "dbInv now d \<longleftrightarrow> keysOk d \<and> sessionTable.single d \<and> rowsFit d \<and> (\<forall>r \<in> set (flight_sessions d). timesOk now r)"

definition knownIn :: "SessionDb \<Rightarrow> string \<Rightarrow> FlightSession \<Rightarrow> bool" where
  "knownIn d icao s \<longleftrightarrow> fs_aircraft_icao s = icao \<and> (fs_id s, icao, fs_started_at s) \<in> rowKeys d"

text \<open>What is held in memory is a row of the aircraft, and the only one that may be open.\<close>

definition heldInv :: "(string \<rightharpoonup> FlightSession) \<Rightarrow> SessionDb \<Rightarrow> bool" where
  "heldInv act d \<longleftrightarrow> (\<forall>a s. act a = Some s \<longrightarrow> knownIn d a s \<and> openIds d a \<subseteq> {fs_id s})"

definition aggInv :: "(string \<rightharpoonup> SessionAgg) \<Rightarrow> (string \<rightharpoonup> FlightSession) \<Rightarrow> bool" where
  "aggInv aggs act \<longleftrightarrow> (\<forall>a g. aggs a = Some g \<longrightarrow> map_option fs_id (act a) = Some (ag_sessionId g))"

definition ownedPoint :: "SessionDb \<Rightarrow> SessionPosition \<Rightarrow> bool" where
  "ownedPoint d p \<longleftrightarrow> (\<exists>t. (sp_flight_id p, sp_aircraft_icao p, t) \<in> rowKeys d)"

definition posInv :: "SessionDb \<Rightarrow> SessionPositionRecorder \<Rightarrow> bool" where
  "posInv d rc \<longleftrightarrow> (\<forall>p \<in> set (session_positions d) \<union> set (pendingPoints rc). ownedPoint d p)"

definition einv :: "Engine \<Rightarrow> bool" where
  "einv e \<longleftrightarrow> dbInv (clock e) (db e) \<and> heldInv (activeSessions e) (db e)
     \<and> aggInv (sessionAggs e) (activeSessions e) \<and> posInv (db e) (recorder e)"

lemma einvI:
  "dbInv (clock e) (db e) \<Longrightarrow> heldInv (activeSessions e) (db e) \<Longrightarrow> aggInv (sessionAggs e) (activeSessions e)
     \<Longrightarrow> posInv (db e) (recorder e) \<Longrightarrow> einv e"
  by (simp add: einv_def)

lemma rowKeys_rewrite [simp]: "keepsKeys g \<Longrightarrow> rowKeys (rewriteRows g d) = rowKeys d"
  by (simp add: rowKeys_def rewriteRows_def image_image keepsKeys_def)

text \<open>A statement that rewrites rows and opens none keeps every part.\<close>

definition closesOnly :: "SessionDb \<Rightarrow> SessionDb \<Rightarrow> bool" where
  "closesOnly d d' \<longleftrightarrow> rowKeys d' = rowKeys d \<and> (\<forall>a. openIds d' a \<subseteq> openIds d a)
     \<and> (keysOk d \<longrightarrow> keysOk d') \<and> set (session_positions d) \<subseteq> set (session_positions d')"

lemma closesOnly_refl: "closesOnly d d" by (simp add: closesOnly_def)

lemma closesOnly_trans: "closesOnly a b \<Longrightarrow> closesOnly b c \<Longrightarrow> closesOnly a c"
  unfolding closesOnly_def by (metis order_trans)

lemma closesOnly_rewrite:
  assumes "keepsKeys g" "\<And>r. isOpen (g r) \<Longrightarrow> isOpen r"
  shows "closesOnly d (rewriteRows g d)"
proof -
  have "openIds (rewriteRows g d) a \<subseteq> openIds d a" for a
    using assms(2) unfolding openIds_rewrite [OF assms(1)] openIds_def [of d a] by blast
  moreover have "session_positions (rewriteRows g d) = session_positions d" by (simp add: rewriteRows_def)
  ultimately show ?thesis using assms(1) by (simp add: closesOnly_def rewriteRows_keys)
qed

lemma closesOnly_single: "closesOnly d d' \<Longrightarrow> sessionTable.single d \<Longrightarrow> sessionTable.single d'"
  unfolding closesOnly_def single_open_def by (meson subset_trans)

lemma closesOnly_held: "closesOnly d d' \<Longrightarrow> heldInv act d \<Longrightarrow> heldInv act d'"
  unfolding closesOnly_def heldInv_def knownIn_def by (metis subset_trans)

lemma heldInv_shrink:
  "heldInv act d \<Longrightarrow> (\<And>a. act' a = act a \<or> act' a = None) \<Longrightarrow> heldInv act' d"
  unfolding heldInv_def by (metis option.distinct(1))

lemma dbInv_rewrite:
  assumes "dbInv now d" "keepsKeys g" "\<And>r. isOpen (g r) \<Longrightarrow> isOpen r"
    and "\<And>r. r \<in> set (flight_sessions d) \<Longrightarrow> fits r \<Longrightarrow> fits (g r)"
    and "\<And>r. r \<in> set (flight_sessions d) \<Longrightarrow> timesOk now r \<Longrightarrow> timesOk now (g r)"
  shows "dbInv now (rewriteRows g d)"
proof -
  have "sessionTable.single (rewriteRows g d)"
    using assms(1) closesOnly_single [OF closesOnly_rewrite [OF assms(2,3)]] by (simp add: dbInv_def)
  then show ?thesis using assms rewriteRows_keys(2) [OF assms(2), of d]
    by (auto simp: dbInv_def rowsFit_def rewriteRows_def)
qed

lemma posInv_keys:
  assumes "posInv d rc" "rowKeys d \<subseteq> rowKeys d'"
    and "set (session_positions d') \<union> set (pendingPoints rc') \<subseteq> set (session_positions d) \<union> set (pendingPoints rc)"
  shows "posInv d' rc'"
  using assms unfolding posInv_def ownedPoint_def by blast

lemma set_retained: "set (retained ps) \<subseteq> set ps"
  by (simp add: retained_def set_drop_subset)

lemma flushEnd_points:
  assumes "flushEnd res rc d = (rc', d')"
  shows "flight_sessions d' = flight_sessions d" "nextSession d' = nextSession d"
    and "set (session_positions d) \<subseteq> set (session_positions d')"
    and "set (session_positions d') \<union> set (pendingPoints rc') \<subseteq> set (session_positions d) \<union> set (pendingPoints rc)"
proof -
  show "flight_sessions d' = flight_sessions d" "nextSession d' = nextSession d"
    "set (session_positions d) \<subseteq> set (session_positions d')"
    using assms by (auto simp: flushEnd_def insertSessionPositions_def split: option.splits if_splits)
  show "set (session_positions d') \<union> set (pendingPoints rc') \<subseteq> set (session_positions d) \<union> set (pendingPoints rc)"
  proof (cases "rc_inflight rc")
    case None
    then show ?thesis using assms by (simp add: flushEnd_def)
  next
    case (Some b)
    have p: "set (pendingPoints rc) = set b \<union> set (rc_buffer rc)" using Some by (simp add: pendingPoints_def)
    have "set (pendingPoints rc') \<subseteq> set b \<union> set (rc_buffer rc)"
      using assms Some set_retained [of "b @ rc_buffer rc"]
      by (auto simp: flushEnd_def pendingPoints_def split: if_splits)
    moreover have "set (session_positions d') \<subseteq> set (session_positions d) \<union> set b"
      using assms Some by (auto simp: flushEnd_def insertSessionPositions_def split: if_splits)
    ultimately show ?thesis using p by blast
  qed
qed

subsection \<open>What may happen during a wait\<close>

text \<open>\<open>settles\<close>: rows are kept and none is opened, sessions are at most let go, and time does not run
  back.\<close>

definition settles :: "Engine \<Rightarrow> Engine \<Rightarrow> bool" where
  "settles e e' \<longleftrightarrow> closesOnly (db e) (db e') \<and> clock e \<le> clock e'
     \<and> (\<forall>a. activeSessions e' a = activeSessions e a \<or> activeSessions e' a = None)"

lemma settles_refl [simp]: "settles e e" by (simp add: settles_def closesOnly_refl)

lemma settles_trans: "settles a b \<Longrightarrow> settles b c \<Longrightarrow> settles a c"
  unfolding settles_def using closesOnly_trans order_trans by (smt (verit, best))

lemma settles_env [simp]: "settles e (e\<lparr>environment := env\<rparr>)"
  by (simp add: settles_def closesOnly_refl)

lemma einv_env [simp]: "einv (e\<lparr>environment := env\<rparr>) = einv e"
  by (simp add: einv_def)

lemma sweepRow_frame:
  "db (sweepRow row e) = db e" "clock (sweepRow row e) = clock e"
  "pendingPoints (recorder (sweepRow row e)) = pendingPoints (recorder e)"
  by (simp_all add: sweepRow_def Let_def forgetDestState_def dropSession_def)

lemma sweepRow_sessions:
  "activeSessions (sweepRow row e) a = activeSessions e a \<and> sessionAggs (sweepRow row e) a = sessionAggs e a
   \<or> activeSessions (sweepRow row e) a = None \<and> sessionAggs (sweepRow row e) a = None"
  by (simp add: sweepRow_def Let_def forgetDestState_def dropSession_def)

lemma sweepRow_einv: "einv e \<Longrightarrow> einv (sweepRow row e) \<and> settles e (sweepRow row e)"
proof -
  assume e: "einv e"
  have s: "activeSessions (sweepRow row e) a = activeSessions e a \<or> activeSessions (sweepRow row e) a = None" for a
    using sweepRow_sessions [of row e a] by auto
  have "aggInv (sessionAggs (sweepRow row e)) (activeSessions (sweepRow row e))"
    unfolding aggInv_def
  proof (intro allI impI)
    fix a g assume g: "sessionAggs (sweepRow row e) a = Some g"
    then have "sessionAggs e a = Some g" "activeSessions (sweepRow row e) a = activeSessions e a"
      using sweepRow_sessions [of row e a] by auto
    then show "map_option fs_id (activeSessions (sweepRow row e) a) = Some (ag_sessionId g)"
      using e by (simp add: einv_def aggInv_def)
  qed
  moreover have "heldInv (activeSessions (sweepRow row e)) (db e)"
    using e s heldInv_shrink unfolding einv_def by blast
  moreover have "posInv (db e) (recorder (sweepRow row e))"
    using e by (simp add: einv_def posInv_def sweepRow_frame)
  ultimately have "einv (sweepRow row e)" using e by (simp add: einv_def sweepRow_frame)
  then show ?thesis using s by (simp add: settles_def sweepRow_frame closesOnly_refl)
qed

lemma sweepRows_einv: "einv e \<Longrightarrow> einv (fold sweepRow rows e) \<and> settles e (fold sweepRow rows e)"
proof (induction rows arbitrary: e)
  case Nil
  then show ?case by simp
next
  case (Cons x xs)
  then show ?case using sweepRow_einv [OF Cons.prems, of x] settles_trans by fastforce
qed

lemma sweepQuery_einv: "einv e \<Longrightarrow> einv (sweepQuery res e) \<and> settles e (sweepQuery res e)"
proof -
  assume e: "einv e"
  let ?cut = "clock e - STALE_SESSION_AFTER_MS"
  let ?g = "\<lambda>r. if isStale ?cut (db e) r then r\<lparr>fs_ended_at := Some (lastMs (db e) r)\<rparr> else r"
  let ?d = "rewriteRows ?g (db e)"
  have k: "keepsKeys ?g" by (simp add: keepsKeys_def)
  have o: "isOpen (?g r) \<Longrightarrow> isOpen r" for r by (simp add: isOpen_def split: if_splits)
  have d: "dbInv (clock e) ?d"
    using e by (intro dbInv_rewrite [OF _ k o]) (auto simp: einv_def fits_def timesOk_def lastMs_def)
  have c: "closesOnly (db e) ?d" by (rule closesOnly_rewrite [OF k o])
  have "einv (e\<lparr>db := ?d\<rparr>)"
    using e d closesOnly_held [OF c] posInv_keys [of "db e" "recorder e" ?d "recorder e"] k
    by (simp add: einv_def) (simp add: rewriteRows_def)
  then show ?thesis using e c expireStale_rewrite [of ?cut "db e"]
    by (cases "expireStaleFlightSessions ?cut (db e)")
       (auto simp: sweepQuery_def Let_def einv_def settles_def closesOnly_refl)
qed

lemma recorderFlushEnds_einv:
  "einv e \<Longrightarrow> einv (recorderFlushEnds res e) \<and> settles e (recorderFlushEnds res e)"
proof -
  assume e: "einv e"
  obtain rc d where f: "flushEnd res (recorder e) (db e) = (rc, d)" by (cases "flushEnd res (recorder e) (db e)")
  note p = flushEnd_points [OF f]
  have r: "rowKeys d = rowKeys (db e)" and oi: "openIds d = openIds (db e)" and ko: "keysOk d = keysOk (db e)"
    using p(1,2) by (simp_all add: rowKeys_def openIds_def keysOk_def usedIds_def fun_eq_iff)
  have c: "closesOnly (db e) d" using p(3) by (simp add: closesOnly_def r oi ko)
  have "dbInv (clock e) d" using e closesOnly_single [OF c] p(1) ko by (simp add: einv_def dbInv_def rowsFit_def)
  then show ?thesis using e c closesOnly_held [OF c] posInv_keys [OF _ _ p(4)] r
    by (simp add: recorderFlushEnds_def f einv_def settles_def)
qed

lemma interfere_einv: "einv e \<Longrightarrow> einv (interfere i e) \<and> settles e (interfere i e)"
proof (cases i)
  case (ClockAdvances n)
  assume "einv e"
  then show ?thesis using ClockAdvances by (force simp: einv_def dbInv_def timesOk_def settles_def closesOnly_refl)
next
  case (SweepQuery res)
  assume "einv e"
  then show ?thesis using SweepQuery sweepQuery_einv by simp
next
  case SweepApply
  assume e: "einv e"
  show ?thesis
  proof (cases "sweeps e")
    case Nil
    then show ?thesis using e SweepApply by (simp add: sweepApply_def)
  next
    case (Cons rows rest)
    have "einv (e\<lparr>sweeps := rest\<rparr>)" "settles e (e\<lparr>sweeps := rest\<rparr>)"
      using e by (simp_all add: einv_def settles_def closesOnly_refl)
    then show ?thesis using Cons SweepApply sweepRows_einv settles_trans by (fastforce simp: sweepApply_def)
  qed
next
  case RecorderTick
  assume "einv e"
  then show ?thesis using RecorderTick by (simp add: einv_def posInv_def settles_def closesOnly_refl)
next
  case (RecorderFlushEnds res)
  assume "einv e"
  then show ?thesis using RecorderFlushEnds recorderFlushEnds_einv by simp
qed

lemma interferences_einv: "einv e \<Longrightarrow> einv (fold interfere js e) \<and> settles e (fold interfere js e)"
proof (induction js arbitrary: e)
  case Nil
  then show ?case by simp
next
  case (Cons x xs)
  then show ?case using interfere_einv [OF Cons.prems, of x] settles_trans by fastforce
qed

subsection \<open>Rules for calls\<close>

definition stable :: "(Engine \<Rightarrow> bool) \<Rightarrow> bool" where
  "stable P \<longleftrightarrow> (\<forall>e e'. P e \<and> settles e e' \<longrightarrow> P e')"

definition unheld :: "string \<Rightarrow> Engine \<Rightarrow> bool" where
  "unheld icao e \<longleftrightarrow> activeSessions e icao = None"

text \<open>\<open>vacant\<close>: the aircraft holds no session and has none open. \<open>bound\<close>: the only open row it may have is
  that of \<open>s\<close>, and so is the session it may hold.\<close>

definition vacant :: "string \<Rightarrow> Engine \<Rightarrow> bool" where
  "vacant icao e \<longleftrightarrow> unheld icao e \<and> openIds (db e) icao = {}"

definition bound :: "string \<Rightarrow> FlightSession \<Rightarrow> Engine \<Rightarrow> bool" where
  "bound icao s e \<longleftrightarrow> knownIn (db e) icao s \<and> openIds (db e) icao \<subseteq> {fs_id s}
     \<and> (\<forall>s'. activeSessions e icao = Some s' \<longrightarrow> fs_id s' = fs_id s)"

definition localInv :: "string \<Rightarrow> FlightSession option \<Rightarrow> Engine \<Rightarrow> bool" where
  "localInv icao so e = (case so of None \<Rightarrow> vacant icao e | Some s \<Rightarrow> bound icao s e)"

lemma localInv_simps [simp]:
  "localInv icao None e = vacant icao e" "localInv icao (Some s) e = bound icao s e"
  by (simp_all add: localInv_def)

lemma stable_True [simp, intro]: "stable (\<lambda>_. P)" by (simp add: stable_def)

lemma stable_conj [intro]: "stable P \<Longrightarrow> stable Q \<Longrightarrow> stable (\<lambda>e. P e \<and> Q e)"
  unfolding stable_def by blast

lemma stable_unheld [intro]: "stable (unheld icao)"
  unfolding stable_def unheld_def settles_def by (metis option.distinct(1))

lemma stable_vacant [intro]: "stable (vacant icao)"
  unfolding stable_def vacant_def unheld_def settles_def closesOnly_def by (metis subset_empty)

lemma stable_bound [intro]: "stable (bound icao s)"
  unfolding stable_def
proof (intro allI impI, elim conjE)
  fix e e' assume b: "bound icao s e" and t: "settles e e'"
  have a: "activeSessions e' icao = activeSessions e icao \<or> activeSessions e' icao = None"
    and k: "rowKeys (db e') = rowKeys (db e)" and o: "openIds (db e') icao \<subseteq> openIds (db e) icao"
    using t by (auto simp: settles_def closesOnly_def)
  have "openIds (db e') icao \<subseteq> {fs_id s}" by (rule order_trans [OF o]) (use b in \<open>unfold bound_def, blast\<close>)
  moreover have "fs_id s' = fs_id s" if "activeSessions e' icao = Some s'" for s'
  proof -
    have "activeSessions e icao = Some s'" using a that by auto
    then show ?thesis using b unfolding bound_def by blast
  qed
  moreover have "knownIn (db e') icao s" using b unfolding bound_def knownIn_def k by blast
  ultimately show "bound icao s e'" unfolding bound_def by blast
qed

lemma stable_localInv [intro]: "stable (localInv icao so)"
proof -
  have "localInv icao None = vacant icao" "\<And>s. localInv icao (Some s) = bound icao s"
    by (simp_all add: fun_eq_iff)
  then show ?thesis by (cases so) (auto simp: stable_vacant stable_bound)
qed

lemma stableD: "stable P \<Longrightarrow> P e \<Longrightarrow> settles e e' \<Longrightarrow> P e'"
  by (auto simp: stable_def)

text \<open>\<open>R\<close> is what an exception leaves true.\<close>

lemma wp_call_catch:
  assumes e: "einv e" "P e" and st: "stable P" "\<And>x. stable (Q x)" "stable R"
    and step: "\<And>e1 x e2. einv e1 \<Longrightarrow> P e1 \<Longrightarrow> f e1 = (x, e2) \<Longrightarrow> einv e2 \<and> Q x e2"
    and R: "\<And>e. P e \<Longrightarrow> R e" "\<And>x e. Q x e \<Longrightarrow> R e"
  shows "wp (call f) (\<lambda>x e. einv e \<and> Q x e) (\<lambda>e. einv e \<and> R e) e"
proof (cases "environment e")
  case Nil
  obtain x e2 where f: "f e = (x, e2)" by (cases "f e")
  show ?thesis using step [OF e f] Nil f by (simp add: wp_def call_def)
next
  case (Cons c rest)
  obtain before res after where c: "c = (before, res, after)" by (cases c)
  define e1 where "e1 = fold interfere before (e\<lparr>environment := rest\<rparr>)"
  have e0: "einv (e\<lparr>environment := rest\<rparr>)" using e(1) by simp
  have p0: "P (e\<lparr>environment := rest\<rparr>)" by (rule stableD [OF st(1) e(2) settles_env])
  have e1: "einv e1" unfolding e1_def using interferences_einv [OF e0] by simp
  have p1: "P e1" unfolding e1_def by (rule stableD [OF st(1) p0]) (simp add: interferences_einv [OF e0])
  have after: "einv (fold interfere after e')" "S e' \<Longrightarrow> S (fold interfere after e')"
    if "einv e'" "stable S" for e' S
    using interferences_einv [OF that(1), of after] stableD [OF that(2)] by blast+
  show ?thesis
  proof (cases "res = Refused")
    case True
    then show ?thesis
      using Cons c after [OF e1 st(3)] R(1) [OF p1] by (simp add: wp_def call_def e1_def [symmetric])
  next
    case False
    obtain x e2 where f: "f e1 = (x, e2)" by (cases "f e1")
    have e2: "einv e2" "Q x e2" using step [OF e1 p1 f] by simp_all
    then show ?thesis using Cons c False f after [OF e2(1) st(2) [of x]] after [OF e2(1) st(3)] R(2) [OF e2(2)]
      by (simp add: wp_def call_def e1_def [symmetric])
  qed
qed

lemma wp_call:
  assumes e: "einv e" "P e" and st: "stable P" "\<And>x. stable (Q x)"
    and step: "\<And>e1 x e2. einv e1 \<Longrightarrow> P e1 \<Longrightarrow> f e1 = (x, e2) \<Longrightarrow> einv e2 \<and> Q x e2"
  shows "wp (call f) (\<lambda>x e. einv e \<and> Q x e) einv e"
  using wp_call_catch [OF e st stable_True [of True] step] by simp

lemma wp_query:
  assumes e: "einv e" "P e" and st: "stable P" "\<And>x. stable (Q x)"
    and step: "\<And>e1. einv e1 \<Longrightarrow> P e1 \<Longrightarrow> Q (f (db e1)) e1"
  shows "wp (query f) (\<lambda>x e. einv e \<and> Q x e) einv e"
  unfolding query_def by (rule wp_call [OF e st]) (auto intro: step)

lemma wp_query_keep:
  assumes "einv e" "P e" "stable P"
  shows "wp (query f) (\<lambda>x e. einv e \<and> P e) einv e"
  by (rule wp_query [OF assms assms(3)])

lemma wp_exec:
  assumes e: "einv e" "P e" and st: "stable P" "stable Q"
    and step: "\<And>e1. einv e1 \<Longrightarrow> P e1 \<Longrightarrow> einv (e1\<lparr>db := f (db e1)\<rparr>) \<and> Q (e1\<lparr>db := f (db e1)\<rparr>)"
  shows "wp (exec f) (\<lambda>_ e. einv e \<and> Q e) einv e"
  unfolding exec_def statement_def by (rule wp_call [OF e st]) (auto dest: step)

lemma wp_publish:
  assumes "einv e" "P e" "stable P"
  shows "wp (publish p) (\<lambda>_ e. einv e \<and> P e) einv e"
  unfolding publish_def
proof (rule wp_call [OF assms assms(3)])
  fix e1 x e2 assume h: "einv e1" "P e1" "((), e1\<lparr>published := published e1 @ [p]\<rparr>) = (x, e2)"
  then have "settles e1 e2" by (auto simp: settles_def closesOnly_refl)
  then show "einv e2 \<and> P e2" using h assms(3) by (auto simp: einv_def stable_def)
qed

text \<open>A change of memory that keeps every part of the invariant that matters to others.\<close>

lemma keep_local:
  assumes "einv e" "P e" "stable P" "settles e e'"
    and "sessionAggs e' = sessionAggs e" "activeSessions e' = activeSessions e"
      "pendingPoints (recorder e') = pendingPoints (recorder e)" "db e' = db e" "clock e' = clock e"
  shows "einv e' \<and> P e'"
  using assms by (auto simp: einv_def posInv_def stable_def)

subsection \<open>Statements on one row\<close>

lemma sameRow:
  assumes "keysOk d" "r \<in> set (flight_sessions d)" "knownIn d icao s" "fs_id r = fs_id s"
  shows "fs_aircraft_icao r = icao" "fs_started_at r = fs_started_at s"
proof -
  obtain r' where r': "r' \<in> set (flight_sessions d)" "fs_id r' = fs_id s" "fs_aircraft_icao r' = icao"
    "fs_started_at r' = fs_started_at s"
    using assms(3) by (auto simp: knownIn_def rowKeys_def)
  have "r = r'" using assms(1,2,4) r'(1,2) by (auto simp: keysOk_def distinct_map inj_on_def)
  then show "fs_aircraft_icao r = icao" "fs_started_at r = fs_started_at s" using r' by simp_all
qed

text \<open>An update of one row: sessions stay known, and none is opened.\<close>

lemma update_einv:
  fixes e e' :: Engine
  assumes e: "einv e" and k: "keepsKeys f" and o: "\<And>r. isOpen (f r) \<Longrightarrow> isOpen r"
    and ft: "\<And>r. fits r \<Longrightarrow> fits (f r)"
    and tm: "\<And>r. r \<in> set (flight_sessions (db e)) \<Longrightarrow> fs_id r = i \<Longrightarrow> timesOk (clock e) r \<Longrightarrow> timesOk (clock e) (f r)"
  defines "e' \<equiv> e\<lparr>db := updateFlightSession i f (db e)\<rparr>"
  shows "einv e' \<and> settles e e'"
proof -
  let ?g = "\<lambda>r. if fs_id r = i then f r else r"
  have g: "keepsKeys ?g" by (rule keepsKeys_if [OF k])
  have og: "isOpen (?g r) \<Longrightarrow> isOpen r" for r using o by (simp split: if_splits)
  have d: "dbInv (clock e) (rewriteRows ?g (db e))"
    using e ft tm by (intro dbInv_rewrite [OF _ g og]) (auto simp: einv_def)
  have c: "closesOnly (db e) (rewriteRows ?g (db e))" by (rule closesOnly_rewrite [OF g og])
  have p: "posInv (rewriteRows ?g (db e)) (recorder e)"
    using e posInv_keys [of "db e" "recorder e" "rewriteRows ?g (db e)" "recorder e"] g
    by (simp add: einv_def) (simp add: rewriteRows_def)
  show ?thesis using e d c p closesOnly_held [OF c]
    by (simp add: e'_def updateFlightSession_rewrite einv_def settles_def)
qed

lemma expire_einv:
  fixes e e' :: Engine and t :: millis
  assumes e: "einv e" and b: "bound icao s e"
  defines "e' \<equiv> e\<lparr>db := expireSession s t (db e)\<rparr>"
  shows "einv e' \<and> settles e e' \<and> openIds (db e') icao = {}"
proof -
  have ko: "keysOk (db e)" and kn: "knownIn (db e) icao s" using e b by (simp_all add: einv_def dbInv_def bound_def)
  have "einv e' \<and> settles e e'"
    unfolding e'_def expireSession_def
    by (rule update_einv [OF e])
       (use sameRow(2) [OF ko _ kn] in \<open>auto simp: keepsKeys_def isOpen_def fits_def timesOk_def\<close>)
  moreover have "openIds (db e') icao = {}"
    using b by (auto simp: e'_def expireSession_finish openIds_finish bound_def)
  ultimately show ?thesis by blast
qed

lemma create_einv:
  fixes e e' :: Engine
  assumes e: "einv e" and v: "vacant icao e" and f: "fitsCode oi" "fitsName on"
    and c: "createFlightSession (clock e) icao cs oi on p (db e) = (s, d)"
  defines "e' \<equiv> e\<lparr>db := d\<rparr>"
  shows "einv e' \<and> bound icao s e' \<and> unheld icao e' \<and> fs_id s \<notin> usedIds (db e)"
proof -
  have inv: "keysOk (db e)" "sessionTable.single (db e)" "rowsFit (db e)"
    "\<And>r. r \<in> set (flight_sessions (db e)) \<Longrightarrow> timesOk (clock e) r"
    using e by (auto simp: einv_def dbInv_def)
  have row: "createRow icao (clock e, cs, oi, on, p) (db e) = (fs_id s, d)" by (simp add: createRow_def c)
  note law = createRow_law [OF inv(1) row]
  have s: "fs_aircraft_icao s = icao" "fs_started_at s = clock e" "fs_ended_at s = None"
    and d: "flight_sessions d = flight_sessions (db e) @ [s]" "session_positions d = session_positions (db e)"
    using c by (auto simp: createFlightSession_def Let_def)
  have keys: "rowKeys d = insert (fs_id s, icao, fs_started_at s) (rowKeys (db e))"
    using s by (simp add: rowKeys_def d)
  have one: "sessionTable.single d" "openIds d icao = {fs_id s}"
    using sessionTable.create_single [OF inv(1,2) _ row] v by (simp_all add: vacant_def)
  have "fits s" by (rule createFlightSession_fits [OF c f])
  then have "dbInv (clock e) d"
    using inv law one s d by (auto simp: dbInv_def rowsFit_def timesOk_def)
  moreover have "heldInv (activeSessions e) d"
    unfolding heldInv_def
  proof (intro allI impI)
    fix a s' assume a: "activeSessions e a = Some s'"
    then have "a \<noteq> icao" using v by (auto simp: vacant_def unheld_def)
    moreover have "knownIn (db e) a s'" "openIds (db e) a \<subseteq> {fs_id s'}"
      using e a by (auto simp: einv_def heldInv_def)
    ultimately show "knownIn d a s' \<and> openIds d a \<subseteq> {fs_id s'}"
      using law keys by (auto simp: knownIn_def)
  qed
  moreover have "posInv d (recorder e)"
    using e posInv_keys [of "db e" "recorder e" d "recorder e"] keys d(2) by (auto simp: einv_def)
  ultimately have "einv e'" using e by (simp add: einv_def e'_def)
  moreover have "bound icao s e'" using v one keys s by (auto simp: bound_def knownIn_def e'_def vacant_def unheld_def)
  ultimately show ?thesis using v law by (simp add: e'_def vacant_def unheld_def)
qed

subsection \<open>Handlers keep the invariant\<close>

lemma wp_bind:
  assumes "wp m (\<lambda>x e. einv e \<and> P x e) E e" "\<And>x e. einv e \<Longrightarrow> P x e \<Longrightarrow> wp (k x) Q E e"
  shows "wp (andThen m k) Q E e"
  unfolding wp_andThen by (rule wp_mono [OF assms(1)]) (auto intro: assms(2))

lemma wp_weaken:
  assumes "wp m (\<lambda>x e. einv e \<and> P x e) E e" "\<And>x e. einv e \<Longrightarrow> P x e \<Longrightarrow> Q x e"
  shows "wp m Q E e"
  by (rule wp_mono [OF assms(1)]) (auto intro: assms(2))

lemma forget_keep:
  assumes "einv e" "P e" "stable P"
  shows "einv (forgetDestState i e) \<and> P (forgetDestState i e)"
  by (rule keep_local [OF assms])
     (simp_all add: settles_def closesOnly_refl forgetDestState_def)

text \<open>Holding a session that the aircraft is bound to.\<close>

lemma hold_einv:
  assumes e: "einv e" and b: "bound icao s e"
    and act: "activeSessions e' = (activeSessions e)(icao \<mapsto> s')" "fs_id s' = fs_id s"
      "fs_aircraft_icao s' = fs_aircraft_icao s" "fs_started_at s' = fs_started_at s"
    and agg: "sessionAggs e' = sessionAggs e
      \<or> (\<exists>g. sessionAggs e' = (sessionAggs e)(icao \<mapsto> g) \<and> ag_sessionId g = fs_id s)"
    and rest: "db e' = db e" "clock e' = clock e" "pendingPoints (recorder e') = pendingPoints (recorder e)"
  shows "einv e' \<and> bound icao s e'"
proof -
  have kn: "knownIn (db e) icao s" "openIds (db e) icao \<subseteq> {fs_id s}"
    and old: "\<And>x. activeSessions e icao = Some x \<Longrightarrow> fs_id x = fs_id s"
    using b unfolding bound_def by blast+
  have kn': "knownIn (db e) icao s'" using kn(1) act by (simp add: knownIn_def)
  have "heldInv (activeSessions e') (db e)"
    using e kn kn' act unfolding einv_def heldInv_def by simp
  moreover have "aggInv (sessionAggs e') (activeSessions e')"
    unfolding aggInv_def
  proof (intro allI impI)
    fix a g assume g: "sessionAggs e' a = Some g"
    have ai: "\<And>a g. sessionAggs e a = Some g \<Longrightarrow> map_option fs_id (activeSessions e a) = Some (ag_sessionId g)"
      using e unfolding einv_def aggInv_def by blast
    show "map_option fs_id (activeSessions e' a) = Some (ag_sessionId g)"
    proof (cases "a = icao")
      case False
      then show ?thesis using g agg ai act by auto
    next
      case True
      show ?thesis
      proof (cases "sessionAggs e' = sessionAggs e")
        case True
        then have "map_option fs_id (activeSessions e icao) = Some (ag_sessionId g)"
          using g ai \<open>a = icao\<close> by simp
        then have "ag_sessionId g = fs_id s" using old by auto
        then show ?thesis using act \<open>a = icao\<close> by simp
      next
        case False
        then show ?thesis using g agg act \<open>a = icao\<close> by auto
      qed
    qed
  qed
  ultimately have "einv e'" using e rest by (simp add: einv_def posInv_def)
  moreover have "bound icao s e'" using kn act rest by (simp add: bound_def)
  ultimately show ?thesis by blast
qed

lemma record_keep:
  assumes "einv e" "bound icao s e" "normaliseIcao (tr_icao r) = icao"
  shows "einv (recordPoint (fs_id s) p r f e)" and "settles e (recordPoint (fs_id s) p r f e)"
proof -
  have "\<exists>t. (fs_id s, icao, t) \<in> rowKeys (db e)" using assms(2) unfolding bound_def knownIn_def by blast
  moreover have "sp_flight_id x = fs_id s \<and> sp_aircraft_icao x = icao"
    if "sampleOf (clock e) (fs_id s) p r f (recorder e) = Some x" for x
    using that assms(3) by (auto simp: sampleOf_def Let_def split: option.splits if_splits)
  ultimately have "posInv (db e) (recordPosition (clock e) (fs_id s) p r f (recorder e))"
    using assms(1) recordPosition_pending [of "clock e" "fs_id s" p r f "recorder e"]
    unfolding einv_def posInv_def by (auto simp: ownedPoint_def split: option.splits)
  then show "einv (recordPoint (fs_id s) p r f e)" using assms(1) by (simp add: einv_def recordPoint_def)
  show "settles e (recordPoint (fs_id s) p r f e)" by (simp add: settles_def recordPoint_def closesOnly_refl)
qed

lemma activeQuery_spec:
  assumes "einv e" "unheld icao e"
  shows "wp (query (getActiveSession icao)) (\<lambda>so e. einv e \<and> (localInv icao so e \<and> unheld icao e)) einv e"
proof (rule wp_query [where P = "unheld icao"])
  fix e1 assume h: "einv e1" "unheld icao e1"
  show "localInv icao (getActiveSession icao (db e1)) e1 \<and> unheld icao e1"
  proof (cases "getActiveSession icao (db e1)")
    case None
    then have "openIds (db e1) icao = {}" by (simp only: getActiveSession_None)
    then show ?thesis using h None by (simp add: vacant_def)
  next
    case (Some s)
    note g = getActiveSession_open [OF Some]
    have "\<exists>i. openIds (db e1) icao \<subseteq> {i}" using h(1) by (simp add: einv_def dbInv_def single_open_def)
    then have "openIds (db e1) icao \<subseteq> {fs_id s}" using g(4) by auto
    then show ?thesis using Some g h(2) by (auto simp: bound_def knownIn_def rowKeys_def unheld_def)
  qed
qed (use assms in auto)

lemma adoptDbSession_spec:
  assumes e: "einv e" "unheld icao e"
  shows "wp (adoptDbSession icao r t m) (\<lambda>so e. einv e \<and> localInv icao so e) einv e"
  unfolding adoptDbSession_def
proof (rule wp_bind)
  show "wp (query (getActiveSession icao)) (\<lambda>so e. einv e \<and> localInv icao so e \<and> unheld icao e) einv e"
    by (rule activeQuery_spec [OF e])
next
  fix so e1 assume h: "einv e1" "localInv icao so e1 \<and> unheld icao e1"
  show "wp (case so of None \<Rightarrow> ret None
     | Some s \<Rightarrow>
         andThen (query (getSessionLastPositionTs (fs_id s))) (\<lambda>stored.
         let lastMs = (case stored of Some t \<Rightarrow> t | None \<Rightarrow> fs_started_at s) in
         if t - lastMs > m
         then andThen (modify (forgetDestState (fs_id s))) (\<lambda>_.
              andThen (exec (expireSession s lastMs)) (\<lambda>_. ret None))
         else andThen (modify (adopt icao s r)) (\<lambda>_. ret (Some s))))
     (\<lambda>so e. einv e \<and> localInv icao so e) einv e1"
  proof (cases so)
    case None
    then show ?thesis using h by (simp add: wp_ret)
  next
    case (Some s)
    have st: "stable (\<lambda>e. bound icao s e \<and> unheld icao e)" by (intro stable_conj stable_bound stable_unheld)
    have "wp (andThen (query (getSessionLastPositionTs (fs_id s))) (\<lambda>stored.
         let lastMs = (case stored of Some t \<Rightarrow> t | None \<Rightarrow> fs_started_at s) in
         if t - lastMs > m
         then andThen (modify (forgetDestState (fs_id s))) (\<lambda>_.
              andThen (exec (expireSession s lastMs)) (\<lambda>_. ret None))
         else andThen (modify (adopt icao s r)) (\<lambda>_. ret (Some s))))
        (\<lambda>so e. einv e \<and> localInv icao so e) einv e1"
    proof (rule wp_bind [OF wp_query_keep [where P = "\<lambda>e. bound icao s e \<and> unheld icao e", OF h(1) _ st]])
      show "bound icao s e1 \<and> unheld icao e1" using h(2) Some by simp
    next
      fix x e2 assume h2: "einv e2" "bound icao s e2 \<and> unheld icao e2"
      define l where "l = (case x of Some t \<Rightarrow> t | None \<Rightarrow> fs_started_at s)"
      have f: "einv (forgetDestState (fs_id s) e2)"
        "bound icao s (forgetDestState (fs_id s) e2) \<and> unheld icao (forgetDestState (fs_id s) e2)"
        using forget_keep [OF h2 st] by simp_all
      have ex: "wp (exec (expireSession s l)) (\<lambda>_ e. einv e \<and> vacant icao e) einv (forgetDestState (fs_id s) e2)"
      proof (rule wp_exec [OF f st stable_vacant])
        fix e3 assume h3: "einv e3" "bound icao s e3 \<and> unheld icao e3"
        show "einv (e3\<lparr>db := expireSession s l (db e3)\<rparr>) \<and> vacant icao (e3\<lparr>db := expireSession s l (db e3)\<rparr>)"
          using expire_einv [OF h3(1), of icao s l] h3(2) by (auto simp: vacant_def unheld_def)
      qed
      have ad: "einv (adopt icao s r e2) \<and> bound icao s (adopt icao s r e2)"
        by (rule hold_einv [OF h2(1), where s' = s])
           (use h2 in \<open>auto simp: adopt_def activate_def initSessionAgg_def\<close>)
      show "wp (let lastMs = (case x of Some t \<Rightarrow> t | None \<Rightarrow> fs_started_at s) in
         if t - lastMs > m
         then andThen (modify (forgetDestState (fs_id s))) (\<lambda>_.
              andThen (exec (expireSession s lastMs)) (\<lambda>_. ret None))
         else andThen (modify (adopt icao s r)) (\<lambda>_. ret (Some s)))
        (\<lambda>so e. einv e \<and> localInv icao so e) einv e2"
        unfolding Let_def l_def [symmetric] using ad wp_mono [OF ex]
        by (auto simp: wp_simps)
    qed
    then show ?thesis using Some by simp
  qed
qed

lemma release_vacant:
  assumes e: "einv e" "bound icao s e" "openIds (db e) icao = {}"
  shows "einv (releaseSession icao (fs_id s) e) \<and> vacant icao (releaseSession icao (fs_id s) e)"
proof -
  let ?e = "releaseSession icao (fs_id s) e"
  have old: "\<And>x. activeSessions e icao = Some x \<Longrightarrow> fs_id x = fs_id s"
    using e(2) unfolding bound_def by blast
  have act: "activeSessions ?e = (activeSessions e)(icao := None)"
    using old by (cases "activeSessions e icao")
      (auto simp: releaseSession_def Let_def holdsSession_def forgetDestState_def dropSession_def fun_eq_iff)
  have agg: "sessionAggs ?e = (if activeSessions e icao = None then sessionAggs e
      else (sessionAggs e)(icao := None))"
    using old by (cases "activeSessions e icao")
      (auto simp: releaseSession_def Let_def holdsSession_def forgetDestState_def dropSession_def)
  have rest: "db ?e = db e" "clock ?e = clock e" "pendingPoints (recorder ?e) = pendingPoints (recorder e)"
    by (simp_all add: releaseSession_def Let_def forgetDestState_def dropSession_def)
  have "aggInv (sessionAggs ?e) (activeSessions ?e)"
    unfolding aggInv_def
  proof (intro allI impI)
    fix a g assume g: "sessionAggs ?e a = Some g"
    then have "sessionAggs e a = Some g" "a = icao \<longrightarrow> activeSessions e icao = None"
      by (auto simp: agg split: if_splits)
    then have "map_option fs_id (activeSessions e a) = Some (ag_sessionId g)" "a \<noteq> icao"
      using e(1) unfolding einv_def aggInv_def by (blast, force)
    then show "map_option fs_id (activeSessions ?e a) = Some (ag_sessionId g)" by (simp add: act)
  qed
  moreover have "heldInv (activeSessions ?e) (db e)"
    using e(1) heldInv_shrink [of "activeSessions e" "db e" "activeSessions ?e"] act unfolding einv_def by simp
  ultimately have "einv ?e" using e(1) rest by (simp add: einv_def posInv_def)
  then show ?thesis using e(3) act rest by (simp add: vacant_def unheld_def)
qed

lemma retireSession_spec:
  assumes e: "einv e" "bound icao s e"
  shows "wp (retireSession icao s la) (\<lambda>_ e. einv e \<and> vacant icao e) einv e"
  unfolding retireSession_def
proof (rule wp_bind [where P = "\<lambda>_. bound icao s"])
  show "wp (case la of Some t \<Rightarrow> ret (Some t) | None \<Rightarrow> query (getSessionLastPositionTs (fs_id s)))
      (\<lambda>_ e. einv e \<and> bound icao s e) einv e"
    using e wp_query_keep [OF e stable_bound] by (cases la) (simp_all add: wp_ret)
next
  fix x e1 assume h: "einv e1" "bound icao s e1"
  define l where "l = (case x of Some t \<Rightarrow> t | None \<Rightarrow> fs_started_at s)"
  have "stable (\<lambda>e. openIds (db e) icao = {})"
    unfolding stable_def settles_def closesOnly_def by (metis subset_empty)
  then have st: "stable (\<lambda>e. bound icao s e \<and> openIds (db e) icao = {})" by (intro stable_conj stable_bound)
  have ex: "wp (exec (expireSession s l)) (\<lambda>_ e. einv e \<and> (bound icao s e \<and> openIds (db e) icao = {})) einv e1"
  proof (rule wp_exec [OF h stable_bound st])
    fix e2 assume h2: "einv e2" "bound icao s e2"
    let ?e = "e2\<lparr>db := expireSession s l (db e2)\<rparr>"
    have "einv ?e \<and> settles e2 ?e \<and> openIds (db ?e) icao = {}" by (rule expire_einv [OF h2])
    then show "einv ?e \<and> (bound icao s ?e \<and> openIds (db ?e) icao = {})"
      using stableD [OF stable_bound h2(2)] by blast
  qed
  show "wp (let lastMs = (case x of Some t \<Rightarrow> t | None \<Rightarrow> fs_started_at s) in
     andThen (exec (expireSession s lastMs)) (\<lambda>_. modify (releaseSession icao (fs_id s))))
     (\<lambda>_ e. einv e \<and> vacant icao e) einv e1"
    unfolding Let_def l_def [symmetric]
    by (rule wp_bind [OF ex]) (use release_vacant in \<open>auto simp: wp_modify\<close>)
qed

lemma held_bound:
  assumes "einv e" "activeSessions e icao = Some s"
  shows "bound icao s e"
  using assms unfolding einv_def heldInv_def bound_def by auto

lemma retireLingering_spec:
  assumes e: "einv e"
  shows "wp (retireLingering icao) (\<lambda>_ e. einv e \<and> vacant icao e) einv e"
  unfolding retireLingering_def
proof (rule wp_bind [where P = "\<lambda>so e. activeSessions e icao = so"])
  show "wp (gets (\<lambda>e. activeSessions e icao)) (\<lambda>so e. einv e \<and> activeSessions e icao = so) einv e"
    using e by (simp add: wp_gets)
next
  fix so e1 assume h: "einv e1" "activeSessions e1 icao = so"
  show "wp (andThen (case so of Some s \<Rightarrow> ret (Some s) | None \<Rightarrow> query (getActiveSession icao)) (\<lambda>session.
     case session of None \<Rightarrow> ret ()
     | Some s \<Rightarrow> andThen (gets (\<lambda>e. lastFrameTsByIcao e icao)) (\<lambda>t. retireSession icao s t)))
     (\<lambda>_ e. einv e \<and> vacant icao e) einv e1"
  proof (rule wp_bind [where P = "localInv icao"])
    show "wp (case so of Some s \<Rightarrow> ret (Some s) | None \<Rightarrow> query (getActiveSession icao))
        (\<lambda>x e. einv e \<and> localInv icao x e) einv e1"
    proof (cases so)
      case None
      have "wp (query (getActiveSession icao)) (\<lambda>x e. einv e \<and> localInv icao x e) einv e1"
        by (rule wp_weaken [OF activeQuery_spec [OF h(1)]]) (use h(2) None in \<open>auto simp: unheld_def\<close>)
      then show ?thesis using None by simp
    next
      case (Some s)
      then show ?thesis using h held_bound [OF h(1), of icao s] by (simp add: wp_ret)
    qed
  next
    fix x e2 assume h2: "einv e2" "localInv icao x e2"
    show "wp (case x of None \<Rightarrow> ret ()
     | Some s \<Rightarrow> andThen (gets (\<lambda>e. lastFrameTsByIcao e icao)) (\<lambda>t. retireSession icao s t))
     (\<lambda>_ e. einv e \<and> vacant icao e) einv e2"
      using h2 retireSession_spec [of e2 icao] by (cases x) (simp_all add: wp_simps)
  qed
qed

text \<open>\<open>U\<close> is a set of identifiers in use before; a created session is not among them.\<close>

definition usedBefore :: "nat set \<Rightarrow> Engine \<Rightarrow> bool" where
  "usedBefore U e \<longleftrightarrow> U \<subseteq> usedIds (db e)"

lemma usedIds_keys: "usedIds d = fst ` rowKeys d"
  by (simp add: usedIds_def rowKeys_def image_image)

lemma stable_usedBefore [intro]: "stable (usedBefore U)"
  by (simp add: stable_def usedBefore_def settles_def closesOnly_def usedIds_keys)

lemma stable_vacantU: "stable (\<lambda>e. vacant icao e \<and> usedBefore U e)"
  by (intro stable_conj stable_vacant stable_usedBefore)

lemma create_spec:
  assumes e: "einv e" "vacant icao e \<and> usedBefore U e"
    and f: "\<And>now d. \<exists>cs oi on p. f now d = createFlightSession now icao cs oi on p d \<and> fitsCode oi \<and> fitsName on"
  shows "wp (andThen (statement f) (\<lambda>s. andThen (modify (hold icao s t r)) (\<lambda>_. ret s)))
    (\<lambda>s e. einv e \<and> (bound icao s e \<and> fs_id s \<notin> U)) einv e"
proof (rule wp_bind [where P = "\<lambda>s e. bound icao s e \<and> fs_id s \<notin> U"])
  have st: "stable (\<lambda>e. bound icao s e \<and> fs_id s \<notin> U)" for s by (intro stable_conj stable_bound stable_True)
  show "wp (statement f) (\<lambda>s e. einv e \<and> (bound icao s e \<and> fs_id s \<notin> U)) einv e"
    unfolding statement_def
  proof (rule wp_call [OF e stable_vacantU st])
    fix e1 s e2
    assume h: "einv e1" "vacant icao e1 \<and> usedBefore U e1"
      "(case f (clock e1) (db e1) of (x, d) \<Rightarrow> (x, e1\<lparr>db := d\<rparr>)) = (s, e2)"
    obtain cs oi on p where c: "f (clock e1) (db e1) = createFlightSession (clock e1) icao cs oi on p (db e1)"
      "fitsCode oi" "fitsName on" using f by blast
    obtain d where d: "createFlightSession (clock e1) icao cs oi on p (db e1) = (s, d)" "e2 = e1\<lparr>db := d\<rparr>"
      using h(3) c(1) by (cases "createFlightSession (clock e1) icao cs oi on p (db e1)") simp
    have "vacant icao e1" using h(2) by simp
    from create_einv [OF h(1) this c(2,3) d(1)] h(2) d(2)
    show "einv e2 \<and> (bound icao s e2 \<and> fs_id s \<notin> U)" by (auto simp: usedBefore_def)
  qed
next
  fix s e1 assume h: "einv e1" "bound icao s e1 \<and> fs_id s \<notin> U"
  have "einv (hold icao s t r e1) \<and> bound icao s (hold icao s t r e1)"
    by (rule hold_einv [OF h(1), where s' = s])
       (use h in \<open>auto simp: hold_def activate_def initSessionAgg_def\<close>)
  then show "wp (andThen (modify (hold icao s t r)) (\<lambda>_. ret s))
      (\<lambda>s e. einv e \<and> (bound icao s e \<and> fs_id s \<notin> U)) einv e1"
    using h by (simp add: wp_simps)
qed

lemma openAirborne_spec:
  assumes "einv e" "vacant icao e \<and> usedBefore U e"
  shows "wp (openAirborne icao r t p) (\<lambda>s e. einv e \<and> (bound icao s e \<and> fs_id s \<notin> U)) einv e"
  unfolding openAirborne_def
proof (rule create_spec [OF assms])
  fix now d
  have "fitsCode None" "fitsName None" by (simp_all add: fitsCode_def fitsName_def)
  then show "\<exists>cs oi on ph. startAirborneSession now icao (callsignFor r icao) p d =
      createFlightSession now icao cs oi on ph d \<and> fitsCode oi \<and> fitsName on"
    unfolding startAirborneSession_def by blast
qed

lemma openFromAirport_spec:
  assumes "einv e" "vacant icao e \<and> usedBefore U e"
  shows "wp (openFromAirport icao r t p) (\<lambda>s e. einv e \<and> (bound icao s e \<and> fs_id s \<notin> U)) einv e"
  unfolding openFromAirport_def wp_andThen [of "gets lookup"] wp_gets
proof (rule create_spec [OF assms])
  fix now d
  define near where "near = findNearest (tr_lat r) (tr_lon r) (Some 10) (lookup e)"
  have "fitsName (case near of Some a \<Rightarrow> airportNameForStorage (ap_name a) | None \<Rightarrow> None)"
    using airportNameForStorage_fits by (cases near) (simp add: fitsName_def, simp)
  then show "\<exists>cs oi on ph. startSession now icao (callsignFor r icao) (lookup e) (tr_lat r) (tr_lon r) p d =
      createFlightSession now icao cs oi on ph d \<and> fitsCode oi \<and> fitsName on"
    unfolding startSession_def Let_def near_def using normaliseAirportIcao_fits by blast
qed

lemma openFor_spec:
  assumes "einv e" "localInv icao so e" "usedBefore U e"
  shows "wp (openFor icao to r t so) (\<lambda>so' e. einv e \<and> (localInv icao so' e
      \<and> (so = None \<and> to = TAKEOFF \<longrightarrow> (\<exists>s. so' = Some s \<and> fs_id s \<notin> U)))) einv e"
proof (cases so)
  case (Some s)
  then show ?thesis using assms by (simp add: openFor_def wp_ret)
next
  case None
  then have v: "vacant icao e \<and> usedBefore U e" using assms by simp
  note a = openAirborne_spec [OF assms(1) v, of r t] and b = openFromAirport_spec [OF assms(1) v, of r t]
  have c: "wp (andThen m (\<lambda>s. ret (Some s))) (\<lambda>so' e. einv e \<and> (localInv icao so' e
      \<and> (\<exists>s. so' = Some s \<and> fs_id s \<notin> U))) einv e"
    if "wp m (\<lambda>s e. einv e \<and> (bound icao s e \<and> fs_id s \<notin> U)) einv e" for m
    by (rule wp_bind [OF that]) (simp add: wp_ret)
  show ?thesis
  proof (cases "to = TAKEOFF")
    case True
    then show ?thesis using None c [OF a] c [OF b] by (simp add: openFor_def)
  next
    case False
    show ?thesis
    proof (cases "to \<in> AIRBORNE_PHASES")
      case True
      show ?thesis using None False True
        by (simp add: openFor_def) (rule wp_mono [OF c [OF a]], auto)
    next
      case F: False
      then show ?thesis using None False v assms(1) by (simp add: openFor_def wp_ret)
    qed
  qed
qed

text \<open>Rows are never deleted and the times of earlier frames are left alone, whatever happens.\<close>

definition onward :: "Engine \<Rightarrow> Engine \<Rightarrow> bool" where
  "onward e e' \<longleftrightarrow> usedIds (db e) \<subseteq> usedIds (db e') \<and> lastFrameTsByIcao e' = lastFrameTsByIcao e"

lemma onward_refl [simp]: "onward e e" by (simp add: onward_def)

lemma onward_trans: "onward a b \<Longrightarrow> onward b c \<Longrightarrow> onward a c"
  unfolding onward_def by auto

definition grows :: "'a handler \<Rightarrow> bool" where
  "grows m \<longleftrightarrow> (\<forall>e. onward e (snd (m e)))"

lemma sweepRow_frames: "lastFrameTsByIcao (sweepRow row e) = lastFrameTsByIcao e"
  by (simp add: sweepRow_def Let_def forgetDestState_def dropSession_def)

lemma interfere_onward: "onward e (interfere i e)"
proof (cases i)
  case (SweepQuery res)
  then show ?thesis using expireStale_open(3) [of "clock e - STALE_SESSION_AFTER_MS" "db e"]
    by (cases "expireStaleFlightSessions (clock e - STALE_SESSION_AFTER_MS) (db e)")
       (simp add: sweepQuery_def Let_def onward_def)
next
  case SweepApply
  have "onward e (fold sweepRow rows e)" for rows e
  proof (induction rows arbitrary: e)
    case (Cons x xs)
    have "onward e (sweepRow x e)" by (simp add: onward_def sweepRow_frame sweepRow_frames)
    from onward_trans [OF this Cons.IH] show ?case by simp
  qed simp
  then have "onward e (fold sweepRow rows (e\<lparr>sweeps := x\<rparr>))" for rows x
    by (rule onward_trans [rotated]) (simp add: onward_def)
  then show ?thesis using SweepApply by (auto simp: sweepApply_def split: list.split)
next
  case (RecorderFlushEnds res)
  obtain rc d where f: "flushEnd res (recorder e) (db e) = (rc, d)" by (cases "flushEnd res (recorder e) (db e)")
  show ?thesis using RecorderFlushEnds flushEnd_points(1) [OF f] f
    by (simp add: recorderFlushEnds_def usedIds_def onward_def)
qed (simp_all add: onward_def)

lemma interferences_onward: "onward e (fold interfere js e)"
proof (induction js arbitrary: e)
  case (Cons j js)
  show ?case using onward_trans [OF interfere_onward Cons.IH] by simp
qed simp

lemma grows_call:
  assumes f: "\<And>e. onward e (snd (f e))"
  shows "grows (call f)"
  unfolding grows_def
proof
  fix e
  show "onward e (snd (call f e))"
  proof (cases "environment e")
    case Nil
    then show ?thesis using f [of e] by (cases "f e") (simp add: call_def)
  next
    case (Cons c rest)
    obtain before res after where c: "c = (before, res, after)" by (cases c)
    let ?e1 = "fold interfere before (e\<lparr>environment := rest\<rparr>)"
    have "onward e (e\<lparr>environment := rest\<rparr>)" by (simp add: onward_def)
    then have e1: "onward e ?e1" using interferences_onward onward_trans by blast
    obtain x e2 where x: "f ?e1 = (x, e2)" by (cases "f ?e1")
    have "onward ?e1 e2" using f [of ?e1] x by simp
    then have "onward e (fold interfere after e2)" "onward e (fold interfere after ?e1)"
      using e1 interferences_onward onward_trans by blast+
    then show ?thesis using Cons c x by (simp add: call_def Let_def)
  qed
qed

lemma grows_andThen: "grows m \<Longrightarrow> (\<And>x. grows (k x)) \<Longrightarrow> grows (andThen m k)"
  unfolding grows_def
proof
  fix e assume m: "\<forall>e. onward e (snd (m e))" and k: "\<And>x. \<forall>e. onward e (snd (k x e))"
  obtain o1 e1 where r: "m e = (o1, e1)" by (cases "m e")
  have "onward e e1" using m r by (metis snd_conv)
  moreover have "onward e1 (snd (k x e1))" for x using k by blast
  ultimately show "onward e (snd (andThen m k e))"
    using r by (cases o1) (auto simp: andThen_def intro: onward_trans)
qed

lemma grows_ret: "grows (ret x)" by (simp add: grows_def ret_def)
lemma grows_gets: "grows (gets f)" by (simp add: grows_def gets_def)
lemma grows_query: "grows (query f)" unfolding query_def by (rule grows_call) simp

lemma grows_modify:
  "(\<And>e. db (f e) = db e \<and> lastFrameTsByIcao (f e) = lastFrameTsByIcao e) \<Longrightarrow> grows (modify f)"
  by (simp add: grows_def modify_def onward_def)

lemma grows_expire: "grows (exec (expireSession s t))"
  unfolding exec_def statement_def
  by (rule grows_call) (simp add: expireSession_def updateFlightSession_keys keepsKeys_def onward_def)

lemmas grows_rules = grows_andThen grows_ret grows_gets grows_query grows_expire

lemma grows_retire: "grows (retireSession icao s la)"
  unfolding retireSession_def Let_def
  by (intro grows_rules grows_modify)
     (auto intro: grows_rules simp: releaseSession_def Let_def forgetDestState_def dropSession_def split: option.split)

lemma grows_adopt: "grows (adoptDbSession icao r t m)"
proof -
  have a: "db (adopt icao s r e) = db e \<and> lastFrameTsByIcao (adopt icao s r e) = lastFrameTsByIcao e"
    "db (forgetDestState i e) = db e \<and> lastFrameTsByIcao (forgetDestState i e) = lastFrameTsByIcao e" for s e i
    by (simp_all add: adopt_def activate_def initSessionAgg_def forgetDestState_def)
  have "grows (if b then andThen (modify (forgetDestState (fs_id s))) (\<lambda>_.
      andThen (exec (expireSession s l)) (\<lambda>_. ret None)) else andThen (modify (adopt icao s r)) (\<lambda>_. ret (Some s)))"
    for b s l by (auto intro!: grows_rules grows_modify a)
  then show ?thesis unfolding adoptDbSession_def Let_def
    by (intro grows_rules) (auto intro!: grows_rules split: option.split)
qed

text \<open>What is true before a handler and only looks at rows in use and earlier frames.\<close>

definition seenBefore :: "nat set \<Rightarrow> (string \<rightharpoonup> millis) \<Rightarrow> Engine \<Rightarrow> bool" where
  "seenBefore U fr e \<longleftrightarrow> usedBefore U e \<and> lastFrameTsByIcao e = fr"

lemma wp_grows:
  assumes "wp m (\<lambda>x e. einv e \<and> P x e) einv e" "grows m" "seenBefore U fr e"
  shows "wp m (\<lambda>x e. einv e \<and> (P x e \<and> seenBefore U fr e)) einv e"
proof -
  obtain o1 e1 where r: "m e = (o1, e1)" by (cases "m e")
  have "onward e e1" using assms(2) r unfolding grows_def by (metis snd_conv)
  then have "seenBefore U fr e1" using assms(3) by (auto simp: seenBefore_def usedBefore_def onward_def)
  then show ?thesis using assms(1) r by (cases o1) (simp_all add: wp_def)
qed

definition afterGap :: "string \<Rightarrow> millis \<Rightarrow> (string \<rightharpoonup> millis) \<Rightarrow> bool" where
  "afterGap icao t fr \<longleftrightarrow> (case fr icao of Some p \<Rightarrow> t - p > NEW_FLIGHT_GAP_MS | None \<Rightarrow> False)"

lemma splitAtGap_spec:
  assumes e: "einv e" "localInv icao so e" "seenBefore U fr e"
  shows "wp (splitAtGap icao to t so) (\<lambda>so' e'. einv e' \<and> ((localInv icao so' e'
    \<and> (to = TAKEOFF \<and> afterGap icao t fr \<longrightarrow> so' = None)) \<and> seenBefore U fr e')) einv e"
proof (cases so)
  case None
  then show ?thesis using e by (simp add: splitAtGap_def wp_ret)
next
  case (Some s)
  have "bound icao s e" using e Some by simp
  note r = wp_grows [OF retireSession_spec [OF e(1) this] grows_retire e(3)]
  have s: "wp (andThen (retireSession icao s la) (\<lambda>_. ret None))
      (\<lambda>so' e'. einv e' \<and> ((localInv icao so' e' \<and> C so') \<and> seenBefore U fr e')) einv e"
    if "C None" for la C
    by (rule wp_bind [OF r]) (use that in \<open>simp add: wp_ret\<close>)
  show ?thesis
  proof (cases "to = TAKEOFF \<and> fr icao \<noteq> None")
    case False
    then show ?thesis using e Some by (auto simp: splitAtGap_def wp_simps afterGap_def seenBefore_def)
  next
    case True
    then obtain p where p: "fr icao = Some p" by auto
    show ?thesis
    proof (cases "t - p > NEW_FLIGHT_GAP_MS")
      case gap: True
      have "splitAtGap icao to t so e = andThen (retireSession icao s (Some p)) (\<lambda>_. ret None) e"
        using Some True p gap e(3)
        by (simp add: splitAtGap_def andThen_def gets_def seenBefore_def)
      then show ?thesis using s [of "\<lambda>so'. to = TAKEOFF \<and> afterGap icao t fr \<longrightarrow> so' = None" "Some p"]
        by (simp add: wp_def)
    next
      case False
      then show ?thesis using e Some True p by (simp add: splitAtGap_def wp_simps afterGap_def seenBefore_def)
    qed
  qed
qed


text \<open>The session of a transition: the aircraft is bound to it, and a take-off after a silence gets one that
  did not exist before, whatever fails.\<close>

lemma sessionFor_spec:
  assumes e: "einv e" "seenBefore U fr e"
  shows "wp (sessionFor icao to r t) (\<lambda>so e. einv e \<and> (localInv icao so e
      \<and> (to = TAKEOFF \<and> afterGap icao t fr \<longrightarrow> (\<exists>s. so = Some s \<and> fs_id s \<notin> U)))) einv e"
  unfolding sessionFor_def
proof (rule wp_bind [where P = "\<lambda>so e. seenBefore U fr e \<and> activeSessions e icao = so"])
  show "wp (gets (\<lambda>e. activeSessions e icao)) (\<lambda>so e. einv e \<and> (seenBefore U fr e \<and> activeSessions e icao = so)) einv e"
    using e by (simp add: wp_gets)
next
  fix so e1 assume h: "einv e1" "seenBefore U fr e1 \<and> activeSessions e1 icao = so"
  have a: "wp (case so of Some s \<Rightarrow> ret (Some s) | None \<Rightarrow> adoptDbSession icao r t RESUME_MAX_GAP_MS)
      (\<lambda>s0 e. einv e \<and> (localInv icao s0 e \<and> seenBefore U fr e)) einv e1"
  proof (cases so)
    case None
    then have "unheld icao e1" using h by (simp add: unheld_def)
    from wp_grows [OF adoptDbSession_spec [OF h(1) this] grows_adopt] h None show ?thesis by simp
  next
    case (Some s)
    then show ?thesis using h held_bound [OF h(1), of icao s] by (simp add: wp_ret)
  qed
  show "wp (andThen (case so of Some s \<Rightarrow> ret (Some s) | None \<Rightarrow> adoptDbSession icao r t RESUME_MAX_GAP_MS) (\<lambda>s0.
     andThen (splitAtGap icao to t s0) (\<lambda>s1. openFor icao to r t s1)))
     (\<lambda>so e. einv e \<and> (localInv icao so e
      \<and> (to = TAKEOFF \<and> afterGap icao t fr \<longrightarrow> (\<exists>s. so = Some s \<and> fs_id s \<notin> U)))) einv e1"
  proof (rule wp_bind [OF a])
    fix s0 e2 assume h2: "einv e2" "localInv icao s0 e2 \<and> seenBefore U fr e2"
    show "wp (andThen (splitAtGap icao to t s0) (\<lambda>s1. openFor icao to r t s1))
       (\<lambda>so e. einv e \<and> (localInv icao so e
        \<and> (to = TAKEOFF \<and> afterGap icao t fr \<longrightarrow> (\<exists>s. so = Some s \<and> fs_id s \<notin> U)))) einv e2"
    proof (rule wp_bind [OF splitAtGap_spec])
      show "einv e2" "localInv icao s0 e2" "seenBefore U fr e2" using h2 by simp_all
    next
      fix s1 e3 assume h3: "einv e3" "(localInv icao s1 e3 \<and> (to = TAKEOFF \<and> afterGap icao t fr \<longrightarrow> s1 = None)) \<and> seenBefore U fr e3"
      then have "localInv icao s1 e3" "usedBefore U e3" by (simp_all add: seenBefore_def)
      then show "wp (openFor icao to r t s1) (\<lambda>so e. einv e \<and> (localInv icao so e
        \<and> (to = TAKEOFF \<and> afterGap icao t fr \<longrightarrow> (\<exists>s. so = Some s \<and> fs_id s \<notin> U)))) einv e3"
        by (rule wp_mono [OF openFor_spec [OF h3(1)]]) (use h3 in \<open>auto simp: seenBefore_def\<close>)
    qed
  qed
qed

lemma bound_same:
  assumes "fs_id s' = fs_id s" "fs_aircraft_icao s' = fs_aircraft_icao s" "fs_started_at s' = fs_started_at s"
  shows "bound icao s' e = bound icao s e"
  using assms by (simp add: bound_def knownIn_def)

lemma update_keep:
  assumes e: "einv e" "P e" "stable P" and k: "keepsKeys f" and o: "\<And>r. isOpen (f r) = isOpen r"
    and ft: "\<And>r. fits r \<Longrightarrow> fits (f r)" and en: "\<And>r. fs_ended_at (f r) = fs_ended_at r"
  shows "einv (e\<lparr>db := updateFlightSession i f (db e)\<rparr>) \<and> P (e\<lparr>db := updateFlightSession i f (db e)\<rparr>)"
proof -
  have "einv (e\<lparr>db := updateFlightSession i f (db e)\<rparr>) \<and> settles e (e\<lparr>db := updateFlightSession i f (db e)\<rparr>)"
    by (rule update_einv [OF e(1) k _ ft]) (use k o en in \<open>auto simp: timesOk_def keepsKeys_def\<close>)
  then show ?thesis using stableD [OF e(3,2)] by blast
qed

lemma updateSessionDest_keep:
  assumes u: "updateSessionDest i code n = Some f" and e: "einv e" "P e" "stable P"
  shows "einv (e\<lparr>db := f (db e)\<rparr>) \<and> P (e\<lparr>db := f (db e)\<rparr>)"
proof (cases "f = id")
  case True
  then show ?thesis using e by simp
next
  case False
  have c: "fitsCode (normaliseAirportIcao code)" "fitsName (airportNameForStorage n)"
    by (rule normaliseAirportIcao_fits airportNameForStorage_fits)+
  have f: "f = updateFlightSession i (\<lambda>r.
           r\<lparr>fs_dest_icao := (case normaliseAirportIcao code of Some c \<Rightarrow> Some c | None \<Rightarrow> fs_dest_icao r),
             fs_dest_name := (case airportNameForStorage n of Some n \<Rightarrow> Some n | None \<Rightarrow> fs_dest_name r)\<rparr>)"
    using u False by (simp add: updateSessionDest_def Let_def split: if_splits)
  show ?thesis unfolding f
    by (rule update_keep [OF e]) (use c in \<open>auto simp: keepsKeys_def isOpen_def fits_def split: option.splits\<close>)
qed

lemma settleDest_einv:
  assumes e: "einv e" "bound icao s e"
    and s': "fs_id s' = fs_id s" "fs_aircraft_icao s' = fs_aircraft_icao s" "fs_started_at s' = fs_started_at s"
  shows "einv (settleDest icao s' e) \<and> bound icao s' (settleDest icao s' e)"
  unfolding bound_same [OF s']
  by (rule hold_einv [OF e, where s' = s']) (use s' in \<open>simp_all add: settleDest_def activate_def\<close>)

lemma storeDest_spec:
  assumes e: "einv e" "bound icao s e"
  shows "wp (storeDest a s) (\<lambda>_ e. einv e \<and> bound icao s e) (\<lambda>e. einv e \<and> bound icao s e) e"
proof -
  have "wp (exec f) (\<lambda>_ e. einv e \<and> bound icao s e) (\<lambda>e. einv e \<and> bound icao s e) e"
    if "updateSessionDest (fs_id s) code nm = Some f" for f code nm
    unfolding exec_def statement_def
    by (rule wp_call_catch [where P = "bound icao s"])
       (use updateSessionDest_keep [OF that, where P = "bound icao s"] e in auto)
  then show ?thesis using e by (auto simp: storeDest_def Let_def wp_simps split: option.split)
qed

lemma resolveDest_spec:
  assumes e: "einv e" "bound icao s e"
  shows "wp (resolveDest icao s r m) (\<lambda>s' e. einv e \<and> bound icao s' e) (\<lambda>e. einv e \<and> bound icao s e) e"
proof -
  have "wp (andThen (storeDest a s) (\<lambda>_. andThen (modify (settleDest icao (withDest a s))) (\<lambda>_. ret (withDest a s))))
      (\<lambda>s' e. einv e \<and> bound icao s' e) (\<lambda>e. einv e \<and> bound icao s e) e" for a
  proof (rule wp_bind [OF storeDest_spec [OF e]])
    fix x e1 assume "einv e1" "bound icao s e1"
    from settleDest_einv [OF this, of "withDest a s"]
    show "wp (andThen (modify (settleDest icao (withDest a s))) (\<lambda>_. ret (withDest a s)))
        (\<lambda>s' e. einv e \<and> bound icao s' e) (\<lambda>e. einv e \<and> bound icao s e) e1"
      by (simp add: wp_simps withDest_def)
  qed
  then show ?thesis using e by (simp add: resolveDest_def wp_andThen [of "gets _"] wp_gets wp_ret split: option.split)
qed

lemma maybeResolveDest_spec:
  assumes e: "einv e" "bound icao s e"
  shows "wp (maybeResolveDest icao s r m) (\<lambda>s' e. einv e \<and> bound icao s' e) einv e"
proof -
  have "wp (andThen (modify (noteDestResolveFailure (fs_id s))) (\<lambda>_. ret s)) (\<lambda>s' e. einv e \<and> bound icao s' e) einv e1"
    if "einv e1" "bound icao s e1" for e1
    using keep_local [of e1 "bound icao s" "noteDestResolveFailure (fs_id s) e1"] that stable_bound
    by (simp add: wp_simps noteDestResolveFailure_def settles_def closesOnly_refl)
  then have "wp (tryCatch (resolveDest icao s r m) (andThen (modify (noteDestResolveFailure (fs_id s))) (\<lambda>_. ret s)))
      (\<lambda>s' e. einv e \<and> bound icao s' e) einv e"
    unfolding wp_tryCatch by (intro wp_mono [OF resolveDest_spec [OF e]]) auto
  then show ?thesis using e by (simp add: maybeResolveDest_def wp_andThen [of "gets _"] wp_gets wp_ret)
qed

lemma recordBound:
  assumes "einv e" "bound icao s e" "normaliseIcao (tr_icao r) = icao"
  shows "einv (recordPoint (fs_id s) p r f e) \<and> bound icao s (recordPoint (fs_id s) p r f e)"
  using record_keep [OF assms, of p f] stableD [OF stable_bound assms(2)] by blast

lemma notePhase_spec:
  assumes e: "einv e" "bound icao s e" and r: "normaliseIcao (tr_icao r) = icao"
  shows "wp (notePhase icao s to r) (\<lambda>_ e. einv e \<and> bound icao s e) einv e"
  unfolding notePhase_def
proof (rule wp_bind [where P = "\<lambda>_. bound icao s"])
  show "wp (exec (updateSessionPhase (fs_id s) to)) (\<lambda>_ e. einv e \<and> bound icao s e) einv e"
  proof (rule wp_exec [OF e stable_bound stable_bound])
    fix e1 assume h: "einv e1" "bound icao s e1"
    show "einv (e1\<lparr>db := updateSessionPhase (fs_id s) to (db e1)\<rparr>)
        \<and> bound icao s (e1\<lparr>db := updateSessionPhase (fs_id s) to (db e1)\<rparr>)"
      unfolding updateSessionPhase_def
      by (rule update_keep [OF h stable_bound]) (auto simp: keepsKeys_def isOpen_def fits_def)
  qed
next
  fix x e1 assume h: "einv e1" "bound icao s e1"
  have "einv (activate icao (s\<lparr>fs_phase := to\<rparr>) e1) \<and> bound icao s (activate icao (s\<lparr>fs_phase := to\<rparr>) e1)"
    by (rule hold_einv [OF h, where s' = "s\<lparr>fs_phase := to\<rparr>"]) (simp_all add: activate_def)
  then show "wp (modify (recordPoint (fs_id s) to r True \<circ> activate icao (s\<lparr>fs_phase := to\<rparr>)))
      (\<lambda>_ e. einv e \<and> bound icao s e) einv e1"
    using recordBound [OF _ _ r, of _ s to True] by (simp add: wp_modify)
qed

lemma publishFlightEvent_spec:
  assumes "einv e" "P e" "stable P"
  shows "wp (publishFlightEvent ev icao) (\<lambda>_ e. einv e \<and> P e) einv e"
  unfolding publishFlightEvent_def
proof (rule wp_bind [where P = "\<lambda>_. P"])
  show "wp (modify (nextEventSeq icao)) (\<lambda>_ e. einv e \<and> P e) einv e"
    using keep_local [OF assms, of "nextEventSeq icao e"]
    by (simp add: wp_modify nextEventSeq_def Let_def settles_def closesOnly_refl)
qed (rule wp_publish [OF _ _ assms(3)])

lemma resolveSessionStats_spec:
  assumes "einv e" "P e" "stable P"
  shows "wp (resolveSessionStats icao r) (\<lambda>_ e. einv e \<and> P e) einv e"
  unfolding resolveSessionStats_def
  by (simp add: wp_andThen wp_gets) (rule wp_mono [OF wp_query_keep [OF assms]], auto simp: wp_ret)

lemma announce_spec:
  assumes "einv e" "P e" "stable P"
  shows "wp (announce ev icao r s) (\<lambda>_ e. einv e \<and> P e) einv e"
  unfolding announce_def
  by (rule wp_bind [OF resolveSessionStats_spec [OF assms]])
     (simp add: wp_andThen wp_gets publishFlightEvent_spec [OF _ _ assms(3)])

text \<open>Flushing at once.\<close>

lemma flushNow_spec:
  assumes e: "einv e" "P e" "stable P"
  shows "wp flushNow (\<lambda>_ e. einv e \<and> P e) einv e"
proof -
  define e1 where "e1 = e\<lparr>recorder := flushStart (recorder e)\<rparr>"
  have e1: "einv e1 \<and> P e1"
    by (rule keep_local [OF e]) (simp_all add: e1_def settles_def closesOnly_refl)
  have step: "einv (recorderFlushEnds res e') \<and> P (recorderFlushEnds res e')" if "einv e'" "P e'" for res e'
    using recorderFlushEnds_einv [OF that(1), of res] stableD [OF e(3) that(2)] by blast
  have waits: "einv (fold interfere js e') \<and> P (fold interfere js e')" if "einv e'" "P e'" for js e'
    using interferences_einv [OF that(1), of js] stableD [OF e(3) that(2)] by blast
  have env: "einv (e1\<lparr>environment := x\<rparr>) \<and> P (e1\<lparr>environment := x\<rparr>)" for x
    using e1 stableD [OF e(3) _ settles_env] by simp
  show ?thesis
  proof (cases "environment e1")
    case Nil
    then show ?thesis using e e1 step
      by (simp add: wp_def flushNow_def Let_def e1_def [symmetric])
  next
    case (Cons c rest)
    obtain before res after where c: "c = (before, res, after)" by (cases c)
    have "einv (fold interfere after (recorderFlushEnds res (fold interfere before (e1\<lparr>environment := rest\<rparr>))))
        \<and> P (fold interfere after (recorderFlushEnds res (fold interfere before (e1\<lparr>environment := rest\<rparr>))))"
      using waits step env [of rest] by blast
    then show ?thesis using e Cons c
      by (simp add: wp_def flushNow_def Let_def e1_def [symmetric])
  qed
qed

lemma endFlight_einv:
  assumes e: "einv e" "bound icao s e" "openIds (db e) icao = {}"
  shows "einv (endFlight icao i e) \<and> vacant icao (endFlight icao i e)"
proof -
  let ?e = "endFlight icao i e"
  have rest: "db ?e = db e" "clock ?e = clock e" "pendingPoints (recorder ?e) = pendingPoints (recorder e)"
    and act: "activeSessions ?e = (activeSessions e)(icao := None)"
    and agg: "sessionAggs ?e = (sessionAggs e)(icao := None)"
    by (simp_all add: endFlight_def Let_def dropSession_def forgetDestState_def)
  have "aggInv (sessionAggs ?e) (activeSessions ?e)"
    using e(1) unfolding einv_def aggInv_def act agg by auto
  moreover have "heldInv (activeSessions ?e) (db e)"
    using e(1) heldInv_shrink [of "activeSessions e" "db e" "activeSessions ?e"] act unfolding einv_def by simp
  ultimately have "einv ?e" using e(1) rest by (simp add: einv_def posInv_def)
  then show ?thesis using e(3) act rest by (simp add: vacant_def unheld_def)
qed

lemma close_einv:
  fixes e e' :: Engine and now :: millis and n sats :: int
  assumes e: "einv e" and b: "bound icao s e" and now: "fs_started_at s \<le> now"
  defines "e' \<equiv> e\<lparr>db := closeSession now (fs_id s) n sats (db e)\<rparr>"
  shows "einv e' \<and> settles e e' \<and> openIds (db e') icao = {}"
proof -
  have ko: "keysOk (db e)" and kn: "knownIn (db e) icao s" using e b by (simp_all add: einv_def dbInv_def bound_def)
  have "einv e' \<and> settles e e'"
    unfolding e'_def closeSession_def
    by (rule update_einv [OF e])
       (use sameRow(2) [OF ko _ kn] now in \<open>auto simp: keepsKeys_def isOpen_def fits_def timesOk_def\<close>)
  moreover have "openIds (db e') icao = {}"
    using b by (auto simp: e'_def closeSession_finish openIds_finish bound_def)
  ultimately show ?thesis by blast
qed

lemma started_past:
  assumes "einv e" "bound icao s e"
  shows "fs_started_at s \<le> clock e"
proof -
  obtain r where r: "r \<in> set (flight_sessions (db e))" "fs_started_at r = fs_started_at s"
    using assms(2) by (auto simp: bound_def knownIn_def rowKeys_def)
  then have "timesOk (clock e) r" using assms(1) by (simp add: einv_def dbInv_def)
  then show ?thesis using r by (simp add: timesOk_def)
qed

lemma stable_none_open: "stable (\<lambda>e. openIds (db e) icao = {})"
  unfolding stable_def settles_def closesOnly_def by (metis subset_empty)

text \<open>A flight that ends leaves nothing held and nothing open.\<close>

lemma park_spec:
  assumes e: "einv e" "bound icao s e"
  shows "wp (park icao s r t) (\<lambda>_ e. einv e \<and> vacant icao e) einv e"
  unfolding park_def Let_def
proof (rule wp_bind [OF resolveSessionStats_spec [OF e stable_bound]])
  fix stats e1 assume h1: "einv e1" "bound icao s e1"
  let ?final = "\<lambda>fresh. withRow fresh (stats\<lparr>duration_min := max 0 (real_of_int (t - fs_started_at s) / 60000)\<rparr>)"
  let ?rest = "\<lambda>fresh now. andThen (exec (closeSession now (fs_id s) (total_tx_count (?final fresh)) (total_bsv_sats (?final fresh))))
       (\<lambda>_. andThen (modify (endFlight icao (fs_id s))) (\<lambda>_. flushNow))"
  have close: "wp (?rest fresh now) (\<lambda>_ e. einv e \<and> vacant icao e) einv e2"
    if h2: "einv e2" "bound icao s e2" and now: "fs_started_at s \<le> now" for fresh now e2
  proof (rule wp_bind)
    have st: "stable (\<lambda>e. bound icao s e \<and> openIds (db e) icao = {})"
      by (intro stable_conj stable_bound stable_none_open)
    show "wp (exec (closeSession now (fs_id s) (total_tx_count (?final fresh)) (total_bsv_sats (?final fresh))))
        (\<lambda>_ e. einv e \<and> (bound icao s e \<and> openIds (db e) icao = {})) einv e2"
    proof (rule wp_exec [OF h2 stable_bound st])
      fix e3 assume h3: "einv e3" "bound icao s e3"
      let ?e = "e3\<lparr>db := closeSession now (fs_id s) (total_tx_count (?final fresh)) (total_bsv_sats (?final fresh)) (db e3)\<rparr>"
      have "einv ?e \<and> settles e3 ?e \<and> openIds (db ?e) icao = {}" by (rule close_einv [OF h3 now])
      then show "einv ?e \<and> (bound icao s ?e \<and> openIds (db ?e) icao = {})"
        using stableD [OF stable_bound h3(2)] by blast
    qed
  next
    fix x e3 assume h3: "einv e3" "bound icao s e3 \<and> openIds (db e3) icao = {}"
    then have "einv (endFlight icao (fs_id s) e3)" "vacant icao (endFlight icao (fs_id s) e3)"
      using endFlight_einv by blast+
    then show "wp (andThen (modify (endFlight icao (fs_id s))) (\<lambda>_. flushNow)) (\<lambda>_ e. einv e \<and> vacant icao e) einv e3"
      using flushNow_spec [OF _ _ stable_vacant] by (simp add: wp_andThen wp_modify)
  qed
  have now: "wp (andThen (gets clock) (?rest fresh)) (\<lambda>_ e. einv e \<and> vacant icao e) einv e2"
    if h2: "einv e2" "bound icao s e2" for fresh e2
    using close [OF h2 started_past [OF h2]] by (simp add: wp_andThen [of "gets _"] wp_gets)
  have publish: "wp (andThen (publishFlightEvent ev icao) (\<lambda>_. andThen (gets clock) (?rest fresh)))
      (\<lambda>_ e. einv e \<and> vacant icao e) einv e2"
    if h2: "einv e2" "bound icao s e2" for fresh ev e2
    by (rule wp_bind [OF publishFlightEvent_spec [OF h2 stable_bound]]) (rule now)
  show "wp (andThen (query (getActiveSession icao)) (\<lambda>fresh.
      andThen (gets (generateFlightEvent Parked r (Some s) (Some (?final fresh)))) (\<lambda>ev.
      andThen (publishFlightEvent ev icao) (\<lambda>_. andThen (gets clock) (?rest fresh)))))
      (\<lambda>_ e. einv e \<and> vacant icao e) einv e1"
  proof (rule wp_bind [OF wp_query_keep [OF h1 stable_bound]])
    fix fresh e2 assume h2: "einv e2" "bound icao s e2"
    show "wp (andThen (gets (generateFlightEvent Parked r (Some s) (Some (?final fresh)))) (\<lambda>ev.
      andThen (publishFlightEvent ev icao) (\<lambda>_. andThen (gets clock) (?rest fresh))))
      (\<lambda>_ e. einv e \<and> vacant icao e) einv e2"
      unfolding wp_andThen [of "gets _"] wp_gets by (rule publish [OF h2])
  qed
qed

lemma followUp_spec:
  assumes e: "einv e" "bound icao s e"
  shows "wp (followUp icao frm to r t s) (\<lambda>_ e. einv e
    \<and> (to = PARKED \<and> frm \<noteq> PARKED \<longrightarrow> vacant icao e)) einv e"
proof -
  have a: "wp (announce ev icao r s') (\<lambda>_ e. einv e) einv e'" if "einv e'" for ev s' e'
    using wp_mono [OF announce_spec [OF that, of "\<lambda>_. True"]] by simp
  have l: "wp (andThen (maybeResolveDest icao s r 15) (\<lambda>s'. announce Landing icao r s')) (\<lambda>_ e. einv e) einv e"
    by (rule wp_bind [OF maybeResolveDest_spec [OF e]]) (rule a)
  show ?thesis using a e l park_spec [OF e, of r t] wp_mono [OF park_spec [OF e, of r t]]
    by (auto simp: followUp_def wp_ret)
qed

lemma taxiOut_spec:
  assumes e: "einv e" and r: "normaliseIcao (tr_icao r) = icao"
  shows "wp (taxiOut icao r t) (\<lambda>_ e. einv e) einv e"
  unfolding taxiOut_def
proof (rule wp_bind [OF retireLingering_spec [OF e]])
  fix x e1 assume h: "einv e1" "vacant icao e1"
  then have v: "vacant icao e1 \<and> usedBefore {} e1" by (simp add: usedBefore_def)
  have pub: "wp (publishFlightEvent ev icao) (\<lambda>_ e. einv e) einv e2" if "einv e2" for ev e2
    using wp_mono [OF publishFlightEvent_spec [OF that, of "\<lambda>_. True"]] by simp
  show "wp (andThen (openFromAirport icao r t TAXI) (\<lambda>s.
     andThen (modify (recordPoint (fs_id s) TAXI r True)) (\<lambda>_.
     andThen (gets (generateFlightEvent Taxi_Start r (Some s) None)) (\<lambda>ev.
     publishFlightEvent ev icao)))) (\<lambda>_ e. einv e) einv e1"
  proof (rule wp_bind [OF openFromAirport_spec [OF h(1) v]])
    fix s e2 assume h2: "einv e2" "bound icao s e2 \<and> fs_id s \<notin> {}"
    have "einv (recordPoint (fs_id s) TAXI r True e2)"
      using recordBound [OF h2(1) _ r, of s TAXI True] h2(2) by simp
    then show "wp (andThen (modify (recordPoint (fs_id s) TAXI r True)) (\<lambda>_.
       andThen (gets (generateFlightEvent Taxi_Start r (Some s) None)) (\<lambda>ev.
       publishFlightEvent ev icao))) (\<lambda>_ e. einv e) einv e2"
      by (simp add: wp_andThen wp_modify wp_gets pub)
  qed
qed

definition ownTelemetry :: "PhaseTransition \<Rightarrow> bool" where
  "ownTelemetry t \<longleftrightarrow> normaliseIcao (tr_icao (pt_telemetry t)) = normaliseIcao (pt_aircraft_icao t)"

lemma transitionBody_spec:
  assumes e: "einv e" and t: "ownTelemetry t"
  shows "wp (transitionBody t recTs) (\<lambda>_ e. einv e \<and>
    (pt_to_phase t = PARKED \<and> pt_from_phase t \<noteq> PARKED \<longrightarrow> vacant (normaliseIcao (pt_aircraft_icao t)) e)) einv e"
proof (cases "pt_from_phase t = PARKED \<and> pt_to_phase t = TAXI")
  case True
  then show ?thesis
    using wp_mono [OF taxiOut_spec [OF e t [unfolded ownTelemetry_def], of recTs]]
    by (simp add: transitionBody_def Let_def)
next
  case False
  let ?icao = "normaliseIcao (pt_aircraft_icao t)" and ?r = "pt_telemetry t" and ?to = "pt_to_phase t"
  have sb: "seenBefore {} (lastFrameTsByIcao e) e" by (simp add: seenBefore_def usedBefore_def)
  have "wp (andThen (sessionFor ?icao ?to ?r recTs) (\<lambda>session.
           case session of None \<Rightarrow> ret ()
           | Some s \<Rightarrow> andThen (notePhase ?icao s ?to ?r) (\<lambda>_. followUp ?icao (pt_from_phase t) ?to ?r recTs s)))
     (\<lambda>_ e. einv e \<and> (?to = PARKED \<and> pt_from_phase t \<noteq> PARKED \<longrightarrow> vacant ?icao e)) einv e"
  proof (rule wp_bind [OF sessionFor_spec [OF e sb]])
    fix so e1 assume h: "einv e1" "localInv ?icao so e1 \<and>
      (?to = TAKEOFF \<and> afterGap ?icao recTs (lastFrameTsByIcao e) \<longrightarrow> (\<exists>s. so = Some s \<and> fs_id s \<notin> {}))"
    show "wp (case so of None \<Rightarrow> ret ()
           | Some s \<Rightarrow> andThen (notePhase ?icao s ?to ?r) (\<lambda>_. followUp ?icao (pt_from_phase t) ?to ?r recTs s))
       (\<lambda>_ e. einv e \<and> (?to = PARKED \<and> pt_from_phase t \<noteq> PARKED \<longrightarrow> vacant ?icao e)) einv e1"
    proof (cases so)
      case None
      then show ?thesis using h by (simp add: wp_ret)
    next
      case (Some s)
      have b: "bound ?icao s e1" using h Some by simp
      have "wp (andThen (notePhase ?icao s ?to ?r) (\<lambda>_. followUp ?icao (pt_from_phase t) ?to ?r recTs s))
         (\<lambda>_ e. einv e \<and> (?to = PARKED \<and> pt_from_phase t \<noteq> PARKED \<longrightarrow> vacant ?icao e)) einv e1"
        by (rule wp_bind [OF notePhase_spec [OF h(1) b t [unfolded ownTelemetry_def]]]) (rule followUp_spec)
      then show ?thesis using Some by simp
    qed
  qed
  then show ?thesis unfolding transitionBody_def Let_def if_not_P [OF False] .
qed

lemma handlePhaseTransition_spec:
  assumes "einv e" "ownTelemetry t"
  shows "wp (handlePhaseTransition t) (\<lambda>_ e. einv e) einv e"
  unfolding handlePhaseTransition_def wp_andThen wp_gets wp_tryCatch
  by (rule wp_mono [OF transitionBody_spec [OF assms]]) (simp_all add: wp_ret)

lemma detected_own:
  assumes "updateWithTransitions now r d = (d', ph, trs, calls)" "t \<in> set trs"
  shows "ownTelemetry t"
proof (cases "states d (normaliseIcao (tr_icao r))")
  case None
  then show ?thesis using assms by (simp add: updateWithTransitions_def Let_def)
next
  case (Some st)
  obtain st' trs' where u: "updateState now r st = (st', trs')" by fastforce
  have "t \<in> set trs'" using assms Some u by (auto simp: updateWithTransitions_def Let_def)
  then have "pt_aircraft_icao t = normaliseIcao (tr_icao r) \<and> pt_telemetry t = r"
    using u by (auto simp: updateState_def Let_def split: prod.splits if_splits)
  then show ?thesis by (simp add: ownTelemetry_def)
qed

lemma firstContact_spec:
  assumes e: "einv e" and r: "normaliseIcao (tr_icao r) = icao"
  shows "wp (firstContact icao p r) (\<lambda>_ e. einv e) einv e"
proof -
  have open_spec: "wp (andThen (openAirborne icao r t p) (\<lambda>s. modify (recordPoint (fs_id s) p r True))) (\<lambda>_ e. einv e) einv e1"
    if h: "einv e1" "vacant icao e1" for t e1
  proof (rule wp_bind [OF openAirborne_spec [where U = "{}", OF h(1)]])
    show "vacant icao e1 \<and> usedBefore {} e1" using h by (simp add: usedBefore_def)
  next
    fix s e2 assume h2: "einv e2" "bound icao s e2 \<and> fs_id s \<notin> {}"
    then have "bound icao s e2" by simp
    then show "wp (modify (recordPoint (fs_id s) p r True)) (\<lambda>_ e. einv e) einv e2"
      using recordBound [OF h2(1) _ r] by (simp add: wp_modify)
  qed
  have body: "wp (andThen (adoptDbSession icao r t m) (\<lambda>session.
      onlyIf (session = None \<and> b)
        (andThen (openAirborne icao r t p) (\<lambda>s. modify (recordPoint (fs_id s) p r True))))) (\<lambda>_ e. einv e) einv e1"
    if h: "einv e1" "unheld icao e1" for t m b e1
    by (rule wp_bind [OF adoptDbSession_spec [OF h]]) (auto simp: wp_onlyIf open_spec)
  have resolve: "wp (resolveSessionOnFirstContact icao p r) (\<lambda>_ e. einv e) einv e1"
    if h: "einv e1" "unheld icao e1" for e1
    unfolding resolveSessionOnFirstContact_def Let_def wp_tryCatch wp_andThen [of "gets _"] wp_gets
    by (rule wp_mono [OF body [OF h]]) (simp_all add: wp_ret)
  have "einv (e\<lparr>sessionResolutionDone := x\<rparr>)" for x using e by (simp add: einv_def)
  moreover have "unheld icao e \<Longrightarrow> unheld icao (e\<lparr>sessionResolutionDone := x\<rparr>)" for x by (simp add: unheld_def)
  ultimately show ?thesis
    using e resolve by (auto simp: firstContact_def wp_andThen wp_gets wp_onlyIf wp_modify unheld_def)
qed

lemma countTx_einv: "einv e \<Longrightarrow> einv (countTx icao e)"
  by (cases "sessionAggs e icao") (auto simp: countTx_def einv_def aggInv_def)

lemma accumulateAgg_id: "ag_sessionId (accumulateAgg r a) = ag_sessionId a"
  by (auto simp: accumulateAgg_def Let_def split: option.splits if_splits)

lemma noteFrame_einv: "einv e \<Longrightarrow> einv (noteFrame icao r e)"
  by (cases "sessionAggs e icao")
     (auto simp: noteFrame_def Let_def accumulateTelemetry_def einv_def aggInv_def accumulateAgg_id)

lemma publish_spec: "einv e \<Longrightarrow> wp (publish p) (\<lambda>_ e. einv e) einv e"
  using wp_publish [of e "\<lambda>_. True" p] by simp

lemma requestWrite_spec:
  assumes e: "einv e"
  shows "wp (requestWrite icao p r) (\<lambda>_ e. einv e) einv e"
proof -
  have inc: "wp (andThen (exec (incrementTxCount i)) (\<lambda>_. modify (countTx icao))) (\<lambda>_ e. einv e) einv e1"
    if h: "einv e1" for i e1
  proof (rule wp_bind [where P = "\<lambda>_ _. True"])
    have "wp (exec (incrementTxCount i)) (\<lambda>_ e. einv e \<and> True) einv e1"
    proof (rule wp_exec [OF h, of "\<lambda>_. True"])
      fix e2 :: Engine assume "einv e2"
      from update_keep [OF this, of "\<lambda>_. True" "\<lambda>r. r\<lparr>fs_total_tx_count := fs_total_tx_count r + 1\<rparr>" i]
      show "einv (e2\<lparr>db := incrementTxCount i (db e2)\<rparr>) \<and> True"
        by (simp add: incrementTxCount_def keepsKeys_def isOpen_def fits_def)
    qed auto
    then show "wp (exec (incrementTxCount i)) (\<lambda>_ e. einv e \<and> True) einv e1" .
  qed (simp add: wp_modify countTx_einv)
  have c: "einv (e1\<lparr>controller := x\<rparr>)" if "einv e1" for e1 x using that by (simp add: einv_def)
  have "wp (andThen (publish (PWrite icao r)) (\<lambda>_.
        andThen (modify (\<lambda>e. e\<lparr>controller := recordWrite (clock e) icao (Some p) (Some r) (controller e)\<rparr>)) (\<lambda>_.
        andThen (gets (\<lambda>e. activeSessions e icao)) (\<lambda>session.
        case session of None \<Rightarrow> ret ()
        | Some s \<Rightarrow> andThen (exec (incrementTxCount (fs_id s))) (\<lambda>_. modify (countTx icao)))))) (\<lambda>_ e. einv e) einv e1"
    if h: "einv e1" for e1
    unfolding wp_andThen [of "publish _"]
  proof (rule wp_mono [OF publish_spec [OF h]])
    fix x e2 assume "einv e2"
    then show "wp (andThen (modify (\<lambda>e. e\<lparr>controller := recordWrite (clock e) icao (Some p) (Some r) (controller e)\<rparr>)) (\<lambda>_.
        andThen (gets (\<lambda>e. activeSessions e icao)) (\<lambda>session.
        case session of None \<Rightarrow> ret ()
        | Some s \<Rightarrow> andThen (exec (incrementTxCount (fs_id s))) (\<lambda>_. modify (countTx icao))))) (\<lambda>_ e. einv e) einv e2"
      using inc c by (cases "activeSessions e2 icao") (simp_all add: wp_andThen [of "modify _"] wp_andThen [of "gets _"] wp_modify wp_gets wp_ret)
  qed simp
  moreover have "einv (refreshOverrides icao r e)" using e by (simp add: refreshOverrides_def einv_def)
  ultimately show ?thesis
    by (simp add: requestWrite_def wp_andThen [of "modify _"] wp_andThen [of "gets _"] wp_modify wp_gets wp_onlyIf)
qed

lemma followSession_spec:
  assumes e: "einv e" and r: "normaliseIcao (tr_icao r) = icao"
  shows "wp (followSession icao p r) (\<lambda>_ e. einv e) einv e"
proof (cases "activeSessions e icao")
  case None
  then show ?thesis using e by (simp add: followSession_def wp_andThen wp_gets wp_ret)
next
  case (Some s)
  let ?e = "recordPoint (fs_id s) p r False e"
  have b: "einv ?e" "bound icao s ?e" using recordBound [OF e held_bound [OF e Some] r] by blast+
  have "wp (andThen (maybeResolveDest icao s r DEST_RESOLVE_RADIUS_MILES) (\<lambda>s'. ret (Some s'))) (\<lambda>_ e. einv e) einv ?e"
    by (rule wp_bind [OF maybeResolveDest_spec [OF b]]) (simp add: wp_ret)
  then show ?thesis using Some b
    by (simp add: followSession_def wp_andThen [of "modify _"] wp_andThen [of "gets _"] wp_modify wp_gets wp_ret)
qed

lemma onTelemetryMessage_spec:
  assumes e: "einv e"
  shows "wp (onTelemetryMessage m) (\<lambda>_ e. einv e) einv e"
proof (cases m)
  case None
  then show ?thesis using e by (simp add: onTelemetryMessage_def wp_ret)
next
  case (Some r)
  let ?icao = "normaliseIcao (tr_icao r)"
  obtain d ph trs calls where u: "updateWithTransitions (clock e) r (detector e) = (d, ph, trs, calls)"
    by (metis prod_cases4)
  have tail: "wp (andThen (publish a) (\<lambda>_. andThen (publish b) (\<lambda>_. modify (noteFrame ?icao r)))) (\<lambda>_ e. einv e) einv e1"
    if "einv e1" for a b e1
    unfolding wp_andThen wp_modify
    by (rule wp_mono [OF publish_spec [OF that]], rule wp_mono [OF publish_spec]) (simp_all add: noteFrame_einv)
  have t4: "wp (andThen (followSession ?icao ph r) (\<lambda>session. andThen (publish (PBroadcast r ph session)) (\<lambda>_.
      andThen (publish (PActivity ?icao)) (\<lambda>_. modify (noteFrame ?icao r))))) (\<lambda>_ e. einv e) einv e1" if "einv e1" for e1
    unfolding wp_andThen [of "followSession _ _ _"]
    by (rule wp_mono [OF followSession_spec [OF that refl]]) (rule tail, assumption)
  have t3: "wp (andThen (requestWrite ?icao ph r) (\<lambda>_. andThen (followSession ?icao ph r) (\<lambda>session.
      andThen (publish (PBroadcast r ph session)) (\<lambda>_.
      andThen (publish (PActivity ?icao)) (\<lambda>_. modify (noteFrame ?icao r)))))) (\<lambda>_ e. einv e) einv e1" if "einv e1" for e1
    unfolding wp_andThen [of "requestWrite _ _ _"]
    by (rule wp_mono [OF requestWrite_spec [OF that]]) (rule t4, assumption)
  have t2: "wp (andThen (firstContact ?icao ph r) (\<lambda>_. andThen (requestWrite ?icao ph r) (\<lambda>_.
      andThen (followSession ?icao ph r) (\<lambda>session. andThen (publish (PBroadcast r ph session)) (\<lambda>_.
      andThen (publish (PActivity ?icao)) (\<lambda>_. modify (noteFrame ?icao r))))))) (\<lambda>_ e. einv e) einv e1" if "einv e1" for e1
    unfolding wp_andThen [of "firstContact _ _ _"]
    by (rule wp_mono [OF firstContact_spec [OF that refl]]) (rule t3, assumption)
  have "einv (e\<lparr>detector := d\<rparr>)" using e by (simp add: einv_def)
  then have "wp (forEach handlePhaseTransition trs) (\<lambda>_ e. einv e) einv (e\<lparr>detector := d\<rparr>)"
    by (rule wp_forEach) (rule handlePhaseTransition_spec, assumption, rule detected_own [OF u])
  then have "wp (andThen (forEach handlePhaseTransition trs) (\<lambda>_. andThen (firstContact ?icao ph r) (\<lambda>_.
      andThen (requestWrite ?icao ph r) (\<lambda>_. andThen (followSession ?icao ph r) (\<lambda>session.
      andThen (publish (PBroadcast r ph session)) (\<lambda>_.
      andThen (publish (PActivity ?icao)) (\<lambda>_. modify (noteFrame ?icao r)))))))) (\<lambda>_ e. einv e) einv (e\<lparr>detector := d\<rparr>)"
    unfolding wp_andThen [of "forEach _ _"] by (rule wp_mono) (rule t2, assumption)
  then show ?thesis
    using Some u by (simp add: onTelemetryMessage_def Let_def wp_def detectPhaseUpdate_def andThen_def [of "detectPhaseUpdate r"])
qed

lemma engine_run: "einv e \<Longrightarrow> einv (fold engineStep es e)"
proof (induction es arbitrary: e)
  case Nil
  then show ?case by simp
next
  case (Cons x xs)
  have "einv (engineStep x e)"
  proof (cases x)
    case (Message env m)
    have "einv (e\<lparr>environment := env\<rparr>)" using Cons.prems by simp
    from wp_state [OF onTelemetryMessage_spec [OF this]] Message show ?thesis by simp
  next
    case (Meanwhile i)
    then show ?thesis using interfere_einv [OF Cons.prems, of i] by simp
  qed
  then show ?case using Cons.IH by simp
qed

subsection \<open>Handlers that are not disturbed\<close>

text \<open>With an exhausted environment no call fails.\<close>

definition quiet :: "'a handler \<Rightarrow> bool" where
  "quiet m \<longleftrightarrow> (\<forall>e. environment e = [] \<longrightarrow> (\<exists>x e'. m e = (Returned x, e') \<and> environment e' = []))"

lemma quiet_ret: "quiet (ret x)" by (simp add: quiet_def ret_def)
lemma quiet_gets: "quiet (gets f)" by (simp add: quiet_def gets_def)
lemma quiet_modify: "(\<And>e. environment (f e) = environment e) \<Longrightarrow> quiet (modify f)"
  by (simp add: quiet_def modify_def)

lemma quiet_call:
  assumes "\<And>e. environment (snd (f e)) = environment e"
  shows "quiet (call f)"
  unfolding quiet_def
proof (intro allI impI)
  fix e :: Engine assume "environment e = []"
  then show "\<exists>x e'. call f e = (Returned x, e') \<and> environment e' = []"
    using assms [of e] by (cases "f e") (simp add: call_def)
qed

lemma quiet_andThen:
  assumes m: "quiet m" and k: "\<And>x. quiet (k x)"
  shows "quiet (andThen m k)"
  unfolding quiet_def
proof (intro allI impI)
  fix e :: Engine assume "environment e = []"
  then obtain x e1 where r: "m e = (Returned x, e1)" "environment e1 = []" using m unfolding quiet_def by blast
  then obtain y e2 where "k x e1 = (Returned y, e2)" "environment e2 = []" using k unfolding quiet_def by blast
  then show "\<exists>x e'. andThen m k e = (Returned x, e') \<and> environment e' = []" using r by (simp add: andThen_def)
qed

lemma quiet_query: "quiet (query f)" unfolding query_def by (rule quiet_call) simp
lemma quiet_statement: "quiet (statement f)"
  unfolding statement_def by (rule quiet_call) (simp split: prod.split)
lemma quiet_exec: "quiet (exec f)" unfolding exec_def by (rule quiet_statement)
lemma quiet_publish: "quiet (publish p)" unfolding publish_def by (rule quiet_call) simp

lemmas quiet_rules = quiet_ret quiet_gets quiet_query quiet_statement quiet_exec quiet_publish quiet_andThen

lemma environment_frame [simp]:
  "environment (forgetDestState i e) = environment e" "environment (releaseSession icao i e) = environment e"
  "environment (adopt icao s r e) = environment e" "environment (hold icao s t r e) = environment e"
  "environment (activate icao s e) = environment e" "environment (recordPoint i p r b e) = environment e"
  "environment (nextEventSeq icao e) = environment e" "environment (endFlight icao i e) = environment e"
  by (simp_all add: forgetDestState_def releaseSession_def dropSession_def adopt_def hold_def activate_def
      initSessionAgg_def recordPoint_def nextEventSeq_def endFlight_def Let_def)

lemma quiet_flush: "quiet flushNow"
  by (simp add: quiet_def flushNow_def Let_def recorderFlushEnds_def split: prod.split)

lemma quiet_retire: "quiet (retireSession icao s la)"
  unfolding retireSession_def Let_def
  by (intro quiet_rules quiet_modify) (auto intro: quiet_rules split: option.split)

lemma quiet_adopt: "quiet (adoptDbSession icao r t m)"
  unfolding adoptDbSession_def Let_def
  by (auto intro!: quiet_rules quiet_modify split: option.split)

lemma quiet_sessionFor: "quiet (sessionFor icao to r t)"
  unfolding sessionFor_def splitAtGap_def openFor_def openFromAirport_def openAirborne_def
  by (auto intro!: quiet_rules quiet_modify quiet_retire quiet_adopt split: option.split)

lemma quiet_announce: "quiet (announce ev icao r s)"
  unfolding announce_def resolveSessionStats_def publishFlightEvent_def
  by (auto intro!: quiet_rules quiet_modify)

lemma quiet_park: "quiet (park icao s r t)"
  unfolding park_def Let_def resolveSessionStats_def publishFlightEvent_def
  by (auto intro!: quiet_rules quiet_modify quiet_flush)

lemma quiet_body:
  assumes "pt_to_phase t \<noteq> TAXI" "pt_to_phase t \<noteq> LANDING"
  shows "quiet (transitionBody t recTs)"
  using assms unfolding transitionBody_def Let_def notePhase_def followUp_def
  by (auto intro!: quiet_rules quiet_modify quiet_sessionFor quiet_announce quiet_park split: option.split)

lemma body_outcome:
  assumes w: "wp m Q R e" and q: "quiet m"
  shows "case m e of (Returned x, e') \<Rightarrow> Q x e' | (Raised _, e') \<Rightarrow> environment e \<noteq> []"
proof (cases "environment e = []")
  case True
  then obtain x e' where "m e = (Returned x, e')" using q unfolding quiet_def by blast
  then show ?thesis using w by (simp add: wp_def)
next
  case False
  obtain r e' where "m e = (r, e')" by (cases "m e")
  with False show ?thesis using w by (cases r) (simp_all add: wp_def)
qed

subsection \<open>Properties\<close>

text \<open>The state at start: an engine over tables that are in order.\<close>

definition startsWell :: "millis \<Rightarrow> SessionDb \<Rightarrow> bool" where
  "startsWell now d \<longleftrightarrow> dbInv now d \<and> (\<forall>p \<in> set (session_positions d). ownedPoint d p)"

lemma start_einv: "startsWell now d \<Longrightarrow> einv (newEngine now l c d)"
  by (simp add: startsWell_def newEngine_def einv_def heldInv_def aggInv_def posInv_def newRecorder_def
      pendingPoints_def)

text \<open>
  C3: an aircraft never has two open sessions, whatever calls fail or take effect without an answer and
  however sweeps and flushes interleave with the handlers: in every reachable state at most one row of an
  aircraft is open, and if the engine holds a session of the aircraft, no other row is.
\<close>

theorem one_open_session:
  assumes "startsWell now d" and "fold engineStep es (newEngine now l c d) = e"
  shows "card (openIds (db e) icao) \<le> 1
    \<and> (case activeSessions e icao of Some s \<Rightarrow> openIds (db e) icao \<subseteq> {fs_id s} | None \<Rightarrow> True)"
proof -
  have inv: "einv e" using engine_run [OF start_einv [OF assms(1)]] assms(2) by blast
  then have "\<exists>i. openIds (db e) icao \<subseteq> {i}"
    unfolding einv_def dbInv_def single_open_def by blast
  then obtain i where "openIds (db e) icao \<subseteq> {i}" ..
  then have "card (openIds (db e) icao) \<le> card {i}" by (intro card_mono) auto
  moreover have "openIds (db e) icao \<subseteq> {fs_id s}" if "activeSessions e icao = Some s" for s
    using held_bound [OF inv that] unfolding bound_def by blast
  ultimately show ?thesis by (simp split: option.split)
qed



text \<open>
  C6: parking ends the flight. When the handler of a transition into PARKED gets through, the engine holds no
  session of the aircraft and none of its rows is open; only a failing call can stop it.
\<close>

theorem parking_ends_flight:
  assumes "einv e" "ownTelemetry t" "pt_to_phase t = PARKED" "pt_from_phase t \<noteq> PARKED"
  shows "case transitionBody t recTs e of
      (Returned _, e') \<Rightarrow> activeSessions e' (normaliseIcao (pt_aircraft_icao t)) = None
        \<and> openIds (db e') (normaliseIcao (pt_aircraft_icao t)) = {}
    | (Raised _, _) \<Rightarrow> environment e \<noteq> []"
  using body_outcome [OF transitionBody_spec [OF assms(1,2), of recTs] quiet_body] assms(3,4)
  by (auto simp: vacant_def unheld_def split: prod.splits outcome.splits)

subsection \<open>Examples\<close>

lemma demo_starts: "startsWell 0 demoDb"
  by (simp add: startsWell_def dbInv_def demoDb_def keysOk_def usedIds_def single_open_def openIds_def rowsFit_def)

definition demoStart :: Engine where
  "demoStart = newEngine 0 (newLookup []) (newController (\<lambda>_. None) DEFAULT_SIGNIFICANT_CHANGE) demoDb"

definition demoSteps :: "EngineEvent list" where
  "demoSteps = [Message [([], Unacknowledged, [SweepQuery Done])] (Some demoFrame), Meanwhile SweepApply,
     Message [] (Some demoFrame)]"

definition demoRun :: Engine where
  "demoRun = fold engineStep demoSteps demoStart"

lemmas demoRun_eq = demoRun_def [symmetric, unfolded demoStart_def]

theorem one_open_session_witness: "card (openIds (db demoRun) ''400F2A'') \<le> 1"
  using one_open_session [OF demo_starts demoRun_eq, of "''400F2A''"] by (rule conjunct1)


definition demoSession :: FlightSession where
  "demoSession = \<lparr> fs_id = 3, fs_aircraft_icao = ''400F2A'', fs_callsign = ''BAW1'', fs_origin_icao = None,
     fs_origin_name = None, fs_dest_icao = None, fs_dest_name = None, fs_phase = TAXI, fs_started_at = 0,
     fs_ended_at = None, fs_total_tx_count = 0, fs_total_sats_spent = 0 \<rparr>"

definition demoHeld :: Engine where
  "demoHeld = demoStart\<lparr>clock := 2000000, db := demoDb\<lparr>flight_sessions := [demoSession]\<rparr>,
     activeSessions := [''400F2A'' \<mapsto> demoSession], lastFrameTsByIcao := [''400F2A'' \<mapsto> 0]\<rparr>"

definition demoTransition :: "FlightPhase \<Rightarrow> FlightPhase \<Rightarrow> PhaseTransition" where
  "demoTransition f p = \<lparr> pt_aircraft_icao = ''400F2A'', pt_from_phase = f, pt_to_phase = p, pt_timestamp = 2000000,
     pt_telemetry = demoFrame \<rparr>"

lemma demo_icao [simp]: "normaliseIcao ''400F2A'' = ''400F2A''" by code_simp

lemma demo_own: "ownTelemetry (demoTransition f p)"
  by (simp add: ownTelemetry_def demoTransition_def demoFrame_def)

lemma demoHeld_einv: "einv demoHeld"
proof -
  have f: "flight_sessions (db demoHeld) = [demoSession]" by (simp add: demoHeld_def)
  have s: "fs_id demoSession = 3" "fs_aircraft_icao demoSession = ''400F2A''" "isOpen demoSession"
    by (simp_all add: demoSession_def isOpen_def)
  have o: "openIds (db demoHeld) a = (if a = ''400F2A'' then {3} else {})" for a
  proof -
    have "{r \<in> set [demoSession]. fs_aircraft_icao r = a \<and> isOpen r} = (if a = ''400F2A'' then {demoSession} else {})"
      using s by auto
    then show ?thesis using s unfolding openIds_def f by simp
  qed
  have k: "rowKeys (db demoHeld) = {(3, ''400F2A'', 0)}"
    by (simp add: demoHeld_def rowKeys_def demoSession_def)
  have "dbInv (clock demoHeld) (db demoHeld)"
    unfolding dbInv_def single_open_def o
    by (auto simp: demoHeld_def keysOk_def usedIds_def demoDb_def demoSession_def rowsFit_def fits_def fitsCode_def
        fitsName_def timesOk_def)
  moreover have "heldInv (activeSessions demoHeld) (db demoHeld)"
    unfolding heldInv_def knownIn_def o k by (simp add: demoHeld_def demoSession_def)
  ultimately show ?thesis
    by (simp add: einv_def aggInv_def posInv_def demoHeld_def demoStart_def newEngine_def newRecorder_def demoDb_def
        pendingPoints_def)
qed

lemma demoTransition_simps [simp]:
  "pt_aircraft_icao (demoTransition f p) = ''400F2A''" "pt_from_phase (demoTransition f p) = f"
  "pt_to_phase (demoTransition f p) = p"
  by (simp_all add: demoTransition_def)

lemma demoHeld_simps [simp]:
  "environment demoHeld = []" "3 \<in> usedIds (db demoHeld)" "lastFrameTsByIcao demoHeld ''400F2A'' = Some 0"
  by (simp_all add: demoHeld_def demoStart_def newEngine_def usedIds_def demoSession_def)


theorem parking_ends_flight_witness:
  "case transitionBody (demoTransition TAXI_IN PARKED) 2000000 demoHeld of
     (Returned _, e') \<Rightarrow> openIds (db e') ''400F2A'' = {} | (Raised _, _) \<Rightarrow> False"
proof -
  obtain x e' where r: "transitionBody (demoTransition TAXI_IN PARKED) 2000000 demoHeld = (x, e')"
    by (cases "transitionBody (demoTransition TAXI_IN PARKED) 2000000 demoHeld")
  show ?thesis
    using parking_ends_flight [OF demoHeld_einv demo_own, of TAXI_IN PARKED 2000000]
    unfolding r by (cases x) simp_all
qed

end
