(* ===== verification/Spend_Governor.thy ===== *)
theory Spend_Governor
  imports Prelude
begin

text \<open>
  The spending policy of the blockchain writer:
  \<open>services/blockchain-writer/src/spend-governor.ts\<close>.

  The record \<open>SpendGovernor\<close> is the private state of the class, \<open>config\<close> included. An
  operation takes the clock reading \<open>now\<close> of the call and returns the new state, with the
  result in front where the method has one; every read of the posture may move the state
  machine (\<open>evaluate\<close>), as in the source. With no observation the source's ratio is \<open>0 / 0\<close>,
  which is not a number and compares false; the model has that case explicitly. Metrics and log
  lines are not modelled.

  The lemmas show the state invariant, that the observations are exactly the counted verdicts
  of the rolling window, when each posture is entered and left, and how the cooldown grows.
\<close>

datatype SpendPosture = NORMAL | CAUTIOUS | PROBING | HALTED

record SpendGuardConfig =
  paused :: bool
  windowMs :: millis
  minSamples :: nat
  cautiousRatio :: real
  haltRatio :: real
  haltCooldownMs :: millis
  haltCooldownMaxMs :: millis
  probeBudget :: nat
  probeSettleMs :: millis
  maxUnconfirmedChainDepth :: nat
  cautiousUnconfirmedChainDepth :: nat
  maxRejectRequeues :: nat

record Observation =
  obs_at :: millis
  obs_rejected :: bool

record Probe =
  startedAt :: millis
  spent :: nat
  probe_rejected :: nat
  settleUntil :: "millis option"

datatype HaltReason = Reject_ratio | Probe_rejected

record SpendGovernor =
  config :: SpendGuardConfig
  observations :: "Observation list"
  haltedUntil :: millis
  consecutiveHalts :: nat
  lastHaltCooldownMs :: millis
  lastHaltReason :: "HaltReason option"
  staleRejects :: nat
  probe :: "Probe option"
  lastPosture :: SpendPosture

text \<open>The argument \<open>broadcastAtMs\<close>: omitted, \<open>null\<close>, a number that is not finite, or a time.\<close>

datatype BroadcastTime = Omitted | Null | NotFinite | AtMs millis

definition newGovernor :: "SpendGuardConfig \<Rightarrow> SpendGovernor" where
  "newGovernor cfg =
     \<lparr> config = cfg, observations = [], haltedUntil = 0, consecutiveHalts = 0,
       lastHaltCooldownMs = 0, lastHaltReason = None, staleRejects = 0, probe = None,
       lastPosture = (if paused cfg then HALTED else NORMAL) \<rparr>"

definition trim :: "millis \<Rightarrow> SpendGovernor \<Rightarrow> SpendGovernor" where
  "trim now g =
     g\<lparr>observations := dropWhile (\<lambda>ob. obs_at ob < now - windowMs (config g)) (observations g)\<rparr>"

definition counts :: "SpendGovernor \<Rightarrow> nat \<times> nat" where
  "counts g = (length (filter obs_rejected (observations g)), length (observations g))"

fun verdictIsStale :: "BroadcastTime \<Rightarrow> millis \<Rightarrow> bool" where
  "verdictIsStale (AtMs t) notBefore = (t < notBefore)"
| "verdictIsStale Omitted notBefore = False"
| "verdictIsStale Null notBefore = False"
| "verdictIsStale NotFinite notBefore = False"

definition recordStaleReject :: "SpendGovernor \<Rightarrow> SpendGovernor" where
  "recordStaleReject g = g\<lparr>staleRejects := staleRejects g + 1\<rparr>"

definition isHardStopped :: "millis \<Rightarrow> SpendGovernor \<Rightarrow> bool" where
  "isHardStopped now g \<longleftrightarrow> paused (config g) \<or> haltedUntil g > now"

definition pushObservation :: "millis \<Rightarrow> bool \<Rightarrow> SpendGovernor \<Rightarrow> SpendGovernor" where
  "pushObservation now rejected g =
     trim now (g\<lparr>observations := observations g @ [\<lparr> obs_at = now, obs_rejected = rejected \<rparr>]\<rparr>)"

text \<open>The private method \<open>record\<close>.\<close>

definition recordVerdict :: "millis \<Rightarrow> bool \<Rightarrow> BroadcastTime \<Rightarrow> SpendGovernor \<Rightarrow> SpendGovernor" where
  "recordVerdict now rejected broadcastAt g =
     (case probe g of
        Some p \<Rightarrow>
          if rejected \<and> verdictIsStale broadcastAt (startedAt p) then recordStaleReject g
          else pushObservation now rejected
                 (if rejected then g\<lparr>probe := Some (p\<lparr>probe_rejected := probe_rejected p + 1\<rparr>)\<rparr> else g)
      | None \<Rightarrow>
          if isHardStopped now g then (if rejected then recordStaleReject g else g)
          else if rejected \<and> verdictIsStale broadcastAt (now - windowMs (config g))
          then recordStaleReject g
          else pushObservation now rejected g)"

definition noteBroadcastAccepted :: "millis \<Rightarrow> SpendGovernor \<Rightarrow> SpendGovernor" where
  "noteBroadcastAccepted now g = recordVerdict now False Omitted g"

definition noteTerminalRejection :: "millis \<Rightarrow> BroadcastTime \<Rightarrow> SpendGovernor \<Rightarrow> SpendGovernor" where
  "noteTerminalRejection now broadcastAt g = recordVerdict now True broadcastAt g"

definition noteBroadcastDispatched :: "SpendGovernor \<Rightarrow> SpendGovernor" where
  "noteBroadcastDispatched g =
     (case probe g of None \<Rightarrow> g | Some p \<Rightarrow> g\<lparr>probe := Some (p\<lparr>spent := spent p + 1\<rparr>)\<rparr>)"

definition isPaused :: "SpendGovernor \<Rightarrow> bool" where
  "isPaused g = paused (config g)"

definition beginHalt :: "millis \<Rightarrow> HaltReason \<Rightarrow> SpendGovernor \<Rightarrow> SpendGovernor" where
  "beginHalt now reason g =
     (let cooldown = min (haltCooldownMaxMs (config g))
                         (haltCooldownMs (config g) * 2 ^ consecutiveHalts g)
      in g\<lparr>consecutiveHalts := min (consecutiveHalts g + 1) 16, haltedUntil := now + cooldown,
           lastHaltCooldownMs := cooldown, lastHaltReason := Some reason, probe := None,
           observations := []\<rparr>)"

definition evaluateProbe :: "millis \<Rightarrow> Probe \<Rightarrow> SpendGovernor \<Rightarrow> SpendPosture \<times> SpendGovernor" where
  "evaluateProbe now p g =
     (if probe_rejected p > 0 then (HALTED, beginHalt now Probe_rejected g)
      else
        let budgetSpent = spent p \<ge> probeBudget (config g);
            expired = now - startedAt p \<ge> probeSettleMs (config g) * 3
        in if \<not> budgetSpent \<and> \<not> expired then (PROBING, g)
           else case settleUntil p of
                  None \<Rightarrow> (PROBING,
                    g\<lparr>probe := Some (p\<lparr>settleUntil := Some (now + probeSettleMs (config g))\<rparr>)\<rparr>)
                | Some u \<Rightarrow>
                    if now < u then (PROBING, g)
                    else (NORMAL, g\<lparr>probe := None, consecutiveHalts := 0, observations := []\<rparr>))"

definition openProbe :: "millis \<Rightarrow> SpendGovernor \<Rightarrow> SpendGovernor" where
  "openProbe now g =
     g\<lparr>haltedUntil := 0, observations := [],
       probe := Some \<lparr> startedAt = now, spent = 0, probe_rejected = 0, settleUntil = None \<rparr>\<rparr>"

definition evaluate :: "millis \<Rightarrow> SpendGovernor \<Rightarrow> SpendPosture \<times> SpendGovernor" where
  "evaluate now g0 =
     (if paused (config g0) then (HALTED, g0)
      else
        let g = trim now g0 in
        case probe g of
          Some p \<Rightarrow> evaluateProbe now p g
        | None \<Rightarrow>
            if haltedUntil g > now then (HALTED, g)
            else if haltedUntil g > 0 then (PROBING, openProbe now g)
            else let (rejected, total) = counts g;
                     ratio = real rejected / real total
                 in if total < minSamples (config g) \<or> total = 0 then (NORMAL, g)
                    else if ratio \<ge> haltRatio (config g) then (HALTED, beginHalt now Reject_ratio g)
                    else if ratio \<ge> cautiousRatio (config g) then (CAUTIOUS, g)
                    else (NORMAL, g))"

definition getPosture :: "millis \<Rightarrow> SpendGovernor \<Rightarrow> SpendPosture \<times> SpendGovernor" where
  "getPosture now g = (let (posture, g') = evaluate now g in (posture, g'\<lparr>lastPosture := posture\<rparr>))"

definition allowsBroadcast :: "millis \<Rightarrow> SpendGovernor \<Rightarrow> bool \<times> SpendGovernor" where
  "allowsBroadcast now g =
     (let (posture, g') = getPosture now g in
      (case posture of
         HALTED \<Rightarrow> False
       | PROBING \<Rightarrow>
           (case probe g' of None \<Rightarrow> False
            | Some p \<Rightarrow> settleUntil p = None \<and> spent p < probeBudget (config g'))
       | _ \<Rightarrow> True, g'))"

definition allowsTreasurySpend :: "millis \<Rightarrow> SpendGovernor \<Rightarrow> bool \<times> SpendGovernor" where
  "allowsTreasurySpend now g = allowsBroadcast now g"

definition requeuesFor :: "SpendPosture \<Rightarrow> SpendGuardConfig \<Rightarrow> nat" where
  "requeuesFor posture cfg =
     (case posture of HALTED \<Rightarrow> 0 | PROBING \<Rightarrow> 0 | CAUTIOUS \<Rightarrow> 1 | NORMAL \<Rightarrow> maxRejectRequeues cfg)"

definition depthFor :: "SpendPosture \<Rightarrow> SpendGuardConfig \<Rightarrow> nat" where
  "depthFor posture cfg =
     (if posture = NORMAL then maxUnconfirmedChainDepth cfg else cautiousUnconfirmedChainDepth cfg)"

definition rejectRequeueLimit :: "millis \<Rightarrow> SpendGovernor \<Rightarrow> nat \<times> SpendGovernor" where
  "rejectRequeueLimit now g =
     (let (posture, g') = getPosture now g in (requeuesFor posture (config g'), g'))"

definition chainDepthLimit :: "millis \<Rightarrow> SpendGovernor \<Rightarrow> nat \<times> SpendGovernor" where
  "chainDepthLimit now g =
     (let (posture, g') = getPosture now g in (depthFor posture (config g'), g'))"

record SpendGuardProbeSnapshot =
  ps_spent :: nat
  ps_budget :: nat
  ps_rejected :: nat
  ps_settling :: bool
  ps_settleRemainingMs :: millis

record SpendGuardSnapshot =
  ss_posture :: SpendPosture
  ss_accepted :: nat
  ss_rejected :: nat
  ss_rejectRatio :: real
  ss_windowMs :: millis
  ss_haltRemainingMs :: millis
  ss_paused :: bool
  ss_maxUnconfirmedChainDepth :: nat
  ss_maxRejectRequeues :: nat
  ss_consecutiveHalts :: nat
  ss_lastHaltCooldownMs :: millis
  ss_lastHaltReason :: "HaltReason option"
  ss_staleRejectsWhileHalted :: nat
  ss_probe :: "SpendGuardProbeSnapshot option"

definition snapshotFor :: "millis \<Rightarrow> SpendPosture \<Rightarrow> SpendGovernor \<Rightarrow> SpendGuardSnapshot" where
  "snapshotFor now posture g =
     (let (rejected, total) = counts g in
      \<lparr> ss_posture = posture, ss_accepted = total - rejected, ss_rejected = rejected,
        ss_rejectRatio = (if total = 0 then 0 else real rejected / real total),
        ss_windowMs = windowMs (config g), ss_haltRemainingMs = max 0 (haltedUntil g - now),
        ss_paused = paused (config g),
        ss_maxUnconfirmedChainDepth = depthFor posture (config g),
        ss_maxRejectRequeues = requeuesFor posture (config g),
        ss_consecutiveHalts = consecutiveHalts g,
        ss_lastHaltCooldownMs = lastHaltCooldownMs g, ss_lastHaltReason = lastHaltReason g,
        ss_staleRejectsWhileHalted = staleRejects g,
        ss_probe = map_option (\<lambda>p.
          \<lparr> ps_spent = spent p, ps_budget = probeBudget (config g), ps_rejected = probe_rejected p,
            ps_settling = settleUntil p \<noteq> None,
            ps_settleRemainingMs =
              max 0 ((case settleUntil p of None \<Rightarrow> now | Some u \<Rightarrow> u) - now) \<rparr>) (probe g) \<rparr>)"

definition getSnapshot :: "millis \<Rightarrow> SpendGovernor \<Rightarrow> SpendGuardSnapshot \<times> SpendGovernor" where
  "getSnapshot now g = (let (posture, g') = getPosture now g in (snapshotFor now posture g', g'))"


subsection \<open>Events and the state invariant\<close>

datatype gov_event = Accepted | Rejected BroadcastTime | Dispatched | Checked

fun govStep :: "millis \<times> gov_event \<Rightarrow> SpendGovernor \<Rightarrow> SpendGovernor" where
  "govStep (now, Accepted) g = noteBroadcastAccepted now g"
| "govStep (now, Rejected b) g = noteTerminalRejection now b g"
| "govStep (now, Dispatched) g = noteBroadcastDispatched g"
| "govStep (now, Checked) g = snd (getPosture now g)"

lemmas gov_ops =
  trim_def counts_def recordStaleReject_def isHardStopped_def pushObservation_def
  recordVerdict_def noteBroadcastAccepted_def noteTerminalRejection_def
  noteBroadcastDispatched_def beginHalt_def evaluateProbe_def openProbe_def evaluate_def
  getPosture_def Let_def

definition gov_inv :: "SpendGovernor \<Rightarrow> bool" where
  "gov_inv g \<longleftrightarrow>
     (probe g \<noteq> None \<longrightarrow> haltedUntil g = 0)
     \<and> consecutiveHalts g \<le> 16
     \<and> (lastHaltReason g \<noteq> None \<longrightarrow> lastHaltCooldownMs g \<le> haltCooldownMaxMs (config g))
     \<and> (lastHaltReason g = None \<longrightarrow> probe g = None \<and> haltedUntil g = 0 \<and> consecutiveHalts g = 0)"

lemma config_step [simp]: "config (govStep e g) = config g"
  by (cases "(e, g)" rule: govStep.cases) (auto simp: gov_ops split: option.split)

lemma config_run [simp]: "config (fold govStep es g) = config g"
  by (induction es arbitrary: g) simp_all

lemma gov_inv_new: "gov_inv (newGovernor cfg)"
  by (simp add: gov_inv_def newGovernor_def)

lemma gov_inv_step: "gov_inv g \<Longrightarrow> gov_inv (govStep e g)"
  by (cases "(e, g)" rule: govStep.cases) (auto simp: gov_ops gov_inv_def split: option.splits)

lemma gov_inv_run: "gov_inv g \<Longrightarrow> gov_inv (fold govStep es g)"
  by (induction es arbitrary: g) (simp_all add: gov_inv_step)

lemma halt_reason_stays: "lastHaltReason (govStep e g) = None \<Longrightarrow> lastHaltReason g = None"
  by (cases "(e, g)" rule: govStep.cases) (auto simp: gov_ops split: option.splits if_splits)

subsection \<open>The evidence window\<close>

text \<open>The verdicts of a history that count: a rejection of a broadcast that had already left
the window when it arrived does not.\<close>

fun evidence :: "millis \<Rightarrow> (millis \<times> gov_event) list \<Rightarrow> Observation list" where
  "evidence w [] = []"
| "evidence w ((t, e) # es) =
     (case e of
        Accepted \<Rightarrow> [\<lparr> obs_at = t, obs_rejected = False \<rparr>]
      | Rejected b \<Rightarrow> if verdictIsStale b (t - w) then [] else [\<lparr> obs_at = t, obs_rejected = True \<rparr>]
      | _ \<Rightarrow> []) @ evidence w es"

definition inWindow :: "millis \<Rightarrow> millis \<Rightarrow> Observation list \<Rightarrow> Observation list" where
  "inWindow w now obs = filter (\<lambda>ob. now - w \<le> obs_at ob) obs"

text \<open>The posture the configuration prescribes for a set of observations.\<close>

definition postureFor :: "SpendGuardConfig \<Rightarrow> Observation list \<Rightarrow> SpendPosture" where
  "postureFor cfg obs =
     (let ratio = real (length (filter obs_rejected obs)) / real (length obs) in
      if length obs < minSamples cfg \<or> length obs = 0 then NORMAL
      else if ratio \<ge> haltRatio cfg then HALTED
      else if ratio \<ge> cautiousRatio cfg then CAUTIOUS
      else NORMAL)"

definition times_sorted :: "(millis \<times> 'e) list \<Rightarrow> bool" where
  "times_sorted es \<longleftrightarrow> sorted (map fst es)"

lemma evidence_append: "evidence w (es @ fs) = evidence w es @ evidence w fs"
  by (induction w es rule: evidence.induct) simp_all

lemma evidence_times: "ob \<in> set (evidence w es) \<Longrightarrow> obs_at ob \<in> fst ` set es"
  by (induction w es rule: evidence.induct) (auto split: gov_event.splits if_splits)

lemma evidence_sorted: "times_sorted es \<Longrightarrow> sorted (map obs_at (evidence w es))"
proof (induction w es rule: evidence.induct)
  case (2 w t e es)
  then have "\<forall>ob \<in> set (evidence w es). t \<le> obs_at ob"
    using evidence_times by (fastforce simp: times_sorted_def)
  with 2 show ?case by (cases e) (auto simp: times_sorted_def)
qed simp

lemma dropWhile_sorted:
  "sorted (map obs_at obs) \<Longrightarrow> dropWhile (\<lambda>ob. obs_at ob < c) obs = filter (\<lambda>ob. c \<le> obs_at ob) obs"
proof (induction obs)
  case (Cons ob obs)
  then show ?case
    by (cases "obs_at ob < c") (auto simp: filter_id_conv intro!: sym [OF filter_True])
qed simp

lemma sorted_filter_obs:
  "sorted (map obs_at obs) \<Longrightarrow> sorted (map obs_at (filter P obs))"
  by (rule sorted_filter)

text \<open>A governor that has never halted keeps the evidence from some instant on that is not
later than the window's start.\<close>

definition tracks :: "millis \<Rightarrow> Observation list \<Rightarrow> SpendGovernor \<Rightarrow> bool" where
  "tracks now ev g \<longleftrightarrow>
     (\<exists>c \<le> now - windowMs (config g). observations g = filter (\<lambda>ob. c \<le> obs_at ob) ev)"

lemma tracks_trim:
  assumes "tracks t ev g" and "t \<le> now" and "sorted (map obs_at ev)"
  shows "observations (trim now g) = inWindow (windowMs (config g)) now ev"
proof -
  from assms(1) obtain c where c: "c \<le> t - windowMs (config g)"
    "observations g = filter (\<lambda>ob. c \<le> obs_at ob) ev" by (auto simp: tracks_def)
  have "observations (trim now g) = filter (\<lambda>ob. now - windowMs (config g) \<le> obs_at ob) (observations g)"
    by (simp add: trim_def c(2) dropWhile_sorted sorted_filter_obs assms(3))
  also have "\<dots> = inWindow (windowMs (config g)) now ev"
    using c(1) assms(2) by (auto simp: c(2) inWindow_def intro!: filter_cong)
  finally show ?thesis .
qed

lemma config_check [simp]: "config (snd (getPosture now g)) = config g"
  using config_step [of "(now, Checked)" g] by simp

lemma config_new [simp]: "config (newGovernor cfg) = cfg"
  by (simp add: newGovernor_def)

lemma tracks_push:
  assumes "tracks t ev g" and "sorted (map obs_at ev)" and "\<forall>ob \<in> set ev. obs_at ob \<le> t"
    and "0 \<le> windowMs (config g)" and "t \<le> now"
  shows "tracks now (ev @ [\<lparr> obs_at = t, obs_rejected = r \<rparr>]) (pushObservation t r g)"
proof -
  let ?ob = "\<lparr> obs_at = t, obs_rejected = r \<rparr>"
  from assms(1) obtain c where c: "c \<le> t - windowMs (config g)"
    "observations g = filter (\<lambda>ob. c \<le> obs_at ob) ev" by (auto simp: tracks_def)
  have "tracks t (ev @ [?ob]) (g\<lparr>observations := observations g @ [?ob]\<rparr>)"
    unfolding tracks_def using c assms(4) by (intro exI [of _ c]) simp
  moreover have "sorted (map obs_at (ev @ [?ob]))"
    using assms(2,3) by (auto simp: sorted_append)
  ultimately have "observations (pushObservation t r g) = inWindow (windowMs (config g)) t (ev @ [?ob])"
    using tracks_trim [of t "ev @ [?ob]" "g\<lparr>observations := observations g @ [?ob]\<rparr>" t]
    by (simp add: pushObservation_def)
  then show ?thesis
    using assms(5) unfolding tracks_def
    by (intro exI [of _ "t - windowMs (config g)"])
      (simp add: inWindow_def pushObservation_def trim_def)
qed

lemma tracks_same: "tracks t ev g \<Longrightarrow> t \<le> now \<Longrightarrow> observations g' = observations g \<Longrightarrow>
    config g' = config g \<Longrightarrow> tracks now ev g'"
  unfolding tracks_def by (elim exE conjE, rule_tac x = c in exI) simp

text \<open>A governor that has never halted is in its ordinary mode.\<close>

lemma never_halted:
  "gov_inv g \<Longrightarrow> lastHaltReason g = None \<Longrightarrow> probe g = None \<and> haltedUntil g = 0"
  by (simp add: gov_inv_def)

lemma ordinary_posture:
  assumes "\<not> paused (config g)" and "probe g = None" and "haltedUntil g = 0" and "0 \<le> now"
  shows "fst (evaluate now g) = postureFor (config g) (observations (trim now g))"
  using assms by (simp add: evaluate_def Let_def counts_def postureFor_def trim_def)

lemma ordinary_check:
  assumes "\<not> paused (config g)" and "probe g = None" and "haltedUntil g = 0" and "0 \<le> now"
    and "lastHaltReason (snd (evaluate now g)) = None"
  shows "observations (snd (evaluate now g)) = observations (trim now g)"
  using assms
  by (auto simp: evaluate_def Let_def counts_def trim_def beginHalt_def split: if_splits)

lemma tracks_run:
  assumes "\<not> paused cfg" and "0 \<le> windowMs cfg" and "times_sorted es"
    and "list_all (\<lambda>e. 0 \<le> fst e) es" and "\<forall>e \<in> set es. fst e \<le> now"
    and "lastHaltReason (fold govStep es (newGovernor cfg)) = None"
  shows "tracks now (evidence (windowMs cfg) es) (fold govStep es (newGovernor cfg))"
  using assms(3-)
proof (induction es arbitrary: now rule: rev_induct)
  case Nil
  then show ?case by (auto simp: tracks_def newGovernor_def)
next
  case (snoc e es)
  obtain t ev where e: "e = (t, ev)" by force
  let ?w = "windowMs cfg" and ?g = "fold govStep es (newGovernor cfg)"
  from snoc.prems have pre: "times_sorted es" "list_all (\<lambda>e. 0 \<le> fst e) es"
    "\<forall>e \<in> set es. fst e \<le> t" "0 \<le> t" "t \<le> now" and nh: "lastHaltReason ?g = None"
    by (auto simp: times_sorted_def sorted_append e dest: halt_reason_stays)
  note tr = snoc.IH [OF pre(1,2,3) nh]
  have cfg: "config ?g = cfg" by simp
  have ord: "probe ?g = None" "haltedUntil ?g = 0"
    using never_halted [OF gov_inv_run [OF gov_inv_new] nh] by simp_all
  have srt: "sorted (map obs_at (evidence ?w es))" by (rule evidence_sorted [OF pre(1)])
  have le: "\<forall>ob \<in> set (evidence ?w es). obs_at ob \<le> t"
    using evidence_times pre(3) by fastforce
  note push = tracks_push [OF tr srt le _ pre(5)]
  show ?case
  proof (cases ev)
    case Accepted
    then show ?thesis
      using push [of False] assms(1,2) ord pre(4)
      by (simp add: e evidence_append noteBroadcastAccepted_def recordVerdict_def
          isHardStopped_def cfg)
  next
    case (Rejected b)
    show ?thesis
    proof (cases "verdictIsStale b (t - ?w)")
      case True
      then show ?thesis
        using Rejected tracks_same [OF tr pre(5)] ord pre(4) assms(1)
        by (simp add: e evidence_append noteTerminalRejection_def recordVerdict_def
            isHardStopped_def cfg recordStaleReject_def)
    next
      case False
      then show ?thesis
        using Rejected push [of True] assms(1,2) ord pre(4)
        by (simp add: e evidence_append noteTerminalRejection_def recordVerdict_def
            isHardStopped_def cfg)
    qed
  next
    case Dispatched
    then show ?thesis
      using tracks_same [OF tr pre(5)] ord
      by (simp add: e evidence_append noteBroadcastDispatched_def)
  next
    case Checked
    have post: "govStep e ?g = (snd (evaluate t ?g))\<lparr>lastPosture := fst (evaluate t ?g)\<rparr>"
      by (simp add: e Checked getPosture_def Let_def case_prod_unfold)
    then have "lastHaltReason (snd (evaluate t ?g)) = None" using snoc.prems(4) by simp
    then have "observations (govStep e ?g) = inWindow ?w t (evidence ?w es)"
      using ordinary_check [of ?g t] tracks_trim [OF tr order.refl srt] ord assms(1) pre(4)
      by (simp add: post cfg)
    then show ?thesis
      unfolding tracks_def using pre(5)
      by (intro exI [of _ "t - ?w"]) (simp add: e Checked evidence_append inWindow_def cfg)
  qed
qed


text \<open>A configuration with the defaults of \<open>config.ts\<close>, but a smaller sample floor.\<close>

definition demoGuard :: SpendGuardConfig where
  "demoGuard =
     \<lparr> paused = False, windowMs = 120000, minSamples = 4, cautiousRatio = 8 / 100,
       haltRatio = 25 / 100, haltCooldownMs = 300000, haltCooldownMaxMs = 3600000,
       probeBudget = 20, probeSettleMs = 45000, maxUnconfirmedChainDepth = 20,
       cautiousUnconfirmedChainDepth = 1, maxRejectRequeues = 3 \<rparr>"

lemmas gov_eval = gov_ops newGovernor_def demoGuard_def


subsection \<open>Halts\<close>

definition halted :: "SpendGovernor \<Rightarrow> bool" where
  "halted g \<longleftrightarrow> \<not> paused (config g) \<and> probe g = None \<and> haltedUntil g > 0"

text \<open>While a halt lasts, no event changes more than the count of stale rejections.\<close>

lemma halt_step:
  assumes "halted g" and "fst e < haltedUntil g"
  shows "halted (govStep e g) \<and> haltedUntil (govStep e g) = haltedUntil g
       \<and> consecutiveHalts (govStep e g) = consecutiveHalts g
       \<and> lastHaltCooldownMs (govStep e g) = lastHaltCooldownMs g"
  using assms
  by (cases "(e, g)" rule: govStep.cases) (auto simp: halted_def gov_ops split: option.split)

lemma halt_run:
  assumes "halted g" and "list_all (\<lambda>e. fst e < haltedUntil g) es"
  shows "halted (fold govStep es g) \<and> haltedUntil (fold govStep es g) = haltedUntil g
       \<and> consecutiveHalts (fold govStep es g) = consecutiveHalts g
       \<and> lastHaltCooldownMs (fold govStep es g) = lastHaltCooldownMs g"
  using assms
proof (induction es arbitrary: g)
  case (Cons e es)
  then have e: "halted g" "fst e < haltedUntil g" by simp_all
  from halt_step [OF this] Cons.prems(2) Cons.IH [of "govStep e g"] show ?case by simp
qed simp

lemma halted_closed: "halted g \<Longrightarrow> now < haltedUntil g \<Longrightarrow> fst (getPosture now g) = HALTED"
  by (simp add: halted_def gov_ops)

lemma halt_over:
  assumes "halted g" and "haltedUntil g \<le> now"
  shows "getPosture now g = (PROBING, (openProbe now (trim now g))\<lparr>lastPosture := PROBING\<rparr>)"
  using assms by (simp add: halted_def gov_ops)

text \<open>
  A halt stops everything and ends on time. Before \<open>haltedUntil\<close>, whatever accepted and
  rejected verdicts arrive and however often the posture is read, every read is \<open>HALTED\<close>, no
  broadcast is allowed, and the end of the halt does not move; the first read at or after it
  opens a trial that may broadcast when the budget is positive.
\<close>

lemma halt_ends_on_time:
  assumes "halted g" and "list_all (\<lambda>e. fst e < haltedUntil g) es"
    and "now < haltedUntil g" and "haltedUntil g \<le> later"
  shows "fst (getPosture now (fold govStep es g)) = HALTED
       \<and> \<not> fst (allowsBroadcast now (fold govStep es g))
       \<and> fst (getPosture later (fold govStep es g)) = PROBING
       \<and> (fst (allowsBroadcast later (fold govStep es g)) \<longleftrightarrow> 0 < probeBudget (config g))"
  using halt_run [OF assms(1,2)] assms(3,4)
  by (simp add: allowsBroadcast_def case_prod_unfold Let_def halted_closed halt_over)
     (simp add: openProbe_def trim_def)

subsection \<open>Trials\<close>

text \<open>A failed trial: a read at or after the end of the halt opens it, a rejection of one of
its own broadcasts arrives, and the next read halts again.\<close>

definition failTrial :: "millis \<times> millis \<times> millis \<Rightarrow> SpendGovernor \<Rightarrow> SpendGovernor" where
  "failTrial = (\<lambda>(t1, t2, t3) g.
     fold govStep [(t1, Checked), (t1, Dispatched), (t2, Rejected (AtMs t1)), (t3, Checked)] g)"

definition backoff :: "SpendGuardConfig \<Rightarrow> nat \<Rightarrow> millis" where
  "backoff cfg k = min (haltCooldownMaxMs cfg) (haltCooldownMs cfg * 2 ^ k)"

lemma failTrial_halts:
  assumes "halted g" and "haltedUntil g \<le> t1"
  shows "haltedUntil (failTrial (t1, t2, t3) g) = t3 + backoff (config g) (consecutiveHalts g)"
    and "lastHaltCooldownMs (failTrial (t1, t2, t3) g) = backoff (config g) (consecutiveHalts g)"
    and "consecutiveHalts (failTrial (t1, t2, t3) g) = min (consecutiveHalts g + 1) 16"
    and "probe (failTrial (t1, t2, t3) g) = None"
    and "config (failTrial (t1, t2, t3) g) = config g"
  using assms
  by (simp_all add: failTrial_def halt_over)
     (simp_all add: halted_def gov_ops backoff_def)

text \<open>A sequence of failed trials, each started when the halt before it is over.\<close>

fun failedTrials :: "(millis \<times> millis \<times> millis) list \<Rightarrow> SpendGovernor \<Rightarrow> bool" where
  "failedTrials [] g \<longleftrightarrow> True"
| "failedTrials ((t1, t2, t3) # ts) g \<longleftrightarrow>
     haltedUntil g \<le> t1 \<and> t1 \<le> t2 \<and> t2 \<le> t3 \<and> failedTrials ts (failTrial (t1, t2, t3) g)"

lemma backoff_pos:
  "0 < haltCooldownMs cfg \<Longrightarrow> 0 < haltCooldownMaxMs cfg \<Longrightarrow> 0 < backoff cfg k"
  by (simp add: backoff_def)

lemma failed_run:
  assumes "halted g" and "failedTrials ts g"
    and "0 < haltCooldownMs (config g)" and "0 < haltCooldownMaxMs (config g)"
    and "consecutiveHalts g \<le> 16"
  shows "halted (fold failTrial ts g)
       \<and> consecutiveHalts (fold failTrial ts g) = min (consecutiveHalts g + length ts) 16
       \<and> config (fold failTrial ts g) = config g"
  using assms
proof (induction ts arbitrary: g)
  case (Cons t ts)
  obtain t1 t2 t3 where t: "t = (t1, t2, t3)" by (metis prod_cases3)
  from Cons.prems(2) have due: "haltedUntil g \<le> t1" "t1 \<le> t2" "t2 \<le> t3"
    and rest: "failedTrials ts (failTrial t g)" by (simp_all add: t)
  note h = failTrial_halts [OF Cons.prems(1) due(1), of t2 t3, folded t]
  have "halted (failTrial t g)"
    using h Cons.prems(1) due backoff_pos [OF Cons.prems(3,4), of "consecutiveHalts g"]
    by (simp add: halted_def)
  from Cons.IH [OF this rest] Cons.prems(3-5) h show ?case by simp
qed simp

text \<open>
  C13: failed trials back off exponentially. From a halted state with \<open>k\<close> consecutive halts,
  after \<open>n\<close> failed trials in a row a further failed trial halts for
  \<open>min haltCooldownMaxMs (haltCooldownMs * 2 ^ min (k + n) 16)\<close>: the wait doubles with every
  trial up to the ceiling, and one rejection of a trial broadcast is decisive.
\<close>

theorem failed_trials_back_off:
  assumes "halted g" and "failedTrials (ts @ [(t1, t2, t3)]) g"
    and "0 < haltCooldownMs (config g)" and "0 < haltCooldownMaxMs (config g)"
    and "consecutiveHalts g \<le> 16"
  shows "haltedUntil (fold failTrial (ts @ [(t1, t2, t3)]) g)
           = t3 + min (haltCooldownMaxMs (config g))
                      (haltCooldownMs (config g) * 2 ^ min (consecutiveHalts g + length ts) 16)"
proof -
  have split: "failedTrials ts g \<and> haltedUntil (fold failTrial ts g) \<le> t1"
    using assms(2) by (induction ts g rule: failedTrials.induct) simp_all
  from failed_run [OF assms(1) conjunct1 [OF split] assms(3-5)]
    failTrial_halts(1) [of "fold failTrial ts g" t1 t2 t3] split
  show ?thesis by (simp add: backoff_def)
qed

theorem failed_trials_back_off_witness:
  "haltedUntil (fold failTrial [(300000, 300001, 310000), (910000, 920000, 930000)]
      ((newGovernor demoGuard)\<lparr>haltedUntil := 300000, consecutiveHalts := 1\<rparr>)) = 930000 + 1200000"
proof -
  let ?g = "(newGovernor demoGuard)\<lparr>haltedUntil := 300000, consecutiveHalts := 1\<rparr>"
  have h: "halted ?g" by (simp add: halted_def newGovernor_def demoGuard_def)
  have "failedTrials ([(300000, 300001, 310000)] @ [(910000, 920000, 930000)]) ?g"
    using failTrial_halts(1) [OF h, of 300000 300001 310000]
    by (simp add: newGovernor_def demoGuard_def backoff_def)
  from failed_trials_back_off [OF h this] show ?thesis
    by (simp add: newGovernor_def demoGuard_def)
qed

lemma halt_ends_on_time_witness:
  "let g = (newGovernor demoGuard)\<lparr>haltedUntil := 300000\<rparr>;
       g' = fold govStep [(1000, Accepted), (2000, Rejected Null), (3000, Checked)] g
   in fst (getPosture 4000 g') = HALTED \<and> fst (allowsBroadcast 300000 g')"
proof -
  let ?g = "(newGovernor demoGuard)\<lparr>haltedUntil := 300000\<rparr>"
  have "halted ?g" by (simp add: halted_def newGovernor_def demoGuard_def)
  from halt_ends_on_time [OF this, of "[(1000, Accepted), (2000, Rejected Null), (3000, Checked)]" 4000 300000]
  show ?thesis by (simp add: newGovernor_def demoGuard_def Let_def)
qed

text \<open>A trial that waits for its verdict until \<open>u\<close>, and the events that leave it clean.\<close>

definition settling :: "SpendGuardConfig \<Rightarrow> millis \<Rightarrow> millis \<Rightarrow> SpendGovernor \<Rightarrow> bool" where
  "settling cfg u s g \<longleftrightarrow>
     config g = cfg \<and> \<not> paused cfg \<and> 0 \<le> probeSettleMs cfg
     \<and> (\<exists>q. probe g = Some q \<and> startedAt q = s \<and> probe_rejected q = 0 \<and> settleUntil q = Some u
          \<and> (probeBudget cfg \<le> spent q \<or> u - probeSettleMs cfg - s \<ge> probeSettleMs cfg * 3))"

definition harmless :: "millis \<Rightarrow> millis \<Rightarrow> millis \<Rightarrow> millis \<times> gov_event \<Rightarrow> bool" where
  "harmless u settle s e \<longleftrightarrow>
     u - settle \<le> fst e \<and> fst e < u
     \<and> (case snd e of Rejected b \<Rightarrow> verdictIsStale b s | _ \<Rightarrow> True)"

lemma settling_step:
  assumes "settling cfg u s g" and "harmless u (probeSettleMs cfg) s e"
  shows "settling cfg u s (govStep e g)"
  using assms
  by (cases "(e, g)" rule: govStep.cases) (auto simp: settling_def harmless_def gov_ops)

lemma settling_run:
  "settling cfg u s g \<Longrightarrow> list_all (harmless u (probeSettleMs cfg) s) es \<Longrightarrow>
     settling cfg u s (fold govStep es g)"
  by (induction es arbitrary: g) (simp_all add: settling_step)

lemma settled:
  assumes "settling cfg u s g" and "u \<le> now"
  shows "fst (getPosture now g) = NORMAL \<and> consecutiveHalts (snd (getPosture now g)) = 0"
  using assms by (auto simp: settling_def gov_ops)

text \<open>
  C14: a clean trial restores normal spending. If a trial has had no rejection, a read after its
  budget is spent or three settle periods have passed starts the settling wait (if it has not
  started), and, with any dispatches, accepted verdicts, stale rejections and reads in between,
  the first read one settle period later is \<open>NORMAL\<close> with the backoff reset.
\<close>

theorem clean_trial_recovers:
  assumes "\<not> paused (config g)" and "probe g = Some p" and "probe_rejected p = 0"
    and "settleUntil p = None \<and> 0 \<le> probeSettleMs (config g)"
    and "spent p \<ge> probeBudget (config g) \<or> t - startedAt p \<ge> probeSettleMs (config g) * 3"
    and "list_all (\<lambda>(t', e). t \<le> t' \<and> t' < t + probeSettleMs (config g)
            \<and> (case e of Rejected b \<Rightarrow> verdictIsStale b (startedAt p) | _ \<Rightarrow> True)) es"
    and "t + probeSettleMs (config g) \<le> later"
  shows "fst (getPosture later (fold govStep es (snd (getPosture t g)))) = NORMAL
       \<and> consecutiveHalts (snd (getPosture later (fold govStep es (snd (getPosture t g))))) = 0"
proof -
  let ?u = "t + probeSettleMs (config g)" and ?g1 = "snd (getPosture t g)"
  have "settling (config g) ?u (startedAt p) ?g1"
    using assms(1-5)
    by (auto simp: settling_def gov_ops split: if_splits)
  moreover have "list_all (harmless ?u (probeSettleMs (config g)) (startedAt p)) es"
    using assms(6) by (simp add: list_all_iff harmless_def split_beta)
  ultimately have "settling (config g) ?u (startedAt p) (fold govStep es ?g1)"
    by (rule settling_run)
  from settled [OF this assms(7)] show ?thesis .
qed

theorem clean_trial_recovers_witness:
  "fst (getPosture 500000 (fold govStep
      [(430000, Rejected (AtMs 100)), (440000, Checked), (441000, Accepted)]
      (snd (getPosture 430000 ((newGovernor demoGuard)\<lparr>consecutiveHalts := 3,
         probe := Some \<lparr> startedAt = 300000, spent = 20, probe_rejected = 0, settleUntil = None \<rparr>\<rparr>)))))
     = NORMAL"
proof -
  let ?p = "\<lparr> startedAt = 300000, spent = 20, probe_rejected = 0, settleUntil = None \<rparr>"
  let ?g = "(newGovernor demoGuard)\<lparr>consecutiveHalts := 3, probe := Some ?p\<rparr>"
  show ?thesis
    using clean_trial_recovers [of ?g ?p 430000
        "[(430000, Rejected (AtMs 100)), (440000, Checked), (441000, Accepted)]" 500000]
    by (simp add: newGovernor_def demoGuard_def)
qed

end
