(* ===== verification/Broadcast_Gate.thy ===== *)
theory Broadcast_Gate
  imports Spend_Governor
begin

text \<open>
  The single point a transaction passes before it is sent:
  \<open>services/blockchain-writer/src/broadcast-hold.ts\<close> and \<open>governed-broadcaster.ts\<close>.

  \<open>GovernedBroadcaster\<close> holds the governor, the process-wide hold and the refusal counters. The
  upstream it wraps is the parameter \<open>inner\<close>, a function of the transaction and its options
  that changes the state of the network and returns an outcome. The interface \<open>trial_gate\<close>
  states what a gate promises about the allowance of a trial; the broadcaster is its
  interpretation, over every event of the writer.
\<close>

subsection \<open>Broadcast hold\<close>

record BroadcastHold =
  globallyHeld :: bool
  fundingBlocked :: bool
  blockedAircraft :: "string set"

definition newHold :: BroadcastHold where
  "newHold = \<lparr> globallyHeld = False, fundingBlocked = False, blockedAircraft = {} \<rparr>"

definition holdAll :: "BroadcastHold \<Rightarrow> BroadcastHold" where
  "holdAll h = h\<lparr>globallyHeld := True\<rparr>"

definition releaseAll :: "BroadcastHold \<Rightarrow> BroadcastHold" where
  "releaseAll h = h\<lparr>globallyHeld := False\<rparr>"

definition isHeld :: "BroadcastHold \<Rightarrow> bool" where
  "isHeld h = globallyHeld h"

definition blockAircraft :: "string \<Rightarrow> BroadcastHold \<Rightarrow> BroadcastHold" where
  "blockAircraft icao h =
     (let key = normaliseIcao icao in
      if key \<noteq> [] then h\<lparr>blockedAircraft := insert key (blockedAircraft h)\<rparr> else h)"

definition unblockAircraft :: "string \<Rightarrow> BroadcastHold \<Rightarrow> BroadcastHold" where
  "unblockAircraft icao h = h\<lparr>blockedAircraft := blockedAircraft h - {normaliseIcao icao}\<rparr>"

definition blockFunding :: "BroadcastHold \<Rightarrow> BroadcastHold" where
  "blockFunding h = h\<lparr>fundingBlocked := True\<rparr>"

definition unblockFunding :: "BroadcastHold \<Rightarrow> BroadcastHold" where
  "unblockFunding h = h\<lparr>fundingBlocked := False\<rparr>"

definition blocksFunding :: "BroadcastHold \<Rightarrow> bool" where
  "blocksFunding h \<longleftrightarrow> globallyHeld h \<or> fundingBlocked h"

definition blocksAircraft :: "string \<Rightarrow> BroadcastHold \<Rightarrow> bool" where
  "blocksAircraft icao h \<longleftrightarrow> globallyHeld h \<or> normaliseIcao icao \<in> blockedAircraft h"

datatype BroadcastKind = Telemetry | Flight_event | Retry | Refill | Consolidation | Tx

definition noAircraft :: "string option \<Rightarrow> bool" where
  "noAircraft icao \<longleftrightarrow> (case icao of None \<Rightarrow> True | Some s \<Rightarrow> s = [] \<or> take 6 s = ''AGENT:'')"

definition blocksBroadcast :: "string option \<Rightarrow> BroadcastKind option \<Rightarrow> BroadcastHold \<Rightarrow> bool" where
  "blocksBroadcast icao kind h =
     (if globallyHeld h then True
      else if fundingBlocked h \<and> (kind = Some Refill \<or> noAircraft icao) then True
      else if noAircraft icao then False
      else normaliseIcao (the icao) \<in> blockedAircraft h)"

definition resetHold :: "BroadcastHold \<Rightarrow> BroadcastHold" where
  "resetHold h = h\<lparr>globallyHeld := False, fundingBlocked := False, blockedAircraft := {}\<rparr>"

subsection \<open>Governed broadcaster\<close>

record GovernedBroadcaster =
  governor :: SpendGovernor
  hold :: BroadcastHold
  refusedSinceLastLog :: nat
  lastRefusalLogAt :: millis
  refusalLogIntervalMs :: millis

record request =
  rq_now :: millis
  rq_icao :: "string option"
  rq_kind :: "BroadcastKind option"

datatype 'o gate_result = SpendHalted | Sent 'o

definition newBroadcaster :: "SpendGovernor \<Rightarrow> BroadcastHold \<Rightarrow> millis \<Rightarrow> GovernedBroadcaster" where
  "newBroadcaster g h interval =
     \<lparr> governor = g, hold = h, refusedSinceLastLog = 0, lastRefusalLogAt = 0,
       refusalLogIntervalMs = interval \<rparr>"

text \<open>The periodic summary reads the posture, which may move the governor.\<close>

definition noteRefusal :: "millis \<Rightarrow> GovernedBroadcaster \<Rightarrow> GovernedBroadcaster" where
  "noteRefusal now gb =
     (let gb = gb\<lparr>refusedSinceLastLog := refusedSinceLastLog gb + 1\<rparr> in
      if now - lastRefusalLogAt gb < refusalLogIntervalMs gb then gb
      else gb\<lparr>governor := snd (getPosture now (governor gb)), lastRefusalLogAt := now,
              refusedSinceLastLog := 0\<rparr>)"

text \<open>The decision of \<open>broadcast\<close>: the hold first, the governor only if the hold lets it pass.\<close>

definition gateCheck :: "request \<Rightarrow> GovernedBroadcaster \<Rightarrow> bool \<times> GovernedBroadcaster" where
  "gateCheck rq gb =
     (if blocksBroadcast (rq_icao rq) (rq_kind rq) (hold gb)
      then (False, noteRefusal (rq_now rq) gb)
      else let (ok, g') = allowsBroadcast (rq_now rq) (governor gb);
               gb' = gb\<lparr>governor := g'\<rparr>
           in if ok then (True, gb') else (False, noteRefusal (rq_now rq) gb'))"

definition gateDispatch :: "GovernedBroadcaster \<Rightarrow> GovernedBroadcaster" where
  "gateDispatch gb = gb\<lparr>governor := noteBroadcastDispatched (governor gb)\<rparr>"

definition broadcast ::
  "('tx \<Rightarrow> request \<Rightarrow> 'n \<Rightarrow> 'o \<times> 'n) \<Rightarrow> 'tx \<Rightarrow> request \<Rightarrow> GovernedBroadcaster \<times> 'n
     \<Rightarrow> 'o gate_result \<times> GovernedBroadcaster \<times> 'n" where
  "broadcast inner tx rq s =
     (let (gb, net) = s; (ok, gb') = gateCheck rq gb in
      if \<not> ok then (SpendHalted, gb', net)
      else let (outcome, net') = inner tx rq net in (Sent outcome, gateDispatch gb', net'))"

subsection \<open>The writer's events at the gate\<close>

text \<open>What can happen between two broadcasts: a verdict or a posture read of the governor, and
an operation of the hold.\<close>

datatype gate_event =
  Gov_event millis gov_event
| Hold_all | Release_all | Block_aircraft string | Unblock_aircraft string
| Block_funding | Unblock_funding | Reset_hold

fun gateEvent :: "gate_event \<Rightarrow> GovernedBroadcaster \<Rightarrow> GovernedBroadcaster" where
  "gateEvent (Gov_event t e) gb = gb\<lparr>governor := govStep (t, e) (governor gb)\<rparr>"
| "gateEvent Hold_all gb = gb\<lparr>hold := holdAll (hold gb)\<rparr>"
| "gateEvent Release_all gb = gb\<lparr>hold := releaseAll (hold gb)\<rparr>"
| "gateEvent (Block_aircraft i) gb = gb\<lparr>hold := blockAircraft i (hold gb)\<rparr>"
| "gateEvent (Unblock_aircraft i) gb = gb\<lparr>hold := unblockAircraft i (hold gb)\<rparr>"
| "gateEvent Block_funding gb = gb\<lparr>hold := blockFunding (hold gb)\<rparr>"
| "gateEvent Unblock_funding gb = gb\<lparr>hold := unblockFunding (hold gb)\<rparr>"
| "gateEvent Reset_hold gb = gb\<lparr>hold := resetHold (hold gb)\<rparr>"

datatype ('r, 'e) gate_action = Attempt 'r | Environment 'e

text \<open>
  The number of admitted attempts of a run during the trial it starts in or opens: counting
  stops as soon as the gate is no longer in a trial after an action. \<open>credit\<close> is the allowance
  left, \<open>None\<close> outside a trial.
\<close>

fun trialSends ::
  "('r \<Rightarrow> 'g \<Rightarrow> bool \<times> 'g) \<Rightarrow> ('g \<Rightarrow> 'g) \<Rightarrow> ('e \<Rightarrow> 'g \<Rightarrow> 'g) \<Rightarrow> ('g \<Rightarrow> nat option)
     \<Rightarrow> ('r, 'e) gate_action list \<Rightarrow> 'g \<Rightarrow> nat" where
  "trialSends allow dispatch env credit [] g = 0"
| "trialSends allow dispatch env credit (Attempt r # as) g =
     (let (ok, g1) = allow r g; g' = (if ok then dispatch g1 else g1) in
      if credit g' = None then 0
      else (if ok then 1 else 0) + trialSends allow dispatch env credit as g')"
| "trialSends allow dispatch env credit (Environment e # as) g =
     (let g' = env e g in
      if credit g' = None then 0 else trialSends allow dispatch env credit as g')"

locale trial_gate =
  fixes allow :: "'r \<Rightarrow> 'g \<Rightarrow> bool \<times> 'g"
    and dispatch :: "'g \<Rightarrow> 'g"
    and env :: "'e \<Rightarrow> 'g \<Rightarrow> 'g"
    and inv :: "'g \<Rightarrow> bool"
    and credit :: "'g \<Rightarrow> nat option"
    and budget :: "'g \<Rightarrow> nat"
  assumes allow_inv: "inv g \<Longrightarrow> inv (snd (allow r g))"
    and dispatch_inv: "inv g \<Longrightarrow> inv (dispatch g)"
    and env_inv: "inv g \<Longrightarrow> inv (env e g)"
    and allow_credit: "allow r g = (True, g') \<Longrightarrow> credit g' = Some n \<Longrightarrow> 0 < n"
    and allow_bound: "inv g \<Longrightarrow> credit (snd (allow r g)) = Some n \<Longrightarrow>
           n \<le> (case credit g of None \<Rightarrow> budget g | Some m \<Rightarrow> m)"
    and env_bound: "inv g \<Longrightarrow> credit (env e g) = Some n \<Longrightarrow>
           n \<le> (case credit g of None \<Rightarrow> budget g | Some m \<Rightarrow> m)"
    and dispatch_credit: "credit (dispatch g) = map_option (\<lambda>n. n - 1) (credit g)"
begin

lemma sends_bounded:
  "inv g \<Longrightarrow> trialSends allow dispatch env credit as g
     \<le> (case credit g of None \<Rightarrow> budget g | Some n \<Rightarrow> n)"
proof (induction as arbitrary: g)
  case Nil
  then show ?case by simp
next
  case (Cons a as)
  show ?case
  proof (cases a)
    case (Environment e)
    then show ?thesis
      using Cons.IH [OF env_inv [OF Cons.prems, of e]] env_bound [OF Cons.prems, of e]
      by (fastforce simp: Let_def split: option.splits)
  next
    case (Attempt r)
    obtain ok g1 where a: "allow r g = (ok, g1)" by force
    have inv1: "inv g1" using allow_inv [OF Cons.prems, of r] a by simp
    show ?thesis
    proof (cases ok)
      case False
      then show ?thesis
        using Attempt a Cons.IH [OF inv1] allow_bound [OF Cons.prems, of r]
        by (fastforce simp: Let_def split: option.splits)
    next
      case True
      show ?thesis
      proof (cases "credit g1")
        case None
        then show ?thesis using Attempt a True by (simp add: Let_def dispatch_credit)
      next
        case (Some n)
        then have "0 < n" "n \<le> (case credit g of None \<Rightarrow> budget g | Some m \<Rightarrow> m)"
          using allow_credit [of r g g1 n] allow_bound [OF Cons.prems, of r n] a True by simp_all
        then show ?thesis
          using Attempt a True Some Cons.IH [OF dispatch_inv [OF inv1]]
          by (simp add: Let_def dispatch_credit)
      qed
    qed
  qed
qed

end

subsection \<open>The broadcaster is such a gate\<close>

definition trialCredit :: "GovernedBroadcaster \<Rightarrow> nat option" where
  "trialCredit gb =
     map_option (\<lambda>p. probeBudget (config (governor gb)) - spent p) (probe (governor gb))"

definition trialBudget :: "GovernedBroadcaster \<Rightarrow> nat" where
  "trialBudget gb = probeBudget (config (governor gb))"

definition govCredit :: "SpendGovernor \<Rightarrow> nat option" where
  "govCredit g = map_option (\<lambda>p. probeBudget (config g) - spent p) (probe g)"

lemma govCredit_step:
  "govCredit (govStep e g) = Some n \<Longrightarrow>
     n \<le> (case govCredit g of None \<Rightarrow> probeBudget (config g) | Some m \<Rightarrow> m)"
  by (cases "(e, g)" rule: govStep.cases)
     (auto simp: govCredit_def gov_ops split: option.splits if_splits)

lemma govCredit_check:
  "govCredit (snd (getPosture now g)) = Some n \<Longrightarrow>
     n \<le> (case govCredit g of None \<Rightarrow> probeBudget (config g) | Some m \<Rightarrow> m)"
  using govCredit_step [of "(now, Checked)" g n] by simp

lemma allowsBroadcast_snd: "snd (allowsBroadcast now g) = snd (getPosture now g)"
  by (simp add: allowsBroadcast_def case_prod_unfold Let_def)

lemma allowsBroadcast_credit:
  "allowsBroadcast now g = (True, g') \<Longrightarrow> govCredit g' = Some n \<Longrightarrow> 0 < n"
  by (auto simp: govCredit_def allowsBroadcast_def gov_ops split: option.splits if_splits)

lemma trialCredit_gov: "trialCredit gb = govCredit (governor gb)"
  by (simp add: trialCredit_def govCredit_def)

text \<open>The state the gate needs: a coherent governor whose cooldowns are positive.\<close>

definition gate_inv :: "GovernedBroadcaster \<Rightarrow> bool" where
  "gate_inv gb \<longleftrightarrow>
     gov_inv (governor gb)
     \<and> 0 < haltCooldownMs (config (governor gb)) \<and> 0 < haltCooldownMaxMs (config (governor gb))"

lemma trial_closed:
  assumes "gov_inv g" and "0 < haltCooldownMs (config g)" and "0 < haltCooldownMaxMs (config g)"
    and "probe g = Some p" and "probe (snd (getPosture now g)) = None"
  shows "haltedUntil (snd (getPosture now g)) = 0 \<or> now < haltedUntil (snd (getPosture now g))"
proof -
  have np: "\<not> paused (config g)" using assms(4,5) by (auto simp: gov_ops)
  have h0: "haltedUntil g = 0" using assms(1,4) by (simp add: gov_inv_def)
  show ?thesis
  proof (cases "probe_rejected p > 0")
    case True
    then show ?thesis
      using np assms(4) backoff_pos [OF assms(2,3), of "consecutiveHalts g"]
      by (simp add: getPosture_def evaluate_def evaluateProbe_def beginHalt_def trim_def Let_def
          backoff_def)
  next
    case False
    then show ?thesis
      using np assms(4) h0
      by (simp add: getPosture_def evaluate_def evaluateProbe_def trim_def Let_def split: option.split)
  qed
qed

lemma no_trial_opens:
  "probe g = None \<Longrightarrow> haltedUntil g = 0 \<or> now < haltedUntil g \<Longrightarrow> probe (snd (getPosture now g)) = None"
  by (auto simp: gov_ops)

lemma govCredit_check_twice:
  assumes "gov_inv g" and "0 < haltCooldownMs (config g)" and "0 < haltCooldownMaxMs (config g)"
    and "govCredit (snd (getPosture now (snd (getPosture now g)))) = Some n"
  shows "n \<le> (case govCredit g of None \<Rightarrow> probeBudget (config g) | Some m \<Rightarrow> m)"
proof (cases "govCredit g")
  case None
  then show ?thesis
    using govCredit_check [OF assms(4)] govCredit_check [of now g]
    by (fastforce split: option.splits)
next
  case (Some m)
  have "govCredit (snd (getPosture now g)) \<noteq> None"
  proof
    assume none: "govCredit (snd (getPosture now g)) = None"
    with Some obtain p where p: "probe g = Some p" "probe (snd (getPosture now g)) = None"
      by (auto simp: govCredit_def)
    from no_trial_opens [OF p(2) trial_closed [OF assms(1-3) p]] assms(4) show False
      by (simp add: govCredit_def)
  qed
  then show ?thesis
    using govCredit_check [OF assms(4)] govCredit_check [of now g] Some
    by (fastforce split: option.splits)
qed

lemma gateCheck_governor:
  "governor (snd (gateCheck rq gb)) \<in>
     {governor gb, snd (getPosture (rq_now rq) (governor gb)),
      snd (getPosture (rq_now rq) (snd (getPosture (rq_now rq) (governor gb))))}"
  by (auto simp: gateCheck_def noteRefusal_def Let_def case_prod_unfold allowsBroadcast_snd)

lemma gov_inv_check: "gov_inv g \<Longrightarrow> gov_inv (snd (getPosture now g))"
  using gov_inv_step [of g "(now, Checked)"] by simp

interpretation gate: trial_gate gateCheck gateDispatch gateEvent gate_inv trialCredit trialBudget
proof unfold_locales
  fix gb gb' :: GovernedBroadcaster and rq n e
  show "gate_inv (snd (gateCheck rq gb))" if "gate_inv gb"
    using gateCheck_governor [of rq gb] that by (auto simp: gate_inv_def gov_inv_check)
  show "gate_inv (gateDispatch gb)" if "gate_inv gb"
    using that gov_inv_step [of "governor gb" "(0, Dispatched)"]
      config_step [of "(0, Dispatched)" "governor gb"]
    by (simp add: gate_inv_def gateDispatch_def)
  show "gate_inv (gateEvent e gb)" if "gate_inv gb"
    using that by (cases e) (auto simp: gate_inv_def gov_inv_step)
  show "0 < n" if "gateCheck rq gb = (True, gb')" "trialCredit gb' = Some n"
    using that allowsBroadcast_credit [of "rq_now rq" "governor gb"]
    by (auto simp: gateCheck_def Let_def case_prod_unfold trialCredit_gov prod_eq_iff split: if_splits)
  show "n \<le> (case trialCredit gb of None \<Rightarrow> trialBudget gb | Some m \<Rightarrow> m)"
    if "gate_inv gb" "trialCredit (snd (gateCheck rq gb)) = Some n"
    using gateCheck_governor [of rq gb] that govCredit_check [of "rq_now rq" "governor gb" n]
      govCredit_check_twice [of "governor gb" "rq_now rq" n]
    unfolding trialCredit_gov trialBudget_def gate_inv_def by auto
  show "n \<le> (case trialCredit gb of None \<Rightarrow> trialBudget gb | Some m \<Rightarrow> m)"
    if "gate_inv gb" "trialCredit (gateEvent e gb) = Some n"
    using that govCredit_step [of _ "governor gb" n]
    unfolding trialCredit_gov trialBudget_def
    by (cases e) (auto split: option.splits)
  show "trialCredit (gateDispatch gb) = map_option (\<lambda>n. n - 1) (trialCredit gb)"
    by (simp add: trialCredit_def gateDispatch_def noteBroadcastDispatched_def split: option.split)
qed

text \<open>
  C15: a trial spends no more than its budget. In any run of broadcast requests (for any
  aircraft, of any kind), verdicts, posture reads and hold operations, the number of
  transactions handed to the network while one trial lasts is at most what is left of
  \<open>probeBudget\<close>, and at most \<open>probeBudget\<close> for a trial opened in the run.
\<close>

theorem trial_spends_its_budget:
  assumes "gov_inv (governor gb)"
    and "0 < haltCooldownMs (config (governor gb))" and "0 < haltCooldownMaxMs (config (governor gb))"
  shows "trialSends gateCheck gateDispatch gateEvent trialCredit as gb
           \<le> (case probe (governor gb) of
                None \<Rightarrow> probeBudget (config (governor gb))
              | Some p \<Rightarrow> probeBudget (config (governor gb)) - spent p)"
  using gate.sends_bounded [of gb as] assms
  by (simp add: gate_inv_def trialCredit_def trialBudget_def split: option.splits)

theorem trial_spends_its_budget_witness:
  "trialSends gateCheck gateDispatch gateEvent trialCredit
      (replicate 50 (Attempt \<lparr> rq_now = 400000, rq_icao = Some ''400F2A'', rq_kind = Some Telemetry \<rparr>))
      (newBroadcaster ((newGovernor demoGuard)\<lparr>haltedUntil := 300000, lastHaltReason := Some Reject_ratio\<rparr>)
         newHold 60000) \<le> 20"
  using trial_spends_its_budget [of "newBroadcaster ((newGovernor demoGuard)\<lparr>haltedUntil := 300000,
      lastHaltReason := Some Reject_ratio\<rparr>) newHold 60000"]
  by (simp add: newBroadcaster_def newGovernor_def demoGuard_def gov_inv_def del: replicate.simps)

subsection \<open>A halt sends nothing\<close>

datatype 'tx writer_action = Broadcast 'tx request | Other gate_event

fun writerStep ::
  "('tx \<Rightarrow> request \<Rightarrow> 'n \<Rightarrow> 'o \<times> 'n) \<Rightarrow> 'tx writer_action
     \<Rightarrow> GovernedBroadcaster \<times> 'n \<Rightarrow> GovernedBroadcaster \<times> 'n" where
  "writerStep inner (Broadcast tx rq) s = snd (broadcast inner tx rq s)"
| "writerStep inner (Other e) s = (gateEvent e (fst s), snd s)"

fun actionTime :: "'tx writer_action \<Rightarrow> millis option" where
  "actionTime (Broadcast tx rq) = Some (rq_now rq)"
| "actionTime (Other (Gov_event t e)) = Some t"
| "actionTime (Other e) = None"

lemma halted_check:
  assumes "halted g" and "now < haltedUntil g"
  shows "halted (snd (getPosture now g))" and "haltedUntil (snd (getPosture now g)) = haltedUntil g"
  using halt_step [OF assms(1), of "(now, Checked)"] assms(2) by simp_all

lemma halted_refuses:
  assumes "halted (governor gb)" and "rq_now rq < haltedUntil (governor gb)"
  shows "fst (gateCheck rq gb) = False \<and> halted (governor (snd (gateCheck rq gb)))
       \<and> haltedUntil (governor (snd (gateCheck rq gb))) = haltedUntil (governor gb)"
  using assms halted_closed [OF assms] halted_check [OF assms]
    halted_check [OF halted_check(1) [OF assms], of "rq_now rq"]
  by (auto simp: gateCheck_def noteRefusal_def Let_def case_prod_unfold allowsBroadcast_def)

lemma halted_event:
  assumes "halted (governor gb)" and "\<And>t. actionTime (Other e) = Some t \<Longrightarrow> t < haltedUntil (governor gb)"
  shows "halted (governor (gateEvent e gb)) \<and> haltedUntil (governor (gateEvent e gb)) = haltedUntil (governor gb)"
  using assms by (cases e) (simp_all add: halt_step)

lemma halted_writer_step:
  assumes "halted (governor gb)" and "\<And>t. actionTime a = Some t \<Longrightarrow> t < haltedUntil (governor gb)"
  shows "\<exists>gb'. writerStep inner a (gb, net) = (gb', net) \<and> halted (governor gb')
           \<and> haltedUntil (governor gb') = haltedUntil (governor gb)"
proof (cases a)
  case (Broadcast tx rq)
  then show ?thesis
    using halted_refuses [OF assms(1), of rq] assms(2)
    by (auto simp: broadcast_def Let_def case_prod_unfold)
next
  case (Other e)
  then show ?thesis using halted_event [OF assms(1) assms(2) [unfolded Other]] by simp
qed

text \<open>
  No fee leaves the wallet during a halt. From a halted governor, whatever is requested,
  of whatever kind, and whatever verdicts and hold operations come in between, the network is
  not touched by any action before the end of the halt.
\<close>

lemma halt_sends_nothing:
  assumes "halted (governor gb)"
    and "\<forall>a t. a \<in> set as \<longrightarrow> actionTime a = Some t \<longrightarrow> t < haltedUntil (governor gb)"
  shows "snd (fold (writerStep inner) as (gb, net)) = net"
  using assms
proof (induction as arbitrary: gb)
  case (Cons a as)
  from halted_writer_step [OF Cons.prems(1), of a inner net] Cons.prems(2) obtain gb' where
    "writerStep inner a (gb, net) = (gb', net)" "halted (governor gb')"
    "haltedUntil (governor gb') = haltedUntil (governor gb)" by auto
  with Cons.IH [of gb'] Cons.prems(2) show ?case by simp
qed simp

lemma halt_sends_nothing_witness:
  "snd (fold (writerStep (\<lambda>tx rq sent. ((), sent @ [tx :: nat])))
      [Broadcast 1 \<lparr> rq_now = 5000, rq_icao = None, rq_kind = Some Refill \<rparr>,
       Other (Gov_event 6000 Accepted), Other Reset_hold,
       Broadcast 2 \<lparr> rq_now = 299999, rq_icao = Some ''400F2A'', rq_kind = None \<rparr>]
      (newBroadcaster ((newGovernor demoGuard)\<lparr>haltedUntil := 300000\<rparr>) newHold 60000, [])) = []"
  by (rule halt_sends_nothing)
     (auto simp: halted_def newBroadcaster_def newGovernor_def demoGuard_def)

text \<open>
  One broadcast at the gate. Either the hold blocks the request, or the governor's posture
  does not allow it, and then the result is \<open>SpendHalted\<close> and the network is untouched; or
  neither holds, and the upstream is called exactly once, on the network as it was.
\<close>

lemma gate_decision:
  "broadcast inner tx rq (gb, net) = (res, gb', net') \<Longrightarrow>
     (if blocksBroadcast (rq_icao rq) (rq_kind rq) (hold gb)
         \<or> \<not> fst (allowsBroadcast (rq_now rq) (governor gb))
      then res = SpendHalted \<and> net' = net
      else res = Sent (fst (inner tx rq net)) \<and> net' = snd (inner tx rq net))
     \<and> hold gb' = hold gb"
  by (auto simp: broadcast_def gateCheck_def gateDispatch_def noteRefusal_def Let_def
      case_prod_unfold split: if_splits)

lemma gate_decision_witness:
  "\<exists>gb'. broadcast (\<lambda>tx rq sent. (True, sent @ [tx])) (7 :: nat)
       \<lparr> rq_now = 10, rq_icao = Some '' 400f2a '', rq_kind = Some Telemetry \<rparr>
       (newBroadcaster (newGovernor demoGuard) (blockAircraft ''400F2A'' newHold) 60000, [])
     = (SpendHalted, gb', [])"
proof -
  let ?rq = "\<lparr> rq_now = 10, rq_icao = Some '' 400f2a '', rq_kind = Some Telemetry \<rparr>"
  let ?gb = "newBroadcaster (newGovernor demoGuard) (blockAircraft ''400F2A'' newHold) 60000"
  have key: "normaliseIcao '' 400f2a '' = normaliseIcao ''400F2A''" "normaliseIcao ''400F2A'' \<noteq> []"
    by code_simp+
  have "blocksBroadcast (rq_icao ?rq) (rq_kind ?rq) (hold ?gb)"
    by (simp add: blocksBroadcast_def newBroadcaster_def newHold_def blockAircraft_def Let_def
        noAircraft_def key)
  moreover obtain res gb' net' where
    b: "broadcast (\<lambda>tx rq sent. (True, sent @ [tx])) (7 :: nat) ?rq (?gb, []) = (res, gb', net')"
    by (metis prod_cases3)
  ultimately show ?thesis using gate_decision [OF b] b by simp
qed

subsection \<open>Blocks are per aircraft\<close>

definition holdUpdate :: "string \<times> bool \<Rightarrow> BroadcastHold \<Rightarrow> BroadcastHold" where
  "holdUpdate e h = (if snd e then blockAircraft (fst e) h else unblockAircraft (fst e) h)"

interpretation aircraftBlocks: keyed_component holdUpdate "\<lambda>e. normaliseIcao (fst e)"
  "\<lambda>h k. if k \<in> blockedAircraft h then Some () else None"
  "\<lambda>e s. if snd e then (if normaliseIcao (fst e) = [] then s else Some ()) else None"
  by unfold_locales
     (auto simp: holdUpdate_def blockAircraft_def unblockAircraft_def Let_def fun_eq_iff)

text \<open>
  Aircraft blocks do not interfere and survive the startup hold. After any sequence of
  blocks and unblocks under a global hold, once \<open>releaseAll\<close> clears that hold, a broadcast for an
  aircraft is blocked exactly when the last operation on that aircraft alone was a block (an
  unresolved treasury aside).
\<close>

lemma blocks_are_per_aircraft:
  assumes "\<not> fundingBlocked h" and "\<not> noAircraft (Some icao)"
  shows "blocksBroadcast (Some icao) kind (releaseAll (fold holdUpdate es (holdAll h))) =
         blocksBroadcast (Some icao) kind
           (releaseAll (fold holdUpdate (filter (\<lambda>e. normaliseIcao (fst e) = normaliseIcao icao) es) (holdAll h)))"
proof -
  have fund: "fundingBlocked (fold holdUpdate xs h') = fundingBlocked h'" for xs h'
    by (induction xs arbitrary: h')
       (simp_all add: holdUpdate_def blockAircraft_def unblockAircraft_def Let_def)
  have "normaliseIcao icao \<in> blockedAircraft (fold holdUpdate es (holdAll h)) \<longleftrightarrow>
      normaliseIcao icao \<in> blockedAircraft (fold holdUpdate
        (filter (\<lambda>e. normaliseIcao (fst e) = normaliseIcao icao) es) (holdAll h))"
    using aircraftBlocks.run_project [where d = "holdAll h" and k = "normaliseIcao icao" and rs = es]
      aircraftBlocks.run_project [where d = "holdAll h" and k = "normaliseIcao icao"
        and rs = "filter (\<lambda>e. normaliseIcao (fst e) = normaliseIcao icao) es"]
    by (simp split: if_splits)
  then show ?thesis
    using assms by (simp add: blocksBroadcast_def releaseAll_def fund)
qed

lemma blocks_are_per_aircraft_witness:
  "blocksBroadcast (Some ''400F2A'') (Some Telemetry) (releaseAll (fold holdUpdate
      [(''400F2A'', True), (''ABCDEF'', True), (''ABCDEF'', False)] (holdAll newHold)))"
proof -
  have na: "\<not> noAircraft (Some ''400F2A'')" by (simp add: noAircraft_def)
  have key: "normaliseIcao ''ABCDEF'' \<noteq> normaliseIcao ''400F2A''" "normaliseIcao ''400F2A'' \<noteq> []"
    by code_simp+
  show ?thesis
    using blocks_are_per_aircraft [OF _ na, of newHold "Some Telemetry"
        "[(''400F2A'', True), (''ABCDEF'', True), (''ABCDEF'', False)]"] na key
    by (simp add: newHold_def holdAll_def)
       (simp add: blocksBroadcast_def releaseAll_def holdUpdate_def blockAircraft_def Let_def)
qed

end
