(* ===== verification/Live_Path.thy ===== *)
theory Live_Path
  imports Prelude "HOL-Library.AList"
begin

text \<open>
  The live-path safety policy of the writer and its memory of outpoints:
  \<open>services/blockchain-writer/src/live-path-policy.ts\<close> and \<open>network-spent-outpoints.ts\<close>.

  A JavaScript \<open>Map\<close> whose iteration order matters is an association list in insertion order:
  \<open>AList.update\<close> overwrites in place or appends, as \<open>Map.set\<close> does, and a \<open>Set\<close> is a list without
  duplicates. Environment variables are the parameter \<open>env\<close>; the clock is an argument. The
  database tables the quarantine writes are fields of its state, and a database error is a
  flag of the call.
\<close>

definition RECENT_SPEND_LEDGER_MAX :: nat where "RECENT_SPEND_LEDGER_MAX = 8192"
definition FUNDING_DEPTH_MAX :: nat where "FUNDING_DEPTH_MAX = 8192"

subsection \<open>Settings\<close>

text \<open>\<open>number\<close> stands for \<open>Number(raw)\<close> (\<open>None\<close> when it is not finite).\<close>

definition readNonNegativeInt ::
  "(string \<Rightarrow> jsnum) \<Rightarrow> string \<Rightarrow> int \<Rightarrow> (string \<rightharpoonup> string) \<Rightarrow> int" where
  "readNonNegativeInt number name fallback env =
     (case env name of None \<Rightarrow> fallback
      | Some raw \<Rightarrow>
          if js_trim raw = '''' then fallback
          else (case number raw of None \<Rightarrow> fallback
                | Some x \<Rightarrow> if x < 0 then fallback else \<lfloor>x\<rfloor>))"

definition readBoolEnv :: "string \<Rightarrow> bool \<Rightarrow> (string \<rightharpoonup> string) \<Rightarrow> bool" where
  "readBoolEnv name fallback env =
     (case map_option (\<lambda>s. js_lower (js_trim s)) (env name) of
        None \<Rightarrow> fallback
      | Some raw \<Rightarrow> if raw = '''' then fallback else raw \<in> {''1'', ''true'', ''yes'', ''on''})"

definition chainPropagationCooldownMs :: "(string \<Rightarrow> jsnum) \<Rightarrow> (string \<rightharpoonup> string) \<Rightarrow> int" where
  "chainPropagationCooldownMs number env = readNonNegativeInt number ''CHAIN_PROPAGATION_COOLDOWN_MS'' 0 env"

definition refillPropagationCooldownMs :: "(string \<Rightarrow> jsnum) \<Rightarrow> (string \<rightharpoonup> string) \<Rightarrow> int" where
  "refillPropagationCooldownMs number env = readNonNegativeInt number ''REFILL_PROPAGATION_COOLDOWN_MS'' 500 env"

definition fundingPropagationCooldownMs :: "(string \<Rightarrow> jsnum) \<Rightarrow> (string \<rightharpoonup> string) \<Rightarrow> int" where
  "fundingPropagationCooldownMs number env = readNonNegativeInt number ''FUNDING_PROPAGATION_COOLDOWN_MS'' 500 env"

definition reconcileRecentGuardMs :: "(string \<Rightarrow> jsnum) \<Rightarrow> (string \<rightharpoonup> string) \<Rightarrow> int" where
  "reconcileRecentGuardMs number env = readNonNegativeInt number ''RECONCILE_RECENT_OUTPUT_GUARD_MS'' 30000 env"

definition fundingMaxUnconfirmedChainDepth :: "(string \<Rightarrow> jsnum) \<Rightarrow> (string \<rightharpoonup> string) \<Rightarrow> int" where
  "fundingMaxUnconfirmedChainDepth number env =
     readNonNegativeInt number ''FUNDING_MAX_UNCONFIRMED_CHAIN_DEPTH'' 4 env"

definition arcadeAwaitSeenBeforeSpendEnabled :: "(string \<rightharpoonup> string) \<Rightarrow> bool" where
  "arcadeAwaitSeenBeforeSpendEnabled env = readBoolEnv ''ARCADE_AWAIT_SEEN_BEFORE_SPEND'' False env"

subsection \<open>Outpoints and guard windows\<close>

definition decDigit :: "nat \<Rightarrow> char" where
  "decDigit n = ''0123456789'' ! n"

fun natToDec :: "nat \<Rightarrow> string" where
  "natToDec n = (if n < 10 then [decDigit n] else natToDec (n div 10) @ [decDigit (n mod 10)])"

declare natToDec.simps [simp del]

definition outpointKey :: "string \<Rightarrow> nat \<Rightarrow> string" where
  "outpointKey txid vout = js_trim txid @ '':'' @ natToDec vout"

definition isWithinGuardWindow :: "millis option \<Rightarrow> millis \<Rightarrow> millis \<Rightarrow> bool" where
  "isWithinGuardWindow atMs nowMs guardMs =
     (case atMs of None \<Rightarrow> False
      | Some t \<Rightarrow>
          if \<not> guardMs > 0 then False
          else let age = nowMs - t in if age < 0 then age \<ge> - guardMs else age \<le> guardMs)"

definition shouldRetainLocalDuringReconcile ::
  "millis \<Rightarrow> millis \<Rightarrow> millis option \<Rightarrow> millis option \<Rightarrow> millis option \<Rightarrow> bool" where
  "shouldRetainLocalDuringReconcile nowMs guardMs createdAt spentAt creatingBroadcastAt \<longleftrightarrow>
     isWithinGuardWindow createdAt nowMs guardMs \<or> isWithinGuardWindow spentAt nowMs guardMs
     \<or> isWithinGuardWindow creatingBroadcastAt nowMs guardMs"

definition shouldSuppressChainReinsert :: "millis \<Rightarrow> millis \<Rightarrow> millis option \<Rightarrow> bool" where
  "shouldSuppressChainReinsert nowMs guardMs spentAt = isWithinGuardWindow spentAt nowMs guardMs"

subsection \<open>Recent spends\<close>

record RecentSpendLedger =
  spentAt :: "(string \<times> millis) list"
  broadcastAt :: "(string \<times> millis) list"

definition newLedger :: RecentSpendLedger where
  "newLedger = \<lparr> spentAt = [], broadcastAt = [] \<rparr>"

text \<open>The scan for the oldest entry: the first one with the least time.\<close>

fun oldestEntry :: "(string \<times> millis) option \<Rightarrow> (string \<times> millis) list \<Rightarrow> (string \<times> millis) option" where
  "oldestEntry best [] = best"
| "oldestEntry best (e # es) =
     oldestEntry (case best of None \<Rightarrow> Some e | Some b \<Rightarrow> if snd e < snd b then Some e else best) es"

lemma oldestEntry_in:
  "oldestEntry best es = Some e \<Longrightarrow> best = Some e \<or> e \<in> set es"
  by (induction best es rule: oldestEntry.induct) (auto split: option.splits if_splits)

function boundLedger :: "(string \<times> millis) list \<Rightarrow> (string \<times> millis) list" where
  "boundLedger m =
     (if length m > RECENT_SPEND_LEDGER_MAX then
        (case oldestEntry None m of
           None \<Rightarrow> m
         | Some e \<Rightarrow> boundLedger (AList.delete (fst e) m))
      else m)"
  by pat_completeness auto
termination
proof (relation "measure length")
  fix m :: "(string \<times> millis) list" and e
  assume "oldestEntry None m = Some e"
  then have "e \<in> set m" using oldestEntry_in [of None m e] by simp
  then have "length (AList.delete (fst e) m) < length m"
    unfolding AList.delete_eq by (intro length_filter_less) auto
  then show "(AList.delete (fst e) m, m) \<in> measure length" by simp
qed simp

declare boundLedger.simps [simp del]

definition noteSpent :: "string \<Rightarrow> nat \<Rightarrow> millis \<Rightarrow> RecentSpendLedger \<Rightarrow> RecentSpendLedger" where
  "noteSpent txid vout t l =
     l\<lparr>spentAt := boundLedger (AList.update (outpointKey txid vout) t (spentAt l))\<rparr>"

definition noteBroadcast :: "string \<Rightarrow> millis \<Rightarrow> RecentSpendLedger \<Rightarrow> RecentSpendLedger" where
  "noteBroadcast txid t l =
     (let key = js_trim txid in
      if key = '''' then l
      else l\<lparr>broadcastAt := boundLedger (AList.update key t (broadcastAt l))\<rparr>)"

text \<open>A lookup deletes an entry that has left the window.\<close>

definition freshEntry ::
  "(string \<times> millis) list \<Rightarrow> string \<Rightarrow> millis \<Rightarrow> millis \<Rightarrow> millis option \<times> (string \<times> millis) list" where
  "freshEntry m key nowMs guardMs =
     (case map_of m key of
        None \<Rightarrow> (None, m)
      | Some t \<Rightarrow> if \<not> isWithinGuardWindow (Some t) nowMs guardMs then (None, AList.delete key m)
                  else (Some t, m))"

definition spentAtIfFresh ::
  "string \<Rightarrow> nat \<Rightarrow> millis \<Rightarrow> millis \<Rightarrow> RecentSpendLedger \<Rightarrow> millis option \<times> RecentSpendLedger" where
  "spentAtIfFresh txid vout nowMs guardMs l =
     (let (r, m) = freshEntry (spentAt l) (outpointKey txid vout) nowMs guardMs in (r, l\<lparr>spentAt := m\<rparr>))"

definition broadcastAtIfFresh ::
  "string \<Rightarrow> millis \<Rightarrow> millis \<Rightarrow> RecentSpendLedger \<Rightarrow> millis option \<times> RecentSpendLedger" where
  "broadcastAtIfFresh txid nowMs guardMs l =
     (let (r, m) = freshEntry (broadcastAt l) (js_trim txid) nowMs guardMs in (r, l\<lparr>broadcastAt := m\<rparr>))"

subsection \<open>Depth of unconfirmed treasury outputs\<close>

record FundingChainDepth =
  depth_map :: "(string \<times> int) list"
  confirmed :: "string list"
  depth_cap :: int

definition newDepth :: "int \<Rightarrow> FundingChainDepth" where
  "newDepth cap = \<lparr> depth_map = [], confirmed = [], depth_cap = cap \<rparr>"

definition depthOf :: "string \<Rightarrow> nat \<Rightarrow> FundingChainDepth \<Rightarrow> int" where
  "depthOf txid vout d = (case map_of (depth_map d) (outpointKey txid vout) of None \<Rightarrow> 0 | Some n \<Rightarrow> n)"

definition exceedsCap :: "string \<Rightarrow> nat \<Rightarrow> FundingChainDepth \<Rightarrow> bool" where
  "exceedsCap txid vout d \<longleftrightarrow> depthOf txid vout d > depth_cap d"

definition isConfirmed :: "string \<Rightarrow> nat \<Rightarrow> FundingChainDepth \<Rightarrow> bool" where
  "isConfirmed txid vout d \<longleftrightarrow> outpointKey txid vout \<in> set (confirmed d)"

function boundDepth :: "FundingChainDepth \<Rightarrow> FundingChainDepth" where
  "boundDepth d =
     (if length (depth_map d) + length (confirmed d) > FUNDING_DEPTH_MAX then
        (case depth_map d of
           oldest # rest \<Rightarrow> boundDepth (d\<lparr>depth_map := rest\<rparr>)
         | [] \<Rightarrow>
             (case confirmed d of
                oldest # rest \<Rightarrow> boundDepth (d\<lparr>confirmed := rest\<rparr>)
              | [] \<Rightarrow> d))
      else d)"
  by pat_completeness auto
termination by (relation "measure (\<lambda>d. length (depth_map d) + length (confirmed d))") auto

declare boundDepth.simps [simp del]

definition noteUnconfirmed :: "string \<Rightarrow> nat \<Rightarrow> jsnum \<Rightarrow> FundingChainDepth \<Rightarrow> FundingChainDepth" where
  "noteUnconfirmed txid vout dep d0 =
     (let key = outpointKey txid vout; d = d0\<lparr>confirmed := removeAll key (confirmed d0)\<rparr> in
      case dep of
        None \<Rightarrow> d\<lparr>depth_map := AList.delete key (depth_map d)\<rparr>
      | Some x \<Rightarrow>
          if x \<le> 0 then d\<lparr>depth_map := AList.delete key (depth_map d)\<rparr>
          else boundDepth (d\<lparr>depth_map := AList.update key \<lfloor>x\<rfloor> (depth_map d)\<rparr>))"

definition confirm :: "string \<Rightarrow> nat \<Rightarrow> FundingChainDepth \<Rightarrow> FundingChainDepth" where
  "confirm txid vout d =
     (let key = outpointKey txid vout in
      boundDepth (d\<lparr>depth_map := AList.delete key (depth_map d),
                    confirmed := (if key \<in> set (confirmed d) then confirmed d else confirmed d @ [key])\<rparr>))"

definition forget :: "string \<Rightarrow> nat \<Rightarrow> FundingChainDepth \<Rightarrow> FundingChainDepth" where
  "forget txid vout d =
     (let key = outpointKey txid vout in
      d\<lparr>depth_map := AList.delete key (depth_map d), confirmed := removeAll key (confirmed d)\<rparr>)"

definition shouldAwaitSeenBeforeSpend :: "bool \<Rightarrow> int \<Rightarrow> string option \<Rightarrow> bool" where
  "shouldAwaitSeenBeforeSpend enabled httpStatus txStatus =
     (if \<not> enabled then False
      else if httpStatus < 200 \<or> httpStatus \<ge> 300 then False
      else js_upper (js_trim (case txStatus of None \<Rightarrow> '''' | Some s \<Rightarrow> s))
             \<in> {'''', ''RECEIVED'', ''SENT_TO_NETWORK'', ''ACCEPTED_BY_NETWORK''})"


subsection \<open>The ledger keeps the most recent spends\<close>

definition ledger_inv :: "(string \<rightharpoonup> millis) \<Rightarrow> (string \<times> millis) list \<Rightarrow> bool" where
  "ledger_inv latest m \<longleftrightarrow>
     distinct (map fst m) \<and> length m \<le> RECENT_SPEND_LEDGER_MAX \<and> finite (dom latest)
     \<and> map_of m \<subseteq>\<^sub>m latest
     \<and> (\<forall>k t. latest k = Some t \<and> map_of m k = None \<longrightarrow>
          length m = RECENT_SPEND_LEDGER_MAX \<and> (\<forall>e \<in> set m. t \<le> snd e))"

lemma oldestEntry_some: "oldestEntry (Some b) es \<noteq> None"
  by (induction es arbitrary: b) auto

lemma oldestEntry_least:
  "oldestEntry best es = Some e \<Longrightarrow>
     (\<forall>x \<in> set es. snd e \<le> snd x) \<and> (\<forall>b. best = Some b \<longrightarrow> snd e \<le> snd b)"
  by (induction best es rule: oldestEntry.induct) (force split: option.splits if_splits)+

lemma ledger_invI:
  assumes "distinct (map fst m)" and "length m \<le> RECENT_SPEND_LEDGER_MAX" and "finite (dom latest)"
    and "map_of m \<subseteq>\<^sub>m latest"
    and "\<And>k t. latest k = Some t \<Longrightarrow> map_of m k = None \<Longrightarrow> length m = RECENT_SPEND_LEDGER_MAX"
    and "\<And>k t e. latest k = Some t \<Longrightarrow> map_of m k = None \<Longrightarrow> e \<in> set m \<Longrightarrow> t \<le> snd e"
  shows "ledger_inv latest m"
  using assms unfolding ledger_inv_def by blast

lemma delete_length:
  "distinct (map fst m) \<Longrightarrow> k \<in> fst ` set m \<Longrightarrow> Suc (length (AList.delete k m)) = length m"
proof (induction m)
  case (Cons a m)
  show ?case
  proof (cases "fst a = k")
    case True
    then have "filter (\<lambda>x. fst x \<noteq> k) m = m" using Cons.prems(1) by (intro filter_True ballI) (metis distinct.simps(2) imageI list.simps(9) set_map)
    then show ?thesis using True by (simp add: AList.delete_eq case_prod_unfold eq_commute)
  next
    case False
    with Cons show ?thesis by (auto simp: AList.delete_eq case_prod_unfold)
  qed
qed simp

lemma boundLedger_one:
  assumes "distinct (map fst m)" and "length m \<le> Suc RECENT_SPEND_LEDGER_MAX"
  shows "boundLedger m = m \<and> length m \<le> RECENT_SPEND_LEDGER_MAX
    \<or> (\<exists>e \<in> set m. boundLedger m = AList.delete (fst e) m \<and> (\<forall>x \<in> set m. snd e \<le> snd x)
         \<and> length (AList.delete (fst e) m) = RECENT_SPEND_LEDGER_MAX)"
proof (cases "length m > RECENT_SPEND_LEDGER_MAX")
  case False
  then show ?thesis by (simp add: boundLedger.simps [of m])
next
  case True
  then obtain a m' where m: "m = a # m'" by (cases m) auto
  then obtain e where e: "oldestEntry None m = Some e"
    using oldestEntry_some [of a m'] by auto
  have mem: "e \<in> set m" using oldestEntry_in [OF e] by simp
  have len: "length (AList.delete (fst e) m) = RECENT_SPEND_LEDGER_MAX"
    using delete_length [OF assms(1), of "fst e"] mem assms(2) True by simp
  then have "boundLedger m = AList.delete (fst e) m"
    using True e by (simp add: boundLedger.simps [of m] boundLedger.simps [of "AList.delete (fst e) m"])
  then show ?thesis using oldestEntry_least [OF e] mem len by blast
qed

lemma update_times:
  "e \<in> set (AList.update k t m) \<Longrightarrow> e = (k, t) \<or> e \<in> set m \<and> fst e \<noteq> k \<or> e \<in> set m"
  by (induction m) (auto split: if_splits)

lemma update_length:
  "length (AList.update k t m) = (if k \<in> fst ` set m then length m else Suc (length m))"
  by (induction m) auto

lemma ledger_inv_note:
  assumes inv: "ledger_inv latest m" and mono: "\<forall>t' \<in> ran latest. t' \<le> t"
  shows "ledger_inv (latest(k \<mapsto> t)) (boundLedger (AList.update k t m))"
proof -
  let ?u = "AList.update k t m" and ?L = "latest(k \<mapsto> t)"
  have d: "distinct (map fst ?u)" using inv by (simp add: ledger_inv_def distinct_update)
  have len: "length ?u \<le> Suc RECENT_SPEND_LEDGER_MAX"
    using inv by (simp add: ledger_inv_def update_length)
  have mu: "map_of ?u = (map_of m)(k \<mapsto> t)" by (simp add: update_conv')
  have sub: "map_of ?u \<subseteq>\<^sub>m ?L" using inv by (auto simp: mu ledger_inv_def map_le_def)
  have fin: "finite (dom ?L)" using inv by (simp add: ledger_inv_def)
  have old: "length m = RECENT_SPEND_LEDGER_MAX \<and> (\<forall>e \<in> set ?u. t0 \<le> snd e)"
    if "?L k0 = Some t0" "map_of ?u k0 = None" for k0 t0
  proof -
    from that have k0: "k0 \<noteq> k" "latest k0 = Some t0" "map_of m k0 = None" by (auto simp: mu split: if_splits)
    then have "length m = RECENT_SPEND_LEDGER_MAX" "\<forall>e \<in> set m. t0 \<le> snd e"
      using inv by (auto simp: ledger_inv_def)
    moreover have "t0 \<le> t" using mono k0(2) by (auto simp: ran_def)
    ultimately show ?thesis using update_times by fastforce
  qed
  from boundLedger_one [OF d len] show ?thesis
  proof
    assume b: "boundLedger ?u = ?u \<and> length ?u \<le> RECENT_SPEND_LEDGER_MAX"
    have full: "length ?u = RECENT_SPEND_LEDGER_MAX" if "length m = RECENT_SPEND_LEDGER_MAX"
      using b that update_length [of k t m] by (auto split: if_splits)
    show ?thesis
      unfolding conjunct1 [OF b]
    proof (rule ledger_invI [OF d conjunct2 [OF b] fin sub])
      fix k0 t0 x
      assume gone: "?L k0 = Some t0" "map_of ?u k0 = None"
      then show "length ?u = RECENT_SPEND_LEDGER_MAX" using old full by blast
      show "t0 \<le> snd x" if "x \<in> set ?u" using old gone that by blast
    qed
  next
    assume "\<exists>e \<in> set ?u. boundLedger ?u = AList.delete (fst e) ?u \<and> (\<forall>x \<in> set ?u. snd e \<le> snd x)
       \<and> length (AList.delete (fst e) ?u) = RECENT_SPEND_LEDGER_MAX"
    then obtain e where e: "e \<in> set ?u" "boundLedger ?u = AList.delete (fst e) ?u"
      "\<forall>x \<in> set ?u. snd e \<le> snd x" "length (AList.delete (fst e) ?u) = RECENT_SPEND_LEDGER_MAX" by blast
    have md: "map_of (AList.delete (fst e) ?u) = (map_of ?u)(fst e := None)" by (simp add: delete_conv')
    have sd: "set (AList.delete (fst e) ?u) \<subseteq> set ?u" by (simp add: AList.delete_eq)
    have te: "map_of ?u (fst e) = Some (snd e)" using e(1) d by (simp add: map_of_is_SomeI)
    have old2: "t0 \<le> snd x" if "?L k0 = Some t0" "map_of (AList.delete (fst e) ?u) k0 = None"
      "x \<in> set (AList.delete (fst e) ?u)" for k0 t0 x
    proof (cases "k0 = fst e")
      case True
      then have "t0 = snd e" using sub te that(1) by (auto simp: map_le_def dom_def)
      then show ?thesis using e(3) sd that(3) by blast
    next
      case False
      then show ?thesis using old [OF that(1)] that(2,3) sd by (auto simp: md)
    qed
    have dd: "distinct (map fst (AList.delete (fst e) ?u))" using d by (simp add: distinct_delete)
    have ss: "map_of (AList.delete (fst e) ?u) \<subseteq>\<^sub>m ?L"
      using sub unfolding md map_le_def by auto
    show ?thesis
      unfolding e(2)
    proof (rule ledger_invI [OF dd _ fin ss])
      fix k0 t0 x
      show "length (AList.delete (fst e) ?u) = RECENT_SPEND_LEDGER_MAX" by (rule e(4))
      show "t0 \<le> snd x" if "?L k0 = Some t0" "map_of (AList.delete (fst e) ?u) k0 = None"
        "x \<in> set (AList.delete (fst e) ?u)" using old2 that by blast
    qed (simp add: e(4))
  qed
qed

type_synonym spend = "string \<times> nat \<times> millis"

definition spendKey :: "spend \<Rightarrow> string" where
  "spendKey e = outpointKey (fst e) (fst (snd e))"

definition spendTime :: "spend \<Rightarrow> millis" where
  "spendTime e = snd (snd e)"

text \<open>The time each outpoint was last spent at, according to the whole history.\<close>

definition lastSpends :: "spend list \<Rightarrow> (string \<rightharpoonup> millis)" where
  "lastSpends es = fold (\<lambda>e f. f(spendKey e \<mapsto> spendTime e)) es Map.empty"

definition ledgerAfter :: "spend list \<Rightarrow> RecentSpendLedger" where
  "ledgerAfter es = fold (\<lambda>e. noteSpent (fst e) (fst (snd e)) (spendTime e)) es newLedger"

lemma lastSpends_ran: "t \<in> ran (lastSpends es) \<Longrightarrow> \<exists>e \<in> set es. t = spendTime e"
proof (induction es rule: rev_induct)
  case (snoc e es)
  then show ?case by (auto simp: lastSpends_def ran_def split: if_splits)
qed (simp add: lastSpends_def)

lemma lastSpends_snoc: "lastSpends (es @ [e]) = (lastSpends es)(spendKey e \<mapsto> spendTime e)"
  by (simp add: lastSpends_def)

lemma ledgerAfter_snoc:
  "spentAt (ledgerAfter (es @ [e])) = boundLedger (AList.update (spendKey e) (spendTime e) (spentAt (ledgerAfter es)))"
  by (simp add: ledgerAfter_def noteSpent_def spendKey_def)

lemma ledger_inv_after:
  "sorted (map spendTime es) \<Longrightarrow> ledger_inv (lastSpends es) (spentAt (ledgerAfter es))"
proof (induction es rule: rev_induct)
  case Nil
  then show ?case by (simp add: ledger_inv_def lastSpends_def ledgerAfter_def newLedger_def)
next
  case (snoc e es)
  then have "\<forall>t' \<in> ran (lastSpends es). t' \<le> spendTime e"
    using lastSpends_ran by (fastforce simp: sorted_append)
  with snoc show ?case
    by (simp add: sorted_append lastSpends_snoc ledgerAfter_snoc ledger_inv_note del: fun_upd_apply)
qed

text \<open>
  The ledger of recent spends is bounded and never forgets too early. After any history of
  spends in time order it holds at most \<open>RECENT_SPEND_LEDGER_MAX\<close> entries; what it answers is the
  time of the last spend of that outpoint; and it does answer, within the guard window, as long
  as at most \<open>RECENT_SPEND_LEDGER_MAX\<close> outpoints were last spent at that time or later.
\<close>

lemma ledger_remembers_recent:
  assumes "sorted (map spendTime es)" and "lastSpends es (outpointKey txid vout) = Some t"
    and "isWithinGuardWindow (Some t) now guard"
    and "card {k. \<exists>t'. lastSpends es k = Some t' \<and> t \<le> t'} \<le> RECENT_SPEND_LEDGER_MAX"
  shows "fst (spentAtIfFresh txid vout now guard (ledgerAfter es)) = Some t
       \<and> length (spentAt (ledgerAfter es)) \<le> RECENT_SPEND_LEDGER_MAX"
proof -
  let ?m = "spentAt (ledgerAfter es)" and ?k = "outpointKey txid vout"
  note inv = ledger_inv_after [OF assms(1)]
  have "map_of ?m ?k \<noteq> None"
  proof
    assume none: "map_of ?m ?k = None"
    with inv assms(2) have len: "length ?m = RECENT_SPEND_LEDGER_MAX" and ge: "\<forall>e \<in> set ?m. t \<le> snd e"
      by (auto simp: ledger_inv_def)
    let ?S = "{k. \<exists>t'. lastSpends es k = Some t' \<and> t \<le> t'}"
    have "insert ?k (fst ` set ?m) \<subseteq> ?S"
    proof
      fix k assume "k \<in> insert ?k (fst ` set ?m)"
      then consider "k = ?k" | e where "e \<in> set ?m" "k = fst e" by auto
      then show "k \<in> ?S"
      proof cases
        case 2
        then have "map_of ?m k = Some (snd e)" using inv by (simp add: ledger_inv_def map_of_is_SomeI)
        then have "lastSpends es k = Some (snd e)" using inv by (auto simp: ledger_inv_def map_le_def dom_def)
        then show ?thesis using ge 2(1) by auto
      qed (use assms(2) in auto)
    qed
    moreover have "finite ?S"
      using inv by (auto simp: ledger_inv_def dom_def elim!: finite_subset [rotated])
    moreover have "card (insert ?k (fst ` set ?m)) = Suc RECENT_SPEND_LEDGER_MAX"
    proof -
      have "?k \<notin> fst ` set ?m" using none by (simp add: map_of_eq_None_iff)
      moreover have "card (fst ` set ?m) = length ?m"
        using inv distinct_card [of "map fst ?m"] by (simp add: ledger_inv_def)
      ultimately show ?thesis by (simp add: len)
    qed
    ultimately show False using assms(4) card_mono [of ?S "insert ?k (fst ` set ?m)"] by simp
  qed
  then have "map_of ?m ?k = Some t"
    using inv assms(2) by (fastforce simp: ledger_inv_def map_le_def dom_def)
  then show ?thesis
    using inv assms(3) by (simp add: spentAtIfFresh_def freshEntry_def ledger_inv_def)
qed

lemma ledger_remembers_recent_witness:
  "fst (spentAtIfFresh ''ab'' 1 9000 30000 (ledgerAfter [(''ab'', 1, 1000), (''cd'', 0, 2000), (''ab '', 1, 5000)]))
     = Some 5000"
proof -
  let ?es = "[(''ab'', 1, 1000), (''cd'', 0, 2000), (''ab '', 1, 5000)]"
  have key: "outpointKey ''ab '' (Suc 0) = outpointKey ''ab'' (Suc 0)" by code_simp
  have l: "lastSpends ?es (outpointKey ''ab'' 1) = Some 5000"
    by (simp add: lastSpends_def spendKey_def spendTime_def key)
  have "{k. \<exists>t'. lastSpends ?es k = Some t' \<and> 5000 \<le> t'} \<subseteq> {outpointKey ''ab'' 1}"
    by (auto simp: lastSpends_def spendKey_def spendTime_def key split: if_splits)
  then have "card {k. \<exists>t'. lastSpends ?es k = Some t' \<and> 5000 \<le> t'} \<le> 1"
    using card_mono [of "{outpointKey ''ab'' 1}"] by fastforce
  then show ?thesis
    using ledger_remembers_recent [OF _ l, of 9000 30000]
    by (simp add: spendTime_def isWithinGuardWindow_def RECENT_SPEND_LEDGER_MAX_def)
qed

subsection \<open>Outpoint keys\<close>

lemma of_char_decDigit: "n < 10 \<Longrightarrow> (of_char (decDigit n) :: nat) = 48 + n"
proof -
  assume "n < 10"
  then have "n \<in> {0, 1, 2, 3, 4, 5, 6, 7, 8, 9 :: nat}" unfolding insert_iff empty_iff by presburger
  then show ?thesis by (auto simp: decDigit_def)
qed

lemma decDigit_not_colon: "n < 10 \<Longrightarrow> decDigit n \<noteq> CHR '':''"
proof
  assume "n < 10" and "decDigit n = CHR '':''"
  then have "48 + n = (of_char (CHR '':'') :: nat)" using of_char_decDigit [of n] by (simp only:)
  also have "\<dots> = 58" by simp
  finally show False using \<open>n < 10\<close> by simp
qed

lemma decDigit_inject: "m < 10 \<Longrightarrow> n < 10 \<Longrightarrow> decDigit m = decDigit n \<Longrightarrow> m = n"
  by (metis add_left_imp_eq of_char_decDigit)

lemma natToDec_no_colon: "CHR '':'' \<notin> set (natToDec n)"
proof (induction n rule: natToDec.induct)
  case (1 n)
  have "decDigit (n mod 10) \<noteq> CHR '':''" by (rule decDigit_not_colon) simp
  then show ?case
    using 1 decDigit_not_colon [of n] by (cases "n < 10") (auto simp: natToDec.simps [of n])
qed

lemma natToDec_inject: "natToDec m = natToDec n \<Longrightarrow> m = n"
proof (induction m arbitrary: n rule: natToDec.induct)
  case (1 m)
  have ne: "natToDec k \<noteq> []" for k by (simp add: natToDec.simps [of k])
  show ?case
  proof (cases "m < 10"; cases "n < 10")
    assume "m < 10" "n < 10"
    then show ?thesis using 1(2) by (auto simp: natToDec.simps [of m] natToDec.simps [of n] intro: decDigit_inject)
  next
    assume a: "\<not> m < 10" "\<not> n < 10"
    then have "natToDec (m div 10) = natToDec (n div 10)" "decDigit (m mod 10) = decDigit (n mod 10)"
      using 1(2) by (simp_all add: natToDec.simps [of m] natToDec.simps [of n])
    then have "m div 10 = n div 10" "m mod 10 = n mod 10"
      using 1(1) [OF a(1)] decDigit_inject [of "m mod 10" "n mod 10"] by auto
    then show ?thesis by (metis div_mult_mod_eq)
  qed (use 1(2) ne ne [symmetric] in \<open>auto simp: natToDec.simps [of m] natToDec.simps [of n]\<close>)
qed

lemma outpointKey_inject:
  "outpointKey t v = outpointKey t' v' \<longleftrightarrow> js_trim t = js_trim t' \<and> v = v'"
proof
  assume eq: "outpointKey t v = outpointKey t' v'"
  have split: "takeWhile (\<lambda>c. c \<noteq> CHR '':'') (rev (outpointKey u w)) = rev (natToDec w)
      \<and> drop (Suc (length (natToDec w))) (rev (outpointKey u w)) = rev (js_trim u)" for u w
    using natToDec_no_colon [of w] by (simp add: outpointKey_def takeWhile_append)
  from split [of t v] split [of t' v'] have "natToDec v = natToDec v'"
    unfolding eq by (metis rev_rev_ident)
  moreover from this split [of t v] split [of t' v'] have "js_trim t = js_trim t'"
    unfolding eq by (metis rev_rev_ident)
  ultimately show "js_trim t = js_trim t' \<and> v = v'" using natToDec_inject by blast
qed (simp add: outpointKey_def)

subsection \<open>The depth guard\<close>

lemma boundDepth_full:
  "FUNDING_DEPTH_MAX \<le> length (confirmed d) \<Longrightarrow> depth_map (boundDepth d) = []"
proof (induction d rule: boundDepth.induct)
  case (1 d)
  show ?case
  proof (cases "depth_map d")
    case Nil
    then show ?thesis
      using 1 by (cases "confirmed d")
        (auto simp: boundDepth.simps [of d] FUNDING_DEPTH_MAX_def split: list.split)
  next
    case (Cons a xs)
    then show ?thesis using 1 by (simp add: boundDepth.simps [of d])
  qed
qed

lemma boundDepth_room:
  "length (depth_map d) + length (confirmed d) \<le> FUNDING_DEPTH_MAX \<Longrightarrow> boundDepth d = d"
  by (simp add: boundDepth.simps [of d])

text \<open>
  The depth guard holds only while there is room. With fewer than \<open>FUNDING_DEPTH_MAX\<close>
  outputs tracked, an output noted at an unconfirmed depth is refused exactly when the depth
  exceeds the cap; but as many confirmed outputs as the table may hold push every depth entry
  out, the one just noted included, and the output is then spendable at any depth.
\<close>

lemma depth_guard_until_full:
  assumes "0 < x" and "0 \<le> depth_cap d" and "outpointKey txid vout \<notin> set (confirmed d)"
  shows "(length (depth_map d) + length (confirmed d) < FUNDING_DEPTH_MAX \<longrightarrow>
            (exceedsCap txid vout (noteUnconfirmed txid vout (Some x) d) \<longleftrightarrow> depth_cap d < \<lfloor>x\<rfloor>))
       \<and> (FUNDING_DEPTH_MAX \<le> length (confirmed d) \<longrightarrow>
            \<not> exceedsCap txid vout (noteUnconfirmed txid vout (Some x) d))"
proof -
  let ?k = "outpointKey txid vout"
  let ?d = "d\<lparr>depth_map := AList.update ?k \<lfloor>x\<rfloor> (depth_map d)\<rparr>"
  have noted: "noteUnconfirmed txid vout (Some x) d = boundDepth ?d"
    using assms(1,3) by (simp add: noteUnconfirmed_def Let_def)
  have cap: "depth_cap (boundDepth e) = depth_cap e" for e
    by (induction e rule: boundDepth.induct) (subst boundDepth.simps, auto split: list.split)
  show ?thesis
  proof (intro conjI impI)
    assume room: "length (depth_map d) + length (confirmed d) < FUNDING_DEPTH_MAX"
    then have "boundDepth ?d = ?d" by (intro boundDepth_room) (simp add: update_length)
    then show "exceedsCap txid vout (noteUnconfirmed txid vout (Some x) d) \<longleftrightarrow> depth_cap d < \<lfloor>x\<rfloor>"
      by (simp add: noted exceedsCap_def depthOf_def update_Some_unfold update_conv')
  next
    assume "FUNDING_DEPTH_MAX \<le> length (confirmed d)"
    then have "depth_map (boundDepth ?d) = []" by (intro boundDepth_full) simp
    then show "\<not> exceedsCap txid vout (noteUnconfirmed txid vout (Some x) d)"
      using assms(2) by (simp add: noted exceedsCap_def depthOf_def cap)
  qed
qed

lemma depth_guard_until_full_witness:
  "exceedsCap ''aa'' 0 (noteUnconfirmed ''aa'' 0 (Some 100) (newDepth 4))
   \<and> \<not> exceedsCap ''aa'' 0 (noteUnconfirmed ''aa'' 0 (Some 100)
          ((newDepth 4)\<lparr>confirmed := map (outpointKey ''bb'') [0..<8192]\<rparr>))"
proof -
  have "outpointKey ''aa'' 0 \<notin> set (map (outpointKey ''bb'') [0..<8192])"
  proof
    assume "outpointKey ''aa'' 0 \<in> set (map (outpointKey ''bb'') [0..<8192])"
    then have "js_trim ''aa'' = js_trim ''bb''" by (auto simp: outpointKey_inject)
    then show False by code_simp
  qed
  then show ?thesis
    using depth_guard_until_full [of 100 "newDepth 4" "''aa''" 0]
      depth_guard_until_full [of 100 "(newDepth 4)\<lparr>confirmed := map (outpointKey ''bb'') [0..<8192]\<rparr>" "''aa''" 0]
    by (simp add: newDepth_def FUNDING_DEPTH_MAX_def del: upt_rec_numeral)
qed

end
