(* ===== verification/Utxo_Manager.thy ===== *)
theory Utxo_Manager
  imports Broadcast_Gate Live_Path
begin

text \<open>
  The pool of spendable outputs of each aircraft:
  \<open>services/blockchain-writer/src/utxo-manager.ts\<close>, with the statements of
  \<open>packages/db/src/queries.ts\<close> it runs on the table \<open>utxo_pool\<close>.

  The table is the list of its rows, at most one per outpoint (the primary key); ties of an
  \<open>ORDER BY\<close> are resolved by insertion order. Transaction ids are compared as they are: the
  column is \<open>char(64)\<close> and holds ids without surrounding blanks. Locking a row is a compare-and-set
  statement, and what other tasks do between the selection and the lock is an argument of
  \<open>acquireUtxo\<close>; the statements of every other operation run together. A chain listing that cannot
  be read is \<open>None\<close>. The locking script of the address and the filter of network-spent outpoints
  are parameters.
\<close>

subsection \<open>State\<close>

record UTXORecord =
  aircraft_icao :: string
  txid :: string
  vout :: nat
  satoshis :: int
  locking_script :: string
  is_locked :: bool
  locked_at :: "millis option"
  unconfirmed_depth :: int
  created_at :: "millis option"

record WocUtxo =
  tx_hash :: string
  tx_pos :: nat
  wu_value :: int
  wu_height :: "int option"

record UtxoPoolState =
  ps_balance :: int
  ps_utxoCount :: nat
  ps_unlockedUtxoCount :: nat
  ps_readyUtxoCount :: nat
  ps_coolingUtxoCount :: nat
  ps_deepUtxoCount :: nat

record UtxoManager =
  pool :: "UTXORecord list"
  utxoCooldownUntil :: "string \<rightharpoonup> millis"
  reconcileCooldownUntil :: "string \<rightharpoonup> millis"
  maxUnconfirmedChainDepth :: int
  recentSpends :: RecentSpendLedger
  hold :: BroadcastHold

definition MIN_USABLE_SATS :: int where "MIN_USABLE_SATS = 120"
definition DEFAULT_MAX_UNCONFIRMED_CHAIN_DEPTH :: int where "DEFAULT_MAX_UNCONFIRMED_CHAIN_DEPTH = 5"
definition REFILL_OUTPUT_DEPTH :: int where "REFILL_OUTPUT_DEPTH = 1"
definition ORPHAN_SPEND_COOLDOWN_MS :: millis where "ORPHAN_SPEND_COOLDOWN_MS = 1000"
definition RECONCILE_COOLDOWN_MS :: millis where "RECONCILE_COOLDOWN_MS = 60000"
definition UTXO_LOCK_TTL_MS :: millis where "UTXO_LOCK_TTL_MS = 120000"

definition isConfirmedHeight :: "int option \<Rightarrow> bool" where
  "isConfirmedHeight h = (case h of None \<Rightarrow> False | Some n \<Rightarrow> n > 0)"

definition newUtxoManager :: "UTXORecord list \<Rightarrow> BroadcastHold \<Rightarrow> UtxoManager" where
  "newUtxoManager rows h =
     \<lparr> pool = rows, utxoCooldownUntil = Map.empty, reconcileCooldownUntil = Map.empty,
       maxUnconfirmedChainDepth = DEFAULT_MAX_UNCONFIRMED_CHAIN_DEPTH, recentSpends = newLedger,
       hold = h \<rparr>"

text \<open>The callback is represented by its current answer.\<close>

definition setMaxUnconfirmedChainDepth :: "real \<Rightarrow> UtxoManager \<Rightarrow> UtxoManager" where
  "setMaxUnconfirmedChainDepth answer m = m\<lparr>maxUnconfirmedChainDepth := max 1 \<lfloor>answer\<rfloor>\<rparr>"

definition getMaxUnconfirmedChainDepth :: "UtxoManager \<Rightarrow> int" where
  "getMaxUnconfirmedChainDepth m = max 1 (maxUnconfirmedChainDepth m)"

subsection \<open>The table\<close>

definition keyOfRow :: "UTXORecord \<Rightarrow> string \<times> nat" where
  "keyOfRow r = (txid r, vout r)"

definition insertUtxo :: "UTXORecord \<Rightarrow> UTXORecord list \<Rightarrow> UTXORecord list" where
  "insertUtxo r rows =
     (if keyOfRow r \<in> keyOfRow ` set rows then rows
      else rows @ [r\<lparr>unconfirmed_depth := max 0 (unconfirmed_depth r)\<rparr>])"

definition deleteRows :: "string \<Rightarrow> nat \<Rightarrow> UTXORecord list \<Rightarrow> UTXORecord list" where
  "deleteRows t v rows = filter (\<lambda>r. keyOfRow r \<noteq> (t, v)) rows"

definition updateWhere ::
  "(UTXORecord \<Rightarrow> bool) \<Rightarrow> (UTXORecord \<Rightarrow> UTXORecord) \<Rightarrow> UTXORecord list \<Rightarrow> nat \<times> UTXORecord list" where
  "updateWhere P f rows = (length (filter P rows), map (\<lambda>r. if P r then f r else r) rows)"

definition markUtxosConfirmed :: "(string \<times> nat) list \<Rightarrow> UTXORecord list \<Rightarrow> nat \<times> UTXORecord list" where
  "markUtxosConfirmed outpoints rows =
     updateWhere (\<lambda>r. keyOfRow r \<in> set (map (\<lambda>(t, v). (js_trim t, v)) outpoints) \<and> unconfirmed_depth r > 0)
       (\<lambda>r. r\<lparr>unconfirmed_depth := 0\<rparr>) rows"

definition resetConfirmedUtxoDepths :: "(string \<Rightarrow> bool) \<Rightarrow> UTXORecord list \<Rightarrow> nat \<times> UTXORecord list" where
  "resetConfirmedUtxoDepths mined rows =
     updateWhere (\<lambda>r. mined (txid r) \<and> unconfirmed_depth r > 0) (\<lambda>r. r\<lparr>unconfirmed_depth := 0\<rparr>) rows"

definition getUtxoPoolBalance :: "string \<Rightarrow> UTXORecord list \<Rightarrow> int option" where
  "getUtxoPoolBalance icao rows =
     (let rs = filter (\<lambda>r. aircraft_icao r = icao \<and> \<not> is_locked r) rows in
      if rs = [] then None else Some (sum_list (map satoshis rs)))"

definition getUtxoCount :: "string \<Rightarrow> UTXORecord list \<Rightarrow> nat" where
  "getUtxoCount icao rows = length (filter (\<lambda>r. aircraft_icao r = icao) rows)"

subsection \<open>Cooldowns\<close>

definition isUtxoCooling :: "millis \<Rightarrow> string \<Rightarrow> nat \<Rightarrow> UtxoManager \<Rightarrow> bool" where
  "isUtxoCooling now t v m =
     ((case utxoCooldownUntil m (outpointKey t v) of Some u \<Rightarrow> u | None \<Rightarrow> 0) > now)"

definition setUtxoCooldown :: "millis \<Rightarrow> string \<Rightarrow> nat \<Rightarrow> millis \<Rightarrow> UtxoManager \<Rightarrow> UtxoManager" where
  "setUtxoCooldown now t v ms m =
     (let key = outpointKey t v; nextUntil = now + ms;
          currentUntil = (case utxoCooldownUntil m key of Some u \<Rightarrow> u | None \<Rightarrow> 0)
      in m\<lparr>utxoCooldownUntil := (utxoCooldownUntil m)(key \<mapsto> max currentUntil nextUntil)\<rparr>)"

definition clearUtxoCooldown :: "string \<Rightarrow> nat \<Rightarrow> UtxoManager \<Rightarrow> UtxoManager" where
  "clearUtxoCooldown t v m = m\<lparr>utxoCooldownUntil := (utxoCooldownUntil m)(outpointKey t v := None)\<rparr>"

definition pruneExpiredCooldowns :: "millis \<Rightarrow> UtxoManager \<Rightarrow> UtxoManager" where
  "pruneExpiredCooldowns now m =
     m\<lparr>utxoCooldownUntil := (\<lambda>k. case utxoCooldownUntil m k of None \<Rightarrow> None
         | Some u \<Rightarrow> if u \<le> now then None else Some u)\<rparr>"

definition delaySpendRetries :: "millis \<Rightarrow> string \<Rightarrow> nat \<Rightarrow> millis option \<Rightarrow> UtxoManager \<Rightarrow> UtxoManager" where
  "delaySpendRetries now t v ms m =
     setUtxoCooldown now t v (case ms of Some x \<Rightarrow> x | None \<Rightarrow> ORPHAN_SPEND_COOLDOWN_MS) m"

definition noteOutputsInvalidated :: "string \<Rightarrow> nat list \<Rightarrow> UtxoManager \<Rightarrow> UtxoManager" where
  "noteOutputsInvalidated t vouts m = fold (clearUtxoCooldown t) vouts m"

subsection \<open>Acquiring an output\<close>

datatype acquire_error =
  CoolingDown | ChainDepthExhausted nat int | StalePool nat | NoUtxos
| ReserveProtected nat nat | Contention

definition spendableRows :: "string \<Rightarrow> int \<Rightarrow> UTXORecord list \<Rightarrow> UTXORecord list" where
  "spendableRows icao maxDepth rows =
     sort_key unconfirmed_depth (sort_key (\<lambda>r. - satoshis r)
       (filter (\<lambda>r. aircraft_icao r = icao \<and> \<not> is_locked r \<and> satoshis r \<ge> MIN_USABLE_SATS
                    \<and> unconfirmed_depth r < maxDepth) rows))"

definition deepRows :: "string \<Rightarrow> int \<Rightarrow> UTXORecord list \<Rightarrow> nat" where
  "deepRows icao maxDepth rows =
     length (filter (\<lambda>r. aircraft_icao r = icao \<and> \<not> is_locked r \<and> satoshis r \<ge> MIN_USABLE_SATS
                         \<and> unconfirmed_depth r \<ge> maxDepth) rows)"

definition chooseUtxo :: "millis \<Rightarrow> string \<Rightarrow> nat \<Rightarrow> int \<Rightarrow> UtxoManager \<Rightarrow> acquire_error + UTXORecord" where
  "chooseUtxo now icao minReadyReserve maxDepth m =
     (let spendable = spendableRows icao maxDepth (pool m);
          readyCandidates = filter (\<lambda>r. \<not> isUtxoCooling now (txid r) (vout r) m) spendable
      in if readyCandidates = [] then
           (if spendable \<noteq> [] then Inl CoolingDown
            else let deep = deepRows icao maxDepth (pool m) in
              if deep > 0 then Inl (ChainDepthExhausted deep maxDepth)
              else let residual = getUtxoCount icao (pool m) in
                if residual > 0 then Inl (StalePool residual) else Inl NoUtxos)
         else if minReadyReserve > 0 \<and> length readyCandidates \<le> minReadyReserve
         then Inl (ReserveProtected (length readyCandidates) minReadyReserve)
         else Inr (hd readyCandidates))"

text \<open>The conditional update: the number of rows it changed, and the table.\<close>

definition lockRow :: "millis \<Rightarrow> UTXORecord \<Rightarrow> UtxoManager \<Rightarrow> nat \<times> UtxoManager" where
  "lockRow now r m =
     (let (n, rows) = updateWhere (\<lambda>x. keyOfRow x = keyOfRow r \<and> \<not> is_locked x)
                        (\<lambda>x. x\<lparr>is_locked := True, locked_at := Some now\<rparr>) (pool m)
      in (n, m\<lparr>pool := rows\<rparr>))"

fun acquireLoop ::
  "millis \<Rightarrow> string \<Rightarrow> nat \<Rightarrow> int \<Rightarrow> (UtxoManager \<Rightarrow> UtxoManager) list \<Rightarrow> UtxoManager
     \<Rightarrow> (acquire_error + UTXORecord) \<times> UtxoManager" where
  "acquireLoop now icao reserve maxDepth [] m = (Inl Contention, m)"
| "acquireLoop now icao reserve maxDepth (others # rest) m =
     (case chooseUtxo now icao reserve maxDepth m of
        Inl e \<Rightarrow> (Inl e, m)
      | Inr ready \<Rightarrow>
          (let (locked, m') = lockRow now ready (others m) in
           if locked > 0 then (Inr ready, m') else acquireLoop now icao reserve maxDepth rest m'))"

definition acquireUtxo ::
  "millis \<Rightarrow> string \<Rightarrow> nat \<Rightarrow> (nat \<Rightarrow> UtxoManager \<Rightarrow> UtxoManager) \<Rightarrow> UtxoManager
     \<Rightarrow> (acquire_error + UTXORecord) \<times> UtxoManager" where
  "acquireUtxo now icao minReadyReserve others m =
     (let m1 = pruneExpiredCooldowns now m in
      acquireLoop now icao minReadyReserve (getMaxUnconfirmedChainDepth m1) (map others [0..<5]) m1)"

definition releaseUtxo :: "string \<Rightarrow> nat \<Rightarrow> UtxoManager \<Rightarrow> UtxoManager" where
  "releaseUtxo t v m =
     m\<lparr>pool := snd (updateWhere (\<lambda>r. keyOfRow r = (t, v)) (\<lambda>r. r\<lparr>is_locked := False, locked_at := None\<rparr>) (pool m))\<rparr>"

subsection \<open>Reading the balance\<close>

definition checkBalance :: "millis \<Rightarrow> string \<Rightarrow> UtxoManager \<Rightarrow> UtxoPoolState \<times> UtxoManager" where
  "checkBalance now icao m0 =
     (let m = pruneExpiredCooldowns now m0;
          maxDepth = getMaxUnconfirmedChainDepth m;
          unlockedRows = filter (\<lambda>r. aircraft_icao r = icao \<and> \<not> is_locked r \<and> satoshis r \<ge> MIN_USABLE_SATS) (pool m);
          shallowRows = filter (\<lambda>r. unconfirmed_depth r < maxDepth) unlockedRows;
          ready = length (filter (\<lambda>r. \<not> isUtxoCooling now (txid r) (vout r) m) shallowRows)
      in (\<lparr> ps_balance = (case getUtxoPoolBalance icao (pool m) of Some b \<Rightarrow> b | None \<Rightarrow> 0),
            ps_utxoCount = getUtxoCount icao (pool m), ps_unlockedUtxoCount = length shallowRows,
            ps_readyUtxoCount = ready, ps_coolingUtxoCount = length shallowRows - ready,
            ps_deepUtxoCount = length unlockedRows - length shallowRows \<rparr>, m))"

definition refreshMetrics :: "millis \<Rightarrow> string \<Rightarrow> UtxoManager \<Rightarrow> UtxoManager" where
  "refreshMetrics now icao m = snd (checkBalance now icao m)"

lemma refreshMetrics_prunes: "refreshMetrics now icao m = pruneExpiredCooldowns now m"
  by (simp add: refreshMetrics_def checkBalance_def Let_def)

subsection \<open>Recording what was spent\<close>

definition deleteStaleUtxo :: "string \<Rightarrow> nat \<Rightarrow> UtxoManager \<Rightarrow> UtxoManager" where
  "deleteStaleUtxo t v m = clearUtxoCooldown t v (m\<lparr>pool := deleteRows t v (pool m)\<rparr>)"

definition invalidateOutputsOf :: "string \<Rightarrow> UtxoManager \<Rightarrow> nat \<times> UtxoManager" where
  "invalidateOutputsOf rejected m =
     (let t = js_trim rejected; rows = filter (\<lambda>r. txid r = t) (pool m) in
      if rows = [] then (0, m)
      else (length rows,
            fold (clearUtxoCooldown t) (map vout rows) (m\<lparr>pool := filter (\<lambda>r. txid r \<noteq> t) (pool m)\<rparr>)))"

definition depthOfRow :: "string \<Rightarrow> nat \<Rightarrow> UTXORecord list \<Rightarrow> int" where
  "depthOfRow t v rows =
     (case List.find (\<lambda>r. keyOfRow r = (t, v)) rows of Some r \<Rightarrow> max 0 (unconfirmed_depth r) | None \<Rightarrow> 0)"

text \<open>
  The transaction deletes the parent and inserts the change; an insert that meets an existing
  outpoint raises and rolls the deletion back (\<open>None\<close>).
\<close>

definition recordSpend ::
  "millis \<Rightarrow> millis \<Rightarrow> string \<Rightarrow> nat \<Rightarrow> string \<Rightarrow> nat \<Rightarrow> int \<Rightarrow> string \<Rightarrow> string \<Rightarrow> UtxoManager
     \<Rightarrow> UtxoManager option" where
  "recordSpend now coolMs spentTxid spentVout changeTxid changeVout changeSats script icao m =
     (let parentDepth = depthOfRow spentTxid spentVout (pool m);
          left = deleteRows spentTxid spentVout (pool m);
          change = \<lparr> aircraft_icao = icao, txid = changeTxid, vout = changeVout, satoshis = changeSats,
                     locking_script = script, is_locked = False, locked_at = None,
                     unconfirmed_depth = parentDepth + 1, created_at = Some now \<rparr>
      in if changeSats \<ge> MIN_USABLE_SATS \<and> keyOfRow change \<in> keyOfRow ` set left then None
         else let m1 = clearUtxoCooldown spentTxid spentVout
                         (m\<lparr>pool := (if changeSats \<ge> MIN_USABLE_SATS then left @ [change] else left)\<rparr>);
                  m2 = m1\<lparr>recentSpends := noteBroadcast changeTxid now
                            (noteSpent spentTxid spentVout now (recentSpends m1))\<rparr>
              in Some (refreshMetrics now icao
                   (if changeSats \<ge> MIN_USABLE_SATS
                    then setUtxoCooldown now changeTxid changeVout coolMs m2 else m2)))"

record refill_output =
  ro_txid :: string
  ro_vout :: nat
  ro_satoshis :: int
  ro_script :: string

definition addUtxos :: "millis \<Rightarrow> millis \<Rightarrow> string \<Rightarrow> refill_output list \<Rightarrow> UtxoManager \<Rightarrow> UtxoManager" where
  "addUtxos now coolMs icao outputs m =
     refreshMetrics now icao (fold (\<lambda>ou s. setUtxoCooldown now (ro_txid ou) (ro_vout ou) coolMs
        (s\<lparr>pool := insertUtxo \<lparr> aircraft_icao = icao, txid = ro_txid ou, vout = ro_vout ou,
              satoshis = ro_satoshis ou, locking_script = ro_script ou, is_locked = False,
              locked_at = None, unconfirmed_depth = REFILL_OUTPUT_DEPTH, created_at = Some now \<rparr>
            (pool s)\<rparr>)) outputs m)"

definition addUtxo :: "millis \<Rightarrow> millis \<Rightarrow> string \<Rightarrow> refill_output \<Rightarrow> UtxoManager \<Rightarrow> UtxoManager" where
  "addUtxo now coolMs icao ou m = addUtxos now coolMs icao [ou] m"

subsection \<open>Maintenance\<close>

definition settleConfirmedChainDepths :: "(string \<Rightarrow> bool) \<Rightarrow> UtxoManager \<Rightarrow> nat \<times> UtxoManager" where
  "settleConfirmedChainDepths mined m =
     (let (n, rows) = resetConfirmedUtxoDepths mined (pool m) in (n, m\<lparr>pool := rows\<rparr>))"

definition purgeSubThresholdUtxos :: "UtxoManager \<Rightarrow> nat \<times> UtxoManager" where
  "purgeSubThresholdUtxos m =
     (length (filter (\<lambda>r. satoshis r < MIN_USABLE_SATS) (pool m)),
      m\<lparr>pool := filter (\<lambda>r. \<not> satoshis r < MIN_USABLE_SATS) (pool m)\<rparr>)"

subsection \<open>Chain snapshots\<close>

text \<open>One listed output: skipped when held or dust, suppressed when spent here a moment ago.\<close>

definition snapshotInsert ::
  "millis \<Rightarrow> millis \<Rightarrow> string \<Rightarrow> string \<Rightarrow> string set \<Rightarrow> WocUtxo \<Rightarrow> nat \<times> UtxoManager \<Rightarrow> nat \<times> UtxoManager" where
  "snapshotInsert now guardMs key script localSet u am =
     (let (added, m) = am in
      if outpointKey (tx_hash u) (tx_pos u) \<in> localSet \<or> wu_value u < MIN_USABLE_SATS then (added, m)
      else (let (spentAtMs, l) = spentAtIfFresh (tx_hash u) (tx_pos u) now guardMs (recentSpends m);
                m1 = m\<lparr>recentSpends := l\<rparr>
            in if shouldSuppressChainReinsert now guardMs spentAtMs then (added, m1)
               else (added + 1, m1\<lparr>pool := insertUtxo \<lparr> aircraft_icao = key, txid = tx_hash u,
                       vout = tx_pos u, satoshis = wu_value u, locking_script = script,
                       is_locked = False, locked_at = None,
                       unconfirmed_depth = (if isConfirmedHeight (wu_height u) then 0 else REFILL_OUTPUT_DEPTH),
                       created_at = Some now \<rparr> (pool m1)\<rparr>)))"

text \<open>One local row of before the snapshot that the listing lacks.\<close>

definition snapshotRemove ::
  "millis \<Rightarrow> millis \<Rightarrow> string set \<Rightarrow> UTXORecord \<Rightarrow> nat \<times> UtxoManager \<Rightarrow> nat \<times> UtxoManager" where
  "snapshotRemove now guardMs onChainSet row rm =
     (let (removed, m) = rm; t = js_trim (txid row); v = vout row in
      if outpointKey t v \<in> onChainSet then (removed, m)
      else (let (spentAtMs, l1) = spentAtIfFresh t v now guardMs (recentSpends m);
                (creatingMs, l2) = broadcastAtIfFresh t now guardMs l1;
                m1 = m\<lparr>recentSpends := l2\<rparr>
            in if shouldRetainLocalDuringReconcile now guardMs (created_at row) spentAtMs creatingMs
               then (removed, m1)
               else (removed + 1, clearUtxoCooldown t v (m1\<lparr>pool := deleteRows t v (pool m1)\<rparr>))))"

definition applyChainSnapshot ::
  "millis \<Rightarrow> millis \<Rightarrow> string \<Rightarrow> string \<Rightarrow> WocUtxo list \<Rightarrow> UtxoManager \<Rightarrow> (nat \<times> nat) \<times> UtxoManager" where
  "applyChainSnapshot now guardMs icao script onChain m =
     (let key = js_upper icao;
          onChainSet = set (map (\<lambda>u. outpointKey (tx_hash u) (tx_pos u)) onChain);
          localRows = filter (\<lambda>r. aircraft_icao r = key) (pool m);
          localSet = set (map (\<lambda>r. outpointKey (txid r) (vout r)) localRows);
          confirmedOutpoints = map (\<lambda>u. (tx_hash u, tx_pos u)) (filter (\<lambda>u. isConfirmedHeight (wu_height u)) onChain);
          (added, m1) = fold (snapshotInsert now guardMs key script localSet) onChain (0, m);
          (depthResets, rows) = markUtxosConfirmed confirmedOutpoints (pool m1);
          (removed, m2) = fold (snapshotRemove now guardMs onChainSet) localRows (0, m1\<lparr>pool := rows\<rparr>)
      in ((added, removed), refreshMetrics now key (m2\<lparr>hold := unblockAircraft key (hold m2)\<rparr>)))"

text \<open>\<open>fetchFromChain\<close>: the listing without the outpoints the network reports as spent.\<close>

definition fetchFromChain :: "(WocUtxo list \<Rightarrow> WocUtxo list) \<Rightarrow> WocUtxo list option \<Rightarrow> WocUtxo list option" where
  "fetchFromChain excludeNetworkSpent answer = map_option excludeNetworkSpent answer"

record ReconcileCounts =
  rc_added :: nat
  rc_removed :: nat
  rc_applied :: bool

text \<open>
  \<open>joined\<close> says that another pass for the aircraft was in flight and has been awaited; \<open>guardEnv\<close>
  is the configured guard window.
\<close>

definition reconcile ::
  "millis \<Rightarrow> millis \<Rightarrow> bool \<Rightarrow> bool \<Rightarrow> string \<Rightarrow> string \<Rightarrow> WocUtxo list option \<Rightarrow> UtxoManager
     \<Rightarrow> ReconcileCounts \<times> UtxoManager" where
  "reconcile now guardEnv joined force icao script onChain m =
     (let key = js_upper icao; skipped = \<lparr> rc_added = 0, rc_removed = 0, rc_applied = False \<rparr> in
      if joined \<and> \<not> force then (skipped, m)
      else if \<not> force \<and> (case reconcileCooldownUntil m key of Some u \<Rightarrow> u | None \<Rightarrow> 0) > now then (skipped, m)
      else (let m1 = (if force then m
                      else m\<lparr>reconcileCooldownUntil := (reconcileCooldownUntil m)(key \<mapsto> now + RECONCILE_COOLDOWN_MS)\<rparr>)
            in case onChain of None \<Rightarrow> (skipped, m1)
               | Some listing \<Rightarrow>
                   (let (counts, m2) = applyChainSnapshot now (if force then 0 else guardEnv) key script listing m1;
                        m3 = (if force then m2\<lparr>reconcileCooldownUntil :=
                                 (reconcileCooldownUntil m2)(key \<mapsto> now + RECONCILE_COOLDOWN_MS)\<rparr> else m2)
                    in (\<lparr> rc_added = fst counts, rc_removed = snd counts, rc_applied = True \<rparr>, m3))))"

subsection \<open>Stale locks\<close>

definition staleLock :: "millis option \<Rightarrow> UTXORecord \<Rightarrow> bool" where
  "staleLock staleBefore r \<longleftrightarrow>
     (case staleBefore of None \<Rightarrow> True
      | Some cutoff \<Rightarrow> (case locked_at r of None \<Rightarrow> True | Some t \<Rightarrow> t < cutoff))"

definition unlockRow :: "string set \<Rightarrow> UTXORecord \<Rightarrow> nat \<times> UtxoManager \<Rightarrow> nat \<times> UtxoManager" where
  "unlockRow listed row us =
     (let (unlocked, s) = us; t = js_trim (txid row); v = vout row in
      if outpointKey t v \<notin> listed then (unlocked, s)
      else (let (n, rows') = updateWhere (\<lambda>r. keyOfRow r = (t, v) \<and> is_locked r)
                               (\<lambda>r. r\<lparr>is_locked := False, locked_at := None\<rparr>) (pool s)
            in (unlocked + n, s\<lparr>pool := rows'\<rparr>)))"

definition unlockListedLocks ::
  "string \<Rightarrow> WocUtxo list \<Rightarrow> millis option \<Rightarrow> UtxoManager \<Rightarrow> nat \<times> UtxoManager" where
  "unlockListedLocks icao onChain staleBefore m =
     (let listed = set (map (\<lambda>u. outpointKey (tx_hash u) (tx_pos u)) onChain);
          rows = filter (\<lambda>r. aircraft_icao r = js_upper icao \<and> is_locked r \<and> staleLock staleBefore r) (pool m)
      in fold (unlockRow listed) rows (0, m))"

text \<open>\<open>chain icao\<close> is \<open>None\<close> when the address cannot be resolved or the listing cannot be read.\<close>

definition reclaimOne ::
  "millis \<Rightarrow> millis \<Rightarrow> millis \<Rightarrow> (string \<Rightarrow> string) \<Rightarrow> (string \<Rightarrow> WocUtxo list option) \<Rightarrow> string
     \<Rightarrow> nat \<times> UtxoManager \<Rightarrow> nat \<times> UtxoManager" where
  "reclaimOne now guardEnv cutoff script chain icao nm =
     (case chain icao of None \<Rightarrow> nm
      | Some onChain \<Rightarrow>
          (let (n, m) = nm;
               m1 = snd (applyChainSnapshot now guardEnv icao (script icao) onChain m);
               (k, m2) = unlockListedLocks icao onChain (Some cutoff) m1
           in (n + k, m2)))"

definition reclaimStaleLocks ::
  "millis \<Rightarrow> millis \<Rightarrow> millis \<Rightarrow> (string \<Rightarrow> string) \<Rightarrow> (string \<Rightarrow> WocUtxo list option) option \<Rightarrow> UtxoManager
     \<Rightarrow> nat \<times> UtxoManager" where
  "reclaimStaleLocks now guardEnv ttlMs script resolved m =
     (case resolved of None \<Rightarrow> (0, m)
      | Some chain \<Rightarrow>
          (let cutoff = now - ttlMs;
               affected = remdups (map aircraft_icao (filter (\<lambda>r. is_locked r \<and> staleLock (Some cutoff) r) (pool m)))
           in fold (reclaimOne now guardEnv cutoff script chain) affected (0, m)))"

definition unlockLocksListedUnspent ::
  "millis \<Rightarrow> millis \<Rightarrow> string \<Rightarrow> string \<Rightarrow> WocUtxo list option \<Rightarrow> UtxoManager \<Rightarrow> nat \<times> UtxoManager" where
  "unlockLocksListedUnspent now guardEnv icao script onChain m =
     (case onChain of None \<Rightarrow> (0, m)
      | Some listing \<Rightarrow>
          unlockListedLocks icao listing None (snd (applyChainSnapshot now guardEnv icao script listing m)))"

subsection \<open>Filling and consolidating a pool\<close>

definition bootstrap ::
  "millis \<Rightarrow> millis \<Rightarrow> bool \<Rightarrow> string \<Rightarrow> string \<Rightarrow> WocUtxo list option \<Rightarrow> UtxoManager \<Rightarrow> bool option \<times> UtxoManager" where
  "bootstrap now guardEnv joined icao script onChain m =
     (if getUtxoCount icao (pool m) > 0 then
        (let (st, m1) = checkBalance now icao m in
         if ps_unlockedUtxoCount st = 0
         then (Some True, snd (reconcile now guardEnv joined False icao script onChain m1))
         else (Some False, m1))
      else case onChain of None \<Rightarrow> (None, m)
      | Some listing \<Rightarrow>
          (Some True, if listing = [] then m else refreshMetrics now icao (m\<lparr>pool := fold (\<lambda>u. insertUtxo \<lparr> aircraft_icao = icao, txid = tx_hash u,
               vout = tx_pos u, satoshis = wu_value u, locking_script = script, is_locked = False,
               locked_at = None,
               unconfirmed_depth = (if isConfirmedHeight (wu_height u) then 0 else REFILL_OUTPUT_DEPTH),
               created_at = Some now \<rparr>) listing (pool m)\<rparr>)))"

definition noteSpentRow :: "millis \<Rightarrow> UTXORecord \<Rightarrow> UtxoManager \<Rightarrow> UtxoManager" where
  "noteSpentRow now r m =
     (clearUtxoCooldown (txid r) (vout r) m)\<lparr>recentSpends := noteSpent (txid r) (vout r) now (recentSpends m)\<rparr>"

text \<open>
  \<open>outcome\<close> is what building and broadcasting the consolidation of the given inputs comes to: the
  transaction id and the amount and script of its output, or \<open>None\<close> on any failure.
\<close>

definition consolidate ::
  "millis \<Rightarrow> millis \<Rightarrow> string \<Rightarrow> (UTXORecord list \<Rightarrow> (string \<times> int \<times> string) option) \<Rightarrow> nat \<Rightarrow> UtxoManager
     \<Rightarrow> UtxoManager" where
  "consolidate now coolMs icao outcome threshold m =
     (if getUtxoCount icao (pool m) \<le> threshold then m
      else let utxos = sort_key satoshis (filter (\<lambda>r. aircraft_icao r = icao \<and> \<not> is_locked r) (pool m)) in
      if length utxos \<le> threshold then m
      else let consolidatedDepth = foldl (\<lambda>deepest r. max deepest (unconfirmed_depth r)) 0 utxos + 1 in
      case outcome utxos of None \<Rightarrow> m
      | Some (t, sats, script) \<Rightarrow>
          (let left = filter (\<lambda>r. keyOfRow r \<notin> keyOfRow ` set utxos) (pool m);
               out = \<lparr> aircraft_icao = icao, txid = t, vout = 0, satoshis = sats, locking_script = script,
                       is_locked = False, locked_at = None, unconfirmed_depth = consolidatedDepth,
                       created_at = Some now \<rparr>
           in if keyOfRow out \<in> keyOfRow ` set left then m
              else let m1 = m\<lparr>pool := left @ [out]\<rparr>;
                       m2 = fold (noteSpentRow now) utxos m1
                   in refreshMetrics now icao (setUtxoCooldown now t 0 coolMs
                        (m2\<lparr>recentSpends := noteBroadcast t now (recentSpends m2)\<rparr>))))"


subsection \<open>At most one row per outpoint\<close>

definition pool_inv :: "UtxoManager \<Rightarrow> bool" where
  "pool_inv m \<longleftrightarrow> distinct (map keyOfRow (pool m))"

lemma updateWhere_keys [simp]:
  "(\<And>r. keyOfRow (f r) = keyOfRow r) \<Longrightarrow> map keyOfRow (snd (updateWhere P f rows)) = map keyOfRow rows"
  by (simp add: updateWhere_def comp_def)

lemma keyOfRow_upd [simp]:
  "keyOfRow (r\<lparr>is_locked := b\<rparr>) = keyOfRow r" "keyOfRow (r\<lparr>locked_at := t\<rparr>) = keyOfRow r"
  "keyOfRow (r\<lparr>unconfirmed_depth := d\<rparr>) = keyOfRow r"
  by (simp_all add: keyOfRow_def)

lemma insertUtxo_distinct: "distinct (map keyOfRow rows) \<Longrightarrow> distinct (map keyOfRow (insertUtxo r rows))"
  by (auto simp: insertUtxo_def)

lemma distinct_filter_keys: "distinct (map f xs) \<Longrightarrow> distinct (map f (filter P xs))"
  by (simp add: distinct_map_filter)

text \<open>The cooldown and the ledger leave the table alone.\<close>

lemma pool_frame [simp]:
  "pool (setUtxoCooldown now t v ms m) = pool m" "pool (clearUtxoCooldown t v m) = pool m"
  "pool (pruneExpiredCooldowns now m) = pool m" "pool (refreshMetrics now icao m) = pool m"
  "hold (refreshMetrics now icao m) = hold m" "pool (delaySpendRetries now t v ms' m) = pool m"
  by (simp_all add: setUtxoCooldown_def clearUtxoCooldown_def pruneExpiredCooldowns_def
      delaySpendRetries_def refreshMetrics_prunes Let_def)

lemma pool_clear_fold [simp]: "pool (fold (clearUtxoCooldown t) vs m) = pool m"
  by (induction vs arbitrary: m) simp_all

subsection \<open>Steps on the table\<close>

text \<open>
  The statements and operations of the manager as atomic steps; an acquisition is a
  \<open>chooseUtxo\<close>, which changes nothing, followed later by a \<open>LockAttempt\<close>.
\<close>

datatype pool_step =
  LockAttempt millis UTXORecord
| Release string nat
| DeleteStale string nat
| Invalidate string
| Spend millis millis string nat string nat int string string
| Refill millis millis string "refill_output list"
| Purge
| Settle "string \<Rightarrow> bool"
| Snapshot millis millis string string "WocUtxo list"
| UnlockListed string "WocUtxo list" "millis option"
| Consolidate millis millis string "UTXORecord list \<Rightarrow> (string \<times> int \<times> string) option" nat

fun poolStep :: "pool_step \<Rightarrow> UtxoManager \<Rightarrow> UtxoManager" where
  "poolStep (LockAttempt now r) m = snd (lockRow now r m)"
| "poolStep (Release t v) m = releaseUtxo t v m"
| "poolStep (DeleteStale t v) m = deleteStaleUtxo t v m"
| "poolStep (Invalidate t) m = snd (invalidateOutputsOf t m)"
| "poolStep (Spend now cool st sv ct cv sats script icao) m =
     (case recordSpend now cool st sv ct cv sats script icao m of Some m' \<Rightarrow> m' | None \<Rightarrow> m)"
| "poolStep (Refill now cool icao outs) m = addUtxos now cool icao outs m"
| "poolStep Purge m = snd (purgeSubThresholdUtxos m)"
| "poolStep (Settle mined) m = snd (settleConfirmedChainDepths mined m)"
| "poolStep (Snapshot now guard icao script onChain) m = snd (applyChainSnapshot now guard icao script onChain m)"
| "poolStep (UnlockListed icao onChain cutoff) m = snd (unlockListedLocks icao onChain cutoff m)"
| "poolStep (Consolidate now cool icao outcome threshold) m = consolidate now cool icao outcome threshold m"

definition listedKeys :: "WocUtxo list \<Rightarrow> string set" where
  "listedKeys onChain = set (map (\<lambda>u. outpointKey (tx_hash u) (tx_pos u)) onChain)"

text \<open>The steps that can free an outpoint.\<close>

fun mayFree :: "string \<times> nat \<Rightarrow> pool_step \<Rightarrow> bool" where
  "mayFree k (Release t v) \<longleftrightarrow> (t, v) = k"
| "mayFree k (DeleteStale t v) \<longleftrightarrow> (t, v) = k"
| "mayFree k (Invalidate t) \<longleftrightarrow> js_trim t = fst k"
| "mayFree k (Spend now cool st sv ct cv sats script icao) \<longleftrightarrow> (st, sv) = k"
| "mayFree k (Snapshot now guard icao script onChain) \<longleftrightarrow>
     outpointKey (fst k) (snd k) \<notin> listedKeys onChain"
| "mayFree k (UnlockListed icao onChain cutoff) \<longleftrightarrow>
     outpointKey (fst k) (snd k) \<in> listedKeys onChain"
| "mayFree k Purge \<longleftrightarrow> True"
| "mayFree k step \<longleftrightarrow> False"

definition heldRow :: "string \<times> nat \<Rightarrow> UTXORecord \<Rightarrow> bool" where
  "heldRow k r \<longleftrightarrow> keyOfRow r = k \<and> is_locked r"

definition held :: "string \<times> nat \<Rightarrow> UTXORecord list \<Rightarrow> bool" where
  "held k rows \<longleftrightarrow> list_ex (heldRow k) rows"

lemma held_update:
  assumes "held k rows" and "\<And>r. heldRow k r \<Longrightarrow> P r \<Longrightarrow> heldRow k (f r)"
  shows "held k (snd (updateWhere P f rows))"
  using assms by (auto simp: held_def updateWhere_def list_ex_iff)

lemma held_filter: "held k rows \<Longrightarrow> (\<And>r. heldRow k r \<Longrightarrow> P r) \<Longrightarrow> held k (filter P rows)"
  by (auto simp: held_def list_ex_iff)

lemma held_insert: "held k rows \<Longrightarrow> held k (insertUtxo r rows)"
  by (auto simp: held_def insertUtxo_def list_ex_iff)

lemma held_append: "held k rows \<Longrightarrow> held k (rows @ rs)"
  by (auto simp: held_def list_ex_iff)

lemma held_delete: "held k rows \<Longrightarrow> (t, v) \<noteq> k \<Longrightarrow> held k (deleteRows t v rows)"
  unfolding deleteRows_def by (erule held_filter) (auto simp: heldRow_def)

definition safe :: "string \<times> nat \<Rightarrow> UtxoManager \<Rightarrow> bool" where
  "safe k m \<longleftrightarrow> pool_inv m \<and> held k (pool m)"

lemma addUtxos_fold:
  assumes "pool_inv m" shows "pool_inv (addUtxos now cool icao outs m)"
    and "held k (pool m) \<Longrightarrow> held k (pool (addUtxos now cool icao outs m))"
  unfolding addUtxos_def using assms
  by (induction outs arbitrary: m)
    (auto simp: pool_inv_def insertUtxo_distinct held_insert)

lemma snapshotInsert_pool:
  "pool (snd (snapshotInsert now guard key script loc u am)) = pool (snd am)
   \<or> (\<exists>r. pool (snd (snapshotInsert now guard key script loc u am)) = insertUtxo r (pool (snd am)))"
  by (auto simp: snapshotInsert_def Let_def split: prod.splits if_splits)

lemma snapshotRemove_pool:
  "pool (snd (snapshotRemove now guard listed row rm)) = pool (snd rm)
   \<or> outpointKey (txid row) (vout row) \<notin> listed
     \<and> pool (snd (snapshotRemove now guard listed row rm)) = deleteRows (js_trim (txid row)) (vout row) (pool (snd rm))"
  by (auto simp: snapshotRemove_def Let_def outpointKey_def split: prod.splits if_splits)

lemma snapshotInsert_keep:
  "pool_inv (snd am) \<Longrightarrow> pool_inv (snd (snapshotInsert now guard key script loc u am))"
  "held k (pool (snd am)) \<Longrightarrow> held k (pool (snd (snapshotInsert now guard key script loc u am)))"
  using snapshotInsert_pool [of now guard key script loc u am]
  by (auto simp: pool_inv_def insertUtxo_distinct held_insert)

lemma snapshotRemove_keep:
  "pool_inv (snd rm) \<Longrightarrow> pool_inv (snd (snapshotRemove now guard listed r rm))"
  "\<lbrakk>held k (pool (snd rm)); outpointKey (fst k) (snd k) \<in> listed\<rbrakk>
     \<Longrightarrow> held k (pool (snd (snapshotRemove now guard listed r rm)))"
proof -
  show "pool_inv (snd rm) \<Longrightarrow> pool_inv (snd (snapshotRemove now guard listed r rm))"
    using snapshotRemove_pool [of now guard listed r rm]
    by (auto simp: pool_inv_def deleteRows_def distinct_filter_keys)
  assume k: "held k (pool (snd rm))" "outpointKey (fst k) (snd k) \<in> listed"
  have "(js_trim (txid r), vout r) \<noteq> k" if "outpointKey (txid r) (vout r) \<notin> listed"
    using that k(2) by (auto simp: outpointKey_def)
  then show "held k (pool (snd (snapshotRemove now guard listed r rm)))"
    using snapshotRemove_pool [of now guard listed r rm] k(1) held_delete by metis
qed

lemma snapshot_inserts_keep:
  "pool_inv (snd am) \<Longrightarrow> pool_inv (snd (fold (snapshotInsert now guard key script loc) us am))"
  "held k (pool (snd am)) \<Longrightarrow> held k (pool (snd (fold (snapshotInsert now guard key script loc) us am)))"
  by (rule fold_invariant [where Q = "\<lambda>_. True" and P = "\<lambda>s. pool_inv (snd s)"],
      simp, assumption, erule snapshotInsert_keep)
    (rule fold_invariant [where Q = "\<lambda>_. True" and P = "\<lambda>s. held k (pool (snd s))"],
      simp, assumption, erule snapshotInsert_keep)

lemma snapshot_removes_keep:
  "pool_inv (snd rm) \<Longrightarrow> pool_inv (snd (fold (snapshotRemove now guard listed) rows rm))"
  "\<lbrakk>held k (pool (snd rm)); outpointKey (fst k) (snd k) \<in> listed\<rbrakk>
     \<Longrightarrow> held k (pool (snd (fold (snapshotRemove now guard listed) rows rm)))"
  by (rule fold_invariant [where Q = "\<lambda>_. True" and P = "\<lambda>s. pool_inv (snd s)"],
      simp, assumption, erule snapshotRemove_keep)
    (rule fold_invariant [where Q = "\<lambda>_. True" and P = "\<lambda>s. held k (pool (snd s))"],
      simp, assumption, erule snapshotRemove_keep)

text \<open>A snapshot is: insertions, depth resets, removals.\<close>

lemma applyChainSnapshot_phases:
  obtains am rows rm where
    "am = fold (snapshotInsert now guard (js_upper icao) script
        (set (map (\<lambda>r. outpointKey (txid r) (vout r)) (filter (\<lambda>r. aircraft_icao r = js_upper icao) (pool m)))))
      onChain (0, m)"
    "rows = snd (markUtxosConfirmed (map (\<lambda>u. (tx_hash u, tx_pos u))
        (filter (\<lambda>u. isConfirmedHeight (wu_height u)) onChain)) (pool (snd am)))"
    "rm = fold (snapshotRemove now guard (listedKeys onChain))
        (filter (\<lambda>r. aircraft_icao r = js_upper icao) (pool m)) (0, (snd am)\<lparr>pool := rows\<rparr>)"
    "pool (snd (applyChainSnapshot now guard icao script onChain m)) = pool (snd rm)"
proof (rule that [OF refl refl refl])
qed (simp add: applyChainSnapshot_def Let_def listedKeys_def split: prod.splits)

lemma applyChainSnapshot_keep:
  "pool_inv m \<Longrightarrow> pool_inv (snd (applyChainSnapshot now guard icao script onChain m))"
  "\<lbrakk>held k (pool m); outpointKey (fst k) (snd k) \<in> listedKeys onChain\<rbrakk>
     \<Longrightarrow> held k (pool (snd (applyChainSnapshot now guard icao script onChain m)))"
proof -
  obtain am rows rm where p: "am = fold (snapshotInsert now guard (js_upper icao) script
        (set (map (\<lambda>r. outpointKey (txid r) (vout r)) (filter (\<lambda>r. aircraft_icao r = js_upper icao) (pool m)))))
      onChain (0, m)"
    "rows = snd (markUtxosConfirmed (map (\<lambda>u. (tx_hash u, tx_pos u))
        (filter (\<lambda>u. isConfirmedHeight (wu_height u)) onChain)) (pool (snd am)))"
    "rm = fold (snapshotRemove now guard (listedKeys onChain))
        (filter (\<lambda>r. aircraft_icao r = js_upper icao) (pool m)) (0, (snd am)\<lparr>pool := rows\<rparr>)"
    "pool (snd (applyChainSnapshot now guard icao script onChain m)) = pool (snd rm)"
    by (rule applyChainSnapshot_phases)
  show "pool_inv (snd (applyChainSnapshot now guard icao script onChain m))" if "pool_inv m"
  proof -
    have "pool_inv (snd am)" unfolding p(1) using that by (intro snapshot_inserts_keep) simp
    then have "pool_inv ((snd am)\<lparr>pool := rows\<rparr>)" by (simp add: pool_inv_def p(2) markUtxosConfirmed_def)
    then have "pool_inv (snd rm)" unfolding p(3) by (intro snapshot_removes_keep) simp
    then show ?thesis by (simp add: pool_inv_def p(4))
  qed
  show "held k (pool (snd (applyChainSnapshot now guard icao script onChain m)))"
    if "held k (pool m)" "outpointKey (fst k) (snd k) \<in> listedKeys onChain"
  proof -
    have "held k (pool (snd am))" unfolding p(1) using that(1) by (intro snapshot_inserts_keep) simp
    then have "held k rows"
      unfolding p(2) markUtxosConfirmed_def by (rule held_update) (simp add: heldRow_def)
    then show ?thesis unfolding p(4) p(3) using that(2) by (intro snapshot_removes_keep) simp_all
  qed
qed

lemma unlockListedLocks_fold:
  "unlockListedLocks icao onChain cutoff m =
     fold (unlockRow (listedKeys onChain))
       (filter (\<lambda>r. aircraft_icao r = js_upper icao \<and> is_locked r \<and> staleLock cutoff r) (pool m)) (0, m)"
  by (simp add: unlockListedLocks_def listedKeys_def Let_def)

lemma unlockRow_pool:
  "pool (snd (unlockRow listed row us)) = pool (snd us)
   \<or> outpointKey (txid row) (vout row) \<in> listed
     \<and> pool (snd (unlockRow listed row us)) =
         snd (updateWhere (\<lambda>r. keyOfRow r = (js_trim (txid row), vout row) \<and> is_locked r)
               (\<lambda>r. r\<lparr>is_locked := False, locked_at := None\<rparr>) (pool (snd us)))"
  by (auto simp: unlockRow_def Let_def outpointKey_def split: prod.splits if_splits)

lemma unlockRow_keep:
  "pool_inv (snd us) \<Longrightarrow> pool_inv (snd (unlockRow listed row us))"
  "\<lbrakk>held k (pool (snd us)); outpointKey (fst k) (snd k) \<notin> listed\<rbrakk> \<Longrightarrow> held k (pool (snd (unlockRow listed row us)))"
proof -
  show "pool_inv (snd us) \<Longrightarrow> pool_inv (snd (unlockRow listed row us))"
    using unlockRow_pool [of listed row us] by (auto simp: pool_inv_def)
  assume k: "held k (pool (snd us))" "outpointKey (fst k) (snd k) \<notin> listed"
  show "held k (pool (snd (unlockRow listed row us)))"
    using unlockRow_pool [of listed row us]
  proof
    assume u: "outpointKey (txid row) (vout row) \<in> listed \<and> pool (snd (unlockRow listed row us)) =
      snd (updateWhere (\<lambda>r. keyOfRow r = (js_trim (txid row), vout row) \<and> is_locked r)
        (\<lambda>r. r\<lparr>is_locked := False, locked_at := None\<rparr>) (pool (snd us)))"
    then have "(js_trim (txid row), vout row) \<noteq> k" using k(2) by (auto simp: outpointKey_def)
    then show ?thesis
      using held_update [OF k(1)] conjunct2 [OF u] by (fastforce simp: heldRow_def)
  qed (use k in simp)
qed

lemma unlockListedLocks_keep:
  "pool_inv m \<Longrightarrow> pool_inv (snd (unlockListedLocks icao onChain cutoff m))"
  "\<lbrakk>held k (pool m); outpointKey (fst k) (snd k) \<notin> listedKeys onChain\<rbrakk>
     \<Longrightarrow> held k (pool (snd (unlockListedLocks icao onChain cutoff m)))"
  unfolding unlockListedLocks_fold
  by (rule fold_invariant [where Q = "\<lambda>_. True" and P = "\<lambda>s. pool_inv (snd s)"],
      simp, simp, erule unlockRow_keep)
    (rule fold_invariant [where Q = "\<lambda>_. True" and P = "\<lambda>s. held k (pool (snd s))"],
      simp, simp, erule unlockRow_keep)

definition changeRow :: "millis \<Rightarrow> string \<Rightarrow> string \<Rightarrow> nat \<Rightarrow> int \<Rightarrow> string \<Rightarrow> int \<Rightarrow> UTXORecord" where
  "changeRow now icao ct cv sats script d =
     \<lparr> aircraft_icao = icao, txid = ct, vout = cv, satoshis = sats, locking_script = script,
       is_locked = False, locked_at = None, unconfirmed_depth = d, created_at = Some now \<rparr>"

lemma recordSpend_pool:
  assumes "recordSpend now cool st sv ct cv sats script icao m = Some m'"
  shows "pool m' = deleteRows st sv (pool m) @ (if sats \<ge> MIN_USABLE_SATS
      then [changeRow now icao ct cv sats script (depthOfRow st sv (pool m) + 1)] else [])"
    and "sats \<ge> MIN_USABLE_SATS \<Longrightarrow> (ct, cv) \<notin> keyOfRow ` set (deleteRows st sv (pool m))"
proof -
  let ?c = "changeRow now icao ct cv sats script (depthOfRow st sv (pool m) + 1)"
  have key: "keyOfRow ?c = (ct, cv)" by (simp add: changeRow_def keyOfRow_def)
  note rs = assms [unfolded recordSpend_def Let_def, folded changeRow_def, unfolded key]
  show "sats \<ge> MIN_USABLE_SATS \<Longrightarrow> (ct, cv) \<notin> keyOfRow ` set (deleteRows st sv (pool m))"
    using rs by (metis option.distinct(1))
  show "pool m' = deleteRows st sv (pool m) @ (if sats \<ge> MIN_USABLE_SATS then [?c] else [])"
    using rs by (cases "sats \<ge> MIN_USABLE_SATS") (simp_all split: if_split_asm, auto)
qed

lemma changeRow_simps [simp]:
  "keyOfRow (changeRow now icao ct cv sats script d) = (ct, cv)"
  "unconfirmed_depth (changeRow now icao ct cv sats script d) = d"
  by (simp_all add: changeRow_def keyOfRow_def)

definition unlockedRows :: "string \<Rightarrow> UTXORecord list \<Rightarrow> UTXORecord list" where
  "unlockedRows icao rows = filter (\<lambda>r. aircraft_icao r = icao \<and> \<not> is_locked r) rows"

lemma noteSpentRow_fold [simp]: "pool (fold (noteSpentRow now) us m) = pool m"
  by (induction us arbitrary: m) (simp_all add: noteSpentRow_def)

lemma consolidate_pool:
  obtains (same) "pool (consolidate now cool icao outcome threshold m) = pool m"
  | (merged) left r where
      "left = filter (\<lambda>x. keyOfRow x \<notin> keyOfRow ` set (unlockedRows icao (pool m))) (pool m)"
      "keyOfRow r \<notin> keyOfRow ` set left"
      "pool (consolidate now cool icao outcome threshold m) = left @ [r]"
proof -
  let ?us = "sort_key satoshis (unlockedRows icao (pool m))"
  let ?left = "filter (\<lambda>x. keyOfRow x \<notin> keyOfRow ` set (unlockedRows icao (pool m))) (pool m)"
  let ?out = "\<lambda>t sats script. \<lparr> aircraft_icao = icao, txid = t, vout = 0, satoshis = sats,
    locking_script = script, is_locked = False, locked_at = None,
    unconfirmed_depth = foldl (\<lambda>d r. max d (unconfirmed_depth r)) 0 ?us + 1, created_at = Some now \<rparr>"
  show ?thesis
  proof (cases "getUtxoCount icao (pool m) \<le> threshold \<or> length ?us \<le> threshold \<or> outcome ?us = None")
    case True
    then show ?thesis by (intro same) (auto simp: consolidate_def Let_def unlockedRows_def)
  next
    case False
    then obtain t sats script where o: "outcome ?us = Some (t, sats, script)" by (cases "outcome ?us") auto
    show ?thesis
    proof (cases "keyOfRow (?out t sats script) \<in> keyOfRow ` set ?left")
      case True
      then show ?thesis
        using False o by (intro same) (simp add: consolidate_def Let_def unlockedRows_def)
    next
      case new: False
      show ?thesis
        by (rule merged [of ?left "?out t sats script"])
          (use False o new in \<open>simp_all add: consolidate_def Let_def unlockedRows_def\<close>)
    qed
  qed
qed

lemma distinct_held_locked:
  "\<lbrakk>pool_inv m; held k (pool m); r \<in> set (pool m); keyOfRow r = k\<rbrakk> \<Longrightarrow> is_locked r"
  by (auto simp: pool_inv_def held_def list_ex_iff heldRow_def distinct_map inj_on_def)

lemma lockRow_pool:
  "pool (snd (lockRow now r m)) = snd (updateWhere (\<lambda>x. keyOfRow x = keyOfRow r \<and> \<not> is_locked x)
     (\<lambda>x. x\<lparr>is_locked := True, locked_at := Some now\<rparr>) (pool m))"
  by (simp add: lockRow_def split: prod.split)

lemma invalidate_pool: "pool (snd (invalidateOutputsOf t m)) = filter (\<lambda>r. txid r \<noteq> js_trim t) (pool m)"
proof (cases "filter (\<lambda>r. txid r = js_trim t) (pool m) = []")
  case True
  then have "filter (\<lambda>r. txid r \<noteq> js_trim t) (pool m) = pool m" by (simp add: filter_empty_conv)
  with True show ?thesis by (simp add: invalidateOutputsOf_def Let_def)
qed (simp add: invalidateOutputsOf_def Let_def)

lemma settle_pool:
  "pool (snd (settleConfirmedChainDepths mined m)) =
     snd (updateWhere (\<lambda>r. mined (txid r) \<and> unconfirmed_depth r > 0) (\<lambda>r. r\<lparr>unconfirmed_depth := 0\<rparr>) (pool m))"
  by (simp add: settleConfirmedChainDepths_def resetConfirmedUtxoDepths_def split: prod.split)

lemma delete_pool:
  "pool (releaseUtxo t v m) = snd (updateWhere (\<lambda>r. keyOfRow r = (t, v))
     (\<lambda>r. r\<lparr>is_locked := False, locked_at := None\<rparr>) (pool m))"
  "pool (deleteStaleUtxo t v m) = deleteRows t v (pool m)"
  "pool (snd (purgeSubThresholdUtxos m)) = filter (\<lambda>r. \<not> satoshis r < MIN_USABLE_SATS) (pool m)"
  by (simp_all add: releaseUtxo_def deleteStaleUtxo_def purgeSubThresholdUtxos_def)

lemmas step_pools = lockRow_pool invalidate_pool settle_pool delete_pool

lemma step_inv: "pool_inv m \<Longrightarrow> pool_inv (poolStep a m)"
proof (cases a)
  case (Spend now cool st sv ct cv sats script icao)
  assume "pool_inv m"
  then show ?thesis
    by (cases "recordSpend now cool st sv ct cv sats script icao m")
      (auto simp: Spend pool_inv_def recordSpend_pool(1) deleteRows_def distinct_filter_keys
        dest: recordSpend_pool(2))
next
  case (Consolidate now cool icao outcome threshold)
  assume "pool_inv m"
  then show ?thesis
    by (cases rule: consolidate_pool [of now cool icao outcome threshold m])
      (simp_all add: Consolidate pool_inv_def distinct_filter_keys)
qed (simp_all add: addUtxos_fold(1) applyChainSnapshot_keep(1) unlockListedLocks_keep(1),
    simp_all add: pool_inv_def step_pools deleteRows_def distinct_filter_keys)

lemma step_held:
  assumes inv: "pool_inv m" and h: "held k (pool m)" and nf: "\<not> mayFree k a"
  shows "held k (pool (poolStep a m))"
proof (cases a)
  case (LockAttempt now r)
  show ?thesis
    unfolding LockAttempt poolStep.simps step_pools by (rule held_update [OF h]) (simp add: heldRow_def)
next
  case (Release t v)
  then show ?thesis
    using nf unfolding Release poolStep.simps step_pools
    by (intro held_update [OF h]) (auto simp: heldRow_def)
next
  case (Spend now cool st sv ct cv sats script icao)
  then show ?thesis
    using h nf held_delete [OF h, of st sv]
    by (cases "recordSpend now cool st sv ct cv sats script icao m")
      (auto simp: recordSpend_pool(1) intro!: held_append)
next
  case (Settle mined)
  show ?thesis
    unfolding Settle poolStep.simps step_pools by (rule held_update [OF h]) (simp add: heldRow_def)
next
  case (Consolidate now cool icao outcome threshold)
  have locked: "k \<notin> keyOfRow ` set (unlockedRows icao (pool m))"
    using distinct_held_locked [OF inv h] by (auto simp: unlockedRows_def)
  show ?thesis
  proof (cases rule: consolidate_pool [of now cool icao outcome threshold m])
    case same
    then show ?thesis using h by (simp add: Consolidate)
  next
    case (merged left r)
    have "held k left"
      unfolding merged(1) by (rule held_filter [OF h]) (use locked in \<open>auto simp: heldRow_def\<close>)
    then show ?thesis by (simp add: Consolidate merged(3) held_append)
  qed
next
  case (Invalidate t)
  then show ?thesis
    using nf unfolding Invalidate poolStep.simps step_pools
    by (intro held_filter [OF h]) (auto simp: heldRow_def keyOfRow_def)
qed (use h nf inv in \<open>simp_all add: held_delete step_pools addUtxos_fold(2) applyChainSnapshot_keep(2) unlockListedLocks_keep(2)\<close>)

interpretation aircraftPool: exclusive_pool poolStep pool_inv "\<lambda>k m. held k (pool m)" mayFree
  by unfold_locales (fact step_inv, fact step_held)

subsection \<open>One owner per output\<close>

lemma updateWhere_count: "fst (updateWhere P f rows) > 0 \<longleftrightarrow> (\<exists>r \<in> set rows. P r)"
  by (auto simp: updateWhere_def filter_empty_conv)

lemma lockRow_count: "fst (lockRow now r m) > 0 \<longleftrightarrow> (\<exists>x \<in> set (pool m). keyOfRow x = keyOfRow r \<and> \<not> is_locked x)"
proof -
  have "fst (lockRow now r m) = fst (updateWhere (\<lambda>x. keyOfRow x = keyOfRow r \<and> \<not> is_locked x)
      (\<lambda>x. x\<lparr>is_locked := True, locked_at := Some now\<rparr>) (pool m))"
    by (simp add: lockRow_def split: prod.split)
  then show ?thesis by (simp only: updateWhere_count)
qed

lemma lockRow_holds:
  assumes "fst (lockRow now r m) > 0"
  shows "held (keyOfRow r) (pool (snd (lockRow now r m)))"
proof -
  obtain x where x: "x \<in> set (pool m)" "keyOfRow x = keyOfRow r" "\<not> is_locked x"
    using assms lockRow_count by blast
  let ?x = "x\<lparr>is_locked := True, locked_at := Some now\<rparr>"
  have "?x \<in> set (pool (snd (lockRow now r m)))"
    unfolding lockRow_pool updateWhere_def snd_conv set_map by (rule image_eqI [of _ _ x]) (simp_all add: x)
  moreover have "heldRow (keyOfRow r) ?x" by (simp add: heldRow_def x(2))
  ultimately show ?thesis unfolding held_def list_ex_iff by blast
qed

text \<open>A row that may be handed out: the aircraft's, worth its fee, and above the chain ceiling.\<close>

definition spendable :: "string \<Rightarrow> int \<Rightarrow> UTXORecord \<Rightarrow> bool" where
  "spendable icao maxDepth r \<longleftrightarrow> aircraft_icao r = icao \<and> \<not> is_locked r
     \<and> satoshis r \<ge> MIN_USABLE_SATS \<and> unconfirmed_depth r < maxDepth"

lemma spendableRows_set: "set (spendableRows icao d rows) = {r \<in> set rows. spendable icao d r}"
  by (auto simp: spendableRows_def spendable_def)

lemma chooseUtxo_spendable:
  assumes "chooseUtxo now icao reserve d m = Inr r"
  shows "r \<in> set (pool m) \<and> spendable icao d r \<and> \<not> isUtxoCooling now (txid r) (vout r) m"
proof -
  let ?ready = "filter (\<lambda>r. \<not> isUtxoCooling now (txid r) (vout r) m) (spendableRows icao d (pool m))"
  have "?ready \<noteq> [] \<and> r = hd ?ready"
    using assms by (auto simp: chooseUtxo_def Let_def split: if_split_asm)
  then have "r \<in> set ?ready" using hd_in_set by blast
  then show ?thesis by (simp add: spendableRows_set)
qed

text \<open>What an acquisition that succeeds went through.\<close>

lemma acquireLoop_success:
  assumes "acquireLoop now icao reserve d fs m = (Inr r, m')"
    and "\<And>f s. f \<in> set fs \<Longrightarrow> I s \<Longrightarrow> I (f s)" and "\<And>s r. I s \<Longrightarrow> I (snd (lockRow now r s))" and "I m"
  shows "\<exists>s t. I s \<and> I t \<and> chooseUtxo now icao reserve d s = Inr r
       \<and> fst (lockRow now r t) > 0 \<and> m' = snd (lockRow now r t)"
  using assms(1,2,4)
proof (induction fs arbitrary: m)
  case (Cons f fs)
  show ?case
  proof (cases "chooseUtxo now icao reserve d m")
    case (Inl e)
    then show ?thesis using Cons.prems(1) by simp
  next
    case (Inr ready)
    obtain n m1 where l: "lockRow now ready (f m) = (n, m1)" by fastforce
    have If: "I (f m)" using Cons.prems(2) [of f m] Cons.prems(3) by simp
    show ?thesis
    proof (cases "n > 0")
      case True
      then have "ready = r" "m1 = m'" using Cons.prems(1) Inr l by simp_all
      then show ?thesis using Inr If Cons.prems(3) l True by (metis fst_conv snd_conv)
    next
      case False
      then have "acquireLoop now icao reserve d fs m1 = (Inr r, m')" using Cons.prems(1) Inr l by simp
      moreover have "I m1" using assms(3) [OF If, of ready] l by simp
      ultimately show ?thesis using Cons.IH Cons.prems(2) by simp
    qed
  qed
qed simp

lemma prune_depth [simp]:
  "getMaxUnconfirmedChainDepth (pruneExpiredCooldowns now m) = getMaxUnconfirmedChainDepth m"
  by (simp add: getMaxUnconfirmedChainDepth_def pruneExpiredCooldowns_def)

lemma acquireUtxo_success:
  assumes "acquireUtxo now icao reserve others m = (Inr r, m')"
    and "\<And>i s. I s \<Longrightarrow> I (others i s)" and "\<And>s r. I s \<Longrightarrow> I (snd (lockRow now r s))"
    and "I (pruneExpiredCooldowns now m)"
  shows "\<exists>s t. I s \<and> I t \<and> chooseUtxo now icao reserve (getMaxUnconfirmedChainDepth m) s = Inr r
       \<and> fst (lockRow now r t) > 0 \<and> m' = snd (lockRow now r t)"
  using acquireLoop_success [where I = I and fs = "map others [0..<5]", OF
      assms(1) [unfolded acquireUtxo_def Let_def prune_depth] _ assms(3,4)] assms(2)
  by auto


lemmas acquire_eval = acquireUtxo_def newUtxoManager_def pruneExpiredCooldowns_def upt_conv_Cons
  getMaxUnconfirmedChainDepth_def DEFAULT_MAX_UNCONFIRMED_CHAIN_DEPTH_def chooseUtxo_def
  spendableRows_def changeRow_def MIN_USABLE_SATS_def isUtxoCooling_def lockRow_def updateWhere_def
  keyOfRow_def Let_def sort_key_def


subsection \<open>A forced reconciliation\<close>

definition owned :: "string \<Rightarrow> UTXORecord list \<Rightarrow> (string \<times> nat) set" where
  "owned k rows = keyOfRow ` {r \<in> set rows. aircraft_icao r = k}"

definition keyOfWoc :: "WocUtxo \<Rightarrow> string \<times> nat" where
  "keyOfWoc u = (tx_hash u, tx_pos u)"

lemma no_guard [simp]:
  "shouldSuppressChainReinsert now 0 t = False" "shouldRetainLocalDuringReconcile now 0 a b c = False"
  by (auto simp: shouldSuppressChainReinsert_def shouldRetainLocalDuringReconcile_def
      isWithinGuardWindow_def split: option.splits)

definition wocRow :: "millis \<Rightarrow> string \<Rightarrow> string \<Rightarrow> WocUtxo \<Rightarrow> UTXORecord" where
  "wocRow now key script u =
     \<lparr> aircraft_icao = key, txid = tx_hash u, vout = tx_pos u, satoshis = wu_value u,
       locking_script = script, is_locked = False, locked_at = None,
       unconfirmed_depth = (if isConfirmedHeight (wu_height u) then 0 else REFILL_OUTPUT_DEPTH),
       created_at = Some now \<rparr>"

lemma wocRow_simps [simp]: "keyOfRow (wocRow now key script u) = keyOfWoc u" "aircraft_icao (wocRow now key script u) = key"
  by (simp_all add: wocRow_def keyOfRow_def keyOfWoc_def)

lemma snapshotInsert_unguarded:
  "pool (snd (snapshotInsert now 0 key script loc u am)) =
     (if outpointKey (tx_hash u) (tx_pos u) \<in> loc \<or> wu_value u < MIN_USABLE_SATS then pool (snd am)
      else insertUtxo (wocRow now key script u) (pool (snd am)))"
  by (simp add: snapshotInsert_def wocRow_def Let_def split: prod.split)

lemma owned_insert:
  "owned k (insertUtxo r rows) =
     (if aircraft_icao r = k \<and> keyOfRow r \<notin> keyOfRow ` set rows then insert (keyOfRow r) (owned k rows)
      else owned k rows)"
proof -
  have "owned k (rows @ [q]) = (if aircraft_icao q = k then insert (keyOfRow q) (owned k rows) else owned k rows)" for q
    by (auto simp: owned_def)
  then show ?thesis by (simp add: insertUtxo_def)
qed

definition foreign :: "string \<Rightarrow> UTXORecord list \<Rightarrow> (string \<times> nat) set" where
  "foreign key rows = keyOfRow ` {r \<in> set rows. aircraft_icao r \<noteq> key}"

lemma foreign_insert [simp]: "aircraft_icao r = key \<Longrightarrow> foreign key (insertUtxo r rows) = foreign key rows"
  by (auto simp: foreign_def insertUtxo_def)

lemma keys_split: "keyOfRow ` set rows = owned key rows \<union> foreign key rows"
  by (auto simp: owned_def foreign_def)

lemma snapshotInserts_owned:
  "foreign key (pool (snd am)) \<inter> keyOfWoc ` set us = {} \<Longrightarrow>
   owned key (pool (snd (fold (snapshotInsert now 0 key script loc) us am))) = owned key (pool (snd am))
      \<union> keyOfWoc ` {u \<in> set us. outpointKey (tx_hash u) (tx_pos u) \<notin> loc \<and> wu_value u \<ge> MIN_USABLE_SATS}
   \<and> (k \<noteq> key \<longrightarrow> owned k (pool (snd (fold (snapshotInsert now 0 key script loc) us am))) = owned k (pool (snd am)))"
proof (induction us arbitrary: am)
  case (Cons u us)
  let ?am = "snapshotInsert now 0 key script loc u am"
  have "keyOfWoc u \<notin> foreign key (pool (snd am))" using Cons.prems by auto
  then have step: "owned key (pool (snd ?am)) = owned key (pool (snd am))
      \<union> (if outpointKey (tx_hash u) (tx_pos u) \<notin> loc \<and> wu_value u \<ge> MIN_USABLE_SATS then {keyOfWoc u} else {})"
    "k \<noteq> key \<longrightarrow> owned k (pool (snd ?am)) = owned k (pool (snd am))"
    by (auto simp: snapshotInsert_unguarded owned_insert keys_split [of _ key])
  have "foreign key (pool (snd ?am)) = foreign key (pool (snd am))"
    by (simp add: snapshotInsert_unguarded)
  then have "foreign key (pool (snd ?am)) \<inter> keyOfWoc ` set us = {}" using Cons.prems by auto
  from Cons.IH [OF this] step show ?case by auto
qed simp

lemma snapshotRemove_owned:
  "owned k (pool (snd (snapshotRemove now 0 listed r rm))) =
     owned k (pool (snd rm)) - (if outpointKey (txid r) (vout r) \<in> listed then {} else {(js_trim (txid r), vout r)})"
proof -
  have "pool (snd (snapshotRemove now 0 listed r rm)) =
    (if outpointKey (txid r) (vout r) \<in> listed then pool (snd rm)
     else deleteRows (js_trim (txid r)) (vout r) (pool (snd rm)))"
    by (simp add: snapshotRemove_def Let_def outpointKey_def split: prod.splits)
  then show ?thesis by (auto simp: owned_def deleteRows_def)
qed

lemma snapshotRemoves_owned:
  "owned k (pool (snd (fold (snapshotRemove now 0 listed) rows rm))) = owned k (pool (snd rm))
     - (\<lambda>r. (js_trim (txid r), vout r)) ` {r \<in> set rows. outpointKey (txid r) (vout r) \<notin> listed}"
  by (induction rows arbitrary: rm) (auto simp: snapshotRemove_owned)

lemma owned_list: "owned k rows = set (map keyOfRow (filter (\<lambda>r. aircraft_icao r = k) rows))"
  by (auto simp: owned_def)

lemma owned_update:
  assumes "\<And>r. keyOfRow (f r) = keyOfRow r" "\<And>r. aircraft_icao (f r) = aircraft_icao r"
  shows "owned k (snd (updateWhere P f rows)) = owned k rows"
  using assms by (induction rows) (simp_all add: owned_list updateWhere_def)

lemma owned_disjoint: "pool_inv m \<Longrightarrow> k \<noteq> k' \<Longrightarrow> owned k (pool m) \<inter> owned k' (pool m) = {}"
  by (auto simp: owned_def pool_inv_def distinct_map inj_on_def)

text \<open>Ids in the canonical spelling: without surrounding blanks.\<close>

definition canonical :: "UtxoManager \<Rightarrow> WocUtxo list \<Rightarrow> bool" where
  "canonical m listing \<longleftrightarrow> list_all (\<lambda>r. js_trim (txid r) = txid r) (pool m)
     \<and> list_all (\<lambda>u. js_trim (tx_hash u) = tx_hash u) listing"

lemma listedKeys_iff:
  "\<lbrakk>js_trim t = t; list_all (\<lambda>u. js_trim (tx_hash u) = tx_hash u) listing\<rbrakk>
     \<Longrightarrow> outpointKey t v \<in> listedKeys listing \<longleftrightarrow> (t, v) \<in> keyOfWoc ` set listing"
  by (auto simp: listedKeys_def keyOfWoc_def list_all_iff outpointKey_inject image_iff)

text \<open>
  C24: a forced reconciliation makes the pool of an aircraft what the chain says. Afterwards its
  outpoints are those the listing has with at least MIN_USABLE_SATS, together with smaller ones
  that were already held and are still listed: nothing the chain lacks is kept, nothing usable it
  has is missed. The pools of other aircraft hold the same outpoints as before, and the aircraft
  is no longer held back from broadcasting on its own account.
\<close>

theorem forced_reconcile_matches_chain:
  assumes "pool_inv m" and "canonical m listing"
    and "\<And>k. k \<noteq> js_upper icao \<Longrightarrow> owned k (pool m) \<inter> keyOfWoc ` set listing = {}"
    and "reconcile now guardEnv joined True icao script (Some listing) m = (c, m')"
  shows "rc_applied c
       \<and> owned (js_upper icao) (pool m') = keyOfWoc ` {u \<in> set listing. wu_value u \<ge> MIN_USABLE_SATS}
           \<union> owned (js_upper icao) (pool m) \<inter> keyOfWoc ` set listing
       \<and> (k \<noteq> js_upper icao \<longrightarrow> owned k (pool m') = owned k (pool m))
       \<and> normaliseIcao icao \<notin> blockedAircraft (hold m')"
proof -
  let ?key = "js_upper icao" and ?L = "keyOfWoc ` set listing"
  let ?big = "\<lambda>u. wu_value u \<ge> MIN_USABLE_SATS"
  let ?local = "filter (\<lambda>r. aircraft_icao r = ?key) (pool m)"
  let ?loc = "set (map (\<lambda>r. outpointKey (txid r) (vout r)) ?local)"
  obtain am rows rm where p: "am = fold (snapshotInsert now 0 ?key script ?loc) listing (0, m)"
    "rows = snd (markUtxosConfirmed (map (\<lambda>u. (tx_hash u, tx_pos u))
        (filter (\<lambda>u. isConfirmedHeight (wu_height u)) listing)) (pool (snd am)))"
    "rm = fold (snapshotRemove now 0 (listedKeys listing)) ?local (0, (snd am)\<lparr>pool := rows\<rparr>)"
    "pool (snd (applyChainSnapshot now 0 icao script listing m)) = pool (snd rm)"
    by (rule applyChainSnapshot_phases)
  have upper: "js_upper (js_upper icao) = js_upper icao" by simp
  have m': "pool m' = pool (snd (applyChainSnapshot now 0 icao script listing m))" "rc_applied c"
    "blockedAircraft (hold m') \<subseteq> UNIV - {normaliseIcao icao}"
    using assms(4)
    by (auto simp: reconcile_def Let_def applyChainSnapshot_def unblockAircraft_def normaliseIcao_def
        js_trim_upper split: prod.splits)
  have "foreign ?key (pool m) \<inter> ?L = {}"
    using assms(3) by (fastforce simp: owned_def foreign_def)
  then have foreign: "foreign ?key (pool (snd (0 :: nat, m))) \<inter> ?L = {}" by simp
  have rows: "owned k rows = owned k (pool (snd am))" for k
    unfolding p(2) markUtxosConfirmed_def by (rule owned_update) simp_all
  have loc: "outpointKey (tx_hash u) (tx_pos u) \<in> ?loc \<longleftrightarrow> keyOfWoc u \<in> owned ?key (pool m)"
    if "u \<in> set listing" for u
    using assms(2) that
    by (auto simp: canonical_def list_all_iff owned_def keyOfRow_def keyOfWoc_def outpointKey_inject image_iff)
  have gone: "(\<lambda>r. (js_trim (txid r), vout r)) ` {r \<in> set ?local. outpointKey (txid r) (vout r) \<notin> listedKeys listing}
      = owned ?key (pool m) - ?L"
    using assms(2) listedKeys_iff
    by (force simp: canonical_def list_all_iff owned_def keyOfRow_def)
  have final: "owned k (pool m') = owned k (pool (snd am)) - (owned ?key (pool m) - ?L)" for k
    unfolding m'(1) p(4) p(3) snapshotRemoves_owned gone by (simp add: rows)
  have "owned ?key (pool (snd am)) = owned ?key (pool m)
      \<union> keyOfWoc ` {u \<in> set listing. outpointKey (tx_hash u) (tx_pos u) \<notin> ?loc \<and> ?big u}"
    unfolding p(1) using conjunct1 [OF snapshotInserts_owned [OF foreign]] by simp
  also have "\<dots> = owned ?key (pool m) \<union> keyOfWoc ` {u \<in> set listing. ?big u}"
    using loc by blast
  finally have mine: "owned ?key (pool m') = keyOfWoc ` {u \<in> set listing. ?big u} \<union> owned ?key (pool m) \<inter> ?L"
    unfolding final by blast
  have "owned k (pool m') = owned k (pool m)" if "k \<noteq> ?key"
    using conjunct2 [OF snapshotInserts_owned [OF foreign]] that owned_disjoint [OF assms(1) that]
    unfolding final p(1) by auto
  with mine m'(2,3) show ?thesis by blast
qed

theorem forced_reconcile_matches_chain_witness:
  "owned ''A1'' (pool (snd (reconcile 5000 30000 False True ''A1'' '''' (Some [\<lparr> tx_hash = ''bb'', tx_pos = 0, wu_value = 400, wu_height = Some 7 \<rparr>])
      (newUtxoManager [changeRow 4999 ''A1'' ''aa'' 0 500 '''' 1] newHold)))) = {(''bb'', 0)}"
proof -
  let ?l = "[\<lparr> tx_hash = ''bb'', tx_pos = 0, wu_value = 400, wu_height = Some 7 \<rparr>]"
  let ?m = "newUtxoManager [changeRow 4999 ''A1'' ''aa'' 0 500 '''' 1] newHold"
  obtain c m' where r: "reconcile 5000 30000 False True ''A1'' '''' (Some ?l) ?m = (c, m')" by fastforce
  have "pool_inv ?m" by (simp add: pool_inv_def newUtxoManager_def)
  moreover have "canonical ?m ?l" by code_simp
  moreover have "js_upper ''A1'' = ''A1''" by code_simp
  ultimately show ?thesis
    using forced_reconcile_matches_chain [of ?m ?l "''A1''" 5000 30000 False "''''" c m'] r
    by (simp add: owned_def newUtxoManager_def changeRow_def keyOfRow_def keyOfWoc_def MIN_USABLE_SATS_def
        insert_commute Collect_conv_if)
qed


lemma snapshotInsert_keys:
  "keyOfRow ` set (pool (snd (snapshotInsert now guard key scr loc u am))) \<subseteq> insert (tx_hash u, tx_pos u) (keyOfRow ` set (pool (snd am)))"
  by (auto simp: snapshotInsert_def Let_def insertUtxo_def keyOfRow_def split: prod.splits if_splits)

lemma snapshot_inserts_keys:
  "keyOfRow ` set (pool (snd (fold (snapshotInsert now guard key scr loc) us am)))
     \<subseteq> keyOfRow ` set (pool (snd am)) \<union> (\<lambda>u. (tx_hash u, tx_pos u)) ` set us"
proof (induction us arbitrary: am)
  case (Cons u us)
  show ?case using Cons.IH [of "snapshotInsert now guard key scr loc u am"] snapshotInsert_keys [of now guard key scr loc u am]
    by (simp del: image_Un) blast
qed simp

lemma snapshot_removes_keys:
  "keyOfRow ` set (pool (snd (fold (snapshotRemove now guard listed) rows rm))) \<subseteq> keyOfRow ` set (pool (snd rm))"
proof (induction rows arbitrary: rm)
  case (Cons r rows)
  have "keyOfRow ` set (pool (snd (snapshotRemove now guard listed r rm))) \<subseteq> keyOfRow ` set (pool (snd rm))"
    using snapshotRemove_pool [of now guard listed r rm] by (auto simp: deleteRows_def)
  then show ?case using Cons.IH [of "snapshotRemove now guard listed r rm"] by simp
qed simp

lemma reconcile_keys:
  "keyOfRow ` set (pool (snd (reconcile now guard joined force icao scr answer m)))
     \<subseteq> keyOfRow ` set (pool m) \<union> (case answer of None \<Rightarrow> {} | Some us \<Rightarrow> (\<lambda>u. (tx_hash u, tx_pos u)) ` set us)"
proof -
  have snapshot: "keyOfRow ` set (pool (snd (applyChainSnapshot now g key scr us m')))
      \<subseteq> keyOfRow ` set (pool m') \<union> (\<lambda>u. (tx_hash u, tx_pos u)) ` set us" for g key us m'
  proof -
    obtain am rows rm where p: "am = fold (snapshotInsert now g (js_upper key) scr
          (set (map (\<lambda>r. outpointKey (txid r) (vout r)) (filter (\<lambda>r. aircraft_icao r = js_upper key) (pool m'))))) us (0, m')"
      "rows = snd (markUtxosConfirmed (map (\<lambda>u. (tx_hash u, tx_pos u))
          (filter (\<lambda>u. isConfirmedHeight (wu_height u)) us)) (pool (snd am)))"
      "rm = fold (snapshotRemove now g (listedKeys us))
          (filter (\<lambda>r. aircraft_icao r = js_upper key) (pool m')) (0, (snd am)\<lparr>pool := rows\<rparr>)"
      "pool (snd (applyChainSnapshot now g key scr us m')) = pool (snd rm)"
      by (rule applyChainSnapshot_phases)
    have "keyOfRow ` set (pool (snd rm)) \<subseteq> keyOfRow ` set rows"
      using snapshot_removes_keys [of now g "listedKeys us" _ "(0, (snd am)\<lparr>pool := rows\<rparr>)"] unfolding p(3) by simp
    also have "keyOfRow ` set rows = keyOfRow ` set (pool (snd am))"
    proof -
      have "map keyOfRow rows = map keyOfRow (pool (snd am))"
        unfolding p(2) by (simp add: markUtxosConfirmed_def updateWhere_def keyOfRow_def)
      then show ?thesis by (metis set_map)
    qed
    also have "\<dots> \<subseteq> keyOfRow ` set (pool m') \<union> (\<lambda>u. (tx_hash u, tx_pos u)) ` set us"
      unfolding p(1) using snapshot_inserts_keys [of now g "js_upper key" scr _ us "(0, m')"] by simp
    finally show ?thesis unfolding p(4) .
  qed
  show ?thesis
  proof (cases answer)
    case None
    then show ?thesis by (simp add: reconcile_def Let_def)
  next
    case (Some us)
    define m1 where "m1 = (if force then m
      else m\<lparr>reconcileCooldownUntil := (reconcileCooldownUntil m)(js_upper icao \<mapsto> now + RECONCILE_COOLDOWN_MS)\<rparr>)"
    let ?snap = "applyChainSnapshot now (if force then 0 else guard) (js_upper icao) scr us m1"
    obtain counts m2 where snap: "?snap = (counts, m2)" by (cases ?snap)
    have "pool m1 = pool m" by (simp add: m1_def)
    moreover have "pool (snd (reconcile now guard joined force icao scr answer m)) \<in> {pool m, pool m2}"
      unfolding reconcile_def Let_def Some option.case m1_def [symmetric] snap prod.case by simp
    ultimately show ?thesis
      using snapshot [of "if force then 0 else guard" "js_upper icao" us m1] unfolding snap
      by (elim insertE emptyE) (simp_all add: Some)
  qed
qed

end
