(* ===== verification/Alerts.thy ===== *)
theory Alerts
  imports Flight_Phase
begin

text \<open>
  The alert engine, \<open>services/alert-engine/src/\<close>: the table of expected phase changes
  (\<open>phase-anomaly.ts\<close>), the rules evaluated on every record (\<open>rule-engine.ts\<close>), the
  signal-loss monitor (\<open>signal-monitor.ts\<close>) and the message handler that joins them with a
  phase detector of its own (\<open>index.ts\<close>).

  An alert keeps its severity, type, aircraft and flight and the structured data of its kind; the
  random identifier, the creation time and the rendered message are left out. The rows of the
  \<open>alerts\<close> table are the list of alerts persisted; database and Redis calls succeed. The state of
  a handler changes before its first \<open>await\<close>, so one message is one step.
\<close>

subsection \<open>Unexpected phase changes\<close>

fun VALID_NEXT :: "FlightPhase \<Rightarrow> FlightPhase list" where
  "VALID_NEXT PARKED = [PARKED, TAXI]"
| "VALID_NEXT TAXI = [TAXI, TAKEOFF, PARKED, TAXI_IN]"
| "VALID_NEXT TAKEOFF = [TAKEOFF, CLIMB, LANDING, APPROACH]"
| "VALID_NEXT CLIMB = [CLIMB, CRUISE, DESCENT, TAKEOFF]"
| "VALID_NEXT CRUISE = [CRUISE, DESCENT, CLIMB, APPROACH]"
| "VALID_NEXT DESCENT = [DESCENT, APPROACH, CRUISE, CLIMB]"
| "VALID_NEXT APPROACH = [APPROACH, LANDING, DESCENT, CRUISE]"
| "VALID_NEXT LANDING = [LANDING, TAXI_IN, APPROACH]"
| "VALID_NEXT TAXI_IN = [TAXI_IN, PARKED, TAXI]"

datatype AlertData =
  RollDeg real | BaroRate real | LowAltitude real FlightPhase | Speed real real | Squawk string
| PhaseChange FlightPhase FlightPhase | SignalLoss int bool

datatype AlertType =
  EXTREME_ROLL | RAPID_ALTITUDE_LOSS | LOW_ALTITUDE | EXCESSIVE_SPEED | EMERGENCY_SQUAWK
| UNEXPECTED_PHASE_TRANSITION | SIGNAL_LOSS

record AlertRecord =
  al_icao :: string
  al_flight_id :: "string option"
  al_severity :: AlertSeverity
  al_type :: AlertType
  al_data :: AlertData

definition checkTransition :: "string \<Rightarrow> FlightPhase \<Rightarrow> FlightPhase \<Rightarrow> AlertRecord option" where
  "checkTransition icao from to =
     (if from = to then None
      else if to \<in> set (VALID_NEXT from) then None
      else Some \<lparr> al_icao = normaliseIcao icao, al_flight_id = None, al_severity = CRITICAL,
                  al_type = UNEXPECTED_PHASE_TRANSITION, al_data = PhaseChange from to \<rparr>)"

subsection \<open>The rules\<close>

definition LOW_ALT_PHASE_EXCLUSIONS :: "FlightPhase list" where
  "LOW_ALT_PHASE_EXCLUSIONS = [TAKEOFF, APPROACH, LANDING]"

definition buildAlert ::
  "TelemetryRecord \<Rightarrow> AlertSeverity \<Rightarrow> AlertType \<Rightarrow> AlertData \<Rightarrow> AlertRecord" where
  "buildAlert r sev ty d =
     \<lparr> al_icao = normaliseIcao (tr_icao r), al_flight_id = tr_flight_id r, al_severity = sev,
       al_type = ty, al_data = d \<rparr>"

definition ruleExtremeRoll :: "TelemetryRecord \<Rightarrow> AlertRecord option" where
  "ruleExtremeRoll r =
     (if tr_on_ground r then None
      else case tr_roll r of None \<Rightarrow> None
      | Some roll \<Rightarrow> if \<bar>roll\<bar> \<le> 45 then None
                     else Some (buildAlert r CRITICAL EXTREME_ROLL (RollDeg roll)))"

definition ruleRapidAltitudeLoss :: "TelemetryRecord \<Rightarrow> AlertRecord option" where
  "ruleRapidAltitudeLoss r =
     (case tr_baro_rate r of None \<Rightarrow> None
      | Some rate \<Rightarrow> if rate \<ge> - 4000 then None
                     else Some (buildAlert r CRITICAL RAPID_ALTITUDE_LOSS (BaroRate rate)))"

definition ruleLowAltitude :: "TelemetryRecord \<Rightarrow> FlightPhase \<Rightarrow> AlertRecord option" where
  "ruleLowAltitude r phase =
     (if tr_on_ground r then None
      else case tr_alt_baro r of None \<Rightarrow> None
      | Some alt \<Rightarrow> if alt \<ge> 1000 then None
                    else if phase \<in> set LOW_ALT_PHASE_EXCLUSIONS then None
                    else Some (buildAlert r WARNING LOW_ALTITUDE (LowAltitude alt phase)))"

definition ruleExcessiveSpeed :: "TelemetryRecord \<Rightarrow> AlertRecord option" where
  "ruleExcessiveSpeed r =
     (case tr_gs r of None \<Rightarrow> None
      | Some gs \<Rightarrow> (case tr_alt_baro r of None \<Rightarrow> None
      | Some alt \<Rightarrow> if alt \<ge> 10000 \<or> gs \<le> 600 then None
                    else Some (buildAlert r WARNING EXCESSIVE_SPEED (Speed gs alt))))"

definition ruleEmergencySquawk :: "TelemetryRecord \<Rightarrow> AlertRecord option" where
  "ruleEmergencySquawk r =
     (let code = (case tr_squawk r of Some s \<Rightarrow> js_trim s | None \<Rightarrow> '''') in
      if \<not> isEmergencySquawk code then None
      else Some (buildAlert r EMERGENCY EMERGENCY_SQUAWK (Squawk code)))"

record AlertRuleEngine =
  lastPhaseByIcao :: "string \<rightharpoonup> FlightPhase"
  alertRows :: "AlertRecord list"

definition newEngine :: AlertRuleEngine where
  "newEngine = \<lparr> lastPhaseByIcao = Map.empty, alertRows = [] \<rparr>"

definition evaluateAlerts ::
  "TelemetryRecord \<Rightarrow> FlightPhase \<Rightarrow> AlertRuleEngine \<Rightarrow> AlertRecord list \<times> AlertRuleEngine" where
  "evaluateAlerts r phase e =
     (let icao = normaliseIcao (tr_icao r);
          previousPhase = lastPhaseByIcao e icao;
          candidates =
            [ruleExtremeRoll r, ruleRapidAltitudeLoss r, ruleLowAltitude r phase,
             ruleExcessiveSpeed r, ruleEmergencySquawk r,
             (case previousPhase of None \<Rightarrow> None
              | Some p \<Rightarrow> if p \<noteq> phase then checkTransition icao p phase else None)];
          triggered = List.map_filter id candidates
      in (triggered,
          e\<lparr>lastPhaseByIcao := (lastPhaseByIcao e)(icao \<mapsto> phase),
            alertRows := alertRows e @ triggered\<rparr>))"

subsection \<open>Signal loss\<close>

definition WARNING_AFTER_MS :: millis where "WARNING_AFTER_MS = 30000"
definition CRITICAL_AFTER_MS :: millis where "CRITICAL_AFTER_MS = 120000"

datatype SignalTier = Tier_ok | Tier_warning | Tier_critical

instantiation SignalTier :: linorder
begin

fun tierRank :: "SignalTier \<Rightarrow> nat" where
  "tierRank Tier_ok = 0"
| "tierRank Tier_warning = 1"
| "tierRank Tier_critical = 2"

definition less_eq_SignalTier :: "SignalTier \<Rightarrow> SignalTier \<Rightarrow> bool" where
  "less_eq_SignalTier a b \<longleftrightarrow> tierRank a \<le> tierRank b"

definition less_SignalTier :: "SignalTier \<Rightarrow> SignalTier \<Rightarrow> bool" where
  "less_SignalTier a b \<longleftrightarrow> tierRank a < tierRank b"

instance
proof
  fix x y z :: SignalTier
  show "x < y \<longleftrightarrow> x \<le> y \<and> \<not> y \<le> x" "x \<le> x" "x \<le> y \<or> y \<le> x"
    by (auto simp: less_eq_SignalTier_def less_SignalTier_def)
  show "x \<le> y \<Longrightarrow> y \<le> z \<Longrightarrow> x \<le> z"
    by (simp add: less_eq_SignalTier_def)
  show "x \<le> y \<Longrightarrow> y \<le> x \<Longrightarrow> x = y"
    by (cases x; cases y) (simp_all add: less_eq_SignalTier_def)
qed

end

record SignalLossMonitor =
  sm_tracked :: "string list"
  sm_lastSeen :: "string \<rightharpoonup> millis"
  sm_lastEmittedTier :: "string \<rightharpoonup> SignalTier"

text \<open>The tracked addresses form a \<open>Set\<close>, iterated in insertion order.\<close>

definition newMonitor :: "string list \<Rightarrow> SignalLossMonitor" where
  "newMonitor trackedIcaos =
     \<lparr> sm_tracked = rev (remdups (rev (filter (\<lambda>s. s \<noteq> '''') (map normaliseIcao trackedIcaos)))),
       sm_lastSeen = Map.empty, sm_lastEmittedTier = Map.empty \<rparr>"

definition recordSeen :: "millis \<Rightarrow> string \<Rightarrow> SignalLossMonitor \<Rightarrow> SignalLossMonitor" where
  "recordSeen now icao m =
     (let key = normaliseIcao icao in
      m\<lparr>sm_lastSeen := (sm_lastSeen m)(key \<mapsto> now),
        sm_lastEmittedTier := (sm_lastEmittedTier m)(key \<mapsto> Tier_ok)\<rparr>)"

definition tierOf :: "millis \<Rightarrow> SignalTier" where
  "tierOf age = (if age > CRITICAL_AFTER_MS then Tier_critical
                 else if age > WARNING_AFTER_MS then Tier_warning else Tier_ok)"

text \<open>\<open>Math.round(age / 1000)\<close>: halves round up.\<close>

definition roundSeconds :: "millis \<Rightarrow> int" where
  "roundSeconds age = (age + 500) div 1000"

definition checkOne ::
  "millis \<Rightarrow> string \<Rightarrow> AlertRecord list \<times> SignalLossMonitor \<Rightarrow> AlertRecord list \<times> SignalLossMonitor" where
  "checkOne now icao om =
     (let (out, m) = om in
      case sm_lastSeen m icao of None \<Rightarrow> (out, m)
      | Some seen \<Rightarrow>
          (let age = now - seen; tier = tierOf age;
               prev = (case sm_lastEmittedTier m icao of Some t \<Rightarrow> t | None \<Rightarrow> Tier_ok)
           in if tier = prev then (out, m)
              else if tier = Tier_ok
              then (out, m\<lparr>sm_lastEmittedTier := (sm_lastEmittedTier m)(icao \<mapsto> Tier_ok)\<rparr>)
              else (out @ [\<lparr> al_icao = icao, al_flight_id = None,
                             al_severity = (if tier = Tier_critical then CRITICAL else WARNING),
                             al_type = SIGNAL_LOSS,
                             al_data = SignalLoss (roundSeconds age) (tier = Tier_critical) \<rparr>],
                    m\<lparr>sm_lastEmittedTier := (sm_lastEmittedTier m)(icao \<mapsto> tier)\<rparr>)))"

definition checkAll :: "millis \<Rightarrow> SignalLossMonitor \<Rightarrow> AlertRecord list \<times> SignalLossMonitor" where
  "checkAll now m = fold (checkOne now) (sm_tracked m) ([], m)"


subsection \<open>The engine\<close>

definition DISPATCHED_ALERT_MEMORY :: nat where "DISPATCHED_ALERT_MEMORY = 500"

text \<open>The set of dispatched identifiers in insertion order; the answer is whether it is new.\<close>

definition rememberDispatched :: "string \<Rightarrow> string list \<Rightarrow> bool \<times> string list" where
  "rememberDispatched ident mem =
     (if ident \<in> set mem then (False, mem)
      else let mem' = mem @ [ident] in
           (True, if length mem' > DISPATCHED_ALERT_MEMORY then tl mem' else mem'))"

definition parseTelemetry :: "string list \<Rightarrow> TelemetryRecord option \<Rightarrow> TelemetryRecord option" where
  "parseTelemetry tracked parsed =
     (case parsed of None \<Rightarrow> None
      | Some r \<Rightarrow> if normaliseIcao (tr_icao r) \<notin> set tracked then None else Some r)"

definition parsePhasePayload ::
  "string list \<Rightarrow> (string \<times> FlightPhase option \<times> FlightPhase option) option
   \<Rightarrow> (string \<times> FlightPhase \<times> FlightPhase) option" where
  "parsePhasePayload tracked parsed =
     (case parsed of None \<Rightarrow> None
      | Some (icaoRaw, f, t) \<Rightarrow>
          (let icao = normaliseIcao icaoRaw in
           if icao = '''' \<or> icao \<notin> set tracked then None
           else (case (f, t) of (Some p, Some q) \<Rightarrow> Some (icao, p, q) | _ \<Rightarrow> None)))"

text \<open>
  A message with its JSON parsed (\<open>None\<close> where parsing fails), the clock, and the identifiers
  the generator hands out for the alerts raised while it is handled.
\<close>

datatype alert_message =
  SystemAlert "(string \<times> AlertRecord) option"
| Telemetry "TelemetryRecord option"
| PhaseReport "(string \<times> FlightPhase option \<times> FlightPhase option) option"
| Tick

record AlertEngine =
  ae_tracked :: "string list"
  ae_detector :: FlightPhaseDetector
  ae_rules :: AlertRuleEngine
  ae_monitor :: SignalLossMonitor
  ae_dispatched :: "string list"
  ae_feed :: "AlertRecord list"
  ae_notified :: "AlertRecord list"

definition newAlertEngine :: "string list \<Rightarrow> AlertEngine" where
  "newAlertEngine tracked =
     \<lparr> ae_tracked = tracked, ae_detector = newDetector, ae_rules = newEngine,
       ae_monitor = newMonitor tracked, ae_dispatched = [], ae_feed = [], ae_notified = [] \<rparr>"

definition publishAlert :: "string \<Rightarrow> AlertRecord \<Rightarrow> AlertEngine \<Rightarrow> AlertEngine" where
  "publishAlert ident a e =
     e\<lparr>ae_dispatched := snd (rememberDispatched ident (ae_dispatched e)), ae_feed := ae_feed e @ [a]\<rparr>"

definition notifyAlert :: "AlertRecord \<Rightarrow> AlertEngine \<Rightarrow> AlertEngine" where
  "notifyAlert a e = e\<lparr>ae_notified := ae_notified e @ [a]\<rparr>"

definition insertAlert :: "AlertRecord \<Rightarrow> AlertEngine \<Rightarrow> AlertEngine" where
  "insertAlert a e = e\<lparr>ae_rules := (ae_rules e)\<lparr>alertRows := alertRows (ae_rules e) @ [a]\<rparr>\<rparr>"

fun dispatchAll :: "bool \<Rightarrow> (nat \<Rightarrow> string) \<Rightarrow> nat \<Rightarrow> AlertRecord list \<Rightarrow> AlertEngine \<Rightarrow> AlertEngine" where
  "dispatchAll persist ids n [] e = e"
| "dispatchAll persist ids n (a # as) e =
     dispatchAll persist ids (Suc n) as
       (notifyAlert a (publishAlert (ids n) a (if persist then insertAlert a e else e)))"

fun handleRedisMessage ::
  "millis \<Rightarrow> (nat \<Rightarrow> string) \<Rightarrow> alert_message \<Rightarrow> AlertEngine \<Rightarrow> AlertEngine" where
  "handleRedisMessage now ids (SystemAlert parsed) e =
     (case parsed of None \<Rightarrow> e
      | Some (ident, a) \<Rightarrow>
          (let (new, mem) = rememberDispatched ident (ae_dispatched e) in
           if new then notifyAlert a (e\<lparr>ae_dispatched := mem\<rparr>) else e))"
| "handleRedisMessage now ids (Telemetry parsed) e =
     (case parseTelemetry (ae_tracked e) parsed of None \<Rightarrow> e
      | Some r \<Rightarrow>
          (let (det, phase, _, _) = updateWithTransitions now r (ae_detector e);
               (alerts, rules) = evaluateAlerts r phase (ae_rules e)
           in dispatchAll False ids 0 alerts
                (e\<lparr>ae_monitor := recordSeen now (tr_icao r) (ae_monitor e),
                   ae_detector := det, ae_rules := rules\<rparr>)))"
| "handleRedisMessage now ids (PhaseReport parsed) e =
     (case parsePhasePayload (ae_tracked e) parsed of None \<Rightarrow> e
      | Some (icao, p, q) \<Rightarrow>
          (case checkTransition icao p q of None \<Rightarrow> e
           | Some a \<Rightarrow> dispatchAll True ids 0 [a] e))"
| "handleRedisMessage now ids Tick e =
     (let (alerts, m) = checkAll now (ae_monitor e) in
      dispatchAll True ids 0 alerts (e\<lparr>ae_monitor := m\<rparr>))"


subsection \<open>Which detector edges raise an alarm\<close>

definition alarmEdges :: "(FlightPhase \<times> FlightPhase) list" where
  "alarmEdges =
    [(PARKED, TAKEOFF), (TAXI_IN, TAKEOFF), (LANDING, TAKEOFF), (LANDING, PARKED),
     (CLIMB, APPROACH), (CLIMB, LANDING), (CRUISE, LANDING), (DESCENT, LANDING)]"

inductive_simps phase_edge_to [simp]:
  "phase_edge p PARKED" "phase_edge p TAXI" "phase_edge p TAKEOFF" "phase_edge p CLIMB"
  "phase_edge p CRUISE" "phase_edge p DESCENT" "phase_edge p APPROACH" "phase_edge p LANDING"
  "phase_edge p TAXI_IN"

lemma alarm_edges_exact:
  "phase_edge p q \<Longrightarrow> q \<notin> set (VALID_NEXT p) \<longleftrightarrow> (p, q) \<in> set alarmEdges"
  by (cases q; cases p) (simp_all add: alarmEdges_def air_phases_def ground_phases_def)

lemma alarm_edges_possible: "(p, q) \<in> set alarmEdges \<Longrightarrow> phase_edge p q \<and> p \<noteq> q"
  by (auto simp: alarmEdges_def air_phases_def ground_phases_def)

lemma VALID_NEXT_refl [simp]: "p \<in> set (VALID_NEXT p)"
  by (cases p) simp_all

text \<open>The engine's memory of phases is the detector's.\<close>

definition engine_inv :: "AlertEngine \<Rightarrow> bool" where
  "engine_inv e \<longleftrightarrow> reachable (ae_detector e)
     \<and> (\<forall>k. lastPhaseByIcao (ae_rules e) k = map_option currentPhase (states (ae_detector e) k))"

lemma dispatch_frame [simp]:
  "ae_detector (dispatchAll persist ids n as e) = ae_detector e"
  "lastPhaseByIcao (ae_rules (dispatchAll persist ids n as e)) = lastPhaseByIcao (ae_rules e)"
  "ae_monitor (dispatchAll persist ids n as e) = ae_monitor e"
  by (induction persist ids n as e rule: dispatchAll.induct)
    (simp_all add: notifyAlert_def publishAlert_def insertAlert_def)

lemma update_states:
  assumes "updateWithTransitions now r d = (det, q, trs, calls)"
  shows "det = update now r d"
    and "states det = (states d)(normaliseIcao (tr_icao r) := sampleStep (now, r) (states d (normaliseIcao (tr_icao r))))"
    and "map_option currentPhase (states det (normaliseIcao (tr_icao r))) = Some q"
proof -
  show det: "det = update now r d" using assms by (simp add: update_def)
  show "states det = (states d)(normaliseIcao (tr_icao r) := sampleStep (now, r) (states d (normaliseIcao (tr_icao r))))"
    by (simp add: det states_update)
  show "map_option currentPhase (states det (normaliseIcao (tr_icao r))) = Some q"
    using assms by (auto simp: updateWithTransitions_def Let_def split: option.splits prod.splits)
qed

lemma evaluate_phases: "lastPhaseByIcao (snd (evaluateAlerts r q e)) = (lastPhaseByIcao e)(normaliseIcao (tr_icao r) \<mapsto> q)"
  by (simp add: evaluateAlerts_def Let_def)

lemma engine_inv_step: "engine_inv e \<Longrightarrow> engine_inv (handleRedisMessage now ids m e)"
proof (induction now ids m e rule: handleRedisMessage.induct)
  case (2 now ids parsed e)
  show ?case
  proof (cases "parseTelemetry (ae_tracked e) parsed")
    case (Some r)
    obtain det q trs calls where u: "updateWithTransitions now r (ae_detector e) = (det, q, trs, calls)"
      by (metis prod_cases4)
    note d = update_states [OF u]
    from 2 have "reachable det" by (auto simp: engine_inv_def d(1) intro: reachable.observe)
    moreover have "((lastPhaseByIcao (ae_rules e))(normaliseIcao (tr_icao r) \<mapsto> q)) k
        = map_option currentPhase (states det k)" for k
      using 2 d(3) by (auto simp: engine_inv_def d(2))
    ultimately show ?thesis
      using Some u by (auto simp: engine_inv_def evaluate_phases [symmetric] split: prod.splits)
  qed (use 2 in simp)
qed (auto simp: engine_inv_def notifyAlert_def publishAlert_def insertAlert_def Let_def split: option.splits prod.splits)

type_synonym engine_event = "millis \<times> (nat \<Rightarrow> string) \<times> alert_message"

definition runEngine :: "string list \<Rightarrow> engine_event list \<Rightarrow> AlertEngine" where
  "runEngine tracked evs = fold (\<lambda>(now, ids, m). handleRedisMessage now ids m) evs (newAlertEngine tracked)"

lemma engine_inv_run: "engine_inv (runEngine tracked evs)"
proof -
  have "engine_inv (newAlertEngine tracked)"
    by (simp add: engine_inv_def newAlertEngine_def newEngine_def reachable.start)
      (simp add: newDetector_def)
  then have "engine_inv (fold (\<lambda>(now, ids, m). handleRedisMessage now ids m) evs (newAlertEngine tracked))"
    by (induction evs rule: rev_induct) (auto intro: engine_inv_step)
  then show ?thesis by (simp add: runEngine_def)
qed

lemmas rule_defs = ruleExtremeRoll_def ruleRapidAltitudeLoss_def ruleLowAltitude_def
  ruleExcessiveSpeed_def ruleEmergencySquawk_def buildAlert_def

lemma unexpected_iff:
  "(\<exists>a \<in> set (fst (evaluateAlerts r q e)). al_type a = UNEXPECTED_PHASE_TRANSITION) \<longleftrightarrow>
     (\<exists>p. lastPhaseByIcao e (normaliseIcao (tr_icao r)) = Some p \<and> q \<notin> set (VALID_NEXT p))"
  by (auto simp: evaluateAlerts_def Let_def List.map_filter_def checkTransition_def rule_defs
      split: option.splits if_splits)

text \<open>
  C22: an unexpected-transition alarm is raised exactly for eight of the edges the phase detector
  can take. In every state the engine reaches, a telemetry record of a known aircraft raises one
  if and only if the detector moves it along one of: a take-off from the stand, from the taxi-in
  or out of a landing roll, parking straight from the landing roll, an approach out of the climb,
  and a touchdown from climb, cruise or descent.
\<close>

theorem alarms_of_detector_edges:
  assumes "e = runEngine tracked evs"
    and "states (ae_detector e) (normaliseIcao (tr_icao r)) = Some st"
    and "updateWithTransitions now r (ae_detector e) = (det, q, trs, calls)"
  shows "(\<exists>a \<in> set (fst (evaluateAlerts r q (ae_rules e))). al_type a = UNEXPECTED_PHASE_TRANSITION)
       \<longleftrightarrow> (currentPhase st, q) \<in> set alarmEdges"
proof -
  let ?k = "normaliseIcao (tr_icao r)"
  have inv: "engine_inv e" using engine_inv_run assms(1) by simp
  obtain st' trs' where u: "updateState now r st = (st', trs')" by fastforce
  have q: "currentPhase st' = q"
    using update_states(2,3) [OF assms(3)] assms(2) u by simp
  have coh: "coherent st"
    using reachable_states [of "ae_detector e" ?k st] inv assms(2) by (simp add: engine_inv_def phase_inv_def)
  have "lastPhaseByIcao (ae_rules e) ?k = Some (currentPhase st)"
    using inv assms(2) by (simp add: engine_inv_def)
  moreover have "q \<notin> set (VALID_NEXT (currentPhase st)) \<longleftrightarrow> (currentPhase st, q) \<in> set alarmEdges"
  proof (cases "q = currentPhase st")
    case True
    then show ?thesis using alarm_edges_possible by auto
  next
    case False
    then obtain t where "t \<in> set trs'" using updateState_trs [OF u] q by (cases trs') auto
    from updateState_edge [OF u coh this] q have "phase_edge (currentPhase st) q" by metis
    then show ?thesis by (rule alarm_edges_exact)
  qed
  ultimately show ?thesis by (simp add: unexpected_iff)
qed


theorem alarms_of_detector_edges_witness:
  "list_ex (\<lambda>a. al_type a = UNEXPECTED_PHASE_TRANSITION)
     (fst (evaluateAlerts (emptyRecord\<lparr>tr_on_ground := False\<rparr>) TAKEOFF
        (ae_rules (runEngine [''''] [(4, \<lambda>_. ''a'', Telemetry (Some (emptyRecord\<lparr>tr_on_ground := True\<rparr>)))]))))"
proof -
  let ?ground = "emptyRecord\<lparr>tr_on_ground := True\<rparr>" and ?air = "emptyRecord\<lparr>tr_on_ground := False\<rparr>"
  let ?e = "runEngine [''''] [(4, \<lambda>_. ''a'', Telemetry (Some ?ground))]"
  have icao: "tr_icao ?ground = ''''" "tr_icao ?air = ''''" "normaliseIcao '''' = ''''"
    by (simp_all add: emptyRecord_def normaliseIcao_def js_trim_def trim_left_def js_upper_def)
  have "parseTelemetry [''''] (Some ?ground) = Some ?ground" by (simp add: parseTelemetry_def icao)
  moreover obtain det0 q0 trs0 calls0
    where u0: "updateWithTransitions 4 ?ground newDetector = (det0, q0, trs0, calls0)" by (metis prod_cases4)
  ultimately have "ae_detector ?e = det0"
    by (simp add: runEngine_def newAlertEngine_def split: prod.splits)
  with update_states(2) [OF u0]
  have st: "states (ae_detector ?e) (normaliseIcao (tr_icao ?air)) = Some (createStateFromFirstRecord 4 ?ground)"
    by (simp add: icao newDetector_def)
  obtain det q trs calls where u: "updateWithTransitions 5 ?air (ae_detector ?e) = (det, q, trs, calls)"
    by (metis prod_cases4)
  from u st have "q = TAKEOFF" and "currentPhase (createStateFromFirstRecord 4 ?ground) = PARKED"
    by (auto simp: detector_eval icao)
  with alarms_of_detector_edges [OF refl st u] show ?thesis
    by (auto simp: list_ex_iff alarmEdges_def)
qed

subsection \<open>Escalation of a lost signal\<close>

definition alertsFor :: "string \<Rightarrow> AlertRecord list \<Rightarrow> AlertRecord list" where
  "alertsFor k as = filter (\<lambda>a. al_icao a = k) as"

definition lossAlert :: "string \<Rightarrow> millis \<Rightarrow> AlertRecord" where
  "lossAlert k age = \<lparr> al_icao = k, al_flight_id = None,
     al_severity = (if tierOf age = Tier_critical then CRITICAL else WARNING), al_type = SIGNAL_LOSS,
     al_data = SignalLoss (roundSeconds age) (tierOf age = Tier_critical) \<rparr>"

text \<open>The reference for one aircraft: an alert whenever a check finds a tier that is new and bad.\<close>

fun escalation :: "SignalTier \<Rightarrow> millis list \<Rightarrow> (SignalTier \<times> millis) list" where
  "escalation prev [] = []"
| "escalation prev (age # ages) =
     (if tierOf age \<noteq> prev \<and> tierOf age \<noteq> Tier_ok then [(tierOf age, age)] else [])
     @ escalation (tierOf age) ages"

fun runChecks :: "millis list \<Rightarrow> SignalLossMonitor \<Rightarrow> AlertRecord list" where
  "runChecks [] m = []"
| "runChecks (t # ts) m = (case checkAll t m of (out, m') \<Rightarrow> out @ runChecks ts m')"

definition tierFor :: "string \<Rightarrow> SignalLossMonitor \<Rightarrow> SignalTier" where
  "tierFor k m = (case sm_lastEmittedTier m k of Some t \<Rightarrow> t | None \<Rightarrow> Tier_ok)"

lemma checkOne_frame:
  "sm_lastSeen (snd (checkOne now j om)) = sm_lastSeen (snd om)"
  "sm_tracked (snd (checkOne now j om)) = sm_tracked (snd om)"
  "j \<noteq> k \<Longrightarrow> sm_lastEmittedTier (snd (checkOne now j om)) k = sm_lastEmittedTier (snd om) k"
  "j \<noteq> k \<Longrightarrow> alertsFor k (fst (checkOne now j om)) = alertsFor k (fst om)"
  by (auto simp: checkOne_def alertsFor_def Let_def split: prod.splits option.splits)

lemma checks_frame:
  "sm_lastSeen (snd (fold (checkOne now) js om)) = sm_lastSeen (snd om)"
  "sm_tracked (snd (fold (checkOne now) js om)) = sm_tracked (snd om)"
  "k \<notin> set js \<Longrightarrow> sm_lastEmittedTier (snd (fold (checkOne now) js om)) k = sm_lastEmittedTier (snd om) k"
  "k \<notin> set js \<Longrightarrow> alertsFor k (fst (fold (checkOne now) js om)) = alertsFor k (fst om)"
  by (induction js arbitrary: om) (auto simp: checkOne_frame)

lemma checkOne_self:
  assumes "sm_lastSeen (snd om) k = Some seen"
  shows "tierFor k (snd (checkOne now k om)) = tierOf (now - seen)"
    and "alertsFor k (fst (checkOne now k om)) = alertsFor k (fst om)
      @ (if tierOf (now - seen) \<noteq> tierFor k (snd om) \<and> tierOf (now - seen) \<noteq> Tier_ok
         then [lossAlert k (now - seen)] else [])"
  using assms
  by (auto simp: checkOne_def tierFor_def alertsFor_def lossAlert_def Let_def split: prod.splits option.splits)

lemma checkAll_tracked:
  assumes "sm_lastSeen m k = Some seen" "k \<in> set (sm_tracked m)" "distinct (sm_tracked m)"
    and "checkAll now m = (out, m')"
  shows "tierFor k m' = tierOf (now - seen)" "sm_lastSeen m' = sm_lastSeen m" "sm_tracked m' = sm_tracked m"
    and "alertsFor k out = (if tierOf (now - seen) \<noteq> tierFor k m \<and> tierOf (now - seen) \<noteq> Tier_ok
         then [lossAlert k (now - seen)] else [])"
proof -
  obtain as bs where ab: "sm_tracked m = as @ k # bs" using assms(2) by (auto simp: in_set_conv_decomp)
  let ?om = "fold (checkOne now) as ([], m)"
  have notin: "k \<notin> set as" "k \<notin> set bs" using assms(3) ab by auto
  have om: "sm_lastSeen (snd ?om) k = Some seen" "tierFor k (snd ?om) = tierFor k m" "alertsFor k (fst ?om) = []"
    using assms(1) notin by (simp_all add: checks_frame tierFor_def alertsFor_def [of k "[]"])
  have res: "(out, m') = fold (checkOne now) bs (checkOne now k ?om)"
    using assms(4) by (simp add: checkAll_def ab)
  show "sm_lastSeen m' = sm_lastSeen m" "sm_tracked m' = sm_tracked m"
    using arg_cong [OF res, of snd] by (simp_all add: checks_frame checkOne_frame)
  show "tierFor k m' = tierOf (now - seen)"
    using arg_cong [OF res, of snd] checkOne_self(1) [OF om(1), of now] notin(2)
    by (simp add: tierFor_def checks_frame)
  show "alertsFor k out = (if tierOf (now - seen) \<noteq> tierFor k m \<and> tierOf (now - seen) \<noteq> Tier_ok
         then [lossAlert k (now - seen)] else [])"
    using arg_cong [OF res, of fst] checkOne_self(2) [OF om(1), of now] notin(2)
    by (simp add: om checks_frame)
qed

lemma runChecks_escalation:
  assumes "sm_lastSeen m k = Some seen" "k \<in> set (sm_tracked m)" "distinct (sm_tracked m)"
  shows "alertsFor k (runChecks ts m) =
    map (\<lambda>p. lossAlert k (snd p)) (escalation (tierFor k m) (map (\<lambda>t. t - seen) ts))"
  using assms
proof (induction ts arbitrary: m)
  case (Cons t ts)
  obtain out m' where c: "checkAll t m = (out, m')" by fastforce
  note ch = checkAll_tracked [OF Cons.prems c]
  have "alertsFor k (out @ runChecks ts m') = alertsFor k out @ alertsFor k (runChecks ts m')"
    by (simp add: alertsFor_def)
  then show ?case
    using Cons.IH [of m'] Cons.prems ch by (auto simp: c)
qed (simp add: alertsFor_def)

lemma tierOf_mono: "a \<le> b \<Longrightarrow> tierOf a \<le> tierOf b"
  by (auto simp: tierOf_def less_eq_SignalTier_def WARNING_AFTER_MS_def CRITICAL_AFTER_MS_def)

text \<open>With checks in order, the tiers only rise.\<close>

definition firstOf :: "SignalTier \<Rightarrow> millis list \<Rightarrow> (SignalTier \<times> millis) list" where
  "firstOf tier ages =
     (case List.find (\<lambda>a. tierOf a = tier) ages of Some a \<Rightarrow> [(tier, a)] | None \<Rightarrow> [])"

lemma firstOf_simps [simp]:
  "firstOf tier [] = []"
  "firstOf tier (a # ages) = (if tierOf a = tier then [(tier, a)] else firstOf tier ages)"
  by (simp_all add: firstOf_def)

lemma firstOf_below: "(\<And>b. b \<in> set ages \<Longrightarrow> tierOf b \<noteq> tier) \<Longrightarrow> firstOf tier ages = []"
  by (induction ages) auto

lemma escalation_critical: "sorted (a # ages) \<Longrightarrow> tierOf a = Tier_critical \<Longrightarrow> escalation Tier_critical ages = []"
proof (induction ages arbitrary: a)
  case (Cons b ages)
  have "tierOf b = Tier_critical"
    using Cons.prems by (auto simp: tierOf_def split: if_splits)
  then show ?case using Cons by auto
qed simp

lemma escalation_warning:
  "sorted (a # ages) \<Longrightarrow> tierOf a = Tier_warning \<Longrightarrow> escalation Tier_warning ages = firstOf Tier_critical ages"
proof (induction ages arbitrary: a)
  case (Cons b ages)
  have "tierOf b = Tier_warning \<or> tierOf b = Tier_critical"
    using Cons.prems by (auto simp: tierOf_def split: if_splits)
  then show ?case using Cons escalation_critical [of b ages] by auto
qed simp

lemma escalation_ok:
  "sorted ages \<Longrightarrow> escalation Tier_ok ages = firstOf Tier_warning ages @ firstOf Tier_critical ages"
proof (induction ages)
  case (Cons a ages)
  show ?case
  proof (cases "tierOf a")
    case Tier_ok
    then show ?thesis using Cons by simp
  next
    case Tier_warning
    then show ?thesis using Cons.prems escalation_warning [of a ages] by simp
  next
    case Tier_critical
    have "tierOf b \<noteq> Tier_warning" if "b \<in> set ages" for b
      using Cons.prems that tierOf_mono [of a b] Tier_critical by (auto simp: less_eq_SignalTier_def)
    then show ?thesis
      using Cons.prems Tier_critical escalation_critical [of a ages] firstOf_below [of ages Tier_warning]
      by simp
  qed
qed simp

text \<open>
  A lost signal is reported once per tier. After an aircraft that is tracked was last heard,
  any number of checks at non-decreasing times raises for it exactly one warning, at the first
  check that finds it silent for more than 30 and at most 120 seconds, and then exactly one
  critical alert, at the first check that finds it silent for more than 120 seconds, and nothing
  else; a check that comes late skips the warning, not the critical alert.
\<close>

lemma signal_loss_escalates:
  assumes "k \<in> set (sm_tracked (newMonitor tracked))" and "normaliseIcao icao = k"
    and "sm_tracked m = sm_tracked (newMonitor tracked)" and "sorted ts"
  shows "alertsFor k (runChecks ts (recordSeen seen icao m)) =
     map (\<lambda>p. lossAlert k (snd p))
       (firstOf Tier_warning (map (\<lambda>t. t - seen) ts) @ firstOf Tier_critical (map (\<lambda>t. t - seen) ts))"
proof -
  let ?m = "recordSeen seen icao m"
  have m: "sm_lastSeen ?m k = Some seen" "tierFor k ?m = Tier_ok" "sm_tracked ?m = sm_tracked m"
    by (simp_all add: recordSeen_def assms(2) tierFor_def Let_def)
  have "distinct (sm_tracked ?m)" by (simp add: m(3) assms(3) newMonitor_def)
  moreover have "sorted (map (\<lambda>t. t - seen) ts)"
    using assms(4) by (simp add: sorted_map)
  ultimately show ?thesis
    using runChecks_escalation [of ?m k seen ts] assms(1,3) m by (simp add: escalation_ok)
qed

lemma signal_loss_escalates_witness:
  "map al_severity (alertsFor ''A1'' (runChecks [20000, 50000, 90000, 300000, 400000]
     (recordSeen 10000 ''a1'' (newMonitor [''a1''])))) = [WARNING, CRITICAL]"
proof -
  have k: "''A1'' \<in> set (sm_tracked (newMonitor [''a1'']))" "normaliseIcao ''a1'' = ''A1''"
    by code_simp+
  have "sorted [20000, 50000, 90000, 300000, 400000 :: int]" by simp
  from signal_loss_escalates [OF k refl this, of 10000] show ?thesis
    by (simp add: lossAlert_def tierOf_def WARNING_AFTER_MS_def CRITICAL_AFTER_MS_def)
qed

end
