(* ===== verification/Feed_Merge.thy ===== *)
theory Feed_Merge
  imports Feed_Clients "HOL-Library.AList"
begin

text \<open>
  The merger of \<open>services/ingestion/src/merger.ts\<close>: the partial records of all feeds, grouped by
  aircraft and combined property by property.

  The loop over \<open>Object.keys(partial)\<close> reads and writes \<open>merged[key]\<close> only, so one pass of it is
  the pointwise map \<open>mergePartial\<close>. The code compares partial records by identity; the model
  numbers the partial records of a group and compares the numbers. \<open>seqCounters\<close> is the state.
\<close>

subsection \<open>Merging one aircraft\<close>

definition ADSBFI_PREFERRED_FIELDS :: "string list" where
  "ADSBFI_PREFERRED_FIELDS =
    [''ias'', ''tas'', ''mach'', ''roll'', ''baro_rate'', ''geom_rate'', ''true_heading'',
     ''mag_heading'', ''wind_dir'', ''wind_speed'', ''oat'', ''tat'', ''nav_qnh'', ''nav_alt_mcp'',
     ''nav_alt_fms'', ''nav_heading'', ''nav_modes'', ''reg'', ''aircraft_type'', ''category'',
     ''emergency'']"

definition emptyObject :: JsObject where
  "emptyObject = map_of
    [(''icao'', JStr ''''), (''callsign'', JStr ''''), (''reg'', JStr ''''), (''squawk'', JStr ''''),
     (''aircraft_type'', JStr ''''), (''category'', JStr ''''), (''ts'', JNum (Some 0)),
     (''ts_pos'', JNum (Some 0)), (''lat'', JNum (Some 0)), (''lon'', JNum (Some 0)),
     (''alt_baro'', JNum (Some 0)), (''alt_geom'', JNum (Some 0)), (''on_ground'', JBool False),
     (''gs'', JNum (Some 0)), (''ias'', JNum (Some 0)), (''tas'', JNum (Some 0)),
     (''mach'', JNum (Some 0)), (''track'', JNum (Some 0)), (''true_heading'', JNum (Some 0)),
     (''mag_heading'', JNum (Some 0)), (''baro_rate'', JNum (Some 0)), (''geom_rate'', JNum (Some 0)),
     (''roll'', JNum (Some 0)), (''wind_dir'', JNum (Some 0)), (''wind_speed'', JNum (Some 0)),
     (''oat'', JNum (Some 0)), (''tat'', JNum (Some 0)), (''nav_qnh'', JNum (Some 0)),
     (''nav_alt_mcp'', JNum (Some 0)), (''nav_alt_fms'', JNum (Some 0)),
     (''nav_heading'', JNum (Some 0)), (''nav_modes'', JStrs []), (''nic'', JNum (Some 0)),
     (''rc'', JNum (Some 0)), (''adsb_version'', JNum (Some 0)), (''position_source'', JNum (Some 0)),
     (''num_receivers'', JNum (Some 0)), (''emergency'', JStr ''none''), (''data_sources'', JStrs []),
     (''seq'', JNum (Some 0))]"

fun isUsableValue :: "JsValue option \<Rightarrow> bool" where
  "isUsableValue None = False"
| "isUsableValue (Some JNull) = False"
| "isUsableValue (Some (JNum x)) = (case x of None \<Rightarrow> False | Some r \<Rightarrow> r \<noteq> 0)"
| "isUsableValue (Some (JStr s)) = (s \<noteq> '''')"
| "isUsableValue (Some (JStrs l)) = (l \<noteq> [])"
| "isUsableValue (Some (JBool _)) = True"

definition sourcesOf :: "JsObject \<Rightarrow> string list" where
  "sourcesOf p = (case p ''data_sources'' of Some (JStrs l) \<Rightarrow> l | _ \<Rightarrow> [])"

text \<open>\<open>partials.find(p => p.data_sources?.includes(src))\<close>, as the number of the record found.\<close>

definition findSource :: "string \<Rightarrow> JsObject list \<Rightarrow> nat option" where
  "findSource src ps = List.find (\<lambda>i. src \<in> set (sourcesOf (ps ! i))) [0..<length ps]"

definition orderByPriority :: "nat \<Rightarrow> nat option \<Rightarrow> nat option \<Rightarrow> nat list" where
  "orderByPriority n adsbfi opensky =
     (case adsbfi of Some i \<Rightarrow> [i] | None \<Rightarrow> []) @ (case opensky of Some i \<Rightarrow> [i] | None \<Rightarrow> [])
     @ filter (\<lambda>i. Some i \<noteq> adsbfi \<and> Some i \<noteq> opensky) [0..<n]"

definition skippedKey :: "string \<Rightarrow> bool" where
  "skippedKey key \<longleftrightarrow> key = ''data_sources'' \<or> key = ''ts'' \<or> key = ''seq''"

definition mergePartial :: "JsObject option \<Rightarrow> bool \<Rightarrow> JsObject \<Rightarrow> JsObject \<Rightarrow> JsObject" where
  "mergePartial adsbfi isAdsbfi partial merged = (\<lambda>key.
     if partial key = None then merged key
     else if skippedKey key then merged key
     else if \<not> isUsableValue (partial key) then merged key
     else if isUsableValue (merged key) \<and> key \<in> set ADSBFI_PREFERRED_FIELDS \<and> \<not> isAdsbfi
             \<and> (case adsbfi of None \<Rightarrow> False | Some a \<Rightarrow> isUsableValue (a key))
     then merged key
     else partial key)"

definition addNew :: "string \<Rightarrow> string list \<Rightarrow> string list" where
  "addNew s l = (if s \<in> set l then l else l @ [s])"

definition mergeOne :: "millis \<Rightarrow> string \<Rightarrow> JsObject list \<Rightarrow> nat \<Rightarrow> JsObject" where
  "mergeOne now icao ps next =
     (let adsbfi = findSource ''adsbfi'' ps; opensky = findSource ''opensky'' ps;
          ordered = orderByPriority (length ps) adsbfi opensky;
          start = emptyObject(''icao'' \<mapsto> JStr icao, ''ts'' \<mapsto> JNum (Some (of_int now)));
          merged = fold (\<lambda>i. mergePartial (map_option ((!) ps) adsbfi) (Some i = adsbfi) (ps ! i)) ordered start;
          allSources = fold (\<lambda>i acc. fold addNew (sourcesOf (ps ! i)) acc) ordered []
      in merged(''data_sources'' \<mapsto> JStrs allSources, ''seq'' \<mapsto> JNum (Some (of_nat next))))"

subsection \<open>Merging a poll\<close>

text \<open>\<open>if (!rec.icao) continue\<close> and the insertion-ordered \<open>Map\<close> of groups.\<close>

definition groupOne :: "JsObject \<Rightarrow> (string \<times> JsObject list) list \<Rightarrow> (string \<times> JsObject list) list" where
  "groupOne r grouped =
     (if strProp r ''icao'' = '''' then grouped
      else let key = js_upper (strProp r ''icao'') in
           AList.update key (case map_of grouped key of Some l \<Rightarrow> l @ [r] | None \<Rightarrow> [r]) grouped)"

definition groupRecords :: "JsObject list list \<Rightarrow> (string \<times> JsObject list) list" where
  "groupRecords sources = fold groupOne (concat sources) []"

type_synonym SeqCounters = "string \<rightharpoonup> nat"

fun mergeGroups ::
  "millis \<Rightarrow> (string \<times> JsObject list) list \<Rightarrow> SeqCounters \<Rightarrow> JsObject list \<times> SeqCounters" where
  "mergeGroups now [] seqs = ([], seqs)"
| "mergeGroups now ((icao, ps) # gs) seqs =
     (let next = (case seqs icao of Some n \<Rightarrow> n | None \<Rightarrow> 0) + 1;
          (rest, seqs') = mergeGroups now gs (seqs(icao \<mapsto> next))
      in (mergeOne now icao ps next # rest, seqs'))"

definition mergeRecords :: "millis \<Rightarrow> JsObject list list \<Rightarrow> SeqCounters \<Rightarrow> JsObject list \<times> SeqCounters" where
  "mergeRecords now sources seqs = mergeGroups now (groupRecords sources) seqs"

subsection \<open>The value of a property\<close>

text \<open>The reference: adsb.fi's value where it is preferred and usable, otherwise the last usable
  value in priority order, otherwise the default.\<close>

definition usableLast :: "string \<Rightarrow> JsObject list \<Rightarrow> JsValue option \<Rightarrow> JsValue option" where
  "usableLast key ps d =
     (case filter (\<lambda>p. isUsableValue (p key)) (rev ps) of p # _ \<Rightarrow> p key | [] \<Rightarrow> d)"

definition mergedField :: "string \<Rightarrow> JsObject list \<Rightarrow> JsValue option \<Rightarrow> JsValue option" where
  "mergedField key ps d =
     (let adsbfi = findSource ''adsbfi'' ps; opensky = findSource ''opensky'' ps in
      case adsbfi of
        Some a \<Rightarrow> if key \<in> set ADSBFI_PREFERRED_FIELDS \<and> isUsableValue ((ps ! a) key) then (ps ! a) key
                  else usableLast key (map ((!) ps) (orderByPriority (length ps) adsbfi opensky)) d
      | None \<Rightarrow> usableLast key (map ((!) ps) (orderByPriority (length ps) adsbfi opensky)) d)"

lemma usableLast_snoc:
  "usableLast key (ps @ [p]) d = (if isUsableValue (p key) then p key else usableLast key ps d)"
  by (simp add: usableLast_def)

lemma usableLast_Nil [simp]: "usableLast key [] d = d"
  by (simp add: usableLast_def)

text \<open>Without a usable preferred value of adsb.fi the pass is an overwrite.\<close>

lemma merge_overwrites:
  assumes "\<not> skippedKey key"
    and "\<not> (key \<in> set ADSBFI_PREFERRED_FIELDS \<and> (\<exists>a. adsbfi = Some a \<and> isUsableValue (a key)))"
  shows "fold (\<lambda>i. mergePartial adsbfi (f i) (ps ! i)) js m key = usableLast key (map ((!) ps) js) (m key)"
proof (induction js rule: rev_induct)
  case (snoc i js)
  with assms show ?case
    by (auto simp: usableLast_snoc mergePartial_def split: option.splits)
qed simp

text \<open>With one, it keeps it.\<close>

lemma merge_keeps_preferred:
  assumes "isUsableValue (a key)" "key \<in> set ADSBFI_PREFERRED_FIELDS" "m key = a key"
    and "\<And>i. i \<in> set js \<Longrightarrow> f i \<Longrightarrow> ps ! i = a"
  shows "fold (\<lambda>i. mergePartial (Some a) (f i) (ps ! i)) js m key = a key"
  using assms(3,4)
proof (induction js arbitrary: m)
  case (Cons i js)
  have "mergePartial (Some a) (f i) (ps ! i) m key = a key"
    using assms(1,2) Cons.prems by (auto simp: mergePartial_def)
  with Cons show ?case by simp
qed simp

lemma merge_skips: "skippedKey key \<Longrightarrow> fold (\<lambda>i. mergePartial adsbfi (f i) (ps ! i)) js m key = m key"
  by (induction js arbitrary: m) (simp_all add: mergePartial_def)

lemma preferred_not_skipped: "key \<in> set ADSBFI_PREFERRED_FIELDS \<Longrightarrow> \<not> skippedKey key"
  by (auto simp: ADSBFI_PREFERRED_FIELDS_def skippedKey_def)

lemma mergeOne_field:
  assumes "\<not> skippedKey key"
  shows "mergeOne now icao ps next key =
    mergedField key ps ((emptyObject(''icao'' \<mapsto> JStr icao)) key)"
proof -
  let ?start = "emptyObject(''icao'' \<mapsto> JStr icao, ''ts'' \<mapsto> JNum (Some (of_int now)))"
  let ?ad = "findSource ''adsbfi'' ps" and ?os = "findSource ''opensky'' ps"
  let ?ord = "orderByPriority (length ps) ?ad ?os"
  let ?run = "fold (\<lambda>i. mergePartial (map_option ((!) ps) ?ad) (Some i = ?ad) (ps ! i)) ?ord ?start"
  have key: "mergeOne now icao ps next key = ?run key" "?start key = (emptyObject(''icao'' \<mapsto> JStr icao)) key"
    using assms by (auto simp: mergeOne_def Let_def skippedKey_def)
  show ?thesis
  proof (cases "\<exists>a. ?ad = Some a \<and> key \<in> set ADSBFI_PREFERRED_FIELDS \<and> isUsableValue ((ps ! a) key)")
    case True
    then obtain a where a: "?ad = Some a" "key \<in> set ADSBFI_PREFERRED_FIELDS" "isUsableValue ((ps ! a) key)"
      by blast
    obtain rest where ord: "?ord = a # rest" by (simp add: orderByPriority_def a)
    let ?m = "mergePartial (Some (ps ! a)) True (ps ! a) ?start"
    have first: "?m key = (ps ! a) key"
      using a assms by (cases "(ps ! a) key") (auto simp: mergePartial_def)
    have "?run key = (ps ! a) key"
      using merge_keeps_preferred [where a = "ps ! a" and key = key and f = "\<lambda>i. Some i = ?ad" and ps = ps
          and js = rest and m = ?m] a first
      by (simp add: ord [unfolded a(1)] a(1))
    then show ?thesis by (simp add: key mergedField_def a)
  next
    case False
    then have "?run key = usableLast key (map ((!) ps) ?ord) (?start key)"
      using assms by (intro merge_overwrites) auto
    moreover have "mergedField key ps (?start key) = usableLast key (map ((!) ps) ?ord) (?start key)"
      using False by (cases ?ad) (auto simp: mergedField_def)
    ultimately show ?thesis unfolding key by (simp only: key(2))
  qed
qed


subsection \<open>The groups\<close>

definition keyOf :: "JsObject \<Rightarrow> string" where
  "keyOf r = js_upper (strProp r ''icao'')"

definition recordsOf :: "string \<Rightarrow> JsObject list list \<Rightarrow> JsObject list" where
  "recordsOf k sources = filter (\<lambda>r. keyOf r = k) (concat sources)"

definition aircraftOf :: "JsObject list list \<Rightarrow> string list" where
  "aircraftOf sources = fold addNew (filter (\<lambda>k. k \<noteq> '''') (map keyOf (concat sources))) []"

lemma addNew_set [simp]: "set (addNew s l) = insert s (set l)"
  by (auto simp: addNew_def)

lemma fold_addNew:
  "set (fold addNew xs l) = set xs \<union> set l" "distinct l \<Longrightarrow> distinct (fold addNew xs l)"
  by (induction xs arbitrary: l) (auto simp: addNew_def)

lemma aircraftOf_distinct [simp]: "distinct (aircraftOf sources)"
  by (simp add: aircraftOf_def fold_addNew)

lemma update_tabulated:
  "distinct ks \<Longrightarrow> AList.update k v (map (\<lambda>k. (k, f k)) ks) =
     map (\<lambda>k'. (k', (f(k := v)) k')) (addNew k ks)"
  by (induction ks) (auto simp: addNew_def)

lemma map_of_tabulated: "map_of (map (\<lambda>k. (k, f k)) ks) k = (if k \<in> set ks then Some (f k) else None)"
  by (induction ks) auto

lemma keyOf_Nil [simp]: "keyOf r = '''' \<longleftrightarrow> strProp r ''icao'' = ''''"
  by (simp add: keyOf_def)

lemma group_fold:
  "fold groupOne rs [] = map (\<lambda>k. (k, filter (\<lambda>r. keyOf r = k) rs))
     (fold addNew (filter (\<lambda>k. k \<noteq> '''') (map keyOf rs)) [])"
proof (induction rs rule: rev_induct)
  case (snoc r rs)
  let ?ks = "fold addNew (filter (\<lambda>k. k \<noteq> '''') (map keyOf rs)) []"
  have empty: "keyOf r \<noteq> '''' \<Longrightarrow> keyOf r \<notin> set ?ks \<Longrightarrow> filter (\<lambda>q. keyOf q = keyOf r) rs = []"
    by (auto simp: fold_addNew filter_empty_conv image_iff)
  have "groupOne r (fold groupOne rs []) =
    (if strProp r ''icao'' = '''' then fold groupOne rs []
     else AList.update (keyOf r) (filter (\<lambda>q. keyOf q = keyOf r) rs @ [r]) (fold groupOne rs []))"
    using empty by (auto simp: groupOne_def Let_def snoc.IH map_of_tabulated keyOf_def [symmetric])
  moreover have "AList.update (keyOf r) (filter (\<lambda>q. keyOf q = keyOf r) rs @ [r]) (fold groupOne rs [])
     = map (\<lambda>k. (k, filter (\<lambda>q. keyOf q = k) (rs @ [r]))) (addNew (keyOf r) ?ks)"
    unfolding snoc.IH by (subst update_tabulated) (auto simp: fold_addNew)
  moreover have "map (\<lambda>k. (k, filter (\<lambda>q. keyOf q = k) (rs @ [r]))) ?ks = fold groupOne rs []"
    if "strProp r ''icao'' = ''''"
    using that by (auto simp: snoc.IH fold_addNew)
  ultimately show ?case by auto
qed simp

lemma groupRecords_spec:
  "groupRecords sources = map (\<lambda>k. (k, recordsOf k sources)) (aircraftOf sources)"
  by (simp add: groupRecords_def group_fold recordsOf_def aircraftOf_def)

lemma mergeGroups_spec:
  assumes "distinct (map fst gs)"
  shows "mergeGroups now gs seqs =
    (map (\<lambda>(k, ps). mergeOne now k ps (Suc (case seqs k of Some n \<Rightarrow> n | None \<Rightarrow> 0))) gs,
     \<lambda>k. if k \<in> fst ` set gs then Some (Suc (case seqs k of Some n \<Rightarrow> n | None \<Rightarrow> 0)) else seqs k)"
  using assms
  by (induction gs arbitrary: seqs) (auto simp: Let_def fun_eq_iff image_iff split: prod.splits)

lemma mergeRecords_spec:
  "mergeRecords now sources seqs =
    (map (\<lambda>k. mergeOne now k (recordsOf k sources) (Suc (case seqs k of Some n \<Rightarrow> n | None \<Rightarrow> 0)))
       (aircraftOf sources),
     \<lambda>k. if k \<in> set (aircraftOf sources) then Some (Suc (case seqs k of Some n \<Rightarrow> n | None \<Rightarrow> 0)) else seqs k)"
  unfolding mergeRecords_def groupRecords_spec
  by (subst mergeGroups_spec) (auto simp: comp_def image_iff)


subsection \<open>Types\<close>

lemma usableLast_cases:
  "usableLast key ps d = d \<or> (\<exists>p \<in> set ps. usableLast key ps d = p key \<and> isUsableValue (p key))"
  by (induction ps rule: rev_induct) (auto simp: usableLast_snoc)

lemma orderByPriority_bound:
  assumes "i \<in> set (orderByPriority (length ps) (findSource a ps) (findSource b ps))"
  shows "i < length ps"
  using assms
  by (auto simp: orderByPriority_def findSource_def find_Some_iff find_Some_iff2 split: option.splits)

lemma mergedField_cases:
  "mergedField key ps d = d \<or> (\<exists>p \<in> set ps. mergedField key ps d = p key \<and> isUsableValue (p key))"
proof -
  let ?ad = "findSource ''adsbfi'' ps" and ?os = "findSource ''opensky'' ps"
  let ?ord = "orderByPriority (length ps) ?ad ?os"
  have "set (map ((!) ps) ?ord) \<subseteq> set ps"
    using orderByPriority_bound by fastforce
  then have last: "usableLast key (map ((!) ps) ?ord) d = d
      \<or> (\<exists>p \<in> set ps. usableLast key (map ((!) ps) ?ord) d = p key \<and> isUsableValue (p key))"
    using usableLast_cases [of key "map ((!) ps) ?ord" d] by blast
  show ?thesis
  proof (cases ?ad)
    case (Some a)
    then have "ps ! a \<in> set ps" by (auto simp: findSource_def find_Some_iff)
    then show ?thesis using Some last by (auto simp: mergedField_def Let_def)
  next
    case None
    then show ?thesis using last by (simp add: mergedField_def Let_def)
  qed
qed

lemma skipped_value:
  "mergeOne now icao ps next ''ts'' = Some (JNum (Some (of_int now)))"
  "mergeOne now icao ps next ''seq'' = Some (JNum (Some (of_nat next)))"
  "\<exists>l. mergeOne now icao ps next ''data_sources'' = Some (JStrs l)"
  by (simp_all add: mergeOne_def Let_def merge_skips skippedKey_def)

lemma emptyObject_complete:
  "list_all (\<lambda>ft. emptyObject (fst ft) \<noteq> None) telemetryProps" "partialTyped emptyObject"
proof -
  show "list_all (\<lambda>ft. emptyObject (fst ft) \<noteq> None) telemetryProps" by code_simp
  show "partialTyped emptyObject"
    unfolding emptyObject_def by (rule partialTyped_map_of) simp
qed

lemma partialTyped_upd: "partialTyped ob \<Longrightarrow> valueTyped f v \<Longrightarrow> partialTyped (ob(f \<mapsto> v))"
  by (auto simp: partialTyped_def)

lemma mergeOne_typed:
  assumes "\<And>p. p \<in> set ps \<Longrightarrow> partialTyped p"
  shows "telemetryTyped (mergeOne now icao ps next)"
proof -
  let ?m = "mergeOne now icao ps next" and ?e = "emptyObject(''icao'' \<mapsto> JStr icao)"
  have e: "partialTyped ?e"
    by (rule partialTyped_upd [OF emptyObject_complete(2)]) simp
  have typed: "valueTyped f v" if "?m f = Some v" for f v
  proof (cases "skippedKey f")
    case True
    then consider "f = ''data_sources''" | "f = ''ts''" | "f = ''seq''" by (auto simp: skippedKey_def)
    then show ?thesis
      using that skipped_value [of now icao ps "next"] by cases auto
  next
    case False
    then show ?thesis
      using that mergedField_cases [of f ps "?e f"] assms e
      by (auto simp: mergeOne_field partialTyped_def)
  qed
  have present: "?m f \<noteq> None" if "emptyObject f \<noteq> None" for f
  proof (cases "skippedKey f")
    case True
    then show ?thesis
      using skipped_value [of now icao ps "next"] by (auto simp: skippedKey_def)
  next
    case False
    have "?e f \<noteq> None" using that by simp
    moreover have "isUsableValue None = False" by simp
    ultimately show ?thesis
      using mergedField_cases [of f ps "?e f"] False
      by (metis mergeOne_field)
  qed
  show ?thesis
    using emptyObject_complete(1) typed present
    by (auto simp: telemetryTyped_def partialTyped_def list_all_iff)
qed

text \<open>The address of a merged record is the address of one of its parts.\<close>

lemma mergeOne_icao:
  assumes "\<And>p. p \<in> set ps \<Longrightarrow> p ''icao'' = Some (JStr icao)"
  shows "mergeOne now icao ps next ''icao'' = Some (JStr icao)"
  using mergedField_cases [of "''icao''" ps "(emptyObject(''icao'' \<mapsto> JStr icao)) ''icao''"] assms
  by (auto simp: mergeOne_field skippedKey_def)


subsection \<open>A poll\<close>

text \<open>The reference record of an aircraft: every property by its own rule.\<close>

definition referenceRecord :: "millis \<Rightarrow> string \<Rightarrow> JsObject list \<Rightarrow> nat \<Rightarrow> JsObject" where
  "referenceRecord now icao ps next = (\<lambda>key.
     if key = ''ts'' then Some (JNum (Some (of_int now)))
     else if key = ''seq'' then Some (JNum (Some (of_nat next)))
     else if key = ''data_sources'' then
       Some (JStrs (fold addNew (concat (map (\<lambda>i. sourcesOf (ps ! i))
         (orderByPriority (length ps) (findSource ''adsbfi'' ps) (findSource ''opensky'' ps)))) []))
     else mergedField key ps ((emptyObject(''icao'' \<mapsto> JStr icao)) key))"

definition nextSeq :: "SeqCounters \<Rightarrow> string \<Rightarrow> nat" where
  "nextSeq seqs k = Suc (case seqs k of Some n \<Rightarrow> n | None \<Rightarrow> 0)"

lemma fold_fold_concat: "fold (\<lambda>i acc. fold g (f i) acc) js a = fold g (concat (map f js)) a"
  by (induction js arbitrary: a) simp_all

lemma mergeOne_reference: "mergeOne now icao ps next = referenceRecord now icao ps next"
proof
  fix key
  show "mergeOne now icao ps next key = referenceRecord now icao ps next key"
  proof (cases "skippedKey key")
    case True
    then consider "key = ''data_sources''" | "key = ''ts''" | "key = ''seq''"
      by (auto simp: skippedKey_def)
    then show ?thesis
    proof cases
      case 1
      then show ?thesis
        by (simp add: mergeOne_def Let_def referenceRecord_def fold_fold_concat)
    qed (simp_all add: skipped_value referenceRecord_def)
  next
    case False
    then show ?thesis by (auto simp: mergeOne_field referenceRecord_def skippedKey_def)
  qed
qed

text \<open>The sources of \<open>pollCycle\<close>: adsb.fi always, OpenSky and the receiver when configured.\<close>

definition pollSources ::
  "(string list \<Rightarrow> AdsbFiAircraft answer) \<Rightarrow> (string list \<Rightarrow> OpenSkyState option answer) option
   \<Rightarrow> ReadsbAircraft answer option \<Rightarrow> string list \<Rightarrow> JsObject list list" where
  "pollSources adsbfi opensky rtlsdr tracked =
     [fetchAdsbFi adsbfi tracked]
     @ (case opensky of Some net \<Rightarrow> [fetchOpenSky net tracked] | None \<Rightarrow> [])
     @ (case rtlsdr of Some a \<Rightarrow> [fetchRtlSdr a] | None \<Rightarrow> [])"

lemma pollSources_deliver:
  "p \<in> set (concat (pollSources adsbfi opensky rtlsdr tracked)) \<Longrightarrow> \<exists>src. feedRecord src p"
  using fetches_deliver by (fastforce simp: pollSources_def split: option.splits)

lemma feedRecord_key: "feedRecord src p \<Longrightarrow> p ''icao'' = Some (JStr (keyOf p))"
proof -
  assume p: "feedRecord src p"
  then obtain v where v: "p ''icao'' = Some v"
    by (cases "p ''icao''") (auto simp: feedRecord_def strProp_def)
  then have "valueTyped ''icao'' v" using p by (simp add: feedRecord_def partialTyped_def del: valueTyped_simp)
  then show ?thesis
    using p v by (cases v) (auto simp: feedRecord_def keyOf_def strProp_def)
qed

text \<open>
  C20: the merged record of an aircraft is determined property by property. A poll yields one
  record per distinct non-empty address, in the order in which the addresses first appear; its
  sequence number is one more than the aircraft's last; and every other property has the value the
  reference gives it: adsb.fi's for the preferred ones it reports, the last usable value in
  priority order for the rest, and the default when no feed has one.
\<close>

theorem merge_field_rule:
  "mergeRecords now sources seqs =
    (map (\<lambda>k. referenceRecord now k (recordsOf k sources) (nextSeq seqs k)) (aircraftOf sources),
     \<lambda>k. if k \<in> set (aircraftOf sources) then Some (nextSeq seqs k) else seqs k)"
  unfolding nextSeq_def mergeRecords_spec mergeOne_reference ..

lemma mergeOne_delivers:
  assumes "r = mergeOne now k (recordsOf k (pollSources adsbfi opensky rtlsdr tracked)) n"
  shows "r ''icao'' = Some (JStr k) \<and> telemetryTyped r"
proof -
  let ?src = "pollSources adsbfi opensky rtlsdr tracked"
  have "p ''icao'' = Some (JStr k) \<and> partialTyped p" if "p \<in> set (recordsOf k ?src)" for p
  proof -
    have k: "p \<in> set (concat ?src)" "keyOf p = k" using that by (simp_all add: recordsOf_def)
    obtain s where s: "feedRecord s p" using pollSources_deliver [OF k(1)] by blast
    show ?thesis using feedRecord_key [OF s] s k(2) by (simp add: feedRecord_def)
  qed
  then show ?thesis using assms by (simp add: mergeOne_icao mergeOne_typed)
qed

lemma aircraftOf_upper: "k \<in> set (aircraftOf src) \<Longrightarrow> k \<noteq> '''' \<and> js_upper k = k"
  by (auto simp: aircraftOf_def fold_addNew keyOf_def)

text \<open>
  What the merger delivers is a telemetry record. Whatever the three feeds answer
  (exceptions, bad statuses, empty and partial entries included), every merged record has every
  required property of the interface, each property it has is of the declared type, no two
  records are of the same aircraft, and the address of each is upper case and not empty.
\<close>

lemma merged_records_typed:
  "\<exists>ks. distinct ks \<and> list_all2 (\<lambda>k r. k \<noteq> '''' \<and> js_upper k = k
       \<and> r ''icao'' = Some (JStr k) \<and> telemetryTyped r)
     ks (fst (mergeRecords now (pollSources adsbfi opensky rtlsdr tracked) seqs))"
  by (intro exI [of _ "aircraftOf (pollSources adsbfi opensky rtlsdr tracked)"])
    (auto simp: mergeRecords_spec list_all2_map2 mergeOne_delivers dest: aircraftOf_upper
      intro!: list.rel_refl_strong)

end
