(* ===== verification/Poll_Cycle.thy ===== *)
theory Poll_Cycle
  imports Feed_Merge
begin

text \<open>
  One poll of the ingestion service: merging, the identity write-back, duplicate suppression
  (\<open>services/ingestion/src/dedup-filter.ts\<close>) and publication (\<open>publisher.ts\<close>), in the order of
  \<open>pollCycle\<close> in \<open>services/ingestion/src/index.ts\<close>.

  The state holds the sequence counters, the identity fingerprints, the filter, and what the
  outside has been given: the identity rows written and the records published with the time they
  were recorded. A cycle reads the clock once per pass over the batch. The feeds' answers and the
  outcomes of the database and Redis calls are the cycle's input.
\<close>

subsection \<open>Merged objects as telemetry records\<close>

definition numProp :: "JsObject \<Rightarrow> string \<Rightarrow> jsnum" where
  "numProp ob f = (case ob f of Some (JNum x) \<Rightarrow> x | _ \<Rightarrow> None)"

definition strsProp :: "JsObject \<Rightarrow> string \<Rightarrow> string list" where
  "strsProp ob f = (case ob f of Some (JStrs l) \<Rightarrow> l | _ \<Rightarrow> [])"

definition optStr :: "JsObject \<Rightarrow> string \<Rightarrow> string option" where
  "optStr ob f = (case ob f of Some (JStr s) \<Rightarrow> Some s | _ \<Rightarrow> None)"

definition emergencyProp :: "JsObject \<Rightarrow> EmergencyString option" where
  "emergencyProp ob = map_of
     [(''none'', Em_none), (''general'', Em_general), (''lifeguard'', Em_lifeguard),
      (''minfuel'', Em_minfuel), (''nordo'', Em_nordo), (''unlawful'', Em_unlawful),
      (''downed'', Em_downed)] (strProp ob ''emergency'')"

definition asTelemetry :: "JsObject \<Rightarrow> TelemetryRecord" where
  "asTelemetry ob =
    \<lparr> tr_icao = strProp ob ''icao'', tr_callsign = strProp ob ''callsign'', tr_reg = strProp ob ''reg'',
      tr_squawk = optStr ob ''squawk'', tr_aircraft_type = strProp ob ''aircraft_type'',
      tr_aircraft_desc = optStr ob ''aircraft_desc'', tr_category = strProp ob ''category'',
      tr_ts = map_option floor (numProp ob ''ts''), tr_ts_pos = map_option floor (numProp ob ''ts_pos''),
      tr_lat = numProp ob ''lat'', tr_lon = numProp ob ''lon'', tr_alt_baro = numProp ob ''alt_baro'',
      tr_alt_geom = numProp ob ''alt_geom'', tr_on_ground = (ob ''on_ground'' = Some (JBool True)),
      tr_gs = numProp ob ''gs'', tr_ias = numProp ob ''ias'', tr_tas = numProp ob ''tas'',
      tr_mach = numProp ob ''mach'', tr_track = numProp ob ''track'',
      tr_true_heading = numProp ob ''true_heading'', tr_mag_heading = numProp ob ''mag_heading'',
      tr_baro_rate = numProp ob ''baro_rate'', tr_geom_rate = numProp ob ''geom_rate'',
      tr_roll = numProp ob ''roll'', tr_wind_dir = numProp ob ''wind_dir'',
      tr_wind_speed = numProp ob ''wind_speed'', tr_oat = numProp ob ''oat'', tr_tat = numProp ob ''tat'',
      tr_nav_qnh = numProp ob ''nav_qnh'', tr_nav_alt_mcp = numProp ob ''nav_alt_mcp'',
      tr_nav_alt_fms = numProp ob ''nav_alt_fms'', tr_nav_heading = numProp ob ''nav_heading'',
      tr_nav_modes = strsProp ob ''nav_modes'', tr_nic = numProp ob ''nic'', tr_rc = numProp ob ''rc'',
      tr_adsb_version = numProp ob ''adsb_version'', tr_position_source = numProp ob ''position_source'',
      tr_num_receivers = numProp ob ''num_receivers'', tr_emergency = emergencyProp ob,
      tr_data_sources = strsProp ob ''data_sources'',
      tr_seq = (case numProp ob ''seq'' of Some x \<Rightarrow> nat \<lfloor>x\<rfloor> | None \<Rightarrow> 0),
      tr_flight_id = optStr ob ''flight_id'' \<rparr>"

lemma asTelemetry_icao: "ob ''icao'' = Some (JStr k) \<Longrightarrow> tr_icao (asTelemetry ob) = k"
  by (simp add: asTelemetry_def strProp_def)

subsection \<open>Duplicate suppression\<close>

record DedupThresholds =
  latLonDeg :: real
  dt_altitudeFt :: real
  groundSpeedKts :: real

definition GROUND_THRESHOLDS :: DedupThresholds where
  "GROUND_THRESHOLDS = \<lparr> latLonDeg = 1 / 10000, dt_altitudeFt = 25, groundSpeedKts = 2 \<rparr>"

definition AIRBORNE_THRESHOLDS :: DedupThresholds where
  "AIRBORNE_THRESHOLDS = \<lparr> latLonDeg = 2 / 100000, dt_altitudeFt = 10, groundSpeedKts = 1 \<rparr>"

definition MAX_SILENCE_MS :: millis where "MAX_SILENCE_MS = 60000"

record LastSeen =
  ls_lat :: jsnum
  ls_lon :: jsnum
  ls_alt_baro :: jsnum
  ls_gs :: jsnum
  ls_on_ground :: bool
  ls_publishedAt :: millis

type_synonym DedupFilter = "string \<rightharpoonup> LastSeen"

definition thresholdsFor :: "TelemetryRecord \<Rightarrow> LastSeen \<Rightarrow> DedupThresholds" where
  "thresholdsFor r prev =
     (let airborne = (tr_on_ground r = False \<or> ls_on_ground prev = False)
      in if airborne then AIRBORNE_THRESHOLDS else GROUND_THRESHOLDS)"

text \<open>\<open>Math.abs(x - y) <= limit\<close>: false unless both are finite.\<close>

definition deltaWithin :: "jsnum \<Rightarrow> jsnum \<Rightarrow> real \<Rightarrow> bool" where
  "deltaWithin x y limit =
     (case (x, y) of (Some a, Some b) \<Rightarrow> \<bar>a - b\<bar> \<le> limit | _ \<Rightarrow> False)"

definition shouldPublish :: "millis \<Rightarrow> TelemetryRecord \<Rightarrow> DedupFilter \<Rightarrow> bool" where
  "shouldPublish now r d =
     (case d (js_upper (tr_icao r)) of None \<Rightarrow> True
      | Some prev \<Rightarrow>
          if now - ls_publishedAt prev \<ge> MAX_SILENCE_MS then True
          else if tr_on_ground r \<noteq> ls_on_ground prev then True
          else (let t = thresholdsFor r prev in
                if deltaWithin (tr_lat r) (ls_lat prev) (latLonDeg t)
                   \<and> deltaWithin (tr_lon r) (ls_lon prev) (latLonDeg t)
                   \<and> deltaWithin (tr_alt_baro r) (ls_alt_baro prev) (dt_altitudeFt t)
                   \<and> deltaWithin (tr_gs r) (ls_gs prev) (groundSpeedKts t)
                then False else True))"

definition recordPublished :: "millis \<Rightarrow> TelemetryRecord \<Rightarrow> DedupFilter \<Rightarrow> DedupFilter" where
  "recordPublished now r d = d(js_upper (tr_icao r) \<mapsto>
     \<lparr> ls_lat = tr_lat r, ls_lon = tr_lon r, ls_alt_baro = tr_alt_baro r, ls_gs = tr_gs r,
       ls_on_ground = tr_on_ground r, ls_publishedAt = now \<rparr>)"

subsection \<open>The cycle\<close>

record PollInput =
  adsbfi :: "string list \<Rightarrow> AdsbFiAircraft answer"
  opensky :: "(string list \<Rightarrow> OpenSkyState option answer) option"
  rtlsdr :: "ReadsbAircraft answer option"
  tMerge :: millis
  tCheck :: millis
  tRecord :: millis
  publishOk :: bool
  identityOk :: "string \<Rightarrow> bool"

record PollState =
  seqCounters :: SeqCounters
  lastIdentityFingerprint :: "string \<rightharpoonup> string"
  identityRows :: "string \<rightharpoonup> (string \<times> string \<times> string)"
  dedup :: DedupFilter
  published :: "(millis \<times> TelemetryRecord) list"

definition newPoll :: PollState where
  "newPoll = \<lparr> seqCounters = Map.empty, lastIdentityFingerprint = Map.empty,
     identityRows = Map.empty, dedup = Map.empty, published = [] \<rparr>"

text \<open>The identity write-back: the fingerprint is remembered before the write is tried.\<close>

definition persistIdentity :: "(string \<Rightarrow> bool) \<Rightarrow> TelemetryRecord \<Rightarrow> PollState \<Rightarrow> PollState" where
  "persistIdentity ok r st =
     (let icao = js_upper (tr_icao r); callsign = js_trim (tr_callsign r);
          reg = js_trim (tr_reg r); aircraftType = js_trim (tr_aircraft_type r);
          fingerprint = callsign @ ''|'' @ reg @ ''|'' @ aircraftType
      in if icao = '''' then st
         else if callsign = '''' \<and> reg = '''' \<and> aircraftType = '''' then st
         else if lastIdentityFingerprint st icao = Some fingerprint then st
         else (let st' = st\<lparr>lastIdentityFingerprint := (lastIdentityFingerprint st)(icao \<mapsto> fingerprint)\<rparr> in
               if ok icao then st'\<lparr>identityRows := (identityRows st')(icao \<mapsto> (callsign, reg, aircraftType))\<rparr>
               else st'))"

definition publishAll :: "bool \<Rightarrow> millis \<Rightarrow> TelemetryRecord list \<Rightarrow> PollState \<Rightarrow> PollState" where
  "publishAll ok now toPublish st =
     (if toPublish = [] then st
      else if \<not> ok then st
      else st\<lparr>dedup := fold (recordPublished now) toPublish (dedup st),
              published := published st @ map (Pair now) toPublish\<rparr>)"

definition mergedOf :: "string list \<Rightarrow> PollInput \<Rightarrow> PollState \<Rightarrow> TelemetryRecord list" where
  "mergedOf tracked inp st =
     map asTelemetry (fst (mergeRecords (tMerge inp)
       (pollSources (adsbfi inp) (opensky inp) (rtlsdr inp) tracked) (seqCounters st)))"

definition pollCycle :: "string list \<Rightarrow> PollInput \<Rightarrow> PollState \<Rightarrow> PollState" where
  "pollCycle tracked inp st =
     (let sources = pollSources (adsbfi inp) (opensky inp) (rtlsdr inp) tracked;
          merged = mergedOf tracked inp st;
          st1 = st\<lparr>seqCounters := snd (mergeRecords (tMerge inp) sources (seqCounters st))\<rparr>;
          st2 = fold (persistIdentity (identityOk inp)) merged st1;
          toPublish = filter (\<lambda>r. shouldPublish (tCheck inp) r (dedup st2)) merged
      in publishAll (publishOk inp) (tRecord inp) toPublish st2)"

subsection \<open>The filter replays what was published\<close>

definition pubKey :: "millis \<times> TelemetryRecord \<Rightarrow> string" where
  "pubKey e = js_upper (tr_icao (snd e))"

definition seenOf :: "millis \<times> TelemetryRecord \<Rightarrow> LastSeen" where
  "seenOf e = \<lparr> ls_lat = tr_lat (snd e), ls_lon = tr_lon (snd e), ls_alt_baro = tr_alt_baro (snd e),
     ls_gs = tr_gs (snd e), ls_on_ground = tr_on_ground (snd e), ls_publishedAt = fst e \<rparr>"

definition notePublished :: "millis \<times> TelemetryRecord \<Rightarrow> DedupFilter \<Rightarrow> DedupFilter" where
  "notePublished e = recordPublished (fst e) (snd e)"

interpretation publishedTable: keyed_component notePublished pubKey "\<lambda>d. d" "\<lambda>e _. Some (seenOf e)"
  by unfold_locales (simp add: notePublished_def recordPublished_def pubKey_def seenOf_def)

text \<open>The last published record of an aircraft, with its time.\<close>

definition lastPublished :: "string \<Rightarrow> PollState \<Rightarrow> (millis \<times> TelemetryRecord) option" where
  "lastPublished k st = List.find (\<lambda>e. pubKey e = k) (rev (published st))"

definition replayed :: "PollState \<Rightarrow> bool" where
  "replayed st \<longleftrightarrow> dedup st = fold notePublished (published st) Map.empty"

lemma fold_const_find:
  "fold (\<lambda>e _. Some (f e)) (filter P es) (None :: 'b option) = map_option f (List.find P (rev es))"
  by (induction es rule: rev_induct) auto

lemma replayed_lookup: "replayed st \<Longrightarrow> dedup st k = map_option seenOf (lastPublished k st)"
  using publishedTable.run_project [of "published st" Map.empty k]
  by (simp add: replayed_def lastPublished_def fold_const_find)

lemma persist_frame:
  "dedup (fold (persistIdentity ok) rs st) = dedup st"
  "published (fold (persistIdentity ok) rs st) = published st"
  by (induction rs arbitrary: st) (simp_all add: persistIdentity_def Let_def)

lemma publishAll_log:
  "published (publishAll ok now rs st) = published st @ (if ok then map (Pair now) rs else [])"
  by (simp add: publishAll_def)

lemma publishAll_replayed: "replayed st \<Longrightarrow> replayed (publishAll ok now rs st)"
  by (auto simp: publishAll_def replayed_def fold_map comp_def notePublished_def)

definition toPublishOf :: "string list \<Rightarrow> PollInput \<Rightarrow> PollState \<Rightarrow> TelemetryRecord list" where
  "toPublishOf tracked inp st = filter (\<lambda>r. shouldPublish (tCheck inp) r (dedup st)) (mergedOf tracked inp st)"

lemma pollCycle_published:
  "published (pollCycle tracked inp st) =
     published st @ (if publishOk inp then map (Pair (tRecord inp)) (toPublishOf tracked inp st) else [])"
  by (simp add: pollCycle_def Let_def publishAll_log persist_frame toPublishOf_def)

lemma pollCycle_replayed: "replayed st \<Longrightarrow> replayed (pollCycle tracked inp st)"
  by (auto simp: pollCycle_def Let_def persist_frame replayed_def intro!: publishAll_replayed [unfolded replayed_def])

lemma replayed_run: "replayed (fold (pollCycle tracked) inps newPoll)"
proof (induction inps rule: rev_induct)
  case Nil
  then show ?case by (simp add: replayed_def newPoll_def)
qed (simp add: pollCycle_replayed)

lemma merged_keys_distinct: "distinct (map (\<lambda>r. js_upper (tr_icao r)) (mergedOf tracked inp st))"
proof -
  let ?src = "pollSources (adsbfi inp) (opensky inp) (rtlsdr inp) tracked"
  have "map (\<lambda>r. js_upper (tr_icao r)) (mergedOf tracked inp st) = aircraftOf ?src"
    by (auto simp: mergedOf_def mergeRecords_spec comp_def asTelemetry_icao
        mergeOne_delivers aircraftOf_upper intro!: map_idI)
  then show ?thesis by simp
qed

text \<open>What a subscriber that saw \<open>q\<close> at \<open>t\<close> may assume of the observation \<open>r\<close> at time \<open>now\<close>.\<close>

definition stillTracks :: "millis \<Rightarrow> TelemetryRecord \<Rightarrow> millis \<times> TelemetryRecord \<Rightarrow> bool" where
  "stillTracks now r e \<longleftrightarrow>
     (let q = snd e; t = (if tr_on_ground r then GROUND_THRESHOLDS else AIRBORNE_THRESHOLDS) in
      now - fst e < MAX_SILENCE_MS \<and> tr_on_ground q = tr_on_ground r
      \<and> deltaWithin (tr_lat r) (tr_lat q) (latLonDeg t) \<and> deltaWithin (tr_lon r) (tr_lon q) (latLonDeg t)
      \<and> deltaWithin (tr_alt_baro r) (tr_alt_baro q) (dt_altitudeFt t)
      \<and> deltaWithin (tr_gs r) (tr_gs q) (groundSpeedKts t))"

lemma suppressed_tracks:
  assumes "\<not> shouldPublish now r d" "d (js_upper (tr_icao r)) = map_option seenOf e"
  shows "\<exists>p. e = Some p \<and> stillTracks now r p"
  using assms
  by (cases e) (auto simp: shouldPublish_def stillTracks_def thresholdsFor_def seenOf_def Let_def
      split: if_splits)

lemma find_new:
  assumes "distinct (map key rs)" "r \<in> set rs"
  shows "List.find (\<lambda>e. key (snd e) = key r) (rev (es @ map (Pair t) rs)) = Some (t, r)"
  using assms
proof (induction rs rule: rev_induct)
  case (snoc x rs)
  then show ?case by (cases "r = x") (auto simp: image_iff)
qed simp

lemma find_old:
  assumes "\<And>r. r \<in> set rs \<Longrightarrow> key r \<noteq> k"
  shows "List.find (\<lambda>e. key (snd e) = k) (rev (es @ map (Pair t) rs)) = List.find (\<lambda>e. key (snd e) = k) (rev es)"
  using assms by (induction rs rule: rev_induct) auto

text \<open>
  C21: suppressing duplicates never lets the published picture drift. After every cycle of any run
  whose publication succeeds, for each merged observation the last record published for that
  aircraft is either this observation or one less than MAX_SILENCE_MS old, with the same
  weight-on-wheels flag and with position, altitude and speed within the thresholds of its regime:
  differences are measured against what was published, so they do not add up over suppressed
  records.
\<close>

theorem published_view_tracks:
  assumes "st = fold (pollCycle tracked) inps newPoll" and "publishOk inp"
    and "r \<in> set (mergedOf tracked inp st)"
  shows "\<exists>e. lastPublished (js_upper (tr_icao r)) (pollCycle tracked inp st) = Some e
           \<and> (snd e = r \<or> stillTracks (tCheck inp) r e)"
proof -
  let ?key = "\<lambda>r. js_upper (tr_icao r)" and ?new = "toPublishOf tracked inp st"
  have dist: "distinct (map ?key ?new)"
    using merged_keys_distinct [of tracked inp st] by (simp add: toPublishOf_def distinct_map_filter)
  have last: "lastPublished k (pollCycle tracked inp st) =
      List.find (\<lambda>e. ?key (snd e) = k) (rev (published st @ map (Pair (tRecord inp)) ?new))" for k
    using assms(2) by (simp add: lastPublished_def pollCycle_published pubKey_def)
  show ?thesis
  proof (cases "shouldPublish (tCheck inp) r (dedup st)")
    case True
    then have "r \<in> set ?new" using assms(3) by (simp add: toPublishOf_def)
    then show ?thesis unfolding last using find_new [of ?key, OF dist] by fastforce
  next
    case False
    have "?key q \<noteq> ?key r" if "q \<in> set ?new" for q
    proof
      assume "?key q = ?key r"
      moreover have "q \<in> set (mergedOf tracked inp st)" using that by (simp add: toPublishOf_def)
      ultimately have "q = r"
        using merged_keys_distinct [of tracked inp st] assms(3) by (auto simp: distinct_map inj_on_def)
      with that False show False by (simp add: toPublishOf_def)
    qed
    then have "List.find (\<lambda>e. ?key (snd e) = ?key r) (rev (published st @ map (Pair (tRecord inp)) ?new))
        = List.find (\<lambda>e. ?key (snd e) = ?key r) (rev (published st))"
      by (rule find_old)
    then have "lastPublished (?key r) (pollCycle tracked inp st) = lastPublished (?key r) st"
      unfolding last by (simp only: lastPublished_def pubKey_def)
    moreover have "replayed st" using replayed_run assms(1) by simp
    ultimately show ?thesis
      using suppressed_tracks [OF False] replayed_lookup by metis
  qed
qed


definition noReadings :: AdsbFiAircraft where
  "noReadings =
    \<lparr> ac_hex = Some ''4ca1b2'', ac_flight = None, ac_alt_baro = Some Ground, ac_alt_geom = None,
      ac_gs = None, ac_ias = None, ac_tas = None, ac_mach = None, ac_track = None,
      ac_true_heading = None, ac_mag_heading = None, ac_baro_rate = None, ac_geom_rate = None,
      ac_roll = None, ac_squawk = None, ac_emergency = None, ac_category = None, ac_lat = None,
      ac_lon = None, ac_nic = None, ac_rc = None, ac_version = None, ac_nav_qnh = None,
      ac_nav_altitude_mcp = None, ac_nav_altitude_fms = None, ac_nav_heading = None,
      ac_nav_modes = None, ac_wd = None, ac_ws = None, ac_oat = None, ac_tat = None, ac_r = None,
      ac_t = None, ac_desc = None, ac_on_ground = None, ac_seen_pos = None \<rparr>"

lemma one_aircraft:
  "aircraftOf (pollSources (\<lambda>_. Entries [noReadings]) None None [''4CA1B2'']) = [''4CA1B2'']"
  by code_simp

theorem published_view_tracks_witness:
  "\<exists>r e. r \<in> set (mergedOf [''4CA1B2''] \<lparr> adsbfi = (\<lambda>_. Entries [noReadings]), opensky = None, rtlsdr = None,
        tMerge = 1000, tCheck = 1001, tRecord = 1002, publishOk = True, identityOk = (\<lambda>_. False) \<rparr> newPoll)
     \<and> lastPublished (js_upper (tr_icao r)) (pollCycle [''4CA1B2''] \<lparr> adsbfi = (\<lambda>_. Entries [noReadings]),
        opensky = None, rtlsdr = None, tMerge = 1000, tCheck = 1001, tRecord = 1002, publishOk = True,
        identityOk = (\<lambda>_. False) \<rparr> newPoll) = Some e \<and> (snd e = r \<or> stillTracks 1001 r e)"
proof -
  let ?inp = "\<lparr> adsbfi = (\<lambda>_. Entries [noReadings]), opensky = None, rtlsdr = None,
        tMerge = 1000, tCheck = 1001, tRecord = 1002, publishOk = True, identityOk = (\<lambda>_. False) \<rparr>"
  let ?merged = "mergedOf [''4CA1B2''] ?inp newPoll"
  have "?merged \<noteq> []"
    by (simp add: mergedOf_def mergeRecords_spec one_aircraft)
  then have r: "hd ?merged \<in> set ?merged" by simp
  have "newPoll = fold (pollCycle [''4CA1B2'']) [] newPoll" "publishOk ?inp" by simp_all
  from published_view_tracks [OF this r] r show ?thesis
    by (metis PollInput.select_convs(5))
qed

end
