(* ===== verification/Codec.thy ===== *)
theory Codec
  imports Types "HOL-Library.Word"
begin

text \<open>
  The on-chain wire format: \<open>packages/telemetry-codec/src\<close> (\<open>constants.ts\<close>, \<open>encoder.ts\<close>,
  \<open>decoder.ts\<close>) and the reader the overlay node has of its own
  (\<open>services/overlay-node/src/topic-manager.ts\<close>).

  A byte is an \<open>8 word\<close>, a \<open>Uint8Array\<close> or script a list of bytes. JavaScript's bitwise
  operators work on 32-bit two's complement values, so lengths are assembled in \<open>32 word\<close>
  and read with \<open>sint\<close> where the source uses \<open>|\<close> and \<open><<\<close>, with \<open>unat\<close> where it uses
  \<open>readUInt32LE\<close> and \<open>getBigUint64\<close>. A \<open>RangeError\<close> is a value of \<open>codec_error\<close>. The loop
  of \<open>flattenOpReturnScript\<close> is a \<open>partial_function\<close>: its outer \<open>None\<close> means that the loop
  does not end, its inner \<open>None\<close> is the source's \<open>null\<close>. The interface \<open>push_reader\<close> states
  what a reader of pushes and its loop promise about scripts made of pushes; both readers
  are interpretations.
\<close>

unbundle bit_operations_syntax

type_synonym byte = "8 word"

datatype codec_error =
  IcaoNotHex | TimestampInvalid | PushTooLong | IcaoLength | TimestampLength | TimestampUnsafe
| TooShort | BadProtocolId | BadVersion byte | BadRecordType byte

subsection \<open>Constants\<close>

definition PROTOCOL_ID_BYTES :: "byte list" where
  "PROTOCOL_ID_BYTES = [0x41, 0x49, 0x52, 0x43, 0x48, 0x49, 0x56, 0x45]"

definition PROTOCOL_VERSION :: byte where "PROTOCOL_VERSION = 1"

definition MAX_SAFE_INTEGER :: nat where "MAX_SAFE_INTEGER = 9007199254740991"

subsection \<open>Little-endian words\<close>

definition toLe :: "nat \<Rightarrow> 'a::len word \<Rightarrow> byte list" where
  "toLe k w = map (\<lambda>i. ucast (drop_bit (8 * i) w)) [0..<k]"

fun fromLe :: "byte list \<Rightarrow> 'a::len word" where
  "fromLe [] = 0"
| "fromLe (b # bs) = ucast b OR push_bit 8 (fromLe bs)"

lemma length_toLe [simp]: "length (toLe k w) = k"
  by (simp add: toLe_def)

lemma bit_byte: "bit (b :: byte) n \<Longrightarrow> n < 8"
  by (rule ccontr) (simp add: bit_word.rep_eq bit_take_bit_iff)

lemma bit_fromLe:
  "bit (fromLe bs :: 'a::len word) n \<longleftrightarrow>
     n < LENGTH('a) \<and> n < 8 * length bs \<and> bit (bs ! (n div 8)) (n mod 8)"
proof (induction bs arbitrary: n)
  case Nil
  then show ?case by simp
next
  case (Cons b bs)
  show ?case
  proof (cases "n < 8")
    case True
    then show ?thesis
      by (auto simp: bit_simps)
  next
    case False
    then obtain m where n: "n = m + 8" by (metis add.commute le_Suc_ex not_less)
    show ?thesis
      using Cons.IH [of m] by (auto simp: n bit_simps dest: bit_byte bit_imp_le_length)
  qed
qed

lemma fromLe_toLe:
  "LENGTH('a) \<le> 8 * k \<Longrightarrow> (fromLe (toLe k w) :: 'a::len word) = w"
proof (rule bit_word_eqI)
  fix n assume "LENGTH('a) \<le> 8 * k" and n: "n < LENGTH('a)"
  then have "n div 8 < k" by linarith
  with n show "bit (fromLe (toLe k w) :: 'a word) n \<longleftrightarrow> bit w n"
    by (auto simp: bit_fromLe toLe_def bit_simps)
qed

subsection \<open>Encoder\<close>

definition hexVal :: "char \<Rightarrow> nat option" where
  "hexVal c =
     (let n = (of_char c :: nat) in
      if 48 \<le> n \<and> n \<le> 57 then Some (n - 48)
      else if 65 \<le> n \<and> n \<le> 70 then Some (n - 55)
      else if 97 \<le> n \<and> n \<le> 102 then Some (n - 87)
      else None)"

text \<open>\<open>ICAO_HEX_RE\<close>: exactly six hexadecimal digits.\<close>

definition isIcaoHex :: "string \<Rightarrow> bool" where
  "isIcaoHex s \<longleftrightarrow> length s = 6 \<and> list_all (\<lambda>c. hexVal c \<noteq> None) s"

definition hexPair :: "char \<Rightarrow> char \<Rightarrow> byte" where
  "hexPair a b = of_nat (16 * the (hexVal a) + the (hexVal b))"

definition encodeIcaoHex :: "string \<Rightarrow> codec_error + byte list" where
  "encodeIcaoHex icao =
     (if \<not> isIcaoHex icao then Inl IcaoNotHex
      else Inr (map (\<lambda>i. hexPair (icao ! (i * 2)) (icao ! (i * 2 + 1))) [0..<3]))"

definition encodeTimestamp :: "jsnum \<Rightarrow> codec_error + byte list" where
  "encodeTimestamp ms =
     (case ms of
        None \<Rightarrow> Inl TimestampInvalid
      | Some t \<Rightarrow> if t < 0 then Inl TimestampInvalid
                  else Inr (toLe 8 (of_int \<lfloor>t\<rfloor> :: 64 word)))"

definition buildOpReturnPayload ::
  "string \<Rightarrow> jsnum \<Rightarrow> RecordType \<Rightarrow> byte list \<Rightarrow> codec_error + byte list" where
  "buildOpReturnPayload icao timestamp recordType payload =
     (case encodeIcaoHex icao of Inl e \<Rightarrow> Inl e
      | Inr icaoBytes \<Rightarrow>
          (case encodeTimestamp timestamp of Inl e \<Rightarrow> Inl e
           | Inr tsBytes \<Rightarrow>
               Inr (PROTOCOL_ID_BYTES @ [PROTOCOL_VERSION] @ icaoBytes @ tsBytes
                    @ [of_nat (recordTypeByte recordType)] @ payload)))"

text \<open>The bytes \<open>appendPush\<close> adds to the script.\<close>

definition pushBytes :: "byte list \<Rightarrow> codec_error + byte list" where
  "pushBytes d =
     (let n = length d; w = (of_nat n :: 32 word) in
      if n \<le> 75 then Inr (of_nat n # d)
      else if n \<le> 255 then Inr (0x4c # of_nat n # d)
      else if n \<le> 65535 then Inr (0x4d # toLe 2 w @ d)
      else if n \<le> 0xffffffff then Inr (0x4e # toLe 4 w @ d)
      else Inl PushTooLong)"

definition appendPush :: "byte list \<Rightarrow> byte list \<Rightarrow> codec_error + byte list" where
  "appendPush script d = (case pushBytes d of Inl e \<Rightarrow> Inl e | Inr p \<Rightarrow> Inr (script @ p))"

fun appendPushes :: "byte list \<Rightarrow> byte list list \<Rightarrow> codec_error + byte list" where
  "appendPushes script [] = Inr script"
| "appendPushes script (d # ds) =
     (case appendPush script d of Inl e \<Rightarrow> Inl e | Inr s \<Rightarrow> appendPushes s ds)"

definition buildOpReturnScript ::
  "string \<Rightarrow> jsnum \<Rightarrow> RecordType \<Rightarrow> byte list \<Rightarrow> codec_error + byte list" where
  "buildOpReturnScript icao timestamp recordType payload =
     (case encodeIcaoHex icao of Inl e \<Rightarrow> Inl e
      | Inr icaoBytes \<Rightarrow>
          (case encodeTimestamp timestamp of Inl e \<Rightarrow> Inl e
           | Inr tsBytes \<Rightarrow>
               appendPushes [0x00, 0x6a]
                 [PROTOCOL_ID_BYTES, [PROTOCOL_VERSION], icaoBytes, tsBytes,
                  [of_nat (recordTypeByte recordType)], payload]))"

subsection \<open>Decoder\<close>

definition hexDigit :: "nat \<Rightarrow> char" where
  "hexDigit n = ''0123456789ABCDEF'' ! n"

definition decodeIcaoHex :: "byte list \<Rightarrow> codec_error + string" where
  "decodeIcaoHex bs =
     (if length bs \<noteq> 3 then Inl IcaoLength
      else Inr (concat (map (\<lambda>b. [hexDigit (unat b div 16), hexDigit (unat b mod 16)]) bs)))"

definition decodeTimestamp :: "byte list \<Rightarrow> codec_error + nat" where
  "decodeTimestamp bs =
     (if length bs \<noteq> 8 then Inl TimestampLength
      else (let n = unat (fromLe bs :: 64 word) in
            if n > MAX_SAFE_INTEGER then Inl TimestampUnsafe else Inr n))"

definition recordTypeOf :: "byte \<Rightarrow> RecordType option" where
  "recordTypeOf b =
     (if b = 1 then Some TELEMETRY else if b = 2 then Some FLIGHT_EVENT
      else if b = 3 then Some TELEMETRY_DELTA else if b = 4 then Some AGENT_ANALYSIS
      else if b = 5 then Some AGENT_MONITOR else None)"

record ParsedPayload =
  pp_version :: byte
  pp_icao :: string
  pp_timestamp :: nat
  pp_recordType :: RecordType
  pp_payload :: "byte list"

definition slice :: "nat \<Rightarrow> nat \<Rightarrow> 'a list \<Rightarrow> 'a list" where
  "slice i j xs = take (j - i) (drop i xs)"

definition parseOpReturnPayload :: "byte list \<Rightarrow> codec_error + ParsedPayload" where
  "parseOpReturnPayload data =
     (if length data < 21 then Inl TooShort
      else if take 8 data \<noteq> PROTOCOL_ID_BYTES then Inl BadProtocolId
      else if data ! 8 \<noteq> PROTOCOL_VERSION then Inl (BadVersion (data ! 8))
      else (case decodeIcaoHex (slice 9 12 data) of Inl e \<Rightarrow> Inl e
            | Inr icao \<Rightarrow>
                (case decodeTimestamp (slice 12 20 data) of Inl e \<Rightarrow> Inl e
                 | Inr ts \<Rightarrow>
                     (case recordTypeOf (data ! 20) of
                        None \<Rightarrow> Inl (BadRecordType (data ! 20))
                      | Some rt \<Rightarrow>
                          Inr \<lparr> pp_version = data ! 8, pp_icao = icao, pp_timestamp = ts,
                                pp_recordType = rt, pp_payload = drop 21 data \<rparr>))))"

text \<open>\<open>script[i]\<close> with an index that may be out of range: \<open>None\<close> is \<open>undefined\<close>.\<close>

definition byteAt :: "byte list \<Rightarrow> int \<Rightarrow> byte option" where
  "byteAt s i = (if 0 \<le> i \<and> i < int (length s) then Some (s ! nat i) else None)"

text \<open>\<open>Uint8Array.subarray\<close>: negative bounds count from the end.\<close>

definition subarray :: "byte list \<Rightarrow> int \<Rightarrow> int \<Rightarrow> byte list" where
  "subarray s b e =
     (let n = int (length s);
          clamp = (\<lambda>x. if x < 0 then max 0 (n + x) else min x n)
      in slice (nat (clamp b)) (nat (clamp e)) s)"

text \<open>The \<open>k\<close> bytes from index \<open>i\<close>, as the 32-bit value of \<open>s[i] | s[i+1] << 8 | \<dots>\<close>.\<close>

definition int32At :: "byte list \<Rightarrow> int \<Rightarrow> nat \<Rightarrow> int" where
  "int32At s i k = sint (fromLe (slice (nat i) (nat i + k) s) :: 32 word)"

text \<open>
  One iteration of the push loop of \<open>flattenOpReturnScript\<close>: \<open>None\<close> is \<open>return null\<close>,
  otherwise the push and the new index. A length read by \<open>OP_PUSHDATA4\<close> is a signed value.
\<close>

definition flattenStep :: "byte list \<Rightarrow> int \<Rightarrow> (byte list \<times> int) option" where
  "flattenStep s i0 =
     (let n = int (length s); i = i0 + 1;
          finish = (\<lambda>i len. if i + len > n then None else Some (subarray s i (i + len), i + len))
      in case byteAt s i0 of None \<Rightarrow> None
         | Some opcode \<Rightarrow>
             if unat opcode > 0 \<and> unat opcode \<le> 75 then finish i (int (unat opcode))
             else if opcode = 0x4c then
               (if i + 1 > n then None else finish (i + 1) (int32At s i 1))
             else if opcode = 0x4d then
               (if i + 2 > n then None else finish (i + 2) (int32At s i 2))
             else if opcode = 0x4e then
               (if i + 4 > n then None else finish (i + 4) (int32At s i 4))
             else None)"

partial_function (option) flattenLoop ::
  "byte list \<Rightarrow> int \<Rightarrow> byte list list \<Rightarrow> byte list list option option" where
  "flattenLoop s i pushes =
     (if i < int (length s) then
        (case flattenStep s i of
           None \<Rightarrow> Some None
         | Some di \<Rightarrow> flattenLoop s (snd di) (pushes @ [fst di]))
      else Some (Some pushes))"

definition flattenOpReturnScript :: "byte list \<Rightarrow> byte list option option" where
  "flattenOpReturnScript s =
     (let i = (if byteAt s 0 = Some 0 then 1 else 0 :: int) in
      if byteAt s i \<noteq> Some 0x6a then Some None
      else (case flattenLoop s (i + 1) [] of
              None \<Rightarrow> None
            | Some None \<Rightarrow> Some None
            | Some (Some pushes) \<Rightarrow>
                Some (if length pushes \<noteq> 6 then None
                      else if pushes ! 0 \<noteq> PROTOCOL_ID_BYTES then None
                      else Some (concat pushes))))"

subsection \<open>The overlay node's reader\<close>

definition readPush :: "byte list \<Rightarrow> nat \<Rightarrow> (byte list \<times> nat) option" where
  "readPush s off =
     (let fin = (\<lambda>start len. if start + len > length s then None
                             else Some (slice start (start + len) s, start + len))
      in if off \<ge> length s then None
         else let oc = s ! off in
              if oc = 0 then Some ([], off + 1)
              else if 1 \<le> unat oc \<and> unat oc \<le> 75 then fin (off + 1) (unat oc)
              else if oc = 0x4c then
                (if off + 2 > length s then None else fin (off + 2) (unat (s ! (off + 1))))
              else if oc = 0x4d then
                (if off + 3 > length s then None
                 else fin (off + 3) (unat (fromLe (slice (off + 1) (off + 3) s) :: 32 word)))
              else if oc = 0x4e then
                (if off + 5 > length s then None
                 else fin (off + 5) (unat (fromLe (slice (off + 1) (off + 5) s) :: 32 word)))
              else None)"

lemma readPush_advances: "readPush s off = Some (d, n) \<Longrightarrow> off < n \<and> off < length s"
  by (auto simp: readPush_def Let_def split: if_splits)

function collectChunks :: "byte list \<Rightarrow> nat \<Rightarrow> byte list list \<Rightarrow> byte list list" where
  "collectChunks s pos chunks =
     (if pos < length s then
        (case readPush s pos of
           None \<Rightarrow> chunks
         | Some (d, n) \<Rightarrow> collectChunks s n (if length d > 0 then chunks @ [d] else chunks))
      else chunks)"
  by pat_completeness auto
termination
  by (relation "measure (\<lambda>(s, pos, chunks). length s - pos)")
     (auto dest: readPush_advances)

declare collectChunks.simps [simp del]

text \<open>\<open>script.indexOf(0x6a)\<close>: the first such byte anywhere in the script.\<close>

fun indexOf :: "byte \<Rightarrow> byte list \<Rightarrow> nat option" where
  "indexOf b [] = None"
| "indexOf b (x # xs) = (if x = b then Some 0 else map_option Suc (indexOf b xs))"

definition findOpReturnPayload :: "byte list \<Rightarrow> byte list option" where
  "findOpReturnPayload s =
     (case indexOf 0x6a s of
        None \<Rightarrow> None
      | Some idx \<Rightarrow>
          (let chunks = collectChunks s (idx + 1) []
           in if length chunks = 0 then None else Some (concat chunks)))"

definition hasSkycMagic :: "byte list \<Rightarrow> bool" where
  "hasSkycMagic payload \<longleftrightarrow>
     length payload \<ge> length PROTOCOL_ID_BYTES
     \<and> take (length PROTOCOL_ID_BYTES) payload = PROTOCOL_ID_BYTES"

text \<open>
  \<open>identifyAdmissibleOutputs\<close>: an output is its script, \<open>None\<close> when it carries none.
\<close>

definition identifyAdmissibleOutputs :: "byte list option list \<Rightarrow> (nat \<times> byte list) list" where
  "identifyAdmissibleOutputs outputs =
     List.map_filter (\<lambda>(i, o1). case o1 of None \<Rightarrow> None
        | Some script \<Rightarrow> (case findOpReturnPayload script of None \<Rightarrow> None
             | Some payload \<Rightarrow> if hasSkycMagic payload then Some (i, payload) else None))
       (List.enumerate 0 outputs)"


subsection \<open>Reading back what was written\<close>

lemma fromLe_toLe_take: "(fromLe (toLe k w) :: 'a::len word) = take_bit (8 * k) w"
proof (rule bit_word_eqI)
  fix n assume n: "n < LENGTH('a)"
  have "n < 8 * k \<Longrightarrow> n div 8 < k" by linarith
  with n show "bit (fromLe (toLe k w) :: 'a word) n \<longleftrightarrow> bit (take_bit (8 * k) w) n"
    by (auto simp: bit_fromLe toLe_def bit_simps)
qed

lemma fromLe_toLe_small:
  assumes "unat w < 2 ^ (8 * k)"
  shows "(fromLe (toLe k w) :: 'a::len word) = w"
proof -
  have "unat (take_bit (8 * k) w) = unat w"
    using assms by (simp add: unsigned_take_bit_eq take_bit_nat_eq_self)
  then have "take_bit (8 * k) w = w" by (simp only: word_unat_eq_iff)
  then show ?thesis by (simp add: fromLe_toLe_take)
qed

lemma slice_append [simp]: "slice (length a) (length a + length b) (a @ b @ c) = b"
  by (simp add: slice_def)

lemma byteAt_append: "s = a @ b # c \<Longrightarrow> i = int (length a) \<Longrightarrow> byteAt s i = Some b"
  by (simp add: byteAt_def)

lemma subarray_append:
  "s = a @ b @ c \<Longrightarrow> i = int (length a) \<Longrightarrow> j = int (length a + length b) \<Longrightarrow> subarray s i j = b"
  by (simp add: subarray_def slice_def)

lemma int32At_append:
  fixes w :: "32 word"
  assumes "s = a @ toLe k w @ c" and "i = int (length a)" and "unat w < 2 ^ (8 * k)"
  shows "int32At s i k = sint w"
proof -
  have "slice (nat i) (nat i + k) s = toLe k w"
    using assms(1,2) slice_append [of a "toLe k w" c] by simp
  then show ?thesis
    using fromLe_toLe_small [OF assms(3)] by (simp add: int32At_def)
qed

lemma sint_of_nat_32: "n < 2 ^ 31 \<Longrightarrow> sint (of_nat n :: 32 word) = int n"
  by (simp add: signed_of_nat signed_take_bit_int_eq_self_iff)

lemma unat_of_nat_32: "n < 2 ^ 32 \<Longrightarrow> unat (of_nat n :: 32 word) = n"
  by (simp add: unat_of_nat take_bit_nat_eq_self)

lemma unat_of_nat_8: "n < 256 \<Longrightarrow> unat (of_nat n :: byte) = n"
  by (simp add: unat_of_nat take_bit_nat_eq_self)

lemma int32At_byte:
  assumes "s = a @ b # c" and "i = int (length a)"
  shows "int32At s i 1 = int (unat b)"
proof -
  have sl: "slice (nat i) (nat i + 1) s = [b]" using assms by (simp add: slice_def)
  have "unat b < 2 ^ 31" using unsigned_less [of b, where ?'a = nat] by simp
  from sint_of_nat_32 [OF this] sl show ?thesis by (simp add: int32At_def)
qed

text \<open>The bytes of one push, for the data the writer accepts.\<close>

definition rawPush :: "byte list \<Rightarrow> byte list" where
  "rawPush d = (case pushBytes d of Inr p \<Rightarrow> p | Inl _ \<Rightarrow> [])"

lemma rawPush_eq:
  "length d \<le> 75 \<Longrightarrow> rawPush d = of_nat (length d) # d"
  "75 < length d \<Longrightarrow> length d \<le> 255 \<Longrightarrow> rawPush d = 0x4c # of_nat (length d) # d"
  "255 < length d \<Longrightarrow> length d \<le> 65535 \<Longrightarrow>
     rawPush d = 0x4d # toLe 2 (of_nat (length d) :: 32 word) @ d"
  "65535 < length d \<Longrightarrow> length d \<le> 0xffffffff \<Longrightarrow>
     rawPush d = 0x4e # toLe 4 (of_nat (length d) :: 32 word) @ d"
  by (simp_all add: rawPush_def pushBytes_def Let_def)

lemma rawPush_not_empty: "length d \<le> 0xffffffff \<Longrightarrow> rawPush d \<noteq> []"
  by (cases "length d \<le> 75"; cases "length d \<le> 255"; cases "length d \<le> 65535")
     (simp_all add: rawPush_eq)

lemma appendPushes_raw:
  "\<forall>d \<in> set ds. length d \<le> 0xffffffff \<Longrightarrow>
     appendPushes s ds = Inr (s @ concat (map rawPush ds))"
proof (induction ds arbitrary: s)
  case Nil
  then show ?case by simp
next
  case (Cons d ds)
  have "pushBytes d = Inr (rawPush d)"
    using Cons.prems by (simp add: rawPush_def pushBytes_def Let_def)
  with Cons show ?case by (simp add: appendPush_def)
qed

subsection \<open>The interface of a push reader\<close>

text \<open>
  \<open>reader s i\<close> reads one push at index \<open>i\<close>; \<open>loop s i acc\<close> reads from \<open>i\<close> to the end of the
  script with the pushes \<open>acc\<close> already collected, and \<open>fin\<close> is its result there. \<open>ok\<close> is the
  data the provider promises to read back from the encoder's bytes.
\<close>

locale push_reader =
  fixes ok :: "byte list \<Rightarrow> bool"
    and reader :: "byte list \<Rightarrow> nat \<Rightarrow> (byte list \<times> nat) option"
    and loop :: "byte list \<Rightarrow> nat \<Rightarrow> byte list list \<Rightarrow> 'r"
    and fin :: "byte list list \<Rightarrow> 'r"
  assumes read_written:
      "ok d \<Longrightarrow> reader (a @ rawPush d @ c) (length a) = Some (d, length a + length (rawPush d))"
    and written_not_empty: "ok d \<Longrightarrow> rawPush d \<noteq> []"
    and loop_read:
      "\<lbrakk>i < length s; reader s i = Some (d, n); ok d\<rbrakk> \<Longrightarrow> loop s i acc = loop s n (acc @ [d])"
    and loop_end: "length s \<le> i \<Longrightarrow> loop s i acc = fin acc"
begin

lemma loop_written:
  "\<forall>d \<in> set ds. ok d \<Longrightarrow>
     loop (a @ concat (map rawPush ds)) (length a) acc = fin (acc @ ds)"
proof (induction ds arbitrary: a acc)
  case Nil
  then show ?case by (simp add: loop_end)
next
  case (Cons d ds)
  let ?s = "a @ rawPush d @ concat (map rawPush ds)"
  have "length a < length ?s"
    using Cons.prems written_not_empty [of d] by simp
  moreover have "reader ?s (length a) = Some (d, length a + length (rawPush d))"
    using Cons.prems by (simp add: read_written)
  ultimately have "loop ?s (length a) acc = loop ?s (length (a @ rawPush d)) (acc @ [d])"
    using loop_read Cons.prems by simp
  also have "\<dots> = fin ((acc @ [d]) @ ds)"
    using Cons.IH [of "a @ rawPush d"] Cons.prems by simp
  finally show ?case by simp
qed

end

subsection \<open>Both readers implement it\<close>

definition flattenOk :: "byte list \<Rightarrow> bool" where
  "flattenOk d \<longleftrightarrow> d \<noteq> [] \<and> length d < 2 ^ 31"

lemma opcode_unat:
  "unat (0x4c :: byte) = 0x4c" "unat (0x4d :: byte) = 0x4d" "unat (0x4e :: byte) = 0x4e"
  by simp_all

lemma flattenStep_cases:
  assumes "byteAt s i = Some oc"
  shows "\<lbrakk>0 < unat oc; unat oc \<le> 75; n = int (unat oc); i + 1 + n \<le> int (length s)\<rbrakk> \<Longrightarrow>
       flattenStep s i = Some (subarray s (i + 1) (i + 1 + n), i + 1 + n)"
    and "\<lbrakk>oc = 0x4c; int32At s (i + 1) 1 = n; 0 \<le> n; i + 2 + n \<le> int (length s)\<rbrakk> \<Longrightarrow>
       flattenStep s i = Some (subarray s (i + 2) (i + 2 + n), i + 2 + n)"
    and "\<lbrakk>oc = 0x4d; int32At s (i + 1) 2 = n; 0 \<le> n; i + 3 + n \<le> int (length s)\<rbrakk> \<Longrightarrow>
       flattenStep s i = Some (subarray s (i + 3) (i + 3 + n), i + 3 + n)"
    and "\<lbrakk>oc = 0x4e; int32At s (i + 1) 4 = n; 0 \<le> n; i + 5 + n \<le> int (length s)\<rbrakk> \<Longrightarrow>
       flattenStep s i = Some (subarray s (i + 5) (i + 5 + n), i + 5 + n)"
  using assms
  by (simp_all add: flattenStep_def Let_def opcode_unat add.commute [of i] del: of_nat_unat)

lemma flattenStep_written:
  assumes "flattenOk d"
  shows "flattenStep (a @ rawPush d @ c) (int (length a))
           = Some (d, int (length a + length (rawPush d)))"
proof -
  let ?n = "length d" and ?i = "int (length a)"
  from assms have n: "0 < ?n" "?n < 2 ^ 31" by (auto simp: flattenOk_def)
  obtain s where s: "s = a @ rawPush d @ c" by simp
  consider "?n \<le> 75" | "75 < ?n" "?n \<le> 255" | "255 < ?n" "?n \<le> 65535"
    | "65535 < ?n" "?n \<le> 0xffffffff" using n by fastforce
  then have "flattenStep s (int (length a)) = Some (d, int (length a + length (rawPush d)))"
  proof cases
    case 1
    have eq: "s = a @ of_nat ?n # d @ c" by (simp add: s rawPush_eq(1) [OF 1])
    have "subarray s (?i + 1) (?i + 1 + int ?n) = d"
      by (rule subarray_append [where a = "a @ [of_nat ?n]" and c = c]) (simp_all add: eq)
    then show ?thesis
      using flattenStep_cases(1) [OF byteAt_append [OF eq refl], of "int ?n"] 1 n
      by (simp add: eq unat_of_nat_8 rawPush_eq(1) [OF 1])
  next
    case 2
    have eq: "s = a @ 0x4c # of_nat ?n # d @ c" by (simp add: s rawPush_eq(2) [OF 2])
    have len: "int32At s (?i + 1) 1 = int ?n"
      using int32At_byte [of s "a @ [0x4c]" "of_nat ?n" "d @ c" "?i + 1"] 2
      by (simp add: eq unat_of_nat_8)
    have "subarray s (?i + 2) (?i + 2 + int ?n) = d"
      by (rule subarray_append [where a = "a @ [0x4c, of_nat ?n]" and c = c]) (simp_all add: eq)
    then show ?thesis
      using flattenStep_cases(2) [OF byteAt_append [OF eq refl] refl len]
      by (simp add: eq rawPush_eq(2) [OF 2])
  next
    case 3
    let ?w = "of_nat ?n :: 32 word"
    have eq: "s = a @ 0x4d # toLe 2 ?w @ d @ c" by (simp add: s rawPush_eq(3) [OF 3])
    have len: "int32At s (?i + 1) 2 = int ?n"
      using int32At_append [of s "a @ [0x4d]" 2 ?w "d @ c" "?i + 1"] 3 n
      by (simp add: eq unat_of_nat_32 sint_of_nat_32)
    have "subarray s (?i + 3) (?i + 3 + int ?n) = d"
      by (rule subarray_append [where a = "a @ 0x4d # toLe 2 ?w" and c = c]) (simp_all add: eq)
    then show ?thesis
      using flattenStep_cases(3) [OF byteAt_append [OF eq refl] refl len]
      by (simp add: eq rawPush_eq(3) [OF 3])
  next
    case 4
    let ?w = "of_nat ?n :: 32 word"
    have eq: "s = a @ 0x4e # toLe 4 ?w @ d @ c" by (simp add: s rawPush_eq(4) [OF 4])
    have len: "int32At s (?i + 1) 4 = int ?n"
      using int32At_append [of s "a @ [0x4e]" 4 ?w "d @ c" "?i + 1"] 4 n
      by (simp add: eq unat_of_nat_32 sint_of_nat_32)
    have "subarray s (?i + 5) (?i + 5 + int ?n) = d"
      by (rule subarray_append [where a = "a @ 0x4e # toLe 4 ?w" and c = c]) (simp_all add: eq)
    then show ?thesis
      using flattenStep_cases(4) [OF byteAt_append [OF eq refl] refl len]
      by (simp add: eq rawPush_eq(4) [OF 4])
  qed
  then show ?thesis by (simp only: s)
qed

lemma flattenLoop_end: "int (length s) \<le> i \<Longrightarrow> flattenLoop s i acc = Some (Some acc)"
  by (simp add: flattenLoop.simps)

lemma flattenLoop_step:
  "i < int (length s) \<Longrightarrow> flattenStep s i = Some (d, j) \<Longrightarrow>
     flattenLoop s i acc = flattenLoop s j (acc @ [d])"
  by (simp add: flattenLoop.simps [of s i])

text \<open>The step at a natural index, and the loop seen as one over natural indices.\<close>

definition flattenReader :: "byte list \<Rightarrow> nat \<Rightarrow> (byte list \<times> nat) option" where
  "flattenReader s i =
     (case flattenStep s (int i) of
        Some (d, j) \<Rightarrow> if 0 \<le> j then Some (d, nat j) else None
      | None \<Rightarrow> None)"

definition overlayOk :: "byte list \<Rightarrow> bool" where
  "overlayOk d \<longleftrightarrow> d \<noteq> [] \<and> length d \<le> 0xffffffff"

lemma readPush_cases:
  assumes "p < length s" and "s ! p = oc"
  shows "\<lbrakk>0 < unat oc; unat oc \<le> 75; p + 1 + unat oc \<le> length s\<rbrakk> \<Longrightarrow>
       readPush s p = Some (slice (p + 1) (p + 1 + unat oc) s, p + 1 + unat oc)"
    and "\<lbrakk>oc = 0x4c; unat (s ! (p + 1)) = n; p + 2 + n \<le> length s\<rbrakk> \<Longrightarrow>
       readPush s p = Some (slice (p + 2) (p + 2 + n) s, p + 2 + n)"
    and "\<lbrakk>oc = 0x4d; unat (fromLe (slice (p + 1) (p + 3) s) :: 32 word) = n; p + 3 + n \<le> length s\<rbrakk> \<Longrightarrow>
       readPush s p = Some (slice (p + 3) (p + 3 + n) s, p + 3 + n)"
    and "\<lbrakk>oc = 0x4e; unat (fromLe (slice (p + 1) (p + 5) s) :: 32 word) = n; p + 5 + n \<le> length s\<rbrakk> \<Longrightarrow>
       readPush s p = Some (slice (p + 5) (p + 5 + n) s, p + 5 + n)"
  using assms by (auto simp: readPush_def Let_def unat_eq_0)

lemma readPush_written:
  assumes "overlayOk d"
  shows "readPush (a @ rawPush d @ c) (length a) = Some (d, length a + length (rawPush d))"
proof -
  let ?n = "length d" and ?p = "length a"
  from assms have n: "0 < ?n" "?n \<le> 0xffffffff" by (auto simp: overlayOk_def)
  obtain s where s: "s = a @ rawPush d @ c" by simp
  consider "?n \<le> 75" | "75 < ?n" "?n \<le> 255" | "255 < ?n" "?n \<le> 65535"
    | "65535 < ?n" "?n \<le> 0xffffffff" using n by fastforce
  then have "readPush s ?p = Some (d, ?p + length (rawPush d))"
  proof cases
    case 1
    have eq: "s = a @ of_nat ?n # d @ c" by (simp add: s rawPush_eq(1) [OF 1])
    then have "?p < length s" "s ! ?p = of_nat ?n" "?p + 1 + ?n \<le> length s"
      "slice (?p + 1) (?p + 1 + ?n) s = d"
      using slice_append [of "a @ [of_nat ?n]" d c] by simp_all
    then show ?thesis
      using readPush_cases(1) [of ?p s "of_nat ?n"] 1 n
      by (simp add: unat_of_nat_8 rawPush_eq(1) [OF 1])
  next
    case 2
    have eq: "s = a @ 0x4c # of_nat ?n # d @ c" by (simp add: s rawPush_eq(2) [OF 2])
    then have "?p < length s" "s ! ?p = 0x4c" "?p + 2 + ?n \<le> length s"
      "unat (s ! (?p + 1)) = ?n" "slice (?p + 2) (?p + 2 + ?n) s = d"
      using slice_append [of "a @ [0x4c, of_nat ?n]" d c] 2
      by (simp_all add: nth_append unat_of_nat_8)
    then show ?thesis
      using readPush_cases(2) [of ?p s "0x4c" ?n] by (simp add: rawPush_eq(2) [OF 2])
  next
    case 3
    let ?w = "of_nat ?n :: 32 word"
    have eq: "s = a @ 0x4d # toLe 2 ?w @ d @ c" by (simp add: s rawPush_eq(3) [OF 3])
    have "slice (?p + 1) (?p + 3) s = toLe 2 ?w"
      using slice_append [of "a @ [0x4d]" "toLe 2 ?w" "d @ c"] by (simp add: eq eval_nat_numeral)
    then have "unat (fromLe (slice (?p + 1) (?p + 3) s) :: 32 word) = ?n"
      using 3 n by (simp add: fromLe_toLe_small unat_of_nat_32)
    moreover from eq have "?p < length s" "s ! ?p = 0x4d" "?p + 3 + ?n \<le> length s"
      "slice (?p + 3) (?p + 3 + ?n) s = d"
      using slice_append [of "a @ 0x4d # toLe 2 ?w" d c] by simp_all
    ultimately show ?thesis
      using readPush_cases(3) [of ?p s "0x4d" ?n] by (simp add: rawPush_eq(3) [OF 3])
  next
    case 4
    let ?w = "of_nat ?n :: 32 word"
    have eq: "s = a @ 0x4e # toLe 4 ?w @ d @ c" by (simp add: s rawPush_eq(4) [OF 4])
    have "slice (?p + 1) (?p + 5) s = toLe 4 ?w"
      using slice_append [of "a @ [0x4e]" "toLe 4 ?w" "d @ c"] by (simp add: eq eval_nat_numeral)
    then have "unat (fromLe (slice (?p + 1) (?p + 5) s) :: 32 word) = ?n"
      using 4 n by (simp add: fromLe_toLe_small unat_of_nat_32)
    moreover from eq have "?p < length s" "s ! ?p = 0x4e" "?p + 5 + ?n \<le> length s"
      "slice (?p + 5) (?p + 5 + ?n) s = d"
      using slice_append [of "a @ 0x4e # toLe 4 ?w" d c] by simp_all
    ultimately show ?thesis
      using readPush_cases(4) [of ?p s "0x4e" ?n] by (simp add: rawPush_eq(4) [OF 4])
  qed
  then show ?thesis by (simp only: s)
qed

lemma collectChunks_end: "length s \<le> i \<Longrightarrow> collectChunks s i acc = acc"
  by (simp add: collectChunks.simps [of s i])

lemma collectChunks_step:
  "\<lbrakk>i < length s; readPush s i = Some (d, n); d \<noteq> []\<rbrakk> \<Longrightarrow>
     collectChunks s i acc = collectChunks s n (acc @ [d])"
  by (simp add: collectChunks.simps [of s i])

interpretation flat: push_reader flattenOk flattenReader
  "\<lambda>s i acc. flattenLoop s (int i) acc" "\<lambda>acc. Some (Some acc)"
proof unfold_locales
  fix d a c :: "byte list"
  assume "flattenOk d"
  then show "flattenReader (a @ rawPush d @ c) (length a) = Some (d, length a + length (rawPush d))"
    by (simp add: flattenReader_def flattenStep_written)
next
  fix d :: "byte list"
  assume "flattenOk d"
  then show "rawPush d \<noteq> []" by (intro rawPush_not_empty) (simp add: flattenOk_def)
next
  fix i n :: nat and s d acc
  assume "i < length s" and r: "flattenReader s i = Some (d, n)"
  then have "flattenStep s (int i) = Some (d, int n)"
    by (auto simp: flattenReader_def split: option.splits if_splits)
  with \<open>i < length s\<close> show "flattenLoop s (int i) acc = flattenLoop s (int n) (acc @ [d])"
    by (intro flattenLoop_step) auto
next
  show "flattenLoop s (int i) acc = Some (Some acc)" if "length s \<le> i" for s i acc
    using that by (intro flattenLoop_end) simp
qed

interpretation overlay: push_reader overlayOk readPush collectChunks "\<lambda>acc. acc"
proof unfold_locales
  show "readPush (a @ rawPush d @ c) (length a) = Some (d, length a + length (rawPush d))"
    if "overlayOk d" for a c d using that by (rule readPush_written)
  show "rawPush d \<noteq> []" if "overlayOk d" for d
    using that by (intro rawPush_not_empty) (simp add: overlayOk_def)
  show "collectChunks s i acc = collectChunks s n (acc @ [d])"
    if "i < length s" "readPush s i = Some (d, n)" "overlayOk d" for s i n d acc
    using that by (intro collectChunks_step) (auto simp: overlayOk_def)
  show "collectChunks s i acc = acc" if "length s \<le> i" for s i acc
    using that by (rule collectChunks_end)
qed

subsection \<open>The envelope\<close>

lemma encodeIcaoHex_ok:
  "encodeIcaoHex icao = Inr bs \<longleftrightarrow>
     isIcaoHex icao \<and> bs = map (\<lambda>i. hexPair (icao ! (i * 2)) (icao ! (i * 2 + 1))) [0..<3]"
  by (auto simp: encodeIcaoHex_def)

lemma encodeTimestamp_ok:
  "encodeTimestamp ms = Inr bs \<longleftrightarrow>
     (\<exists>t. ms = Some t \<and> 0 \<le> t \<and> bs = toLe 8 (of_int \<lfloor>t\<rfloor> :: 64 word))"
  by (auto simp: encodeTimestamp_def split: option.splits)

lemma built_lengths:
  "encodeIcaoHex icao = Inr a \<Longrightarrow> length a = 3"
  "encodeTimestamp ms = Inr b \<Longrightarrow> length b = 8"
  by (auto simp: encodeIcaoHex_ok encodeTimestamp_ok)

text \<open>The six pushes of an envelope.\<close>

definition envelope :: "byte list \<Rightarrow> byte list \<Rightarrow> RecordType \<Rightarrow> byte list \<Rightarrow> byte list list" where
  "envelope icaoBytes tsBytes rt payload =
     [PROTOCOL_ID_BYTES, [PROTOCOL_VERSION], icaoBytes, tsBytes, [of_nat (recordTypeByte rt)], payload]"

lemma build_from_parts:
  assumes "encodeIcaoHex icao = Inr a" and "encodeTimestamp ms = Inr b"
  shows "buildOpReturnPayload icao ms rt payload = Inr (concat (envelope a b rt payload))"
    and "length payload \<le> 0xffffffff \<Longrightarrow>
           buildOpReturnScript icao ms rt payload
             = Inr ([0x00, 0x6a] @ concat (map rawPush (envelope a b rt payload)))"
proof -
  show "buildOpReturnPayload icao ms rt payload = Inr (concat (envelope a b rt payload))"
    using assms by (simp add: buildOpReturnPayload_def envelope_def)
  assume "length payload \<le> 0xffffffff"
  then have "\<forall>d \<in> set (envelope a b rt payload). length d \<le> 0xffffffff"
    using built_lengths(1) [OF assms(1)] built_lengths(2) [OF assms(2)]
    by (simp add: envelope_def PROTOCOL_ID_BYTES_def)
  from appendPushes_raw [OF this, of "[0x00, 0x6a]"]
  show "buildOpReturnScript icao ms rt payload
          = Inr ([0x00, 0x6a] @ concat (map rawPush (envelope a b rt payload)))"
    by (simp only: buildOpReturnScript_def assms sum.case envelope_def)
qed

lemma script_parts:
  assumes "buildOpReturnScript icao ms rt payload = Inr s"
  obtains a b where "encodeIcaoHex icao = Inr a" and "encodeTimestamp ms = Inr b"
  using assms by (auto simp: buildOpReturnScript_def split: sum.splits)

lemma payload_parts:
  assumes "buildOpReturnPayload icao ms rt payload = Inr s"
  obtains a b where "encodeIcaoHex icao = Inr a" and "encodeTimestamp ms = Inr b"
  using assms by (auto simp: buildOpReturnPayload_def split: sum.splits)

lemma envelope_ok:
  assumes "encodeIcaoHex icao = Inr a" and "encodeTimestamp ms = Inr b"
    and "payload \<noteq> []" and "length payload < 2 ^ 31"
  shows "\<forall>d \<in> set (envelope a b rt payload). flattenOk d \<and> overlayOk d"
  using assms(3,4) built_lengths(1) [OF assms(1)] built_lengths(2) [OF assms(2)]
  by (auto simp: envelope_def flattenOk_def overlayOk_def PROTOCOL_ID_BYTES_def)


subsection \<open>Round trips of the fields\<close>

lemma hexVal_less: "hexVal c = Some n \<Longrightarrow> n < 16"
  by (auto simp: hexVal_def Let_def split: if_splits)

lemma less_16: "n < 16 \<Longrightarrow> n \<in> {0, 1, 2, 3, 4, 5, 6, 7, 8, 9, 10, 11, 12, 13, 14, 15 :: nat}"
  unfolding insert_iff empty_iff by presburger

lemma of_char_hexDigit: "n < 16 \<Longrightarrow> (of_char (hexDigit n) :: nat) = (if n < 10 then 48 + n else 55 + n)"
  by (drule less_16) (auto simp: hexDigit_def)

lemma hexVal_hexDigit: "n < 16 \<Longrightarrow> hexVal (hexDigit n) = Some n"
  by (simp add: hexVal_def Let_def of_char_hexDigit)

lemma hexDigit_hexVal: "hexVal c = Some n \<Longrightarrow> hexDigit n = upper_char c"
proof -
  assume h: "hexVal c = Some n"
  have "(of_char (hexDigit n) :: nat) = of_char (upper_char c)"
    using h hexVal_less [OF h]
    by (auto simp: of_char_hexDigit of_char_upper hexVal_def Let_def split: if_splits)
  then show ?thesis by simp
qed

lemma hexPair_nibbles:
  assumes "hexVal c = Some x" and "hexVal d = Some y"
  shows "unat (hexPair c d) div 16 = x" and "unat (hexPair c d) mod 16 = y"
proof -
  have "16 * x + y < 256" "y < 16"
    using hexVal_less [OF assms(1)] hexVal_less [OF assms(2)] by auto
  moreover have "hexPair c d = of_nat (16 * x + y)"
    using assms by (simp add: hexPair_def)
  ultimately have "unat (hexPair c d) = 16 * x + y" "y < 16" by (simp_all only: unat_of_nat_8)
  then show "unat (hexPair c d) div 16 = x" and "unat (hexPair c d) mod 16 = y" by simp_all
qed

lemma hexPair_digits: "hexPair (hexDigit (unat b div 16)) (hexDigit (unat b mod 16)) = b"
proof -
  have "unat b < 256" using unsigned_less [of b, where ?'a = nat] by simp
  then show ?thesis
    by (simp add: hexPair_def hexVal_hexDigit less_mult_imp_div_less)
qed

lemma list_of_three: "length xs = 3 \<Longrightarrow> \<exists>a b c. xs = [a, b, c]"
  by (auto simp: eval_nat_numeral length_Suc_conv)

lemma list_of_six: "length xs = 6 \<Longrightarrow> \<exists>a b c d e f. xs = [a, b, c, d, e, f]"
  by (auto simp: eval_nat_numeral length_Suc_conv)

lemma icao_roundtrip:
  assumes "encodeIcaoHex icao = Inr bs"
  shows "decodeIcaoHex bs = Inr (js_upper icao)"
proof -
  from assms have h: "length icao = 6" "\<forall>c \<in> set icao. hexVal c \<noteq> None"
    and bs: "bs = map (\<lambda>i. hexPair (icao ! (i * 2)) (icao ! (i * 2 + 1))) [0..<3]"
    by (auto simp: encodeIcaoHex_ok isIcaoHex_def list_all_iff)
  from list_of_six [OF h(1)] obtain a b c d e f where icao: "icao = [a, b, c, d, e, f]" by blast
  with h(2) obtain a' b' c' d' e' f' where v: "hexVal a = Some a'" "hexVal b = Some b'"
    "hexVal c = Some c'" "hexVal d = Some d'" "hexVal e = Some e'" "hexVal f = Some f'" by auto
  have "bs = [hexPair a b, hexPair c d, hexPair e f]"
    by (simp add: bs icao numeral_3_eq_3 numeral_nat)
  with v show ?thesis
    by (simp add: decodeIcaoHex_def hexPair_nibbles [OF v(1,2)] hexPair_nibbles [OF v(3,4)]
        hexPair_nibbles [OF v(5,6)] hexDigit_hexVal js_upper_def icao)
qed

lemma icao_roundtrip_back:
  assumes "decodeIcaoHex bs = Inr icao"
  shows "encodeIcaoHex icao = Inr bs"
proof -
  have "length bs = 3" using assms by (auto simp: decodeIcaoHex_def split: if_splits)
  from list_of_three [OF this] obtain x y z where bs: "bs = [x, y, z]" by blast
  have u: "unat w div 16 < 16" for w :: byte
    using unsigned_less [of w, where ?'a = nat] by (simp add: less_mult_imp_div_less)
  from assms show ?thesis
    by (auto simp: bs decodeIcaoHex_def encodeIcaoHex_def isIcaoHex_def hexVal_hexDigit u
        numeral_3_eq_3 hexPair_digits)
qed

lemma recordTypeOf_inverse: "recordTypeOf (of_nat (recordTypeByte rt)) = Some rt"
  by (cases rt) (simp_all add: recordTypeOf_def)

lemma recordTypeOf_byte: "recordTypeOf b = Some rt \<Longrightarrow> of_nat (recordTypeByte rt) = b"
  by (auto simp: recordTypeOf_def split: if_splits)

lemma toLe_fromLe:
  assumes "8 * length bs \<le> LENGTH('a)"
  shows "toLe (length bs) (fromLe bs :: 'a::len word) = bs"
proof (rule nth_equalityI)
  fix i assume "i < length (toLe (length bs) (fromLe bs :: 'a word))"
  then have i: "i < length bs" by simp
  show "toLe (length bs) (fromLe bs :: 'a word) ! i = bs ! i"
  proof (rule bit_word_eqI)
    fix n assume "n < LENGTH(8)"
    then have n: "n < 8" by simp
    with i assms have "8 * i + n < 8 * length bs" "8 * i + n < LENGTH('a)" by linarith+
    with i n show "bit (toLe (length bs) (fromLe bs :: 'a word) ! i) n \<longleftrightarrow> bit (bs ! i) n"
      by (simp add: toLe_def bit_simps bit_fromLe)
  qed
qed simp

lemma timestamp_roundtrip:
  assumes "0 \<le> t"
  shows "decodeTimestamp (toLe 8 (of_int \<lfloor>t\<rfloor> :: 64 word)) =
           (let n = nat (\<lfloor>t\<rfloor> mod 2 ^ 64) in
            if n > MAX_SAFE_INTEGER then Inl TimestampUnsafe else Inr n)"
proof -
  have "unat (of_int \<lfloor>t\<rfloor> :: 64 word) = nat (\<lfloor>t\<rfloor> mod 2 ^ 64)"
    by (simp add: unsigned_of_int take_bit_eq_mod)
  then show ?thesis by (simp add: decodeTimestamp_def fromLe_toLe)
qed

lemma timestamp_roundtrip_back:
  assumes "decodeTimestamp bs = Inr n"
  shows "encodeTimestamp (Some (real n)) = Inr bs"
proof -
  from assms have "length bs = 8" and n: "n = unat (fromLe bs :: 64 word)"
    by (auto simp: decodeTimestamp_def Let_def split: if_splits)
  then have "toLe 8 (fromLe bs :: 64 word) = bs"
    using toLe_fromLe [of bs, where ?'a = 64] by simp
  moreover have "(of_nat n :: 64 word) = fromLe bs" by (simp add: n)
  ultimately show ?thesis by (simp add: encodeTimestamp_def)
qed

lemma envelope_fields:
  assumes "length a = 3" and "length b = 8"
  shows "length (concat (envelope a b rt p)) \<ge> 21"
    and "take 8 (concat (envelope a b rt p)) = PROTOCOL_ID_BYTES"
    and "concat (envelope a b rt p) ! 8 = PROTOCOL_VERSION"
    and "slice 9 12 (concat (envelope a b rt p)) = a"
    and "slice 12 20 (concat (envelope a b rt p)) = b"
    and "concat (envelope a b rt p) ! 20 = of_nat (recordTypeByte rt)"
    and "drop 21 (concat (envelope a b rt p)) = p"
proof -
  define e where "e = concat (envelope a b rt p)"
  have e: "e = PROTOCOL_ID_BYTES @ [PROTOCOL_VERSION] @ a @ b @ [of_nat (recordTypeByte rt)] @ p"
    by (simp add: e_def envelope_def)
  have n: "length PROTOCOL_ID_BYTES = 8" by (simp add: PROTOCOL_ID_BYTES_def)
  from n assms show "length (concat (envelope a b rt p)) \<ge> 21"
    and "take 8 (concat (envelope a b rt p)) = PROTOCOL_ID_BYTES"
    and "concat (envelope a b rt p) ! 8 = PROTOCOL_VERSION"
    and "slice 9 12 (concat (envelope a b rt p)) = a"
    and "slice 12 20 (concat (envelope a b rt p)) = b"
    and "concat (envelope a b rt p) ! 20 = of_nat (recordTypeByte rt)"
    and "drop 21 (concat (envelope a b rt p)) = p"
    unfolding e_def [symmetric] by (simp_all add: e slice_def nth_append nth_Cons')
qed

text \<open>What the reader finds in a built payload; only the timestamp may be refused.\<close>

lemma parse_built:
  assumes "buildOpReturnPayload icao (Some t) rt payload = Inr bs"
  obtains b where "encodeTimestamp (Some t) = Inr b"
    and "parseOpReturnPayload bs = (case decodeTimestamp b of Inl e \<Rightarrow> Inl e
      | Inr ts \<Rightarrow> Inr \<lparr> pp_version = PROTOCOL_VERSION, pp_icao = js_upper icao, pp_timestamp = ts,
                        pp_recordType = rt, pp_payload = payload \<rparr>)"
proof -
  from payload_parts [OF assms] obtain a b
    where a: "encodeIcaoHex icao = Inr a" and b: "encodeTimestamp (Some t) = Inr b" .
  have bs: "bs = concat (envelope a b rt payload)"
    using build_from_parts(1) [OF a b, of rt payload] assms by simp
  note fields = envelope_fields [OF built_lengths(1) [OF a] built_lengths(2) [OF b], of rt payload]
  have "parseOpReturnPayload bs = (case decodeTimestamp b of Inl e \<Rightarrow> Inl e
      | Inr ts \<Rightarrow> Inr \<lparr> pp_version = PROTOCOL_VERSION, pp_icao = js_upper icao, pp_timestamp = ts,
                        pp_recordType = rt, pp_payload = payload \<rparr>)"
    unfolding bs parseOpReturnPayload_def fields icao_roundtrip [OF a] recordTypeOf_inverse
    using fields(1) by (cases "decodeTimestamp b") simp_all
  with b show thesis by (rule that)
qed

text \<open>
  C8: the envelope round trip. What \<open>buildOpReturnPayload\<close> accepts, \<open>parseOpReturnPayload\<close>
  reads back: the address in upper case, the timestamp rounded down to a millisecond, the record
  type and the payload bytes, provided the timestamp is a safe integer. A timestamp beyond the
  safe integers but below 2^64 is written and refused by the reader.
\<close>

theorem payload_roundtrip:
  assumes "buildOpReturnPayload icao (Some t) rt payload = Inr bs" and "t < 2 ^ 64"
  shows "parseOpReturnPayload bs =
    (if t \<ge> real MAX_SAFE_INTEGER + 1 then Inl TimestampUnsafe
     else Inr \<lparr> pp_version = PROTOCOL_VERSION, pp_icao = js_upper icao,
                pp_timestamp = nat \<lfloor>t\<rfloor>, pp_recordType = rt, pp_payload = payload \<rparr>)"
proof -
  from parse_built [OF assms(1)] obtain b where b: "encodeTimestamp (Some t) = Inr b"
    and parsed: "parseOpReturnPayload bs = (case decodeTimestamp b of Inl e \<Rightarrow> Inl e
      | Inr ts \<Rightarrow> Inr \<lparr> pp_version = PROTOCOL_VERSION, pp_icao = js_upper icao, pp_timestamp = ts,
                        pp_recordType = rt, pp_payload = payload \<rparr>)" .
  have t: "0 \<le> t" and tb: "b = toLe 8 (of_int \<lfloor>t\<rfloor> :: 64 word)"
    using b by (auto simp: encodeTimestamp_ok)
  have "\<lfloor>t\<rfloor> < 2 ^ 64" using assms(2) by (simp add: floor_less_iff)
  with t have m: "\<lfloor>t\<rfloor> mod 2 ^ 64 = \<lfloor>t\<rfloor>" by (intro mod_pos_pos_trivial) auto
  have big: "nat \<lfloor>t\<rfloor> > MAX_SAFE_INTEGER \<longleftrightarrow> t \<ge> real MAX_SAFE_INTEGER + 1"
    unfolding zless_nat_eq_int_zless by (simp add: less_floor_iff)
  have ts: "decodeTimestamp b =
      (if t \<ge> real MAX_SAFE_INTEGER + 1 then Inl TimestampUnsafe else Inr (nat \<lfloor>t\<rfloor>))"
    unfolding tb timestamp_roundtrip [OF t] m Let_def big ..
  show ?thesis unfolding parsed ts by simp
qed

theorem payload_roundtrip_witness:
  "\<exists>bs. buildOpReturnPayload ''a1b2c3'' (Some 1500.75) TELEMETRY [1, 2, 3] = Inr bs
     \<and> parseOpReturnPayload bs =
        Inr \<lparr> pp_version = 1, pp_icao = ''A1B2C3'', pp_timestamp = 1500,
              pp_recordType = TELEMETRY, pp_payload = [1, 2, 3] \<rparr>"
proof -
  have "isIcaoHex ''a1b2c3''" by code_simp
  then obtain bs where bs: "buildOpReturnPayload ''a1b2c3'' (Some 1500.75) TELEMETRY [1, 2, 3] = Inr bs"
    by (auto simp: buildOpReturnPayload_def encodeIcaoHex_def encodeTimestamp_def)
  have up: "js_upper ''a1b2c3'' = ''A1B2C3''" by code_simp
  from payload_roundtrip [OF bs] have "parseOpReturnPayload bs =
      Inr \<lparr> pp_version = 1, pp_icao = ''A1B2C3'', pp_timestamp = 1500,
            pp_recordType = TELEMETRY, pp_payload = [1, 2, 3] \<rparr>"
    by (simp add: up MAX_SAFE_INTEGER_def PROTOCOL_VERSION_def)
  with bs show ?thesis by blast
qed

text \<open>
  C9: parsing is exact. A payload that \<open>parseOpReturnPayload\<close> accepts is the one that
  \<open>buildOpReturnPayload\<close> writes from the fields it returns, byte for byte, so no two different
  payloads parse alike.
\<close>

theorem parse_is_exact:
  assumes "parseOpReturnPayload bs = Inr p"
  shows "buildOpReturnPayload (pp_icao p) (Some (real (pp_timestamp p))) (pp_recordType p) (pp_payload p)
           = Inr bs \<and> pp_version p = PROTOCOL_VERSION"
proof -
  from assms obtain icao ts rt where len: "21 \<le> length bs" and pid: "take 8 bs = PROTOCOL_ID_BYTES"
    and ver: "bs ! 8 = PROTOCOL_VERSION"
    and icao: "decodeIcaoHex (slice 9 12 bs) = Inr icao"
    and ts: "decodeTimestamp (slice 12 20 bs) = Inr ts"
    and rt: "recordTypeOf (bs ! 20) = Some rt"
    and p: "p = \<lparr> pp_version = bs ! 8, pp_icao = icao, pp_timestamp = ts, pp_recordType = rt,
                  pp_payload = drop 21 bs \<rparr>"
    by (auto simp: parseOpReturnPayload_def split: if_splits sum.splits option.splits)
  have "bs = take 8 bs @ drop 8 bs" by simp
  also have "drop 8 bs = bs ! 8 # drop 9 bs" using len Cons_nth_drop_Suc [of 8 bs] by simp
  also have "drop 9 bs = slice 9 12 bs @ drop 12 bs"
    using append_take_drop_id [of 3 "drop 9 bs"] by (simp add: slice_def)
  also have "drop 12 bs = slice 12 20 bs @ drop 20 bs"
    using append_take_drop_id [of 8 "drop 12 bs"] by (simp add: slice_def)
  also have "drop 20 bs = bs ! 20 # drop 21 bs" using len Cons_nth_drop_Suc [of 20 bs] by simp
  finally have "bs = concat (envelope (slice 9 12 bs) (slice 12 20 bs) rt (drop 21 bs))"
    by (simp add: envelope_def pid ver recordTypeOf_byte [OF rt])
  then show ?thesis
    using build_from_parts(1) [OF icao_roundtrip_back [OF icao] timestamp_roundtrip_back [OF ts],
        of rt "drop 21 bs"] by (simp add: p ver)
qed

theorem parse_is_exact_witness:
  "\<exists>p. parseOpReturnPayload (PROTOCOL_ID_BYTES @ [1, 0xab, 0xcd, 0xef, 232, 3, 0, 0, 0, 0, 0, 0, 2, 7])
         = Inr p
     \<and> buildOpReturnPayload (pp_icao p) (Some (real (pp_timestamp p))) (pp_recordType p) (pp_payload p)
         = Inr (PROTOCOL_ID_BYTES @ [1, 0xab, 0xcd, 0xef, 232, 3, 0, 0, 0, 0, 0, 0, 2, 7])"
proof -
  let ?bs = "PROTOCOL_ID_BYTES @ [1, 0xab, 0xcd, 0xef, 232, 3, 0, 0, 0, 0, 0, 0, 2, 7] :: byte list"
  have ts: "unat (fromLe [232, 3, 0, 0, 0, 0, 0, 0] :: 64 word) = 1000" by simp
  obtain p where "parseOpReturnPayload ?bs = Inr p"
    by (simp add: parseOpReturnPayload_def PROTOCOL_ID_BYTES_def PROTOCOL_VERSION_def slice_def
        decodeIcaoHex_def decodeTimestamp_def ts MAX_SAFE_INTEGER_def recordTypeOf_def
        del: fromLe.simps)
  with parse_is_exact [OF this] show ?thesis by auto
qed


lemma PROTOCOL_length: "length PROTOCOL_ID_BYTES = 8"
  by (simp add: PROTOCOL_ID_BYTES_def)

subsection \<open>The two readers of a script\<close>

lemma flatten_written:
  assumes "encodeIcaoHex icao = Inr a" and "encodeTimestamp ms = Inr b"
    and "payload \<noteq> []" and "length payload < 2 ^ 31"
  shows "flattenOpReturnScript ([0x00, 0x6a] @ concat (map rawPush (envelope a b rt payload)))
           = Some (Some (concat (envelope a b rt payload)))"
proof -
  let ?ds = "envelope a b rt payload"
  let ?s = "[0x00, 0x6a] @ concat (map rawPush ?ds)"
  have "flattenLoop ?s (int (length ([0x00, 0x6a] :: byte list))) [] = Some (Some ([] @ ?ds))"
    using flat.loop_written [of ?ds "[0x00, 0x6a]" "[]"] envelope_ok [OF assms] by blast
  moreover have "byteAt ?s 0 = Some 0" "byteAt ?s 1 = Some 0x6a" by (simp_all add: byteAt_def)
  ultimately show ?thesis
    by (simp add: flattenOpReturnScript_def) (simp add: envelope_def)
qed

lemma overlay_written:
  assumes "encodeIcaoHex icao = Inr a" and "encodeTimestamp ms = Inr b"
    and "payload \<noteq> []" and "length payload < 2 ^ 31"
  shows "findOpReturnPayload ([0x00, 0x6a] @ concat (map rawPush (envelope a b rt payload)))
           = Some (concat (envelope a b rt payload))"
proof -
  let ?ds = "envelope a b rt payload"
  let ?s = "[0x00, 0x6a] @ concat (map rawPush ?ds)"
  have "collectChunks ?s (length ([0x00, 0x6a] :: byte list)) [] = [] @ ?ds"
    using overlay.loop_written [of ?ds "[0x00, 0x6a]" "[]"] envelope_ok [OF assms] by blast
  then show ?thesis
    by (simp add: findOpReturnPayload_def) (simp add: envelope_def)
qed

text \<open>
  C10: the two readers agree on what the writer writes. For a non-empty payload below 2 GiB, the
  script of \<open>buildOpReturnScript\<close> is flattened by \<open>flattenOpReturnScript\<close>, and found by the
  overlay node, as the same bytes: those of \<open>buildOpReturnPayload\<close>; and the overlay node admits
  an output that carries it.
\<close>

theorem script_readers_agree:
  assumes "buildOpReturnScript icao ts rt payload = Inr script"
    and "payload \<noteq> []" and "length payload < 2 ^ 31"
  shows "\<exists>flat. buildOpReturnPayload icao ts rt payload = Inr flat
           \<and> flattenOpReturnScript script = Some (Some flat)
           \<and> findOpReturnPayload script = Some flat
           \<and> identifyAdmissibleOutputs [None, Some script] = [(1, flat)]"
proof -
  from script_parts [OF assms(1)] obtain a b
    where a: "encodeIcaoHex icao = Inr a" and b: "encodeTimestamp ts = Inr b" .
  let ?flat = "concat (envelope a b rt payload)"
  have s: "script = [0x00, 0x6a] @ concat (map rawPush (envelope a b rt payload))"
    using build_from_parts(2) [OF a b, of payload rt] assms by simp
  have find: "findOpReturnPayload script = Some ?flat"
    unfolding s by (rule overlay_written [OF a b assms(2,3)])
  have "hasSkycMagic ?flat"
    using envelope_fields(1,2) [OF built_lengths(1) [OF a] built_lengths(2) [OF b], of rt payload]
    using PROTOCOL_length by (simp add: hasSkycMagic_def)
  then have "identifyAdmissibleOutputs [None, Some script] = [(1, ?flat)]"
    by (simp add: identifyAdmissibleOutputs_def find enumerate_eq_zip List.map_filter_def)
  with find show ?thesis
    using build_from_parts(1) [OF a b, of rt payload] flatten_written [OF a b assms(2,3), of rt]
    by (simp add: s)
qed

theorem script_readers_agree_witness:
  "\<exists>script flat. buildOpReturnScript ''400F2A'' (Some 1000) FLIGHT_EVENT (replicate 300 7) = Inr script
     \<and> flattenOpReturnScript script = Some (Some flat) \<and> findOpReturnPayload script = Some flat"
proof -
  have "isIcaoHex ''400F2A''" by code_simp
  then obtain a b where "encodeIcaoHex ''400F2A'' = Inr a" "encodeTimestamp (Some 1000) = Inr b"
    by (auto simp: encodeIcaoHex_def encodeTimestamp_def)
  from build_from_parts(2) [OF this, of "replicate 300 7" FLIGHT_EVENT] obtain script where
    s: "buildOpReturnScript ''400F2A'' (Some 1000) FLIGHT_EVENT (replicate 300 7) = Inr script" by simp
  have "replicate 300 (7 :: byte) \<noteq> []" "length (replicate 300 (7 :: byte)) < 2 ^ 31" by simp_all
  from script_readers_agree [OF s this] obtain flat where
    "flattenOpReturnScript script = Some (Some flat)" "findOpReturnPayload script = Some flat"
    by blast
  with s show ?thesis by blast
qed

text \<open>A \<open>PUSHDATA4\<close> length of -5, read as a signed value, moves the index back to its opcode.\<close>

lemma negative_push:
  "flattenStep ([0x6a, 0x4e, 0xfb, 0xff, 0xff, 0xff] @ rest) 1 = Some ([], 1)"
  by (simp add: flattenStep_def byteAt_def int32At_def subarray_def slice_def)

lemma flattenLoop_diverges:
  assumes "flattenStep s i = Some (d, i)" and "i < int (length s)"
  shows "flattenLoop s i acc = None"
proof -
  have "\<not> (s' = s \<and> i' = i)" if "flattenLoop s' i' acc' = Some r" for s' i' acc' r
  proof (rule flattenLoop.raw_induct [OF _ that])
    fix f s' i' acc' r
    assume IH: "\<And>s' i' acc' r. f s' i' acc' = Some r \<Longrightarrow> \<not> (s' = s \<and> i' = i)"
      and step: "(if i' < int (length s') then
           case flattenStep s' i' of None \<Rightarrow> Some None
           | Some di \<Rightarrow> f s' (snd di) (acc' @ [fst di])
         else Some (Some acc')) = Some r"
    show "\<not> (s' = s \<and> i' = i)" using IH [of s i] step assms by auto
  qed
  then show ?thesis by (cases "flattenLoop s i acc") auto
qed

text \<open>
  C11: the decoder of \<open>flattenOpReturnScript\<close> does not end on every script. The length of an
  \<open>OP_PUSHDATA4\<close> is assembled with \<open>|\<close> and \<open><<\<close>, so it is a signed value; the length bytes
  \<open>fb ff ff ff\<close> are -5, pass the bounds check, and move the index back to the same opcode, for
  every continuation of the script. The overlay node reads the length unsigned and rejects the
  script.
\<close>

theorem flatten_can_diverge:
  "flattenOpReturnScript ([0x6a, 0x4e, 0xfb, 0xff, 0xff, 0xff] @ rest) = None
   \<and> findOpReturnPayload [0x6a, 0x4e, 0xfb, 0xff, 0xff, 0xff] = None"
proof
  let ?s = "[0x6a, 0x4e, 0xfb, 0xff, 0xff, 0xff] @ rest"
  have "flattenLoop ?s 1 [] = None"
    by (rule flattenLoop_diverges [OF negative_push]) simp
  then show "flattenOpReturnScript ?s = None"
    by (simp add: flattenOpReturnScript_def byteAt_def)
  show "findOpReturnPayload [0x6a, 0x4e, 0xfb, 0xff, 0xff, 0xff] = None"
    by (simp add: findOpReturnPayload_def collectChunks.simps [of _ "Suc 0"] readPush_def slice_def)
qed

end
