(* ===== verification/Task_Queue.thy ===== *)
theory Task_Queue
  imports Prelude
begin

text \<open>
  The bounded task queue of the writer: \<open>services/blockchain-writer/src/task-queue.ts\<close>.

  A task is opaque; starting it is recorded in \<open>started\<close> (a history variable), and its promise
  settling, fulfilled or rejected, is the event \<open>Settle\<close>. The options of the constructor are
  fields. \<open>drain\<close> only polls \<open>idle\<close>.
\<close>

record 'a BoundedTaskQueue =
  concurrency :: nat
  maxDepth :: nat
  pending :: "'a list"
  active :: nat
  dropped :: nat
  started :: "'a list"

definition newQueue :: "nat \<Rightarrow> nat \<Rightarrow> 'a BoundedTaskQueue" where
  "newQueue c d =
     \<lparr> concurrency = c, maxDepth = d, pending = [], active = 0, dropped = 0, started = [] \<rparr>"

function pump :: "'a BoundedTaskQueue \<Rightarrow> 'a BoundedTaskQueue" where
  "pump q =
     (if active q < concurrency q
      then (case pending q of
              [] \<Rightarrow> q
            | task # rest \<Rightarrow>
                pump (q\<lparr>pending := rest, active := active q + 1, started := started q @ [task]\<rparr>))
      else q)"
  by pat_completeness auto
termination by (relation "measure (\<lambda>q. length (pending q))") auto

declare pump.simps [simp del]

definition push :: "'a \<Rightarrow> 'a BoundedTaskQueue \<Rightarrow> bool \<times> 'a BoundedTaskQueue" where
  "push task q =
     (if length (pending q) \<ge> maxDepth q then (False, q\<lparr>dropped := dropped q + 1\<rparr>)
      else (True, pump (q\<lparr>pending := pending q @ [task]\<rparr>)))"

text \<open>The \<open>finally\<close> callback of a started task.\<close>

definition settle :: "'a BoundedTaskQueue \<Rightarrow> 'a BoundedTaskQueue" where
  "settle q = pump (q\<lparr>active := active q - 1\<rparr>)"

definition idle :: "'a BoundedTaskQueue \<Rightarrow> bool" where
  "idle q \<longleftrightarrow> active q = 0 \<and> pending q = []"

datatype 'a queue_event = Push 'a | Settle

text \<open>\<open>Settle\<close> can only happen while a task is in flight.\<close>

fun queueStep :: "'a queue_event \<Rightarrow> 'a BoundedTaskQueue \<Rightarrow> 'a BoundedTaskQueue" where
  "queueStep (Push t) q = snd (push t q)"
| "queueStep Settle q = (if active q = 0 then q else settle q)"

fun acceptedTasks :: "'a queue_event list \<Rightarrow> 'a BoundedTaskQueue \<Rightarrow> 'a list" where
  "acceptedTasks [] q = []"
| "acceptedTasks (Push t # es) q =
     (if fst (push t q) then [t] else []) @ acceptedTasks es (queueStep (Push t) q)"
| "acceptedTasks (Settle # es) q = acceptedTasks es (queueStep Settle q)"

subsection \<open>Invariant\<close>

definition queue_inv :: "'a BoundedTaskQueue \<Rightarrow> bool" where
  "queue_inv q \<longleftrightarrow>
     active q \<le> concurrency q \<and> length (pending q) \<le> maxDepth q
     \<and> (pending q = [] \<or> active q = concurrency q) \<and> active q \<le> length (started q)"

lemma pump_keeps:
  "concurrency (pump q) = concurrency q \<and> maxDepth (pump q) = maxDepth q
   \<and> dropped (pump q) = dropped q \<and> started (pump q) @ pending (pump q) = started q @ pending q
   \<and> active (pump q) + length (pending (pump q)) = active q + length (pending q)"
  by (induction q rule: pump.induct) (subst (1 2 3 4 5 6 7) pump.simps, auto split: list.split)

lemma pump_full:
  "active q \<le> concurrency q \<Longrightarrow>
     active (pump q) \<le> concurrency q
     \<and> (pending (pump q) = [] \<or> active (pump q) = concurrency q)"
  by (induction q rule: pump.induct) (subst (1 2 3) pump.simps, auto split: list.split)

lemma pump_pending: "length (pending (pump q)) \<le> length (pending q)"
  by (induction q rule: pump.induct) (subst pump.simps, auto split: list.split)

lemma pump_started:
  "active q \<le> length (started q) \<Longrightarrow> active (pump q) \<le> length (started (pump q))"
  by (induction q rule: pump.induct) (subst (1 2) pump.simps, auto split: list.split)

lemma queue_inv_pump:
  assumes "active q \<le> concurrency q" and "length (pending q) \<le> maxDepth q"
    and "active q \<le> length (started q)"
  shows "queue_inv (pump q)"
  using assms pump_keeps [of q] pump_full [of q] pump_pending [of q] pump_started [of q]
  by (auto simp: queue_inv_def)

lemma queue_inv_step:
  assumes "queue_inv q"
  shows "queue_inv (queueStep e q)"
proof (cases e)
  case (Push t)
  show ?thesis
  proof (cases "maxDepth q \<le> length (pending q)")
    case True
    then show ?thesis using assms by (simp add: Push push_def queue_inv_def)
  next
    case False
    have "queue_inv (pump (q\<lparr>pending := pending q @ [t]\<rparr>))"
      using assms False by (intro queue_inv_pump) (auto simp: queue_inv_def)
    then show ?thesis using False by (simp add: Push push_def)
  qed
next
  case Settle
  have "queue_inv (pump (q\<lparr>active := active q - 1\<rparr>))"
    using assms by (intro queue_inv_pump) (auto simp: queue_inv_def)
  then show ?thesis using assms by (simp add: Settle settle_def)
qed

lemma queue_step_keeps:
  "concurrency (queueStep e q) = concurrency q \<and> maxDepth (queueStep e q) = maxDepth q"
  by (cases e) (auto simp: push_def settle_def pump_keeps)

lemma queue_run:
  "queue_inv q \<Longrightarrow>
     queue_inv (fold queueStep es q)
     \<and> concurrency (fold queueStep es q) = concurrency q \<and> maxDepth (fold queueStep es q) = maxDepth q
     \<and> started (fold queueStep es q) @ pending (fold queueStep es q)
         = started q @ pending q @ acceptedTasks es q"
proof (induction es arbitrary: q)
  case (Cons e es)
  have "started (queueStep e q) @ pending (queueStep e q) @ acceptedTasks es (queueStep e q)
      = started q @ pending q @ acceptedTasks (e # es) q"
    using pump_keeps [of "q\<lparr>active := active q - 1\<rparr>"]
    by (cases e) (auto simp: push_def settle_def pump_keeps append_assoc [symmetric] simp del: append_assoc)
  with Cons.IH [OF queue_inv_step [OF Cons.prems]] queue_step_keeps [of e q] show ?case by simp
qed simp

lemma queue_inv_new: "queue_inv (newQueue c d)"
  by (simp add: queue_inv_def newQueue_def)

text \<open>
  C16: the queue is bounded and fair. After any sequence of pushes and settlements at most
  \<open>concurrency\<close> tasks are in flight and at most \<open>maxDepth\<close> wait; none waits while a slot is free;
  and the tasks started so far followed by the waiting ones are exactly the accepted tasks, in
  the order they were pushed: none is lost, run twice or overtaken.
\<close>

theorem queue_bounded_and_fifo:
  "let q = fold queueStep es (newQueue c d) in
     active q \<le> c \<and> length (pending q) \<le> d \<and> (pending q = [] \<or> active q = c)
     \<and> started q @ pending q = acceptedTasks es (newQueue c d)"
  using queue_run [OF queue_inv_new, of es c d]
  by (auto simp: Let_def queue_inv_def) (simp_all add: newQueue_def)

text \<open>A settlement with work waiting moves one task from the backlog into flight.\<close>

lemma settle_progress:
  assumes "queue_inv q" and "0 < active q"
  shows "active (queueStep Settle q) + length (pending (queueStep Settle q)) + 1
           = active q + length (pending q)"
  using assms pump_keeps [of "q\<lparr>active := active q - 1\<rparr>"] by (simp add: settle_def)

lemma settle_busy:
  assumes "queue_inv q" and "0 < concurrency q" and "0 < active q + length (pending q)"
  shows "0 < active q"
  using assms by (auto simp: queue_inv_def)

lemma drains:
  "\<lbrakk>queue_inv q; 0 < concurrency q; active q + length (pending q) \<le> n\<rbrakk> \<Longrightarrow>
     idle (fold queueStep (replicate n Settle) q)"
proof (induction n arbitrary: q)
  case (Suc n)
  show ?case
  proof (cases "0 < active q + length (pending q)")
    case True
    have p: "0 < active q" using settle_busy [OF Suc.prems(1,2) True] .
    have "idle (fold queueStep (replicate n Settle) (queueStep Settle q))"
      using Suc.prems settle_progress [OF Suc.prems(1) p] queue_step_keeps [of Settle q]
      by (intro Suc.IH queue_inv_step) simp_all
    then show ?thesis by simp
  next
    case False
    then have "queueStep Settle q = q" by simp
    with Suc.IH [of q] Suc.prems False show ?thesis by simp
  qed
qed (simp add: idle_def)

text \<open>
  Every accepted task runs. With at least one worker, once the tasks in flight and those
  started after them have settled (as many settlements as there are tasks in the queue), the
  queue is idle and has started exactly the accepted tasks, in order.
\<close>

lemma queue_drains:
  assumes "0 < c" and "q = fold queueStep es (newQueue c d)"
    and "active q + length (pending q) \<le> n"
  shows "idle (fold queueStep (replicate n Settle) q)
       \<and> started (fold queueStep (replicate n Settle) q) = acceptedTasks es (newQueue c d)"
proof -
  let ?q' = "fold queueStep (replicate n Settle) q"
  note run = queue_run [OF queue_inv_new, of es c d, folded assms(2)]
  have idle: "idle ?q'" using run assms(1,3) by (intro drains) (auto simp: newQueue_def)
  have "acceptedTasks (replicate n Settle) q = []" for q :: "'a BoundedTaskQueue"
    by (induction n arbitrary: q) simp_all
  then have "started ?q' @ pending ?q' = started q @ pending q"
    using queue_run [of q "replicate n Settle"] run by simp
  with idle run show ?thesis by (simp add: idle_def newQueue_def)
qed

lemma queue_drains_witness:
  "started (fold queueStep (replicate 3 Settle)
      (fold queueStep [Push 1, Push 2, Push 3, Push (4 :: nat)] (newQueue 1 2))) = [1, 2, 3]"
proof -
  define es where "es = [Push 1, Push 2, Push 3, Push (4 :: nat)]"
  have "active (fold queueStep es (newQueue 1 2)) + length (pending (fold queueStep es (newQueue 1 2))) \<le> 3"
    by (simp add: es_def push_def newQueue_def pump.simps)
  moreover have "acceptedTasks es (newQueue 1 2) = [1, 2, 3]"
    by (simp add: es_def push_def newQueue_def pump.simps)
  ultimately show ?thesis
    using queue_drains [where c = 1 and d = 2 and n = 3 and es = es, OF zero_less_one refl]
    by (simp only: es_def)
qed

end
