(* ===== verification/Merkle.thy ===== *)
theory Merkle
  imports Codec
begin

text \<open>
  Merkle trees and inclusion branches: \<open>services/blockchain-writer/src/block-merkle.ts\<close>, and
  \<open>computeTscRoot\<close> of \<open>confirmation-poller.ts\<close>.

  The source hashes \<open>number[]\<close>; an element is a \<open>jsbyte\<close>, \<open>None\<close> being \<open>NaN\<close>, as \<open>parseInt\<close>
  returns it. The double SHA-256 of the Bitcoin library is the parameter \<open>H\<close>; where a result
  needs it, the hypothesis \<open>hash32 H\<close> says that a digest is 32 bytes. The \<open>MerklePath\<close> class of
  the library, which \<open>branchToBumpHex\<close> calls, is a parameter as well. Soundness is stated as a
  reduction: what passes the check is in the block, or two inputs of \<open>H\<close> collide.
\<close>

type_synonym jsbyte = "int option"
type_synonym hash_fun = "jsbyte list \<Rightarrow> jsbyte list"

subsection \<open>Hexadecimal strings\<close>

text \<open>\<open>Number.parseInt\<close> with radix 16 on a string of two characters.\<close>

definition parseHex2 :: "char \<Rightarrow> char \<Rightarrow> jsbyte" where
  "parseHex2 a b =
     (case hexVal a of
        Some x \<Rightarrow>
          if x = 0 \<and> (b = CHR ''x'' \<or> b = CHR ''X'') then None
          else (case hexVal b of None \<Rightarrow> Some (int x) | Some y \<Rightarrow> Some (int (16 * x + y)))
      | None \<Rightarrow>
          if js_ws a \<or> a = CHR ''+'' then map_option int (hexVal b)
          else if a = CHR ''-'' then map_option (\<lambda>y. - int y) (hexVal b)
          else None)"

fun hexPairs :: "string \<Rightarrow> jsbyte list" where
  "hexPairs (a # b # s) = parseHex2 a b # hexPairs s"
| "hexPairs s = []"

text \<open>The loop reads pairs from the end; of an odd number of characters it ignores the first.\<close>

definition hexToLeBytes :: "string \<Rightarrow> jsbyte list" where
  "hexToLeBytes hex = rev (hexPairs (drop (length hex mod 2) hex))"

definition lowDigit :: "nat \<Rightarrow> char" where
  "lowDigit n = ''0123456789abcdef'' ! n"

fun natToHex :: "nat \<Rightarrow> string" where
  "natToHex n = (if n < 16 then [lowDigit n] else natToHex (n div 16) @ [lowDigit (n mod 16)])"

declare natToHex.simps [simp del]

text \<open>\<open>b.toString(16).padStart(2, "0")\<close>.\<close>

definition byteToHex :: "jsbyte \<Rightarrow> string" where
  "byteToHex b =
     (case b of None \<Rightarrow> ''NaN''
      | Some n \<Rightarrow> padStart 2 (CHR ''0'')
          (if n < 0 then CHR ''-'' # natToHex (nat (- n)) else natToHex (nat n)))"

definition leBytesToHex :: "jsbyte list \<Rightarrow> string" where
  "leBytesToHex bytes = concat (map byteToHex (rev bytes))"

definition isLowHex :: "char \<Rightarrow> bool" where
  "isLowHex c \<longleftrightarrow> c \<in> set ''0123456789abcdef''"

text \<open>\<open>TXID_PATTERN\<close>.\<close>

definition isTxid :: "string \<Rightarrow> bool" where
  "isTxid s \<longleftrightarrow> length s = 64 \<and> list_all isLowHex s"

subsection \<open>The tree of a block\<close>

fun nextLevel :: "hash_fun \<Rightarrow> jsbyte list list \<Rightarrow> jsbyte list list" where
  "nextLevel H (l # r # xs) = H (l @ r) # nextLevel H xs"
| "nextLevel H [l] = [H (l @ l)]"
| "nextLevel H [] = []"

lemma length_nextLevel: "length (nextLevel H xs) = (length xs + 1) div 2"
  by (induction H xs rule: nextLevel.induct) auto

function levelsFrom :: "hash_fun \<Rightarrow> jsbyte list list \<Rightarrow> jsbyte list list list" where
  "levelsFrom H level =
     (if length level > 1 then level # levelsFrom H (nextLevel H level) else [level])"
  by pat_completeness auto
termination by (relation "measure (\<lambda>(H, level). length level)") (auto simp: length_nextLevel)

declare levelsFrom.simps [simp del]

record BlockMerkleTree =
  root :: string
  index_of :: "string \<rightharpoonup> nat"
  tree_levels :: "jsbyte list list list"

text \<open>The map of positions: the first occurrence of an id wins.\<close>

fun firstIndex :: "string list \<Rightarrow> nat \<Rightarrow> (string \<rightharpoonup> nat)" where
  "firstIndex [] i = Map.empty"
| "firstIndex (t # ts) i = (firstIndex ts (i + 1))(t \<mapsto> i)"

definition normaliseTxid :: "string \<Rightarrow> string" where
  "normaliseTxid t = js_lower (js_trim t)"

definition buildBlockMerkleTree :: "hash_fun \<Rightarrow> string list \<Rightarrow> BlockMerkleTree option" where
  "buildBlockMerkleTree H txids =
     (if txids = [] \<or> \<not> list_all (\<lambda>t. isTxid (normaliseTxid t)) txids then None
      else let ids = map normaliseTxid txids;
               levels = levelsFrom H (map hexToLeBytes ids)
           in Some \<lparr> root = leBytesToHex (hd (List.last levels)),
                     index_of = firstIndex ids 0, tree_levels = levels \<rparr>)"

definition siblingIndex :: "nat \<Rightarrow> nat" where
  "siblingIndex position = (if even position then position + 1 else position - 1)"

definition branchNode :: "jsbyte list list \<Rightarrow> nat \<Rightarrow> string" where
  "branchNode current position =
     (if siblingIndex position \<ge> length current then ''*''
      else leBytesToHex (current ! siblingIndex position))"

text \<open>The loop of \<open>branchFor\<close>: every level but the last contributes a node.\<close>

fun branchLoop :: "jsbyte list list list \<Rightarrow> nat \<Rightarrow> string list" where
  "branchLoop (current # parents # levels) position =
     branchNode current position # branchLoop (parents # levels) (position div 2)"
| "branchLoop levels position = []"

definition branchFor :: "BlockMerkleTree \<Rightarrow> nat \<Rightarrow> string list" where
  "branchFor t index = branchLoop (tree_levels t) index"

subsection \<open>Walking a branch\<close>

fun tscWalk :: "hash_fun \<Rightarrow> jsbyte list \<Rightarrow> nat \<Rightarrow> string list \<Rightarrow> jsbyte list option" where
  "tscWalk H working position [] = Some working"
| "tscWalk H working position (node # nodes) =
     (let sibling = (if node = ''*'' then working else hexToLeBytes (js_lower node)) in
      if length sibling \<noteq> 32 \<or> length working \<noteq> 32 then None
      else tscWalk H (H (if even position then working @ sibling else sibling @ working))
             (position div 2) nodes)"

text \<open>\<open>index\<close> is a JavaScript number; \<open>None\<close> and fractions are refused.\<close>

definition computeTscRoot :: "hash_fun \<Rightarrow> string \<Rightarrow> jsnum \<Rightarrow> string list \<Rightarrow> string option" where
  "computeTscRoot H txid index nodes =
     (case index of None \<Rightarrow> None
      | Some x \<Rightarrow>
          if x < 0 \<or> of_int \<lfloor>x\<rfloor> \<noteq> x then None
          else map_option leBytesToHex
                 (tscWalk H (hexToLeBytes (js_lower txid)) (nat \<lfloor>x\<rfloor>) nodes))"

subsection \<open>Serialised branches\<close>

record path_leaf =
  leaf_offset :: nat
  leaf_hash :: "string option"
  leaf_txid :: bool
  leaf_duplicate :: bool

definition flipOffset :: "nat \<Rightarrow> nat" where
  "flipOffset n = (if even n then n + 1 else n - 1)"

definition pathLevel :: "string \<Rightarrow> nat \<Rightarrow> nat \<Rightarrow> string \<Rightarrow> path_leaf list" where
  "pathLevel txid index depth node =
     (let offset = index div 2 ^ depth;
          sibling = (if node = ''*''
            then \<lparr> leaf_offset = flipOffset offset, leaf_hash = None, leaf_txid = False, leaf_duplicate = True \<rparr>
            else \<lparr> leaf_offset = flipOffset offset, leaf_hash = Some node, leaf_txid = False, leaf_duplicate = False \<rparr>);
          self = \<lparr> leaf_offset = index, leaf_hash = Some (js_lower txid), leaf_txid = True, leaf_duplicate = False \<rparr>
      in if depth = 0 then (if even index then [self, sibling] else [sibling, self]) else [sibling])"

definition bumpPath :: "string \<Rightarrow> nat \<Rightarrow> string list \<Rightarrow> path_leaf list list" where
  "bumpPath txid index branch =
     map (\<lambda>depth. pathLevel txid index depth (branch ! depth)) [0..<length branch]"

text \<open>
  The library's class: \<open>coinbaseHex txid height\<close> is \<open>fromCoinbaseTxidAndHeight\<close> and \<open>toHex\<close>;
  \<open>rootAndHex height path txid\<close> the computed root and the hex form, \<open>None\<close> when the class throws.
\<close>

definition branchToBumpHex ::
  "(string \<Rightarrow> nat \<Rightarrow> string) \<Rightarrow> (nat \<Rightarrow> path_leaf list list \<Rightarrow> string \<Rightarrow> (string \<times> string) option)
     \<Rightarrow> nat \<Rightarrow> string \<Rightarrow> nat \<Rightarrow> string list \<Rightarrow> string \<Rightarrow> string option" where
  "branchToBumpHex coinbaseHex rootAndHex blockHeight txid index branch expectedRoot =
     (if branch = [] then Some (coinbaseHex (js_lower txid) blockHeight)
      else case rootAndHex blockHeight (bumpPath txid index branch) (js_lower txid) of
             None \<Rightarrow> None
           | Some (r, hex) \<Rightarrow> if r \<noteq> expectedRoot then None else Some hex)"


subsection \<open>Hexadecimal round trips\<close>

definition isByte :: "jsbyte \<Rightarrow> bool" where
  "isByte b \<longleftrightarrow> (\<exists>n. b = Some n \<and> 0 \<le> n \<and> n < 256)"

definition bytes32 :: "jsbyte list \<Rightarrow> bool" where
  "bytes32 bs \<longleftrightarrow> length bs = 32 \<and> list_all isByte bs"

definition hash32 :: "hash_fun \<Rightarrow> bool" where
  "hash32 H \<longleftrightarrow> (\<forall>x. bytes32 (H x))"

lemma of_char_lower:
  "of_char (lower_char c) =
     (let n = (of_char c :: nat) in if 65 \<le> n \<and> n \<le> 90 then n + 32 else n)"
  by (auto simp: lower_char_def Let_def)

lemma low_hex_cases: "isLowHex c \<Longrightarrow> \<exists>n < 16. c = lowDigit n"
proof -
  assume "isLowHex c"
  then obtain n where "n < length ''0123456789abcdef''" "c = ''0123456789abcdef'' ! n"
    unfolding isLowHex_def in_set_conv_nth by blast
  moreover have "length ''0123456789abcdef'' = 16" by simp
  ultimately show ?thesis unfolding lowDigit_def by metis
qed

lemma of_char_lowDigit: "n < 16 \<Longrightarrow> (of_char (lowDigit n) :: nat) = (if n < 10 then 48 + n else 87 + n)"
  by (drule less_16) (auto simp: lowDigit_def)

lemma hexVal_lowDigit: "n < 16 \<Longrightarrow> hexVal (lowDigit n) = Some n"
  by (simp add: hexVal_def Let_def of_char_lowDigit)

lemma lower_lowDigit: "n < 16 \<Longrightarrow> lower_char (lowDigit n) = lowDigit n"
proof -
  assume n: "n < 16"
  then have "(of_char (lower_char (lowDigit n)) :: nat) = of_char (lowDigit n)"
    by (simp add: of_char_lower of_char_lowDigit Let_def)
  then show ?thesis by simp
qed

lemma lowDigit_not_x: "n < 16 \<Longrightarrow> lowDigit n \<noteq> CHR ''x'' \<and> lowDigit n \<noteq> CHR ''X''"
proof -
  assume n: "n < 16"
  have "(of_char (lowDigit n) :: nat) \<noteq> of_char (CHR ''x'')" "(of_char (lowDigit n) :: nat) \<noteq> of_char (CHR ''X'')"
    using n by (auto simp: of_char_lowDigit)
  then show ?thesis by metis
qed

lemma parse_digits: "x < 16 \<Longrightarrow> y < 16 \<Longrightarrow>
    parseHex2 (lowDigit x) (lowDigit y) = Some (int (16 * x + y))"
  using lowDigit_not_x [of y] by (simp add: parseHex2_def hexVal_lowDigit)

lemma byteToHex_digits:
  assumes "0 \<le> n" and "n < 256"
  shows "byteToHex (Some n) = [lowDigit (nat n div 16), lowDigit (nat n mod 16)]"
proof (cases "nat n < 16")
  case True
  then have "natToHex (nat n) = [lowDigit (nat n)]" by (simp add: natToHex.simps)
  moreover have "CHR ''0'' = lowDigit 0" by (simp add: lowDigit_def)
  ultimately show ?thesis using True assms by (simp add: byteToHex_def padStart_def)
next
  case False
  have "nat n div 16 < 16" using assms by linarith
  with False have "natToHex (nat n) = [lowDigit (nat n div 16), lowDigit (nat n mod 16)]"
    by (simp add: natToHex.simps [of "nat n"] natToHex.simps [of "nat n div 16"])
  then show ?thesis using assms by (simp add: byteToHex_def padStart_def)
qed

lemma isByteE:
  assumes "isByte b"
  obtains x y where "x < 16" and "y < 16" and "b = Some (int (16 * x + y))"
    and "byteToHex b = [lowDigit x, lowDigit y]"
proof -
  from assms obtain n where n: "b = Some n" "0 \<le> n" "n < 256" by (auto simp: isByte_def)
  have "nat n div 16 < 16" "nat n mod 16 < 16" using n by linarith+
  moreover have "int (16 * (nat n div 16) + nat n mod 16) = n"
    using n(2) by (simp only: mult_div_mod_eq nat_0_le)
  ultimately show ?thesis
    using that byteToHex_digits [OF n(2,3)] n(1) by metis
qed

lemma hexPairs_bytes:
  "list_all isByte bs \<Longrightarrow> hexPairs (js_lower (concat (map byteToHex bs))) = bs"
proof (induction bs)
  case (Cons b bs)
  then obtain x y where xy: "x < 16" "y < 16" "b = Some (int (16 * x + y))"
    "byteToHex b = [lowDigit x, lowDigit y]" by (auto elim: isByteE)
  with Cons show ?case by (simp add: js_lower_def lower_lowDigit parse_digits)
qed (simp add: js_lower_def)

lemma length_hex_bytes: "list_all isByte bs \<Longrightarrow> length (concat (map byteToHex bs)) = 2 * length bs"
  by (induction bs) (auto elim: isByteE)

lemma length_leBytesToHex: "list_all isByte bs \<Longrightarrow> length (leBytesToHex bs) = 2 * length bs"
  using length_hex_bytes [of "rev bs"] by (simp add: leBytesToHex_def list_all_iff)

text \<open>Bytes survive the trip through their display form, also when it is lower-cased again.\<close>

lemma hexToLeBytes_hex:
  assumes "list_all isByte bs"
  shows "hexToLeBytes (js_lower (leBytesToHex bs)) = bs"
proof -
  have r: "list_all isByte (rev bs)" using assms by (simp add: list_all_iff)
  have "length (js_lower (leBytesToHex bs)) mod 2 = 0"
    using length_leBytesToHex [OF assms] by (simp add: js_lower_def)
  then show ?thesis
    using hexPairs_bytes [OF r] by (simp add: hexToLeBytes_def leBytesToHex_def)
qed

lemma leBytesToHex_inject:
  "list_all isByte xs \<Longrightarrow> list_all isByte ys \<Longrightarrow> leBytesToHex xs = leBytesToHex ys \<Longrightarrow> xs = ys"
  by (metis hexToLeBytes_hex)

lemma hexPairs_txid:
  "list_all isLowHex s \<Longrightarrow> even (length s) \<Longrightarrow>
     list_all isByte (hexPairs s) \<and> length (hexPairs s) = length s div 2
     \<and> concat (map byteToHex (hexPairs s)) = s"
proof (induction s rule: hexPairs.induct)
  case (1 a b s)
  then obtain x y where xy: "x < 16" "a = lowDigit x" "y < 16" "b = lowDigit y"
    by (auto dest!: low_hex_cases)
  have p: "parseHex2 a b = Some (int (16 * x + y))" by (simp add: xy parse_digits)
  have n: "nat (int (16 * x + y)) div 16 = x" "nat (int (16 * x + y)) mod 16 = y"
    "16 * x + y < 256" using xy by (simp_all only: nat_int) auto
  have "byteToHex (Some (int (16 * x + y))) = [a, b]"
    using byteToHex_digits [of "int (16 * x + y)"] n by (simp only: xy(2,4))
  moreover have "isByte (Some (int (16 * x + y)))" using n(3) by (auto simp: isByte_def)
  ultimately have "byteToHex (parseHex2 a b) = [a, b]" "isByte (parseHex2 a b)"
    by (simp_all only: p)
  with 1 show ?case by simp
qed simp_all

lemma txid_bytes:
  assumes "isTxid s"
  shows "bytes32 (hexToLeBytes s)" and "leBytesToHex (hexToLeBytes s) = s"
  using assms hexPairs_txid [of s]
  by (simp_all add: isTxid_def bytes32_def hexToLeBytes_def leBytesToHex_def list_all_iff)

lemma txid_inject: "isTxid s \<Longrightarrow> isTxid t \<Longrightarrow> hexToLeBytes s = hexToLeBytes t \<Longrightarrow> s = t"
  by (metis txid_bytes(2))

lemma txid_lower: "isTxid s \<Longrightarrow> js_lower s = s"
  by (force simp: isTxid_def js_lower_def list_all_iff map_idI dest: low_hex_cases lower_lowDigit
      intro: map_idI)

subsection \<open>Levels and branches\<close>

lemma levelsFrom_not_empty [simp]: "levelsFrom H level \<noteq> []"
  by (simp add: levelsFrom.simps [of H level])

lemma levelsFrom_hd [simp]: "hd (levelsFrom H level) = level"
  by (simp add: levelsFrom.simps [of H level])

lemma levelsFrom_big:
  "length level > 1 \<Longrightarrow> levelsFrom H level = level # levelsFrom H (nextLevel H level)"
  by (simp add: levelsFrom.simps [of H level])

lemma levelsFrom_top:
  "level \<noteq> [] \<Longrightarrow> \<exists>r. List.last (levelsFrom H level) = [r] \<and> (length level = 1 \<longrightarrow> level = [r])"
proof (induction H level rule: levelsFrom.induct)
  case (1 H level)
  show ?case
  proof (cases "length level > 1")
    case True
    then have "nextLevel H level \<noteq> []" using length_nextLevel [of H level] by auto
    with 1 True show ?thesis by (auto simp: levelsFrom_big)
  next
    case False
    with 1 obtain a where "level = [a]" by (cases level) auto
    then show ?thesis by (simp add: levelsFrom.simps [of H "[a]"])
  qed
qed

lemma branchLoop_big:
  "length level > 1 \<Longrightarrow> branchLoop (levelsFrom H level) i =
     branchNode level i # branchLoop (levelsFrom H (nextLevel H level)) (i div 2)"
  by (cases "levelsFrom H (nextLevel H level)") (auto simp: levelsFrom_big)

lemma branchLoop_small: "length level \<le> 1 \<Longrightarrow> branchLoop (levelsFrom H level) i = []"
  by (simp add: levelsFrom.simps [of H level])

text \<open>The node of a level's successor is the digest of the pair the position belongs to.\<close>

lemma nextLevel_nth:
  "i < length level \<Longrightarrow> nextLevel H level ! (i div 2) =
     H (if even i then level ! i @ (if i + 1 < length level then level ! (i + 1) else level ! i)
        else level ! (i - 1) @ level ! i)"
proof (induction H level arbitrary: i rule: nextLevel.induct)
  case (1 H l r xs)
  show ?case
  proof (cases "i < 2")
    case True
    then have "i = 0 \<or> i = 1" by auto
    then show ?thesis by auto
  next
    case False
    then obtain j where i: "i = Suc (Suc j)" by (metis add_2_eq_Suc le_Suc_ex not_less)
    with 1 have "nextLevel H xs ! (j div 2) =
        H (if even j then xs ! j @ (if j + 1 < length xs then xs ! (j + 1) else xs ! j)
           else xs ! (j - 1) @ xs ! j)" by simp
    then show ?thesis using i by (cases j) auto
  qed
qed auto

lemma nextLevel_hash: "x \<in> set (nextLevel H level) \<Longrightarrow> \<exists>l \<in> set level. \<exists>r \<in> set level. x = H (l @ r)"
  by (induction H level rule: nextLevel.induct) auto

lemma nextLevel_bytes: "hash32 H \<Longrightarrow> list_all bytes32 (nextLevel H level)"
  using nextLevel_hash by (fastforce simp: list_all_iff hash32_def)

lemma leBytesToHex_not_star: "bytes32 bs \<Longrightarrow> leBytesToHex bs \<noteq> ''*''"
  using length_leBytesToHex [of bs] by (auto simp: bytes32_def)

lemma branchNode_sibling:
  assumes "list_all bytes32 level" and "i < length level"
  shows "(if branchNode level i = ''*'' then level ! i else hexToLeBytes (js_lower (branchNode level i)))
     = (if even i then (if i + 1 < length level then level ! (i + 1) else level ! i) else level ! (i - 1))"
proof (cases "siblingIndex i < length level")
  case True
  then have "bytes32 (level ! siblingIndex i)" using assms(1) by (simp add: list_all_length)
  then show ?thesis
    using True leBytesToHex_not_star hexToLeBytes_hex
    by (auto simp: branchNode_def siblingIndex_def bytes32_def split: if_splits)
next
  case False
  then show ?thesis using assms(2) by (auto simp: branchNode_def siblingIndex_def split: if_splits)
qed

lemma walk_branch:
  "hash32 H \<Longrightarrow> list_all bytes32 level \<Longrightarrow> i < length level \<Longrightarrow>
     tscWalk H (level ! i) i (branchLoop (levelsFrom H level) i) = Some (hd (List.last (levelsFrom H level)))"
proof (induction H level arbitrary: i rule: levelsFrom.induct)
  case (1 H level)
  show ?case
  proof (cases "length level > 1")
    case False
    then obtain r where "level = [r]" using 1(4) by (cases level) auto
    with 1(4) show ?thesis by (simp add: levelsFrom.simps [of H "[r]"])
  next
    case True
    let ?sib = "if even i then (if i + 1 < length level then level ! (i + 1) else level ! i) else level ! (i - 1)"
    have b: "bytes32 (level ! i)" "bytes32 ?sib" using 1(3,4) by (auto simp: list_all_length)
    have next_i: "i div 2 < length (nextLevel H level)" using 1(4) by (simp add: length_nextLevel)
    have "H (if even i then level ! i @ ?sib else ?sib @ level ! i) = nextLevel H level ! (i div 2)"
      by (simp add: nextLevel_nth [OF 1(4)])
    then have "tscWalk H (level ! i) i (branchNode level i # ns)
        = tscWalk H (nextLevel H level ! (i div 2)) (i div 2) ns" for ns
      using b branchNode_sibling [OF 1(3,4)] by (simp add: bytes32_def Let_def)
    moreover have "List.last (levelsFrom H level) = List.last (levelsFrom H (nextLevel H level))"
      by (simp add: levelsFrom_big [OF True])
    ultimately show ?thesis
      using 1(1) [OF True 1(2) nextLevel_bytes [OF 1(2)] next_i] by (simp only: branchLoop_big [OF True])
  qed
qed

text \<open>The inputs the hash is applied to: in building a level, in building the tree, and in
walking a branch.\<close>

fun pairInputs :: "jsbyte list list \<Rightarrow> jsbyte list list" where
  "pairInputs (l # r # xs) = (l @ r) # pairInputs xs"
| "pairInputs [l] = [l @ l]"
| "pairInputs [] = []"

definition treeInputs :: "jsbyte list list list \<Rightarrow> jsbyte list list" where
  "treeInputs levels = concat (map pairInputs (butlast levels))"

fun walkInputs :: "hash_fun \<Rightarrow> jsbyte list \<Rightarrow> nat \<Rightarrow> string list \<Rightarrow> jsbyte list list" where
  "walkInputs H working position [] = []"
| "walkInputs H working position (node # nodes) =
     (let sibling = (if node = ''*'' then working else hexToLeBytes (js_lower node));
          x = (if even position then working @ sibling else sibling @ working)
      in x # walkInputs H (H x) (position div 2) nodes)"

lemma nextLevel_inputs: "nextLevel H level = map H (pairInputs level)"
  by (induction H level rule: nextLevel.induct) auto

lemma pairInputs_parts: "x \<in> set (pairInputs level) \<Longrightarrow> \<exists>l \<in> set level. \<exists>r \<in> set level. x = l @ r"
  by (induction level rule: pairInputs.induct) auto

lemma treeInputs_big:
  "length level > 1 \<Longrightarrow> treeInputs (levelsFrom H level)
     = pairInputs level @ treeInputs (levelsFrom H (nextLevel H level))"
  by (simp add: treeInputs_def levelsFrom_big)

text \<open>A start that reaches the top of the tree is a node of the level, when the hash does not
collide on the inputs of the tree and of the walk.\<close>

lemma walk_sound:
  "\<lbrakk>hash32 H; list_all bytes32 level; level \<noteq> []; length w = 32;
    inj_on H (set (treeInputs (levelsFrom H level)) \<union> set (walkInputs H w i nodes));
    length nodes + 1 = length (levelsFrom H level);
    tscWalk H w i nodes = Some (hd (List.last (levelsFrom H level)))\<rbrakk>
   \<Longrightarrow> w \<in> set level"
proof (induction H level arbitrary: w i nodes rule: levelsFrom.induct)
  case (1 H level)
  show ?case
  proof (cases "length level > 1")
    case False
    with 1(4) obtain a where "level = [a]" by (cases level) auto
    with 1(7,8) show ?thesis by (simp add: levelsFrom.simps [of H "[a]"])
  next
    case True
    with 1(7) obtain node ns where nodes: "nodes = node # ns" by (cases nodes) (auto simp: levelsFrom_big)
    define s where "s = (if node = ''*'' then w else hexToLeBytes (js_lower node))"
    define x where "x = (if even i then w @ s else s @ w)"
    have len: "length s = 32" and walk: "tscWalk H (H x) (i div 2) ns = Some (hd (List.last (levelsFrom H level)))"
      using 1(8) by (auto simp: nodes s_def x_def Let_def split: if_splits)
    have inputs: "walkInputs H w i nodes = x # walkInputs H (H x) (i div 2) ns"
      by (simp add: nodes s_def x_def Let_def)
    have ne: "nextLevel H level \<noteq> []" using True length_nextLevel [of H level] by auto
    have inj: "inj_on H (set (treeInputs (levelsFrom H (nextLevel H level)))
        \<union> set (walkInputs H (H x) (i div 2) ns))"
      using 1(6) by (rule inj_on_subset) (auto simp: inputs treeInputs_big [OF True])
    have hx: "length (H x) = 32" using 1(2) by (simp add: hash32_def bytes32_def)
    have ln: "length ns + 1 = length (levelsFrom H (nextLevel H level))"
      using 1(7) by (simp add: nodes levelsFrom_big [OF True])
    have top: "tscWalk H (H x) (i div 2) ns = Some (hd (List.last (levelsFrom H (nextLevel H level))))"
      using walk by (simp add: levelsFrom_big [OF True])
    have "H x \<in> set (nextLevel H level)"
      by (rule 1(1) [OF True 1(2) nextLevel_bytes [OF 1(2)] ne hx inj ln top])
    then obtain y where y: "y \<in> set (pairInputs level)" "H x = H y"
      by (auto simp: nextLevel_inputs)
    then have "x = y"
      by (intro inj_onD [OF 1(6) y(2)]) (simp_all add: inputs treeInputs_big [OF True])
    with y pairInputs_parts obtain l r where lr: "l \<in> set level" "r \<in> set level" "x = l @ r" by metis
    then have "length l = 32" "length r = 32" using 1(3) by (auto simp: list_all_iff bytes32_def)
    then show ?thesis using lr 1(5) len by (auto simp: x_def split: if_splits)
  qed
qed

lemma build_parts:
  assumes "buildBlockMerkleTree H txids = Some t"
  defines "leaves \<equiv> map (\<lambda>t. hexToLeBytes (normaliseTxid t)) txids"
  shows "txids \<noteq> []" and "\<forall>t \<in> set txids. isTxid (normaliseTxid t)"
    and "root t = leBytesToHex (hd (List.last (levelsFrom H leaves)))"
    and "tree_levels t = levelsFrom H leaves" and "list_all bytes32 leaves"
  using assms
  by (auto simp: buildBlockMerkleTree_def Let_def list_all_iff comp_def txid_bytes(1) split: if_splits)

lemma top_bytes:
  "\<lbrakk>hash32 H; level \<noteq> []; list_all bytes32 level\<rbrakk> \<Longrightarrow> bytes32 (hd (List.last (levelsFrom H level)))"
proof (induction H level rule: levelsFrom.induct)
  case (1 H level)
  show ?case
  proof (cases "length level > 1")
    case True
    then have "nextLevel H level \<noteq> []" using length_nextLevel [of H level] by auto
    then show ?thesis
      using 1(1) [OF True 1(2) _ nextLevel_bytes [OF 1(2)]] by (simp add: levelsFrom_big [OF True])
  next
    case False
    with 1(3) obtain a where "level = [a]" by (cases level) auto
    with 1(4) show ?thesis by (simp add: levelsFrom.simps [of H "[a]"])
  qed
qed

lemma walk_bytes:
  "hash32 H \<Longrightarrow> bytes32 w \<Longrightarrow> tscWalk H w i nodes = Some r \<Longrightarrow> bytes32 r"
proof (induction nodes arbitrary: w i)
  case (Cons node nodes)
  then show ?case
    using Cons.IH [of "H (if even i then w @ (if node = ''*'' then w else hexToLeBytes (js_lower node))
      else (if node = ''*'' then w else hexToLeBytes (js_lower node)) @ w)" "i div 2"]
    by (auto simp: Let_def hash32_def split: if_splits)
qed simp

lemma branchLoop_length: "length (branchLoop ls i) = length ls - 1"
  by (induction ls i rule: branchLoop.induct) auto

lemma computeTscRoot_int:
  "computeTscRoot H txid (Some (real i)) nodes =
     map_option leBytesToHex (tscWalk H (hexToLeBytes (js_lower txid)) i nodes)"
  by (simp add: computeTscRoot_def)

text \<open>
  Every branch of a block verifies. For every transaction of the list a Merkle tree was
  built from, walking the branch \<open>branchFor\<close> returns for its position, with \<open>computeTscRoot\<close>,
  gives the root of the tree; the odd levels, padded with \<open>*\<close>, included.
\<close>

lemma branches_verify:
  assumes "hash32 H" and "buildBlockMerkleTree H txids = Some t" and "i < length txids"
  shows "computeTscRoot H (normaliseTxid (txids ! i)) (Some (real i)) (branchFor t i) = Some (root t)"
proof -
  let ?leaves = "map (\<lambda>t. hexToLeBytes (normaliseTxid t)) txids"
  note b = build_parts [OF assms(2)]
  have "js_lower (normaliseTxid (txids ! i)) = normaliseTxid (txids ! i)"
    using b(2) assms(3) by (intro txid_lower) simp
  then show ?thesis
    using walk_branch [OF assms(1) b(5), of i] assms(3)
    by (simp add: computeTscRoot_int branchFor_def b(3,4))
qed

text \<open>
  C17: a branch proves membership. If a branch of the tree's height leads from a transaction id,
  at whatever position it claims, to the root of the tree, then the id is one of the block's
  transactions, provided the hash does not collide on the inputs that building the tree and
  walking the branch apply it to.
\<close>

theorem branch_proves_membership:
  assumes "hash32 H" and "buildBlockMerkleTree H txids = Some t" and "isTxid txid"
    and "length nodes = length (branchFor t 0)"
    and "computeTscRoot H txid (Some (real i)) nodes = Some (root t)"
    and "inj_on H (set (treeInputs (tree_levels t)) \<union> set (walkInputs H (hexToLeBytes txid) i nodes))"
  shows "txid \<in> set (map normaliseTxid txids)"
proof -
  let ?leaves = "map (\<lambda>t. hexToLeBytes (normaliseTxid t)) txids"
  note b = build_parts [OF assms(2)]
  have ne: "?leaves \<noteq> []" using b(1) by simp
  from assms(5) obtain r where walk: "tscWalk H (hexToLeBytes txid) i nodes = Some r"
    and r: "leBytesToHex r = root t"
    by (auto simp: computeTscRoot_int txid_lower [OF assms(3)])
  have "list_all isByte r"
    using walk_bytes [OF assms(1) txid_bytes(1) [OF assms(3)] walk] by (simp add: bytes32_def)
  then have "r = hd (List.last (levelsFrom H ?leaves))"
    using r top_bytes [OF assms(1) ne b(5)] leBytesToHex_inject by (simp add: b(3) bytes32_def)
  moreover have "length nodes + 1 = length (levelsFrom H ?leaves)"
    using assms(4) by (simp add: branchFor_def b(4) branchLoop_length)
  ultimately have "hexToLeBytes txid \<in> set ?leaves"
    using walk_sound [OF assms(1) b(5) ne, of "hexToLeBytes txid" i nodes] walk assms(6)
      txid_bytes(1) [OF assms(3)] by (simp add: bytes32_def b(4))
  then show ?thesis using b(2) assms(3) txid_inject by fastforce
qed

text \<open>A stand-in for the hash in examples: 32 bytes that depend on the input.\<close>

definition demoHash :: hash_fun where
  "demoHash x = replicate 32 (Some (int (length (filter (\<lambda>b. b = Some 1) x)) mod 256))"

definition demoId :: "char \<Rightarrow> string" where
  "demoId c = concat (replicate 32 [CHR ''0'', c])"

lemma hash32_demo: "hash32 demoHash"
  by (simp add: hash32_def bytes32_def demoHash_def isByte_def list_all_iff)

lemma demoId_ok: "isTxid (normaliseTxid (demoId (CHR ''1'')))" "isTxid (normaliseTxid (demoId (CHR ''2'')))"
  by code_simp+

lemma demo_built:
  obtains t where "buildBlockMerkleTree demoHash
      [demoId (CHR ''1''), demoId (CHR ''2''), demoId (CHR ''1'')] = Some t"
  using demoId_ok by (auto simp: buildBlockMerkleTree_def Let_def)

lemma branches_verify_witness:
  "\<exists>t. buildBlockMerkleTree demoHash [demoId (CHR ''1''), demoId (CHR ''2''), demoId (CHR ''1'')] = Some t
     \<and> computeTscRoot demoHash (normaliseTxid (demoId (CHR ''1''))) (Some (real 2)) (branchFor t 2) = Some (root t)"
proof -
  obtain t where t: "buildBlockMerkleTree demoHash
      [demoId (CHR ''1''), demoId (CHR ''2''), demoId (CHR ''1'')] = Some t" by (rule demo_built)
  from branches_verify [OF hash32_demo t, of 2] t show ?thesis by simp
qed

text \<open>A block of two transactions: its tree and the branch of the second apply the hash to the
same single input.\<close>

lemma two_leaves:
  assumes "bytes32 a" and "bytes32 b"
  shows "treeInputs (levelsFrom H [a, b]) = [a @ b]"
    and "walkInputs H b 1 (branchLoop (levelsFrom H [a, b]) 1) = [a @ b]"
proof -
  have top: "levelsFrom H [x] = [[x]]" for x by (simp add: levelsFrom.simps)
  show "treeInputs (levelsFrom H [a, b]) = [a @ b]"
    by (simp add: levelsFrom_big top treeInputs_def)
  have "branchNode [a, b] 1 = leBytesToHex a" by (simp add: branchNode_def siblingIndex_def)
  then show "walkInputs H b 1 (branchLoop (levelsFrom H [a, b]) 1) = [a @ b]"
    using leBytesToHex_not_star [OF assms(1)] hexToLeBytes_hex [of a] assms(1)
    by (simp add: levelsFrom_big top bytes32_def)
qed

theorem branch_proves_membership_witness:
  "normaliseTxid (demoId (CHR ''2'')) \<in>
     set (map normaliseTxid [demoId (CHR ''1''), demoId (CHR ''2'')])"
proof -
  obtain t where t: "buildBlockMerkleTree demoHash [demoId (CHR ''1''), demoId (CHR ''2'')] = Some t"
    using demoId_ok by (auto simp: buildBlockMerkleTree_def Let_def)
  define a where "a = hexToLeBytes (normaliseTxid (demoId (CHR ''1'')))"
  define b where "b = hexToLeBytes (normaliseTxid (demoId (CHR ''2'')))"
  have ab: "bytes32 a" "bytes32 b" unfolding a_def b_def by (rule txid_bytes(1) [OF demoId_ok(1)], rule txid_bytes(1) [OF demoId_ok(2)])
  have lv: "tree_levels t = levelsFrom demoHash [a, b]"
    and rt: "root t = leBytesToHex (hd (List.last (levelsFrom demoHash [a, b])))"
    using build_parts(3,4) [OF t] by (simp_all add: a_def b_def)
  have "tscWalk demoHash b 1 (branchLoop (levelsFrom demoHash [a, b]) 1)
      = Some (hd (List.last (levelsFrom demoHash [a, b])))"
    using walk_branch [OF hash32_demo, of "[a, b]" 1] ab by simp
  then have w: "computeTscRoot demoHash (normaliseTxid (demoId (CHR ''2''))) (Some (real 1)) (branchFor t 1) = Some (root t)"
    unfolding computeTscRoot_int branchFor_def lv rt txid_lower [OF demoId_ok(2)] b_def [symmetric] by simp
  have len: "length (branchFor t 1) = length (branchFor t 0)"
    by (simp add: branchFor_def branchLoop_length)
  have "inj_on demoHash (set (treeInputs (tree_levels t))
      \<union> set (walkInputs demoHash (hexToLeBytes (normaliseTxid (demoId (CHR ''2'')))) 1 (branchFor t 1)))"
    unfolding b_def [symmetric] branchFor_def lv two_leaves [OF ab] by simp
  from branch_proves_membership [OF hash32_demo t demoId_ok(2) len w this] show ?thesis .
qed

end
