(* ===== verification/Header_Store.thy ===== *)
theory Header_Store
  imports Merkle
begin

text \<open>
  Block headers and SPV proofs: \<open>services/blockchain-writer/src/header-store.ts\<close> and \<open>spv.ts\<close>.

  \<open>HeaderStore\<close> is the memo of the class with the two database tables it reads and writes: the
  headers by height, and the rows of \<open>tx_results\<close> the proofs are recorded in. The header source
  is the parameter \<open>woc\<close> (its answer per height, \<open>None\<close> for no answer or an error), the hash the
  parameter \<open>H\<close>, the parsed BUMP of the library the parameters \<open>fromHex\<close>, \<open>pathRoot\<close> (\<open>None\<close> when
  it throws) and \<open>pathHeight\<close>. Header numbers are integers; \<open>bits\<close> can be \<open>NaN\<close> (\<open>None\<close>). Metrics,
  log lines and database errors are not modelled.
\<close>

unbundle bit_operations_syntax

record BlockHeader =
  height :: int
  hash :: string
  prev_hash :: string
  merkle_root :: string
  time :: int
  bits :: "int option"
  nonce :: int
  version :: int

text \<open>The provider's object: an \<open>option\<close> is a field that may be missing or of another type.\<close>

record WocHeader =
  w_hash :: "string option"
  w_height :: "int option"
  w_version :: int
  w_merkleroot :: "string option"
  w_time :: int
  w_nonce :: int
  w_bits :: "string option"
  w_previousblockhash :: "string option"

datatype TxStatus = SEEN_ON_NETWORK | MINED | FAILED

record TxRow =
  status :: TxStatus
  block_height :: "int option"
  bump :: "string option"
  merkle_path :: "string option"
  spv_verified :: bool

record HeaderStore =
  memo :: "int \<rightharpoonup> BlockHeader"
  block_headers :: "int \<rightharpoonup> BlockHeader"
  tx_results :: "string \<rightharpoonup> TxRow"

subsection \<open>Proof of work\<close>

definition toUint32 :: "int option \<Rightarrow> 32 word" where
  "toUint32 x = (case x of None \<Rightarrow> 0 | Some n \<Rightarrow> word_of_int n)"

definition writeUInt32LE :: "32 word \<Rightarrow> jsbyte list" where
  "writeUInt32LE w = map (\<lambda>b. Some (uint b)) (toLe 4 w)"

definition serialiseHeader :: "BlockHeader \<Rightarrow> jsbyte list" where
  "serialiseHeader h =
     writeUInt32LE (toUint32 (Some (version h))) @ hexToLeBytes (prev_hash h)
     @ hexToLeBytes (merkle_root h) @ writeUInt32LE (toUint32 (Some (time h)))
     @ writeUInt32LE (toUint32 (bits h)) @ writeUInt32LE (toUint32 (Some (nonce h)))"

definition targetFromBits :: "int option \<Rightarrow> int" where
  "targetFromBits b =
     (let w = toUint32 b; exponent = unat (drop_bit 24 w); mantissa = uint (w AND 0x00ffffff) in
      if exponent \<le> 3 then drop_bit (8 * (3 - exponent)) mantissa
      else push_bit (8 * (exponent - 3)) mantissa)"

text \<open>\<open>BigInt(`0x$\<dots>`)\<close> of a string of hexadecimal digits.\<close>

definition hexToInt :: "string \<Rightarrow> int" where
  "hexToInt s = foldl (\<lambda>n c. 16 * n + int (the (hexVal c))) 0 s"

definition verifyProofOfWork :: "hash_fun \<Rightarrow> BlockHeader \<Rightarrow> bool" where
  "verifyProofOfWork H h =
     (let serialised = serialiseHeader h; digest = leBytesToHex (H serialised);
          target = targetFromBits (bits h)
      in length serialised = 80 \<and> digest = js_lower (hash h) \<and> target > 0
         \<and> hexToInt digest \<le> target)"

subsection \<open>Reading the provider's headers\<close>

fun hexPrefix :: "string \<Rightarrow> nat list" where
  "hexPrefix [] = []"
| "hexPrefix (c # s) = (case hexVal c of None \<Rightarrow> [] | Some x \<Rightarrow> x # hexPrefix s)"

text \<open>\<open>Number.parseInt(s, 16)\<close>: white space, a sign, a prefix \<open>0x\<close>, then the longest run of digits.\<close>

definition parseIntHex :: "string \<Rightarrow> int option" where
  "parseIntHex s0 =
     (let s1 = trim_left s0;
          neg = (take 1 s1 = ''-'');
          s2 = (if take 1 s1 = ''-'' \<or> take 1 s1 = ''+'' then drop 1 s1 else s1);
          s3 = (if take 2 s2 = ''0x'' \<or> take 2 s2 = ''0X'' then drop 2 s2 else s2);
          ds = hexPrefix s3;
          n = foldl (\<lambda>n d. 16 * n + int d) 0 ds
      in if ds = [] then None else Some (if neg then - n else n))"

definition toHeader :: "WocHeader \<Rightarrow> BlockHeader option" where
  "toHeader raw =
     (case (w_hash raw, w_merkleroot raw, w_bits raw, w_height raw) of
        (Some hs, Some mr, Some bs, Some ht) \<Rightarrow>
          if ht \<noteq> 0 \<and> w_previousblockhash raw = None then None
          else Some \<lparr> height = ht, hash = hs,
                 prev_hash = (case w_previousblockhash raw of None \<Rightarrow> replicate 64 (CHR ''0'') | Some p \<Rightarrow> p),
                 merkle_root = mr, time = w_time raw, bits = parseIntHex bs,
                 nonce = w_nonce raw, version = w_version raw \<rparr>
      | _ \<Rightarrow> None)"

subsection \<open>The store\<close>

definition store :: "BlockHeader \<Rightarrow> HeaderStore \<Rightarrow> HeaderStore" where
  "store x s =
     s\<lparr>block_headers := (block_headers s)(height x \<mapsto> x), memo := (memo s)(height x \<mapsto> x)\<rparr>"

definition fetchHeader :: "hash_fun \<Rightarrow> (int \<Rightarrow> WocHeader option) \<Rightarrow> int \<Rightarrow> BlockHeader option" where
  "fetchHeader H woc ht =
     (case woc ht of None \<Rightarrow> None
      | Some payload \<Rightarrow>
          (case toHeader payload of None \<Rightarrow> None
           | Some x \<Rightarrow> if verifyProofOfWork H x then Some x else None))"

definition getHeader ::
  "hash_fun \<Rightarrow> (int \<Rightarrow> WocHeader option) \<Rightarrow> int \<Rightarrow> HeaderStore \<Rightarrow> BlockHeader option \<times> HeaderStore" where
  "getHeader H woc ht s =
     (case memo s ht of
        Some x \<Rightarrow> (Some x, s)
      | None \<Rightarrow>
          (case block_headers s ht of
             Some x \<Rightarrow> (Some x, s\<lparr>memo := (memo s)(ht \<mapsto> x)\<rparr>)
           | None \<Rightarrow>
               (case fetchHeader H woc ht of
                  None \<Rightarrow> (None, s)
                | Some x \<Rightarrow> (Some x, store x s))))"

definition isValidRootForHeight ::
  "hash_fun \<Rightarrow> (int \<Rightarrow> WocHeader option) \<Rightarrow> string \<Rightarrow> int \<Rightarrow> HeaderStore \<Rightarrow> bool \<times> HeaderStore" where
  "isValidRootForHeight H woc r ht s =
     (let (hd1, s') = getHeader H woc ht s in
      (case hd1 of None \<Rightarrow> False | Some x \<Rightarrow> js_lower (merkle_root x) = js_lower r, s'))"

text \<open>The update of \<open>tx_results\<close> when the header of a height is replaced.\<close>

definition invalidate :: "int \<Rightarrow> TxRow \<Rightarrow> TxRow" where
  "invalidate ht row =
     (if block_height row = Some ht \<and> spv_verified row
      then row\<lparr>spv_verified := False, status := SEEN_ON_NETWORK\<rparr> else row)"

definition detectReorg :: "BlockHeader \<Rightarrow> HeaderStore \<Rightarrow> HeaderStore" where
  "detectReorg x s =
     (case block_headers s (height x) of
        None \<Rightarrow> s
      | Some e \<Rightarrow>
          if hash e = hash x then s
          else s\<lparr>block_headers := (block_headers s)(height x := None),
                 memo := (memo s)(height x := None),
                 tx_results := map_option (invalidate (height x)) \<circ> tx_results s\<rparr>)"

definition syncOne :: "hash_fun \<Rightarrow> BlockHeader \<Rightarrow> HeaderStore \<times> nat \<Rightarrow> HeaderStore \<times> nat" where
  "syncOne H x sn =
     (if \<not> verifyProofOfWork H x then sn
      else (store x (detectReorg x (fst sn)), snd sn + 1))"

definition syncTip :: "hash_fun \<Rightarrow> WocHeader list option \<Rightarrow> HeaderStore \<Rightarrow> HeaderStore \<times> nat" where
  "syncTip H payload s =
     (case payload of
        None \<Rightarrow> (s, 0)
      | Some raws \<Rightarrow> fold (syncOne H) (sort_key height (List.map_filter toHeader raws)) (s, 0))"

subsection \<open>Proofs\<close>

datatype ProofVerification =
  Verified int | Malformed | NotInPath | HeaderUnavailable int | RootMismatch int

definition verifyBump ::
  "hash_fun \<Rightarrow> (int \<Rightarrow> WocHeader option) \<Rightarrow> (string \<Rightarrow> 'p option) \<Rightarrow> ('p \<Rightarrow> string \<Rightarrow> string option)
     \<Rightarrow> ('p \<Rightarrow> int) \<Rightarrow> string \<Rightarrow> string \<Rightarrow> HeaderStore \<Rightarrow> ProofVerification \<times> HeaderStore" where
  "verifyBump H woc fromHex pathRoot pathHeight txid bumpHex s =
     (case fromHex bumpHex of
        None \<Rightarrow> (Malformed, s)
      | Some p \<Rightarrow>
          (case pathRoot p txid of
             None \<Rightarrow> (NotInPath, s)
           | Some r \<Rightarrow>
               (let (hd1, s') = getHeader H woc (pathHeight p) s in
                (case hd1 of
                   None \<Rightarrow> HeaderUnavailable (pathHeight p)
                 | Some x \<Rightarrow> if js_lower (merkle_root x) = js_lower r then Verified (pathHeight p)
                             else RootMismatch (pathHeight p), s'))))"

definition recordVerifiedProof :: "string \<Rightarrow> string \<Rightarrow> int \<Rightarrow> HeaderStore \<Rightarrow> HeaderStore" where
  "recordVerifiedProof txid bumpHex ht s =
     (case tx_results s txid of None \<Rightarrow> s
      | Some row \<Rightarrow> s\<lparr>tx_results := (tx_results s)(txid \<mapsto>
          row\<lparr>status := MINED, block_height := Some ht, bump := Some bumpHex,
              merkle_path := Some bumpHex, spv_verified := True\<rparr>)\<rparr>)"

text \<open>The batch only touches rows that are still unconfirmed; a chunk is one statement.\<close>

definition recordVerifiedProofsBatch :: "(string \<times> string \<times> int) list \<Rightarrow> HeaderStore \<Rightarrow> HeaderStore" where
  "recordVerifiedProofsBatch proofs s =
     fold (\<lambda>(txid, bumpHex, ht) s.
             case tx_results s txid of None \<Rightarrow> s
             | Some row \<Rightarrow> if status row = SEEN_ON_NETWORK then recordVerifiedProof txid bumpHex ht s else s)
       proofs s"

definition recordUnverifiedProof :: "string \<Rightarrow> string \<Rightarrow> int option \<Rightarrow> HeaderStore \<Rightarrow> HeaderStore" where
  "recordUnverifiedProof txid bumpHex ht s =
     (case tx_results s txid of None \<Rightarrow> s
      | Some row \<Rightarrow> s\<lparr>tx_results := (tx_results s)(txid \<mapsto>
          row\<lparr>bump := Some bumpHex, merkle_path := Some bumpHex, spv_verified := False,
              block_height := (case ht of None \<Rightarrow> block_height row | Some n \<Rightarrow> Some n)\<rparr>)\<rparr>)"


subsection \<open>The writer's use of the store\<close>

text \<open>The handler of a \<open>MINED\<close> callback that carries a proof (\<open>index.ts\<close>).\<close>

definition handleMined ::
  "hash_fun \<Rightarrow> (int \<Rightarrow> WocHeader option) \<Rightarrow> (string \<Rightarrow> 'p option) \<Rightarrow> ('p \<Rightarrow> string \<Rightarrow> string option)
     \<Rightarrow> ('p \<Rightarrow> int) \<Rightarrow> string \<Rightarrow> string \<Rightarrow> int option \<Rightarrow> HeaderStore \<Rightarrow> HeaderStore" where
  "handleMined H woc fromHex pathRoot pathHeight txid bumpHex payloadHeight s =
     (let (v, s') = verifyBump H woc fromHex pathRoot pathHeight txid bumpHex s in
      case v of
        Verified ht \<Rightarrow> recordVerifiedProof txid bumpHex ht s'
      | HeaderUnavailable ht \<Rightarrow> recordUnverifiedProof txid bumpHex (Some ht) s'
      | RootMismatch ht \<Rightarrow> recordUnverifiedProof txid bumpHex (Some ht) s'
      | _ \<Rightarrow> recordUnverifiedProof txid bumpHex payloadHeight s')"

datatype store_op =
  Get_header "int \<Rightarrow> WocHeader option" int
| Sync_tip "WocHeader list option"
| Mined "int \<Rightarrow> WocHeader option" string string "int option"

fun storeStep ::
  "hash_fun \<Rightarrow> (string \<Rightarrow> 'p option) \<Rightarrow> ('p \<Rightarrow> string \<Rightarrow> string option) \<Rightarrow> ('p \<Rightarrow> int)
     \<Rightarrow> store_op \<Rightarrow> HeaderStore \<Rightarrow> HeaderStore" where
  "storeStep H fromHex pathRoot pathHeight (Get_header woc ht) s = snd (getHeader H woc ht s)"
| "storeStep H fromHex pathRoot pathHeight (Sync_tip payload) s = fst (syncTip H payload s)"
| "storeStep H fromHex pathRoot pathHeight (Mined woc txid b ht) s =
     handleMined H woc fromHex pathRoot pathHeight txid b ht s"

subsection \<open>Only proved headers are held\<close>

definition store_inv :: "hash_fun \<Rightarrow> HeaderStore \<Rightarrow> bool" where
  "store_inv H s \<longleftrightarrow>
     (\<forall>ht x. block_headers s ht = Some x \<longrightarrow> verifyProofOfWork H x \<and> height x = ht)
     \<and> (\<forall>ht x. memo s ht = Some x \<longrightarrow> block_headers s ht = Some x)"

lemma store_inv_store: "store_inv H s \<Longrightarrow> verifyProofOfWork H x \<Longrightarrow> store_inv H (store x s)"
  by (simp add: store_inv_def store_def)

lemma store_inv_reorg: "store_inv H s \<Longrightarrow> store_inv H (detectReorg x s)"
  by (auto simp: store_inv_def detectReorg_def split: option.split)

lemma store_inv_rows: "store_inv H (s\<lparr>tx_results := r\<rparr>) = store_inv H s"
  by (simp add: store_inv_def)

lemma fetched: "fetchHeader H woc ht = Some x \<Longrightarrow>
    verifyProofOfWork H x \<and> (\<exists>raw. woc ht = Some raw \<and> toHeader raw = Some x)"
  by (auto simp: fetchHeader_def split: option.splits if_splits)

lemma store_inv_get: "store_inv H s \<Longrightarrow> store_inv H (snd (getHeader H woc ht s))"
  using fetched [of H woc ht]
  by (auto simp: getHeader_def store_inv_store split: option.split) (auto simp: store_inv_def)

text \<open>A fold over sorted headers, with an invariant of the store.\<close>

lemma syncTip_induct:
  assumes "P s"
    and "\<And>x s n. P s \<Longrightarrow> x \<in> set (List.map_filter toHeader raws) \<Longrightarrow> P (fst (syncOne H x (s, n)))"
  shows "P (fst (syncTip H (Some raws) s))"
proof -
  have "P (fst (fold (syncOne H) xs sn))" if "P (fst sn)" "set xs \<subseteq> set (List.map_filter toHeader raws)" for xs sn
    using that
  proof (induction xs arbitrary: sn)
    case (Cons x xs)
    then have "P (fst (syncOne H x sn))" using assms(2) [of "fst sn" x "snd sn"] by simp
    with Cons show ?case by simp
  qed simp
  from this [of "(s, 0)" "sort_key height (List.map_filter toHeader raws)"] assms(1)
  show ?thesis by (simp add: syncTip_def)
qed

lemma store_inv_sync: "store_inv H s \<Longrightarrow> store_inv H (fst (syncTip H payload s))"
proof (cases payload)
  case (Some raws)
  assume "store_inv H s"
  then show ?thesis
    unfolding Some
    by (rule syncTip_induct) (auto simp: syncOne_def intro: store_inv_store store_inv_reorg)
qed (simp add: syncTip_def)

lemma verifyBump_store:
  "snd (verifyBump H woc fromHex pathRoot pathHeight txid b s) = s \<or>
   (\<exists>p. fromHex b = Some p \<and>
      snd (verifyBump H woc fromHex pathRoot pathHeight txid b s) = snd (getHeader H woc (pathHeight p) s))"
  by (auto simp: verifyBump_def Let_def split: option.split prod.split)

lemma record_headers:
  "block_headers (recordVerifiedProof t b ht s) = block_headers s"
  "memo (recordVerifiedProof t b ht s) = memo s"
  "block_headers (recordUnverifiedProof t b h s) = block_headers s"
  "memo (recordUnverifiedProof t b h s) = memo s"
  by (simp_all add: recordVerifiedProof_def recordUnverifiedProof_def split: option.split)

lemma store_inv_headers:
  "block_headers s' = block_headers s \<Longrightarrow> memo s' = memo s \<Longrightarrow> store_inv H s' = store_inv H s"
  by (simp add: store_inv_def)

lemma store_inv_mined:
  "store_inv H s \<Longrightarrow> store_inv H (handleMined H woc fromHex pathRoot pathHeight txid b ht s)"
  using verifyBump_store [of H woc fromHex pathRoot pathHeight txid b s]
  by (auto simp: handleMined_def Let_def record_headers store_inv_get
      cong: store_inv_headers split: prod.split ProofVerification.split
      intro: store_inv_headers [THEN iffD2])

lemma store_inv_step: "store_inv H s \<Longrightarrow> store_inv H (storeStep H fromHex pathRoot pathHeight e s)"
  by (cases e) (simp_all add: store_inv_get store_inv_sync store_inv_mined)

lemma store_inv_run:
  "store_inv H s \<Longrightarrow> store_inv H (fold (storeStep H fromHex pathRoot pathHeight) es s)"
  by (induction es arbitrary: s) (simp_all add: store_inv_step)

definition emptyStore :: "(string \<rightharpoonup> TxRow) \<Rightarrow> HeaderStore" where
  "emptyStore rows = \<lparr> memo = Map.empty, block_headers = Map.empty, tx_results = rows \<rparr>"

lemma store_inv_empty: "store_inv H (emptyStore rows)"
  by (simp add: store_inv_def emptyStore_def)

text \<open>
  C18: only proved headers are held. Starting from an empty store, whatever the header source
  answers and whatever proofs arrive, every header the store holds has been checked to hash to
  its own hash, clears its own target and sits at its own height, and the memo never differs from
  the table.
\<close>

theorem headers_are_proved:
  assumes "s = fold (storeStep H fromHex pathRoot pathHeight) es (emptyStore rows)"
    and "block_headers s ht = Some x \<or> memo s ht = Some x"
  shows "verifyProofOfWork H x \<and> height x = ht \<and> block_headers s ht = Some x"
  using store_inv_run [OF store_inv_empty [of H rows], of fromHex pathRoot pathHeight es, folded assms(1)] assms(2)
  by (auto simp: store_inv_def)

subsection \<open>Recorded proofs match the held headers\<close>

text \<open>A header whose hashes are 64 hexadecimal digits, in either case.\<close>

definition wellFormed :: "BlockHeader \<Rightarrow> bool" where
  "wellFormed x \<longleftrightarrow> isTxid (js_lower (merkle_root x)) \<and> isTxid (js_lower (prev_hash x))"

lemma hexVal_lower: "hexVal (lower_char c) = hexVal c"
  by (auto simp: hexVal_def Let_def of_char_lower)

lemma js_ws_lower: "js_ws (lower_char c) = js_ws c"
  by (auto simp: js_ws_def Let_def of_char_lower)

lemma lower_char_eq: "(of_char d :: nat) < 65 \<Longrightarrow> (lower_char c = d) = (c = d)"
proof -
  assume d: "(of_char d :: nat) < 65"
  have "(of_char (lower_char c) :: nat) = of_char d \<longleftrightarrow> (of_char c :: nat) = of_char d"
    using d by (auto simp: of_char_lower Let_def)
  then show ?thesis by simp
qed

lemma lower_char_x: "lower_char c = CHR ''x'' \<longleftrightarrow> c = CHR ''x'' \<or> c = CHR ''X''"
proof -
  have "(of_char (lower_char c) :: nat) = 120 \<longleftrightarrow> (of_char c :: nat) = 120 \<or> (of_char c :: nat) = 88"
    by (auto simp: of_char_lower Let_def)
  moreover have "(of_char (CHR ''x'') :: nat) = 120" "(of_char (CHR ''X'') :: nat) = 88" by simp_all
  ultimately show ?thesis by (metis of_char_eq_iff)
qed

lemma lower_char_not_X: "lower_char c \<noteq> CHR ''X''"
proof
  assume "lower_char c = CHR ''X''"
  then have "(of_char (lower_char c) :: nat) = 88" by simp
  then show False by (auto simp: of_char_lower Let_def split: if_splits)
qed

lemma parseHex2_lower: "parseHex2 (lower_char a) (lower_char b) = parseHex2 a b"
  by (simp add: parseHex2_def hexVal_lower js_ws_lower lower_char_eq lower_char_x lower_char_not_X
      split: option.split)

lemma hexPairs_lower: "hexPairs (js_lower s) = hexPairs s"
  by (induction s rule: hexPairs.induct) (simp_all add: js_lower_def parseHex2_lower)

lemma hexToLeBytes_lower: "hexToLeBytes (js_lower s) = hexToLeBytes s"
  using hexPairs_lower [of "drop (length s mod 2) s"]
  by (simp add: hexToLeBytes_def js_lower_def drop_map)

text \<open>Two proved, well-formed headers with one hash have one Merkle root.\<close>

lemma same_hash_same_root:
  assumes "hash32 H" and "verifyProofOfWork H x" and "verifyProofOfWork H y"
    and "wellFormed x" and "wellFormed y" and "hash x = hash y"
    and "inj_on H {serialiseHeader x, serialiseHeader y}"
  shows "js_lower (merkle_root x) = js_lower (merkle_root y)"
proof -
  have "leBytesToHex (H (serialiseHeader x)) = leBytesToHex (H (serialiseHeader y))"
    using assms(2,3,6) by (simp add: verifyProofOfWork_def Let_def)
  then have "H (serialiseHeader x) = H (serialiseHeader y)"
    using assms(1) by (intro leBytesToHex_inject) (auto simp: hash32_def bytes32_def)
  then have "serialiseHeader x = serialiseHeader y" using assms(7) by (auto dest: inj_onD)
  moreover have "take 32 (drop 36 (serialiseHeader z)) = hexToLeBytes (merkle_root z)"
    if "wellFormed z" for z
  proof -
    have "length (hexToLeBytes (prev_hash z)) = 32" "length (hexToLeBytes (merkle_root z)) = 32"
      using that txid_bytes(1) [of "js_lower (prev_hash z)"] txid_bytes(1) [of "js_lower (merkle_root z)"]
      by (simp_all add: wellFormed_def bytes32_def hexToLeBytes_lower)
    then show ?thesis by (simp add: serialiseHeader_def writeUInt32LE_def)
  qed
  ultimately have "hexToLeBytes (merkle_root x) = hexToLeBytes (merkle_root y)"
    using assms(4,5) by metis
  then show ?thesis
    using assms(4,5) txid_inject by (metis hexToLeBytes_lower wellFormed_def)
qed

text \<open>Every row that is flagged as verified carries a proof of the height it names whose root
is the Merkle root of the header held at that height.\<close>

definition rows_sound ::
  "(string \<Rightarrow> 'p option) \<Rightarrow> ('p \<Rightarrow> string \<Rightarrow> string option) \<Rightarrow> ('p \<Rightarrow> int) \<Rightarrow> HeaderStore \<Rightarrow> bool" where
  "rows_sound fromHex pathRoot pathHeight s \<longleftrightarrow>
     (\<forall>t row. tx_results s t = Some row \<and> spv_verified row \<longrightarrow>
        (\<exists>b p r x. bump row = Some b \<and> fromHex b = Some p \<and> pathRoot p t = Some r
           \<and> block_height row = Some (pathHeight p) \<and> block_headers s (pathHeight p) = Some x
           \<and> js_lower (merkle_root x) = js_lower r))"

text \<open>What the header source is assumed to do: its headers belong to \<open>A\<close>, and it answers a
request for a height with a header of that height.\<close>

definition sourceIn :: "BlockHeader set \<Rightarrow> (int \<Rightarrow> WocHeader option) \<Rightarrow> bool" where
  "sourceIn A woc \<longleftrightarrow>
     (\<forall>ht raw x. woc ht = Some raw \<longrightarrow> toHeader raw = Some x \<longrightarrow> x \<in> A \<and> height x = ht)"

fun opIn :: "BlockHeader set \<Rightarrow> store_op \<Rightarrow> bool" where
  "opIn A (Get_header woc ht) = sourceIn A woc"
| "opIn A (Sync_tip payload) =
     (\<forall>raws. payload = Some raws \<longrightarrow> set (List.map_filter toHeader raws) \<subseteq> A)"
| "opIn A (Mined woc txid b ht) = sourceIn A woc"

definition rows_inv ::
  "hash_fun \<Rightarrow> (string \<Rightarrow> 'p option) \<Rightarrow> ('p \<Rightarrow> string \<Rightarrow> string option) \<Rightarrow> ('p \<Rightarrow> int)
     \<Rightarrow> BlockHeader set \<Rightarrow> HeaderStore \<Rightarrow> bool" where
  "rows_inv H fromHex pathRoot pathHeight A s \<longleftrightarrow>
     store_inv H s \<and> ran (block_headers s) \<subseteq> A \<and> rows_sound fromHex pathRoot pathHeight s"

lemma rows_inv_get:
  assumes "rows_inv H fromHex pathRoot pathHeight A s" and "sourceIn A woc"
  shows "rows_inv H fromHex pathRoot pathHeight A (snd (getHeader H woc ht s))
       \<and> (fst (getHeader H woc ht s) = Some x \<longrightarrow> block_headers (snd (getHeader H woc ht s)) ht = Some x)"
proof -
  note inv = store_inv_get [of H s woc ht]
  show ?thesis
  proof (cases "memo s ht = None \<and> block_headers s ht = None")
    case False
    then have "block_headers (snd (getHeader H woc ht s)) = block_headers s"
      "tx_results (snd (getHeader H woc ht s)) = tx_results s"
      "fst (getHeader H woc ht s) = Some x \<longrightarrow> block_headers s ht = Some x"
      using assms(1) by (auto simp: getHeader_def rows_inv_def store_inv_def split: option.split)
    then show ?thesis using assms(1) inv by (simp add: rows_inv_def rows_sound_def)
  next
    case none: True
    show ?thesis
    proof (cases "fetchHeader H woc ht")
      case None
      then show ?thesis using none assms(1) by (simp add: getHeader_def)
    next
      case (Some y)
      with fetched [OF this] assms(2) have y: "y \<in> A" "height y = ht" by (auto simp: sourceIn_def)
      have "rows_sound fromHex pathRoot pathHeight (store y s)"
        using assms(1) y(2) none unfolding rows_inv_def rows_sound_def store_def by fastforce
      moreover have "ran (block_headers (store y s)) \<subseteq> A"
        using assms(1) y by (auto simp: rows_inv_def store_def ran_def split: if_splits)
      ultimately show ?thesis
        using none Some inv assms(1) y(2) by (auto simp: getHeader_def rows_inv_def) (auto simp: store_def)
    qed
  qed
qed

lemma rows_inv_sync_one:
  assumes "hash32 H" and "\<forall>x \<in> A. wellFormed x" and "inj_on H (serialiseHeader ` A)"
    and "rows_inv H fromHex pathRoot pathHeight A s" and "x \<in> A"
  shows "rows_inv H fromHex pathRoot pathHeight A (fst (syncOne H x (s, n)))"
proof (cases "verifyProofOfWork H x")
  case True
  let ?s1 = "detectReorg x s"
  have si: "store_inv H s" and ra: "ran (block_headers s) \<subseteq> A"
    and rs: "rows_sound fromHex pathRoot pathHeight s" using assms(4) by (auto simp: rows_inv_def)
  have "rows_sound fromHex pathRoot pathHeight (store x ?s1)"
  proof (cases "block_headers s (height x)")
    case None
    then show ?thesis using rs unfolding rows_sound_def store_def detectReorg_def by fastforce
  next
    case (Some e)
    show ?thesis
    proof (cases "hash e = hash x")
      case False
      show ?thesis
        unfolding rows_sound_def
      proof (intro allI impI, elim conjE)
        fix t row
        assume row: "tx_results (store x ?s1) t = Some row" "spv_verified row"
        then obtain row0 where r0: "tx_results s t = Some row0" "row = invalidate (height x) row0"
          using Some False by (auto simp: detectReorg_def store_def)
        with row(2) have eq: "row = row0" "block_height row \<noteq> Some (height x)"
          by (auto simp: invalidate_def split: if_splits)
        then show "\<exists>b p r xa. bump row = Some b \<and> fromHex b = Some p \<and> pathRoot p t = Some r
            \<and> block_height row = Some (pathHeight p) \<and> block_headers (store x ?s1) (pathHeight p) = Some xa
            \<and> js_lower (merkle_root xa) = js_lower r"
          using rs r0(1) row(2) Some False unfolding rows_sound_def store_def detectReorg_def
          by fastforce
      qed
    next
      case True2: True
      have e: "e \<in> A" "verifyProofOfWork H e" using ra si Some by (auto simp: ran_def store_inv_def)
      have "inj_on H {serialiseHeader e, serialiseHeader x}"
        using assms(3) by (rule inj_on_subset) (use e(1) assms(5) in auto)
      then have "js_lower (merkle_root e) = js_lower (merkle_root x)"
        using same_hash_same_root [OF assms(1) e(2) True] assms(2,5) e(1) True2 by blast
      then show ?thesis using rs Some True2 unfolding rows_sound_def store_def detectReorg_def by fastforce
    qed
  qed
  moreover have "ran (block_headers (store x ?s1)) \<subseteq> A"
    using ra assms(5) by (auto simp: store_def detectReorg_def ran_def split: option.splits if_splits)
  ultimately show ?thesis
    using True store_inv_store [OF store_inv_reorg [OF si] True] by (simp add: syncOne_def rows_inv_def)
qed (use assms(4) in \<open>simp add: syncOne_def\<close>)

lemma rows_inv_sync:
  assumes "hash32 H" and "\<forall>x \<in> A. wellFormed x" and "inj_on H (serialiseHeader ` A)"
    and "rows_inv H fromHex pathRoot pathHeight A s" and "opIn A (Sync_tip payload)"
  shows "rows_inv H fromHex pathRoot pathHeight A (fst (syncTip H payload s))"
proof (cases payload)
  case None
  then show ?thesis using assms(4) by (simp add: syncTip_def)
next
  case (Some raws)
  have "rows_inv H fromHex pathRoot pathHeight A (fst (syncTip H (Some raws) s))"
  proof (rule syncTip_induct [where P = "rows_inv H fromHex pathRoot pathHeight A", OF assms(4)])
    fix x s' n
    assume "rows_inv H fromHex pathRoot pathHeight A s'" "x \<in> set (List.map_filter toHeader raws)"
    then show "rows_inv H fromHex pathRoot pathHeight A (fst (syncOne H x (s', n)))"
      using assms(5) Some by (intro rows_inv_sync_one [OF assms(1,2,3)]) auto
  qed
  then show ?thesis by (simp add: Some)
qed

lemma rows_sound_verified:
  assumes "rows_sound fromHex pathRoot pathHeight s" and "fromHex b = Some p"
    and "pathRoot p txid = Some r" and "block_headers s (pathHeight p) = Some x"
    and "js_lower (merkle_root x) = js_lower r"
  shows "rows_sound fromHex pathRoot pathHeight (recordVerifiedProof txid b (pathHeight p) s)"
  using assms unfolding rows_sound_def recordVerifiedProof_def by (auto split: option.splits)

lemma rows_sound_unverified:
  "rows_sound fromHex pathRoot pathHeight s \<Longrightarrow>
     rows_sound fromHex pathRoot pathHeight (recordUnverifiedProof txid b h s)"
  unfolding rows_sound_def recordUnverifiedProof_def by (auto split: option.splits)

lemma rows_inv_record:
  "rows_inv H fromHex pathRoot pathHeight A s \<Longrightarrow>
     rows_sound fromHex pathRoot pathHeight (recordVerifiedProof t b ht s) \<Longrightarrow>
     rows_inv H fromHex pathRoot pathHeight A (recordVerifiedProof t b ht s)"
  "rows_inv H fromHex pathRoot pathHeight A s \<Longrightarrow>
     rows_inv H fromHex pathRoot pathHeight A (recordUnverifiedProof t b h s)"
  by (auto simp: rows_inv_def record_headers rows_sound_unverified
      store_inv_headers [OF record_headers(1,2)] store_inv_headers [OF record_headers(3,4)])

lemma rows_inv_mined:
  assumes "rows_inv H fromHex pathRoot pathHeight A s" and "sourceIn A woc"
  shows "rows_inv H fromHex pathRoot pathHeight A
           (handleMined H woc fromHex pathRoot pathHeight txid b ht s)"
proof -
  let ?inv = "rows_inv H fromHex pathRoot pathHeight A"
  obtain v s' where v: "verifyBump H woc fromHex pathRoot pathHeight txid b s = (v, s')" by force
  have inv': "?inv s'"
    using verifyBump_store [of H woc fromHex pathRoot pathHeight txid b s] v assms
      rows_inv_get [OF assms] by auto
  show ?thesis
  proof (cases v)
    case (Verified h)
    then obtain p r x where p: "fromHex b = Some p" "pathRoot p txid = Some r" "h = pathHeight p"
      "getHeader H woc (pathHeight p) s = (Some x, s')" "js_lower (merkle_root x) = js_lower r"
      using v by (auto simp: verifyBump_def Let_def split: option.splits prod.splits if_splits)
    then have "block_headers s' (pathHeight p) = Some x"
      using rows_inv_get [OF assms, of "pathHeight p" x] by simp
    then have "rows_sound fromHex pathRoot pathHeight (recordVerifiedProof txid b h s')"
      unfolding p(3) using inv' p
      by (intro rows_sound_verified [where x = x and r = r]) (simp_all add: rows_inv_def)
    then show ?thesis using rows_inv_record(1) [OF inv'] by (simp add: handleMined_def v Verified)
  qed (simp_all add: handleMined_def v rows_inv_record(2) [OF inv'])
qed

lemma rows_inv_run:
  assumes "hash32 H" and "\<forall>x \<in> A. wellFormed x" and "inj_on H (serialiseHeader ` A)"
  shows "rows_inv H fromHex pathRoot pathHeight A s \<Longrightarrow> list_all (opIn A) es \<Longrightarrow>
    rows_inv H fromHex pathRoot pathHeight A (fold (storeStep H fromHex pathRoot pathHeight) es s)"
proof (induction es arbitrary: s)
  case (Cons e es)
  then have "rows_inv H fromHex pathRoot pathHeight A (storeStep H fromHex pathRoot pathHeight e s)"
    using rows_inv_get rows_inv_sync [OF assms] rows_inv_mined by (cases e) fastforce+
  with Cons show ?case by simp
qed simp


text \<open>An example: a header that passes, its source, and a block with one transaction.\<close>

definition zeroHash :: hash_fun where
  "zeroHash x = replicate 32 (Some 0)"

definition zeros :: string where "zeros = replicate 64 (CHR ''0'')"

definition demoHeader :: "int \<Rightarrow> BlockHeader" where
  "demoHeader ht = \<lparr> height = ht, hash = zeros, prev_hash = zeros, merkle_root = zeros, time = 0,
     bits = Some 0x1d00ffff, nonce = 0, version = 1 \<rparr>"

definition demoRaw :: "int \<Rightarrow> WocHeader" where
  "demoRaw ht = \<lparr> w_hash = Some zeros, w_height = Some ht, w_version = 1, w_merkleroot = Some zeros,
     w_time = 0, w_nonce = 0, w_bits = Some ''1d00ffff'', w_previousblockhash = Some zeros \<rparr>"

definition demoRow :: TxRow where
  "demoRow = \<lparr> status = SEEN_ON_NETWORK, block_height = None, bump = None, merkle_path = None, spv_verified = False \<rparr>"

lemma zeros_ok: "isTxid zeros" "js_lower zeros = zeros" "hexToInt zeros = 0"
  "leBytesToHex (replicate 32 (Some 0)) = zeros" "length (hexToLeBytes zeros) = 32"
  by code_simp+

lemma demo_target: "targetFromBits (Some 0x1d00ffff) > 0"
  by code_simp

lemma demo_bits: "parseIntHex ''1d00ffff'' = Some 0x1d00ffff"
  by code_simp

lemma demoHeader_proved: "verifyProofOfWork zeroHash (demoHeader ht)"
  using demo_target
  by (simp add: verifyProofOfWork_def demoHeader_def zeroHash_def zeros_ok serialiseHeader_def
      writeUInt32LE_def Let_def)

lemma demoRaw_header: "toHeader (demoRaw ht) = Some (demoHeader ht)"
  by (simp add: toHeader_def demoRaw_def demoHeader_def demo_bits)

theorem headers_are_proved_witness:
  "verifyProofOfWork zeroHash (demoHeader 7) \<and> height (demoHeader 7) = 7
   \<and> block_headers (fold (storeStep zeroHash (\<lambda>_. None :: unit option) (\<lambda>_ _. None) (\<lambda>_. 0))
       [Get_header (\<lambda>h. Some (demoRaw h)) 7] (emptyStore Map.empty)) 7 = Some (demoHeader 7)"
proof -
  let ?s = "fold (storeStep zeroHash (\<lambda>_. None :: unit option) (\<lambda>_ _. None) (\<lambda>_. 0))
       [Get_header (\<lambda>h. Some (demoRaw h)) 7] (emptyStore Map.empty)"
  have "memo ?s 7 = Some (demoHeader 7)"
    using demoHeader_proved [of 7]
    by (simp add: getHeader_def emptyStore_def fetchHeader_def demoRaw_header store_def demoHeader_def)
  then show ?thesis by (intro headers_are_proved [OF refl]) simp
qed


subsection \<open>What the checks do not cover\<close>

lemma leBytesToHex_digits:
  "list_all isByte bs \<Longrightarrow> c \<in> set (leBytesToHex bs) \<Longrightarrow> \<exists>n < 16. c = lowDigit n"
  by (auto simp: leBytesToHex_def list_all_iff elim!: isByteE dest!: bspec)

lemma hexToInt_bound:
  "\<forall>c \<in> set s. \<exists>n < 16. c = lowDigit n \<Longrightarrow> hexToInt s < 16 ^ length s"
proof (induction s rule: rev_induct)
  case (snoc c s)
  then obtain n where n: "n < 16" "c = lowDigit n" by auto
  then have "hexToInt (s @ [c]) = 16 * hexToInt s + int n" by (simp add: hexToInt_def hexVal_lowDigit)
  with snoc n(1) show ?case by simp
qed (simp add: hexToInt_def)

lemma leBytesToHex_lower: "list_all isByte bs \<Longrightarrow> js_lower (leBytesToHex bs) = leBytesToHex bs"
  using leBytesToHex_digits [of bs] lower_lowDigit unfolding js_lower_def
  by (intro map_idI) metis

text \<open>
  The difficulty is the header's own claim. Any well-formed header whose \<open>bits\<close> are set to
  an easy target and whose \<open>hash\<close> is set to the digest of its bytes passes
  \<open>verifyProofOfWork\<close>, whatever transactions its Merkle root commits to: no work is needed.
\<close>

lemma difficulty_is_self_declared:
  assumes "hash32 H" and "wellFormed x"
  shows "verifyProofOfWork H
    (x\<lparr>bits := Some 0x2200ffff, hash := leBytesToHex (H (serialiseHeader (x\<lparr>bits := Some 0x2200ffff\<rparr>)))\<rparr>)"
proof -
  let ?x = "x\<lparr>bits := Some 0x2200ffff, hash := leBytesToHex (H (serialiseHeader (x\<lparr>bits := Some 0x2200ffff\<rparr>)))\<rparr>"
  let ?d = "H (serialiseHeader (x\<lparr>bits := Some 0x2200ffff\<rparr>))"
  have ser: "serialiseHeader ?x = serialiseHeader (x\<lparr>bits := Some 0x2200ffff\<rparr>)"
    by (simp add: serialiseHeader_def)
  have d: "list_all isByte ?d" "length ?d = 32" using assms(1) by (simp_all add: hash32_def bytes32_def)
  have "hexToInt (leBytesToHex ?d) < 16 ^ length (leBytesToHex ?d)"
    using leBytesToHex_digits [OF d(1)] by (intro hexToInt_bound) blast
  moreover have "targetFromBits (Some 0x2200ffff) \<ge> 16 ^ 64" by code_simp
  ultimately have le: "hexToInt (leBytesToHex ?d) \<le> targetFromBits (Some 0x2200ffff)"
    using length_leBytesToHex [OF d(1)] d(2) by simp
  have pos: "targetFromBits (Some 0x2200ffff) > 0" by code_simp
  have "length (hexToLeBytes (prev_hash x)) = 32" "length (hexToLeBytes (merkle_root x)) = 32"
    using assms(2) txid_bytes(1) [of "js_lower (prev_hash x)"] txid_bytes(1) [of "js_lower (merkle_root x)"]
    by (simp_all add: wellFormed_def bytes32_def hexToLeBytes_lower)
  then have "length (serialiseHeader ?x) = 80" by (simp add: serialiseHeader_def writeUInt32LE_def)
  then show ?thesis
    using le pos leBytesToHex_lower [OF d(1)] by (simp add: verifyProofOfWork_def Let_def ser)
qed

lemma difficulty_is_self_declared_witness:
  "verifyProofOfWork demoHash
    ((demoHeader 9)\<lparr>bits := Some 0x2200ffff,
       hash := leBytesToHex (demoHash (serialiseHeader ((demoHeader 9)\<lparr>bits := Some 0x2200ffff\<rparr>)))\<rparr>)"
  by (rule difficulty_is_self_declared [OF hash32_demo])
     (simp add: wellFormed_def demoHeader_def zeros_ok)

definition ones :: string where "ones = replicate 64 (CHR ''1'')"

text \<open>
  A header for another height replaces silently. \<open>fetchHeader\<close> does not compare the height
  of the answer with the height asked for, and \<open>store\<close> writes under the former without the
  reorganisation check: after one read of a height the store does not hold, a source that
  answers with a different header of a held height leaves rows verified against a header that
  is no longer there.
\<close>

lemma misdirected_header_breaks_proofs:
  "let fh = (\<lambda>b. if b = ''00'' then Some () else None); pr = (\<lambda>_ _. Some zeros); ph = (\<lambda>_. 7 :: int);
       s = fold (storeStep zeroHash fh pr ph)
             [Mined (\<lambda>h. if h = 7 then Some (demoRaw 7) else None) ''t'' ''00'' None]
             (emptyStore [''t'' \<mapsto> demoRow]);
       s' = storeStep zeroHash fh pr ph
              (Get_header (\<lambda>_. Some ((demoRaw 7)\<lparr>w_merkleroot := Some ones\<rparr>)) 5) s
   in rows_sound fh pr ph s \<and> \<not> rows_sound fh pr ph s'"
proof -
  let ?fh = "\<lambda>b. if b = ''00'' then Some () else None" and ?pr = "\<lambda>_ _. Some zeros" and ?ph = "\<lambda>_. 7 :: int"
  define row where "row = demoRow\<lparr>status := MINED, block_height := Some 7, bump := Some ''00'',
    merkle_path := Some ''00'', spv_verified := True\<rparr>"
  define s where "s = \<lparr> memo = [7 \<mapsto> demoHeader 7], block_headers = [7 \<mapsto> demoHeader 7], tx_results = [''t'' \<mapsto> row] \<rparr>"
  define y where "y = (demoHeader 7)\<lparr>merkle_root := ones\<rparr>"
  have first: "fold (storeStep zeroHash ?fh ?pr ?ph)
      [Mined (\<lambda>h. if h = 7 then Some (demoRaw 7) else None) ''t'' ''00'' None]
      (emptyStore [''t'' \<mapsto> demoRow]) = s"
  proof -
    have "js_lower (merkle_root (demoHeader 7)) = zeros" "height (demoHeader 7) = 7"
      by (simp_all add: demoHeader_def zeros_ok)
    then show ?thesis
      using demoHeader_proved [of 7]
      by (simp add: handleMined_def verifyBump_def getHeader_def emptyStore_def fetchHeader_def
          demoRaw_header store_def recordVerifiedProof_def s_def row_def zeros_ok)
  qed
  have ones: "length (hexToLeBytes ones) = 32" "js_lower ones = ones" "ones \<noteq> zeros" by code_simp+
  have y: "toHeader ((demoRaw 7)\<lparr>w_merkleroot := Some ones\<rparr>) = Some y"
    using demoRaw_header [of 7] by (simp add: toHeader_def demoRaw_def y_def demoHeader_def demo_bits)
  have "verifyProofOfWork zeroHash y"
    using demo_target
    by (simp add: verifyProofOfWork_def y_def demoHeader_def zeroHash_def zeros_ok serialiseHeader_def
        writeUInt32LE_def Let_def ones)
  moreover have "height y = 7" by (simp add: y_def demoHeader_def)
  ultimately have second: "storeStep zeroHash ?fh ?pr ?ph
      (Get_header (\<lambda>_. Some ((demoRaw 7)\<lparr>w_merkleroot := Some ones\<rparr>)) 5) s
      = s\<lparr>block_headers := [7 \<mapsto> y], memo := [7 \<mapsto> y]\<rparr>"
    by (simp add: getHeader_def fetchHeader_def y store_def s_def)
  have "rows_sound ?fh ?pr ?ph s"
    by (simp add: rows_sound_def s_def row_def) (simp add: demoHeader_def zeros_ok)
  moreover have "\<not> rows_sound ?fh ?pr ?ph (s\<lparr>block_headers := [7 \<mapsto> y], memo := [7 \<mapsto> y]\<rparr>)"
    using ones by (simp add: rows_sound_def s_def row_def y_def zeros_ok)
  ultimately show ?thesis unfolding Let_def first second by blast
qed

end
