(* ===== verification/Network_Spent.thy ===== *)
theory Network_Spent
  imports Live_Path Merkle Write_Rate
begin

text \<open>
  Outpoints the network reports as spent:
  \<open>services/blockchain-writer/src/network-spent-outpoints.ts\<close>.

  \<open>NetworkSpentRegistry\<close> is the set of keys of the class together with the tables it writes. The
  flag \<open>dbOk\<close> of a call says whether its database statements succeed; when they do not, the call
  takes the \<open>catch\<close> branch. The pattern is matched case-insensitively; the model matches it on
  the lower-cased text, and the captured groups are lower-cased by the source anyway.
\<close>

record NetworkSpentOutpoint =
  nso_txid :: string
  nso_vout :: nat
  nso_spentBy :: string

definition spentLiteral :: string where
  "spentLiteral = '' utxo already spent by tx ''"

text \<open>\<open>SPENT_BY_PATTERN\<close> at the start of a text: the groups and what follows the match.\<close>

definition matchSpent :: "string \<Rightarrow> ((string \<times> string \<times> string) \<times> string) option" where
  "matchSpent s =
     (let p = take 64 s; s1 = drop 64 s; ds = takeWhile is_digit (drop 1 s1);
          s2 = drop (length ds) (drop 1 s1); s3 = drop (length spentLiteral) s2; q = take 64 s3
      in if isTxid p \<and> take 1 s1 = '':'' \<and> ds \<noteq> [] \<and> take (length spentLiteral) s2 = spentLiteral \<and> isTxid q
         then Some ((p, ds, q), drop 64 s3) else None)"

lemma matchSpent_shorter: "matchSpent s = Some (m, rest) \<Longrightarrow> length rest < length s"
  by (auto simp: matchSpent_def Let_def isTxid_def split: if_splits)

text \<open>\<open>matchAll\<close>: the leftmost match, then on from its end.\<close>

function matchAllSpent :: "string \<Rightarrow> (string \<times> string \<times> string) list" where
  "matchAllSpent s =
     (if s = [] then []
      else case matchSpent s of
             Some mr \<Rightarrow> fst mr # matchAllSpent (snd mr)
           | None \<Rightarrow> matchAllSpent (tl s))"
  by pat_completeness auto
termination by (relation "measure length") (auto dest: matchSpent_shorter)

declare matchAllSpent.simps [simp del]

definition decToNat :: "string \<Rightarrow> nat" where
  "decToNat ds = foldl (\<lambda>n c. 10 * n + (of_char c - 48)) 0 ds"

definition parseNetworkSpentOutpoints :: "string option \<Rightarrow> NetworkSpentOutpoint list" where
  "parseNetworkSpentOutpoints reason =
     (case reason of None \<Rightarrow> []
      | Some text \<Rightarrow>
          map snd (fold (\<lambda>(p, ds, q) found.
              let vout = decToNat ds in
              if vout > MAX_SAFE_INTEGER then found
              else AList.update (outpointKey p vout)
                     \<lparr> nso_txid = p, nso_vout = vout, nso_spentBy = q \<rparr> found)
            (matchAllSpent (js_lower text)) []))"

record NetworkSpentRegistry =
  keys :: "string set"
  table :: "(string \<times> nat) \<rightharpoonup> (string \<times> string)"
  utxo_pool :: "(string \<times> nat) set"
  funding_utxo_pool :: "(string \<times> nat) set"

definition load :: "bool \<Rightarrow> NetworkSpentRegistry \<Rightarrow> nat \<times> NetworkSpentRegistry" where
  "load dbOk r =
     (let r' = (if dbOk then r\<lparr>keys := keys r \<union> (\<lambda>(t, v). outpointKey (js_trim t) v) ` dom (table r)\<rparr> else r)
      in (card (keys r'), r'))"

definition hasOutpoint :: "string \<Rightarrow> nat \<Rightarrow> NetworkSpentRegistry \<Rightarrow> bool" where
  "hasOutpoint txid vout r \<longleftrightarrow> outpointKey (js_trim txid) vout \<in> keys r"

definition filterUtxos :: "(string \<times> nat) list \<Rightarrow> NetworkSpentRegistry \<Rightarrow> (string \<times> nat) list" where
  "filterUtxos utxos r =
     (if keys r = {} then utxos else filter (\<lambda>(t, v). \<not> hasOutpoint t v r) utxos)"

definition quarantine ::
  "bool \<Rightarrow> NetworkSpentOutpoint list \<Rightarrow> string \<Rightarrow> NetworkSpentRegistry \<Rightarrow> nat \<times> NetworkSpentRegistry" where
  "quarantine dbOk outpoints rejectedTxid r =
     (let fresh = filter (\<lambda>ou. \<not> hasOutpoint (nso_txid ou) (nso_vout ou) r) outpoints;
          r1 = r\<lparr>keys := keys r \<union> set (map (\<lambda>ou. outpointKey (nso_txid ou) (nso_vout ou)) fresh)\<rparr>
      in if outpoints = [] then (0, r1)
         else if \<not> dbOk then (length fresh, r1)
         else (length fresh,
           r1\<lparr>table := fold (\<lambda>ou t. if t (nso_txid ou, nso_vout ou) = None
                 then t((nso_txid ou, nso_vout ou) \<mapsto> (nso_spentBy ou, rejectedTxid)) else t) fresh (table r1),
              utxo_pool := utxo_pool r1 - set (map (\<lambda>ou. (nso_txid ou, nso_vout ou)) outpoints),
              funding_utxo_pool := funding_utxo_pool r1 - set (map (\<lambda>ou. (nso_txid ou, nso_vout ou)) outpoints)\<rparr>))"

subsection \<open>A quarantined outpoint stays out\<close>

datatype registry_op = Load bool | Quarantine bool "NetworkSpentOutpoint list" string

fun registryStep :: "registry_op \<Rightarrow> NetworkSpentRegistry \<Rightarrow> NetworkSpentRegistry" where
  "registryStep (Load ok) r = snd (load ok r)"
| "registryStep (Quarantine ok outs rejected) r = snd (quarantine ok outs rejected r)"

lemma keys_grow: "keys r \<subseteq> keys (registryStep e r)"
  by (cases e) (auto simp: load_def quarantine_def Let_def)

lemma keys_grow_run: "keys r \<subseteq> keys (fold registryStep es r)"
  by (induction es arbitrary: r) (use keys_grow in \<open>auto simp: subset_iff\<close>)

lemma outpointKey_trim [simp]: "outpointKey (js_trim t) v = outpointKey t v"
  by (simp add: outpointKey_def)

lemma quarantine_has:
  "ou \<in> set outs \<Longrightarrow> hasOutpoint (nso_txid ou) (nso_vout ou) (snd (quarantine ok outs rejected r))"
  by (auto simp: hasOutpoint_def quarantine_def Let_def)

lemma filterUtxos_out: "hasOutpoint t v r \<Longrightarrow> (t', v) \<in> set (filterUtxos us r) \<Longrightarrow> js_trim t' \<noteq> js_trim t"
  using outpointKey_inject [of t' v t v]
  by (auto simp: filterUtxos_def hasOutpoint_def split: if_splits)

text \<open>
  A quarantined outpoint is never offered again. Once an outpoint has been quarantined,
  whatever is loaded and quarantined after it, and whether or not the database works, no chain
  listing passes the filter with it (spelled with or without surrounding white space); with a
  working database it has also left both pools.
\<close>

lemma quarantine_is_final:
  assumes "ou \<in> set outs" and "r' = snd (quarantine ok outs rejected r)"
    and "(t', nso_vout ou) \<in> set (filterUtxos us (fold registryStep es r'))"
  shows "js_trim t' \<noteq> js_trim (nso_txid ou)
       \<and> (ok \<longrightarrow> (nso_txid ou, nso_vout ou) \<notin> utxo_pool r' \<union> funding_utxo_pool r')"
proof -
  have "hasOutpoint (nso_txid ou) (nso_vout ou) (fold registryStep es r')"
    using quarantine_has [OF assms(1), of ok rejected r] keys_grow_run [of r' es]
    by (auto simp: hasOutpoint_def assms(2))
  moreover have "ok \<longrightarrow> (nso_txid ou, nso_vout ou) \<notin> utxo_pool r' \<union> funding_utxo_pool r'"
    using assms(1) by (auto simp: assms(2) quarantine_def Let_def)
  ultimately show ?thesis using filterUtxos_out assms(3) by blast
qed

lemma quarantine_is_final_witness:
  "''bb'' \<noteq> js_trim ''aa''
   \<and> (''aa'', 1) \<notin> utxo_pool (snd (quarantine True [\<lparr> nso_txid = ''aa'', nso_vout = 1, nso_spentBy = ''cc'' \<rparr>] ''dd''
        \<lparr> keys = {}, table = Map.empty, utxo_pool = {(''aa'', 1)}, funding_utxo_pool = {} \<rparr>))"
proof -
  let ?ou = "\<lparr> nso_txid = ''aa'', nso_vout = 1, nso_spentBy = ''cc'' \<rparr>"
  let ?r = "\<lparr> keys = {}, table = Map.empty, utxo_pool = {(''aa'', 1)}, funding_utxo_pool = {} \<rparr> :: NetworkSpentRegistry"
  let ?r' = "snd (quarantine True [?ou] ''dd'' ?r)"
  have ne: "js_trim ''bb'' = ''bb''" "js_trim ''aa'' \<noteq> ''bb''" by code_simp+
  then have "(''bb'', nso_vout ?ou) \<in> set (filterUtxos [(''bb'', 1)] (fold registryStep [] ?r'))"
    by (auto simp: filterUtxos_def hasOutpoint_def quarantine_def Let_def outpointKey_inject)
  from quarantine_is_final [OF _ refl this] ne show ?thesis by simp
qed

end
