(* ===== verification/Doubles.thy ===== *)
theory Doubles
  imports Complex_Main "HOL-Library.Log_Nat"
begin

text \<open>
  Rounding of IEEE 754 doubles, for the one place where it decides an amount of money: the miner fee
  (\<open>Tx_Builder\<close>). \<open>double x\<close> is the double nearest to \<open>x\<close>, ties to even, for \<open>x\<close> from \<open>2 ^ -64\<close> up to the
  overflow threshold; a literal and the result of an operation are \<open>double\<close> of the exact value.
\<close>

definition halfEven :: "real \<Rightarrow> int" where
  "halfEven y =
     (let n = \<lfloor>y\<rfloor>; f = y - of_int n in
      if f < 1 / 2 then n else if f > 1 / 2 then n + 1 else if even n then n else n + 1)"

definition binade :: "real \<Rightarrow> int" where
  "binade x = int (floorlog 2 (nat \<lfloor>x * 2 ^ 64\<rfloor>)) - 65"

definition double :: "real \<Rightarrow> real" where
  "double x = (let ulp = 2 powi (binade x - 52) in of_int (halfEven (x / ulp)) * ulp)"

lemma halfEven_error: "\<bar>of_int (halfEven y) - y\<bar> \<le> 1 / 2"
  unfolding halfEven_def Let_def by (auto split: if_splits; linarith)

lemma binade_lower:
  assumes "x \<ge> 1 / 2 ^ 64"
  shows "2 powi (binade x) \<le> x"
proof -
  define n where "n = nat \<lfloor>x * 2 ^ 64\<rfloor>"
  have "1 \<le> x * 2 ^ 64" using assms by (simp add: field_simps)
  then have n1: "n \<ge> 1" and nle: "real n \<le> x * 2 ^ 64"
    by (auto simp: n_def le_nat_iff le_floor_iff)
  have fl: "floorlog 2 n > 0" using n1 by (simp add: floorlog_def)
  have "2 ^ (floorlog 2 n - 1) \<le> n" using floorlog_bounds [of n 2] n1 by simp
  then have "(2::real) ^ (floorlog 2 n - 1) \<le> real n"
    using of_nat_mono [of "2 ^ (floorlog 2 n - 1)" n, where 'a = real] by simp
  then have "2 ^ (floorlog 2 n - 1) \<le> x * 2 ^ 64" using nle by (rule order.trans)
  moreover have "(2::real) powi binade x = 2 ^ (floorlog 2 n - 1) / 2 ^ 64"
  proof -
    have "binade x = int (floorlog 2 n - 1) - int 64" using fl by (simp add: binade_def n_def)
    then show ?thesis by (simp add: power_int_diff)
  qed
  ultimately show ?thesis by (simp add: field_simps)
qed

lemma double_error:
  assumes "x \<ge> 1 / 2 ^ 64"
  shows "\<bar>double x - x\<bar> \<le> x / 2 ^ 53"
proof -
  define u :: real where "u = 2 powi (binade x - 52)"
  have u0: "u > 0" by (simp add: u_def)
  have "\<bar>double x - x\<bar> = \<bar>of_int (halfEven (x / u)) - x / u\<bar> * u"
    using u0 by (simp add: double_def u_def [symmetric] abs_mult_pos' algebra_simps)
  also have "\<dots> \<le> 1 / 2 * u" using halfEven_error u0 by (intro mult_right_mono) auto
  also have "\<dots> = 2 powi (binade x) / 2 ^ 53"
    by (simp add: u_def power_int_diff)
  also have "\<dots> \<le> x / 2 ^ 53" using binade_lower [OF assms] by (intro divide_right_mono) auto
  finally show ?thesis .
qed

lemma double_range:
  assumes "x \<ge> 1 / 2 ^ 64"
  shows "x * (1 - 1 / 2 ^ 53) \<le> double x" "double x \<le> x * (1 + 1 / 2 ^ 53)"
proof -
  define c :: real where "c = 2 ^ 53"
  have "c > 0" by (simp add: c_def)
  have "\<bar>double x - x\<bar> \<le> x / c" using double_error [OF assms] by (simp add: c_def)
  then have "x - x / c \<le> double x" "double x \<le> x + x / c" by (simp_all add: abs_le_iff)
  then have "x * (1 - 1 / c) \<le> double x" "double x \<le> x * (1 + 1 / c)" by (simp_all add: right_diff_distrib distrib_left)
  then show "x * (1 - 1 / 2 ^ 53) \<le> double x" "double x \<le> x * (1 + 1 / 2 ^ 53)" by (simp_all add: c_def)
qed

lemma binade_eqI:
  assumes "2 ^ k \<le> x * 2 ^ 64" "x * 2 ^ 64 < 2 ^ (k + 1)"
  shows "binade x = int k - 64"
proof -
  define n where "n = nat \<lfloor>x * 2 ^ 64\<rfloor>"
  have "(of_int (2 ^ k) :: real) \<le> x * 2 ^ 64" using assms(1) by simp
  then have l: "2 ^ k \<le> \<lfloor>x * 2 ^ 64\<rfloor>" by (simp only: le_floor_iff)
  have "x * 2 ^ 64 < (of_int (2 ^ (k + 1)) :: real)" using assms(2) by simp
  then have u: "\<lfloor>x * 2 ^ 64\<rfloor> < 2 ^ (k + 1)" by (simp only: floor_less_iff)
  have z: "0 \<le> \<lfloor>x * 2 ^ 64\<rfloor>" by (rule order.trans [OF _ l]) simp
  have "2 ^ k \<le> n" using l unfolding n_def le_nat_iff [OF z] by simp
  moreover have "n < 2 ^ (k + 1)" using u unfolding n_def nat_less_iff [OF z] by simp
  ultimately have "\<lfloor>log 2 (real n)\<rfloor> = int k"
    using floor_log_nat_eq_if [of 2 k n] by simp
  moreover have "n > 0" using \<open>2 ^ k \<le> n\<close> by (rule less_le_trans [rotated]) simp
  ultimately have "floorlog 2 n = k + 1" by (simp add: floorlog_def)
  then show ?thesis by (simp add: binade_def n_def)
qed

lemma double_eqI:
  assumes "2 ^ k \<le> x * 2 ^ 64" "x * 2 ^ 64 < 2 ^ (k + 1)"
  shows "double x = of_int (halfEven (x / 2 powi (int k - 116))) * 2 powi (int k - 116)"
  by (simp add: double_def binade_eqI [OF assms] Let_def)

end
