(* ===== verification/Tx_Builder.thy ===== *)
theory Tx_Builder
  imports Doubles Codec Utxo_Manager
begin

text \<open>
  The transactions of the writer, \<open>services/blockchain-writer/src/tx-builder.ts\<close>: fee estimates and the four
  builders. A \<open>Transaction\<close> is what a builder hands to the SDK: the inputs with the outputs they spend, and the
  outputs, in the order in which they are added. Signing is not modelled. Locking scripts are the hex
  strings the code stores; the script of a key is an argument.

  Results: the fee is the intended rate rounded up, or one satoshi above it; every builder returns exactly
  what it consumed, less the fee; no output of the treasury is dust; the outputs a builder reports are
  the outputs of the transaction at the positions it reports.
\<close>

subsection \<open>Transactions\<close>

datatype OutputScript = Hex string | Binary "byte list"

record TxInput =
  in_txid :: string
  in_vout :: nat
  in_satoshis :: int
  in_script :: string

record TxOutput =
  out_script :: OutputScript
  out_satoshis :: int

record Transaction =
  tx_version :: nat
  tx_inputs :: "TxInput list"
  tx_outputs :: "TxOutput list"

definition newTransaction :: Transaction where
  "newTransaction = \<lparr> tx_version = 1, tx_inputs = [], tx_outputs = [] \<rparr>"

definition addInput :: "TxInput \<Rightarrow> Transaction \<Rightarrow> Transaction" where
  "addInput i t = t\<lparr>tx_inputs := tx_inputs t @ [i]\<rparr>"

definition addOutput :: "OutputScript \<Rightarrow> int \<Rightarrow> Transaction \<Rightarrow> Transaction" where
  "addOutput s n t = t\<lparr>tx_outputs := tx_outputs t @ [\<lparr> out_script = s, out_satoshis = n \<rparr>]\<rparr>"

definition inputSats :: "Transaction \<Rightarrow> int" where
  "inputSats t = sum_list (map in_satoshis (tx_inputs t))"

definition outputSats :: "Transaction \<Rightarrow> int" where
  "outputSats t = sum_list (map out_satoshis (tx_outputs t))"

datatype build_error =
  InsufficientUtxo int int
| ConsolidationNotViable int int
| NoFundingInputs
| InsufficientFunding int nat int int
| RefillDust int nat
| ReshapeTooSmall int nat nat
| Encoding codec_error

subsection \<open>Fees\<close>

definition P2PKH_UNLOCK_SIZE :: nat where "P2PKH_UNLOCK_SIZE = 107"
definition P2PKH_OUTPUT_SIZE :: nat where "P2PKH_OUTPUT_SIZE = 34"
definition TX_OVERHEAD :: nat where "TX_OVERHEAD = 10"
definition INPUT_OVERHEAD :: nat where "INPUT_OVERHEAD = 41"
definition CHRONICLE_TX_VERSION :: nat where "CHRONICLE_TX_VERSION = 2"
definition REFILL_OUTPUT_DUST_LIMIT :: int where "REFILL_OUTPUT_DUST_LIMIT = 546"

definition varintSize :: "nat \<Rightarrow> nat" where
  "varintSize n = (if n < 0xfd then 1 else if n \<le> 0xffff then 3 else if n \<le> 0xffffffff then 5 else 9)"

definition estimateConsolidationSize :: "nat \<Rightarrow> nat" where
  "estimateConsolidationSize inputCount =
     TX_OVERHEAD + varintSize inputCount + (INPUT_OVERHEAD + P2PKH_UNLOCK_SIZE) * inputCount + P2PKH_OUTPUT_SIZE"

definition SATS_PER_KB :: real where "SATS_PER_KB = 100"
definition FEE_BUFFER :: real where "FEE_BUFFER = double (11 / 10)"

definition calculateFee :: "nat \<Rightarrow> int" where
  "calculateFee estimatedBytes =
     \<lceil>double (double (double (real estimatedBytes / 1000) * SATS_PER_KB) * FEE_BUFFER)\<rceil>"

lemma calculateFee_value:
  assumes "1 \<le> b" "b \<le> 10 ^ 9"
  shows "\<bar>double (double (double (real b / 1000) * SATS_PER_KB) * FEE_BUFFER) - 11 * real b / 100\<bar> < 1 / 1000"
proof -
  define e :: real where "e = 1 / 2 ^ 53"
  have b1: "real b \<ge> 1" using assms by simp
  define x where "x = double (real b / 1000)"
  define y where "y = double (x * 100)"
  have X: "real b / 1000 * (1 - e) \<le> x" "x \<le> real b / 1000 * (1 + e)"
    using double_range [of "real b / 1000"] b1 by (simp_all add: x_def e_def)
  have x2: "x \<ge> 1 / 2000" using X(1) b1 by (simp add: e_def field_simps)
  have Y: "x * 100 * (1 - e) \<le> y" "y \<le> x * 100 * (1 + e)"
    using double_range [of "x * 100"] x2 by (simp_all add: y_def e_def)
  have y2: "y \<ge> 1 / 50" using Y(1) x2 by (simp add: e_def field_simps)
  have F: "11 / 10 * (1 - e) \<le> FEE_BUFFER" "FEE_BUFFER \<le> 11 / 10 * (1 + e)"
    using double_range [of "11 / 10"] by (simp_all add: FEE_BUFFER_def e_def)
  have f1: "FEE_BUFFER \<ge> 1" using F(1) by (simp add: e_def)
  have "1 / 50 * 1 \<le> y * FEE_BUFFER" using y2 f1 by (intro mult_mono) auto
  then have yf: "y * FEE_BUFFER \<ge> 1 / 50" by simp
  have Z: "y * FEE_BUFFER * (1 - e) \<le> double (y * FEE_BUFFER)" "double (y * FEE_BUFFER) \<le> y * FEE_BUFFER * (1 + e)"
    using double_range [of "y * FEE_BUFFER"] yf by (simp_all add: e_def)
  have e01: "0 \<le> 1 - e" "0 \<le> 1 + e" by (simp_all add: e_def)
  have up: "double (y * FEE_BUFFER) \<le> real b / 1000 * (1 + e) * 100 * (1 + e) * (11 / 10 * (1 + e)) * (1 + e)"
    by (rule order.trans [OF Z(2)])
       (intro mult_mono order.trans [OF Y(2)] X F mult_right_mono e01 order.refl; use f1 x2 y2 b1 e01 in auto)
  have lo: "real b / 1000 * (1 - e) * 100 * (1 - e) * (11 / 10 * (1 - e)) * (1 - e) \<le> double (y * FEE_BUFFER)"
    by (rule order.trans [OF _ Z(1)])
       (intro mult_mono order.trans [OF _ Y(1)] X F mult_right_mono e01 order.refl; use f1 x2 y2 b1 e01 in auto)
  define p where "p = (1 + e) * (1 + e) * (1 + e) * (1 + e)"
  define q where "q = (1 - e) * (1 - e) * (1 - e) * (1 - e)"
  have "real b / 1000 * (1 + e) * 100 * (1 + e) * (11 / 10 * (1 + e)) * (1 + e) = 11 * real b / 100 * p"
    "real b / 1000 * (1 - e) * 100 * (1 - e) * (11 / 10 * (1 - e)) * (1 - e) = 11 * real b / 100 * q"
    unfolding p_def q_def by simp_all
  from up [unfolded this(1)] lo [unfolded this(2)]
  have near: "double (y * FEE_BUFFER) \<le> 11 * real b / 100 * p" "11 * real b / 100 * q \<le> double (y * FEE_BUFFER)" .
  have eqs: "11 * real b / 100 * (p - 1) = 11 * real b / 100 * p - 11 * real b / 100"
    "11 * real b / 100 * (1 - q) = 11 * real b / 100 - 11 * real b / 100 * q"
    by (simp_all only: right_diff_distrib mult_1_right)
  have pq: "p - 1 \<ge> 0" "1 - q \<ge> 0" by (simp_all add: p_def q_def e_def)
  have bb: "11 * real b / 100 \<le> 11 * 10 ^ 9 / 100" using assms by simp
  have bounds: "11 * real b / 100 * (p - 1) \<le> 11 * 10 ^ 9 / 100 * (p - 1)"
    "11 * real b / 100 * (1 - q) \<le> 11 * 10 ^ 9 / 100 * (1 - q)"
    by (rule mult_right_mono [OF bb pq(1)], rule mult_right_mono [OF bb pq(2)])
  have small: "11 * 10 ^ 9 / 100 * (p - 1) < 1 / 1000" "11 * 10 ^ 9 / 100 * (1 - q) < 1 / 1000"
    by (simp_all add: p_def q_def e_def)
  have "double (y * FEE_BUFFER) - 11 * real b / 100 \<le> 11 * real b / 100 * (p - 1)"
    unfolding eqs(1) using near(1) by (rule diff_right_mono)
  note up' = le_less_trans [OF order.trans [OF this bounds(1)] small(1)]
  have "11 * real b / 100 - double (y * FEE_BUFFER) \<le> 11 * real b / 100 * (1 - q)"
    unfolding eqs(2) using near(2) by (rule diff_left_mono)
  note lo' = le_less_trans [OF order.trans [OF this bounds(2)] small(2)]
  show ?thesis
    unfolding x_def [symmetric] SATS_PER_KB_def y_def [symmetric] abs_less_iff minus_diff_eq
    using up' lo' by (rule conjI)
qed

lemma FEE_BUFFER_value: "FEE_BUFFER = 4953959590107546 / 4503599627370496"
  using double_eqI [of 64 "11 / 10"] by (simp add: FEE_BUFFER_def halfEven_def Let_def)

lemma fee_1000: "calculateFee 1000 = 111"
proof -
  have "double (61924494876344325 / 562949953421312) = 7740561859543041 / 70368744177664"
    using double_eqI [of 70 "61924494876344325 / 562949953421312"]
    by (simp add: halfEven_def Let_def power_int_def power_divide)
  then have "\<lceil>double (61924494876344325 / 562949953421312)\<rceil> = 111" by (simp only:) simp
  moreover have "double 1 = 1" "double 100 = 100"
    using double_eqI [of 64 1] double_eqI [of 70 100] by (simp_all add: halfEven_def Let_def power_int_def power_divide)
  ultimately show ?thesis by (simp add: calculateFee_def SATS_PER_KB_def FEE_BUFFER_value)
qed

text \<open>Callers pass whole numbers; \<open>Math.max(1, Math.floor(n))\<close> is \<open>max 1 n\<close>.\<close>

definition refillSize :: "nat \<Rightarrow> bool \<Rightarrow> nat \<Rightarrow> nat" where
  "refillSize recipientOutputCount includeChange inputCount =
     (let safeRecipientCount = max 1 recipientOutputCount; safeInputCount = max 1 inputCount;
          outputCount = safeRecipientCount + (if includeChange then 1 else 0)
      in TX_OVERHEAD + varintSize safeInputCount + (INPUT_OVERHEAD + P2PKH_UNLOCK_SIZE) * safeInputCount
         + P2PKH_OUTPUT_SIZE * outputCount)"

definition estimateRefillFee :: "nat \<Rightarrow> bool \<Rightarrow> nat \<Rightarrow> int" where
  "estimateRefillFee recipientOutputCount includeChange inputCount =
     calculateFee (refillSize recipientOutputCount includeChange inputCount)"

subsection \<open>Telemetry and flight events\<close>

record ChangeOutput =
  ch_satoshis :: int
  ch_lockingScript :: string
  ch_isChronicle :: bool

record BuildResult =
  br_tx :: Transaction
  br_change :: ChangeOutput
  br_opReturn :: "byte list option"

definition opReturnTxSize :: "nat \<Rightarrow> nat" where
  "opReturnTxSize scriptLength =
     TX_OVERHEAD + varintSize 1 + (INPUT_OVERHEAD + P2PKH_UNLOCK_SIZE)
       + (8 + varintSize scriptLength + scriptLength) + P2PKH_OUTPUT_SIZE"

definition inputOf :: "UTXORecord \<Rightarrow> TxInput" where
  "inputOf u = \<lparr> in_txid = txid u, in_vout = vout u, in_satoshis = satoshis u, in_script = locking_script u \<rparr>"

definition buildOpReturnTx ::
  "string \<Rightarrow> UTXORecord \<Rightarrow> byte list \<Rightarrow> byte list option \<Rightarrow> bool \<Rightarrow> build_error + BuildResult" where
  "buildOpReturnTx changeLock utxo scriptBytes opReturn useChronicleVersion =
     (let fee = calculateFee (opReturnTxSize (length scriptBytes));
          changeSats = satoshis utxo - fee
      in if changeSats < 1 then Inl (InsufficientUtxo (satoshis utxo) fee)
         else let t = newTransaction\<lparr>tx_version := (if useChronicleVersion then CHRONICLE_TX_VERSION else 1)\<rparr>
              in Inr \<lparr> br_tx = addOutput (Hex changeLock) changeSats
                         (addOutput (Binary scriptBytes) 0 (addInput (inputOf utxo) t)),
                       br_change = \<lparr> ch_satoshis = changeSats, ch_lockingScript = changeLock,
                                     ch_isChronicle = useChronicleVersion \<rparr>,
                       br_opReturn = opReturn \<rparr>)"

text \<open>The script and the stored envelope are built from the same fields.\<close>

definition buildEnvelopeTx ::
  "string \<Rightarrow> UTXORecord \<Rightarrow> string \<Rightarrow> jsnum \<Rightarrow> RecordType \<Rightarrow> byte list \<Rightarrow> bool \<Rightarrow> build_error + BuildResult" where
  "buildEnvelopeTx changeLock utxo icao timestamp recordType payload useChronicleVersion =
     (case buildOpReturnScript icao timestamp recordType payload of Inl e \<Rightarrow> Inl (Encoding e)
      | Inr scriptBytes \<Rightarrow>
          (case buildOpReturnPayload icao timestamp recordType payload of Inl e \<Rightarrow> Inl (Encoding e)
           | Inr opReturn \<Rightarrow> buildOpReturnTx changeLock utxo scriptBytes (Some opReturn) useChronicleVersion))"

text \<open>\<open>encode\<close> stands for the payload encoder of the record.\<close>

definition buildTelemetryTx ::
  "(TelemetryRecord \<Rightarrow> byte list) \<Rightarrow> string \<Rightarrow> UTXORecord \<Rightarrow> TelemetryRecord \<Rightarrow> RecordType \<Rightarrow>
     build_error + BuildResult" where
  "buildTelemetryTx encode changeLock utxo telemetry recordType =
     buildEnvelopeTx changeLock utxo (tr_icao telemetry) (map_option of_int (tr_ts telemetry)) recordType
       (encode telemetry) True"

definition buildFlightEventTx ::
  "('ev \<Rightarrow> byte list) \<Rightarrow> ('ev \<Rightarrow> string) \<Rightarrow> millis \<Rightarrow> string \<Rightarrow> UTXORecord \<Rightarrow> 'ev \<Rightarrow> build_error + BuildResult" where
  "buildFlightEventTx encode icaoOf now changeLock utxo event =
     buildEnvelopeTx changeLock utxo (icaoOf event) (Some (of_int now)) FLIGHT_EVENT (encode event) True"

definition buildRawOpReturnTx ::
  "string \<Rightarrow> UTXORecord \<Rightarrow> string \<Rightarrow> millis \<Rightarrow> RecordType \<Rightarrow> byte list \<Rightarrow> build_error + BuildResult" where
  "buildRawOpReturnTx changeLock utxo icao timestamp recordType payload =
     buildEnvelopeTx changeLock utxo icao (Some (of_int timestamp)) recordType payload False"

definition buildConsolidationTx :: "string \<Rightarrow> UTXORecord list \<Rightarrow> build_error + BuildResult" where
  "buildConsolidationTx changeLock utxos =
     (let fee = calculateFee (estimateConsolidationSize (length utxos));
          totalSats = sum_list (map satoshis utxos); changeSats = totalSats - fee
      in if changeSats < 1 then Inl (ConsolidationNotViable totalSats fee)
         else Inr \<lparr> br_tx = addOutput (Hex changeLock) changeSats
                      (fold (\<lambda>u. addInput (inputOf u)) utxos newTransaction),
                    br_change = \<lparr> ch_satoshis = changeSats, ch_lockingScript = changeLock, ch_isChronicle = False \<rparr>,
                    br_opReturn = None \<rparr>)"

subsection \<open>Treasury transactions\<close>

record BuiltOutput =
  bo_vout :: nat
  bo_satoshis :: int
  bo_lockingScript :: string

record RefillResult =
  rr_tx :: Transaction
  rr_recipientOutputs :: "BuiltOutput list"
  rr_changeVout :: "nat option"
  rr_changeSats :: int
  rr_changeLockingScript :: "string option"

text \<open>The loop that adds \<open>n\<close> outputs, the first \<open>remainder\<close> of them one satoshi larger.\<close>

definition addEqualOutputs ::
  "string \<Rightarrow> int \<Rightarrow> int \<Rightarrow> nat \<Rightarrow> Transaction \<Rightarrow> BuiltOutput list \<times> Transaction" where
  "addEqualOutputs lock base remainder n t =
     fold (\<lambda>i (outs, t). let sats = base + (if int i < remainder then 1 else 0)
            in (outs @ [\<lparr> bo_vout = i, bo_satoshis = sats, bo_lockingScript = lock \<rparr>], addOutput (Hex lock) sats t))
       [0..<n] ([], t)"

definition buildRefillTx ::
  "TxInput list \<Rightarrow> string \<Rightarrow> string \<Rightarrow> int \<Rightarrow> nat \<Rightarrow> build_error + RefillResult" where
  "buildRefillTx fundingUtxos fundingLock recipientLock amountSats recipientOutputCount =
     (if fundingUtxos = [] then Inl NoFundingInputs
      else let total = sum_list (map in_satoshis fundingUtxos);
               count = max 1 recipientOutputCount;
               fee = estimateRefillFee count True (length fundingUtxos);
               changeSats = total - amountSats - fee
      in if changeSats < 0 then Inl (InsufficientFunding total (length fundingUtxos) amountSats fee)
         else let t = fold addInput fundingUtxos newTransaction;
                  base = amountSats div int count; remainder = amountSats mod int count
         in if base < REFILL_OUTPUT_DUST_LIMIT then Inl (RefillDust amountSats count)
            else case addEqualOutputs recipientLock base remainder count t of (recipients, t1) \<Rightarrow>
              (if changeSats \<ge> REFILL_OUTPUT_DUST_LIMIT
               then Inr \<lparr> rr_tx = addOutput (Hex fundingLock) changeSats t1, rr_recipientOutputs = recipients,
                          rr_changeVout = Some (length recipients), rr_changeSats = changeSats,
                          rr_changeLockingScript = Some fundingLock \<rparr>
               else Inr \<lparr> rr_tx = t1, rr_recipientOutputs = recipients, rr_changeVout = None,
                          rr_changeSats = 0, rr_changeLockingScript = None \<rparr>))"

definition buildFundingSplitTx ::
  "TxInput list \<Rightarrow> string \<Rightarrow> nat \<Rightarrow> build_error + (Transaction \<times> BuiltOutput list)" where
  "buildFundingSplitTx fundingUtxos fundingLock targetOutputCount =
     (if fundingUtxos = [] then Inl NoFundingInputs
      else let total = sum_list (map in_satoshis fundingUtxos);
               count = max 1 (min targetOutputCount 50);
               available = total - estimateRefillFee count False (length fundingUtxos)
      in if available < int count * REFILL_OUTPUT_DUST_LIMIT
         then Inl (ReshapeTooSmall total (length fundingUtxos) count)
         else case addEqualOutputs fundingLock (available div int count) (available mod int count) count
                     (fold addInput fundingUtxos newTransaction) of (outs, t) \<Rightarrow> Inr (t, outs))"

subsection \<open>What the builders return\<close>

lemma tx_addInput [simp]: "tx_inputs (addInput i t) = tx_inputs t @ [i]" "tx_outputs (addInput i t) = tx_outputs t"
  by (simp_all add: addInput_def)

lemma tx_addOutput [simp]:
  "tx_inputs (addOutput s n t) = tx_inputs t"
  "tx_outputs (addOutput s n t) = tx_outputs t @ [\<lparr> out_script = s, out_satoshis = n \<rparr>]"
  by (simp_all add: addOutput_def)

lemma tx_new [simp]: "tx_inputs newTransaction = []" "tx_outputs newTransaction = []"
  by (simp_all add: newTransaction_def)

lemma fold_addInput [simp]:
  "tx_inputs (fold (\<lambda>u. addInput (f u)) us t) = tx_inputs t @ map f us"
  "tx_outputs (fold (\<lambda>u. addInput (f u)) us t) = tx_outputs t"
  by (induction us arbitrary: t) simp_all

lemmas fold_addInput_id [simp] = fold_addInput [where f = "\<lambda>x. x"]

definition hexOutput :: "BuiltOutput \<Rightarrow> TxOutput" where
  "hexOutput b = \<lparr> out_script = Hex (bo_lockingScript b), out_satoshis = bo_satoshis b \<rparr>"

definition equalOutput :: "string \<Rightarrow> int \<Rightarrow> int \<Rightarrow> nat \<Rightarrow> BuiltOutput" where
  "equalOutput lock base remainder i =
     \<lparr> bo_vout = i, bo_satoshis = base + (if int i < remainder then 1 else 0), bo_lockingScript = lock \<rparr>"

lemma addEqualOutputs_fold:
  "fold (\<lambda>i (outs, t). let sats = base + (if int i < remainder then 1 else 0)
            in (outs @ [\<lparr> bo_vout = i, bo_satoshis = sats, bo_lockingScript = lock \<rparr>], addOutput (Hex lock) sats t))
       is (outs, t) =
   (outs @ map (equalOutput lock base remainder) is,
    t\<lparr>tx_outputs := tx_outputs t @ map (hexOutput \<circ> equalOutput lock base remainder) is\<rparr>)"
  by (induction "is" arbitrary: outs t) (simp_all add: Let_def equalOutput_def hexOutput_def addOutput_def)

lemma addEqualOutputs_eq:
  "addEqualOutputs lock base remainder n t =
     (map (equalOutput lock base remainder) [0..<n],
      t\<lparr>tx_outputs := tx_outputs t @ map (hexOutput \<circ> equalOutput lock base remainder) [0..<n]\<rparr>)"
  by (simp add: addEqualOutputs_def addEqualOutputs_fold)

lemma sum_equal_outputs:
  assumes "0 \<le> r" "r \<le> int n"
  shows "sum_list (map (\<lambda>i. base + (if int i < r then 1 else 0)) [0..<n]) = base * int n + r"
proof -
  have "sum_list (map (\<lambda>i. base + (if int i < r then 1 else 0)) [0..<n]) = base * int n + min r (int n)"
    if "0 \<le> r" for n using that
    by (induction n) (auto simp: algebra_simps)
  then show ?thesis using assms by simp
qed

lemma equal_outputs_total:
  assumes "0 < n"
  shows "sum_list (map (bo_satoshis \<circ> equalOutput lock (a div int n) (a mod int n)) [0..<n]) = a"
proof -
  have "sum_list (map (\<lambda>i. a div int n + (if int i < a mod int n then 1 else 0)) [0..<n]) = a div int n * int n + a mod int n"
    using assms pos_mod_bound [of "int n" a] by (intro sum_equal_outputs) (auto intro: less_imp_le)
  then show ?thesis by (simp add: equalOutput_def comp_def)
qed

text \<open>The fee is the intended rate, 110 satoshis per 1000 bytes, rounded up, or one satoshi above it.\<close>

lemma fee_within_one_sat:
  assumes "1 \<le> b" "b \<le> 10 ^ 9"
  shows "\<lceil>11 * real b / 100\<rceil> \<le> calculateFee b \<and> calculateFee b \<le> \<lceil>11 * real b / 100\<rceil> + 1"
proof -
  define z where "z = double (double (double (real b / 1000) * SATS_PER_KB) * FEE_BUFFER)"
  have z: "\<bar>z - 11 * real b / 100\<bar> < 1 / 1000" using calculateFee_value [OF assms] by (simp add: z_def)
  have "z \<le> of_int (\<lceil>11 * real b / 100\<rceil> + 1)" using z by linarith
  moreover have "\<lceil>11 * real b / 100\<rceil> \<le> \<lceil>z\<rceil>"
  proof -
    define k where "k = \<lceil>11 * real b / 100\<rceil>"
    have "of_int k - 1 < 11 * real b / 100" using ceiling_correct [of "11 * real b / 100"] by (simp add: k_def)
    then have "(of_int (100 * k - 100) :: real) < of_int (11 * int b)" by simp
    then have "100 * k - 100 < 11 * int b" by (simp only: of_int_less_iff)
    then have "100 * k - 99 \<le> 11 * int b" by simp
    then have "(of_int (100 * k - 99) :: real) \<le> of_int (11 * int b)" by (simp only: of_int_le_iff)
    then have "of_int k - 1 + 1 / 100 \<le> 11 * real b / 100" by simp
    then have "of_int (k - 1) < z" using z unfolding abs_less_iff of_int_diff of_int_1 by linarith
    then show ?thesis unfolding k_def [symmetric] by linarith
  qed
  ultimately show ?thesis by (simp add: calculateFee_def z_def [symmetric] ceiling_le_iff)
qed

lemma buildRefillTx_Inr:
  assumes "buildRefillTx us fl rl amount n = Inr r"
  defines "count \<equiv> max 1 n" and "fee \<equiv> estimateRefillFee (max 1 n) True (length us)"
  defines "change \<equiv> sum_list (map in_satoshis us) - amount - fee"
  shows "us \<noteq> []" "0 \<le> change" "REFILL_OUTPUT_DUST_LIMIT \<le> amount div int count"
    "rr_recipientOutputs r = map (equalOutput rl (amount div int count) (amount mod int count)) [0..<count]"
    "tx_inputs (rr_tx r) = us"
    "tx_outputs (rr_tx r) = map hexOutput (rr_recipientOutputs r) @
       (if change \<ge> REFILL_OUTPUT_DUST_LIMIT then [\<lparr> out_script = Hex fl, out_satoshis = change \<rparr>] else [])"
    "rr_changeVout r = (if change \<ge> REFILL_OUTPUT_DUST_LIMIT then Some count else None)"
    "rr_changeSats r = (if change \<ge> REFILL_OUTPUT_DUST_LIMIT then change else 0)"
    "rr_changeLockingScript r = (if change \<ge> REFILL_OUTPUT_DUST_LIMIT then Some fl else None)"
  using assms(1)
  by (auto simp: buildRefillTx_def Let_def addEqualOutputs_eq count_def fee_def change_def split: if_splits)

text \<open>
  A refill neither creates nor loses money. Its recipient outputs add up to the amount asked for; inputs and
  outputs differ by the estimated fee, plus the change when that is below the dust limit and therefore left to the
  miner. No output is dust, and every output reported as the recipient's is the one at that position.
\<close>

lemma refill_conserves_value:
  assumes "buildRefillTx us fl rl amount n = Inr r"
  shows "tx_inputs (rr_tx r) = us
    \<and> sum_list (map bo_satoshis (rr_recipientOutputs r)) = amount
    \<and> inputSats (rr_tx r) = outputSats (rr_tx r) + estimateRefillFee (max 1 n) True (length us)
         + (if rr_changeVout r = None
            then sum_list (map in_satoshis us) - amount - estimateRefillFee (max 1 n) True (length us) else 0)
    \<and> inputSats (rr_tx r) - outputSats (rr_tx r)
         < estimateRefillFee (max 1 n) True (length us) + REFILL_OUTPUT_DUST_LIMIT
    \<and> list_all (\<lambda>t. out_satoshis t \<ge> REFILL_OUTPUT_DUST_LIMIT) (tx_outputs (rr_tx r))
    \<and> list_all (\<lambda>b. bo_vout b < length (tx_outputs (rr_tx r)) \<and> tx_outputs (rr_tx r) ! bo_vout b = hexOutput b)
        (rr_recipientOutputs r)"
proof -
  define count where "count = max 1 n"
  note f = buildRefillTx_Inr [OF assms, folded count_def]
  have pos: "0 < count" by (simp add: count_def)
  have total: "sum_list (map bo_satoshis (rr_recipientOutputs r)) = amount"
    using equal_outputs_total [OF pos, of rl amount] by (simp add: f(4) comp_def)
  have hexsum: "sum_list (map (out_satoshis \<circ> hexOutput) (rr_recipientOutputs r)) = amount"
    using total by (simp add: hexOutput_def comp_def)
  have dust: "list_all (\<lambda>t. out_satoshis t \<ge> REFILL_OUTPUT_DUST_LIMIT) (tx_outputs (rr_tx r))"
    using f(3) by (auto simp: f(6) f(4) list_all_iff hexOutput_def equalOutput_def)
  have place: "list_all (\<lambda>b. bo_vout b < length (tx_outputs (rr_tx r)) \<and> tx_outputs (rr_tx r) ! bo_vout b = hexOutput b)
        (rr_recipientOutputs r)"
    by (auto simp: f(6) f(4) list_all_iff nth_append equalOutput_def)
  show ?thesis
    using f(2) total dust place f(5) hexsum
    by (auto simp: inputSats_def outputSats_def f(6) f(7) count_def REFILL_OUTPUT_DUST_LIMIT_def)
qed

text \<open>The same for a transaction of the treasury to itself.\<close>

lemma reshape_conserves_value:
  assumes "buildFundingSplitTx us fl n = Inr (t, outs)"
  shows "tx_inputs t = us \<and> tx_outputs t = map hexOutput outs
    \<and> map bo_vout outs = [0..<length outs] \<and> length outs = max 1 (min n 50)
    \<and> inputSats t = outputSats t + estimateRefillFee (length outs) False (length us)
    \<and> list_all (\<lambda>b. bo_satoshis b \<ge> REFILL_OUTPUT_DUST_LIMIT) outs"
proof -
  define count where "count = max 1 (min n 50)"
  define avail where "avail = sum_list (map in_satoshis us) - estimateRefillFee count False (length us)"
  have pos: "0 < count" by (simp add: count_def)
  have enough: "int count * REFILL_OUTPUT_DUST_LIMIT \<le> avail"
    and outs: "outs = map (equalOutput fl (avail div int count) (avail mod int count)) [0..<count]"
    and ins: "tx_inputs t = us" and touts: "tx_outputs t = map hexOutput outs"
    using assms
    by (auto simp: buildFundingSplitTx_def Let_def addEqualOutputs_eq avail_def count_def split: if_splits)
  have "REFILL_OUTPUT_DUST_LIMIT \<le> avail div int count"
    using zdiv_mono1 [OF enough, of "int count"] pos by simp
  then have dust: "list_all (\<lambda>b. bo_satoshis b \<ge> REFILL_OUTPUT_DUST_LIMIT) outs"
    by (auto simp: outs list_all_iff equalOutput_def)
  have "sum_list (map (out_satoshis \<circ> hexOutput) outs) = avail"
    using equal_outputs_total [OF pos, of fl avail] by (simp add: outs hexOutput_def comp_def)
  moreover have "map bo_vout outs = [0..<count]" by (simp add: outs equalOutput_def comp_def)
  moreover have len: "length outs = count" by (simp add: outs)
  ultimately show ?thesis
    unfolding inputSats_def outputSats_def ins touts len map_map
    using dust by (simp add: avail_def) (simp add: count_def)
qed

lemma telemetry_spends_its_input:
  assumes "buildOpReturnTx lock u script opReturn chronicle = Inr b"
  shows "tx_inputs (br_tx b) = [inputOf u]
    \<and> map out_satoshis (tx_outputs (br_tx b)) = [0, ch_satoshis (br_change b)]
    \<and> out_script (tx_outputs (br_tx b) ! 1) = Hex (ch_lockingScript (br_change b))
    \<and> ch_satoshis (br_change b) \<ge> 1
    \<and> inputSats (br_tx b) - outputSats (br_tx b) = calculateFee (opReturnTxSize (length script))"
  using assms by (auto simp: buildOpReturnTx_def Let_def inputSats_def outputSats_def inputOf_def split: if_splits)

lemma fee_bounds_227: "25 \<le> calculateFee 227 \<and> calculateFee 227 \<le> 26"
  using fee_within_one_sat [of 227] by simp

lemma refillSize_eval: "refillSize 1 True 1 = 227"
  by (simp add: refillSize_def TX_OVERHEAD_def varintSize_def INPUT_OVERHEAD_def P2PKH_UNLOCK_SIZE_def P2PKH_OUTPUT_SIZE_def)

lemma refill_conserves_value_witness:
  "\<exists>r. buildRefillTx [\<lparr> in_txid = ''aa'', in_vout = 0, in_satoshis = 10000, in_script = ''76'' \<rparr>] ''f1'' ''a1'' 5000 1 = Inr r
     \<and> rr_changeVout r = Some 1 \<and> inputSats (rr_tx r) = outputSats (rr_tx r) + estimateRefillFee 1 True 1"
proof -
  let ?u = "\<lparr> in_txid = ''aa'', in_vout = 0, in_satoshis = 10000, in_script = ''76'' \<rparr>"
  have fee: "25 \<le> estimateRefillFee 1 True 1" "estimateRefillFee 1 True 1 \<le> 26"
    using fee_bounds_227 by (simp_all add: estimateRefillFee_def refillSize_eval [simplified])
  then obtain r where r: "buildRefillTx [?u] ''f1'' ''a1'' 5000 1 = Inr r" "rr_changeVout r = Some 1"
    by (auto simp: buildRefillTx_def Let_def addEqualOutputs_eq REFILL_OUTPUT_DUST_LIMIT_def)
  then show ?thesis using refill_conserves_value [OF r(1)] by auto
qed

end
