(* ===== verification/Funding_Pool.thy ===== *)
theory Funding_Pool
  imports Tx_Builder "HOL-Library.Sublist" "HOL-Library.Multiset"
begin

text \<open>
  The treasury's pool of outputs, \<open>services/blockchain-writer/src/funding-utxo-manager.ts\<close>, with the statements of
  \<open>packages/db/src/queries.ts\<close> on the table \<open>funding_utxo_pool\<close>: selection and locking of inputs, what a
  broadcast leaves behind, reconciliation with the chain, the reclaiming of locks. What also sends transactions
  (splitting and consolidating the treasury) is in \<open>Treasury\<close>.

  As in \<open>Utxo_Manager\<close>, the table is the list of its rows, at most one per outpoint; ties of an \<open>ORDER BY\<close> are
  resolved by insertion order, and transaction ids have no surrounding blanks. A selection is one transaction
  with \<open>FOR UPDATE SKIP LOCKED\<close>: \<open>busy\<close> are the rows that a concurrent transaction holds. The statements of
  the other operations run together. \<open>coolMs\<close> and \<open>guardEnv\<close> are the configured cooldown and guard window.

  Results: a selection covers the spend and its own fee, takes at most the permitted number of unlocked, settled
  outputs and locks exactly these; what it has handed out is handed to nobody else until the hold ends.
\<close>

subsection \<open>State\<close>

record FundingUtxoRow =
  fu_txid :: string
  fu_vout :: nat
  fu_satoshis :: int
  fu_locking_script :: string
  fu_is_locked :: bool
  fu_locked_at :: "millis option"
  fu_created_at :: millis

record FundingUtxoManager =
  funding_pool :: "FundingUtxoRow list"
  reconcileEarliestRetryAt :: millis
  fundingCooldownUntil :: "string \<rightharpoonup> millis"
  fundingSpends :: RecentSpendLedger
  chainDepth :: FundingChainDepth
  fundingBound :: bool
  fundingHold :: BroadcastHold

definition FUNDING_MIN_USABLE_SATS :: int where "FUNDING_MIN_USABLE_SATS = 546"
definition DEFAULT_MIN_SPLIT_OUTPUT_SATS :: int where "DEFAULT_MIN_SPLIT_OUTPUT_SATS = 100000"
definition MIN_RECONCILE_INTERVAL_MS :: millis where "MIN_RECONCILE_INTERVAL_MS = 30000"
definition RATE_LIMITED_COOLDOWN_MS :: millis where "RATE_LIMITED_COOLDOWN_MS = 120000"

definition newFundingUtxoManager :: "int \<Rightarrow> FundingUtxoRow list \<Rightarrow> BroadcastHold \<Rightarrow> FundingUtxoManager" where
  "newFundingUtxoManager depthCap rows h =
     \<lparr> funding_pool = rows, reconcileEarliestRetryAt = 0, fundingCooldownUntil = Map.empty,
       fundingSpends = newLedger, chainDepth = newDepth depthCap, fundingBound = False, fundingHold = h \<rparr>"

text \<open>\<open>Number.POSITIVE_INFINITY\<close> is \<open>Infinite\<close>; the sums of fees are finite.\<close>

datatype cost_ceiling = Infinite | Ceiling jsnum

definition splitFeeWithinBudget :: "int \<Rightarrow> int \<Rightarrow> cost_ceiling \<Rightarrow> bool" where
  "splitFeeWithinBudget feesAlreadySpent nextFeeSats maxCostSats =
     (case maxCostSats of
        Infinite \<Rightarrow> True
      | Ceiling None \<Rightarrow> False
      | Ceiling (Some m) \<Rightarrow>
          if m \<le> 0 then False else if feesAlreadySpent < 0 then False else if nextFeeSats < 0 then False
          else of_int (feesAlreadySpent + nextFeeSats) \<le> m)"

subsection \<open>The table\<close>

definition keyOfFunding :: "FundingUtxoRow \<Rightarrow> string \<times> nat" where
  "keyOfFunding r = (fu_txid r, fu_vout r)"

definition getFundingUtxoCount :: "FundingUtxoRow list \<Rightarrow> nat" where
  "getFundingUtxoCount rows = length rows"

definition getFundingUtxoBalance :: "FundingUtxoRow list \<Rightarrow> int" where
  "getFundingUtxoBalance rows = sum_list (map fu_satoshis (filter (\<lambda>r. \<not> fu_is_locked r) rows))"

definition newFundingRow :: "millis \<Rightarrow> string \<Rightarrow> nat \<Rightarrow> int \<Rightarrow> string \<Rightarrow> FundingUtxoRow" where
  "newFundingRow now t v sats script =
     \<lparr> fu_txid = t, fu_vout = v, fu_satoshis = sats, fu_locking_script = script, fu_is_locked = False,
       fu_locked_at = None, fu_created_at = now \<rparr>"

definition insertFundingUtxo :: "FundingUtxoRow \<Rightarrow> FundingUtxoRow list \<Rightarrow> FundingUtxoRow list" where
  "insertFundingUtxo r rows = (if keyOfFunding r \<in> keyOfFunding ` set rows then rows else rows @ [r])"

definition updateFunding ::
  "(FundingUtxoRow \<Rightarrow> bool) \<Rightarrow> (FundingUtxoRow \<Rightarrow> FundingUtxoRow) \<Rightarrow> FundingUtxoRow list \<Rightarrow> FundingUtxoRow list" where
  "updateFunding P f rows = map (\<lambda>r. if P r then f r else r) rows"

definition releaseFundingUtxo :: "string \<Rightarrow> nat \<Rightarrow> FundingUtxoRow list \<Rightarrow> FundingUtxoRow list" where
  "releaseFundingUtxo t v =
     updateFunding (\<lambda>r. keyOfFunding r = (t, v)) (\<lambda>r. r\<lparr>fu_is_locked := False, fu_locked_at := None\<rparr>)"

definition lockFunding :: "millis \<Rightarrow> (string \<times> nat) set \<Rightarrow> FundingUtxoRow list \<Rightarrow> FundingUtxoRow list" where
  "lockFunding now keys =
     updateFunding (\<lambda>r. keyOfFunding r \<in> keys) (\<lambda>r. r\<lparr>fu_is_locked := True, fu_locked_at := Some now\<rparr>)"

definition deleteFunding :: "(string \<times> nat) set \<Rightarrow> FundingUtxoRow list \<Rightarrow> FundingUtxoRow list" where
  "deleteFunding keys rows = filter (\<lambda>r. keyOfFunding r \<notin> keys) rows"

definition deleteFundingUtxo :: "string \<Rightarrow> nat \<Rightarrow> FundingUtxoRow list \<Rightarrow> FundingUtxoRow list" where
  "deleteFundingUtxo t v = deleteFunding {(t, v)}"

definition unlockAllFundingUtxos :: "FundingUtxoRow list \<Rightarrow> nat \<times> FundingUtxoRow list" where
  "unlockAllFundingUtxos rows =
     (length (filter fu_is_locked rows),
      updateFunding fu_is_locked (\<lambda>r. r\<lparr>fu_is_locked := False, fu_locked_at := None\<rparr>) rows)"

subsection \<open>Cooldowns\<close>

definition fundingKey :: "string \<Rightarrow> nat \<Rightarrow> string" where
  "fundingKey t v = js_trim t @ '':'' @ natToDec v"

definition setFundingCooldown :: "millis \<Rightarrow> string \<Rightarrow> nat \<Rightarrow> millis \<Rightarrow> FundingUtxoManager \<Rightarrow> FundingUtxoManager" where
  "setFundingCooldown now t v ms m =
     m\<lparr>fundingCooldownUntil := (fundingCooldownUntil m)(fundingKey t v \<mapsto> now + ms)\<rparr>"

definition clearFundingCooldown :: "string \<Rightarrow> nat \<Rightarrow> FundingUtxoManager \<Rightarrow> FundingUtxoManager" where
  "clearFundingCooldown t v m = m\<lparr>fundingCooldownUntil := (fundingCooldownUntil m)(fundingKey t v := None)\<rparr>"

definition isFundingCooling :: "millis \<Rightarrow> FundingUtxoManager \<Rightarrow> FundingUtxoRow \<Rightarrow> bool" where
  "isFundingCooling now m r =
     ((case fundingCooldownUntil m (fundingKey (fu_txid r) (fu_vout r)) of Some u \<Rightarrow> u | None \<Rightarrow> 0) > now)"

definition pruneFundingCooldowns :: "millis \<Rightarrow> FundingUtxoManager \<Rightarrow> FundingUtxoManager" where
  "pruneFundingCooldowns now m =
     m\<lparr>fundingCooldownUntil := (\<lambda>k. case fundingCooldownUntil m k of None \<Rightarrow> None
         | Some u \<Rightarrow> if u \<le> now then None else Some u)\<rparr>"

definition tooDeep :: "FundingUtxoManager \<Rightarrow> FundingUtxoRow \<Rightarrow> bool" where
  "tooDeep m r = exceedsCap (fu_txid r) (fu_vout r) (chainDepth m)"

subsection \<open>Selecting inputs\<close>

definition largestFirst :: "FundingUtxoRow list \<Rightarrow> FundingUtxoRow list" where
  "largestFirst rows = sort_key (\<lambda>r. - fu_satoshis r) rows"

definition acquire ::
  "millis \<Rightarrow> (FundingUtxoRow \<Rightarrow> bool) \<Rightarrow> int \<Rightarrow> FundingUtxoManager \<Rightarrow> FundingUtxoRow option \<times> FundingUtxoManager" where
  "acquire now busy minSats m0 =
     (let m = pruneFundingCooldowns now m0;
          candidates = largestFirst (filter (\<lambda>r. \<not> fu_is_locked r \<and> \<not> busy r \<and> fu_satoshis r \<ge> minSats) (funding_pool m))
      in case List.find (\<lambda>r. \<not> isFundingCooling now m r \<and> \<not> tooDeep m r) candidates of
           None \<Rightarrow> (None, m)
         | Some r \<Rightarrow> (Some r, m\<lparr>funding_pool := lockFunding now {keyOfFunding r} (funding_pool m)\<rparr>))"

datatype FundingSelectionReason =
  Ok | No_unlocked_candidates | All_candidates_cooling | Insufficient_within_input_cap | Unconfirmed_chain_too_deep

record FundingSelectionDiagnostics =
  candidatesExamined :: nat
  coolingSkipped :: nat
  selectableSats :: int
  requiredSats :: int
  inputCap :: nat
  reason :: FundingSelectionReason

record Picked =
  pk_selected :: "FundingUtxoRow list"
  pk_cooling :: nat
  pk_deepSkipped :: nat
  pk_total :: int

definition feeOf :: "(nat \<Rightarrow> int) option \<Rightarrow> nat \<Rightarrow> int" where
  "feeOf feeForInputs n = (case feeForInputs of None \<Rightarrow> 0 | Some f \<Rightarrow> f n)"

text \<open>The loop over the candidates.\<close>

fun pickInputs ::
  "nat \<Rightarrow> int \<Rightarrow> (nat \<Rightarrow> int) option \<Rightarrow> (FundingUtxoRow \<Rightarrow> bool) \<Rightarrow> (FundingUtxoRow \<Rightarrow> bool) \<Rightarrow>
     FundingUtxoRow list \<Rightarrow> Picked \<Rightarrow> Picked" where
  "pickInputs cap minSats fee cooling deep [] p = p"
| "pickInputs cap minSats fee cooling deep (row # rows) p =
     (if length (pk_selected p) \<ge> cap then p
      else if cooling row then pickInputs cap minSats fee cooling deep rows (p\<lparr>pk_cooling := pk_cooling p + 1\<rparr>)
      else if deep row then pickInputs cap minSats fee cooling deep rows (p\<lparr>pk_deepSkipped := pk_deepSkipped p + 1\<rparr>)
      else let p' = p\<lparr>pk_selected := pk_selected p @ [row], pk_total := pk_total p + fu_satoshis row\<rparr>
           in if pk_total p' \<ge> minSats + feeOf fee (length (pk_selected p')) then p'
              else pickInputs cap minSats fee cooling deep rows p')"

definition acquireMany ::
  "millis \<Rightarrow> (FundingUtxoRow \<Rightarrow> bool) \<Rightarrow> int \<Rightarrow> nat \<Rightarrow> (nat \<Rightarrow> int) option \<Rightarrow> FundingUtxoManager \<Rightarrow>
     (FundingUtxoRow list \<times> FundingSelectionDiagnostics) \<times> FundingUtxoManager" where
  "acquireMany now busy minSats maxInputs feeForInputs m0 =
     (let m = pruneFundingCooldowns now m0; cap = max 1 maxInputs;
          candidates = take (max (cap * 4) 512) (largestFirst
            (filter (\<lambda>r. \<not> fu_is_locked r \<and> \<not> busy r \<and> fu_satoshis r \<ge> FUNDING_MIN_USABLE_SATS) (funding_pool m)));
          p = pickInputs cap minSats feeForInputs (isFundingCooling now m) (tooDeep m) candidates
                \<lparr> pk_selected = [], pk_cooling = 0, pk_deepSkipped = 0, pk_total = 0 \<rparr>;
          required = minSats + feeOf feeForInputs (max 1 (length (pk_selected p)));
          diagnostics = (\<lambda>r. \<lparr> candidatesExamined = length candidates, coolingSkipped = pk_cooling p,
              selectableSats = pk_total p, requiredSats = required, inputCap = cap, reason = r \<rparr>)
      in if pk_selected p = [] \<or> pk_total p < required
         then (([], diagnostics
                (if candidates = [] then No_unlocked_candidates
                 else if pk_selected p = [] \<and> pk_deepSkipped p > 0
                         \<and> pk_deepSkipped p + pk_cooling p \<ge> length candidates then Unconfirmed_chain_too_deep
                 else if pk_cooling p \<ge> length candidates then All_candidates_cooling
                 else Insufficient_within_input_cap)), m)
         else ((pk_selected p, diagnostics Ok),
               m\<lparr>funding_pool := lockFunding now (keyOfFunding ` set (pk_selected p)) (funding_pool m)\<rparr>))"

definition release :: "string \<Rightarrow> nat \<Rightarrow> FundingUtxoManager \<Rightarrow> FundingUtxoManager" where
  "release t v m = m\<lparr>funding_pool := releaseFundingUtxo t v (funding_pool m)\<rparr>"

definition releaseMany :: "(string \<times> nat) list \<Rightarrow> FundingUtxoManager \<Rightarrow> FundingUtxoManager" where
  "releaseMany utxos m = fold (\<lambda>(t, v). release (js_trim t) v) utxos m"

text \<open>The smallest outputs below the floor; the limit applies before the filter.\<close>

definition acquireSmallOutputs ::
  "millis \<Rightarrow> (FundingUtxoRow \<Rightarrow> bool) \<Rightarrow> int \<Rightarrow> nat \<Rightarrow> FundingUtxoManager \<Rightarrow> FundingUtxoRow list \<times> FundingUtxoManager" where
  "acquireSmallOutputs now busy belowSats limit m0 =
     (let m = pruneFundingCooldowns now m0;
          rows = take limit (sort_key fu_satoshis
            (filter (\<lambda>r. \<not> fu_is_locked r \<and> \<not> busy r \<and> fu_satoshis r \<ge> FUNDING_MIN_USABLE_SATS
                         \<and> fu_satoshis r < belowSats) (funding_pool m)));
          selected = filter (\<lambda>r. \<not> isFundingCooling now m r \<and> \<not> tooDeep m r) rows
      in if selected = [] then ([], m)
         else (selected, m\<lparr>funding_pool := lockFunding now (keyOfFunding ` set selected) (funding_pool m)\<rparr>))"

subsection \<open>What a broadcast leaves behind\<close>

definition noteInputSpent :: "millis \<Rightarrow> string \<times> nat \<Rightarrow> int \<times> FundingUtxoManager \<Rightarrow> int \<times> FundingUtxoManager" where
  "noteInputSpent now inp dm =
     (case (inp, dm) of ((t, v), (parentDepth, m)) \<Rightarrow>
        (max parentDepth (depthOf t v (chainDepth m)),
         m\<lparr>fundingSpends := noteSpent t v now (fundingSpends m), chainDepth := forget t v (chainDepth m)\<rparr>))"

definition rememberSpend ::
  "millis \<Rightarrow> (string \<times> nat) list \<Rightarrow> string option \<Rightarrow> nat list \<Rightarrow> FundingUtxoManager \<Rightarrow> FundingUtxoManager" where
  "rememberSpend now inputs createdTxid createdVouts m =
     (case fold (noteInputSpent now) inputs (0, m) of (parentDepth, m1) \<Rightarrow>
        (case createdTxid of None \<Rightarrow> m1
         | Some t \<Rightarrow> if t = [] then m1
            else let m2 = m1\<lparr>fundingSpends := noteBroadcast t now (fundingSpends m1)\<rparr>
                 in m2\<lparr>chainDepth := fold (\<lambda>v. noteUnconfirmed t v (Some (of_int (parentDepth + 1)))) createdVouts
                          (chainDepth m2)\<rparr>))"

text \<open>The change output of a spend: transaction, position, amount and script, where all are given.\<close>

definition changeRow ::
  "millis \<Rightarrow> string option \<Rightarrow> nat option \<Rightarrow> int option \<Rightarrow> string option \<Rightarrow> FundingUtxoRow option" where
  "changeRow now changeTxid changeVout changeSats changeScript =
     (case (changeTxid, changeVout, changeSats, changeScript) of
        (Some t, Some v, Some sats, Some script) \<Rightarrow>
          if sats \<ge> FUNDING_MIN_USABLE_SATS then Some (newFundingRow now t v sats script) else None
      | _ \<Rightarrow> None)"

text \<open>The inputs go and the change comes in one transaction; an insert that meets an existing outpoint
  raises and rolls back (\<open>None\<close>). The manager's memory follows.\<close>

definition recordSpendRows ::
  "millis \<Rightarrow> (string \<times> nat) list \<Rightarrow> string option \<Rightarrow> nat option \<Rightarrow> int option \<Rightarrow> string option \<Rightarrow>
     FundingUtxoManager \<Rightarrow> FundingUtxoManager option" where
  "recordSpendRows now inputs changeTxid changeVout changeSats changeScript m =
     (let left = deleteFunding (set inputs) (funding_pool m);
          change = changeRow now changeTxid changeVout changeSats changeScript
      in if (case change of Some c \<Rightarrow> keyOfFunding c \<in> keyOfFunding ` set left | None \<Rightarrow> False) then None
         else Some (m\<lparr>funding_pool := (case change of Some c \<Rightarrow> left @ [c] | None \<Rightarrow> left)\<rparr>))"

definition recordSpendNotes ::
  "millis \<Rightarrow> millis \<Rightarrow> (string \<times> nat) list \<Rightarrow> string option \<Rightarrow> nat option \<Rightarrow> int option \<Rightarrow>
     FundingUtxoManager \<Rightarrow> FundingUtxoManager" where
  "recordSpendNotes now coolMs inputs changeTxid changeVout changeSats m =
     (let m1 = fold (\<lambda>(t, v). clearFundingCooldown t v) inputs m;
          createdVouts = (case (changeTxid, changeVout, changeSats) of
             (Some t, Some v, Some sats) \<Rightarrow> if sats \<ge> FUNDING_MIN_USABLE_SATS then [v] else []
           | _ \<Rightarrow> []);
          m2 = rememberSpend now inputs changeTxid createdVouts m1
      in case (changeTxid, changeVout) of
           (Some t, Some v) \<Rightarrow> if createdVouts \<noteq> [] then setFundingCooldown now t v coolMs m2 else m2
         | _ \<Rightarrow> m2)"

definition recordSpendMany ::
  "millis \<Rightarrow> millis \<Rightarrow> (string \<times> nat) list \<Rightarrow> string option \<Rightarrow> nat option \<Rightarrow> int option \<Rightarrow> string option \<Rightarrow>
     FundingUtxoManager \<Rightarrow> FundingUtxoManager option" where
  "recordSpendMany now coolMs inputs changeTxid changeVout changeSats changeScript m =
     map_option (recordSpendNotes now coolMs inputs changeTxid changeVout changeSats)
       (recordSpendRows now inputs changeTxid changeVout changeSats changeScript m)"

definition fundingRecordSpend ::
  "millis \<Rightarrow> millis \<Rightarrow> string \<Rightarrow> nat \<Rightarrow> string option \<Rightarrow> nat option \<Rightarrow> int option \<Rightarrow> string option \<Rightarrow>
     FundingUtxoManager \<Rightarrow> FundingUtxoManager option" where
  "fundingRecordSpend now coolMs spentTxid spentVout changeTxid changeVout changeSats changeScript =
     recordSpendMany now coolMs [(spentTxid, spentVout)] changeTxid changeVout changeSats changeScript"

definition deleteStale :: "string \<Rightarrow> nat \<Rightarrow> FundingUtxoManager \<Rightarrow> FundingUtxoManager" where
  "deleteStale t v m = clearFundingCooldown t v (m\<lparr>funding_pool := deleteFundingUtxo t v (funding_pool m)\<rparr>)"

definition fundingOutputsInvalidated :: "string \<Rightarrow> nat list \<Rightarrow> FundingUtxoManager \<Rightarrow> FundingUtxoManager" where
  "fundingOutputsInvalidated t vouts m =
     fold (\<lambda>v m. let m1 = clearFundingCooldown t v m in m1\<lparr>chainDepth := forget t v (chainDepth m1)\<rparr>) vouts m"

definition isFundingOutputConfirmed :: "string \<Rightarrow> nat \<Rightarrow> FundingUtxoManager \<Rightarrow> bool" where
  "isFundingOutputConfirmed t v m = isConfirmed t v (chainDepth m)"

definition getBalance :: "FundingUtxoManager \<Rightarrow> int \<times> nat" where
  "getBalance m = (getFundingUtxoBalance (funding_pool m), getFundingUtxoCount (funding_pool m))"

definition fundingUnlockAll :: "FundingUtxoManager \<Rightarrow> nat \<times> FundingUtxoManager" where
  "fundingUnlockAll m =
     (case unlockAllFundingUtxos (funding_pool m) of (n, rows) \<Rightarrow> (n, m\<lparr>funding_pool := rows\<rparr>))"

subsection \<open>The chain\<close>

text \<open>A listing that cannot be read says whether the provider limited the rate (status 429).\<close>

datatype chain_answer = Unreachable bool | Listing "WocUtxo list"

definition fundingFetch :: "(WocUtxo list \<Rightarrow> WocUtxo list) \<Rightarrow> chain_answer \<Rightarrow> chain_answer" where
  "fundingFetch excludeNetworkSpent answer =
     (case answer of Listing us \<Rightarrow> Listing (excludeNetworkSpent us) | Unreachable limited \<Rightarrow> Unreachable limited)"

text \<open>\<open>None\<close> is the exception of a listing that cannot be read.\<close>

definition fundingBootstrap ::
  "millis \<Rightarrow> string \<Rightarrow> chain_answer \<Rightarrow> FundingUtxoManager \<Rightarrow> FundingUtxoManager option" where
  "fundingBootstrap now script onChain m0 =
     (let m = m0\<lparr>fundingBound := True\<rparr> in
      if getFundingUtxoCount (funding_pool m) > 0 then Some m
      else case onChain of Unreachable _ \<Rightarrow> None
      | Listing us \<Rightarrow> Some (m\<lparr>funding_pool := fold (\<lambda>u rows.
            if wu_value u < FUNDING_MIN_USABLE_SATS then rows
            else insertFundingUtxo (newFundingRow now (tx_hash u) (tx_pos u) (wu_value u) script) rows)
          us (funding_pool m)\<rparr>))"

definition loadInsert ::
  "millis \<Rightarrow> millis \<Rightarrow> string \<Rightarrow> string set \<Rightarrow> WocUtxo \<Rightarrow> nat \<times> FundingUtxoManager \<Rightarrow> nat \<times> FundingUtxoManager" where
  "loadInsert now guardMs script localSet u am =
     (case am of (added, m0) \<Rightarrow>
       (let m = (if isConfirmedHeight (wu_height u)
                 then m0\<lparr>chainDepth := confirm (tx_hash u) (tx_pos u) (chainDepth m0)\<rparr> else m0)
        in if outpointKey (tx_hash u) (tx_pos u) \<in> localSet \<or> wu_value u < FUNDING_MIN_USABLE_SATS then (added, m)
           else (case spentAtIfFresh (tx_hash u) (tx_pos u) now guardMs (fundingSpends m) of (spentAtMs, l) \<Rightarrow>
             (let m1 = m\<lparr>fundingSpends := l\<rparr>
              in if shouldSuppressChainReinsert now guardMs spentAtMs then (added, m1)
                 else (added + 1, m1\<lparr>funding_pool := insertFundingUtxo
                         (newFundingRow now (tx_hash u) (tx_pos u) (wu_value u) script) (funding_pool m1)\<rparr>)))))"

definition loadRemove ::
  "millis \<Rightarrow> millis \<Rightarrow> string set \<Rightarrow> FundingUtxoRow \<Rightarrow> nat \<times> FundingUtxoManager \<Rightarrow> nat \<times> FundingUtxoManager" where
  "loadRemove now guardMs onChainSet row rm =
     (case rm of (removed, m) \<Rightarrow>
       (let t = js_trim (fu_txid row); v = fu_vout row in
        if outpointKey t v \<in> onChainSet then (removed, m)
        else (case spentAtIfFresh t v now guardMs (fundingSpends m) of (spentAtMs, l1) \<Rightarrow>
             (case broadcastAtIfFresh t now guardMs l1 of (creatingMs, l2) \<Rightarrow>
               (let m1 = m\<lparr>fundingSpends := l2\<rparr>
                in if shouldRetainLocalDuringReconcile now guardMs (Some (fu_created_at row)) spentAtMs creatingMs
                   then (removed, m1)
                   else (let m2 = clearFundingCooldown t v (m1\<lparr>funding_pool := deleteFundingUtxo t v (funding_pool m1)\<rparr>)
                         in (removed + 1, m2\<lparr>chainDepth := forget t v (chainDepth m2)\<rparr>)))))))"

text \<open>The rows are read before the first insertion.\<close>

definition loadFundingChain ::
  "millis \<Rightarrow> millis \<Rightarrow> bool \<Rightarrow> string \<Rightarrow> chain_answer \<Rightarrow> FundingUtxoManager \<Rightarrow>
     (string set \<times> nat \<times> nat) option \<times> FundingUtxoManager" where
  "loadFundingChain now guardEnv force script onChain m =
     (case onChain of
        Unreachable limited \<Rightarrow>
          (None, if force then m
                 else m\<lparr>reconcileEarliestRetryAt := now +
                        (if limited then RATE_LIMITED_COOLDOWN_MS else MIN_RECONCILE_INTERVAL_MS)\<rparr>)
      | Listing us \<Rightarrow>
          (let m1 = m\<lparr>reconcileEarliestRetryAt := now + MIN_RECONCILE_INTERVAL_MS\<rparr>;
               guardMs = (if force then 0 else guardEnv);
               onChainSet = set (map (\<lambda>u. outpointKey (tx_hash u) (tx_pos u)) us);
               localRows = funding_pool m1;
               localSet = set (map (\<lambda>r. outpointKey (fu_txid r) (fu_vout r)) localRows)
           in case fold (loadInsert now guardMs script localSet) us (0, m1) of (added, m2) \<Rightarrow>
              (case fold (loadRemove now guardMs onChainSet) localRows (0, m2) of (removed, m3) \<Rightarrow>
                (Some (onChainSet, added, removed), m3\<lparr>fundingHold := unblockFunding (fundingHold m3)\<rparr>))))"

record FundingReconcileOutcome =
  fro_ok :: bool
  fro_added :: nat
  fro_removed :: nat

text \<open>\<open>joined\<close> is the outcome of a pass that was in flight and has been awaited.\<close>

definition fundingReconcile ::
  "millis \<Rightarrow> millis \<Rightarrow> FundingReconcileOutcome option \<Rightarrow> bool \<Rightarrow> string \<Rightarrow> chain_answer \<Rightarrow> FundingUtxoManager \<Rightarrow>
     FundingReconcileOutcome \<times> FundingUtxoManager" where
  "fundingReconcile now guardEnv joined force script onChain m0 =
     (let m = m0\<lparr>fundingBound := True\<rparr>; skipped = \<lparr> fro_ok = False, fro_added = 0, fro_removed = 0 \<rparr>
      in if \<not> force \<and> now < reconcileEarliestRetryAt m then (skipped, m)
         else if joined \<noteq> None \<and> \<not> force then (the joined, m)
         else (case loadFundingChain now guardEnv force script onChain m of
                 (None, m1) \<Rightarrow> (skipped, m1)
               | (Some (_, added, removed), m1) \<Rightarrow>
                   (\<lparr> fro_ok = True, fro_added = added, fro_removed = removed \<rparr>, m1)))"

subsection \<open>Stale locks\<close>

definition staleFundingLock :: "millis option \<Rightarrow> FundingUtxoRow \<Rightarrow> bool" where
  "staleFundingLock staleBefore r \<longleftrightarrow>
     (case staleBefore of None \<Rightarrow> True
      | Some cutoff \<Rightarrow> (case fu_locked_at r of None \<Rightarrow> True | Some t \<Rightarrow> t < cutoff))"

definition unlockFundingRow :: "string set \<Rightarrow> FundingUtxoRow \<Rightarrow> nat \<times> FundingUtxoManager \<Rightarrow> nat \<times> FundingUtxoManager" where
  "unlockFundingRow listed row um =
     (case um of (unlocked, m) \<Rightarrow>
       (let t = js_trim (fu_txid row); v = fu_vout row in
        if outpointKey t v \<notin> listed then (unlocked, m)
        else (unlocked + length (filter (\<lambda>r. keyOfFunding r = (t, v) \<and> fu_is_locked r) (funding_pool m)),
              m\<lparr>funding_pool := updateFunding (\<lambda>r. keyOfFunding r = (t, v) \<and> fu_is_locked r)
                  (\<lambda>r. r\<lparr>fu_is_locked := False, fu_locked_at := None\<rparr>) (funding_pool m)\<rparr>)))"

definition unlockListedFunding ::
  "string set \<Rightarrow> millis option \<Rightarrow> FundingUtxoManager \<Rightarrow> nat \<times> FundingUtxoManager" where
  "unlockListedFunding listed staleBefore m =
     fold (unlockFundingRow listed) (filter (\<lambda>r. fu_is_locked r \<and> staleFundingLock staleBefore r) (funding_pool m)) (0, m)"

definition reclaimStaleFundingLocks ::
  "millis \<Rightarrow> millis \<Rightarrow> millis \<Rightarrow> string \<Rightarrow> chain_answer \<Rightarrow> FundingUtxoManager \<Rightarrow> nat \<times> FundingUtxoManager" where
  "reclaimStaleFundingLocks now guardEnv ttlMs script onChain m =
     (if \<not> fundingBound m then (0, m)
      else case loadFundingChain now guardEnv False script onChain m of
        (None, m1) \<Rightarrow> (0, m1)
      | (Some (keys, _, _), m1) \<Rightarrow> unlockListedFunding keys (Some (now - ttlMs)) m1)"

definition unlockFundingListedUnspent ::
  "millis \<Rightarrow> millis \<Rightarrow> string \<Rightarrow> chain_answer \<Rightarrow> FundingUtxoManager \<Rightarrow> nat \<times> FundingUtxoManager" where
  "unlockFundingListedUnspent now guardEnv script onChain m0 =
     (let m = m0\<lparr>fundingBound := True\<rparr> in
      case loadFundingChain now guardEnv False script onChain m of
        (None, m1) \<Rightarrow> (0, m1)
      | (Some (keys, _, _), m1) \<Rightarrow> unlockListedFunding keys None m1)"

text \<open>The treasury's outputs after a transaction that spends them to itself.\<close>

definition reshapeDelete :: "(string \<times> nat) list \<Rightarrow> FundingUtxoManager \<Rightarrow> FundingUtxoManager" where
  "reshapeDelete inputs m = m\<lparr>funding_pool := deleteFunding (set inputs) (funding_pool m)\<rparr>"

definition clearFundingCooldowns :: "(string \<times> nat) list \<Rightarrow> FundingUtxoManager \<Rightarrow> FundingUtxoManager" where
  "clearFundingCooldowns inputs m = fold (\<lambda>(t, v). clearFundingCooldown t v) inputs m"

definition reshapeInsert :: "millis \<Rightarrow> string \<Rightarrow> BuiltOutput \<Rightarrow> FundingUtxoManager \<Rightarrow> FundingUtxoManager" where
  "reshapeInsert now t b m =
     m\<lparr>funding_pool := insertFundingUtxo (newFundingRow now t (bo_vout b) (bo_satoshis b) (bo_lockingScript b))
         (funding_pool m)\<rparr>"

subsection \<open>A selection pays for the spend\<close>

lemma pickInputs_picks:
  assumes "pickInputs cap minSats fee cooling deep rows p = q"
  shows "\<exists>ys. subseq ys rows \<and> pk_selected q = pk_selected p @ ys
    \<and> list_all (\<lambda>r. \<not> cooling r \<and> \<not> deep r) ys
    \<and> pk_total q = pk_total p + sum_list (map fu_satoshis ys)
    \<and> length (pk_selected q) \<le> max cap (length (pk_selected p))"
  using assms
proof (induction rows arbitrary: p)
  case Nil
  then show ?case by simp
next
  case (Cons row rows)
  consider (full) "length (pk_selected p) \<ge> cap" | (cooling) "length (pk_selected p) < cap" "cooling row"
    | (deep) "length (pk_selected p) < cap" "\<not> cooling row" "deep row"
    | (take) "length (pk_selected p) < cap" "\<not> cooling row" "\<not> deep row" by force
  then show ?case
  proof cases
    case full
    then show ?thesis using Cons.prems by (intro exI [of _ "[]"]) auto
  next
    case cooling
    then have "pickInputs cap minSats fee cooling deep rows (p\<lparr>pk_cooling := pk_cooling p + 1\<rparr>) = q"
      using Cons.prems by simp
    from Cons.IH [OF this] show ?thesis by (auto intro: subseq_Cons')
  next
    case deep
    then have "pickInputs cap minSats fee cooling deep rows (p\<lparr>pk_deepSkipped := pk_deepSkipped p + 1\<rparr>) = q"
      using Cons.prems by simp
    from Cons.IH [OF this] show ?thesis by (auto intro: subseq_Cons')
  next
    case take
    define p' where "p' = p\<lparr>pk_selected := pk_selected p @ [row], pk_total := pk_total p + fu_satoshis row\<rparr>"
    have q: "q = (if pk_total p' \<ge> minSats + feeOf fee (length (pk_selected p')) then p'
        else pickInputs cap minSats fee cooling deep rows p')"
      using take Cons.prems by (auto simp: p'_def Let_def)
    show ?thesis
    proof (cases "pk_total p' \<ge> minSats + feeOf fee (length (pk_selected p'))")
      case True
      then show ?thesis using take q by (intro exI [of _ "[row]"]) (simp add: p'_def)
    next
      case False
      then have "pickInputs cap minSats fee cooling deep rows p' = q" using q by simp
      from Cons.IH [OF this] obtain ys where "subseq ys rows" "pk_selected q = pk_selected p' @ ys"
        "list_all (\<lambda>r. \<not> cooling r \<and> \<not> deep r) ys" "pk_total q = pk_total p' + sum_list (map fu_satoshis ys)"
        "length (pk_selected q) \<le> max cap (length (pk_selected p'))" by blast
      then show ?thesis using take by (intro exI [of _ "row # ys"]) (auto simp: p'_def)
    qed
  qed
qed

lemma subseq_set: "subseq xs ys \<Longrightarrow> set xs \<subseteq> set ys"
  by (induction rule: list_emb.induct) auto

lemma subseq_distinct: "subseq xs ys \<Longrightarrow> distinct ys \<Longrightarrow> distinct xs"
  by (induction rule: list_emb.induct) (auto dest: subseq_set)

definition funding_inv :: "FundingUtxoManager \<Rightarrow> bool" where
  "funding_inv m \<longleftrightarrow> distinct (map keyOfFunding (funding_pool m))"

text \<open>The rows that a selection may take.\<close>

definition takable :: "millis \<Rightarrow> (FundingUtxoRow \<Rightarrow> bool) \<Rightarrow> FundingUtxoManager \<Rightarrow> FundingUtxoRow \<Rightarrow> bool" where
  "takable now busy m r \<longleftrightarrow> r \<in> set (funding_pool m) \<and> \<not> fu_is_locked r \<and> \<not> busy r
     \<and> \<not> isFundingCooling now m r \<and> \<not> tooDeep m r"

lemma prune_frame [simp]:
  "funding_pool (pruneFundingCooldowns now m) = funding_pool m"
  "chainDepth (pruneFundingCooldowns now m) = chainDepth m"
  "tooDeep (pruneFundingCooldowns now m) = tooDeep m"
  by (simp_all add: pruneFundingCooldowns_def tooDeep_def fun_eq_iff)

lemma prune_cooling [simp]: "0 \<le> now \<Longrightarrow> isFundingCooling now (pruneFundingCooldowns now m) = isFundingCooling now m"
  by (auto simp: isFundingCooling_def pruneFundingCooldowns_def fun_eq_iff split: option.split)

lemma acquireMany_selection:
  assumes "acquireMany now busy minSats maxInputs feeForInputs m = ((sel, d), m')" "sel \<noteq> []" "0 \<le> now"
  shows "list_all (takable now busy m) sel" "list_all (\<lambda>r. fu_satoshis r \<ge> FUNDING_MIN_USABLE_SATS) sel"
    "length sel \<le> max 1 maxInputs"
    "sum_list (map fu_satoshis sel) \<ge> minSats + feeOf feeForInputs (length sel)"
    "funding_pool m' = lockFunding now (keyOfFunding ` set sel) (funding_pool m)"
    "funding_inv m \<Longrightarrow> distinct (map keyOfFunding sel)"
proof -
  define n where "n = pruneFundingCooldowns now m"
  define eligible where "eligible = filter (\<lambda>r. \<not> fu_is_locked r \<and> \<not> busy r \<and> fu_satoshis r \<ge> FUNDING_MIN_USABLE_SATS)
      (funding_pool m)"
  define rows where "rows = take (max (max 1 maxInputs * 4) 512) (largestFirst eligible)"
  define p0 where "p0 = \<lparr> pk_selected = [], pk_cooling = 0, pk_deepSkipped = 0, pk_total = 0 \<rparr>"
  define q where "q = pickInputs (max 1 maxInputs) minSats feeForInputs (isFundingCooling now n) (tooDeep n) rows p0"
  note eq = assms(1) [unfolded acquireMany_def Let_def, folded n_def, unfolded prune_frame(1) [of now m, folded n_def],
      folded eligible_def, folded rows_def p0_def, folded q_def]
  have bad: "\<not> (pk_selected q = [] \<or> pk_total q < minSats + feeOf feeForInputs (max 1 (length (pk_selected q))))"
    using eq assms(2) by (auto split: if_splits)
  then have sel: "sel = pk_selected q"
    and pool: "funding_pool m' = lockFunding now (keyOfFunding ` set sel) (funding_pool m)"
    using eq by (auto simp: n_def)
  obtain ys where ys: "subseq ys rows" "pk_selected q = ys"
    "list_all (\<lambda>r. \<not> isFundingCooling now n r \<and> \<not> tooDeep n r) ys" "pk_total q = sum_list (map fu_satoshis ys)"
    "length ys \<le> max 1 maxInputs"
    using pickInputs_picks [OF q_def [symmetric]] by (auto simp: p0_def)
  have "set rows \<subseteq> set (largestFirst eligible)" unfolding rows_def by (rule set_take_subset)
  then have sub: "set ys \<subseteq> set eligible" using subseq_set [OF ys(1)] by (simp add: largestFirst_def)
  show "list_all (takable now busy m) sel" "list_all (\<lambda>r. fu_satoshis r \<ge> FUNDING_MIN_USABLE_SATS) sel"
    using ys(3) sub assms(3) by (auto simp: sel ys(2) list_all_iff takable_def eligible_def n_def)
  show "length sel \<le> max 1 maxInputs" using ys(5) by (simp add: sel ys(2))
  have "max 1 (length ys) = length ys" using bad ys(2) by (cases ys) auto
  then show "sum_list (map fu_satoshis sel) \<ge> minSats + feeOf feeForInputs (length sel)"
    using bad ys(2,4) by (simp add: sel)
  show "funding_pool m' = lockFunding now (keyOfFunding ` set sel) (funding_pool m)" by (rule pool)
  assume "funding_inv m"
  then have "distinct (map keyOfFunding eligible)" by (simp add: funding_inv_def eligible_def distinct_map_filter)
  moreover have "mset (map keyOfFunding (largestFirst eligible)) = mset (map keyOfFunding eligible)"
    by (simp add: largestFirst_def)
  ultimately have "distinct (map keyOfFunding (largestFirst eligible))" by (metis mset_eq_imp_distinct_iff)
  then have "distinct (map keyOfFunding rows)" by (simp add: rows_def take_map [symmetric])
  then show "distinct (map keyOfFunding sel)"
    using subseq_distinct [OF subseq_map [OF ys(1)]] by (simp add: sel ys(2))
qed


definition fundingInput :: "FundingUtxoRow \<Rightarrow> TxInput" where
  "fundingInput r = \<lparr> in_txid = js_trim (fu_txid r), in_vout = fu_vout r, in_satoshis = fu_satoshis r,
                     in_script = fu_locking_script r \<rparr>"

lemma refillFee_max [simp]: "estimateRefillFee (max (Suc 0) n) c k = estimateRefillFee n c k"
  by (simp add: estimateRefillFee_def refillSize_def)

text \<open>
  What a selection for a refill takes is free and settled, within the permitted number, and now locked; the builder
  cannot run out of money on it, so that only an amount too small to divide is refused.
\<close>

lemma selection_pays_for_refill:
  assumes "acquireMany now busy (amount + 100) maxInputs (Some (estimateRefillFee n True)) m = ((sel, d), m')"
    and "sel \<noteq> []" "funding_inv m" "0 \<le> now"
  shows "list_all (takable now busy m) sel \<and> distinct (map keyOfFunding sel) \<and> length sel \<le> max 1 maxInputs
    \<and> funding_pool m' = lockFunding now (keyOfFunding ` set sel) (funding_pool m)
    \<and> (case buildRefillTx (map fundingInput sel) fundingLock recipientLock amount n of
          Inr r \<Rightarrow> sum_list (map fu_satoshis sel) - amount - estimateRefillFee n True (length sel) \<ge> 100
        | Inl e \<Rightarrow> e = RefillDust amount (max 1 n))"
proof -
  note s = acquireMany_selection [OF assms(1,2,4)]
  have total: "sum_list (map in_satoshis (map fundingInput sel)) = sum_list (map fu_satoshis sel)"
    by (simp add: fundingInput_def comp_def)
  have "sum_list (map fu_satoshis sel) - amount - estimateRefillFee n True (length sel) \<ge> 100"
    using s(4) by (simp add: feeOf_def)
  moreover have "case buildRefillTx (map fundingInput sel) fundingLock recipientLock amount n of
      Inr r \<Rightarrow> True | Inl e \<Rightarrow> e = RefillDust amount (max 1 n)"
    using calculation assms(2)
    unfolding buildRefillTx_def Let_def total by (auto split: prod.split)
  ultimately show ?thesis
    using s(1,3,5) s(6) [OF assms(3)]
    by (cases "buildRefillTx (map fundingInput sel) fundingLock recipientLock amount n") simp_all
qed

subsection \<open>Who holds an output\<close>

text \<open>The operations on the table, as the other tasks of the writer run them.\<close>

datatype funding_step =
  F_Acquire millis "FundingUtxoRow \<Rightarrow> bool" int
| F_AcquireMany millis "FundingUtxoRow \<Rightarrow> bool" int nat "(nat \<Rightarrow> int) option"
| F_AcquireSmall millis "FundingUtxoRow \<Rightarrow> bool" int nat
| F_Release string nat
| F_RecordSpend millis millis "(string \<times> nat) list" "string option" "nat option" "int option" "string option"
| F_DeleteStale string nat
| F_Invalidated string "nat list"
| F_ReshapeDelete "(string \<times> nat) list"
| F_ReshapeInsert millis string BuiltOutput
| F_Load millis millis bool string chain_answer
| F_Unlock "string set" "millis option"
| F_UnlockAll

fun fundingStep :: "funding_step \<Rightarrow> FundingUtxoManager \<Rightarrow> FundingUtxoManager" where
  "fundingStep (F_Acquire now busy minSats) m = snd (acquire now busy minSats m)"
| "fundingStep (F_AcquireMany now busy minSats maxInputs fee) m = snd (acquireMany now busy minSats maxInputs fee m)"
| "fundingStep (F_AcquireSmall now busy below limit) m = snd (acquireSmallOutputs now busy below limit m)"
| "fundingStep (F_Release t v) m = release t v m"
| "fundingStep (F_RecordSpend now cool inputs ct cv cs script) m =
     (case recordSpendMany now cool inputs ct cv cs script m of Some m' \<Rightarrow> m' | None \<Rightarrow> m)"
| "fundingStep (F_DeleteStale t v) m = deleteStale t v m"
| "fundingStep (F_Invalidated t vouts) m = fundingOutputsInvalidated t vouts m"
| "fundingStep (F_ReshapeDelete inputs) m = reshapeDelete inputs m"
| "fundingStep (F_ReshapeInsert now t b) m = reshapeInsert now t b m"
| "fundingStep (F_Load now guard force script answer) m = snd (loadFundingChain now guard force script answer m)"
| "fundingStep (F_Unlock listed cutoff) m = snd (unlockListedFunding listed cutoff m)"
| "fundingStep F_UnlockAll m = snd (fundingUnlockAll m)"

definition listedFunding :: "chain_answer \<Rightarrow> string set option" where
  "listedFunding answer =
     (case answer of Unreachable _ \<Rightarrow> None | Listing us \<Rightarrow> Some (set (map (\<lambda>u. outpointKey (tx_hash u) (tx_pos u)) us)))"

text \<open>The steps that may end the hold on an outpoint: its own release, spend or deletion; a chain listing without
  it removes the row, and a listing with it may unlock it.\<close>

fun mayFreeFunding :: "string \<times> nat \<Rightarrow> funding_step \<Rightarrow> bool" where
  "mayFreeFunding k (F_Release t v) \<longleftrightarrow> k = (t, v)"
| "mayFreeFunding k (F_RecordSpend now cool inputs ct cv cs script) \<longleftrightarrow> k \<in> set inputs"
| "mayFreeFunding k (F_DeleteStale t v) \<longleftrightarrow> k = (t, v)"
| "mayFreeFunding k (F_ReshapeDelete inputs) \<longleftrightarrow> k \<in> set inputs"
| "mayFreeFunding k (F_Load now guard force script answer) \<longleftrightarrow>
     (case listedFunding answer of None \<Rightarrow> False | Some keys \<Rightarrow> outpointKey (fst k) (snd k) \<notin> keys)"
| "mayFreeFunding k (F_Unlock listed cutoff) \<longleftrightarrow> outpointKey (fst k) (snd k) \<in> listed"
| "mayFreeFunding k F_UnlockAll \<longleftrightarrow> True"
| "mayFreeFunding k step \<longleftrightarrow> False"

definition heldFunding :: "string \<times> nat \<Rightarrow> FundingUtxoManager \<Rightarrow> bool" where
  "heldFunding k m \<longleftrightarrow> (\<exists>r \<in> set (funding_pool m). keyOfFunding r = k \<and> fu_is_locked r)"

lemma keyOfFunding_upd [simp]:
  "keyOfFunding (r\<lparr>fu_is_locked := b, fu_locked_at := t\<rparr>) = keyOfFunding r"
  "keyOfFunding (newFundingRow now t' v sats script) = (t', v)"
  by (simp_all add: keyOfFunding_def newFundingRow_def)

lemma keys_updateFunding:
  "(\<And>r. keyOfFunding (f r) = keyOfFunding r) \<Longrightarrow> map keyOfFunding (updateFunding P f rows) = map keyOfFunding rows"
  by (simp add: updateFunding_def comp_def)

text \<open>A change of the table that keeps its keys unique, and keeps the locked row of \<open>k\<close>.\<close>

definition keepsKeys :: "FundingUtxoRow list \<Rightarrow> FundingUtxoRow list \<Rightarrow> bool" where
  "keepsKeys rows rows' \<longleftrightarrow> (distinct (map keyOfFunding rows) \<longrightarrow> distinct (map keyOfFunding rows'))"

definition keepsHeld :: "string \<times> nat \<Rightarrow> FundingUtxoRow list \<Rightarrow> FundingUtxoRow list \<Rightarrow> bool" where
  "keepsHeld k rows rows' \<longleftrightarrow>
     ((\<exists>r \<in> set rows. keyOfFunding r = k \<and> fu_is_locked r) \<longrightarrow> (\<exists>r \<in> set rows'. keyOfFunding r = k \<and> fu_is_locked r))"

lemma keeps_refl [simp]: "keepsKeys rows rows" "keepsHeld k rows rows"
  by (simp_all add: keepsKeys_def keepsHeld_def)

lemma keeps_trans:
  "keepsKeys a b \<Longrightarrow> keepsKeys b c \<Longrightarrow> keepsKeys a c" "keepsHeld k a b \<Longrightarrow> keepsHeld k b c \<Longrightarrow> keepsHeld k a c"
  by (auto simp: keepsKeys_def keepsHeld_def)

lemma keepsHeld_update:
  assumes "\<And>r. keyOfFunding r = k \<Longrightarrow> fu_is_locked r \<Longrightarrow> P r \<Longrightarrow> keyOfFunding (f r) = k \<and> fu_is_locked (f r)"
  shows "keepsHeld k rows (updateFunding P f rows)"
  unfolding keepsHeld_def updateFunding_def
proof (intro impI, elim bexE conjE)
  fix r assume r: "r \<in> set rows" "keyOfFunding r = k" "fu_is_locked r"
  then have "(if P r then f r else r) \<in> set (map (\<lambda>r. if P r then f r else r) rows)" by auto
  then show "\<exists>r' \<in> set (map (\<lambda>r. if P r then f r else r) rows). keyOfFunding r' = k \<and> fu_is_locked r'"
    by (rule bexI [rotated]) (use assms r in simp)
qed

lemma keeps_lock: "keepsKeys rows (lockFunding now ks rows)" "keepsHeld k rows (lockFunding now ks rows)"
proof -
  show "keepsKeys rows (lockFunding now ks rows)"
    unfolding lockFunding_def by (simp add: keepsKeys_def keys_updateFunding)
  show "keepsHeld k rows (lockFunding now ks rows)"
    unfolding lockFunding_def by (rule keepsHeld_update) simp
qed

lemma keeps_unlock:
  "keepsKeys rows (updateFunding P (\<lambda>r. r\<lparr>fu_is_locked := False, fu_locked_at := None\<rparr>) rows)"
  "(\<And>r. P r \<Longrightarrow> keyOfFunding r \<noteq> k) \<Longrightarrow>
     keepsHeld k rows (updateFunding P (\<lambda>r. r\<lparr>fu_is_locked := False, fu_locked_at := None\<rparr>) rows)"
proof -
  show "keepsKeys rows (updateFunding P (\<lambda>r. r\<lparr>fu_is_locked := False, fu_locked_at := None\<rparr>) rows)"
    by (simp add: keepsKeys_def keys_updateFunding)
  assume "\<And>r. P r \<Longrightarrow> keyOfFunding r \<noteq> k"
  then show "keepsHeld k rows (updateFunding P (\<lambda>r. r\<lparr>fu_is_locked := False, fu_locked_at := None\<rparr>) rows)"
    by (intro keepsHeld_update) simp
qed

lemma keeps_delete: "keepsKeys rows (deleteFunding ks rows)" "k \<notin> ks \<Longrightarrow> keepsHeld k rows (deleteFunding ks rows)"
  by (auto simp: keepsKeys_def keepsHeld_def deleteFunding_def distinct_map_filter)

lemma keeps_insert: "keepsKeys rows (insertFundingUtxo r rows)" "keepsHeld k rows (insertFundingUtxo r rows)"
  by (auto simp: keepsKeys_def keepsHeld_def insertFundingUtxo_def)

lemma keeps_append:
  "keyOfFunding r \<notin> keyOfFunding ` set rows \<Longrightarrow> keepsKeys rows (rows @ [r])" "keepsHeld k rows (rows @ [r])"
  by (auto simp: keepsKeys_def keepsHeld_def)

text \<open>The memory of the manager leaves the table alone.\<close>

lemma funding_frame [simp]:
  "funding_pool (setFundingCooldown now t v ms m) = funding_pool m"
  "funding_pool (clearFundingCooldown t v m) = funding_pool m"
  by (simp_all add: setFundingCooldown_def clearFundingCooldown_def)

lemma clear_fold [simp]:
  "funding_pool (fold (\<lambda>(t, v). clearFundingCooldown t v) ks m) = funding_pool m"
  "chainDepth (fold (\<lambda>(t, v). clearFundingCooldown t v) ks m) = chainDepth m"
  by (induction ks arbitrary: m) (auto simp: clearFundingCooldown_def)

lemma noteInputSpent_fold [simp]: "funding_pool (snd (fold (noteInputSpent now) ks dm)) = funding_pool (snd dm)"
  by (induction ks arbitrary: dm) (simp_all add: noteInputSpent_def split: prod.split)

lemma rememberSpend_pool [simp]: "funding_pool (rememberSpend now ks t vs m) = funding_pool m"
  using noteInputSpent_fold [of now ks "(0, m)"]
  by (cases "fold (noteInputSpent now) ks (0, m)") (simp add: rememberSpend_def Let_def split: option.split)

lemma invalidated_pool [simp]: "funding_pool (fundingOutputsInvalidated t vs m) = funding_pool m"
  unfolding fundingOutputsInvalidated_def
  by (induction vs arbitrary: m) (simp_all add: Let_def)

lemma recordSpendMany_pool:
  assumes "recordSpendMany now cool inputs ct cv cs script m = Some m'"
  shows "funding_pool m' = deleteFunding (set inputs) (funding_pool m)
       @ (case changeRow now ct cv cs script of Some c \<Rightarrow> [c] | None \<Rightarrow> [])"
    "changeRow now ct cv cs script = Some c \<Longrightarrow> keyOfFunding c \<notin> keyOfFunding ` set (deleteFunding (set inputs) (funding_pool m))"
  using assms
  by (auto simp: recordSpendMany_def recordSpendRows_def recordSpendNotes_def Let_def split: option.splits if_splits)


lemma loadInsert_pool:
  "keepsKeys (funding_pool (snd am)) (funding_pool (snd (loadInsert now guard script loc u am)))"
  "keepsHeld k (funding_pool (snd am)) (funding_pool (snd (loadInsert now guard script loc u am)))"
proof -
  have "funding_pool (snd (loadInsert now guard script loc u am)) = funding_pool (snd am)
      \<or> (\<exists>r. funding_pool (snd (loadInsert now guard script loc u am)) = insertFundingUtxo r (funding_pool (snd am)))"
    by (auto simp: loadInsert_def Let_def split: prod.split)
  then show "keepsKeys (funding_pool (snd am)) (funding_pool (snd (loadInsert now guard script loc u am)))"
    "keepsHeld k (funding_pool (snd am)) (funding_pool (snd (loadInsert now guard script loc u am)))"
    by (auto simp: keeps_insert)
qed

lemma loadRemove_pool:
  "keepsKeys (funding_pool (snd rm)) (funding_pool (snd (loadRemove now guard listed row rm)))"
  "outpointKey (fst k) (snd k) \<in> listed \<Longrightarrow>
     keepsHeld k (funding_pool (snd rm)) (funding_pool (snd (loadRemove now guard listed row rm)))"
proof -
  have c: "funding_pool (snd (loadRemove now guard listed row rm)) = funding_pool (snd rm)
      \<or> outpointKey (js_trim (fu_txid row)) (fu_vout row) \<notin> listed
        \<and> funding_pool (snd (loadRemove now guard listed row rm))
            = deleteFunding {(js_trim (fu_txid row), fu_vout row)} (funding_pool (snd rm))"
    by (auto simp: loadRemove_def Let_def deleteFundingUtxo_def split: prod.split)
  then show "keepsKeys (funding_pool (snd rm)) (funding_pool (snd (loadRemove now guard listed row rm)))"
    by (auto simp: keeps_delete)
  assume "outpointKey (fst k) (snd k) \<in> listed"
  then have "k \<notin> {(js_trim (fu_txid row), fu_vout row)}"
    if "outpointKey (js_trim (fu_txid row)) (fu_vout row) \<notin> listed" using that by auto
  then show "keepsHeld k (funding_pool (snd rm)) (funding_pool (snd (loadRemove now guard listed row rm)))"
    using c keeps_delete(2) [of k "{(js_trim (fu_txid row), fu_vout row)}"] by auto
qed

lemma fold_keeps:
  assumes "\<And>x s. keepsKeys (funding_pool (snd s)) (funding_pool (snd (f x s)))"
    and "\<And>x s. C \<Longrightarrow> keepsHeld k (funding_pool (snd s)) (funding_pool (snd (f x s)))"
  shows "keepsKeys (funding_pool (snd s)) (funding_pool (snd (fold f xs s)))"
    "C \<Longrightarrow> keepsHeld k (funding_pool (snd s)) (funding_pool (snd (fold f xs s)))"
proof -
  show "keepsKeys (funding_pool (snd s)) (funding_pool (snd (fold f xs s)))"
  proof (induction xs arbitrary: s)
    case (Cons x xs)
    show ?case using keeps_trans(1) [OF assms(1) Cons.IH] by simp
  qed simp
  assume c: C
  show "keepsHeld k (funding_pool (snd s)) (funding_pool (snd (fold f xs s)))"
  proof (induction xs arbitrary: s)
    case (Cons x xs)
    show ?case using keeps_trans(2) [OF assms(2) [OF c] Cons.IH] by simp
  qed simp
qed

lemma loadFundingChain_keeps:
  "keepsKeys (funding_pool m) (funding_pool (snd (loadFundingChain now guard force script answer m)))"
  "(case listedFunding answer of None \<Rightarrow> True | Some keys \<Rightarrow> outpointKey (fst k) (snd k) \<in> keys) \<Longrightarrow>
     keepsHeld k (funding_pool m) (funding_pool (snd (loadFundingChain now guard force script answer m)))"
proof -
  have both: "keepsKeys (funding_pool m) (funding_pool (snd (loadFundingChain now guard force script answer m)))
    \<and> ((case listedFunding answer of None \<Rightarrow> True | Some keys \<Rightarrow> outpointKey (fst k) (snd k) \<in> keys) \<longrightarrow>
       keepsHeld k (funding_pool m) (funding_pool (snd (loadFundingChain now guard force script answer m))))"
  proof (cases answer)
    case (Unreachable limited)
    then show ?thesis by (simp add: loadFundingChain_def)
  next
    case (Listing us)
    define m1 where "m1 = m\<lparr>reconcileEarliestRetryAt := now + MIN_RECONCILE_INTERVAL_MS\<rparr>"
    define g where "g = (if force then 0 else guard)"
    define keys where "keys = set (map (\<lambda>u. outpointKey (tx_hash u) (tx_pos u)) us)"
    define loc where "loc = set (map (\<lambda>r. outpointKey (fu_txid r) (fu_vout r)) (funding_pool m))"
    define ia where "ia = fold (loadInsert now g script loc) us (0, m1)"
    define ra where "ra = fold (loadRemove now g keys) (funding_pool m) (0, snd ia)"
    have pool: "funding_pool (snd (loadFundingChain now guard force script answer m)) = funding_pool (snd ra)"
      unfolding Listing loadFundingChain_def chain_answer.case Let_def
      by (simp add: m1_def [symmetric] g_def [symmetric] keys_def [symmetric] loc_def [symmetric] ia_def [symmetric]
          ra_def [symmetric] split: prod.split) (simp add: m1_def ra_def ia_def keys_def loc_def g_def)
    have ins: "keepsKeys (funding_pool m) (funding_pool (snd ia))" "keepsHeld k (funding_pool m) (funding_pool (snd ia))"
      using fold_keeps [where f = "loadInsert now g script loc" and s = "(0, m1)" and C = True, OF loadInsert_pool]
      by (simp_all add: ia_def m1_def)
    have rem: "keepsKeys (funding_pool (snd ia)) (funding_pool (snd ra))"
      "outpointKey (fst k) (snd k) \<in> keys \<Longrightarrow> keepsHeld k (funding_pool (snd ia)) (funding_pool (snd ra))"
      using fold_keeps [where f = "loadRemove now g keys" and s = "(0, snd ia)", OF loadRemove_pool]
      by (simp_all add: ra_def)
    show ?thesis
      unfolding pool using keeps_trans(1) [OF ins(1) rem(1)] keeps_trans(2) [OF ins(2) rem(2)]
      by (simp add: Listing listedFunding_def keys_def)
  qed
  then show "keepsKeys (funding_pool m) (funding_pool (snd (loadFundingChain now guard force script answer m)))"
    "(case listedFunding answer of None \<Rightarrow> True | Some keys \<Rightarrow> outpointKey (fst k) (snd k) \<in> keys) \<Longrightarrow>
     keepsHeld k (funding_pool m) (funding_pool (snd (loadFundingChain now guard force script answer m)))"
    by blast+
qed


lemma unlockFundingRow_keeps:
  "keepsKeys (funding_pool (snd um)) (funding_pool (snd (unlockFundingRow listed row um)))"
  "outpointKey (fst k) (snd k) \<notin> listed \<Longrightarrow>
     keepsHeld k (funding_pool (snd um)) (funding_pool (snd (unlockFundingRow listed row um)))"
proof -
  have c: "funding_pool (snd (unlockFundingRow listed row um)) = funding_pool (snd um)
      \<or> outpointKey (js_trim (fu_txid row)) (fu_vout row) \<in> listed
        \<and> funding_pool (snd (unlockFundingRow listed row um)) = updateFunding
            (\<lambda>r. keyOfFunding r = (js_trim (fu_txid row), fu_vout row) \<and> fu_is_locked r)
            (\<lambda>r. r\<lparr>fu_is_locked := False, fu_locked_at := None\<rparr>) (funding_pool (snd um))"
    by (auto simp: unlockFundingRow_def Let_def split: prod.split)
  then show "keepsKeys (funding_pool (snd um)) (funding_pool (snd (unlockFundingRow listed row um)))"
    by (auto simp: keeps_unlock(1))
  assume k: "outpointKey (fst k) (snd k) \<notin> listed"
  from c show "keepsHeld k (funding_pool (snd um)) (funding_pool (snd (unlockFundingRow listed row um)))"
  proof
    assume u: "outpointKey (js_trim (fu_txid row)) (fu_vout row) \<in> listed
        \<and> funding_pool (snd (unlockFundingRow listed row um)) = updateFunding
            (\<lambda>r. keyOfFunding r = (js_trim (fu_txid row), fu_vout row) \<and> fu_is_locked r)
            (\<lambda>r. r\<lparr>fu_is_locked := False, fu_locked_at := None\<rparr>) (funding_pool (snd um))"
    then have "(js_trim (fu_txid row), fu_vout row) \<noteq> k" using k by auto
    then show ?thesis unfolding conjunct2 [OF u] by (intro keeps_unlock(2)) auto
  qed simp
qed

lemma unlockListedFunding_keeps:
  "keepsKeys (funding_pool m) (funding_pool (snd (unlockListedFunding listed cutoff m)))"
  "outpointKey (fst k) (snd k) \<notin> listed \<Longrightarrow>
     keepsHeld k (funding_pool m) (funding_pool (snd (unlockListedFunding listed cutoff m)))"
  unfolding unlockListedFunding_def
  using fold_keeps [where f = "unlockFundingRow listed" and s = "(0, m)", OF unlockFundingRow_keeps] by simp_all

lemma acquires_pool:
  "funding_pool (snd (acquire now busy minSats m)) = funding_pool m
   \<or> (\<exists>ks. funding_pool (snd (acquire now busy minSats m)) = lockFunding now ks (funding_pool m))"
  "funding_pool (snd (acquireMany now busy minSats maxInputs fee m)) = funding_pool m
   \<or> (\<exists>ks. funding_pool (snd (acquireMany now busy minSats maxInputs fee m)) = lockFunding now ks (funding_pool m))"
  "funding_pool (snd (acquireSmallOutputs now busy below limit m)) = funding_pool m
   \<or> (\<exists>ks. funding_pool (snd (acquireSmallOutputs now busy below limit m)) = lockFunding now ks (funding_pool m))"
  by (auto simp: acquire_def acquireMany_def acquireSmallOutputs_def Let_def split: option.split)

lemma fundingStep_keeps:
  "keepsKeys (funding_pool m) (funding_pool (fundingStep a m))"
  "\<not> mayFreeFunding k a \<Longrightarrow> keepsHeld k (funding_pool m) (funding_pool (fundingStep a m))"
proof -
  have both: "keepsKeys (funding_pool m) (funding_pool (fundingStep a m))
    \<and> (\<not> mayFreeFunding k a \<longrightarrow> keepsHeld k (funding_pool m) (funding_pool (fundingStep a m)))"
  proof (cases a)
    case (F_Acquire now busy minSats)
    then show ?thesis using acquires_pool(1) [of now busy minSats m] by (auto simp: keeps_lock)
  next
    case (F_AcquireMany now busy minSats maxInputs fee)
    then show ?thesis using acquires_pool(2) [of now busy minSats maxInputs fee m] by (auto simp: keeps_lock)
  next
    case (F_AcquireSmall now busy below limit)
    then show ?thesis using acquires_pool(3) [of now busy below limit m] by (auto simp: keeps_lock)
  next
    case (F_Release t v)
    have "\<not> mayFreeFunding k a \<Longrightarrow> keepsHeld k (funding_pool m) (releaseFundingUtxo t v (funding_pool m))"
      unfolding releaseFundingUtxo_def by (rule keeps_unlock(2)) (auto simp: F_Release)
    then show ?thesis by (simp add: F_Release release_def releaseFundingUtxo_def keeps_unlock(1))
  next
    case (F_RecordSpend now cool inputs ct cv cs script)
    show ?thesis
    proof (cases "recordSpendMany now cool inputs ct cv cs script m")
      case None
      then show ?thesis by (simp add: F_RecordSpend)
    next
      case (Some m')
      note p = recordSpendMany_pool [OF Some]
      have app: "keepsKeys (deleteFunding (set inputs) (funding_pool m)) (funding_pool m')"
        "keepsHeld k (deleteFunding (set inputs) (funding_pool m)) (funding_pool m')"
        unfolding p(1) using p(2) by (auto simp: keeps_append split: option.split)
      show ?thesis
        using keeps_trans(1) [OF keeps_delete(1) app(1)] keeps_trans(2) [OF keeps_delete(2) app(2)]
        by (simp add: F_RecordSpend Some)
    qed
  next
    case (F_DeleteStale t v)
    then show ?thesis by (auto simp: deleteStale_def deleteFundingUtxo_def keeps_delete)
  next
    case (F_ReshapeDelete inputs)
    then show ?thesis by (simp add: reshapeDelete_def keeps_delete)
  next
    case (F_ReshapeInsert now t b)
    then show ?thesis by (simp add: reshapeInsert_def keeps_insert)
  next
    case (F_Load now guard force script answer)
    then show ?thesis
      using loadFundingChain_keeps(1) [where answer = answer] loadFundingChain_keeps(2) [where k = k and answer = answer]
      by (auto split: option.splits)
  next
    case (F_Unlock listed cutoff)
    then show ?thesis using unlockListedFunding_keeps(1) unlockListedFunding_keeps(2) [where k = k] by simp
  next
    case F_UnlockAll
    then show ?thesis by (simp add: fundingUnlockAll_def unlockAllFundingUtxos_def keeps_unlock(1))
  qed simp
  then show "keepsKeys (funding_pool m) (funding_pool (fundingStep a m))"
    "\<not> mayFreeFunding k a \<Longrightarrow> keepsHeld k (funding_pool m) (funding_pool (fundingStep a m))" by blast+
qed


interpretation treasuryPool: exclusive_pool fundingStep funding_inv heldFunding mayFreeFunding
  using fundingStep_keeps by unfold_locales (auto simp: funding_inv_def keepsKeys_def heldFunding_def keepsHeld_def)

lemma held_locked: "funding_inv m \<Longrightarrow> heldFunding k m \<Longrightarrow> r \<in> set (funding_pool m) \<Longrightarrow> keyOfFunding r = k \<Longrightarrow> fu_is_locked r"
  by (auto simp: funding_inv_def heldFunding_def distinct_map inj_on_def)

lemma selected_held:
  assumes "acquireMany now busy minSats maxInputs fee m = ((sel, d), m')" "r \<in> set sel" "0 \<le> now"
  shows "heldFunding (keyOfFunding r) m'"
proof -
  have ne: "sel \<noteq> []" using assms(2) by auto
  note s = acquireMany_selection [OF assms(1) ne assms(3)]
  have r: "r \<in> set (funding_pool m)" using s(1) assms(2) by (auto simp: list_all_iff takable_def)
  let ?r = "r\<lparr>fu_is_locked := True, fu_locked_at := Some now\<rparr>"
  have "?r \<in> set (funding_pool m')"
    unfolding s(5) lockFunding_def updateFunding_def set_map
    by (rule image_eqI [OF _ r]) (use assms(2) in simp)
  then show ?thesis unfolding heldFunding_def by (rule bexI [rotated]) simp
qed

lemma acquire_unlocked:
  assumes "acquire now busy minSats m = (Some r, m')"
  shows "r \<in> set (funding_pool m)" "\<not> fu_is_locked r"
proof -
  obtain P Q where f: "List.find P (largestFirst (filter Q (funding_pool m))) = Some r" "\<And>x. Q x \<Longrightarrow> \<not> fu_is_locked x"
    using assms by (auto simp: acquire_def Let_def split: option.splits)
  have "r \<in> set (largestFirst (filter Q (funding_pool m)))" using f(1) by (auto simp: find_Some_iff)
  then show "r \<in> set (funding_pool m)" "\<not> fu_is_locked r" using f(2) by (auto simp: largestFirst_def)
qed

lemma acquireSmall_unlocked:
  assumes "r \<in> set (fst (acquireSmallOutputs now busy below limit m))"
  shows "r \<in> set (funding_pool m)" "\<not> fu_is_locked r"
  using assms by (auto simp: acquireSmallOutputs_def Let_def dest!: in_set_takeD split: if_splits)

text \<open>
  C26: an output of the treasury that a selection has handed out is handed to nobody else, whatever other tasks
  of the writer do meanwhile, until a step that may end the hold: its own release, spend or deletion, a listing
  of the chain without it, or an unlocking that relies on a listing with it.
\<close>

theorem treasury_one_owner:
  assumes "acquireMany now busy minSats maxInputs fee m = ((sel, d), m1)" "r \<in> set sel" "funding_inv m" "0 \<le> now"
    and "list_all (\<lambda>a. \<not> mayFreeFunding (keyOfFunding r) a) as" "0 \<le> now'"
  defines "m2 \<equiv> fold fundingStep as m1"
  shows "heldFunding (keyOfFunding r) m2
    \<and> keyOfFunding r \<notin> keyOfFunding ` set (fst (fst (acquireMany now' busy' minSats' maxInputs' fee' m2)))
    \<and> keyOfFunding r \<notin> keyOfFunding ` set (fst (acquireSmallOutputs now' busy' below limit m2))
    \<and> (case fst (acquire now' busy' minSats' m2) of Some r' \<Rightarrow> keyOfFunding r' \<noteq> keyOfFunding r | None \<Rightarrow> True)"
proof -
  have "funding_inv (fundingStep (F_AcquireMany now busy minSats maxInputs fee) m)"
    by (rule treasuryPool.step_inv) (rule assms(3))
  then have inv1: "funding_inv m1" by (simp add: assms(1))
  have inv: "funding_inv m2" unfolding m2_def by (rule treasuryPool.run_inv [OF inv1])
  have held: "heldFunding (keyOfFunding r) m2"
    unfolding m2_def by (rule treasuryPool.run_holds [OF inv1 selected_held [OF assms(1,2,4)] assms(5)])
  have locked: "fu_is_locked x" if "x \<in> set (funding_pool m2)" "keyOfFunding x = keyOfFunding r" for x
    using held_locked [OF inv held that] .
  have "keyOfFunding x \<noteq> keyOfFunding r"
    if "x \<in> set (fst (fst (acquireMany now' busy' minSats' maxInputs' fee' m2)))" for x
  proof -
    obtain s2 d2 m3 where a: "acquireMany now' busy' minSats' maxInputs' fee' m2 = ((s2, d2), m3)" by (metis surj_pair)
    then have "x \<in> set s2" "s2 \<noteq> []" using that by auto
    then have "takable now' busy' m2 x" using acquireMany_selection(1) [OF a _ assms(6)] by (simp add: list_all_iff)
    then show ?thesis using locked by (auto simp: takable_def)
  qed
  moreover have "keyOfFunding x \<noteq> keyOfFunding r" if "x \<in> set (fst (acquireSmallOutputs now' busy' below limit m2))" for x
    using acquireSmall_unlocked [OF that] locked by blast
  moreover have "case fst (acquire now' busy' minSats' m2) of Some r' \<Rightarrow> keyOfFunding r' \<noteq> keyOfFunding r | None \<Rightarrow> True"
  proof (cases "acquire now' busy' minSats' m2")
    case (Pair o2 m3)
    show ?thesis
      using locked acquire_unlocked [where now = now' and busy = busy' and minSats = minSats' and m = m2] Pair
      by (cases o2) auto
  qed
  ultimately show ?thesis using held unfolding image_iff by (intro conjI) metis+
qed

text \<open>A treasury of three outputs: a refill of 800 takes the largest one, and then the next is handed out.\<close>

definition exampleTreasury :: FundingUtxoManager where
  "exampleTreasury =
     newFundingUtxoManager 25
       [newFundingRow 0 ''aa'' 0 600 '''', newFundingRow 0 ''bb'' 1 900 '''', newFundingRow 0 ''cc'' 2 700 ''''] newHold"

lemmas selection_eval = exampleTreasury_def acquireMany_def acquire_def largestFirst_def newFundingUtxoManager_def
  newFundingRow_def pruneFundingCooldowns_def isFundingCooling_def tooDeep_def exceedsCap_def depthOf_def newDepth_def
  FUNDING_MIN_USABLE_SATS_def feeOf_def lockFunding_def updateFunding_def keyOfFunding_def Let_def sort_key_def

theorem treasury_one_owner_witness:
  "\<exists>r d m1. acquireMany 1000 (\<lambda>_. False) 800 5 None exampleTreasury = (([r], d), m1) \<and> keyOfFunding r = (''bb'', 1)
     \<and> (case fst (acquire 3000 (\<lambda>_. False) 546 (fold fundingStep [F_Release ''cc'' 2] m1)) of
          Some r' \<Rightarrow> keyOfFunding r' \<noteq> (''bb'', 1) | None \<Rightarrow> True)"
proof -
  have "\<exists>r d m1. acquireMany 1000 (\<lambda>_. False) 800 5 None exampleTreasury = (([r], d), m1) \<and> keyOfFunding r = (''bb'', 1)"
    by (simp add: selection_eval)
  then obtain r d m1 where a: "acquireMany 1000 (\<lambda>_. False) 800 5 None exampleTreasury = (([r], d), m1)"
    "keyOfFunding r = (''bb'', 1)" by blast
  have "funding_inv exampleTreasury"
    by (simp add: funding_inv_def exampleTreasury_def newFundingUtxoManager_def)
  then show ?thesis
    using treasury_one_owner [OF a(1), of r "[F_Release ''cc'' 2]" 3000 "\<lambda>_. False" 546 1 None 600 1] a
    by (auto split: option.splits)
qed


lemma loadInsert_keys:
  "keyOfFunding ` set (funding_pool (snd (loadInsert now guard scr loc u am)))
     \<subseteq> insert (tx_hash u, tx_pos u) (keyOfFunding ` set (funding_pool (snd am)))"
  by (auto simp: loadInsert_def Let_def insertFundingUtxo_def keyOfFunding_def newFundingRow_def split: prod.splits if_splits)

lemma load_inserts_keys:
  "keyOfFunding ` set (funding_pool (snd (fold (loadInsert now guard scr loc) us am)))
     \<subseteq> keyOfFunding ` set (funding_pool (snd am)) \<union> (\<lambda>u. (tx_hash u, tx_pos u)) ` set us"
proof (induction us arbitrary: am)
  case (Cons u us)
  show ?case using Cons.IH [of "loadInsert now guard scr loc u am"] loadInsert_keys [of now guard scr loc u am]
    by (simp del: image_Un) blast
qed simp

lemma load_removes_keys:
  "keyOfFunding ` set (funding_pool (snd (fold (loadRemove now guard listed) rows rm))) \<subseteq> keyOfFunding ` set (funding_pool (snd rm))"
proof (induction rows arbitrary: rm)
  case (Cons r rows)
  have "keyOfFunding ` set (funding_pool (snd (loadRemove now guard listed r rm))) \<subseteq> keyOfFunding ` set (funding_pool (snd rm))"
    by (auto simp: loadRemove_def Let_def deleteFundingUtxo_def deleteFunding_def split: prod.split)
  then show ?case using Cons.IH [of "loadRemove now guard listed r rm"] by simp
qed simp

lemma fundingReconcile_keys:
  "keyOfFunding ` set (funding_pool (snd (fundingReconcile now guard joined force scr answer m)))
     \<subseteq> keyOfFunding ` set (funding_pool m)
       \<union> (case answer of Unreachable _ \<Rightarrow> {} | Listing us \<Rightarrow> (\<lambda>u. (tx_hash u, tx_pos u)) ` set us)"
proof -
  have load: "keyOfFunding ` set (funding_pool (snd (loadFundingChain now guard force scr answer m')))
      \<subseteq> keyOfFunding ` set (funding_pool m')
        \<union> (case answer of Unreachable _ \<Rightarrow> {} | Listing us \<Rightarrow> (\<lambda>u. (tx_hash u, tx_pos u)) ` set us)" for m'
  proof (cases answer)
    case (Listing us)
    define m1 where "m1 = m'\<lparr>reconcileEarliestRetryAt := now + MIN_RECONCILE_INTERVAL_MS\<rparr>"
    define g where "g = (if force then 0 else guard)"
    define listed where "listed = set (map (\<lambda>u. outpointKey (tx_hash u) (tx_pos u)) us)"
    define loc where "loc = set (map (\<lambda>r. outpointKey (fu_txid r) (fu_vout r)) (funding_pool m1))"
    define ia where "ia = fold (loadInsert now g scr loc) us (0, m1)"
    define ra where "ra = fold (loadRemove now g listed) (funding_pool m1) (0, snd ia)"
    have "funding_pool (snd (loadFundingChain now guard force scr answer m')) = funding_pool (snd ra)"
      unfolding Listing loadFundingChain_def chain_answer.case Let_def
      by (simp add: m1_def [symmetric] g_def [symmetric] listed_def [symmetric] loc_def [symmetric] ia_def [symmetric]
          ra_def [symmetric] split: prod.split) (simp add: m1_def ra_def ia_def listed_def loc_def g_def)
    moreover have "funding_pool m1 = funding_pool m'" by (simp add: m1_def)
    ultimately show ?thesis
      using load_removes_keys [of now g listed "funding_pool m1" "(0, snd ia)"]
        load_inserts_keys [of now g scr loc us "(0, m1)"]
      by (simp add: Listing ra_def ia_def)
  qed (simp add: loadFundingChain_def)
  have "funding_pool (snd (fundingReconcile now guard joined force scr answer m))
     \<in> {funding_pool m, funding_pool (snd (loadFundingChain now guard force scr answer (m\<lparr>fundingBound := True\<rparr>)))}"
    by (auto simp: fundingReconcile_def Let_def split: prod.split option.split)
  then consider "funding_pool (snd (fundingReconcile now guard joined force scr answer m)) = funding_pool m"
    | "funding_pool (snd (fundingReconcile now guard joined force scr answer m))
        = funding_pool (snd (loadFundingChain now guard force scr answer (m\<lparr>fundingBound := True\<rparr>)))" by blast
  then show ?thesis using load [of "m\<lparr>fundingBound := True\<rparr>"] by cases simp_all
qed

end
