(* ===== verification/Arc_Broadcaster.thy ===== *)
theory Arc_Broadcaster
  imports Tx_Builder "HOL-Library.Multiset"
begin

text \<open>
  The broadcaster over ARC, \<open>services/blockchain-writer/src/broadcaster.ts\<close>: how a failed broadcast is
  classified, one upstream with its priority queue, its retries and its circuit breaker
  (\<open>SingleArcBroadcaster\<close>), and the choice between several upstreams (\<open>ArcBroadcaster\<close>).

  An upstream is a state machine. Its events are a submission, the end of one attempt of a running broadcast with
  the outcome of the HTTP call, and the timer that resumes a closed breaker. \<open>settled\<close> lists, oldest first, the
  sequence numbers of the promises resolved and their outcomes. A broadcast between two attempts still
  counts as running. HTTP, callbacks and metrics are left out.

  Results: the classes of failures are disjoint; queue and concurrency stay within their bounds, tasks start in the
  order of priority, then of arrival, no task is lost or settled twice, and capacity is left unused only while the
  breaker is open; an aircraft keeps its upstream while that can take work.
\<close>

subsection \<open>Outcomes\<close>

datatype BroadcastStatus = SEEN_ON_NETWORK | FAILED

record BroadcastOutcome =
  bo_txid :: string
  bo_status :: BroadcastStatus
  bo_code :: "string option"
  bo_description :: "string option"

definition NOT_SEEN_ON_NETWORK_CODE :: string where "NOT_SEEN_ON_NETWORK_CODE = ''NOT_SEEN_ON_NETWORK''"
definition SPEND_HALTED_CODE :: string where "SPEND_HALTED_CODE = ''SPEND_HALTED''"

definition DEPENDENCY_PENDING_CODES :: "string set" where
  "DEPENDENCY_PENDING_CODES = {''SEEN_IN_ORPHAN_MEMPOOL'', NOT_SEEN_ON_NETWORK_CODE}"

definition LOCAL_BACKPRESSURE_CODES :: "string set" where
  "LOCAL_BACKPRESSURE_CODES = {''ARC_QUEUE_SATURATED'', ''ARC_CIRCUIT_OPEN'', ''SPEND_HALTED''}"

definition TRANSIENT_FAILURE_CODES :: "string set" where
  "TRANSIENT_FAILURE_CODES = {''408'', ''429'', ''500'', ''502'', ''503'', ''504'', ''ABORTERROR'', ''TYPEERROR''}"

definition EXPLICIT_TERMINAL_REJECT_CODES :: "string set" where
  "EXPLICIT_TERMINAL_REJECT_CODES = {''REJECTED'', ''DOUBLE_SPEND_ATTEMPTED''}"

definition TRANSPORT_DESCRIPTION_PHRASES :: "string list" where
  "TRANSPORT_DESCRIPTION_PHRASES =
     [''fetch failed'', ''failed to fetch'', ''networkerror'', ''network error'', ''network request failed'',
      ''network connection'', ''timeout'', ''timed out'', ''temporarily unavailable'', ''connection reset'',
      ''connection refused'', ''econnreset'', ''econnrefused'', ''enotfound'', ''eai_again'', ''socket'', ''aborted'']"

text \<open>\<open>String.prototype.includes\<close>, and a prefix that ends at a word boundary.\<close>

definition js_includes :: "string \<Rightarrow> string \<Rightarrow> bool" where
  "js_includes s needle \<longleftrightarrow> list_ex (\<lambda>i. take (length needle) (drop i s) = needle) [0..<length s + 1]"

definition wordChar :: "char \<Rightarrow> bool" where
  "wordChar c \<longleftrightarrow> (let n = (of_char c :: nat) in
     (48 \<le> n \<and> n \<le> 57) \<or> (65 \<le> n \<and> n \<le> 90) \<or> (97 \<le> n \<and> n \<le> 122) \<or> n = 95)"

definition startsWithWord :: "string \<Rightarrow> string \<Rightarrow> bool" where
  "startsWithWord w s \<longleftrightarrow> take (length w) s = w \<and> (case drop (length w) s of [] \<Rightarrow> True | c # _ \<Rightarrow> \<not> wordChar c)"

definition codeOf :: "BroadcastOutcome \<Rightarrow> string" where
  "codeOf r = js_upper (js_trim (case bo_code r of Some c \<Rightarrow> c | None \<Rightarrow> ''''))"

definition isDependencyPendingBroadcastFailure :: "BroadcastOutcome \<Rightarrow> bool" where
  "isDependencyPendingBroadcastFailure r \<longleftrightarrow> bo_status r = FAILED \<and> codeOf r \<in> DEPENDENCY_PENDING_CODES"

definition isLocalBackpressureBroadcastFailure :: "BroadcastOutcome \<Rightarrow> bool" where
  "isLocalBackpressureBroadcastFailure r \<longleftrightarrow> bo_status r = FAILED \<and> codeOf r \<in> LOCAL_BACKPRESSURE_CODES"

definition isExplicitTerminalReject :: "string \<Rightarrow> string \<Rightarrow> bool" where
  "isExplicitTerminalReject code description =
     (if code \<in> EXPLICIT_TERMINAL_REJECT_CODES then True
      else let descriptionStatus = js_upper (js_trim description)
           in if descriptionStatus \<in> EXPLICIT_TERMINAL_REJECT_CODES then True
              else if js_includes descriptionStatus ''DOUBLE_SPEND_ATTEMPTED'' then True
              else startsWithWord ''REJECTED'' descriptionStatus)"

definition isTransientBroadcastFailure :: "BroadcastOutcome \<Rightarrow> bool" where
  "isTransientBroadcastFailure r =
     (if bo_status r \<noteq> FAILED then False
      else let code = codeOf r;
               description = js_lower (js_trim (case bo_description r of Some d \<Rightarrow> d | None \<Rightarrow> ''''))
           in if isExplicitTerminalReject code description then False
              else if code \<in> DEPENDENCY_PENDING_CODES then False
              else if code \<in> LOCAL_BACKPRESSURE_CODES then False
              else if code \<in> TRANSIENT_FAILURE_CODES then True
              else list_ex (js_includes description) TRANSPORT_DESCRIPTION_PHRASES)"

definition failedWith :: "string \<Rightarrow> string \<Rightarrow> BroadcastOutcome" where
  "failedWith code description =
     \<lparr> bo_txid = [], bo_status = FAILED, bo_code = Some code, bo_description = Some description \<rparr>"

lemma failure_classes_disjoint:
  "isDependencyPendingBroadcastFailure r \<Longrightarrow> \<not> isLocalBackpressureBroadcastFailure r"
  "isDependencyPendingBroadcastFailure r \<Longrightarrow> \<not> isTransientBroadcastFailure r"
  "isLocalBackpressureBroadcastFailure r \<Longrightarrow> \<not> isTransientBroadcastFailure r"
  by (auto simp: isDependencyPendingBroadcastFailure_def isLocalBackpressureBroadcastFailure_def
      isTransientBroadcastFailure_def Let_def DEPENDENCY_PENDING_CODES_def LOCAL_BACKPRESSURE_CODES_def
      NOT_SEEN_ON_NETWORK_CODE_def)

subsection \<open>One upstream\<close>

record ArcBroadcasterConfig =
  maxConcurrentBroadcasts :: nat
  maxQueueDepth :: nat
  transientRetryAttempts :: nat
  transientRetryBaseMs :: millis
  circuitFailureThreshold :: nat
  circuitWindowMs :: millis
  circuitOpenMs :: millis

definition DEFAULT_CONFIG :: ArcBroadcasterConfig where
  "DEFAULT_CONFIG =
     \<lparr> maxConcurrentBroadcasts = 4, maxQueueDepth = 12, transientRetryAttempts = 2, transientRetryBaseMs = 250,
       circuitFailureThreshold = 8, circuitWindowMs = 10000, circuitOpenMs = 8000 \<rparr>"

record BroadcastOptions =
  op_kind :: "BroadcastKind option"
  op_priority :: "int option"
  op_allowTransientRetry :: "bool option"

record ResolvedBroadcastOptions =
  ro_kind :: BroadcastKind
  ro_priority :: int
  ro_allowTransientRetry :: bool

definition resolveOptions :: "BroadcastOptions option \<Rightarrow> ResolvedBroadcastOptions" where
  "resolveOptions options =
     \<lparr> ro_kind = (case Option.bind options op_kind of Some k \<Rightarrow> k | None \<Rightarrow> Tx),
       ro_priority = (case Option.bind options op_priority of Some p \<Rightarrow> p | None \<Rightarrow> 50),
       ro_allowTransientRetry = (case Option.bind options op_allowTransientRetry of Some b \<Rightarrow> b | None \<Rightarrow> True) \<rparr>"

record QueuedBroadcast =
  qb_seq :: nat
  qb_tx :: Transaction
  qb_icao :: "string option"
  qb_options :: ResolvedBroadcastOptions
  qb_enqueuedAt :: millis

text \<open>\<open>running\<close> pairs a task with the number of its current attempt, from 0; its length is \<open>inFlight\<close>.\<close>

record SingleArcBroadcaster =
  ab_config :: ArcBroadcasterConfig
  ab_queue :: "QueuedBroadcast list"
  ab_running :: "(QueuedBroadcast \<times> nat) list"
  ab_seq :: nat
  breakerOpenUntil :: millis
  transientFailureTimes :: "millis list"
  ab_settled :: "(nat \<times> BroadcastOutcome) list"

definition newArcBroadcaster :: "ArcBroadcasterConfig \<Rightarrow> SingleArcBroadcaster" where
  "newArcBroadcaster cfg =
     \<lparr> ab_config = cfg, ab_queue = [], ab_running = [], ab_seq = 0, breakerOpenUntil = 0,
       transientFailureTimes = [], ab_settled = [] \<rparr>"

definition isCircuitOpen :: "millis \<Rightarrow> SingleArcBroadcaster \<Rightarrow> bool" where
  "isCircuitOpen now b \<longleftrightarrow> breakerOpenUntil b > now"

text \<open>The comparison of the queue's sort, and insertion into the sorted queue.\<close>

definition precedes :: "QueuedBroadcast \<Rightarrow> QueuedBroadcast \<Rightarrow> bool" where
  "precedes a b \<longleftrightarrow>
     (if ro_priority (qb_options a) \<noteq> ro_priority (qb_options b)
      then ro_priority (qb_options a) < ro_priority (qb_options b) else qb_seq a \<le> qb_seq b)"

fun enqueue :: "QueuedBroadcast \<Rightarrow> QueuedBroadcast list \<Rightarrow> QueuedBroadcast list" where
  "enqueue t [] = [t]"
| "enqueue t (q # qs) = (if precedes t q then t # q # qs else q # enqueue t qs)"

definition schedule :: "millis \<Rightarrow> SingleArcBroadcaster \<Rightarrow> SingleArcBroadcaster" where
  "schedule now b =
     (if isCircuitOpen now b then b
      else let n = maxConcurrentBroadcasts (ab_config b) - length (ab_running b)
           in b\<lparr>ab_running := ab_running b @ map (\<lambda>t. (t, 0)) (take n (ab_queue b)), ab_queue := drop n (ab_queue b)\<rparr>)"

text \<open>\<open>Inl\<close> is a refusal, \<open>Inr\<close> the sequence number of the promise.\<close>

definition broadcastTo ::
  "millis \<Rightarrow> Transaction \<Rightarrow> string option \<Rightarrow> BroadcastOptions option \<Rightarrow> SingleArcBroadcaster \<Rightarrow>
     (BroadcastOutcome + nat) \<times> SingleArcBroadcaster" where
  "broadcastTo now tx icao options b =
     (if isCircuitOpen now b then (Inl (failedWith ''ARC_CIRCUIT_OPEN'' ''ARC circuit breaker open''), b)
      else if length (ab_queue b) \<ge> maxQueueDepth (ab_config b)
      then (Inl (failedWith ''ARC_QUEUE_SATURATED'' ''ARC broadcaster queue saturated''), b)
      else let t = \<lparr> qb_seq = ab_seq b, qb_tx = tx, qb_icao = icao, qb_options = resolveOptions options,
                     qb_enqueuedAt = now \<rparr>
           in (Inr (ab_seq b), schedule now (b\<lparr>ab_seq := ab_seq b + 1, ab_queue := enqueue t (ab_queue b)\<rparr>)))"

definition pruneTransientFailures :: "millis \<Rightarrow> SingleArcBroadcaster \<Rightarrow> SingleArcBroadcaster" where
  "pruneTransientFailures now b =
     b\<lparr>transientFailureTimes := filter (\<lambda>ts. ts \<ge> now - circuitWindowMs (ab_config b)) (transientFailureTimes b)\<rparr>"

definition noteTransientFailure :: "millis \<Rightarrow> SingleArcBroadcaster \<Rightarrow> SingleArcBroadcaster" where
  "noteTransientFailure now b0 =
     (let b = pruneTransientFailures now (b0\<lparr>transientFailureTimes := transientFailureTimes b0 @ [now]\<rparr>)
      in if length (transientFailureTimes b) \<ge> circuitFailureThreshold (ab_config b) \<and> now \<ge> breakerOpenUntil b
         then b\<lparr>breakerOpenUntil := now + circuitOpenMs (ab_config b)\<rparr> else b)"

definition totalAttempts :: "QueuedBroadcast \<Rightarrow> SingleArcBroadcaster \<Rightarrow> nat" where
  "totalAttempts t b =
     max 1 (1 + (if ro_allowTransientRetry (qb_options t) then transientRetryAttempts (ab_config b) else 0))"

text \<open>The promise is resolved, the slot is freed and the queue scheduled.\<close>

definition settle :: "millis \<Rightarrow> nat \<Rightarrow> BroadcastOutcome \<Rightarrow> SingleArcBroadcaster \<Rightarrow> SingleArcBroadcaster" where
  "settle now s outcome b =
     schedule now (b\<lparr>ab_running := filter (\<lambda>(t, _). qb_seq t \<noteq> s) (ab_running b),
                     ab_settled := ab_settled b @ [(s, outcome)]\<rparr>)"

text \<open>One attempt of the running task \<open>s\<close> has ended; a transient failure is tried again while attempts are left.\<close>

definition attemptEnds :: "millis \<Rightarrow> nat \<Rightarrow> BroadcastOutcome \<Rightarrow> SingleArcBroadcaster \<Rightarrow> SingleArcBroadcaster" where
  "attemptEnds now s outcome b =
     (case List.find (\<lambda>(t, _). qb_seq t = s) (ab_running b) of
        None \<Rightarrow> b
      | Some (t, attempt) \<Rightarrow>
          if bo_status outcome = SEEN_ON_NETWORK then settle now s outcome (b\<lparr>transientFailureTimes := []\<rparr>)
          else if isTransientBroadcastFailure outcome \<and> attempt + 1 < totalAttempts t b
          then b\<lparr>ab_running := map (\<lambda>(u, k). if qb_seq u = s then (u, k + 1) else (u, k)) (ab_running b)\<rparr>
          else settle now s outcome (if isTransientBroadcastFailure outcome then noteTransientFailure now b else b))"

definition breakerResume :: "millis \<Rightarrow> SingleArcBroadcaster \<Rightarrow> SingleArcBroadcaster" where
  "breakerResume now b = schedule now b"

text \<open>\<open>random\<close> is \<open>Math.random()\<close>.\<close>

definition getRetryDelayMs :: "real \<Rightarrow> nat \<Rightarrow> SingleArcBroadcaster \<Rightarrow> int" where
  "getRetryDelayMs random attempt b =
     transientRetryBaseMs (ab_config b) * 2 ^ attempt + \<lfloor>random * of_int (transientRetryBaseMs (ab_config b))\<rfloor>"

record ArcBroadcasterState =
  st_inFlight :: nat
  st_queueDepth :: nat
  st_circuitOpen :: bool
  st_circuitOpenRemainingMs :: millis

definition getState :: "millis \<Rightarrow> SingleArcBroadcaster \<Rightarrow> ArcBroadcasterState \<times> SingleArcBroadcaster" where
  "getState now b0 =
     (let b = pruneTransientFailures now b0; remaining = max 0 (breakerOpenUntil b - now)
      in (\<lparr> st_inFlight = length (ab_running b), st_queueDepth = length (ab_queue b),
            st_circuitOpen = (remaining > 0), st_circuitOpenRemainingMs = remaining \<rparr>, b))"

definition isDegraded :: "millis \<Rightarrow> SingleArcBroadcaster \<Rightarrow> bool" where
  "isDegraded now b =
     (let st = fst (getState now b); cap = maxConcurrentBroadcasts (ab_config b)
      in st_circuitOpen st \<or> st_queueDepth st \<ge> max 1 cap \<or> st_inFlight st \<ge> cap)"

subsection \<open>Several upstreams\<close>

definition hashIcao :: "string \<Rightarrow> 32 word" where
  "hashIcao icao = foldl (\<lambda>hash c. hash * 31 + of_nat (of_char c)) 0 (js_upper (js_trim icao))"

definition getLoadScore :: "millis \<Rightarrow> SingleArcBroadcaster \<Rightarrow> nat" where
  "getLoadScore now b = (let st = fst (getState now b) in st_queueDepth st * 1000 + st_inFlight st)"

text \<open>The upstreams by their positions. An empty identifier counts as none.\<close>

definition getOrderedBroadcasters :: "millis \<Rightarrow> string option \<Rightarrow> SingleArcBroadcaster list \<Rightarrow> nat list" where
  "getOrderedBroadcasters now icao bs =
     (if length bs \<le> 1 then [0..<length bs]
      else case icao of
        Some key \<Rightarrow> if key = [] then sort_key (\<lambda>i. getLoadScore now (bs ! i)) [0..<length bs]
          else map (\<lambda>i. (unat (hashIcao key) mod length bs + i) mod length bs) [0..<length bs]
      | None \<Rightarrow> sort_key (\<lambda>i. getLoadScore now (bs ! i)) [0..<length bs])"

definition canTake :: "millis \<Rightarrow> SingleArcBroadcaster \<Rightarrow> bool" where
  "canTake now b = (let st = fst (getState now b) in \<not> st_circuitOpen st \<and> st_queueDepth st < maxQueueDepth (ab_config b))"

definition selectBroadcaster :: "millis \<Rightarrow> string option \<Rightarrow> SingleArcBroadcaster list \<Rightarrow> nat" where
  "selectBroadcaster now icao bs =
     (let ordered = getOrderedBroadcasters now icao bs
      in case List.find (\<lambda>i. canTake now (bs ! i)) ordered of
           Some i \<Rightarrow> i
         | None \<Rightarrow> (case ordered of i # _ \<Rightarrow> i | [] \<Rightarrow> 0))"

definition fleetBroadcast ::
  "millis \<Rightarrow> Transaction \<Rightarrow> string option \<Rightarrow> BroadcastOptions option \<Rightarrow> SingleArcBroadcaster list \<Rightarrow>
     (nat \<times> (BroadcastOutcome + nat)) \<times> SingleArcBroadcaster list" where
  "fleetBroadcast now tx icao options bs =
     (let i = selectBroadcaster now icao bs
      in case broadcastTo now tx icao options (bs ! i) of (r, b) \<Rightarrow> ((i, r), bs[i := b]))"

definition fleetState :: "millis \<Rightarrow> SingleArcBroadcaster list \<Rightarrow> ArcBroadcasterState" where
  "fleetState now bs =
     (let states = map (\<lambda>b. fst (getState now b)) bs;
          circuitOpen = (states \<noteq> [] \<and> list_all st_circuitOpen states)
      in \<lparr> st_inFlight = sum_list (map st_inFlight states), st_queueDepth = sum_list (map st_queueDepth states),
           st_circuitOpen = circuitOpen,
           st_circuitOpenRemainingMs = (if circuitOpen then Min (set (map st_circuitOpenRemainingMs states)) else 0) \<rparr>)"

definition fleetLimits :: "SingleArcBroadcaster list \<Rightarrow> nat \<times> nat" where
  "fleetLimits bs =
     (sum_list (map (\<lambda>b. maxConcurrentBroadcasts (ab_config b)) bs), sum_list (map (\<lambda>b. maxQueueDepth (ab_config b)) bs))"

definition fleetDegraded :: "millis \<Rightarrow> SingleArcBroadcaster list \<Rightarrow> bool" where
  "fleetDegraded now bs = list_all (isDegraded now) bs"

subsection \<open>Invariants of an upstream\<close>

datatype arc_event =
  Submit millis Transaction "string option" "BroadcastOptions option"
| Attempt_ends millis nat BroadcastOutcome
| Resume millis

fun arcStep :: "arc_event \<Rightarrow> SingleArcBroadcaster \<Rightarrow> SingleArcBroadcaster" where
  "arcStep (Submit now tx icao options) b = snd (broadcastTo now tx icao options b)"
| "arcStep (Attempt_ends now s outcome) b = attemptEnds now s outcome b"
| "arcStep (Resume now) b = breakerResume now b"

fun eventTime :: "arc_event \<Rightarrow> millis" where
  "eventTime (Submit now tx icao options) = now"
| "eventTime (Attempt_ends now s outcome) = now"
| "eventTime (Resume now) = now"

definition runningSeqs :: "SingleArcBroadcaster \<Rightarrow> nat list" where
  "runningSeqs b = map (\<lambda>(t, _). qb_seq t) (ab_running b)"

definition queuedSeqs :: "SingleArcBroadcaster \<Rightarrow> nat list" where
  "queuedSeqs b = map qb_seq (ab_queue b)"

definition arc_inv :: "SingleArcBroadcaster \<Rightarrow> bool" where
  "arc_inv b \<longleftrightarrow>
     length (ab_running b) \<le> maxConcurrentBroadcasts (ab_config b)
   \<and> length (ab_queue b) \<le> maxQueueDepth (ab_config b)
   \<and> sorted_wrt precedes (ab_queue b)
   \<and> mset (queuedSeqs b) + mset (runningSeqs b) + mset (map fst (ab_settled b)) = mset [0..<ab_seq b]"

definition idleOnlyWhenOpen :: "millis \<Rightarrow> SingleArcBroadcaster \<Rightarrow> bool" where
  "idleOnlyWhenOpen now b \<longleftrightarrow>
     isCircuitOpen now b \<or> ab_queue b = [] \<or> length (ab_running b) \<ge> maxConcurrentBroadcasts (ab_config b)"

lemma precedes_trans: "precedes a b \<Longrightarrow> precedes b c \<Longrightarrow> precedes a c"
  by (auto simp: precedes_def split: if_splits)

lemma precedes_total: "\<not> precedes a b \<Longrightarrow> precedes b a"
  by (auto simp: precedes_def split: if_splits)

lemma enqueue_set [simp]: "set (enqueue t qs) = insert t (set qs)" "length (enqueue t qs) = length qs + 1"
  "image_mset qb_seq (mset (enqueue t qs)) = add_mset (qb_seq t) (image_mset qb_seq (mset qs))"
  by (induction qs) auto

lemma enqueue_sorted: "sorted_wrt precedes qs \<Longrightarrow> sorted_wrt precedes (enqueue t qs)"
  by (induction qs) (auto intro: precedes_trans precedes_total)

lemma schedule_simps [simp]:
  "ab_config (schedule now b) = ab_config b" "ab_seq (schedule now b) = ab_seq b"
  "ab_settled (schedule now b) = ab_settled b" "breakerOpenUntil (schedule now b) = breakerOpenUntil b"
  by (simp_all add: schedule_def Let_def)

lemma schedule_seqs:
  "mset (queuedSeqs (schedule now b)) + mset (runningSeqs (schedule now b)) = mset (queuedSeqs b) + mset (runningSeqs b)"
proof (cases "isCircuitOpen now b")
  case True
  then show ?thesis by (simp add: schedule_def)
next
  case False
  define n where "n = maxConcurrentBroadcasts (ab_config b) - length (ab_running b)"
  have q: "queuedSeqs (schedule now b) = map qb_seq (drop n (ab_queue b))"
    and r: "runningSeqs (schedule now b) = runningSeqs b @ map qb_seq (take n (ab_queue b))"
    using False by (simp_all add: schedule_def queuedSeqs_def runningSeqs_def n_def Let_def)
  have "mset (map qb_seq (take n (ab_queue b))) + mset (map qb_seq (drop n (ab_queue b))) = mset (queuedSeqs b)"
    unfolding queuedSeqs_def by (metis append_take_drop_id map_append mset_append)
  then show ?thesis unfolding q r mset_append by (metis add.commute add.left_commute)
qed

lemma schedule_idle:
  "length (ab_running b) \<le> maxConcurrentBroadcasts (ab_config b) \<Longrightarrow> idleOnlyWhenOpen now (schedule now b)"
  by (auto simp: schedule_def idleOnlyWhenOpen_def isCircuitOpen_def Let_def)

lemma schedule_inv:
  assumes "length (ab_running b) \<le> maxConcurrentBroadcasts (ab_config b)" "sorted_wrt precedes (ab_queue b)"
  shows "length (ab_running (schedule now b)) \<le> maxConcurrentBroadcasts (ab_config b)"
    "sorted_wrt precedes (ab_queue (schedule now b))" "length (ab_queue (schedule now b)) \<le> length (ab_queue b)"
  using assms by (auto simp: schedule_def Let_def sorted_wrt_drop)

text \<open>The tasks that a scheduling starts come before those it leaves waiting.\<close>

lemma schedule_order:
  assumes "sorted_wrt precedes (ab_queue b)"
    and "(t, k) \<in> set (ab_running (schedule now b))" "(t, k) \<notin> set (ab_running b)" "u \<in> set (ab_queue (schedule now b))"
  shows "precedes t u"
proof -
  let ?n = "maxConcurrentBroadcasts (ab_config b) - length (ab_running b)"
  have "t \<in> set (take ?n (ab_queue b))" "u \<in> set (drop ?n (ab_queue b))"
    using assms by (auto simp: schedule_def Let_def split: if_splits)
  moreover have "sorted_wrt precedes (take ?n (ab_queue b) @ drop ?n (ab_queue b))" using assms(1) by simp
  ultimately show ?thesis unfolding sorted_wrt_append by blast
qed

lemma note_frame [simp]:
  "ab_config (noteTransientFailure now b) = ab_config b" "ab_queue (noteTransientFailure now b) = ab_queue b"
  "ab_running (noteTransientFailure now b) = ab_running b" "ab_seq (noteTransientFailure now b) = ab_seq b"
  "ab_settled (noteTransientFailure now b) = ab_settled b"
  by (simp_all add: noteTransientFailure_def pruneTransientFailures_def Let_def)

lemma submitted:
  fixes tx icao options
  assumes "arc_inv b" "\<not> isCircuitOpen now b" "length (ab_queue b) < maxQueueDepth (ab_config b)"
  defines "t \<equiv> \<lparr> qb_seq = ab_seq b, qb_tx = tx, qb_icao = icao, qb_options = resolveOptions options, qb_enqueuedAt = now \<rparr>"
  defines "b1 \<equiv> b\<lparr>ab_seq := ab_seq b + 1, ab_queue := enqueue t (ab_queue b)\<rparr>"
  shows "arc_inv b1" "snd (broadcastTo now tx icao options b) = schedule now b1"
proof -
  show "arc_inv b1"
    using assms(1,3) by (auto simp: arc_inv_def b1_def enqueue_sorted queuedSeqs_def runningSeqs_def t_def)
  show "snd (broadcastTo now tx icao options b) = schedule now b1"
    using assms(2,3) by (simp add: broadcastTo_def b1_def t_def)
qed

lemma running_distinct:
  assumes "arc_inv b"
  shows "distinct (runningSeqs b)" "set (runningSeqs b) \<subseteq> {0..<ab_seq b}" "set (runningSeqs b) \<inter> set (map fst (ab_settled b)) = {}"
proof -
  have m: "mset (queuedSeqs b) + mset (runningSeqs b) + mset (map fst (ab_settled b)) = mset [0..<ab_seq b]"
    using assms by (simp add: arc_inv_def)
  then have m': "mset (queuedSeqs b @ runningSeqs b @ map fst (ab_settled b)) = mset [0..<ab_seq b]" by (simp add: add.assoc)
  have d: "distinct (queuedSeqs b @ runningSeqs b @ map fst (ab_settled b))"
    using mset_eq_imp_distinct_iff [OF m'] by simp
  moreover have "set (queuedSeqs b @ runningSeqs b @ map fst (ab_settled b)) = set [0..<ab_seq b]"
    by (rule mset_eq_setD [OF m'])
  ultimately show "distinct (runningSeqs b)" "set (runningSeqs b) \<subseteq> {0..<ab_seq b}"
    "set (runningSeqs b) \<inter> set (map fst (ab_settled b)) = {}"
    by (simp, fastforce, simp)
qed

lemma settled_inv:
  fixes outcome
  assumes inv: "arc_inv b" and s: "s \<in> set (runningSeqs b)"
  defines "b1 \<equiv> b\<lparr>ab_running := filter (\<lambda>(t, _). qb_seq t \<noteq> s) (ab_running b), ab_settled := ab_settled b @ [(s, outcome)]\<rparr>"
  shows "arc_inv b1"
proof -
  have "runningSeqs b1 = filter (\<lambda>x. x \<noteq> s) (runningSeqs b)"
    by (simp add: runningSeqs_def b1_def filter_map comp_def case_prod_unfold)
  then have "runningSeqs b1 = remove1 s (runningSeqs b)"
    using running_distinct(1) [OF inv] by (simp add: distinct_remove1_removeAll removeAll_filter_not_eq eq_commute)
  then have "add_mset s (mset (runningSeqs b1)) = mset (runningSeqs b)" using s by simp
  then have "mset (queuedSeqs b) + mset (runningSeqs b1) + mset (map fst (ab_settled b1)) = mset [0..<ab_seq b]"
    using inv by (simp add: arc_inv_def b1_def flip: add.assoc) (metis (no_types) add_mset_add_single union_mset_add_mset_left union_mset_add_mset_right)
  moreover have "length (ab_running b1) \<le> length (ab_running b)" by (simp add: b1_def)
  then have "length (ab_running b1) \<le> maxConcurrentBroadcasts (ab_config b1)"
    by (rule order.trans) (use inv in \<open>simp add: arc_inv_def b1_def\<close>)
  ultimately show ?thesis using inv by (simp add: arc_inv_def, simp add: b1_def queuedSeqs_def)
qed
lemma schedule_arc_inv: "arc_inv b \<Longrightarrow> arc_inv (schedule now b)"
  using schedule_inv [of b now] schedule_seqs [of now b] by (auto simp: arc_inv_def)

lemma retry_inv:
  "arc_inv b \<Longrightarrow> arc_inv (b\<lparr>ab_running := map (\<lambda>(u, k). if qb_seq u = s then (u, k + 1) else (u, k)) (ab_running b)\<rparr>)"
  "runningSeqs (b\<lparr>ab_running := map (\<lambda>(u, k). if qb_seq u = s then (u, k + 1) else (u, k)) (ab_running b)\<rparr>) = runningSeqs b"
proof -
  have r: "map (\<lambda>(t, _). qb_seq t) (map (\<lambda>(u, k). if qb_seq u = s then (u, k + 1) else (u, k)) (ab_running b)) = runningSeqs b"
    by (auto simp: runningSeqs_def)
  then show "runningSeqs (b\<lparr>ab_running := map (\<lambda>(u, k). if qb_seq u = s then (u, k + 1) else (u, k)) (ab_running b)\<rparr>) = runningSeqs b"
    by (simp add: runningSeqs_def)
  then show "arc_inv b \<Longrightarrow> arc_inv (b\<lparr>ab_running := map (\<lambda>(u, k). if qb_seq u = s then (u, k + 1) else (u, k)) (ab_running b)\<rparr>)"
    by (simp add: arc_inv_def queuedSeqs_def)
qed

text \<open>What an event amounts to: nothing or bookkeeping, or a scheduling of a state in order.\<close>

lemma arcStep_cases:
  assumes "arc_inv b"
  obtains (quiet) "arc_inv (arcStep e b)" "runningSeqs (arcStep e b) = runningSeqs b" "ab_queue (arcStep e b) = ab_queue b"
      "ab_config (arcStep e b) = ab_config b" "breakerOpenUntil (arcStep e b) = breakerOpenUntil b"
    | (scheduled) b1 where "arc_inv b1" "arcStep e b = schedule (eventTime e) b1" "set (runningSeqs b1) \<subseteq> set (runningSeqs b)"
proof (cases e)
  case (Submit now tx icao options)
  show thesis
  proof (cases "isCircuitOpen now b \<or> length (ab_queue b) \<ge> maxQueueDepth (ab_config b)")
    case True
    then show thesis using assms by (intro quiet) (auto simp: Submit broadcastTo_def)
  next
    case False
    then show thesis
      using submitted [OF assms, of now tx icao options]
      by (intro scheduled) (auto simp: Submit runningSeqs_def)
  qed
next
  case (Attempt_ends now s outcome)
  show thesis
  proof (cases "List.find (\<lambda>(t, _). qb_seq t = s) (ab_running b)")
    case None
    then show thesis using assms by (intro quiet) (auto simp: Attempt_ends attemptEnds_def)
  next
    case (Some tk)
    obtain t k where tk: "tk = (t, k)" by (cases tk)
    have "(t, k) \<in> set (ab_running b)" "qb_seq t = s" using Some tk by (auto simp: find_Some_iff dest: nth_mem)
    then have s: "s \<in> set (runningSeqs b)" by (force simp: runningSeqs_def)
    have settles: thesis if "arcStep e b = settle now s outcome c" "arc_inv c" "runningSeqs c = runningSeqs b" for c
    proof -
      define c1 where "c1 = c\<lparr>ab_running := filter (\<lambda>(t, _). qb_seq t \<noteq> s) (ab_running c), ab_settled := ab_settled c @ [(s, outcome)]\<rparr>"
      have "set (runningSeqs c1) \<subseteq> set (runningSeqs c)" by (auto simp: runningSeqs_def c1_def)
      moreover have "arc_inv c1" unfolding c1_def by (rule settled_inv [OF that(2)]) (use s that(3) in simp)
      ultimately show thesis
        using that(1,3) by (intro scheduled [of c1]) (simp_all add: settle_def Attempt_ends c1_def)
    qed
    consider (ok) "bo_status outcome = SEEN_ON_NETWORK"
      | (again) "bo_status outcome \<noteq> SEEN_ON_NETWORK" "isTransientBroadcastFailure outcome \<and> k + 1 < totalAttempts t b"
      | (failed) "bo_status outcome \<noteq> SEEN_ON_NETWORK" "\<not> (isTransientBroadcastFailure outcome \<and> k + 1 < totalAttempts t b)"
      by blast
    then show thesis
    proof cases
      case ok
      then show thesis
        using assms by (intro settles [of "b\<lparr>transientFailureTimes := []\<rparr>"])
          (simp_all add: Attempt_ends attemptEnds_def Some tk arc_inv_def queuedSeqs_def runningSeqs_def)
    next
      case again
      then show thesis
        using retry_inv [where b = b and s = s] assms
        by (intro quiet) (simp_all add: Attempt_ends attemptEnds_def Some tk)
    next
      case failed
      then show thesis
        using assms by (intro settles [of "if isTransientBroadcastFailure outcome then noteTransientFailure now b else b"])
          (auto simp: Attempt_ends attemptEnds_def Some tk arc_inv_def queuedSeqs_def runningSeqs_def)
    qed
  qed
next
  case (Resume now)
  then show thesis using assms by (intro scheduled [of b]) (simp_all add: breakerResume_def)
qed

lemma arcStep_inv: "arc_inv b \<Longrightarrow> arc_inv (arcStep e b)"
  by (cases rule: arcStep_cases [of b e]) (simp_all add: schedule_arc_inv)

lemma arc_run: "arc_inv b \<Longrightarrow> arc_inv (fold arcStep es b)"
  by (induction es arbitrary: b) (simp_all add: arcStep_inv)

lemma arc_new: "arc_inv (newArcBroadcaster cfg)"
  by (simp add: arc_inv_def newArcBroadcaster_def queuedSeqs_def runningSeqs_def)

text \<open>
  C27: an upstream stays within its limits and serves by priority. After any sequence of submissions, ends of
  attempts and breaker timers, at most the configured number of broadcasts is running and waiting, and every task
  accepted so far is in exactly one of three places: waiting, running or settled, and settled once. When an event
  starts tasks, each of them comes before every task left waiting, by priority and then by arrival; and after it no
  capacity is unused while tasks wait, unless the breaker is open.
\<close>

theorem arc_upstream_serves_in_order:
  assumes "fold arcStep es (newArcBroadcaster cfg) = b" "arcStep e b = b'"
  shows "length (ab_running b') \<le> maxConcurrentBroadcasts (ab_config b') \<and> length (ab_queue b') \<le> maxQueueDepth (ab_config b')
    \<and> mset (queuedSeqs b') + mset (runningSeqs b') + mset (map fst (ab_settled b')) = mset [0..<ab_seq b']
    \<and> (\<forall>(t, k) \<in> set (ab_running b'). qb_seq t \<notin> set (runningSeqs b) \<longrightarrow> (\<forall>u \<in> set (ab_queue b'). precedes t u))
    \<and> (idleOnlyWhenOpen (eventTime e) b' \<or> ab_queue b' = ab_queue b \<and> runningSeqs b' = runningSeqs b)"
proof -
  have inv: "arc_inv b" using arc_run [OF arc_new] assms(1) by blast
  have inv': "arc_inv b'" using arcStep_inv [OF inv] assms(2) by blast
  have idle: "idleOnlyWhenOpen (eventTime e) b' \<or> ab_queue b' = ab_queue b \<and> runningSeqs b' = runningSeqs b"
    using arcStep_cases [OF inv, of e] schedule_idle assms(2) by (metis arc_inv_def)
  have order: "precedes t u"
    if new: "(t, k) \<in> set (ab_running b')" "qb_seq t \<notin> set (runningSeqs b)" and u: "u \<in> set (ab_queue b')" for t k u
  proof (cases rule: arcStep_cases [OF inv, of e, case_names quiet scheduled])
    case quiet
    have "qb_seq t \<in> set (runningSeqs (arcStep e b))" using new(1) assms(2) by (force simp: runningSeqs_def)
    then show ?thesis using new(2) quiet(2) by simp
  next
    case (scheduled b1)
    have "(t, k) \<notin> set (ab_running b1)" using scheduled(3) new(2) by (force simp: runningSeqs_def)
    then show ?thesis
      using schedule_order [of b1 t k "eventTime e" u] scheduled(1,2) new(1) u assms(2) by (simp add: arc_inv_def)
  qed
  show ?thesis using inv' idle order by (auto simp: arc_inv_def)
qed


subsection \<open>The choice of an upstream\<close>

lemma hash_normalised [simp, norm_simps]: "hashIcao (normaliseIcao key) = hashIcao key"
  by (simp add: hashIcao_def normaliseIcao_def js_trim_upper)

lemma find_hd: "xs \<noteq> [] \<Longrightarrow> P (hd xs) \<Longrightarrow> List.find P xs = Some (hd xs)"
  by (cases xs) simp_all

theorem aircraft_keeps_upstream:
  assumes "bs \<noteq> []" "key \<noteq> []"
  defines "home \<equiv> unat (hashIcao key) mod length bs"
  shows "selectBroadcaster now (Some key) bs < length bs
    \<and> (canTake now (bs ! home) \<longrightarrow> selectBroadcaster now (Some key) bs = home)
    \<and> ((\<exists>b \<in> set bs. canTake now b) \<longrightarrow> canTake now (bs ! selectBroadcaster now (Some key) bs))
    \<and> ((\<forall>b \<in> set bs. \<not> canTake now b) \<longrightarrow> selectBroadcaster now (Some key) bs = home)"
proof -
  define order where "order = getOrderedBroadcasters now (Some key) bs"
  have len: "length bs \<ge> 1" using assms(1) by (cases bs) simp_all
  have "set order = {0..<length bs} \<and> order \<noteq> [] \<and> hd order = home"
  proof (cases "length bs \<le> 1")
    case True
    then have "length bs = 1" using len by simp
    then show ?thesis by (simp add: order_def getOrderedBroadcasters_def home_def)
  next
    case False
    then have order_eq: "order = map (\<lambda>i. (home + i) mod length bs) [0..<length bs]"
      using assms(2) by (simp add: order_def getOrderedBroadcasters_def home_def)
    have lt: "home < length bs" using assms(1) by (simp add: home_def)
    have "inj_on (\<lambda>i. (home + i) mod length bs) {0..<length bs}"
    proof (rule inj_onI)
      fix i j assume ij: "i \<in> {0..<length bs}" "j \<in> {0..<length bs}" "(home + i) mod length bs = (home + j) mod length bs"
      have "(home + k) mod length bs = (if home + k < length bs then home + k else home + k - length bs)"
        if "k < length bs" for k
        using that lt by (auto simp: le_mod_geq)
      then show "i = j" using ij lt by (auto split: if_splits)
    qed
    then have "(\<lambda>i. (home + i) mod length bs) ` {0..<length bs} = {0..<length bs}"
      using assms(1) by (intro endo_inj_surj) auto
    moreover have "home < length bs" using assms(1) by (simp add: home_def)
    moreover have "hd order = home"
      using assms(1) lt by (simp add: order_eq upt_conv_Cons)
    ultimately show ?thesis using assms(1) by (auto simp: order_eq)
  qed
  then have sis: "set order = {0..<length bs}" "order \<noteq> []" "hd order = home" by auto
  have sel: "selectBroadcaster now (Some key) bs = (case List.find (\<lambda>i. canTake now (bs ! i)) order of Some i \<Rightarrow> i | None \<Rightarrow> home)"
    using sis(2,3) by (cases "order") (simp_all add: selectBroadcaster_def order_def [symmetric] split: option.split)
  have home: "home < length bs" using sis hd_in_set [of "order"] by auto
  show ?thesis
  proof (cases "List.find (\<lambda>i. canTake now (bs ! i)) order")
    case None
    then have "\<not> canTake now b" if "b \<in> set bs" for b
      using that sis(1) by (force simp: find_None_iff in_set_conv_nth)
    then show ?thesis using None home by (simp add: sel)
  next
    case (Some i)
    then have i: "i < length bs" "canTake now (bs ! i)"
      using sis(1) by (auto simp: find_Some_iff dest!: nth_mem)
    moreover have "canTake now (bs ! home) \<Longrightarrow> i = home"
      using Some find_hd [of "order" "\<lambda>i. canTake now (bs ! i)"] sis(2,3) by simp
    ultimately show ?thesis using Some by (auto simp: sel)
  qed
qed

text \<open>An upstream with one slot and room for two: the second submission waits, and starts when the first has ended.\<close>

definition exampleUpstream :: SingleArcBroadcaster where
  "exampleUpstream =
     newArcBroadcaster (DEFAULT_CONFIG\<lparr>maxConcurrentBroadcasts := 1, maxQueueDepth := 2\<rparr>)"

definition exampleSubmissions :: "arc_event list" where
  "exampleSubmissions = [Submit 10 newTransaction None None, Submit 20 newTransaction None None]"

lemmas upstream_eval = exampleUpstream_def exampleSubmissions_def newArcBroadcaster_def DEFAULT_CONFIG_def
  broadcastTo_def isCircuitOpen_def schedule_def attemptEnds_def settle_def queuedSeqs_def runningSeqs_def
  resolveOptions_def failedWith_def Let_def

theorem arc_upstream_serves_in_order_witness:
  "\<exists>b'. arcStep (Attempt_ends 30 0 \<lparr> bo_txid = ''aa'', bo_status = SEEN_ON_NETWORK, bo_code = None, bo_description = None \<rparr>)
       (fold arcStep exampleSubmissions exampleUpstream) = b'
     \<and> queuedSeqs b' = [] \<and> runningSeqs b' = [1] \<and> map fst (ab_settled b') = [0]
     \<and> length (ab_running b') \<le> maxConcurrentBroadcasts (ab_config b')"
  using arc_upstream_serves_in_order
    [of exampleSubmissions "DEFAULT_CONFIG\<lparr>maxConcurrentBroadcasts := 1, maxQueueDepth := 2\<rparr>", OF refl refl]
  by (auto simp: upstream_eval)

end
