(* ===== verification/Treasury.thy ===== *)
theory Treasury
  imports Funding_Pool Arc_Broadcaster Effects
begin

text \<open>
  The transactions of the treasury to itself, the second half of
  \<open>services/blockchain-writer/src/funding-utxo-manager.ts\<close>: splitting outputs until the pool has enough of them, and
  merging fragments. Each database call, each broadcast and each signing is a call of \<open>Effects\<close>: it may fail, with
  or without having taken effect, and other tasks run before and after it.

  \<open>tw_sent\<close> is what the task under consideration has handed to the network. \<open>tw_answer\<close> is the broadcaster: its
  outcome for a transaction, given what was sent before. A refusal by the writer itself (local backpressure)
  sends nothing. \<open>tw_busy\<close> are the rows of the table locked by concurrent transactions. \<open>cool\<close> is the
  configured propagation cooldown and \<open>lock\<close> the script of the funding key.

  Results: a completed reshape costs the treasury exactly its fee; the fees of a split stay below the ceiling,
  whatever calls fail; a reshape whose bookkeeping fails puts inputs back that the network has seen spent.
\<close>

subsection \<open>The world\<close>

record TreasuryWorld =
  tw_clock :: millis
  tw_funding :: FundingUtxoManager
  tw_busy :: "FundingUtxoRow \<Rightarrow> bool"
  tw_sent :: "Transaction list"
  tw_answer :: "Transaction list \<Rightarrow> Transaction \<Rightarrow> BroadcastOutcome"

definition onFunding ::
  "(millis \<Rightarrow> FundingUtxoManager \<Rightarrow> 'a \<times> FundingUtxoManager) \<Rightarrow> 'x TreasuryWorld_scheme \<Rightarrow> 'a \<times> 'x TreasuryWorld_scheme" where
  "onFunding f w = (case f (tw_clock w) (tw_funding w) of (x, m) \<Rightarrow> (x, w\<lparr>tw_funding := m\<rparr>))"

definition toFunding ::
  "(millis \<Rightarrow> FundingUtxoManager \<Rightarrow> FundingUtxoManager) \<Rightarrow> 'x TreasuryWorld_scheme \<Rightarrow> unit \<times> 'x TreasuryWorld_scheme" where
  "toFunding f w = ((), w\<lparr>tw_funding := f (tw_clock w) (tw_funding w)\<rparr>)"

definition sendTx :: "Transaction \<Rightarrow> 'x TreasuryWorld_scheme \<Rightarrow> BroadcastOutcome \<times> 'x TreasuryWorld_scheme" where
  "sendTx t w =
     (let r = tw_answer w (tw_sent w) t
      in (r, if isLocalBackpressureBroadcastFailure r then w else w\<lparr>tw_sent := tw_sent w @ [t]\<rparr>))"

type_synonym ('x, 'a) treasury_job = "('x TreasuryWorld_scheme, unit, 'a) job"

definition callFunding :: "(millis \<Rightarrow> FundingUtxoManager \<Rightarrow> 'a \<times> FundingUtxoManager) \<Rightarrow> ('x, 'a) treasury_job" where
  "callFunding f = await () (onFunding f)"

definition execFunding :: "(millis \<Rightarrow> FundingUtxoManager \<Rightarrow> FundingUtxoManager) \<Rightarrow> ('x, unit) treasury_job" where
  "execFunding f = await () (toFunding f)"

text \<open>What the manager keeps in memory is changed without a call.\<close>

definition noteFunding :: "(millis \<Rightarrow> FundingUtxoManager \<Rightarrow> FundingUtxoManager) \<Rightarrow> ('x, unit) treasury_job" where
  "noteFunding f = alter (\<lambda>w. snd (toFunding f w))"

definition callReleaseMany :: "(string \<times> nat) list \<Rightarrow> ('x, unit) treasury_job" where
  "callReleaseMany = joinAll (\<lambda>(t, v). execFunding (\<lambda>_. release (js_trim t) v))"

text \<open>An acquisition sees the rows that other transactions hold at that moment.\<close>

definition callAcquire :: "int \<Rightarrow> ('x, FundingUtxoRow option) treasury_job" where
  "callAcquire minSats = await () (\<lambda>w. onFunding (\<lambda>now. acquire now (tw_busy w) minSats) w)"

definition callAcquireSmall :: "int \<Rightarrow> nat \<Rightarrow> ('x, FundingUtxoRow list) treasury_job" where
  "callAcquireSmall below limit = await () (\<lambda>w. onFunding (\<lambda>now. acquireSmallOutputs now (tw_busy w) below limit) w)"

definition callBalance :: "('x, int \<times> nat) treasury_job" where
  "callBalance = callFunding (\<lambda>_ m. (getBalance m, m))"

subsection \<open>Reshaping\<close>

definition spentKeys :: "FundingUtxoRow list \<Rightarrow> (string \<times> nat) list" where
  "spentKeys utxos = map (\<lambda>r. (js_trim (fu_txid r), fu_vout r)) utxos"

text \<open>After a broadcast that was accepted: the inputs go, the outputs come one by one, and the manager remembers.\<close>

definition swapOutputs ::
  "millis \<Rightarrow> (string \<times> nat) list \<Rightarrow> string \<Rightarrow> BuiltOutput list \<Rightarrow> ('x, int) treasury_job" where
  "swapOutputs cool inputs t outs =
     andThen (execFunding (\<lambda>_. reshapeDelete inputs)) (\<lambda>_.
     andThen (noteFunding (\<lambda>_. clearFundingCooldowns inputs)) (\<lambda>_.
     andThen (forEach (\<lambda>b. andThen (execFunding (\<lambda>now. reshapeInsert now t b))
         (\<lambda>_. noteFunding (\<lambda>now. setFundingCooldown now t (bo_vout b) cool))) outs) (\<lambda>_.
     andThen (noteFunding (\<lambda>now. rememberSpend now inputs (Some t) (map bo_vout outs))) (\<lambda>_.
     ret (int (length outs))))))"

definition executeReshape :: "millis \<Rightarrow> string \<Rightarrow> FundingUtxoRow list \<Rightarrow> nat \<Rightarrow> ('x, int) treasury_job" where
  "executeReshape cool lock utxos outputCount =
     (let inputs = spentKeys utxos in
      tryCatch
        (andThen (await () (\<lambda>w. (buildFundingSplitTx (map fundingInput utxos) lock outputCount, w))) (\<lambda>built.
         case built of Inl _ \<Rightarrow> throw
         | Inr (t, outs) \<Rightarrow>
             andThen (await () (sendTx t)) (\<lambda>result.
             if bo_status result = FAILED then andThen (callReleaseMany inputs) (\<lambda>_. ret (- 1))
             else swapOutputs cool inputs (bo_txid result) outs)))
        (andThen (callReleaseMany inputs) (\<lambda>_. ret (- 1))))"

subsection \<open>Splitting\<close>

definition MAX_ROUNDS :: nat where "MAX_ROUNDS = 6"
definition OUTPUTS_PER_SPLIT :: nat where "OUTPUTS_PER_SPLIT = 40"
definition PROPAGATION_WAIT_MS :: millis where "PROPAGATION_WAIT_MS = 2000"

text \<open>The local variables of the loops.\<close>

record SplitState =
  ss_totalCreated :: int
  ss_feesSpent :: int
  ss_budgetExhausted :: bool
  ss_failed :: bool

record SplitPlan =
  sp_cool :: millis
  sp_lock :: string
  sp_desiredMinCount :: int
  sp_floorSats :: int
  sp_maxCostSats :: cost_ceiling

definition splitCreated :: "nat \<Rightarrow> int \<Rightarrow> SplitState \<Rightarrow> SplitState" where
  "splitCreated outs created st =
     st\<lparr>ss_feesSpent := ss_feesSpent st + estimateRefillFee outs False 1,
        ss_totalCreated := ss_totalCreated st + created\<rparr>"

text \<open>One split of an output that has been locked: the state, and whether the round goes on.\<close>

definition splitOne :: "SplitPlan \<Rightarrow> FundingUtxoRow \<Rightarrow> nat \<Rightarrow> SplitState \<Rightarrow> ('x, SplitState \<times> bool) treasury_job" where
  "splitOne p utxo outs st =
     andThen (executeReshape (sp_cool p) (sp_lock p) [utxo] outs) (\<lambda>splitResult.
     if splitResult < 0 then ret (st\<lparr>ss_failed := True\<rparr>, False) else ret (splitCreated outs splitResult st, True))"

definition splitStep :: "SplitPlan \<Rightarrow> int \<Rightarrow> SplitState \<Rightarrow> ('x, SplitState \<times> bool) treasury_job" where
  "splitStep p poolCount st =
     (let remaining = sp_desiredMinCount p - poolCount - ss_totalCreated st in
      if remaining \<le> 0 then ret (st, False)
      else let outputCount = nat (max 2 (min remaining (int OUTPUTS_PER_SPLIT))) in
      if \<not> splitFeeWithinBudget (ss_feesSpent st) (estimateRefillFee outputCount False 1) (sp_maxCostSats p)
      then ret (st\<lparr>ss_budgetExhausted := True\<rparr>, False)
      else
        andThen (callAcquire (int OUTPUTS_PER_SPLIT * sp_floorSats p)) (\<lambda>big.
        case big of Some utxo \<Rightarrow> splitOne p utxo outputCount st
        | None \<Rightarrow>
            andThen (callAcquire (2 * sp_floorSats p)) (\<lambda>small.
            case small of None \<Rightarrow> ret (st\<lparr>ss_failed := True\<rparr>, False)
            | Some utxo \<Rightarrow>
                (let adjustedCount = min (int outputCount) (fu_satoshis utxo div sp_floorSats p) in
                 if adjustedCount < 2
                 then andThen (execFunding (\<lambda>_. release (js_trim (fu_txid utxo)) (fu_vout utxo)))
                        (\<lambda>_. ret (st\<lparr>ss_failed := True\<rparr>, False))
                 else splitOne p utxo (nat adjustedCount) st))))"

fun splitLoop :: "SplitPlan \<Rightarrow> int \<Rightarrow> nat \<Rightarrow> SplitState \<Rightarrow> ('x, SplitState) treasury_job" where
  "splitLoop p poolCount 0 st = ret st"
| "splitLoop p poolCount (Suc n) st =
     andThen (splitStep p poolCount st) (\<lambda>(st', more). if more then splitLoop p poolCount n st' else ret st')"

definition splitsThisRound :: "int \<Rightarrow> int \<Rightarrow> nat" where
  "splitsThisRound deficit poolCount =
     nat (min \<lceil>real_of_int deficit / real OUTPUTS_PER_SPLIT\<rceil> (max 1 (poolCount div 2)))"

text \<open>The argument is the number of rounds left.\<close>

fun splitRounds :: "SplitPlan \<Rightarrow> nat \<Rightarrow> SplitState \<Rightarrow> ('x, SplitState) treasury_job" where
  "splitRounds p 0 st = ret st"
| "splitRounds p (Suc n) st =
     (if ss_budgetExhausted st then ret st
      else andThen callBalance (\<lambda>(_, count).
           let deficit = sp_desiredMinCount p - int count in
           if deficit \<le> 0 then ret st
           else andThen (splitLoop p (int count) (splitsThisRound deficit (int count)) (st\<lparr>ss_failed := False\<rparr>)) (\<lambda>st'.
                if ss_failed st' \<or> ss_budgetExhausted st' then ret st'
                else andThen callBalance (\<lambda>(_, updated).
                     if int updated \<ge> sp_desiredMinCount p then ret st'
                     else andThen (onlyIf (n > 0)
                            (andThen (pause (\<lambda>w. w\<lparr>tw_clock := tw_clock w + PROPAGATION_WAIT_MS\<rparr>))
                               (\<lambda>_. noteFunding pruneFundingCooldowns)))
                          (\<lambda>_. splitRounds p n st')))))"

definition splitIfNeeded ::
  "millis \<Rightarrow> string \<Rightarrow> int \<Rightarrow> int \<Rightarrow> cost_ceiling \<Rightarrow> ('x, int) treasury_job" where
  "splitIfNeeded cool lock desiredMinCount minOutputSats maxCostSats =
     andThen callBalance (\<lambda>(_, count).
     if int count \<ge> desiredMinCount then ret 0
     else let p = \<lparr> sp_cool = cool, sp_lock = lock, sp_desiredMinCount = desiredMinCount,
                    sp_floorSats = max minOutputSats FUNDING_MIN_USABLE_SATS, sp_maxCostSats = maxCostSats \<rparr>
          in andThen (splitRounds p MAX_ROUNDS
               \<lparr> ss_totalCreated = 0, ss_feesSpent = 0, ss_budgetExhausted = False, ss_failed = False \<rparr>)
             (\<lambda>st. ret (ss_totalCreated st)))"

subsection \<open>Consolidating\<close>

text \<open>The number of transactions left, and of those broadcast.\<close>

fun consolidateLoop :: "millis \<Rightarrow> string \<Rightarrow> int \<Rightarrow> nat \<Rightarrow> nat \<Rightarrow> nat \<Rightarrow> ('x, nat) treasury_job" where
  "consolidateLoop cool lock floorSats maxInputsPerTx 0 txCount = ret txCount"
| "consolidateLoop cool lock floorSats maxInputsPerTx (Suc n) txCount =
     andThen (callAcquireSmall floorSats maxInputsPerTx) (\<lambda>smalls.
     let total = sum_list (map fu_satoshis smalls);
         fee = estimateRefillFee 1 False (length smalls);
         largestInput = foldl (\<lambda>m r. max m (fu_satoshis r)) 0 smalls
     in if length smalls < 2 \<or> total - fee \<le> largestInput
        then andThen (callReleaseMany (spentKeys smalls)) (\<lambda>_. ret txCount)
        else andThen (executeReshape cool lock smalls (nat (max 1 ((total - fee) div floorSats)))) (\<lambda>created.
             if created < 0 then ret txCount
             else consolidateLoop cool lock floorSats maxInputsPerTx n (txCount + 1)))"

definition consolidateIfFragmented ::
  "millis \<Rightarrow> string \<Rightarrow> int \<Rightarrow> nat \<Rightarrow> nat \<Rightarrow> ('x, nat) treasury_job" where
  "consolidateIfFragmented cool lock minOutputSats maxInputsPerTx maxTransactions =
     consolidateLoop cool lock (max minOutputSats FUNDING_MIN_USABLE_SATS) maxInputsPerTx maxTransactions 0"

subsection \<open>What a job hands to the network\<close>

text \<open>\<open>issues m \<Phi>\<close>: whatever calls fail and whatever the other tasks do, \<open>m\<close> ends with a result \<open>r\<close> after having
  sent the transactions \<open>ts\<close>, in this order, such that \<open>\<Phi> r ts\<close>.\<close>

definition sendsLeft :: "'x TreasuryWorld_scheme \<Rightarrow> 'x TreasuryWorld_scheme \<Rightarrow> bool" where
  "sendsLeft w w' \<longleftrightarrow> tw_sent w' = tw_sent w"

definition issues :: "('x, 'a) treasury_job \<Rightarrow> ((unit, 'a) outcome \<Rightarrow> Transaction list \<Rightarrow> bool) \<Rightarrow> bool" where
  "issues m \<Phi> \<longleftrightarrow>
     (\<forall>s. obeys sendsLeft s \<longrightarrow>
        (case m s of (r, s') \<Rightarrow> obeys sendsLeft s' \<and> (\<exists>ts. tw_sent (world s') = tw_sent (world s) @ ts \<and> \<Phi> r ts)))"

lemma issuesD:
  assumes "issues m \<Phi>" "obeys sendsLeft s" "m s = (r, s')"
  obtains ts where "obeys sendsLeft s'" "tw_sent (world s') = tw_sent (world s) @ ts" "\<Phi> r ts"
  using assms by (fastforce simp: issues_def)

lemma issues_mono: "issues m \<Phi> \<Longrightarrow> (\<And>r ts. \<Phi> r ts \<Longrightarrow> \<Psi> r ts) \<Longrightarrow> issues m \<Psi>"
  by (fastforce simp: issues_def)

lemma issues_ret: "\<Phi> (Returned x) [] \<Longrightarrow> issues (ret x) \<Phi>"
  by (simp add: issues_def ret_def)

lemma issues_raise: "\<Phi> (Raised e) [] \<Longrightarrow> issues (raise e) \<Phi>"
  by (simp add: issues_def raise_def)

lemma issues_andThen:
  fixes m :: "('x, 'b) treasury_job"
  assumes m: "issues m \<Phi>" and k: "\<And>x ts. \<Phi> (Returned x) ts \<Longrightarrow> issues (k x) (\<lambda>r us. \<Psi> r (ts @ us))"
    and e: "\<And>e ts. \<Phi> (Raised e) ts \<Longrightarrow> \<Psi> (Raised e) ts"
  shows "issues (andThen m k) \<Psi>"
  unfolding issues_def
proof (intro allI impI)
  fix s :: "'x TreasuryWorld_scheme System" assume s: "obeys sendsLeft s"
  obtain r s1 where r: "m s = (r, s1)" by (cases "m s")
  obtain ts where s1: "obeys sendsLeft s1" "tw_sent (world s1) = tw_sent (world s) @ ts" "\<Phi> r ts"
    using issuesD [OF m s r] .
  show "case andThen m k s of (r, s') \<Rightarrow> obeys sendsLeft s' \<and> (\<exists>ts. tw_sent (world s') = tw_sent (world s) @ ts \<and> \<Psi> r ts)"
  proof (cases r)
    case (Returned x)
    obtain r2 s2 where r2: "k x s1 = (r2, s2)" by (cases "k x s1")
    obtain us where "obeys sendsLeft s2" "tw_sent (world s2) = tw_sent (world s1) @ us" "\<Psi> r2 (ts @ us)"
      using issuesD [OF k [of x ts] s1(1) r2] s1(3) Returned by auto
    then show ?thesis using r r2 Returned s1(2) by (simp add: andThen_def)
  next
    case (Raised x)
    then show ?thesis using r s1 e by (cases x) (auto simp: andThen_def)
  qed
qed

lemma issues_onError:
  fixes m :: "('x, 'b) treasury_job"
  assumes m: "issues m \<Phi>" and h: "\<And>e ts. \<Phi> (Raised e) ts \<Longrightarrow> issues (h e) (\<lambda>r us. \<Psi> r (ts @ us))"
    and x: "\<And>x ts. \<Phi> (Returned x) ts \<Longrightarrow> \<Psi> (Returned x) ts"
  shows "issues (onError m h) \<Psi>"
  unfolding issues_def
proof (intro allI impI)
  fix s :: "'x TreasuryWorld_scheme System" assume s: "obeys sendsLeft s"
  obtain r s1 where r: "m s = (r, s1)" by (cases "m s")
  obtain ts where s1: "obeys sendsLeft s1" "tw_sent (world s1) = tw_sent (world s) @ ts" "\<Phi> r ts"
    using issuesD [OF m s r] .
  show "case onError m h s of (r, s') \<Rightarrow> obeys sendsLeft s' \<and> (\<exists>ts. tw_sent (world s') = tw_sent (world s) @ ts \<and> \<Psi> r ts)"
  proof (cases r)
    case (Returned y)
    then show ?thesis using r s1 x by (auto simp: onError_def)
  next
    case (Raised e)
    obtain r2 s2 where r2: "h e s1 = (r2, s2)" by (cases "h e s1")
    obtain us where "obeys sendsLeft s2" "tw_sent (world s2) = tw_sent (world s1) @ us" "\<Psi> r2 (ts @ us)"
      using issuesD [OF h [of e ts] s1(1) r2] s1(3) Raised by auto
    then show ?thesis using r r2 Raised s1(2) by (simp add: onError_def)
  qed
qed

lemma issues_await:
  fixes f :: "'x TreasuryWorld_scheme \<Rightarrow> 'b \<times> 'x TreasuryWorld_scheme"
  assumes "\<And>w x w'. f w = (x, w') \<Longrightarrow> \<exists>ts. tw_sent w' = tw_sent w @ ts \<and> \<Phi> (Returned x) ts \<and> \<Phi> (Raised ()) ts"
    and "\<Phi> (Raised ()) []"
  shows "issues (await () f) \<Phi>"
  unfolding issues_def
proof (intro allI impI)
  fix s :: "'x TreasuryWorld_scheme System" assume s: "obeys sendsLeft s"
  show "case await () f s of (r, s') \<Rightarrow> obeys sendsLeft s' \<and> (\<exists>ts. tw_sent (world s') = tw_sent (world s) @ ts \<and> \<Phi> r ts)"
  proof (cases "script s")
    case Nil
    then show ?thesis using assms(1) [of "world s"] s by (auto simp: await_def obeys_def split: prod.split)
  next
    case (Cons c rest)
    obtain before res after where c: "c = (before, res, after)" by (cases c)
    have b: "tw_sent (before w) = tw_sent w" "tw_sent (after w) = tw_sent w" for w
      using s Cons c by (auto simp: obeys_def within_def sendsLeft_def)
    have rest: "obeys sendsLeft (s\<lparr>world := v, script := rest\<rparr>)" for v
      using s Cons by (simp add: obeys_def)
    obtain x w' where f: "f (before (world s)) = (x, w')" by (cases "f (before (world s))")
    obtain ts where "tw_sent w' = tw_sent (before (world s)) @ ts" "\<Phi> (Returned x) ts" "\<Phi> (Raised ()) ts"
      using assms(1) [OF f] by blast
    then show ?thesis using f b rest assms(2) Cons c by (simp add: await_def)
  qed
qed

definition silent :: "(unit, 'a) outcome \<Rightarrow> Transaction list \<Rightarrow> bool" where
  "silent r ts \<longleftrightarrow> ts = []"

lemma silent_await: "(\<And>w. tw_sent (snd (f w)) = tw_sent w) \<Longrightarrow> issues (await () f) silent"
  by (rule issues_await) (auto simp: silent_def, metis snd_conv)

lemma silent_alter: "(\<And>w. tw_sent (f w) = tw_sent w) \<Longrightarrow> issues (alter f) silent"
  by (simp add: issues_def alter_def modify_def silent_def obeys_def)

lemma silent_andThen: "issues m silent \<Longrightarrow> (\<And>x. issues (k x) silent) \<Longrightarrow> issues (andThen m k) silent"
  by (rule issues_andThen [where \<Phi> = silent]) (auto intro: issues_mono [of _ silent] simp: silent_def)

lemma silent_ret: "issues (ret x) silent"
  by (rule issues_ret) (simp add: silent_def)

lemma silent_forEach: "(\<And>x. issues (f x) silent) \<Longrightarrow> issues (forEach f xs) silent"
  by (induction xs) (auto intro: silent_ret silent_andThen)

lemma silent_joinAll:
  fixes f :: "'b \<Rightarrow> ('x, unit) treasury_job"
  assumes "\<And>x. issues (f x) silent"
  shows "issues (joinAll f xs) silent"
proof (induction xs)
  case (Cons x xs)
  show ?case
    unfolding issues_def
  proof (intro allI impI)
    fix s :: "'x TreasuryWorld_scheme System" assume s: "obeys sendsLeft s"
    obtain r s1 where r: "f x s = (r, s1)" by (cases "f x s")
    obtain r2 s2 where r2: "joinAll f xs s1 = (r2, s2)" by (cases "joinAll f xs s1")
    obtain "obeys sendsLeft s1" "tw_sent (world s1) = tw_sent (world s)"
      using issuesD [OF assms s r] by (auto simp: silent_def)
    moreover obtain "obeys sendsLeft s2" "tw_sent (world s2) = tw_sent (world s1)"
      using issuesD [OF Cons.IH calculation(1) r2] by (auto simp: silent_def)
    ultimately show "case joinAll f (x # xs) s of (r, s') \<Rightarrow>
        obeys sendsLeft s' \<and> (\<exists>ts. tw_sent (world s') = tw_sent (world s) @ ts \<and> silent r ts)"
      using r r2 by (simp add: silent_def)
  qed
qed (simp add: silent_ret)

lemma sent_onFunding [simp]: "tw_sent (snd (onFunding f w)) = tw_sent w" "tw_sent (snd (toFunding g w)) = tw_sent w"
  by (simp_all add: onFunding_def toFunding_def split: prod.split)

lemma silent_calls:
  "issues (callFunding g) silent" "issues (execFunding f) silent" "issues (noteFunding f) silent"
  "issues (callReleaseMany ks) silent" "issues (callAcquire minSats) silent" "issues callBalance silent"
  "issues (callAcquireSmall below limit) silent"
  unfolding callFunding_def execFunding_def noteFunding_def callReleaseMany_def callAcquire_def callBalance_def
    callAcquireSmall_def
  by (auto intro!: silent_await silent_alter silent_joinAll split: prod.split)
subsection \<open>The fees of a split\<close>

definition feesOf :: "Transaction list \<Rightarrow> int" where
  "feesOf ts = sum_list (map (\<lambda>t. inputSats t - outputSats t) ts)"

lemma feesOf_simps [simp]: "feesOf [] = 0" "feesOf [t] = inputSats t - outputSats t" "feesOf (ts @ us) = feesOf ts + feesOf us"
  by (simp_all add: feesOf_def)

lemma splitSize: "1 \<le> n \<Longrightarrow> refillSize n False 1 = 159 + 34 * n"
  by (simp add: refillSize_def TX_OVERHEAD_def varintSize_def INPUT_OVERHEAD_def P2PKH_UNLOCK_SIZE_def P2PKH_OUTPUT_SIZE_def)

lemma splitFee_mono:
  assumes "1 \<le> n" "n \<le> k" "k \<le> 40"
  shows "estimateRefillFee n False 1 \<le> estimateRefillFee k False 1"
proof (cases "n = k")
  case False
  have s: "refillSize n False 1 + 34 \<le> refillSize k False 1" "1 \<le> refillSize n False 1" "refillSize k False 1 \<le> 10 ^ 9"
    using assms False by (simp_all add: splitSize [simplified])
  define a where "a = refillSize n False 1"
  define b where "b = refillSize k False 1"
  have ab: "a + 34 \<le> b" "1 \<le> a" "b \<le> 10 ^ 9" using s by (simp_all add: a_def b_def)
  have "calculateFee a \<le> \<lceil>11 * real a / 100\<rceil> + 1" "\<lceil>11 * real b / 100\<rceil> \<le> calculateFee b"
    using fee_within_one_sat [of a] fee_within_one_sat [of b] ab by simp_all
  moreover have "\<lceil>11 * real a / 100\<rceil> + 1 \<le> \<lceil>11 * real b / 100\<rceil>"
  proof -
    have "11 * real a / 100 + 1 \<le> 11 * real b / 100" using ab(1) by (simp add: field_simps)
    then show ?thesis by linarith
  qed
  ultimately show ?thesis by (simp add: estimateRefillFee_def a_def b_def)
qed simp

lemma splitFee_nonneg:
  assumes "1 \<le> n" "n \<le> 40"
  shows "0 \<le> estimateRefillFee n False 1"
proof -
  define b where "b = refillSize n False 1"
  have "1 \<le> b" "b \<le> 10 ^ 9" using assms by (simp_all add: b_def splitSize [simplified])
  then have "\<lceil>11 * real b / 100\<rceil> \<le> calculateFee b" using fee_within_one_sat [of b] by simp
  moreover have "0 \<le> \<lceil>11 * real b / 100\<rceil>" by linarith
  ultimately have "0 \<le> calculateFee b" by (rule order.trans [rotated])
  then show ?thesis by (simp add: estimateRefillFee_def b_def)
qed

text \<open>The ceiling in satoshis, where there is one.\<close>

definition ceilingSats :: "cost_ceiling \<Rightarrow> int option" where
  "ceilingSats c = (case c of Infinite \<Rightarrow> None | Ceiling None \<Rightarrow> Some 0 | Ceiling (Some m) \<Rightarrow> Some (max 0 \<lfloor>m\<rfloor>))"

lemma within_ceiling: "splitFeeWithinBudget f n c \<Longrightarrow> ceilingSats c = Some B \<Longrightarrow> f + n \<le> B"
  by (auto simp: splitFeeWithinBudget_def ceilingSats_def le_floor_iff split: cost_ceiling.splits option.splits if_splits)

lemma issues_quiet: "issues m silent \<Longrightarrow> (\<And>r. \<Phi> r []) \<Longrightarrow> issues m \<Phi>"
  by (erule issues_mono) (simp add: silent_def)

lemma issues_pure: "issues (await () (\<lambda>w. (x, w))) (\<lambda>r ts. ts = [] \<and> r \<in> {Returned x, Raised ()})"
  by (rule issues_await) simp_all

text \<open>At most one transaction is sent, for this fee.\<close>

definition oneFee :: "int \<Rightarrow> (unit, 'a) outcome \<Rightarrow> Transaction list \<Rightarrow> bool" where
  "oneFee fee r ts \<longleftrightarrow> ts = [] \<or> feesOf ts = fee"

lemma oneFee_Nil [simp]: "oneFee fee r []"
  by (simp add: oneFee_def)

lemma quiet_after_fee: "issues m silent \<Longrightarrow> oneFee fee q ts \<Longrightarrow> issues m (\<lambda>r us. oneFee fee r (ts @ us))"
  by (rule issues_quiet) (simp_all add: oneFee_def)

lemma reshape_issues:
  fixes cool :: millis and utxos :: "FundingUtxoRow list"
  defines "fee \<equiv> \<lambda>n. estimateRefillFee (max 1 (min n 50)) False (length utxos)"
  shows "issues (executeReshape cool lock utxos n :: ('x, int) treasury_job) (oneFee (fee n))"
proof -
  have release: "issues (andThen (callReleaseMany ks) (\<lambda>_. ret (- 1)) :: ('x, int) treasury_job) silent" for ks
    by (intro silent_andThen silent_calls silent_ret)
  have swap: "issues (swapOutputs cool ks t outs :: ('x, int) treasury_job) silent" for ks t outs
    unfolding swapOutputs_def by (intro silent_andThen silent_calls silent_ret silent_forEach)
  have send: "issues (await () (sendTx t) :: ('x, BroadcastOutcome) treasury_job) (oneFee (fee n))"
    if "buildFundingSplitTx (map fundingInput utxos) lock n = Inr (t, outs)" for t outs
    using reshape_conserves_value [OF that]
    by (intro issues_await) (auto simp: sendTx_def Let_def oneFee_def fee_def split: if_splits)
  show ?thesis
    unfolding executeReshape_def Let_def
  proof (rule issues_onError [where \<Phi> = "oneFee (fee n)"], rule issues_andThen [OF issues_pure])
    fix x :: "build_error + Transaction \<times> BuiltOutput list" and ts :: "Transaction list"
    assume b: "ts = [] \<and> Returned x \<in> {Returned (buildFundingSplitTx (map fundingInput utxos) lock n), Raised ()}"
    show "issues ((case x of Inl _ \<Rightarrow> throw
         | Inr (t, outs) \<Rightarrow>
             andThen (await () (sendTx t)) (\<lambda>result.
             if bo_status result = FAILED then andThen (callReleaseMany (spentKeys utxos)) (\<lambda>_. ret (- 1))
             else swapOutputs cool (spentKeys utxos) (bo_txid result) outs))
        :: ('x, int) treasury_job) (\<lambda>r us. oneFee (fee n) r (ts @ us))"
    proof (cases x)
      case (Inl e)
      then show ?thesis using conjunct1 [OF b] by (simp add: issues_raise)
    next
      case (Inr p)
      obtain t outs where p: "p = (t, outs)" by (cases p)
      then have "buildFundingSplitTx (map fundingInput utxos) lock n = Inr (t, outs)" using b Inr by simp
      note sent = send [OF this]
      show ?thesis
        unfolding Inr p sum.case prod.case conjunct1 [OF b] append_Nil
      proof (rule issues_andThen [OF sent])
        fix result :: BroadcastOutcome and us
        assume "oneFee (fee n) (Returned result :: (unit, BroadcastOutcome) outcome) us"
        then show "issues (if bo_status result = FAILED then andThen (callReleaseMany (spentKeys utxos)) (\<lambda>_. ret (- 1))
             else swapOutputs cool (spentKeys utxos) (bo_txid result) outs :: ('x, int) treasury_job)
             (\<lambda>r vs. oneFee (fee n) r (us @ vs))"
          by (simp add: quiet_after_fee [OF release] quiet_after_fee [OF swap])
      qed (simp add: oneFee_def)
    qed
  next
    fix e ts assume "oneFee (fee n) (Raised e :: (unit, int) outcome) ts"
    then show "issues (andThen (callReleaseMany (spentKeys utxos)) (\<lambda>_. ret (- 1)) :: ('x, int) treasury_job)
        (\<lambda>r us. oneFee (fee n) r (ts @ us))"
      by (rule quiet_after_fee [OF release])
  qed (auto simp: oneFee_def)
qed

text \<open>A state in which the loops stop; the fees of a part of the loops that starts in \<open>st\<close>, when \<open>B\<close> may be spent.\<close>

definition stopsSplit :: "SplitState \<Rightarrow> bool" where
  "stopsSplit st \<longleftrightarrow> ss_failed st \<or> ss_budgetExhausted st"

definition loopCost :: "int \<Rightarrow> SplitState \<Rightarrow> (unit, SplitState) outcome \<Rightarrow> Transaction list \<Rightarrow> bool" where
  "loopCost B st r ts \<longleftrightarrow> feesOf ts \<le> B - ss_feesSpent st
     \<and> (\<forall>st'. r = Returned st' \<longrightarrow> ss_feesSpent st' \<le> B
          \<and> (\<not> stopsSplit st' \<longrightarrow> feesOf ts \<le> ss_feesSpent st' - ss_feesSpent st))"

definition stepCost :: "int \<Rightarrow> SplitState \<Rightarrow> (unit, SplitState \<times> bool) outcome \<Rightarrow> Transaction list \<Rightarrow> bool" where
  "stepCost B st r ts \<longleftrightarrow> feesOf ts \<le> B - ss_feesSpent st
     \<and> (\<forall>st' more. r = Returned (st', more) \<longrightarrow> ss_feesSpent st' \<le> B
          \<and> (more \<or> \<not> stopsSplit st' \<longrightarrow> feesOf ts \<le> ss_feesSpent st' - ss_feesSpent st))"

lemma splitOne_issues:
  assumes "2 \<le> n" "n \<le> 40" "ss_feesSpent st + estimateRefillFee n False 1 \<le> B"
  shows "issues (splitOne p utxo n st :: ('x, SplitState \<times> bool) treasury_job) (stepCost B st)"
proof -
  define fee where "fee = estimateRefillFee n False 1"
  have fee: "0 \<le> fee" "ss_feesSpent st + fee \<le> B" using splitFee_nonneg [of n] assms by (simp_all add: fee_def)
  have count: "max (Suc 0) (min n 50) = n" using assms by simp
  have one: "issues (executeReshape (sp_cool p) (sp_lock p) [utxo] n :: ('x, int) treasury_job) (oneFee fee)"
    using reshape_issues [of "sp_cool p" "sp_lock p" "[utxo]" n] by (simp add: count fee_def)
  show ?thesis
    unfolding splitOne_def
  proof (rule issues_andThen [OF one])
    fix x :: int and ts :: "Transaction list"
    assume "oneFee fee (Returned x :: (unit, int) outcome) ts"
    then have f: "feesOf ts \<le> fee" using fee(1) by (auto simp: oneFee_def)
    then show "issues (if x < 0 then ret (st\<lparr>ss_failed := True\<rparr>, False) else ret (splitCreated n x st, True)
        :: ('x, SplitState \<times> bool) treasury_job) (\<lambda>r us. stepCost B st r (ts @ us))"
      using fee by (auto intro!: issues_ret simp: stepCost_def stopsSplit_def splitCreated_def fee_def)
  next
    fix e ts assume "oneFee fee (Raised e :: (unit, int) outcome) ts"
    then show "stepCost B st (Raised e) ts" using fee by (auto simp: stepCost_def oneFee_def)
  qed
qed

lemma issues_after:
  assumes "issues m silent" "\<And>x. issues (k x) \<Psi>" "\<And>e. \<Psi> (Raised e) []"
  shows "issues (andThen m k) \<Psi>"
  by (rule issues_andThen [OF assms(1)]) (simp_all add: silent_def assms)

lemma splitStep_issues:
  assumes "ceilingSats (sp_maxCostSats p) = Some B" "ss_feesSpent st \<le> B"
  shows "issues (splitStep p poolCount st :: ('x, SplitState \<times> bool) treasury_job) (stepCost B st)"
proof -
  define remaining where "remaining = sp_desiredMinCount p - poolCount - ss_totalCreated st"
  define n where "n = nat (max 2 (min remaining (int OUTPUTS_PER_SPLIT)))"
  have n: "2 \<le> n" "n \<le> 40" by (auto simp: n_def OUTPUTS_PER_SPLIT_def)
  have stop: "issues (ret (st', False)) (stepCost B st)" if "ss_feesSpent st' = ss_feesSpent st" for st'
    using assms(2) that by (intro issues_ret) (simp add: stepCost_def)
  have err: "stepCost B st (Raised e) []" for e using assms(2) by (simp add: stepCost_def)
  show ?thesis
  proof (cases "0 < remaining \<and> splitFeeWithinBudget (ss_feesSpent st) (estimateRefillFee n False 1) (sp_maxCostSats p)")
    case False
    then show ?thesis
      using stop by (auto simp: splitStep_def Let_def remaining_def [symmetric] n_def [symmetric])
  next
    case True
    then have paid: "ss_feesSpent st + estimateRefillFee n False 1 \<le> B" using within_ceiling assms(1) by blast
    have small: "issues (let adjustedCount = min (int n) (fu_satoshis utxo div sp_floorSats p) in
                 if adjustedCount < 2
                 then andThen (execFunding (\<lambda>_. release (js_trim (fu_txid utxo)) (fu_vout utxo)))
                        (\<lambda>_. ret (st\<lparr>ss_failed := True\<rparr>, False))
                 else splitOne p utxo (nat adjustedCount) st :: ('x, SplitState \<times> bool) treasury_job) (stepCost B st)"
      for utxo
    proof -
      define k where "k = min (int n) (fu_satoshis utxo div sp_floorSats p)"
      have "issues (splitOne p utxo (nat k) st :: ('x, SplitState \<times> bool) treasury_job) (stepCost B st)" if "\<not> k < 2"
      proof (rule splitOne_issues)
        have "nat k \<le> n" "2 \<le> nat k" using that by (auto simp: k_def)
        then show "2 \<le> nat k" "nat k \<le> 40" "ss_feesSpent st + estimateRefillFee (nat k) False 1 \<le> B"
          using n paid splitFee_mono [of "nat k" n] by auto
      qed
      then show ?thesis
        unfolding Let_def k_def [symmetric] by (auto intro!: issues_after silent_calls stop err)
    qed
    show ?thesis
      unfolding splitStep_def Let_def remaining_def [symmetric] n_def [symmetric]
      using True splitOne_issues [OF n paid] small [unfolded Let_def]
      by (auto intro!: issues_after silent_calls stop err split: option.split)
  qed
qed

lemma splitLoop_issues:
  assumes "ceilingSats (sp_maxCostSats p) = Some B" "ss_feesSpent st \<le> B"
  shows "issues (splitLoop p poolCount k st :: ('x, SplitState) treasury_job) (loopCost B st)"
  using assms(2)
proof (induction k arbitrary: st)
  case 0
  then show ?case by (auto intro!: issues_ret simp: loopCost_def)
next
  case (Suc k)
  show ?case
    unfolding splitLoop.simps
  proof (rule issues_andThen [OF splitStep_issues [OF assms(1) Suc.prems]])
    fix x and ts :: "Transaction list"
    assume c: "stepCost B st (Returned x) ts"
    obtain st' more where x: "x = (st', more)" by (cases x)
    have st': "ss_feesSpent st' \<le> B" "feesOf ts \<le> B - ss_feesSpent st"
      "more \<or> \<not> stopsSplit st' \<longrightarrow> feesOf ts \<le> ss_feesSpent st' - ss_feesSpent st" using c x by (auto simp: stepCost_def)
    have "issues (splitLoop p poolCount k st' :: ('x, SplitState) treasury_job) (\<lambda>r us. loopCost B st r (ts @ us))" if more
      by (rule issues_mono [OF Suc.IH [OF st'(1)]]) (use st' that in \<open>force simp: loopCost_def\<close>)
    moreover have "issues (ret st' :: ('x, SplitState) treasury_job) (\<lambda>r us. loopCost B st r (ts @ us))"
      using st' by (auto intro!: issues_ret simp: loopCost_def)
    ultimately show "issues ((case x of (st', more) \<Rightarrow> if more then splitLoop p poolCount k st' else ret st')
        :: ('x, SplitState) treasury_job) (\<lambda>r us. loopCost B st r (ts @ us))"
      by (simp add: x)
  qed (simp add: stepCost_def loopCost_def)
qed

lemma silent_pause: "(\<And>w. tw_sent (f w) = tw_sent w) \<Longrightarrow> issues (pause f) silent"
  unfolding pause_def
  by (rule issues_onError [where \<Phi> = silent], rule silent_await)
     (auto intro: issues_mono [OF silent_ret] simp: silent_def)

lemma splitRounds_issues:
  assumes "ceilingSats (sp_maxCostSats p) = Some B" "ss_feesSpent st \<le> B"
  shows "issues (splitRounds p k st :: ('x, SplitState) treasury_job) (\<lambda>_ ts. feesOf ts \<le> B - ss_feesSpent st)"
  using assms(2)
proof (induction k arbitrary: st)
  case 0
  then show ?case by (auto intro!: issues_ret)
next
  case (Suc k)
  note stop = issues_ret [where \<Phi> = "\<lambda>r ts. feesOf ts \<le> B - ss_feesSpent st"]
  have body: "issues (andThen (splitLoop p c n (st\<lparr>ss_failed := False\<rparr>)) (\<lambda>st'.
                if ss_failed st' \<or> ss_budgetExhausted st' then ret st'
                else andThen callBalance (\<lambda>(_, updated).
                     if int updated \<ge> sp_desiredMinCount p then ret st'
                     else andThen (onlyIf (k > 0)
                            (andThen (pause (\<lambda>w. w\<lparr>tw_clock := tw_clock w + PROPAGATION_WAIT_MS\<rparr>))
                               (\<lambda>_. noteFunding pruneFundingCooldowns)))
                          (\<lambda>_. splitRounds p k st'))) :: ('x, SplitState) treasury_job)
      (\<lambda>_ ts. feesOf ts \<le> B - ss_feesSpent st)" for c n
  proof (rule issues_andThen [OF splitLoop_issues [OF assms(1)]])
    show "ss_feesSpent (st\<lparr>ss_failed := False\<rparr>) \<le> B" using Suc.prems by simp
  next
    fix st' and ts :: "Transaction list"
    assume c: "loopCost B (st\<lparr>ss_failed := False\<rparr>) (Returned st') ts"
    let ?\<Psi> = "\<lambda>(r :: (unit, SplitState) outcome) us. feesOf (ts @ us) \<le> B - ss_feesSpent st"
    have le: "feesOf ts \<le> B - ss_feesSpent st" and st': "ss_feesSpent st' \<le> B" using c by (auto simp: loopCost_def)
    have done_: "issues (ret st' :: ('x, SplitState) treasury_job) ?\<Psi>" using le by (auto intro!: issues_ret)
    have wait: "issues (onlyIf (k > 0) (andThen (pause (\<lambda>w. w\<lparr>tw_clock := tw_clock w + PROPAGATION_WAIT_MS\<rparr>))
        (\<lambda>_. noteFunding pruneFundingCooldowns)) :: ('x, unit) treasury_job) silent"
      unfolding onlyIf_def by (auto intro!: silent_andThen silent_pause silent_calls silent_ret)
    have again: "issues (splitRounds p k st' :: ('x, SplitState) treasury_job) ?\<Psi>" if "\<not> stopsSplit st'"
    proof (rule issues_mono [OF Suc.IH [OF st']])
      fix r us assume "feesOf us \<le> B - ss_feesSpent st'"
      then show "?\<Psi> r us" using that c by (simp add: loopCost_def)
    qed
    show "issues (if ss_failed st' \<or> ss_budgetExhausted st' then ret st'
                else andThen callBalance (\<lambda>(_, updated).
                     if int updated \<ge> sp_desiredMinCount p then ret st'
                     else andThen (onlyIf (k > 0)
                            (andThen (pause (\<lambda>w. w\<lparr>tw_clock := tw_clock w + PROPAGATION_WAIT_MS\<rparr>))
                               (\<lambda>_. noteFunding pruneFundingCooldowns)))
                          (\<lambda>_. splitRounds p k st')) :: ('x, SplitState) treasury_job) ?\<Psi>"
      using done_ again le
      by (auto intro!: issues_after silent_calls wait simp: stopsSplit_def split: prod.split)
  qed (simp add: loopCost_def)
  show ?case
    unfolding splitRounds.simps Let_def
    using Suc.prems by (auto intro!: issues_after silent_calls stop body split: prod.split)
qed

lemma splitIfNeeded_issues:
  assumes "ceilingSats maxCostSats = Some B"
  shows "issues (splitIfNeeded cool lock desired minSats maxCostSats :: ('x, int) treasury_job) (\<lambda>_ ts. feesOf ts \<le> B)"
proof -
  have B: "0 \<le> B" using assms by (auto simp: ceilingSats_def split: cost_ceiling.splits option.splits)
  define p where "p = \<lparr> sp_cool = cool, sp_lock = lock, sp_desiredMinCount = desired,
      sp_floorSats = max minSats FUNDING_MIN_USABLE_SATS, sp_maxCostSats = maxCostSats \<rparr>"
  define st where "st = \<lparr> ss_totalCreated = 0, ss_feesSpent = 0, ss_budgetExhausted = False, ss_failed = False \<rparr>"
  have "issues (splitRounds p MAX_ROUNDS st :: ('x, SplitState) treasury_job) (\<lambda>_ ts. feesOf ts \<le> B - ss_feesSpent st)"
    by (rule splitRounds_issues) (simp_all add: p_def st_def assms B)
  then have "issues (andThen (splitRounds p MAX_ROUNDS st) (\<lambda>st. ret (ss_totalCreated st)) :: ('x, int) treasury_job)
      (\<lambda>_ ts. feesOf ts \<le> B)"
    by (rule issues_andThen) (auto intro!: issues_ret simp: st_def)
  then show ?thesis
    unfolding splitIfNeeded_def Let_def p_def [symmetric] st_def [symmetric]
    using B by (auto intro!: issues_after silent_calls issues_ret split: prod.split)
qed

text \<open>
  C28: a split run spends no more on miner fees than the ceiling the caller gives it. Whatever database calls and
  broadcasts fail, including those that take effect without being acknowledged, and whatever other tasks do
  meanwhile, the transactions the run has handed to the network pay at most that much together.
\<close>

theorem split_fees_below_ceiling:
  assumes "obeys sendsLeft s" "ceilingSats maxCostSats = Some B"
    and "splitIfNeeded cool lock desiredMinCount minOutputSats maxCostSats s = (r, s')"
  shows "\<exists>ts. tw_sent (world s') = tw_sent (world s) @ ts \<and> feesOf ts \<le> B"
  using issuesD [OF splitIfNeeded_issues [OF assms(2)] assms(1,3)] by metis

text \<open>A treasury of one output of 1000000, to be split into four at a cost of at most 500 satoshis.\<close>

definition exampleWorld :: TreasuryWorld where
  "exampleWorld =
     \<lparr> tw_clock = 1000,
       tw_funding = newFundingUtxoManager 25 [newFundingRow 0 ''aa'' 0 1000000 ''f1''] newHold,
       tw_busy = (\<lambda>_. False), tw_sent = [],
       tw_answer = (\<lambda>_ _. \<lparr> bo_txid = ''bb'', bo_status = SEEN_ON_NETWORK, bo_code = None, bo_description = None \<rparr>) \<rparr>"

theorem split_fees_below_ceiling_witness:
  "\<exists>ts. tw_sent (world (snd (splitIfNeeded 5000 ''f1'' 4 100000 (Ceiling (Some 500)) \<lparr> world = exampleWorld, script = [] \<rparr>))) = ts
     \<and> feesOf ts \<le> 500"
  using split_fees_below_ceiling
    [of "\<lparr> world = exampleWorld, script = [] \<rparr>" "Ceiling (Some 500)" 500 5000 "''f1''" 4 100000, OF obeys_new _ surjective_pairing]
  by (simp add: ceilingSats_def exampleWorld_def)

subsection \<open>When the bookkeeping fails\<close>

lemma release_run:
  assumes "script s = []"
  shows "callReleaseMany ks s =
    (Returned (), s\<lparr>world := (world s)\<lparr>tw_funding := releaseMany ks (tw_funding (world s))\<rparr>\<rparr>)"
  using assms
proof (induction ks arbitrary: s)
  case Nil
  then show ?case by (simp add: callReleaseMany_def ret_def releaseMany_def)
next
  case (Cons k ks)
  obtain t v where k: "k = (t, v)" by (cases k)
  have "execFunding (\<lambda>_. release (js_trim t) v) s =
      (Returned (), s\<lparr>world := (world s)\<lparr>tw_funding := release (js_trim t) v (tw_funding (world s))\<rparr>\<rparr>)"
    using Cons.prems by (simp add: execFunding_def await_def toFunding_def)
  then show ?case
    using Cons.IH [of "s\<lparr>world := (world s)\<lparr>tw_funding := release (js_trim t) v (tw_funding (world s))\<rparr>\<rparr>"] Cons.prems
    by (simp add: callReleaseMany_def releaseMany_def k)
qed

lemma released_unlocked:
  assumes "r \<in> set (funding_pool m)" "keyOfFunding r \<in> (\<lambda>(t, v). (js_trim t, v)) ` set ks"
  shows "\<exists>r' \<in> set (funding_pool (releaseMany ks m)). keyOfFunding r' = keyOfFunding r \<and> \<not> fu_is_locked r'"
proof -
  have step: "r \<in> set (funding_pool m) \<Longrightarrow> \<exists>r' \<in> set (funding_pool (release t v m)).
      keyOfFunding r' = keyOfFunding r \<and> (fu_is_locked r' \<longrightarrow> fu_is_locked r \<and> keyOfFunding r \<noteq> (t, v))" for r m t v
    by (rule bexI [of _ "if keyOfFunding r = (t, v) then r\<lparr>fu_is_locked := False, fu_locked_at := None\<rparr> else r"])
       (auto simp: release_def releaseFundingUtxo_def updateFunding_def)
  have "r \<in> set (funding_pool m) \<Longrightarrow> \<exists>r' \<in> set (funding_pool (releaseMany ks m)). keyOfFunding r' = keyOfFunding r
      \<and> (fu_is_locked r' \<longrightarrow> fu_is_locked r \<and> keyOfFunding r \<notin> (\<lambda>(t, v). (js_trim t, v)) ` set ks)" for r m
  proof (induction ks arbitrary: r m)
    case (Cons k ks)
    obtain t v where k: "k = (t, v)" by (cases k)
    obtain r1 where r1: "r1 \<in> set (funding_pool (release (js_trim t) v m))" "keyOfFunding r1 = keyOfFunding r"
      "fu_is_locked r1 \<longrightarrow> fu_is_locked r \<and> keyOfFunding r \<noteq> (js_trim t, v)"
      using step [OF Cons.prems] by blast
    show ?case using Cons.IH [OF r1(1)] r1(2,3) by (auto simp: releaseMany_def k)
  qed (auto simp: releaseMany_def)
  then show ?thesis using assms by blast
qed

text \<open>
  C29: when the transaction of a reshape has been accepted by the network and the statement that follows is
  refused, the run reports a failed broadcast and unlocks the inputs, although they are spent: each of
  them is in the pool, free for the next selection, and an input of a transaction that was sent.
\<close>

theorem failed_bookkeeping_frees_spent_inputs:
  assumes "buildFundingSplitTx (map fundingInput utxos) lock n = Inr (t, outs)"
    and "bo_status (tw_answer w (tw_sent w) t) = SEEN_ON_NETWORK"
    and "r \<in> set utxos" "r \<in> set (funding_pool (tw_funding w))" "js_trim (fu_txid r) = fu_txid r"
    and "executeReshape cool lock utxos n \<lparr> world = w, script = [(id, Done, id), (id, Done, id), (id, Refused, id)] \<rparr> = (x, s')"
  shows "x = Returned (- 1) \<and> tw_sent (world s') = tw_sent w @ [t] \<and> fundingInput r \<in> set (tx_inputs t)
    \<and> (\<exists>r' \<in> set (funding_pool (tw_funding (world s'))). keyOfFunding r' = keyOfFunding r \<and> \<not> fu_is_locked r')"
proof -
  have sent: "sendTx t w = (tw_answer w (tw_sent w) t, w\<lparr>tw_sent := tw_sent w @ [t]\<rparr>)"
    using assms(2) by (simp add: sendTx_def isLocalBackpressureBroadcastFailure_def)
  have "executeReshape cool lock utxos n \<lparr> world = w, script = [(id, Done, id), (id, Done, id), (id, Refused, id)] \<rparr>
     = (Returned (- 1), \<lparr> world = w\<lparr>tw_sent := tw_sent w @ [t],
          tw_funding := releaseMany (spentKeys utxos) (tw_funding w)\<rparr>, script = [] \<rparr>)"
    unfolding executeReshape_def Let_def
    by (simp add: onError_def andThen_def await_def assms(1,2) sent swapOutputs_def execFunding_def release_run ret_def)
  then have s': "x = Returned (- 1)" "world s' = w\<lparr>tw_sent := tw_sent w @ [t], tw_funding := releaseMany (spentKeys utxos) (tw_funding w)\<rparr>"
    using assms(6) by auto
  have "tx_inputs t = map fundingInput utxos" using reshape_conserves_value [OF assms(1)] by simp
  moreover have "keyOfFunding r \<in> (\<lambda>(t, v). (js_trim t, v)) ` set (spentKeys utxos)"
    using assms(3,5) by (force simp: spentKeys_def keyOfFunding_def)
  ultimately show ?thesis using s' released_unlocked [OF assms(4)] assms(3) by simp
qed

theorem failed_bookkeeping_frees_spent_inputs_witness:
  "\<exists>t s'. executeReshape 5000 ''f1'' (funding_pool (tw_funding exampleWorld)) 4
       \<lparr> world = exampleWorld, script = [(id, Done, id), (id, Done, id), (id, Refused, id)] \<rparr> = (Returned (- 1), s')
     \<and> tw_sent (world s') = [t]
     \<and> (\<exists>r' \<in> set (funding_pool (tw_funding (world s'))). keyOfFunding r' = (''aa'', 0) \<and> \<not> fu_is_locked r')"
proof -
  let ?r = "newFundingRow 0 ''aa'' 0 1000000 ''f1''"
  have pool: "funding_pool (tw_funding exampleWorld) = [?r]" by (simp add: exampleWorld_def newFundingUtxoManager_def)
  have "estimateRefillFee 4 False 1 \<le> \<lceil>11 * real (refillSize 4 False 1) / 100\<rceil> + 1"
    using fee_within_one_sat [of "refillSize 4 False 1"] by (simp add: estimateRefillFee_def splitSize [simplified])
  then have fee: "estimateRefillFee 4 False (Suc 0) \<le> 34" by (simp add: splitSize [simplified])
  obtain t outs where b: "buildFundingSplitTx (map fundingInput [?r]) ''f1'' 4 = Inr (t, outs)"
    using fee by (auto simp: buildFundingSplitTx_def Let_def fundingInput_def newFundingRow_def REFILL_OUTPUT_DUST_LIMIT_def
        addEqualOutputs_eq)
  obtain x s' where e: "executeReshape 5000 ''f1'' [?r] 4
      \<lparr> world = exampleWorld, script = [(id, Done, id), (id, Done, id), (id, Refused, id)] \<rparr> = (x, s')" by (metis surj_pair)
  have "js_trim ''aa'' = ''aa''" by code_simp
  then show ?thesis
    using failed_bookkeeping_frees_spent_inputs [OF b, of exampleWorld ?r 5000 x s'] e pool
    by (auto simp: exampleWorld_def newFundingRow_def keyOfFunding_def)
qed

text \<open>Halving an output of twice the floor, which the loops allow, mints outputs below the floor: the fee is taken
  from them.\<close>

lemma split_mints_below_floor:
  assumes "buildFundingSplitTx [u] lock 2 = Inr (t, outs)" "in_satoshis u = 2 * floorSats"
  shows "\<exists>b \<in> set outs. bo_satoshis b < floorSats"
proof (rule ccontr)
  assume "\<not> (\<exists>b \<in> set outs. bo_satoshis b < floorSats)"
  then have all: "list_all (\<lambda>b. floorSats \<le> bo_satoshis b) outs" by (auto simp: list_all_iff)
  note r = reshape_conserves_value [OF assms(1)]
  have two: "length outs = 2" using r by simp
  then obtain a b where outs: "outs = [a, b]" by (auto simp: length_Suc_conv numeral_2_eq_2)
  have "inputSats t = 2 * floorSats" using r assms(2) by (simp add: inputSats_def)
  moreover have "outputSats t = bo_satoshis a + bo_satoshis b" using r by (simp add: outputSats_def outs hexOutput_def)
  moreover have "estimateRefillFee 2 False 1 > 0"
  proof -
    have "\<lceil>11 * real (refillSize 2 False 1) / 100\<rceil> \<le> estimateRefillFee 2 False 1"
      using fee_within_one_sat [of "refillSize 2 False 1"] by (simp add: estimateRefillFee_def splitSize [simplified])
    moreover have "0 < \<lceil>11 * real (refillSize 2 False 1) / 100\<rceil>" by (simp add: splitSize [simplified])
    ultimately show ?thesis by linarith
  qed
  moreover have "inputSats t = outputSats t + estimateRefillFee 2 False 1" using r by (simp add: two)
  moreover have "floorSats \<le> bo_satoshis a" "floorSats \<le> bo_satoshis b" using all by (simp_all add: outs)
  ultimately show False by linarith
qed

end
