(* ===== verification/Auto_Refill.thy ===== *)
theory Auto_Refill
  imports Treasury
begin

text \<open>
  Topping up the aircraft, \<open>services/blockchain-writer/src/auto-refill.ts\<close>: when an aircraft's pool is too small, the
  treasury pays a fixed amount into it, cut into several outputs. The state of the monitor is \<open>AutoRefill\<close>; the
  job \<open>checkAndRefill\<close> runs on a world that adds it and the pools of the aircraft to that of \<open>Treasury\<close>.

  The spend gate, \<open>Math.random()\<close> and the keys of the vault are arguments. Work that is started and not
  awaited goes to \<open>rw_background\<close>; the consolidation among it is \<open>runConsolidation\<close>. Timers that start a sweep
  are events. A pending refill is named by its upper-case key.

  Results: a check sends at most one transaction, which pays exactly the refill amount to the aircraft and
  everything else but the fee back; refills run within their concurrency limit and are started in the order of
  their requests; a transaction refused inside the writer costs the treasury its inputs in the pool.
\<close>

subsection \<open>Settings and state\<close>

definition DEFAULT_IDLE_WINDOW_MS :: millis where "DEFAULT_IDLE_WINDOW_MS = 30 * 60 * 1000"
definition REFILL_COOLDOWN_MS :: millis where "REFILL_COOLDOWN_MS = 8000"
definition ORPHAN_MEMPOOL_COOLDOWN_MS :: millis where "ORPHAN_MEMPOOL_COOLDOWN_MS = 5000"
definition TRANSIENT_REFILL_COOLDOWN_MS :: millis where "TRANSIENT_REFILL_COOLDOWN_MS = 15000"
definition SERIAL_REFILL_GAP_MS :: millis where "SERIAL_REFILL_GAP_MS = 200"
definition MAX_REFILL_INPUTS :: nat where "MAX_REFILL_INPUTS = 12"
definition TREASURY_BACKOFF_BASE_MS :: millis where "TREASURY_BACKOFF_BASE_MS = 2000"
definition TREASURY_BACKOFF_MAX_MS :: millis where "TREASURY_BACKOFF_MAX_MS = 60000"
definition TREASURY_CONSOLIDATION_COOLDOWN_MS :: millis where "TREASURY_CONSOLIDATION_COOLDOWN_MS = 120000"

text \<open>The configuration is read only and an argument \<open>cfg\<close>: the members that the monitor reads, the two propagation
  cooldowns, the script of the funding key, and the scripts of the aircraft's keys, as far as the vault has them.\<close>

record RefillConfig =
  refillThresholdSats :: int
  refillAmountSats :: int
  refillMinOutputSats :: int
  refillMaxOutputsPerTx :: int
  activeAircraftUtxoTarget :: int
  activeAircraftReadyUtxoTarget :: int
  retryReadyUtxoReserve :: int
  retryPressureReadyUtxoBoost :: int
  retryPressureWindowMs :: millis
  retryBackoffMs :: millis
  retryBackoffJitterMs :: millis
  maxConcurrentRefills :: nat
  fundingCooldownMs :: millis
  refillCooldownMs :: millis
  fundingLock :: string
  aircraftLock :: "string \<Rightarrow> string option"

definition treasuryOutputFloorSats :: "int \<Rightarrow> nat \<Rightarrow> int" where
  "treasuryOutputFloorSats refillAmount refillOutputCount =
     refillAmount + 100 + estimateRefillFee refillOutputCount True 1"

datatype RefillOutcome =
  Refilled | Sufficient | Aircraft_idle | Treasury_dry | Treasury_cooldown | Broadcast_deferred
| Broadcast_failed | Refill_error

record AutoRefill =
  idleWindowMs :: millis
  lastActivity :: "string \<rightharpoonup> millis"
  refillCooldowns :: "string \<rightharpoonup> millis"
  retryPressureUntil :: "string \<rightharpoonup> millis"
  retryBackoffUntil :: "string \<rightharpoonup> millis"
  treasuryBlockedUntil :: millis
  treasuryConsecutiveFailures :: nat
  dryAircraft :: "string set"
  pendingRefills :: "string set"
  refillActive :: nat
  refillWaiters :: "string list"
  consolidationInFlight :: bool
  consolidationNotBefore :: millis

definition newAutoRefill :: "millis option \<Rightarrow> AutoRefill" where
  "newAutoRefill idleWindow =
     \<lparr> idleWindowMs = (case idleWindow of Some ms \<Rightarrow> ms | None \<Rightarrow> DEFAULT_IDLE_WINDOW_MS),
       lastActivity = Map.empty, refillCooldowns = Map.empty, retryPressureUntil = Map.empty,
       retryBackoffUntil = Map.empty, treasuryBlockedUntil = 0, treasuryConsecutiveFailures = 0, dryAircraft = {},
       pendingRefills = {}, refillActive = 0, refillWaiters = [], consolidationInFlight = False,
       consolidationNotBefore = 0 \<rparr>"

definition orZero :: "millis option \<Rightarrow> millis" where
  "orZero t = (case t of Some x \<Rightarrow> x | None \<Rightarrow> 0)"

definition recordActivity :: "millis \<Rightarrow> string \<Rightarrow> AutoRefill \<Rightarrow> AutoRefill" where
  "recordActivity now icao st = st\<lparr>lastActivity := (lastActivity st)(js_upper icao \<mapsto> now)\<rparr>"

definition isActive :: "millis \<Rightarrow> string \<Rightarrow> AutoRefill \<Rightarrow> bool" where
  "isActive now icao st = (case lastActivity st (js_upper icao) of None \<Rightarrow> False | Some ts \<Rightarrow> now - ts < idleWindowMs st)"

definition isTreasuryBlocked :: "millis \<Rightarrow> AutoRefill \<Rightarrow> bool" where
  "isTreasuryBlocked now st \<longleftrightarrow> now < treasuryBlockedUntil st"

definition noteTreasuryFailure :: "millis \<Rightarrow> AutoRefill \<Rightarrow> millis \<times> AutoRefill" where
  "noteTreasuryFailure now st =
     (let n = treasuryConsecutiveFailures st + 1;
          backoff = min TREASURY_BACKOFF_MAX_MS (TREASURY_BACKOFF_BASE_MS * 2 ^ (n - 1))
      in (backoff, st\<lparr>treasuryConsecutiveFailures := n, treasuryBlockedUntil := now + backoff\<rparr>))"

definition noteTreasurySuccess :: "AutoRefill \<Rightarrow> AutoRefill" where
  "noteTreasurySuccess st = st\<lparr>treasuryConsecutiveFailures := 0, treasuryBlockedUntil := 0\<rparr>"

definition resetTreasuryBackoff :: "AutoRefill \<Rightarrow> AutoRefill" where
  "resetTreasuryBackoff st =
     st\<lparr>treasuryConsecutiveFailures := 0, treasuryBlockedUntil := 0, refillCooldowns := Map.empty\<rparr>"

definition setRefillCooldown :: "millis \<Rightarrow> string \<Rightarrow> millis \<Rightarrow> AutoRefill \<Rightarrow> AutoRefill" where
  "setRefillCooldown now icao ms st = st\<lparr>refillCooldowns := (refillCooldowns st)(js_upper icao \<mapsto> now + ms)\<rparr>"

definition noteDry :: "string \<Rightarrow> bool \<Rightarrow> AutoRefill \<Rightarrow> AutoRefill" where
  "noteDry icao dry st =
     st\<lparr>dryAircraft := (if dry then insert (js_upper icao) (dryAircraft st) else dryAircraft st - {js_upper icao})\<rparr>"

subsection \<open>Retry pressure\<close>

definition pruneUntil :: "millis \<Rightarrow> (string \<rightharpoonup> millis) \<Rightarrow> (string \<rightharpoonup> millis)" where
  "pruneUntil now m = (\<lambda>k. case m k of None \<Rightarrow> None | Some t \<Rightarrow> if t \<le> now then None else Some t)"

definition pruneRetryState :: "millis \<Rightarrow> AutoRefill \<Rightarrow> AutoRefill" where
  "pruneRetryState now st =
     st\<lparr>retryPressureUntil := pruneUntil now (retryPressureUntil st), retryBackoffUntil := pruneUntil now (retryBackoffUntil st)\<rparr>"

definition noteRetryPressure :: "RefillConfig \<Rightarrow> millis \<Rightarrow> real \<Rightarrow> string \<Rightarrow> AutoRefill \<Rightarrow> AutoRefill" where
  "noteRetryPressure cfg now random icao st0 =
     (let key = js_upper icao; st = pruneRetryState now st0;
          pressure = max (orZero (retryPressureUntil st key)) (now + max 0 (retryPressureWindowMs cfg));
          st1 = st\<lparr>retryPressureUntil := (retryPressureUntil st)(key \<mapsto> pressure)\<rparr>;
          jitterLimit = max 0 (retryBackoffJitterMs cfg);
          jitter = (if jitterLimit > 0 then \<lfloor>random * of_int (jitterLimit + 1)\<rfloor> else 0);
          backoff = max 0 (retryBackoffMs cfg) + jitter
      in if backoff > 0
         then st1\<lparr>retryBackoffUntil := (retryBackoffUntil st1)(key \<mapsto> max (orZero (retryBackoffUntil st1 key)) (now + backoff))\<rparr>
         else st1)"

definition getRetryBackoffRemainingMs :: "millis \<Rightarrow> string \<Rightarrow> AutoRefill \<Rightarrow> millis \<times> AutoRefill" where
  "getRetryBackoffRemainingMs now icao st0 =
     (let st = pruneRetryState now st0 in (max 0 (orZero (retryBackoffUntil st (js_upper icao)) - now), st))"

definition isUnderRetryPressure :: "millis \<Rightarrow> string \<Rightarrow> AutoRefill \<Rightarrow> bool" where
  "isUnderRetryPressure now icao st \<longleftrightarrow> orZero (retryPressureUntil (pruneRetryState now st) (js_upper icao)) > now"

subsection \<open>Targets\<close>

definition getTargetUtxoCount :: "RefillConfig \<Rightarrow> millis \<Rightarrow> string \<Rightarrow> bool \<Rightarrow> AutoRefill \<Rightarrow> int" where
  "getTargetUtxoCount cfg now icao force st =
     (if \<not> force \<and> \<not> isActive now icao st then 1 else max 1 (activeAircraftUtxoTarget cfg))"

definition getReadyUtxoTarget :: "RefillConfig \<Rightarrow> millis \<Rightarrow> string \<Rightarrow> bool \<Rightarrow> AutoRefill \<Rightarrow> int" where
  "getReadyUtxoTarget cfg now icao force st =
     (if \<not> force \<and> \<not> isActive now icao st then 1
      else let boost = (if isUnderRetryPressure now icao st then max 0 (retryPressureReadyUtxoBoost cfg) else 0)
           in min (getTargetUtxoCount cfg now icao force st) (max 1 (activeAircraftReadyUtxoTarget cfg) + boost))"

definition getRetryReadyReserve :: "RefillConfig \<Rightarrow> millis \<Rightarrow> string \<Rightarrow> AutoRefill \<Rightarrow> int" where
  "getRetryReadyReserve cfg now icao st =
     (if \<not> isActive now icao st then 0
      else min (max 0 (getTargetUtxoCount cfg now icao False st - 1)) (max 0 (retryReadyUtxoReserve cfg)))"

definition getDesiredRefillOutputCount :: "RefillConfig \<Rightarrow> int \<Rightarrow> int \<Rightarrow> nat" where
  "getDesiredRefillOutputCount cfg refillAmount missingUtxos =
     (let desiredByGap = max 1 missingUtxos;
          minOutputSats = max REFILL_OUTPUT_DUST_LIMIT (refillMinOutputSats cfg);
          maxByAmount = max 1 (refillAmount div minOutputSats);
          maxOutputsPerTx = max 1 (refillMaxOutputsPerTx cfg)
      in nat (max 1 (min desiredByGap (min maxByAmount maxOutputsPerTx))))"

definition needsRefill :: "RefillConfig \<Rightarrow> millis \<Rightarrow> string \<Rightarrow> UtxoPoolState \<Rightarrow> bool \<Rightarrow> AutoRefill \<Rightarrow> bool" where
  "needsRefill cfg now icao ps force st \<longleftrightarrow>
     ps_balance ps < refillThresholdSats cfg
   \<or> int (ps_unlockedUtxoCount ps) < getTargetUtxoCount cfg now icao force st
   \<or> int (ps_readyUtxoCount ps) < getReadyUtxoTarget cfg now icao force st"

subsection \<open>Requests and slots\<close>

text \<open>A request that starts takes a slot or waits for one; the answer is whether its refill starts now.\<close>

definition acquireRefillSlot :: "RefillConfig \<Rightarrow> string \<Rightarrow> AutoRefill \<Rightarrow> bool \<times> AutoRefill" where
  "acquireRefillSlot cfg key st =
     (if refillActive st < maxConcurrentRefills cfg then (True, st\<lparr>refillActive := refillActive st + 1\<rparr>)
      else (False, st\<lparr>refillWaiters := refillWaiters st @ [key]\<rparr>))"

text \<open>The key of the waiting refill that starts.\<close>

definition releaseRefillSlot :: "AutoRefill \<Rightarrow> string option \<times> AutoRefill" where
  "releaseRefillSlot st0 =
     (let st = st0\<lparr>refillActive := refillActive st0 - 1\<rparr>
      in case refillWaiters st of
           [] \<Rightarrow> (None, st)
         | key # rest \<Rightarrow> (Some key, st\<lparr>refillWaiters := rest, refillActive := refillActive st + 1\<rparr>))"

definition requestRefill :: "RefillConfig \<Rightarrow> millis \<Rightarrow> bool \<Rightarrow> string \<Rightarrow> AutoRefill \<Rightarrow> bool \<times> AutoRefill" where
  "requestRefill cfg now spendHalted icao st =
     (let key = js_upper icao
      in if key \<in> pendingRefills st then (False, st)
         else if now < orZero (refillCooldowns st key) then (False, st)
         else if spendHalted then (False, st)
         else if isTreasuryBlocked now st then (False, st)
         else acquireRefillSlot cfg key (st\<lparr>pendingRefills := insert key (pendingRefills st)\<rparr>))"

text \<open>A refill of a request has ended.\<close>

definition finishRefill :: "string \<Rightarrow> AutoRefill \<Rightarrow> string option \<times> AutoRefill" where
  "finishRefill key st =
     (case releaseRefillSlot st of (next, st') \<Rightarrow> (next, st'\<lparr>pendingRefills := pendingRefills st' - {key}\<rparr>))"

definition requestRefillIfPoolLow ::
  "RefillConfig \<Rightarrow> millis \<Rightarrow> bool \<Rightarrow> string \<Rightarrow> UtxoPoolState \<Rightarrow> bool \<Rightarrow> AutoRefill \<Rightarrow> bool \<times> AutoRefill" where
  "requestRefillIfPoolLow cfg now spendHalted icao ps force st =
     (if \<not> force \<and> \<not> isActive now icao st then (False, st)
      else if \<not> needsRefill cfg now icao ps force st then (False, st)
      else requestRefill cfg now spendHalted icao st)"

subsection \<open>The world of a refill\<close>

datatype Background = Reconcile_funding | Consolidate_treasury | Reconcile_aircraft string | Refill_aircraft string

record RefillWorld = TreasuryWorld +
  rw_utxos :: UtxoManager
  rw_refill :: AutoRefill
  rw_background :: "Background list"

type_synonym ('y, 'a) refill_job = "('y RefillWorld_scheme, unit, 'a) job"

definition onUtxos ::
  "(millis \<Rightarrow> UtxoManager \<Rightarrow> 'a \<times> UtxoManager) \<Rightarrow> 'y RefillWorld_scheme \<Rightarrow> 'a \<times> 'y RefillWorld_scheme" where
  "onUtxos f w = (case f (tw_clock w) (rw_utxos w) of (x, m) \<Rightarrow> (x, w\<lparr>rw_utxos := m\<rparr>))"

definition toUtxos ::
  "(millis \<Rightarrow> UtxoManager \<Rightarrow> UtxoManager) \<Rightarrow> 'y RefillWorld_scheme \<Rightarrow> unit \<times> 'y RefillWorld_scheme" where
  "toUtxos f w = ((), w\<lparr>rw_utxos := f (tw_clock w) (rw_utxos w)\<rparr>)"

definition noteRefill :: "(millis \<Rightarrow> AutoRefill \<Rightarrow> AutoRefill) \<Rightarrow> ('y, unit) refill_job" where
  "noteRefill f = alter (\<lambda>w. w\<lparr>rw_refill := f (tw_clock w) (rw_refill w)\<rparr>)"

definition startTask :: "Background \<Rightarrow> ('y, unit) refill_job" where
  "startTask b = alter (\<lambda>w. w\<lparr>rw_background := rw_background w @ [b]\<rparr>)"

definition requestTreasuryConsolidation :: "('y, unit) refill_job" where
  "requestTreasuryConsolidation =
     andThen (peek (\<lambda>w. consolidationInFlight (rw_refill w) \<or> tw_clock w < consolidationNotBefore (rw_refill w))) (\<lambda>skip.
     if skip then ret ()
     else andThen (noteRefill (\<lambda>now st. st\<lparr>consolidationInFlight := True,
              consolidationNotBefore := now + TREASURY_CONSOLIDATION_COOLDOWN_MS\<rparr>))
            (\<lambda>_. startTask Consolidate_treasury))"

text \<open>The task it starts.\<close>

definition runConsolidation :: "RefillConfig \<Rightarrow> ('y, unit) refill_job" where
  "runConsolidation cfg =
     andThen (tryCatch
        (andThen (consolidateIfFragmented (fundingCooldownMs cfg) (fundingLock cfg)
             (treasuryOutputFloorSats (refillAmountSats cfg) (nat (refillMaxOutputsPerTx cfg))) 25 8) (\<lambda>broadcasts.
         if broadcasts > 0 then noteRefill (\<lambda>_. resetTreasuryBackoff) else ret ()))
        (ret ())) (\<lambda>_.
     noteRefill (\<lambda>_ st. st\<lparr>consolidationInFlight := False\<rparr>))"

subsection \<open>A refill\<close>

definition callAcquireMany ::
  "int \<Rightarrow> nat \<Rightarrow> (nat \<Rightarrow> int) option \<Rightarrow> ('x, FundingUtxoRow list \<times> FundingSelectionDiagnostics) treasury_job" where
  "callAcquireMany minSats maxInputs fee =
     await () (\<lambda>w. onFunding (\<lambda>now. acquireMany now (tw_busy w) minSats maxInputs fee) w)"

definition callDeleteStale :: "string \<times> nat \<Rightarrow> ('x, unit) treasury_job" where
  "callDeleteStale k =
     (case k of (t, v) \<Rightarrow>
        andThen (execFunding (\<lambda>_ m. m\<lparr>funding_pool := deleteFundingUtxo t v (funding_pool m)\<rparr>))
          (\<lambda>_. noteFunding (\<lambda>_. clearFundingCooldown t v)))"

text \<open>An exception of the statements rolls them back.\<close>

definition callRecordSpendMany ::
  "millis \<Rightarrow> (string \<times> nat) list \<Rightarrow> string option \<Rightarrow> nat option \<Rightarrow> int option \<Rightarrow> string option \<Rightarrow> ('x, unit) treasury_job" where
  "callRecordSpendMany cool inputs changeTxid changeVout changeSats changeScript =
     andThen (callFunding (\<lambda>now m. case recordSpendRows now inputs changeTxid changeVout changeSats changeScript m of
         None \<Rightarrow> (False, m) | Some m' \<Rightarrow> (True, m'))) (\<lambda>stored.
     if \<not> stored then throw
     else noteFunding (\<lambda>now. recordSpendNotes now cool inputs changeTxid changeVout changeSats))"

definition deliveredRow :: "millis \<Rightarrow> string \<Rightarrow> string \<Rightarrow> BuiltOutput \<Rightarrow> UTXORecord" where
  "deliveredRow now icao t b =
     \<lparr> aircraft_icao = icao, txid = t, vout = bo_vout b, satoshis = bo_satoshis b, locking_script = bo_lockingScript b,
       is_locked = False, locked_at = None, unconfirmed_depth = REFILL_OUTPUT_DEPTH, created_at = Some now \<rparr>"

text \<open>\<open>addUtxos\<close>, one call at a time.\<close>

definition callAddUtxos :: "millis \<Rightarrow> string \<Rightarrow> string \<Rightarrow> BuiltOutput list \<Rightarrow> ('y, unit) refill_job" where
  "callAddUtxos cool icao t outs =
     andThen (forEach (\<lambda>b. andThen
         (await () (toUtxos (\<lambda>now m. m\<lparr>pool := insertUtxo (deliveredRow now icao t b) (pool m)\<rparr>)))
         (\<lambda>_. alter (\<lambda>w. snd (toUtxos (\<lambda>now. setUtxoCooldown now t (bo_vout b) cool) w)))) outs) (\<lambda>_.
     andThen (await () (onUtxos (\<lambda>now. checkBalance now icao))) (\<lambda>_. ret ()))"

definition sleepMs :: "millis \<Rightarrow> ('x, unit) treasury_job" where
  "sleepMs ms = pause (\<lambda>w. w\<lparr>tw_clock := tw_clock w + ms\<rparr>)"

definition coolDown :: "string \<Rightarrow> millis \<Rightarrow> ('y, unit) refill_job" where
  "coolDown icao ms = noteRefill (\<lambda>now. setRefillCooldown now icao ms)"

definition fundingUnavailable :: "string \<Rightarrow> FundingSelectionDiagnostics \<Rightarrow> ('y, RefillOutcome) refill_job" where
  "fundingUnavailable icao d =
     andThen (noteRefill (\<lambda>now st. snd (noteTreasuryFailure now st))) (\<lambda>_.
     andThen (tryCatch (andThen callBalance (\<lambda>_. ret ())) (ret ())) (\<lambda>_.
     andThen (coolDown icao REFILL_COOLDOWN_MS) (\<lambda>_.
     andThen (startTask Reconcile_funding) (\<lambda>_.
     andThen (if reason d = Insufficient_within_input_cap then requestTreasuryConsolidation else ret ()) (\<lambda>_.
     ret Treasury_dry)))))"

text \<open>What follows the answer of the broadcaster.\<close>

definition refillBroadcast ::
  "RefillConfig \<Rightarrow> string \<Rightarrow> (string \<times> nat) list \<Rightarrow> RefillResult \<Rightarrow> BroadcastOutcome \<Rightarrow> ('y, RefillOutcome) refill_job" where
  "refillBroadcast cfg icao inputs built result =
     (if bo_status result = FAILED then
        if isDependencyPendingBroadcastFailure result then
          andThen (callReleaseMany inputs) (\<lambda>_.
          andThen (coolDown icao ORPHAN_MEMPOOL_COOLDOWN_MS) (\<lambda>_.
          andThen (noteRefill (\<lambda>now st. snd (noteTreasuryFailure now st))) (\<lambda>_.
          andThen (sleepMs SERIAL_REFILL_GAP_MS) (\<lambda>_. ret Broadcast_deferred))))
        else if isTransientBroadcastFailure result then
          andThen (callReleaseMany inputs) (\<lambda>_.
          andThen (coolDown icao TRANSIENT_REFILL_COOLDOWN_MS) (\<lambda>_.
          andThen (noteRefill (\<lambda>now st. snd (noteTreasuryFailure now st))) (\<lambda>_.
          andThen (startTask Reconcile_funding) (\<lambda>_.
          andThen (sleepMs SERIAL_REFILL_GAP_MS) (\<lambda>_. ret Broadcast_deferred)))))
        else
          andThen (forEach callDeleteStale inputs) (\<lambda>_.
          andThen (coolDown icao REFILL_COOLDOWN_MS) (\<lambda>_.
          andThen (sleepMs SERIAL_REFILL_GAP_MS) (\<lambda>_. ret Broadcast_failed)))
      else
        andThen (callRecordSpendMany (fundingCooldownMs cfg) inputs
            (if rr_changeVout built \<noteq> None then Some (bo_txid result) else None) (rr_changeVout built)
            (if rr_changeSats built > 0 then Some (rr_changeSats built) else None) (rr_changeLockingScript built)) (\<lambda>_.
        andThen (callAddUtxos (refillCooldownMs cfg) icao (bo_txid result) (rr_recipientOutputs built)) (\<lambda>_.
        andThen (noteRefill (\<lambda>_. noteTreasurySuccess)) (\<lambda>_.
        andThen (sleepMs SERIAL_REFILL_GAP_MS) (\<lambda>_. ret Refilled)))))"

definition spendRefill ::
  "RefillConfig \<Rightarrow> string \<Rightarrow> nat \<Rightarrow> FundingUtxoRow list \<Rightarrow> ('y, RefillOutcome) refill_job" where
  "spendRefill cfg icao outputCount utxos =
     (let inputs = spentKeys utxos in
      tryCatch
        (case aircraftLock cfg icao of None \<Rightarrow> throw
         | Some recipient \<Rightarrow>
             andThen (await () (\<lambda>w. (buildRefillTx (map fundingInput utxos) (fundingLock cfg) recipient
                 (refillAmountSats cfg) outputCount, w))) (\<lambda>built.
             case built of Inl _ \<Rightarrow> throw
             | Inr r \<Rightarrow> andThen (await () (sendTx (rr_tx r))) (\<lambda>result. refillBroadcast cfg icao inputs r result)))
        (andThen (callReleaseMany inputs) (\<lambda>_. throw)))"

definition refillFromTreasury :: "RefillConfig \<Rightarrow> string \<Rightarrow> nat \<Rightarrow> ('y, RefillOutcome) refill_job" where
  "refillFromTreasury cfg icao outputCount =
     andThen (peek (\<lambda>w. isTreasuryBlocked (tw_clock w) (rw_refill w))) (\<lambda>blocked.
     if blocked then andThen (coolDown icao REFILL_COOLDOWN_MS) (\<lambda>_. ret Treasury_cooldown)
     else andThen (callAcquireMany (refillAmountSats cfg + 100) MAX_REFILL_INPUTS
              (Some (estimateRefillFee outputCount True))) (\<lambda>(utxos, diagnostics).
          if utxos = [] then fundingUnavailable icao diagnostics else spendRefill cfg icao outputCount utxos))"

definition checkAndRefill :: "RefillConfig \<Rightarrow> string \<Rightarrow> bool \<Rightarrow> ('y, RefillOutcome) refill_job" where
  "checkAndRefill cfg icao force =
     andThen (await () (onUtxos (\<lambda>now. checkBalance now icao))) (\<lambda>ps.
     andThen (noteRefill (\<lambda>_. noteDry icao (ps_unlockedUtxoCount ps = 0))) (\<lambda>_.
     andThen (peek (\<lambda>w. (tw_clock w, rw_refill w))) (\<lambda>(now, st).
     let active = isActive now icao st;
         target = getTargetUtxoCount cfg now icao force st; ready = getReadyUtxoTarget cfg now icao force st
     in if ps_balance ps \<ge> refillThresholdSats cfg
           \<and> (\<not> (force \<or> active) \<or> int (ps_unlockedUtxoCount ps) \<ge> target \<and> int (ps_readyUtxoCount ps) \<ge> ready)
        then ret Sufficient
        else if \<not> force \<and> \<not> active then ret Aircraft_idle
        else let missing = max (max 0 (target - int (ps_unlockedUtxoCount ps))) (max 0 (ready - int (ps_readyUtxoCount ps)))
             in tryCatch (refillFromTreasury cfg icao (getDesiredRefillOutputCount cfg (refillAmountSats cfg) missing))
                  (andThen (coolDown icao REFILL_COOLDOWN_MS) (\<lambda>_. ret Refill_error)))))"

subsection \<open>The sweep over the fleet\<close>

text \<open>A sweep in progress: the aircraft still to take, active ones first, and the tally. Its workers take aircraft
  one by one; one whose refill is pending is skipped.\<close>

record Sweep =
  sw_force :: bool
  sw_left :: "string list"
  sw_tally :: "RefillOutcome \<Rightarrow> nat"

definition beginSweep :: "millis \<Rightarrow> bool \<Rightarrow> bool \<Rightarrow> string list \<Rightarrow> AutoRefill \<Rightarrow> Sweep option \<Rightarrow> Sweep option" where
  "beginSweep now spendHalted force fleet st running =
     (if running \<noteq> None then running
      else if spendHalted then None
      else Some \<lparr> sw_force = force, sw_left = sort_key (\<lambda>icao. if isActive now icao st then 0 else (1::nat)) fleet,
                  sw_tally = (\<lambda>_. 0) \<rparr>)"

fun takeAircraft :: "string set \<Rightarrow> string list \<Rightarrow> string option \<times> string list" where
  "takeAircraft busyKeys [] = (None, [])"
| "takeAircraft busyKeys (icao # left) =
     (if js_upper icao \<in> busyKeys then takeAircraft busyKeys left else (Some icao, left))"

definition sweepTake :: "Sweep \<Rightarrow> AutoRefill \<Rightarrow> string option \<times> Sweep \<times> AutoRefill" where
  "sweepTake sw st =
     (case takeAircraft (pendingRefills st) (sw_left sw) of
        (None, left) \<Rightarrow> (None, sw\<lparr>sw_left := left\<rparr>, st)
      | (Some icao, left) \<Rightarrow>
          (Some icao, sw\<lparr>sw_left := left\<rparr>, st\<lparr>pendingRefills := insert (js_upper icao) (pendingRefills st)\<rparr>))"

definition sweepEnds :: "string \<Rightarrow> RefillOutcome \<Rightarrow> Sweep \<Rightarrow> AutoRefill \<Rightarrow> Sweep \<times> AutoRefill" where
  "sweepEnds icao outcome sw st =
     (sw\<lparr>sw_tally := (sw_tally sw)(outcome := sw_tally sw outcome + 1)\<rparr>,
      st\<lparr>pendingRefills := pendingRefills st - {js_upper icao}\<rparr>)"

definition starved :: "Sweep \<Rightarrow> nat" where
  "starved sw = sw_tally sw Treasury_dry + sw_tally sw Treasury_cooldown + sw_tally sw Broadcast_failed + sw_tally sw Refill_error"

subsection \<open>What a check sends\<close>

lemma sent_onUtxos [simp]: "tw_sent (snd (onUtxos f w)) = tw_sent w" "tw_sent (snd (toUtxos g w)) = tw_sent w"
  by (simp_all add: onUtxos_def toUtxos_def split: prod.split)

lemma silent_throw: "issues throw silent"
  by (rule issues_raise) (simp add: silent_def)

lemma silent_onError: "issues m silent \<Longrightarrow> (\<And>e. issues (h e) silent) \<Longrightarrow> issues (onError m h) silent"
  by (rule issues_onError [where \<Phi> = silent]) (auto intro: issues_mono [of _ silent] simp: silent_def)

lemma silent_peek: "issues (peek f) silent"
  by (simp add: issues_def peek_def gets_def silent_def)

lemma silent_if: "(b \<Longrightarrow> issues m silent) \<Longrightarrow> (\<not> b \<Longrightarrow> issues k silent) \<Longrightarrow> issues (if b then m else k) silent"
  by simp

lemmas silent_intros = silent_andThen silent_calls silent_ret silent_throw silent_onError silent_peek silent_if
  silent_forEach silent_joinAll silent_pause

lemma silent_refill_calls:
  "issues (noteRefill f :: ('y, unit) refill_job) silent"
  "issues (startTask b :: ('y, unit) refill_job) silent"
  "issues (await () (onUtxos g) :: ('y, 'a) refill_job) silent"
  "issues (await () (toUtxos u) :: ('y, unit) refill_job) silent"
  "issues (alter (\<lambda>w. snd (toUtxos u w)) :: ('y, unit) refill_job) silent"
  unfolding noteRefill_def startTask_def by (intro silent_alter silent_await; simp)+

lemma silent_refill_parts:
  "issues (requestTreasuryConsolidation :: ('y, unit) refill_job) silent"
  "issues (callAcquireMany minSats maxInputs fee :: ('x, FundingUtxoRow list \<times> FundingSelectionDiagnostics) treasury_job) silent"
  "issues (callDeleteStale k :: ('x, unit) treasury_job) silent"
  "issues (callRecordSpendMany cool inputs ct cv cs lock :: ('x, unit) treasury_job) silent"
  "issues (callAddUtxos cool icao t outs :: ('y, unit) refill_job) silent"
  "issues (sleepMs ms :: ('x, unit) treasury_job) silent"
  "issues (coolDown icao ms :: ('y, unit) refill_job) silent"
  unfolding requestTreasuryConsolidation_def callAcquireMany_def callDeleteStale_def callRecordSpendMany_def
    callAddUtxos_def sleepMs_def coolDown_def
  by (auto intro!: silent_intros silent_refill_calls silent_await split: prod.split)

text \<open>It sends nothing and returns, if at all, one of \<open>A\<close>.\<close>

definition endsIn :: "'a set \<Rightarrow> (unit, 'a) outcome \<Rightarrow> Transaction list \<Rightarrow> bool" where
  "endsIn A r ts \<longleftrightarrow> ts = [] \<and> (\<forall>x. r = Returned x \<longrightarrow> x \<in> A)"

lemma ends_ret: "x \<in> A \<Longrightarrow> issues (ret x) (endsIn A)"
  by (rule issues_ret) (simp add: endsIn_def)

lemma ends_throw: "issues throw (endsIn A)"
  by (rule issues_raise) (simp add: endsIn_def)

lemma ends_after: "issues m silent \<Longrightarrow> (\<And>x. issues (k x) (endsIn A)) \<Longrightarrow> issues (andThen m k) (endsIn A)"
  by (rule issues_after) (auto simp: endsIn_def)

lemmas ends_intros = ends_after ends_ret ends_throw

lemma refillBroadcast_ends:
  "issues (refillBroadcast cfg icao inputs built result :: ('y, RefillOutcome) refill_job)
     (endsIn (if bo_status result = FAILED then {Broadcast_deferred, Broadcast_failed} else {Refilled}))"
  unfolding refillBroadcast_def
  by (auto intro!: ends_intros silent_intros silent_refill_calls silent_refill_parts)

lemma fundingUnavailable_ends: "issues (fundingUnavailable icao d :: ('y, RefillOutcome) refill_job) (endsIn {Treasury_dry})"
  unfolding fundingUnavailable_def
  by (auto intro!: ends_intros silent_intros silent_refill_calls silent_refill_parts)

text \<open>A transaction that pays the refill amount to the aircraft, and nothing else but change and fee.\<close>

definition isRefill :: "RefillConfig \<Rightarrow> string \<Rightarrow> Transaction \<Rightarrow> bool" where
  "isRefill cfg icao t \<longleftrightarrow>
     (\<exists>us rr n recipient. t = rr_tx rr \<and> aircraftLock cfg icao = Some recipient
        \<and> buildRefillTx us (fundingLock cfg) recipient (refillAmountSats cfg) n = Inr rr)"

definition sentNoMore :: "RefillConfig \<Rightarrow> string \<Rightarrow> (unit, RefillOutcome) outcome \<Rightarrow> Transaction list \<Rightarrow> bool" where
  "sentNoMore cfg icao r ts \<longleftrightarrow>
     length ts \<le> 1 \<and> list_all (isRefill cfg icao) ts
   \<and> (r \<in> Returned ` {Sufficient, Aircraft_idle, Treasury_dry, Treasury_cooldown} \<longrightarrow> ts = [])
   \<and> (r = Returned Refilled \<longrightarrow> length ts = 1)"

lemma sentNoMore_Nil [simp]: "sentNoMore cfg icao r [] \<longleftrightarrow> r \<noteq> Returned Refilled"
  by (auto simp: sentNoMore_def)

lemma ends_sentNoMore: "issues m (endsIn A) \<Longrightarrow> Refilled \<notin> A \<Longrightarrow> issues m (sentNoMore cfg icao)"
  by (erule issues_mono) (auto simp: endsIn_def)

lemma ends_after_refill:
  assumes "issues m (endsIn A)" "isRefill cfg icao t" "A \<subseteq> {Refilled, Broadcast_deferred, Broadcast_failed}"
  shows "issues m (\<lambda>r us. sentNoMore cfg icao r ([t] @ us))"
  by (rule issues_mono [OF assms(1)]) (use assms(2,3) in \<open>auto simp: endsIn_def sentNoMore_def\<close>)

lemma send_issues:
  "issues (await () (sendTx t) :: ('x, BroadcastOutcome) treasury_job)
     (\<lambda>r ts. ts \<in> {[], [t]} \<and> (\<forall>x. r = Returned x \<longrightarrow> ts = [] \<longrightarrow> bo_status x = FAILED))"
  by (rule issues_await)
     (auto simp: sendTx_def Let_def isLocalBackpressureBroadcastFailure_def split: if_splits)

lemma spendRefill_issues:
  "issues (spendRefill cfg icao n utxos :: ('y, RefillOutcome) refill_job) (sentNoMore cfg icao)"
proof -
  let ?inputs = "spentKeys utxos"
  let ?\<Psi> = "\<lambda>(r :: (unit, RefillOutcome) outcome) ts. sentNoMore cfg icao r ts"
  have broadcasted: "issues (andThen (await () (sendTx (rr_tx rr))) (\<lambda>result. refillBroadcast cfg icao ?inputs rr result)
      :: ('y, RefillOutcome) refill_job) ?\<Psi>"
    if "isRefill cfg icao (rr_tx rr)" for rr
  proof (rule issues_andThen [OF send_issues])
    fix x :: BroadcastOutcome and ts :: "Transaction list"
    assume s: "ts \<in> {[], [rr_tx rr]} \<and> (\<forall>y. Returned x = Returned y \<longrightarrow> ts = [] \<longrightarrow> bo_status y = FAILED)"
    note e = refillBroadcast_ends [of cfg icao ?inputs rr x]
    show "issues (refillBroadcast cfg icao ?inputs rr x :: ('y, RefillOutcome) refill_job) (\<lambda>r us. ?\<Psi> r (ts @ us))"
    proof (cases "ts = []")
      case True
      then show ?thesis using ends_sentNoMore [OF e] s by simp
    next
      case False
      then have ts: "ts = [rr_tx rr]" using s by simp
      show ?thesis unfolding ts by (rule ends_after_refill [OF e that]) simp
    qed
  next
    fix e :: unit and ts :: "Transaction list"
    assume "ts \<in> {[], [rr_tx rr]} \<and> (\<forall>x :: BroadcastOutcome. Raised e = Returned x \<longrightarrow> ts = [] \<longrightarrow> bo_status x = FAILED)"
    then show "?\<Psi> (Raised e) ts" using that by (auto simp: sentNoMore_def)
  qed
  have body: "issues ((case aircraftLock cfg icao of None \<Rightarrow> throw
         | Some recipient \<Rightarrow>
             andThen (await () (\<lambda>w. (buildRefillTx (map fundingInput utxos) (fundingLock cfg) recipient
                 (refillAmountSats cfg) n, w))) (\<lambda>built.
             case built of Inl _ \<Rightarrow> throw
             | Inr r \<Rightarrow> andThen (await () (sendTx (rr_tx r))) (\<lambda>result. refillBroadcast cfg icao ?inputs r result)))
      :: ('y, RefillOutcome) refill_job) ?\<Psi>"
  proof (cases "aircraftLock cfg icao")
    case None
    then show ?thesis by (simp add: issues_raise)
  next
    case (Some recipient)
    show ?thesis
      unfolding Some option.case
    proof (rule issues_andThen [OF issues_pure])
      fix built :: "build_error + RefillResult" and ts :: "Transaction list"
      assume b: "ts = [] \<and> Returned built \<in> {Returned (buildRefillTx (map fundingInput utxos) (fundingLock cfg) recipient
                 (refillAmountSats cfg) n), Raised ()}"
      show "issues ((case built of Inl _ \<Rightarrow> throw
             | Inr r \<Rightarrow> andThen (await () (sendTx (rr_tx r))) (\<lambda>result. refillBroadcast cfg icao ?inputs r result))
          :: ('y, RefillOutcome) refill_job) (\<lambda>r us. ?\<Psi> r (ts @ us))"
      proof (cases built)
        case (Inl e)
        then show ?thesis using conjunct1 [OF b] by (simp add: issues_raise)
      next
        case (Inr rr)
        have "isRefill cfg icao (rr_tx rr)" unfolding isRefill_def using b Inr Some by fastforce
        then show ?thesis using conjunct1 [OF b] broadcasted by (simp add: Inr)
      qed
    qed simp
  qed
  have release: "issues (andThen (callReleaseMany ?inputs) (\<lambda>_. throw) :: ('y, RefillOutcome) refill_job)
      (\<lambda>r us. ?\<Psi> r (ts @ us))" if "?\<Psi> (Raised e) ts" for e ts
    by (rule issues_mono [where \<Phi> = "endsIn {}"], intro ends_intros silent_intros)
       (use that in \<open>auto simp: endsIn_def sentNoMore_def\<close>)
  show ?thesis
    unfolding spendRefill_def Let_def
    by (rule issues_onError [OF body], rule release) simp_all
qed

lemma refillFromTreasury_issues:
  "issues (refillFromTreasury cfg icao n :: ('y, RefillOutcome) refill_job) (sentNoMore cfg icao)"
proof -
  have blocked: "issues (andThen (coolDown icao REFILL_COOLDOWN_MS) (\<lambda>_. ret Treasury_cooldown) :: ('y, RefillOutcome) refill_job)
      (sentNoMore cfg icao)"
    by (rule ends_sentNoMore [where A = "{Treasury_cooldown}"]) (auto intro!: ends_intros silent_refill_parts)
  have none: "issues (fundingUnavailable icao d :: ('y, RefillOutcome) refill_job) (sentNoMore cfg icao)" for d
    by (rule ends_sentNoMore [OF fundingUnavailable_ends]) simp
  have acquired: "issues (andThen (callAcquireMany (refillAmountSats cfg + 100) MAX_REFILL_INPUTS
              (Some (estimateRefillFee n True))) (\<lambda>(utxos, diagnostics).
          if utxos = [] then fundingUnavailable icao diagnostics else spendRefill cfg icao n utxos)
      :: ('y, RefillOutcome) refill_job) (sentNoMore cfg icao)"
    by (rule issues_after [OF silent_refill_parts(2)]) (simp_all add: none spendRefill_issues split: prod.split)
  show ?thesis
    unfolding refillFromTreasury_def
    by (rule issues_after [OF silent_peek]) (simp_all add: blocked acquired)
qed

lemma checkAndRefill_issues:
  "issues (checkAndRefill cfg icao force :: ('y, RefillOutcome) refill_job) (sentNoMore cfg icao)"
proof -
  have early: "issues (ret x :: ('y, RefillOutcome) refill_job) (sentNoMore cfg icao)" if "x \<noteq> Refilled" for x
    using that by (intro issues_ret) simp
  have failed: "issues (andThen (coolDown icao REFILL_COOLDOWN_MS) (\<lambda>_. ret Refill_error) :: ('y, RefillOutcome) refill_job)
      (\<lambda>r us. sentNoMore cfg icao r (ts @ us))"
    if "sentNoMore cfg icao (Raised e :: (unit, RefillOutcome) outcome) ts" for e ts
    by (rule issues_mono [where \<Phi> = "endsIn {Refill_error}"], intro ends_intros silent_refill_parts)
       (use that in \<open>auto simp: endsIn_def sentNoMore_def\<close>)
  have tried: "issues (tryCatch (refillFromTreasury cfg icao n)
      (andThen (coolDown icao REFILL_COOLDOWN_MS) (\<lambda>_. ret Refill_error)) :: ('y, RefillOutcome) refill_job)
      (sentNoMore cfg icao)" for n
    by (rule issues_onError [OF refillFromTreasury_issues], rule failed) simp_all
  show ?thesis
    unfolding checkAndRefill_def Let_def
    by (rule issues_after [OF silent_refill_calls(3)], rule issues_after [OF silent_refill_calls(1)],
        rule issues_after [OF silent_peek])
       (simp_all add: early tried split: prod.split)
qed



subsection \<open>A refusal inside the writer\<close>

lemma deleteStale_run:
  assumes "script s = []"
  shows "forEach callDeleteStale ks s = (Returned (), s\<lparr>world := (world s)\<lparr>tw_funding :=
     fold (\<lambda>(t, v). deleteStale t v) ks (tw_funding (world s))\<rparr>\<rparr>)"
  using assms
proof (induction ks arbitrary: s)
  case (Cons k ks)
  obtain t v where k: "k = (t, v)" by (cases k)
  have "callDeleteStale k s = (Returned (), s\<lparr>world := (world s)\<lparr>tw_funding := deleteStale t v (tw_funding (world s))\<rparr>\<rparr>)"
    using Cons.prems
    by (simp add: callDeleteStale_def k andThen_def execFunding_def await_def toFunding_def noteFunding_def alter_def
        modify_def deleteStale_def)
  then show ?case using Cons by (simp add: andThen_def k)
qed (simp add: ret_def)

lemma deleted_fewer:
  "keyOfFunding ` set (funding_pool (fold (\<lambda>(t, v). deleteStale t v) ks m)) \<subseteq> keyOfFunding ` set (funding_pool m)"
  by (induction ks arbitrary: m)
     (fastforce simp: deleteStale_def clearFundingCooldown_def deleteFundingUtxo_def deleteFunding_def)+

lemma deleted_gone:
  "keyOfFunding ` set (funding_pool (fold (\<lambda>(t, v). deleteStale t v) ks m)) \<inter> set ks = {}"
proof (induction ks arbitrary: m)
  case (Cons k ks)
  obtain t v where k: "k = (t, v)" by (cases k)
  have "k \<notin> keyOfFunding ` set (funding_pool (deleteStale t v m))"
    by (auto simp: k deleteStale_def clearFundingCooldown_def deleteFundingUtxo_def deleteFunding_def)
  then show ?case using Cons.IH [of "deleteStale t v m"] deleted_fewer [of ks "deleteStale t v m"] by (auto simp: k)
qed simp

text \<open>
  When the writer itself refuses a refill, because spending is halted, the breaker is open or the queue is full,
  nothing has been sent, and yet the treasury forgets the outputs that were to be spent: none of them is left in
  its pool. The refusal is answered like a rejection by the network.
\<close>

lemma refused_refill_forgets_inputs:
  assumes "isLocalBackpressureBroadcastFailure (tw_answer w (tw_sent w) (rr_tx rr))"
    and "aircraftLock cfg icao = Some recipient"
    and "buildRefillTx (map fundingInput utxos) (fundingLock cfg) recipient (refillAmountSats cfg) n = Inr rr"
    and "spendRefill cfg icao n utxos \<lparr> world = w, script = [] \<rparr> = (r, s')"
  shows "r = Returned Broadcast_failed \<and> tw_sent (world s') = tw_sent w
    \<and> keyOfFunding ` set (funding_pool (tw_funding (world s'))) \<inter> set (spentKeys utxos) = {}"
proof -
  let ?a = "tw_answer w (tw_sent w) (rr_tx rr)"
  have failed: "bo_status ?a = FAILED" "\<not> isDependencyPendingBroadcastFailure ?a" "\<not> isTransientBroadcastFailure ?a"
    using assms(1) failure_classes_disjoint [of ?a] by (auto simp: isLocalBackpressureBroadcastFailure_def)
  have sent: "sendTx (rr_tx rr) w = (?a, w)" using assms(1) by (simp add: sendTx_def Let_def)
  have "spendRefill cfg icao n utxos \<lparr> world = w, script = [] \<rparr>
     = (Returned Broadcast_failed, \<lparr> world = w\<lparr>tw_clock := tw_clock w + SERIAL_REFILL_GAP_MS,
          tw_funding := fold (\<lambda>(t, v). deleteStale t v) (spentKeys utxos) (tw_funding w),
          rw_refill := setRefillCooldown (tw_clock w) icao REFILL_COOLDOWN_MS (rw_refill w)\<rparr>, script = [] \<rparr>)"
    unfolding spendRefill_def Let_def
    by (simp add: onError_def andThen_def await_def assms(2,3) sent refillBroadcast_def failed deleteStale_run
        coolDown_def noteRefill_def alter_def modify_def sleepMs_def pause_def ret_def)
  then show ?thesis using assms(4) deleted_gone [of "spentKeys utxos" "tw_funding w"] by auto
qed


definition exampleConfig :: RefillConfig where
  "exampleConfig =
     \<lparr> refillThresholdSats = 1000, refillAmountSats = 5000, refillMinOutputSats = 1000, refillMaxOutputsPerTx = 5,
       activeAircraftUtxoTarget = 3, activeAircraftReadyUtxoTarget = 2, retryReadyUtxoReserve = 1,
       retryPressureReadyUtxoBoost = 1, retryPressureWindowMs = 60000, retryBackoffMs = 500, retryBackoffJitterMs = 0,
       maxConcurrentRefills = 2, fundingCooldownMs = 5000, refillCooldownMs = 3000, fundingLock = ''f1'',
       aircraftLock = (\<lambda>_. Some ''a1'') \<rparr>"

definition exampleRefillWorld :: RefillWorld where
  "exampleRefillWorld = TreasuryWorld.extend exampleWorld
     \<lparr> rw_utxos = newUtxoManager [] newHold, rw_refill = newAutoRefill None, rw_background = [] \<rparr>"


definition refusingWorld :: RefillWorld where
  "refusingWorld = exampleRefillWorld\<lparr>tw_answer := \<lambda>_ _. failedWith ''ARC_CIRCUIT_OPEN'' ''ARC circuit breaker open''\<rparr>"

lemma refused_refill_forgets_inputs_witness:
  "\<exists>s'. spendRefill exampleConfig ''A1'' 1 (funding_pool (tw_funding refusingWorld)) \<lparr> world = refusingWorld, script = [] \<rparr>
       = (Returned Broadcast_failed, s')
     \<and> tw_sent (world s') = [] \<and> (''aa'', 0) \<notin> keyOfFunding ` set (funding_pool (tw_funding (world s')))"
proof -
  let ?us = "funding_pool (tw_funding refusingWorld)"
  have us: "?us = [newFundingRow 0 ''aa'' 0 1000000 ''f1'']" and sent: "tw_sent refusingWorld = []"
    by (simp_all add: refusingWorld_def exampleRefillWorld_def exampleWorld_def TreasuryWorld.extend_def newFundingUtxoManager_def)
  have fee: "estimateRefillFee 1 True 1 \<le> 26"
    using fee_bounds_227 by (simp add: estimateRefillFee_def refillSize_eval [simplified])
  then obtain rr where b: "buildRefillTx (map fundingInput ?us) ''f1'' ''a1'' 5000 1 = Inr rr"
    by (auto simp: us buildRefillTx_def Let_def addEqualOutputs_eq REFILL_OUTPUT_DUST_LIMIT_def fundingInput_def newFundingRow_def)
  have code: "js_upper (js_trim ''ARC_CIRCUIT_OPEN'') = ''ARC_CIRCUIT_OPEN''" by code_simp
  have refused: "isLocalBackpressureBroadcastFailure (tw_answer refusingWorld (tw_sent refusingWorld) (rr_tx rr))"
    by (simp add: refusingWorld_def isLocalBackpressureBroadcastFailure_def failedWith_def codeOf_def code LOCAL_BACKPRESSURE_CODES_def)
  obtain r s' where r: "spendRefill exampleConfig ''A1'' 1 ?us \<lparr> world = refusingWorld, script = [] \<rparr> = (r, s')"
    by (metis surj_pair)
  have "js_trim ''aa'' = ''aa''" by code_simp
  then have k: "spentKeys ?us = [(''aa'', 0)]" by (simp add: us spentKeys_def newFundingRow_def)
  show ?thesis
    using refused_refill_forgets_inputs [OF refused, of exampleConfig "''A1''" "''a1''" ?us 1 r s'] b r sent k
    by (auto simp: exampleConfig_def)
qed

subsection \<open>One refill of an aircraft at a time\<close>

text \<open>The monitor with the refills that run in a slot and those that a sweep has taken, by key.\<close>

record RefillRun =
  rr_monitor :: AutoRefill
  rr_slots :: "string list"
  rr_sweeping :: "string list"

datatype refill_event =
  Asked millis bool string
| Slot_ended string
| Swept Sweep
| Sweep_ended string RefillOutcome Sweep
| Changed "AutoRefill \<Rightarrow> AutoRefill"

text \<open>\<open>Changed\<close> stands for the other operations, which leave requests and slots alone.\<close>

fun refillStep :: "RefillConfig \<Rightarrow> refill_event \<Rightarrow> RefillRun \<Rightarrow> RefillRun" where
  "refillStep cfg (Asked now isHalted icao) x =
     (case requestRefill cfg now isHalted icao (rr_monitor x) of (starts, st) \<Rightarrow>
        x\<lparr>rr_monitor := st, rr_slots := rr_slots x @ (if starts then [js_upper icao] else [])\<rparr>)"
| "refillStep cfg (Slot_ended key) x =
     (if key \<notin> set (rr_slots x) then x
      else case finishRefill key (rr_monitor x) of (next, st) \<Rightarrow>
        x\<lparr>rr_monitor := st, rr_slots := remove1 key (rr_slots x) @ (case next of Some k \<Rightarrow> [k] | None \<Rightarrow> [])\<rparr>)"
| "refillStep cfg (Swept sw) x =
     (case sweepTake sw (rr_monitor x) of (taken, _, st) \<Rightarrow>
        x\<lparr>rr_monitor := st, rr_sweeping := rr_sweeping x @ (case taken of Some icao \<Rightarrow> [js_upper icao] | None \<Rightarrow> [])\<rparr>)"
| "refillStep cfg (Sweep_ended icao outcome sw) x =
     (if js_upper icao \<notin> set (rr_sweeping x) then x
      else x\<lparr>rr_monitor := snd (sweepEnds icao outcome sw (rr_monitor x)), rr_sweeping := remove1 (js_upper icao) (rr_sweeping x)\<rparr>)"
| "refillStep cfg (Changed f) x = x\<lparr>rr_monitor := f (rr_monitor x)\<rparr>"

text \<open>What the other operations of the monitor keep.\<close>

definition leavesSlots :: "refill_event \<Rightarrow> bool" where
  "leavesSlots e \<longleftrightarrow>
     (case e of Changed f \<Rightarrow> (\<forall>st. pendingRefills (f st) = pendingRefills st \<and> refillActive (f st) = refillActive st
                                 \<and> refillWaiters (f st) = refillWaiters st)
      | _ \<Rightarrow> True)"

definition refill_inv :: "RefillConfig \<Rightarrow> RefillRun \<Rightarrow> bool" where
  "refill_inv cfg x \<longleftrightarrow>
     distinct (rr_slots x @ refillWaiters (rr_monitor x) @ rr_sweeping x)
   \<and> pendingRefills (rr_monitor x) = set (rr_slots x @ refillWaiters (rr_monitor x) @ rr_sweeping x)
   \<and> refillActive (rr_monitor x) = length (rr_slots x)
   \<and> length (rr_slots x) \<le> maxConcurrentRefills cfg
   \<and> (refillWaiters (rr_monitor x) \<noteq> [] \<longrightarrow> length (rr_slots x) = maxConcurrentRefills cfg)"

lemma takeAircraft_fresh: "takeAircraft busyKeys left = (Some icao, left') \<Longrightarrow> js_upper icao \<notin> busyKeys"
  by (induction left) (auto split: if_splits)

lemma js_upper_pending: "js_upper icao \<in> set (xs @ ys @ zs) \<longleftrightarrow> js_upper icao \<in> set xs \<or> js_upper icao \<in> set ys \<or> js_upper icao \<in> set zs"
  by auto

lemma refillStep_inv:
  assumes "refill_inv cfg x" "leavesSlots e"
  shows "refill_inv cfg (refillStep cfg e x)"
proof (cases e)
  case (Asked now isHalted icao)
  then show ?thesis
    using assms(1) by (auto simp: refill_inv_def requestRefill_def acquireRefillSlot_def Let_def)
next
  case (Slot_ended key)
  show ?thesis
  proof (cases "key \<in> set (rr_slots x)")
    case True
    then have "length (remove1 key (rr_slots x)) + 1 = length (rr_slots x)"
      by (metis Suc_pred' add.commute length_pos_if_in_set length_remove1 plus_1_eq_Suc)
    then show ?thesis
      using assms(1) True Slot_ended
      by (cases "refillWaiters (rr_monitor x)")
         (auto simp: refill_inv_def finishRefill_def releaseRefillSlot_def Let_def)
  qed (use assms(1) Slot_ended in simp)
next
  case (Swept sw)
  obtain taken left where t: "takeAircraft (pendingRefills (rr_monitor x)) (sw_left sw) = (taken, left)" by (cases "takeAircraft (pendingRefills (rr_monitor x)) (sw_left sw)")
  show ?thesis
    using assms(1) Swept t takeAircraft_fresh [of "pendingRefills (rr_monitor x)" "sw_left sw"]
    by (cases taken) (auto simp: refill_inv_def sweepTake_def)
next
  case (Sweep_ended icao outcome sw)
  then show ?thesis using assms(1) by (auto simp: refill_inv_def sweepEnds_def)
next
  case (Changed f)
  then show ?thesis using assms by (simp add: refill_inv_def leavesSlots_def)
qed

lemma others_leave_slots:
  "leavesSlots (Changed (recordActivity now icao))" "leavesSlots (Changed (\<lambda>st. snd (noteTreasuryFailure now st)))"
  "leavesSlots (Changed noteTreasurySuccess)" "leavesSlots (Changed resetTreasuryBackoff)"
  "leavesSlots (Changed (setRefillCooldown now icao ms))" "leavesSlots (Changed (noteDry icao dry))"
  "leavesSlots (Changed (noteRetryPressure cfg now random icao))" "leavesSlots (Changed (pruneRetryState now))"
  by (simp_all add: leavesSlots_def recordActivity_def noteTreasuryFailure_def noteTreasurySuccess_def
      resetTreasuryBackoff_def setRefillCooldown_def noteDry_def noteRetryPressure_def pruneRetryState_def Let_def)

lemma refill_run_inv:
  "refill_inv cfg x \<Longrightarrow> list_all leavesSlots es \<Longrightarrow> refill_inv cfg (fold (refillStep cfg) es x)"
  by (induction es arbitrary: x) (simp_all add: refillStep_inv)

definition startRefillRun :: RefillRun where
  "startRefillRun = \<lparr> rr_monitor = newAutoRefill None, rr_slots = [], rr_sweeping = [] \<rparr>"

text \<open>
  C31: the treasury never serves one aircraft twice at a time. After any sequence of requests, sweeps and ends of
  refills, the aircraft whose refill runs on request, waits for a slot, or is being served by a sweep are pairwise
  different and exactly the pending ones; refills on request stay within the configured concurrency, and none
  waits while a slot is free.
\<close>

theorem refills_one_at_a_time:
  assumes "list_all leavesSlots es" "x = fold (refillStep cfg) es startRefillRun"
  shows "distinct (rr_slots x @ refillWaiters (rr_monitor x) @ rr_sweeping x)
    \<and> pendingRefills (rr_monitor x) = set (rr_slots x) \<union> set (refillWaiters (rr_monitor x)) \<union> set (rr_sweeping x)
    \<and> length (rr_slots x) \<le> maxConcurrentRefills cfg
    \<and> (refillWaiters (rr_monitor x) \<noteq> [] \<longrightarrow> length (rr_slots x) = maxConcurrentRefills cfg)"
proof -
  have "refill_inv cfg startRefillRun" by (simp add: refill_inv_def startRefillRun_def newAutoRefill_def)
  then have "refill_inv cfg x" unfolding assms(2) using assms(1) by (rule refill_run_inv)
  then show ?thesis by (auto simp: refill_inv_def)
qed

theorem refills_one_at_a_time_witness:
  "\<exists>x. x = fold (refillStep exampleConfig)
       [Asked 1 False ''a1'', Asked 1 False ''b2'', Asked 1 False ''A1'', Asked 2 False ''c3'', Slot_ended ''A1''] startRefillRun
     \<and> rr_slots x = [''B2'', ''C3''] \<and> refillWaiters (rr_monitor x) = [] \<and> distinct (rr_slots x)"
proof -
  have up: "js_upper ''a1'' = ''A1''" "js_upper ''A1'' = ''A1''" "js_upper ''b2'' = ''B2''" "js_upper ''c3'' = ''C3''"
    by code_simp+
  show ?thesis
    using refills_one_at_a_time [of "[Asked 1 False ''a1'', Asked 1 False ''b2'', Asked 1 False ''A1'', Asked 2 False ''c3'',
        Slot_ended ''A1'']" _ exampleConfig, OF _ refl]
    by (simp add: up startRefillRun_def newAutoRefill_def requestRefill_def acquireRefillSlot_def finishRefill_def
        releaseRefillSlot_def exampleConfig_def orZero_def isTreasuryBlocked_def leavesSlots_def Let_def)
qed

end
