(* ===== verification/Write_Store.thy ===== *)
theory Write_Store
  imports Header_Store
begin

text \<open>
  The two tables a write goes through, \<open>packages/db/src/queries.ts\<close>: \<open>pending_writes\<close>, the writes that wait to be sent
  again, and \<open>tx_results\<close>, one row per transaction sent.

  A table is the list of its rows in the order of insertion, which also resolves the ties of an \<open>ORDER BY\<close>. A
  statement is one step, and so is a transaction. \<open>now()\<close> of the database is an argument. Transaction ids
  are compared as they are (the column is \<open>char(64)\<close>); the columns of the proofs are those of \<open>Header_Store\<close>.

  Results: which operations may drop a waiting write, and no other does; deferred telemetry collapses to its
  newest sample and leaves a preserved backlog alone; the claims that send a rejected write again are bounded.
\<close>

subsection \<open>Rows\<close>

record PendingWriteRow =
  pw_id :: nat
  pw_aircraft_icao :: string
  pw_record_type :: RecordType
  pw_payload :: "byte list"
  pw_flight_id :: "string option"
  pw_retry_count :: nat
  pw_last_error :: "string option"
  pw_created_at :: millis
  pw_preserved :: bool

record NewPendingWrite =
  np_aircraft_icao :: string
  np_record_type :: RecordType
  np_payload :: "byte list"
  np_flight_id :: "string option"
  np_preserved :: "bool option"

record TxResultRow =
  rx_txid :: string
  rx_aircraft_icao :: string
  rx_record_type :: RecordType
  rx_status :: TxStatus
  rx_block_height :: "int option"
  rx_merkle_path :: "string option"
  rx_timestamp :: millis
  rx_fee_sats :: int
  rx_size_bytes :: nat
  rx_flight_id :: "string option"
  rx_chronicle_validated :: bool
  rx_op_return :: "byte list option"
  rx_reject_requeues :: nat
  rx_reject_status :: "string option"
  rx_reject_reason :: "string option"
  rx_reject_competing_txs :: "string list option"

text \<open>What is inserted: the columns of a rejection have their defaults.\<close>

record NewTxResult =
  nx_txid :: string
  nx_aircraft_icao :: string
  nx_record_type :: RecordType
  nx_status :: TxStatus
  nx_block_height :: "int option"
  nx_merkle_path :: "string option"
  nx_timestamp :: millis
  nx_fee_sats :: int
  nx_size_bytes :: nat
  nx_flight_id :: "string option"
  nx_chronicle_validated :: "bool option"
  nx_op_return :: "byte list option"

record WriteStore =
  ws_pending :: "PendingWriteRow list"
  ws_nextId :: nat
  ws_results :: "TxResultRow list"

definition newWriteStore :: WriteStore where
  "newWriteStore = \<lparr> ws_pending = [], ws_nextId = 1, ws_results = [] \<rparr>"

subsection \<open>Waiting writes\<close>

definition pendingRow :: "millis \<Rightarrow> nat \<Rightarrow> NewPendingWrite \<Rightarrow> PendingWriteRow" where
  "pendingRow now n write =
     \<lparr> pw_id = n, pw_aircraft_icao = np_aircraft_icao write, pw_record_type = np_record_type write,
       pw_payload = np_payload write, pw_flight_id = np_flight_id write, pw_retry_count = 0, pw_last_error = None,
       pw_created_at = now, pw_preserved = (case np_preserved write of Some b \<Rightarrow> b | None \<Rightarrow> False) \<rparr>"

definition insertPendingWrite :: "millis \<Rightarrow> NewPendingWrite \<Rightarrow> WriteStore \<Rightarrow> WriteStore" where
  "insertPendingWrite now write s =
     s\<lparr>ws_pending := ws_pending s @ [pendingRow now (ws_nextId s) write], ws_nextId := ws_nextId s + 1\<rparr>"

text \<open>The rows that an upsert of telemetry sees, and the last of them.\<close>

definition collapsible :: "string \<Rightarrow> PendingWriteRow \<Rightarrow> bool" where
  "collapsible icao r \<longleftrightarrow> pw_aircraft_icao r = icao \<and> pw_record_type r = TELEMETRY \<and> \<not> pw_preserved r"

definition latestCollapsible :: "string \<Rightarrow> PendingWriteRow list \<Rightarrow> PendingWriteRow option" where
  "latestCollapsible icao rows =
     (case rev (sort_key pw_id (filter (collapsible icao) rows)) of [] \<Rightarrow> None | r # _ \<Rightarrow> Some r)"

datatype UpsertResult = Inserted | Replaced

definition upsertPendingTelemetryWrite :: "millis \<Rightarrow> NewPendingWrite \<Rightarrow> WriteStore \<Rightarrow> UpsertResult \<times> WriteStore" where
  "upsertPendingTelemetryWrite now write s =
     (case latestCollapsible (np_aircraft_icao write) (ws_pending s) of
        None \<Rightarrow> (Inserted, insertPendingWrite now (write\<lparr>np_record_type := TELEMETRY, np_preserved := Some False\<rparr>) s)
      | Some existing \<Rightarrow>
          (Replaced, s\<lparr>ws_pending :=
             filter (\<lambda>r. \<not> (collapsible (np_aircraft_icao write) r \<and> pw_id r \<noteq> pw_id existing))
               (map (\<lambda>r. if pw_id r = pw_id existing
                         then r\<lparr>pw_payload := np_payload write, pw_flight_id := np_flight_id write, pw_created_at := now,
                                pw_retry_count := 0, pw_last_error := None\<rparr>
                         else r) (ws_pending s))\<rparr>))"

definition superseded :: "PendingWriteRow list \<Rightarrow> PendingWriteRow \<Rightarrow> bool" where
  "superseded rows older \<longleftrightarrow>
     pw_record_type older = TELEMETRY \<and> \<not> pw_preserved older
   \<and> list_ex (\<lambda>newer. pw_record_type newer = pw_record_type older \<and> pw_aircraft_icao newer = pw_aircraft_icao older
               \<and> \<not> pw_preserved newer \<and> pw_id newer > pw_id older) rows"

text \<open>A deletion returns the number of rows it deleted.\<close>

definition deletePendingWhere :: "(PendingWriteRow \<Rightarrow> bool) \<Rightarrow> WriteStore \<Rightarrow> nat \<times> WriteStore" where
  "deletePendingWhere P s =
     (length (filter P (ws_pending s)), s\<lparr>ws_pending := filter (\<lambda>r. \<not> P r) (ws_pending s)\<rparr>)"

definition coalescePendingTelemetryWrites :: "WriteStore \<Rightarrow> nat \<times> WriteStore" where
  "coalescePendingTelemetryWrites s = deletePendingWhere (superseded (ws_pending s)) s"

definition prunePreservedWrites :: "millis \<Rightarrow> WriteStore \<Rightarrow> nat \<times> WriteStore" where
  "prunePreservedWrites olderThan = deletePendingWhere (\<lambda>r. pw_preserved r \<and> pw_created_at r < olderThan)"

definition getPreservedWriteCount :: "WriteStore \<Rightarrow> nat" where
  "getPreservedWriteCount s = length (filter pw_preserved (ws_pending s))"

definition getPendingWrites :: "nat \<Rightarrow> WriteStore \<Rightarrow> PendingWriteRow list" where
  "getPendingWrites limit s = take limit (sort_key pw_created_at (filter (\<lambda>r. pw_retry_count r < 10) (ws_pending s)))"

definition getPendingWriteCount :: "WriteStore \<Rightarrow> nat" where
  "getPendingWriteCount s = length (ws_pending s)"

definition updatePending :: "nat \<Rightarrow> (PendingWriteRow \<Rightarrow> PendingWriteRow) \<Rightarrow> WriteStore \<Rightarrow> nat \<times> WriteStore" where
  "updatePending n f s =
     (length (filter (\<lambda>r. pw_id r = n) (ws_pending s)),
      s\<lparr>ws_pending := map (\<lambda>r. if pw_id r = n then f r else r) (ws_pending s)\<rparr>)"

definition markWriteRetried :: "nat \<Rightarrow> string \<Rightarrow> WriteStore \<Rightarrow> nat \<times> WriteStore" where
  "markWriteRetried n err = updatePending n (\<lambda>r. r\<lparr>pw_last_error := Some err, pw_retry_count := pw_retry_count r + 1\<rparr>)"

definition markWriteDeferred :: "nat \<Rightarrow> string \<Rightarrow> WriteStore \<Rightarrow> nat \<times> WriteStore" where
  "markWriteDeferred n err = updatePending n (\<lambda>r. r\<lparr>pw_last_error := Some err\<rparr>)"

definition deletePendingWrite :: "nat \<Rightarrow> WriteStore \<Rightarrow> nat \<times> WriteStore" where
  "deletePendingWrite n = deletePendingWhere (\<lambda>r. pw_id r = n)"

subsection \<open>Results\<close>

definition resultRow :: "NewTxResult \<Rightarrow> TxResultRow" where
  "resultRow x =
     \<lparr> rx_txid = nx_txid x, rx_aircraft_icao = nx_aircraft_icao x, rx_record_type = nx_record_type x,
       rx_status = nx_status x, rx_block_height = nx_block_height x, rx_merkle_path = nx_merkle_path x,
       rx_timestamp = nx_timestamp x, rx_fee_sats = nx_fee_sats x, rx_size_bytes = nx_size_bytes x,
       rx_flight_id = nx_flight_id x,
       rx_chronicle_validated = (case nx_chronicle_validated x of Some b \<Rightarrow> b | None \<Rightarrow> False),
       rx_op_return = nx_op_return x, rx_reject_requeues = 0, rx_reject_status = None, rx_reject_reason = None,
       rx_reject_competing_txs = None \<rparr>"

text \<open>A transaction id that is there already violates the primary key (\<open>None\<close>).\<close>

definition insertTxResult :: "NewTxResult \<Rightarrow> WriteStore \<Rightarrow> WriteStore option" where
  "insertTxResult x s =
     (if nx_txid x \<in> rx_txid ` set (ws_results s) then None else Some (s\<lparr>ws_results := ws_results s @ [resultRow x]\<rparr>))"

definition updateResults ::
  "(TxResultRow \<Rightarrow> bool) \<Rightarrow> (TxResultRow \<Rightarrow> TxResultRow) \<Rightarrow> WriteStore \<Rightarrow> nat \<times> WriteStore" where
  "updateResults P f s =
     (length (filter P (ws_results s)), s\<lparr>ws_results := map (\<lambda>r. if P r then f r else r) (ws_results s)\<rparr>)"

definition updateTxStatus :: "string \<Rightarrow> TxStatus \<Rightarrow> int option \<Rightarrow> string option \<Rightarrow> WriteStore \<Rightarrow> nat \<times> WriteStore" where
  "updateTxStatus t st blockHeight merklePath =
     updateResults (\<lambda>r. rx_txid r = t)
       (\<lambda>r. r\<lparr>rx_status := st,
              rx_block_height := (case blockHeight of Some h \<Rightarrow> Some h | None \<Rightarrow> rx_block_height r),
              rx_merkle_path := (case merklePath of Some p \<Rightarrow> Some p | None \<Rightarrow> rx_merkle_path r)\<rparr>)"

record TxRejectDetail =
  rd_status :: string
  rd_reason :: "string option"
  rd_competingTxs :: "string list option"

text \<open>The three bytes of the character that marks a cut-off reason.\<close>

definition ellipsis :: string where "ellipsis = map char_of [226, 128, 166 :: nat]"

definition normaliseRejectReason :: "string option \<Rightarrow> string option" where
  "normaliseRejectReason reason =
     (case reason of None \<Rightarrow> None
      | Some txt \<Rightarrow>
          (let trimmed = js_trim txt in
           if trimmed = [] then None
           else Some (if length trimmed > 2000 then take 2000 trimmed @ ellipsis else trimmed)))"

definition normaliseCompetingTxs :: "string list option \<Rightarrow> string list option" where
  "normaliseCompetingTxs competing =
     (case competing of None \<Rightarrow> None
      | Some ts \<Rightarrow>
          if ts = [] then None
          else Some (take 20 (filter (\<lambda>t. t \<noteq> []) (map (\<lambda>t. js_lower (js_trim t)) ts))))"

definition markTxRejected :: "string \<Rightarrow> TxRejectDetail \<Rightarrow> WriteStore \<Rightarrow> nat \<times> WriteStore" where
  "markTxRejected t detail =
     (let rejectStatus = take 40 (js_upper (js_trim (rd_status detail))) in
      updateResults (\<lambda>r. rx_txid r = t \<and> rx_status r \<noteq> TxStatus.MINED)
        (\<lambda>r. r\<lparr>rx_status := TxStatus.FAILED,
               rx_reject_status := (if rejectStatus = [] then None else Some rejectStatus),
               rx_reject_reason := normaliseRejectReason (rd_reason detail),
               rx_reject_competing_txs := normaliseCompetingTxs (rd_competingTxs detail)\<rparr>))"

record RejectRequeueClaim =
  rc_txid :: string
  rc_aircraft_icao :: string
  rc_record_type :: RecordType
  rc_flight_id :: "string option"
  rc_op_return :: "byte list"
  rc_reject_requeues :: nat
  rc_reject_status :: "string option"
  rc_reject_reason :: "string option"
  rc_reject_competing_txs :: "string list option"

text \<open>The column comes back as the array that was stored.\<close>

definition parseCompetingTxs :: "string list option \<Rightarrow> string list option" where
  "parseCompetingTxs stored = (case stored of None \<Rightarrow> None | Some ts \<Rightarrow> normaliseCompetingTxs (Some ts))"

definition claimRejectRequeue :: "string \<Rightarrow> int \<Rightarrow> WriteStore \<Rightarrow> RejectRequeueClaim option \<times> WriteStore" where
  "claimRejectRequeue t maxRequeues s =
     (let safeMax = max 1 maxRequeues in
      case List.find (\<lambda>r. rx_txid r = t \<and> rx_status r \<noteq> TxStatus.MINED \<and> rx_op_return r \<noteq> None) (ws_results s) of
        None \<Rightarrow> (None, s)
      | Some row \<Rightarrow>
          if int (rx_reject_requeues row) \<ge> safeMax then (None, s)
          else let n = rx_reject_requeues row + 1 in
               (Some \<lparr> rc_txid = rx_txid row, rc_aircraft_icao = rx_aircraft_icao row,
                       rc_record_type = rx_record_type row, rc_flight_id = rx_flight_id row,
                       rc_op_return = the (rx_op_return row), rc_reject_requeues = n,
                       rc_reject_status = rx_reject_status row, rc_reject_reason = rx_reject_reason row,
                       rc_reject_competing_txs = parseCompetingTxs (rx_reject_competing_txs row) \<rparr>,
                snd (updateResults (\<lambda>r. rx_txid r = t) (\<lambda>r. r\<lparr>rx_reject_requeues := n\<rparr>) s)))"

definition getTxResults :: "string \<Rightarrow> nat \<Rightarrow> nat \<Rightarrow> WriteStore \<Rightarrow> TxResultRow list" where
  "getTxResults icao limit offset s =
     take limit (drop offset (sort_key (\<lambda>r. - rx_timestamp r) (filter (\<lambda>r. rx_aircraft_icao r = icao) (ws_results s))))"


subsection \<open>Operations of the store\<close>

datatype store_step =
  Insert_pending millis NewPendingWrite
| Upsert_telemetry millis NewPendingWrite
| Coalesce
| Prune millis
| Mark_retried nat string
| Mark_deferred nat string
| Delete_pending nat
| Insert_result NewTxResult
| Update_status string TxStatus "int option" "string option"
| Mark_rejected string TxRejectDetail
| Claim_requeue string int

fun storeStep :: "store_step \<Rightarrow> WriteStore \<Rightarrow> WriteStore" where
  "storeStep (Insert_pending now write) s = insertPendingWrite now write s"
| "storeStep (Upsert_telemetry now write) s = snd (upsertPendingTelemetryWrite now write s)"
| "storeStep Coalesce s = snd (coalescePendingTelemetryWrites s)"
| "storeStep (Prune olderThan) s = snd (prunePreservedWrites olderThan s)"
| "storeStep (Mark_retried n err) s = snd (markWriteRetried n err s)"
| "storeStep (Mark_deferred n err) s = snd (markWriteDeferred n err s)"
| "storeStep (Delete_pending n) s = snd (deletePendingWrite n s)"
| "storeStep (Insert_result x) s = (case insertTxResult x s of None \<Rightarrow> s | Some s' \<Rightarrow> s')"
| "storeStep (Update_status t st h p) s = snd (updateTxStatus t st h p s)"
| "storeStep (Mark_rejected t d) s = snd (markTxRejected t d s)"
| "storeStep (Claim_requeue t n) s = snd (claimRejectRequeue t n s)"

definition writes_inv :: "WriteStore \<Rightarrow> bool" where
  "writes_inv s \<longleftrightarrow>
     distinct (map pw_id (ws_pending s)) \<and> (\<forall>r\<in>set (ws_pending s). pw_id r < ws_nextId s)
   \<and> distinct (map rx_txid (ws_results s))"

lemma latest_in: "latestCollapsible icao rows = Some r \<Longrightarrow> r \<in> set rows \<and> collapsible icao r"
proof -
  assume "latestCollapsible icao rows = Some r"
  then obtain ys where "rev (sort_key pw_id (filter (collapsible icao) rows)) = r # ys"
    by (auto simp: latestCollapsible_def split: list.splits)
  then have "r \<in> set (rev (sort_key pw_id (filter (collapsible icao) rows)))" by simp
  then show ?thesis by simp
qed

lemma latest_none: "latestCollapsible icao rows = None \<longleftrightarrow> (\<forall>r\<in>set rows. \<not> collapsible icao r)"
proof -
  have "latestCollapsible icao rows = None \<longleftrightarrow> rev (sort_key pw_id (filter (collapsible icao) rows)) = []"
    by (simp add: latestCollapsible_def split: list.split)
  also have "\<dots> \<longleftrightarrow> filter (collapsible icao) rows = []" by (metis length_0_conv length_rev length_sort)
  finally have "latestCollapsible icao rows = None \<longleftrightarrow> filter (collapsible icao) rows = []" .
  then show ?thesis by (simp add: filter_empty_conv)
qed

definition touchesPending :: "store_step \<Rightarrow> bool" where
  "touchesPending e \<longleftrightarrow> (case e of Insert_result _ \<Rightarrow> False | Update_status _ _ _ _ \<Rightarrow> False | Mark_rejected _ _ \<Rightarrow> False
     | Claim_requeue _ _ \<Rightarrow> False | _ \<Rightarrow> True)"

lemmas pending_ops = insertPendingWrite_def upsertPendingTelemetryWrite_def coalescePendingTelemetryWrites_def
  prunePreservedWrites_def markWriteRetried_def markWriteDeferred_def deletePendingWrite_def deletePendingWhere_def
  updatePending_def

lemmas result_ops = insertTxResult_def updateTxStatus_def markTxRejected_def claimRejectRequeue_def updateResults_def Let_def

lemma results_leave_pending:
  "\<not> touchesPending e \<Longrightarrow> ws_pending (storeStep e s) = ws_pending s \<and> ws_nextId (storeStep e s) = ws_nextId s"
  by (cases e) (auto simp: touchesPending_def result_ops split: option.split)

lemma pending_leaves_results: "touchesPending e \<Longrightarrow> ws_results (storeStep e s) = ws_results s"
  by (cases e) (auto simp: touchesPending_def pending_ops split: option.split)

lemma map_update_keys: "(\<And>r. k (f r) = k r) \<Longrightarrow> map k (map (\<lambda>r. if P r then f r else r) rows) = map k rows"
  by (induction rows) auto

lemma distinct_map_filter_keys: "distinct (map k rows) \<Longrightarrow> distinct (map k (filter P rows))"
  by (induction rows) auto

lemma storeStep_inv:
  assumes "writes_inv s"
  shows "writes_inv (storeStep e s)"
proof (cases "touchesPending e")
  case True
  have d: "distinct (map pw_id (ws_pending s))" and l: "\<And>r. r \<in> set (ws_pending s) \<Longrightarrow> pw_id r < ws_nextId s"
    and t: "distinct (map rx_txid (ws_results s))"
    using assms by (auto simp: writes_inv_def)
  have ins: "writes_inv (insertPendingWrite now x s)" for now x
    using d t by (auto simp: writes_inv_def insertPendingWrite_def pendingRow_def less_Suc_eq dest: l)
  have upd: "writes_inv (snd (updatePending n f s))" if "\<And>r. pw_id (f r) = pw_id r" for n f
    using d t l that by (auto simp: writes_inv_def updatePending_def map_update_keys [of pw_id f] simp del: map_map)
  have del: "writes_inv (snd (deletePendingWhere P s))" for P
    using d t l by (auto simp: writes_inv_def deletePendingWhere_def distinct_map_filter_keys)
  have ups: "writes_inv (snd (upsertPendingTelemetryWrite now x s))" for now x
  proof (cases "latestCollapsible (np_aircraft_icao x) (ws_pending s)")
    case None
    then show ?thesis by (simp add: upsertPendingTelemetryWrite_def ins)
  next
    case (Some r)
    then show ?thesis using d t l
      by (auto simp: upsertPendingTelemetryWrite_def writes_inv_def intro!: distinct_map_filter_keys
          simp: map_update_keys [of pw_id] simp del: map_map) (metis l)+
  qed
  show ?thesis using True ins upd del ups
    by (cases e) (auto simp: touchesPending_def coalescePendingTelemetryWrites_def prunePreservedWrites_def
        markWriteRetried_def markWriteDeferred_def deletePendingWrite_def)
next
  case False
  have "distinct (map rx_txid (ws_results (storeStep e s)))"
    using assms False
    by (cases e) (auto simp: writes_inv_def touchesPending_def result_ops resultRow_def map_update_keys
        simp del: map_map split: option.split)
  then show ?thesis using assms results_leave_pending [OF False, of s] by (simp add: writes_inv_def)
qed

lemma store_reachable: "writes_inv s \<Longrightarrow> writes_inv (fold storeStep es s)"
  by (induction es arbitrary: s) (simp_all add: storeStep_inv)

lemma newWriteStore_inv: "writes_inv newWriteStore"
  by (simp add: writes_inv_def newWriteStore_def)


subsection \<open>What may drop a waiting write\<close>

text \<open>The write itself: all but the marks of its attempts.\<close>

definition sameWrite :: "PendingWriteRow \<Rightarrow> PendingWriteRow \<Rightarrow> bool" where
  "sameWrite r r' \<longleftrightarrow>
     pw_id r' = pw_id r \<and> pw_aircraft_icao r' = pw_aircraft_icao r \<and> pw_record_type r' = pw_record_type r
   \<and> pw_payload r' = pw_payload r \<and> pw_flight_id r' = pw_flight_id r \<and> pw_created_at r' = pw_created_at r
   \<and> pw_preserved r' = pw_preserved r \<and> pw_retry_count r \<le> pw_retry_count r'"

fun mayDrop :: "PendingWriteRow \<Rightarrow> store_step \<Rightarrow> bool" where
  "mayDrop r (Delete_pending n) \<longleftrightarrow> n = pw_id r"
| "mayDrop r (Prune olderThan) \<longleftrightarrow> pw_preserved r \<and> pw_created_at r < olderThan"
| "mayDrop r (Upsert_telemetry now x) \<longleftrightarrow> collapsible (np_aircraft_icao x) r"
| "mayDrop r Coalesce \<longleftrightarrow> pw_record_type r = TELEMETRY \<and> \<not> pw_preserved r"
| "mayDrop r e \<longleftrightarrow> False"

lemma sameWrite_refl [simp]: "sameWrite r r"
  by (simp add: sameWrite_def)

lemma sameWrite_trans: "sameWrite r r' \<Longrightarrow> sameWrite r' r'' \<Longrightarrow> sameWrite r r''"
  by (auto simp: sameWrite_def)

lemma mayDrop_same: "sameWrite r r' \<Longrightarrow> mayDrop r' e = mayDrop r e"
  by (cases e) (auto simp: sameWrite_def collapsible_def)

lemma kept_by_update:
  assumes "r \<in> set (ws_pending s)" "\<And>r. sameWrite r (f r)"
  shows "\<exists>r'\<in>set (ws_pending (snd (updatePending n f s))). sameWrite r r'"
  using assms by (intro bexI [of _ "if pw_id r = n then f r else r"]) (auto simp: updatePending_def)

lemma storeStep_keeps:
  assumes inv: "writes_inv s" and r: "r \<in> set (ws_pending s)" and n: "\<not> mayDrop r e"
  shows "\<exists>r'\<in>set (ws_pending (storeStep e s)). sameWrite r r'"
proof (cases e)
  case (Upsert_telemetry now x)
  show ?thesis
  proof (cases "latestCollapsible (np_aircraft_icao x) (ws_pending s)")
    case None
    then show ?thesis using r Upsert_telemetry
      by (auto simp: upsertPendingTelemetryWrite_def insertPendingWrite_def intro!: bexI [of _ r])
  next
    case (Some e')
    then have "e' \<in> set (ws_pending s)" "collapsible (np_aircraft_icao x) e'" using latest_in by blast+
    then have "pw_id r \<noteq> pw_id e'"
      using inv r n Upsert_telemetry by (auto simp: writes_inv_def distinct_map dest: inj_onD)
    then show ?thesis using r n Upsert_telemetry Some
      by (auto simp: upsertPendingTelemetryWrite_def intro!: bexI [of _ r] image_eqI [of _ _ r])
  qed
next
  case (Mark_retried m err)
  show ?thesis
    unfolding Mark_retried storeStep.simps markWriteRetried_def by (rule kept_by_update [OF r]) (simp add: sameWrite_def)
next
  case (Mark_deferred m err)
  show ?thesis
    unfolding Mark_deferred storeStep.simps markWriteDeferred_def by (rule kept_by_update [OF r]) (simp add: sameWrite_def)
next
  case Coalesce
  then show ?thesis using r n
    by (auto simp: coalescePendingTelemetryWrites_def deletePendingWhere_def superseded_def intro!: bexI [of _ r])
qed (use r n in \<open>auto simp: pending_ops result_ops split: option.split intro!: bexI [of _ r]\<close>)


definition exampleSample :: "bool \<Rightarrow> NewPendingWrite" where
  "exampleSample held =
     \<lparr> np_aircraft_icao = ''A1'', np_record_type = TELEMETRY, np_payload = [7], np_flight_id = None, np_preserved = Some held \<rparr>"


subsection \<open>Deferred telemetry\<close>

lemma latest_max:
  assumes "latestCollapsible icao rows = Some r" "r' \<in> set rows" "collapsible icao r'"
  shows "pw_id r' \<le> pw_id r"
proof -
  let ?xs = "sort_key pw_id (filter (collapsible icao) rows)"
  obtain ys where "rev ?xs = r # ys" using assms(1) by (auto simp: latestCollapsible_def split: list.splits)
  then have xs: "?xs = rev ys @ [r]" by (metis rev.simps(2) rev_rev_ident)
  have "sorted (map pw_id (rev ys @ [r]))" unfolding xs [symmetric] by simp
  moreover have "r' \<in> set (rev ys @ [r])" unfolding xs [symmetric] using assms(2,3) by simp
  ultimately show ?thesis by (auto simp: sorted_append)
qed

lemma filter_single:
  assumes "distinct xs" "r \<in> set xs" "\<And>x. x \<in> set xs \<Longrightarrow> P x \<longleftrightarrow> x = r"
  shows "filter P xs = [r]"
proof -
  have "filter P xs = filter (\<lambda>x. x = r) xs" using assms(3) by (rule filter_cong [OF refl])
  also have "\<dots> = [r]" using assms(1,2) by (induction xs) (auto simp: filter_empty_conv)
  finally show ?thesis .
qed

lemma coalesced_single:
  assumes "writes_inv s"
  shows "filter (collapsible icao) (ws_pending (snd (coalescePendingTelemetryWrites s)))
    = (case latestCollapsible icao (ws_pending s) of None \<Rightarrow> [] | Some r \<Rightarrow> [r])"
proof -
  let ?rows = "ws_pending s"
  have eq: "filter (collapsible icao) (ws_pending (snd (coalescePendingTelemetryWrites s)))
      = filter (\<lambda>r. collapsible icao r \<and> \<not> superseded ?rows r) ?rows"
    by (simp add: coalescePendingTelemetryWrites_def deletePendingWhere_def conj_commute)
  show ?thesis
  proof (cases "latestCollapsible icao ?rows")
    case None
    then have "\<forall>r\<in>set ?rows. \<not> collapsible icao r" by (simp only: latest_none)
    then show ?thesis using eq None by simp
  next
    case (Some r)
    have r: "r \<in> set ?rows" "collapsible icao r" using latest_in [OF Some] by auto
    have d: "distinct ?rows" "inj_on pw_id (set ?rows)" using assms by (auto simp: writes_inv_def distinct_map)
    have "filter (\<lambda>r. collapsible icao r \<and> \<not> superseded ?rows r) ?rows = [r]"
    proof (rule filter_single [OF d(1) r(1)])
      fix x assume x: "x \<in> set ?rows"
      show "collapsible icao x \<and> \<not> superseded ?rows x \<longleftrightarrow> x = r"
      proof
        assume c: "collapsible icao x \<and> \<not> superseded ?rows x"
        have "\<not> pw_id r > pw_id x"
          using c r by (auto simp: superseded_def collapsible_def list_ex_iff)
        then have "pw_id x = pw_id r" using latest_max [OF Some x] c by force
        then show "x = r" using d(2) x r(1) by (auto dest: inj_onD)
      next
        assume "x = r"
        then show "collapsible icao x \<and> \<not> superseded ?rows x"
          using r latest_max [OF Some] by (fastforce simp: superseded_def list_ex_iff collapsible_def)
      qed
    qed
    then show ?thesis using eq Some by simp
  qed
qed

lemma collapsible_update:
  "collapsible icao (r\<lparr>pw_payload := p, pw_flight_id := f, pw_created_at := c, pw_retry_count := n, pw_last_error := e\<rparr>)
    = collapsible icao r"
  by (simp add: collapsible_def)

lemma upsert_single:
  fixes x :: NewPendingWrite and now :: millis
  assumes "writes_inv s"
  defines "icao \<equiv> np_aircraft_icao x" and "s' \<equiv> snd (upsertPendingTelemetryWrite now x s)"
  shows "\<exists>r. filter (collapsible icao) (ws_pending s') = [r] \<and> pw_payload r = np_payload x
      \<and> pw_flight_id r = np_flight_id x \<and> pw_created_at r = now \<and> pw_retry_count r = 0 \<and> pw_last_error r = None"
    and "filter (\<lambda>r. \<not> collapsible icao r) (ws_pending s') = filter (\<lambda>r. \<not> collapsible icao r) (ws_pending s)"
proof -
  let ?rows = "ws_pending s"
  have "(\<exists>r. filter (collapsible icao) (ws_pending s') = [r] \<and> pw_payload r = np_payload x
      \<and> pw_flight_id r = np_flight_id x \<and> pw_created_at r = now \<and> pw_retry_count r = 0 \<and> pw_last_error r = None)
    \<and> filter (\<lambda>r. \<not> collapsible icao r) (ws_pending s') = filter (\<lambda>r. \<not> collapsible icao r) ?rows"
  proof (cases "latestCollapsible icao ?rows")
    case None
    let ?r = "pendingRow now (ws_nextId s) (x\<lparr>np_record_type := TELEMETRY, np_preserved := Some False\<rparr>)"
    have s': "ws_pending s' = ?rows @ [?r]"
      using None by (simp add: s'_def icao_def upsertPendingTelemetryWrite_def insertPendingWrite_def)
    have "collapsible icao ?r" by (simp add: collapsible_def pendingRow_def icao_def)
    moreover have "filter (collapsible icao) ?rows = []" using None by (simp add: latest_none filter_empty_conv)
    ultimately show ?thesis by (simp add: s' pendingRow_def)
  next
    case (Some e)
    let ?f = "\<lambda>r. r\<lparr>pw_payload := np_payload x, pw_flight_id := np_flight_id x, pw_created_at := now,
                    pw_retry_count := 0, pw_last_error := None\<rparr>"
    let ?g = "\<lambda>r. if pw_id r = pw_id e then ?f r else r"
    have e: "e \<in> set ?rows" "collapsible icao e" using latest_in [OF Some] by auto
    have d: "distinct ?rows" "inj_on pw_id (set ?rows)" using assms(1) by (auto simp: writes_inv_def distinct_map)
    have g: "collapsible icao (?g r) = collapsible icao r" "pw_id (?g r) = pw_id r" for r
      by (simp_all add: collapsible_update)
    have s': "ws_pending s' = filter (\<lambda>r. \<not> (collapsible icao r \<and> pw_id r \<noteq> pw_id e)) (map ?g ?rows)"
      using Some by (simp add: s'_def icao_def upsertPendingTelemetryWrite_def)
    have "filter (collapsible icao) (ws_pending s') = map ?g (filter (\<lambda>r. collapsible icao r \<and> pw_id r = pw_id e) ?rows)"
      unfolding s' filter_filter filter_map comp_def g by (intro arg_cong [of _ _ "map ?g"] filter_cong) auto
    also have "filter (\<lambda>r. collapsible icao r \<and> pw_id r = pw_id e) ?rows = [e]"
      using e d(2) by (intro filter_single [OF d(1) e(1)]) (auto dest: inj_onD)
    finally have 1: "filter (collapsible icao) (ws_pending s') = [?f e]" by simp
    have "filter (\<lambda>r. \<not> collapsible icao r) (ws_pending s') = map ?g (filter (\<lambda>r. \<not> collapsible icao r) ?rows)"
      unfolding s' filter_filter filter_map comp_def g by (intro arg_cong [of _ _ "map ?g"] filter_cong) auto
    also have "\<dots> = map (\<lambda>r. r) (filter (\<lambda>r. \<not> collapsible icao r) ?rows)"
      using e d(2) by (intro map_cong) (auto dest: inj_onD)
    finally show ?thesis using 1 by simp
  qed
  then show "\<exists>r. filter (collapsible icao) (ws_pending s') = [r] \<and> pw_payload r = np_payload x
      \<and> pw_flight_id r = np_flight_id x \<and> pw_created_at r = now \<and> pw_retry_count r = 0 \<and> pw_last_error r = None"
    and "filter (\<lambda>r. \<not> collapsible icao r) (ws_pending s') = filter (\<lambda>r. \<not> collapsible icao r) (ws_pending s)"
    by blast+
qed

text \<open>
  Deferring a telemetry sample leaves exactly one waiting sample of the aircraft outside the preserved backlog,
  the new one, as if it had never been tried; the preserved backlog, flight events and the writes of other
  aircraft are the same rows as before. Coalescing leaves of each aircraft the newest such sample, if it has one.
\<close>

lemma deferral_keeps_newest:
  fixes x :: NewPendingWrite
  assumes "writes_inv s"
  shows "(\<exists>r. filter (collapsible (np_aircraft_icao x)) (ws_pending (snd (upsertPendingTelemetryWrite now x s))) = [r]
      \<and> pw_payload r = np_payload x \<and> pw_flight_id r = np_flight_id x \<and> pw_created_at r = now
      \<and> pw_retry_count r = 0 \<and> pw_last_error r = None)
    \<and> filter (\<lambda>r. \<not> collapsible (np_aircraft_icao x) r) (ws_pending (snd (upsertPendingTelemetryWrite now x s)))
      = filter (\<lambda>r. \<not> collapsible (np_aircraft_icao x) r) (ws_pending s)
    \<and> filter (collapsible icao) (ws_pending (snd (coalescePendingTelemetryWrites s)))
      = (case latestCollapsible icao (ws_pending s) of None \<Rightarrow> [] | Some r \<Rightarrow> [r])"
  using upsert_single [OF assms] coalesced_single [OF assms] by blast

lemma deferral_keeps_newest_witness:
  "\<exists>r. filter (collapsible ''A1'') (ws_pending (snd (upsertPendingTelemetryWrite 20 (exampleSample False)
      (insertPendingWrite 10 (exampleSample True) newWriteStore)))) = [r] \<and> pw_payload r = [7] \<and> pw_created_at r = 20"
proof -
  have "writes_inv (insertPendingWrite 10 (exampleSample True) newWriteStore)"
    using storeStep_inv [OF newWriteStore_inv, of "Insert_pending 10 (exampleSample True)"] by simp
  from deferral_keeps_newest [OF this, of "exampleSample False" 20] show ?thesis
    by (auto simp: exampleSample_def)
qed

subsection \<open>Sending a rejected write again\<close>

text \<open>The successful claims for \<open>t\<close> in a run.\<close>

fun claimsOf :: "string \<Rightarrow> store_step list \<Rightarrow> WriteStore \<Rightarrow> nat" where
  "claimsOf t [] s = 0"
| "claimsOf t (e # es) s =
     (case e of Claim_requeue u n \<Rightarrow> if u = t \<and> fst (claimRejectRequeue u n s) \<noteq> None then 1 else 0 | _ \<Rightarrow> 0)
     + claimsOf t es (storeStep e s)"

definition requeuesOf :: "string \<Rightarrow> WriteStore \<Rightarrow> nat" where
  "requeuesOf t s = sum_list (map rx_reject_requeues (filter (\<lambda>r. rx_txid r = t) (ws_results s)))"

definition claimWithin :: "string \<Rightarrow> int \<Rightarrow> store_step \<Rightarrow> bool" where
  "claimWithin t n e \<longleftrightarrow> (case e of Claim_requeue u k \<Rightarrow> u = t \<longrightarrow> k \<le> n | _ \<Rightarrow> True)"

lemma single_result:
  assumes "writes_inv s" "r \<in> set (ws_results s)"
  shows "filter (\<lambda>x. rx_txid x = rx_txid r) (ws_results s) = [r]"
  using assms by (intro filter_single) (auto simp: writes_inv_def distinct_map dest: inj_onD)

lemma requeues_update:
  assumes "\<And>r. rx_txid (f r) = rx_txid r" "\<And>r. rx_reject_requeues (f r) = rx_reject_requeues r"
  shows "requeuesOf t (snd (updateResults P f s)) = requeuesOf t s"
proof -
  have "map rx_reject_requeues (filter (\<lambda>r. rx_txid r = t) (map (\<lambda>r. if P r then f r else r) rows))
      = map rx_reject_requeues (filter (\<lambda>r. rx_txid r = t) rows)" for rows
    using assms by (induction rows) auto
  then show ?thesis by (simp add: requeuesOf_def updateResults_def)
qed

lemma claim_cases:
  "(fst (claimRejectRequeue t n s) = None \<and> snd (claimRejectRequeue t n s) = s)
 \<or> (\<exists>row\<in>set (ws_results s). rx_txid row = t \<and> int (rx_reject_requeues row) < max 1 n
      \<and> fst (claimRejectRequeue t n s) \<noteq> None
      \<and> snd (claimRejectRequeue t n s)
        = snd (updateResults (\<lambda>r. rx_txid r = t) (\<lambda>r. r\<lparr>rx_reject_requeues := rx_reject_requeues row + 1\<rparr>) s))"
proof (cases "List.find (\<lambda>r. rx_txid r = t \<and> rx_status r \<noteq> TxStatus.MINED \<and> rx_op_return r \<noteq> None) (ws_results s)")
  case None
  then show ?thesis unfolding claimRejectRequeue_def by simp
next
  case (Some row)
  then have row: "row \<in> set (ws_results s)" "rx_txid row = t" by (auto simp: find_Some_iff in_set_conv_nth)
  show ?thesis
  proof (cases "int (rx_reject_requeues row) \<ge> max 1 n")
    case True
    then show ?thesis unfolding claimRejectRequeue_def using Some by (simp add: Let_def)
  next
    case False
    have "fst (claimRejectRequeue t n s) \<noteq> None"
      and "snd (claimRejectRequeue t n s)
        = snd (updateResults (\<lambda>r. rx_txid r = t) (\<lambda>r. r\<lparr>rx_reject_requeues := rx_reject_requeues row + 1\<rparr>) s)"
      unfolding claimRejectRequeue_def using Some False by (auto simp: Let_def)
    then show ?thesis using row False by (intro disjI2 bexI [of _ row]) auto
  qed
qed

text \<open>A claim that succeeds raises the count of its transaction by one, below the limit; nothing else changes a count.\<close>

lemma claim_counts:
  assumes inv: "writes_inv s"
  shows "requeuesOf t (storeStep e s) = requeuesOf t s
     + (case e of Claim_requeue u n \<Rightarrow> if u = t \<and> fst (claimRejectRequeue u n s) \<noteq> None then 1 else 0 | _ \<Rightarrow> 0)"
proof (cases e)
  case (Claim_requeue u n)
  show ?thesis
  proof (cases "fst (claimRejectRequeue u n s)")
    case None
    then show ?thesis using claim_cases [of u n s] Claim_requeue by auto
  next
    case (Some c)
    then obtain row where row: "row \<in> set (ws_results s)" "rx_txid row = u"
      and eq: "snd (claimRejectRequeue u n s)
        = snd (updateResults (\<lambda>r. rx_txid r = u) (\<lambda>r. r\<lparr>rx_reject_requeues := rx_reject_requeues row + 1\<rparr>) s)"
      using claim_cases [of u n s] by auto
    have single: "filter (\<lambda>x. rx_txid x = u) (ws_results s) = [row]" using single_result [OF inv row(1)] row(2) by simp
    have f: "filter (\<lambda>r. rx_txid r = t) (map (\<lambda>r. if rx_txid r = u then r\<lparr>rx_reject_requeues := k\<rparr> else r) rows)
        = map (\<lambda>r. if rx_txid r = u then r\<lparr>rx_reject_requeues := k\<rparr> else r) (filter (\<lambda>r. rx_txid r = t) rows)" for k rows
      by (induction rows) auto
    have same: "map (\<lambda>r. if rx_txid r = u then r\<lparr>rx_reject_requeues := k\<rparr> else r) (filter (\<lambda>r. rx_txid r = t) rows)
        = filter (\<lambda>r. rx_txid r = t) rows" if "u \<noteq> t" for k rows
      using that by (induction rows) auto
    show ?thesis
    proof (cases "u = t")
      case True
      show ?thesis using Claim_requeue Some single eq row(2)
        unfolding True by (simp add: requeuesOf_def updateResults_def f [unfolded True])
    next
      case False
      then show ?thesis using Claim_requeue Some by (simp add: eq requeuesOf_def updateResults_def f same)
    qed
  qed
next
  case (Insert_result x)
  then show ?thesis by (auto simp: insertTxResult_def requeuesOf_def resultRow_def split: option.split)
next
  case (Update_status u st h p)
  then show ?thesis by (simp add: updateTxStatus_def requeues_update)
next
  case (Mark_rejected u d)
  then show ?thesis by (simp add: markTxRejected_def Let_def requeues_update)
qed (auto simp: requeuesOf_def pending_ops split: option.split)

lemma claim_below:
  assumes "writes_inv s" "fst (claimRejectRequeue t n s) \<noteq> None"
  shows "int (requeuesOf t s) < max 1 n"
proof -
  obtain row where row: "row \<in> set (ws_results s)" "rx_txid row = t" "int (rx_reject_requeues row) < max 1 n"
    using assms(2) claim_cases [of t n s] by auto
  have "requeuesOf t s = rx_reject_requeues row"
    using single_result [OF assms(1) row(1)] row(2) by (simp add: requeuesOf_def)
  then show ?thesis using row(3) by simp
qed

lemma claims_bounded:
  assumes "writes_inv s" "list_all (claimWithin t n) es" "int (requeuesOf t s) \<le> max 1 n"
  shows "int (claimsOf t es s) + int (requeuesOf t s) \<le> max 1 n"
  using assms
proof (induction es arbitrary: s)
  case (Cons e es)
  let ?c = "(case e of Claim_requeue u k \<Rightarrow> if u = t \<and> fst (claimRejectRequeue u k s) \<noteq> None then 1 else 0 | _ \<Rightarrow> 0) :: nat"
  have step: "requeuesOf t (storeStep e s) = requeuesOf t s + ?c" by (rule claim_counts [OF Cons.prems(1)])
  have "int (requeuesOf t s) + int ?c \<le> max 1 n"
    using claim_below [OF Cons.prems(1), of t] Cons.prems(2,3)
    by (cases e) (fastforce simp: claimWithin_def)+
  then have "int (claimsOf t es (storeStep e s)) + int (requeuesOf t (storeStep e s)) \<le> max 1 n"
    using Cons.IH [OF storeStep_inv [OF Cons.prems(1)], of e] Cons.prems(2) step by simp
  then show ?case using step by simp
qed simp

text \<open>
  C33: a transaction that the network rejected is sent again at most as often as allowed. Whatever else is done to the
  store in between, of all claims made for it with a limit of at most \<open>n\<close> no more than \<open>max 1 n\<close> succeed.
\<close>

theorem requeue_claims_bounded:
  assumes "list_all (claimWithin t n) es"
  shows "int (claimsOf t es newWriteStore) \<le> max 1 n"
  using claims_bounded [OF newWriteStore_inv assms] by (simp add: requeuesOf_def newWriteStore_def)

definition exampleResult :: NewTxResult where
  "exampleResult =
     \<lparr> nx_txid = ''t1'', nx_aircraft_icao = ''A1'', nx_record_type = FLIGHT_EVENT, nx_status = TxStatus.SEEN_ON_NETWORK,
       nx_block_height = None, nx_merkle_path = None, nx_timestamp = 5, nx_fee_sats = 26, nx_size_bytes = 240,
       nx_flight_id = None, nx_chronicle_validated = None, nx_op_return = Some [1] \<rparr>"

theorem requeue_claims_bounded_witness:
  "claimsOf ''t1'' [Insert_result exampleResult, Claim_requeue ''t1'' 2, Claim_requeue ''t1'' 2, Claim_requeue ''t1'' 2]
     newWriteStore = 2
   \<and> int (claimsOf ''t1'' [Insert_result exampleResult, Claim_requeue ''t1'' 2, Claim_requeue ''t1'' 2, Claim_requeue ''t1'' 2]
     newWriteStore) \<le> max 1 2"
proof (rule conjI)
  show "claimsOf ''t1'' [Insert_result exampleResult, Claim_requeue ''t1'' 2, Claim_requeue ''t1'' 2, Claim_requeue ''t1'' 2]
     newWriteStore = 2" by code_simp
qed (rule requeue_claims_bounded, simp add: claimWithin_def)

end
