(* ===== verification/Writer_Calls.thy ===== *)
theory Writer_Calls
  imports Write_Store Auto_Refill
begin

text \<open>
  What the write paths of the writer share (\<open>services/blockchain-writer/src/write-buffer.ts\<close>, \<open>index.ts\<close>): the world of
  a write, the calls it makes and the text of their exceptions. \<open>WriterWorld\<close> adds to the world of a refill the store
  of the writes, the spend governor, the state of the write buffer and what was published.

  The state of the broadcaster that is read (\<open>ww_upstream\<close>, \<open>ww_degraded\<close>), the callbacks of the funding state and
  \<open>Math.random()\<close> are part of the world: the other tasks change them. \<open>ww_error\<close> is the text of the exception of
  a call that fails; the others may change it at any time, so every call can fail with any text. The
  identifier and the size of a transaction are computed by the SDK and arguments.
\<close>

subsection \<open>The world of a write\<close>

record WriterConfig =
  wc_refill :: RefillConfig
  wc_spendCooldownMs :: millis
  wc_hasSeenOnNetworkGate :: bool
  wc_computeTxid :: "Transaction \<Rightarrow> string"
  wc_txBytes :: "Transaction \<Rightarrow> nat"
  wc_maxConcurrentBroadcasts :: nat
  wc_maxQueueDepth :: nat

record WriteBuffer =
  wb_retrying :: bool
  wb_drainBatchSize :: "nat option"

record WriterWorld = RefillWorld +
  ww_store :: WriteStore
  ww_governor :: SpendGovernor
  ww_published :: "NewTxResult list"
  ww_buffer :: WriteBuffer
  ww_upstream :: ArcBroadcasterState
  ww_degraded :: bool
  ww_fundingDry :: bool
  ww_prunePaused :: bool
  ww_random :: real
  ww_error :: string

subsection \<open>Failures\<close>

text \<open>An exception of the pool keeps its class; of every other one only the text matters.\<close>

datatype failure = NoOutput acquire_error | Message string

definition emDash :: string where "emDash = map char_of [226, 128, 148 :: nat]"

definition decOfInt :: "int \<Rightarrow> string" where
  "decOfInt n = (if n < 0 then ''-'' @ natToDec (nat (- n)) else natToDec (nat n))"

definition acquireMessage :: "string \<Rightarrow> acquire_error \<Rightarrow> string" where
  "acquireMessage icao e =
     (let key = js_upper icao in
      case e of
        CoolingDown \<Rightarrow> ''UTXO spend cooling down for aircraft '' @ key
      | ChainDepthExhausted deep maxDepth \<Rightarrow>
          ''Unconfirmed chain depth ceiling reached for aircraft '' @ key @ '' ('' @ natToDec deep
            @ '' output(s) at or beyond depth '' @ decOfInt maxDepth @ '')''
      | StalePool residual \<Rightarrow>
          ''No spendable UTXOs for aircraft '' @ key @ '' despite '' @ natToDec residual @ '' pool row(s) '' @ emDash
            @ '' pool is stale''
      | NoUtxos \<Rightarrow> ''No available UTXOs for aircraft '' @ icao
      | ReserveProtected ready reserve \<Rightarrow>
          ''UTXO ready reserve protected for aircraft '' @ key @ '' (ready='' @ natToDec ready @ '', reserve=''
            @ natToDec reserve @ '')''
      | Contention \<Rightarrow> ''UTXO acquisition contention for aircraft '' @ icao)"

definition messageOf :: "string \<Rightarrow> failure \<Rightarrow> string" where
  "messageOf icao f = (case f of NoOutput e \<Rightarrow> acquireMessage icao e | Message txt \<Rightarrow> txt)"

definition LOCAL_BACKPRESSURE_ERROR_PREFIX :: string where
  "LOCAL_BACKPRESSURE_ERROR_PREFIX = ''Broadcast local backpressure''"

definition isUnsentBroadcastError :: "string \<Rightarrow> bool" where
  "isUnsentBroadcastError msg \<longleftrightarrow> js_includes msg LOCAL_BACKPRESSURE_ERROR_PREFIX"

definition codeOr :: "BroadcastOutcome \<Rightarrow> string" where
  "codeOr r = (case bo_code r of Some c \<Rightarrow> c | None \<Rightarrow> ''unknown'')"

definition codeOrDescription :: "BroadcastOutcome \<Rightarrow> string" where
  "codeOrDescription r =
     (case bo_code r of Some c \<Rightarrow> c | None \<Rightarrow> (case bo_description r of Some d \<Rightarrow> d | None \<Rightarrow> ''unknown''))"

definition dependencyMessage :: "string \<Rightarrow> string" where
  "dependencyMessage c = ''Broadcast dependency pending: '' @ c"

definition backpressureMessage :: "BroadcastOutcome \<Rightarrow> string" where
  "backpressureMessage r = LOCAL_BACKPRESSURE_ERROR_PREFIX @ '': '' @ codeOr r"

definition transientMessage :: "BroadcastOutcome \<Rightarrow> string" where
  "transientMessage r = ''Broadcast transient failure: '' @ codeOr r"

definition failedMessage :: "BroadcastOutcome \<Rightarrow> string" where
  "failedMessage r = ''Broadcast returned FAILED status: '' @ codeOr r"

subsection \<open>Calls\<close>

type_synonym ('z, 'e, 'a) writer_job = "('z WriterWorld_scheme, 'e, 'a) job"

text \<open>A call that raises the exception of the moment, and one whose exception is swallowed.\<close>

definition calling :: "('z, unit, 'a) writer_job \<Rightarrow> ('z, failure, 'a) writer_job" where
  "calling m = onError m (\<lambda>_. andThen (peek ww_error) (\<lambda>txt. raise (Message txt)))"

definition swallowing :: "('z, unit, unit) writer_job \<Rightarrow> ('z, 'e, unit) writer_job" where
  "swallowing m = onError m (\<lambda>_. ret ())"

definition onStore :: "(millis \<Rightarrow> WriteStore \<Rightarrow> 'a \<times> WriteStore) \<Rightarrow> 'z WriterWorld_scheme \<Rightarrow> 'a \<times> 'z WriterWorld_scheme" where
  "onStore f w = (case f (tw_clock w) (ww_store w) of (x, s) \<Rightarrow> (x, w\<lparr>ww_store := s\<rparr>))"

definition noteUtxos :: "(millis \<Rightarrow> UtxoManager \<Rightarrow> UtxoManager) \<Rightarrow> ('z, 'e, unit) writer_job" where
  "noteUtxos f = alter (\<lambda>w. w\<lparr>rw_utxos := f (tw_clock w) (rw_utxos w)\<rparr>)"

definition inBackground :: "Background \<Rightarrow> ('z, 'e, unit) writer_job" where
  "inBackground b = alter (\<lambda>w. w\<lparr>rw_background := rw_background w @ [b]\<rparr>)"

definition noteGovernor :: "(millis \<Rightarrow> SpendGovernor \<Rightarrow> SpendGovernor) \<Rightarrow> ('z, 'e, unit) writer_job" where
  "noteGovernor f = alter (\<lambda>w. w\<lparr>ww_governor := f (tw_clock w) (ww_governor w)\<rparr>)"

text \<open>Reading the governor may move it.\<close>

definition askGovernor :: "('z, 'e, bool) writer_job" where
  "askGovernor = andThen (peek (\<lambda>w. fst (allowsBroadcast (tw_clock w) (ww_governor w)))) (\<lambda>ok.
     andThen (noteGovernor (\<lambda>now g. snd (allowsBroadcast now g))) (\<lambda>_. ret ok))"

text \<open>An acquisition: the choice and the conditional lock are calls of their own. The number is that of the attempts left.\<close>

fun acquireTries :: "string \<Rightarrow> nat \<Rightarrow> int \<Rightarrow> nat \<Rightarrow> ('z, failure, UTXORecord) writer_job" where
  "acquireTries icao reserve maxDepth 0 = raise (NoOutput Contention)"
| "acquireTries icao reserve maxDepth (Suc n) =
     andThen (calling (await () (\<lambda>w. (chooseUtxo (tw_clock w) icao reserve maxDepth (rw_utxos w), w)))) (\<lambda>chosen.
     case chosen of
       Inl e \<Rightarrow> raise (NoOutput e)
     | Inr ready \<Rightarrow> andThen (calling (await () (onUtxos (\<lambda>now. lockRow now ready)))) (\<lambda>locked.
                     if locked > 0 then ret ready else acquireTries icao reserve maxDepth n))"

definition callAcquireUtxo :: "string \<Rightarrow> nat \<Rightarrow> ('z, failure, UTXORecord) writer_job" where
  "callAcquireUtxo icao reserve =
     andThen (noteUtxos pruneExpiredCooldowns) (\<lambda>_.
     andThen (peek (\<lambda>w. getMaxUnconfirmedChainDepth (rw_utxos w))) (\<lambda>maxDepth.
     acquireTries icao reserve maxDepth 5))"

text \<open>The statements of \<open>recordSpend\<close> and what it keeps in memory.\<close>

definition spendRows ::
  "millis \<Rightarrow> UTXORecord \<Rightarrow> string \<Rightarrow> ChangeOutput \<Rightarrow> string \<Rightarrow> UtxoManager \<Rightarrow> UtxoManager option" where
  "spendRows now u changeTxid c icao m =
     (case recordSpend now 0 (txid u) (vout u) changeTxid 1 (ch_satoshis c) (ch_lockingScript c) icao m of
        None \<Rightarrow> None | Some m' \<Rightarrow> Some (m\<lparr>pool := pool m'\<rparr>))"

definition spendNotes ::
  "millis \<Rightarrow> millis \<Rightarrow> UTXORecord \<Rightarrow> string \<Rightarrow> ChangeOutput \<Rightarrow> UtxoManager \<Rightarrow> UtxoManager" where
  "spendNotes now coolMs u changeTxid c m0 =
     (let m1 = clearUtxoCooldown (txid u) (vout u) m0;
          m2 = m1\<lparr>recentSpends := noteBroadcast changeTxid now (noteSpent (txid u) (vout u) now (recentSpends m1))\<rparr>
      in if ch_satoshis c \<ge> MIN_USABLE_SATS then setUtxoCooldown now changeTxid 1 coolMs m2 else m2)"

definition callRecordSpend ::
  "WriterConfig \<Rightarrow> UTXORecord \<Rightarrow> string \<Rightarrow> ChangeOutput \<Rightarrow> string \<Rightarrow> ('z, failure, UtxoPoolState) writer_job" where
  "callRecordSpend cfg u changeTxid c icao =
     andThen (calling (await () (onUtxos (\<lambda>now m. case spendRows now u changeTxid c icao m of
         None \<Rightarrow> (False, m) | Some m' \<Rightarrow> (True, m'))))) (\<lambda>stored.
     if \<not> stored then andThen (peek ww_error) (\<lambda>txt. raise (Message txt))
     else andThen (noteUtxos (\<lambda>now. spendNotes now (wc_spendCooldownMs cfg) u changeTxid c)) (\<lambda>_.
          calling (await () (onUtxos (\<lambda>now. checkBalance now icao)))))"

definition callReleaseUtxo :: "UTXORecord \<Rightarrow> ('z, 'e, unit) writer_job" where
  "callReleaseUtxo u = swallowing (await () (toUtxos (\<lambda>_. releaseUtxo (txid u) (vout u))))"

definition callDeleteStaleUtxo :: "UTXORecord \<Rightarrow> ('z, 'e, unit) writer_job" where
  "callDeleteStaleUtxo u =
     swallowing (andThen (await () (toUtxos (\<lambda>_ m. m\<lparr>pool := deleteRows (txid u) (vout u) (pool m)\<rparr>))) (\<lambda>_.
        noteUtxos (\<lambda>_. clearUtxoCooldown (txid u) (vout u))))"

definition callInsertTxResult :: "NewTxResult \<Rightarrow> ('z, failure, unit) writer_job" where
  "callInsertTxResult x =
     andThen (calling (await () (onStore (\<lambda>_ s. case insertTxResult x s of None \<Rightarrow> (False, s) | Some s' \<Rightarrow> (True, s'))))) (\<lambda>stored.
     if stored then ret () else andThen (peek ww_error) (\<lambda>txt. raise (Message txt)))"

text \<open>The envelope is stored and not published.\<close>

definition callPublish :: "NewTxResult \<Rightarrow> ('z, 'e, unit) writer_job" where
  "callPublish x =
     swallowing (await () (\<lambda>w. ((), w\<lparr>ww_published := ww_published w @ [x\<lparr>nx_op_return := None\<rparr>]\<rparr>)))"

text \<open>A request for a refill asks the governor only when none is pending or cooling down.\<close>

definition askRefill :: "RefillConfig \<Rightarrow> string \<Rightarrow> 'z WriterWorld_scheme \<Rightarrow> 'z WriterWorld_scheme" where
  "askRefill cfg icao w =
     (let now = tw_clock w; st = rw_refill w; key = js_upper icao;
          asks = (key \<notin> pendingRefills st \<and> \<not> now < orZero (refillCooldowns st key));
          (allowed, g) = allowsTreasurySpend now (ww_governor w);
          (starts, st') = requestRefill cfg now (\<not> allowed) icao st
      in w\<lparr>ww_governor := (if asks then g else ww_governor w), rw_refill := st',
           rw_background := rw_background w @ (if starts then [Refill_aircraft key] else [])\<rparr>)"

definition callRequestRefill :: "RefillConfig \<Rightarrow> string \<Rightarrow> ('z, 'e, unit) writer_job" where
  "callRequestRefill cfg icao = alter (askRefill cfg icao)"

definition callRequestRefillIfPoolLow :: "RefillConfig \<Rightarrow> string \<Rightarrow> UtxoPoolState \<Rightarrow> ('z, 'e, unit) writer_job" where
  "callRequestRefillIfPoolLow cfg icao ps =
     alter (\<lambda>w. if \<not> isActive (tw_clock w) icao (rw_refill w) \<or> \<not> needsRefill cfg (tw_clock w) icao ps False (rw_refill w)
                 then w else askRefill cfg icao w)"

definition callNoteRetryPressure :: "RefillConfig \<Rightarrow> string \<Rightarrow> ('z, 'e, unit) writer_job" where
  "callNoteRetryPressure cfg icao =
     alter (\<lambda>w. w\<lparr>rw_refill := noteRetryPressure cfg (tw_clock w) (ww_random w) icao (rw_refill w)\<rparr>)"

subsection \<open>One attempt to write\<close>

text \<open>The variables that the handler of an exception reads: the input that is held, and whether the broadcaster was called.\<close>

record Attempt =
  at_input :: "UTXORecord option"
  at_broadcast :: bool

definition during :: "Attempt \<Rightarrow> ('z, failure, 'a) writer_job \<Rightarrow> ('z, Attempt \<times> failure, 'a) writer_job" where
  "during a m = onError m (\<lambda>f. raise (a, f))"

definition TRANSIENT_BROADCAST_COOLDOWN_MS :: millis where "TRANSIENT_BROADCAST_COOLDOWN_MS = 3000"

definition resultOf ::
  "WriterConfig \<Rightarrow> string \<Rightarrow> string \<Rightarrow> RecordType \<Rightarrow> string option \<Rightarrow> bool option \<Rightarrow> UTXORecord \<Rightarrow> BuildResult \<Rightarrow> millis \<Rightarrow> NewTxResult" where
  "resultOf cfg t icao recordType flightId chronicle u built now =
     \<lparr> nx_txid = t, nx_aircraft_icao = icao, nx_record_type = recordType, nx_status = TxStatus.SEEN_ON_NETWORK,
       nx_block_height = None, nx_merkle_path = None, nx_timestamp = now,
       nx_fee_sats = satoshis u - ch_satoshis (br_change built), nx_size_bytes = wc_txBytes cfg (br_tx built),
       nx_flight_id = flightId, nx_chronicle_validated = chronicle, nx_op_return = br_opReturn built \<rparr>"

end
