(* ===== verification/Write_Buffer.thy ===== *)
theory Write_Buffer
  imports Writer_Calls
begin

text \<open>
  The buffer of writes that could not be sent, \<open>services/blockchain-writer/src/write-buffer.ts\<close>: how a write is
  buffered, how the backlog ages, and the cycle that sends it again. The world and the calls are those of
  \<open>Writer_Calls\<close>; the table is \<open>pending_writes\<close> of \<open>Write_Store\<close>.

  The monitor of refills, the governor and the publisher are connected, as \<open>index.ts\<close> does. The aircraft of a cycle
  are retried by parallel workers; here the groups run one after another, and what happens beside them is a step
  of the other tasks. Gauges, counters of metrics and log lines are not modelled.

  Results: a buffered write leaves the table only when its result row is stored; an input that was handed to the
  network is not unlocked by the write path; the numbers of a cycle add up; a retry deletes the input of a
  transaction whose parent the network has not seen yet.
\<close>

subsection \<open>Settings\<close>

definition RETRY_BATCH_SIZE :: nat where "RETRY_BATCH_SIZE = 100"
definition RETRY_MAX_PARALLEL_AIRCRAFT :: nat where "RETRY_MAX_PARALLEL_AIRCRAFT = 12"
definition RETRY_CONCURRENCY_DIVISOR :: nat where "RETRY_CONCURRENCY_DIVISOR = 4"
definition PRESERVED_RETENTION_MS :: millis where "PRESERVED_RETENTION_MS = 24 * 60 * 60 * 1000"

definition newWriteBuffer :: WriteBuffer where
  "newWriteBuffer = \<lparr> wb_retrying = False, wb_drainBatchSize = None \<rparr>"

text \<open>\<open>Math.max(1, Math.floor(size))\<close>.\<close>

definition setDrainBatchSize :: "real option \<Rightarrow> WriteBuffer \<Rightarrow> WriteBuffer" where
  "setDrainBatchSize limit b =
     b\<lparr>wb_drainBatchSize := (case limit of None \<Rightarrow> None | Some x \<Rightarrow> Some (nat (max 1 \<lfloor>x\<rfloor>)))\<rparr>"

definition isUtxoUnavailableWriteDeferral :: "string \<Rightarrow> bool" where
  "isUtxoUnavailableWriteDeferral msg \<longleftrightarrow>
     js_includes msg ''No available UTXOs'' \<or> js_includes msg ''UTXO spend cooling down''
   \<or> js_includes msg ''UTXO ready reserve protected'' \<or> js_includes msg ''Unconfirmed chain depth ceiling reached''
   \<or> js_includes msg ''pool is stale''"

definition isTransientWriteDeferral :: "string \<Rightarrow> bool" where
  "isTransientWriteDeferral msg \<longleftrightarrow>
     js_includes msg ''Broadcast dependency pending'' \<or> js_includes msg ''Broadcast local backpressure''
   \<or> js_includes msg ''Broadcast transient failure'' \<or> isUtxoUnavailableWriteDeferral msg"

subsection \<open>Buffering\<close>

text \<open>Whether a whole stream is kept: the treasury is dry, the governor has halted spending, or the aircraft is held.
  The governor is only asked when the treasury is not dry.\<close>

definition preservesStream :: "string \<Rightarrow> ('z, 'e, bool) writer_job" where
  "preservesStream icao =
     andThen (peek ww_fundingDry) (\<lambda>dry.
     if dry then ret True
     else andThen askGovernor (\<lambda>ok.
          if \<not> ok then ret True
          else peek (\<lambda>w. blocksBroadcast (Some icao) None (hold (rw_utxos w)))))"

definition buffer :: "string \<Rightarrow> RecordType \<Rightarrow> byte list \<Rightarrow> string option \<Rightarrow> ('z, failure, unit) writer_job" where
  "buffer icao recordType payload flightId =
     andThen (preservesStream icao) (\<lambda>preserve.
     let x = \<lparr> np_aircraft_icao = icao, np_record_type = recordType, np_payload = payload, np_flight_id = flightId,
               np_preserved = Some preserve \<rparr>
     in if recordType = TELEMETRY \<and> \<not> preserve
        then andThen (calling (await () (onStore (\<lambda>now. upsertPendingTelemetryWrite now x)))) (\<lambda>_. ret ())
        else calling (await () (onStore (\<lambda>now s. ((), insertPendingWrite now x s)))))"

definition prunePreservedBacklog :: "('z, failure, nat) writer_job" where
  "prunePreservedBacklog =
     andThen (peek (\<lambda>w. (ww_prunePaused w, tw_clock w - PRESERVED_RETENTION_MS))) (\<lambda>(paused, cutoff).
     if paused then ret 0
     else andThen (calling (await () (onStore (\<lambda>_. prunePreservedWrites cutoff)))) (\<lambda>removed.
          andThen (if removed > 0 then calling (await () (onStore (\<lambda>_ s. (getPendingWriteCount s, s)))) else ret 0)
            (\<lambda>_. ret removed)))"

definition coalesceTelemetryBacklog :: "('z, failure, nat) writer_job" where
  "coalesceTelemetryBacklog =
     andThen (calling (await () (onStore (\<lambda>_. coalescePendingTelemetryWrites)))) (\<lambda>removed.
     andThen (if removed > 0 then calling (await () (onStore (\<lambda>_ s. (getPendingWriteCount s, s)))) else ret 0)
       (\<lambda>_. ret removed))"

subsection \<open>One waiting write\<close>

datatype RetryWriteOutcome =
  Succeeded "string option"
| Deferred bool "string option"
| Failed

definition callDeletePending :: "nat \<Rightarrow> ('z, failure, unit) writer_job" where
  "callDeletePending n = andThen (calling (await () (onStore (\<lambda>_. deletePendingWrite n)))) (\<lambda>_. ret ())"

text \<open>A broadcast that was accepted.\<close>

definition retryAccepted ::
  "WriterConfig \<Rightarrow> PendingWriteRow \<Rightarrow> UTXORecord \<Rightarrow> BuildResult \<Rightarrow> string \<Rightarrow> ('z, Attempt \<times> failure, RetryWriteOutcome) writer_job" where
  "retryAccepted cfg pending u built t =
     (let icao = pw_aircraft_icao pending; a = \<lparr> at_input = Some u, at_broadcast = True \<rparr>
      in andThen (during a (callRecordSpend cfg u t (br_change built) icao)) (\<lambda>ps.
         andThen (callRequestRefillIfPoolLow (wc_refill cfg) icao ps) (\<lambda>_.
         andThen (noteGovernor noteBroadcastAccepted) (\<lambda>_.
         andThen (peek (\<lambda>w. resultOf cfg t icao (pw_record_type pending) (pw_flight_id pending) None u built (tw_clock w))) (\<lambda>row.
         andThen (during a (callInsertTxResult row)) (\<lambda>_.
         andThen (callPublish row) (\<lambda>_.
         andThen (during a (callDeletePending (pw_id pending))) (\<lambda>_.
         ret (Succeeded None)))))))))"

text \<open>Without a gate upstream, a transaction whose parent is unknown counts as sent.\<close>

definition retryOptimistic ::
  "WriterConfig \<Rightarrow> PendingWriteRow \<Rightarrow> UTXORecord \<Rightarrow> BuildResult \<Rightarrow> BroadcastOutcome \<Rightarrow>
     ('z, Attempt \<times> failure, RetryWriteOutcome) writer_job" where
  "retryOptimistic cfg pending u built result =
     (let icao = pw_aircraft_icao pending; a = \<lparr> at_input = Some u, at_broadcast = True \<rparr>;
          a' = \<lparr> at_input = None, at_broadcast = True \<rparr>; localTxid = wc_computeTxid cfg (br_tx built)
      in andThen (during a (callRecordSpend cfg u localTxid (br_change built) icao)) (\<lambda>ps.
         andThen (callNoteRetryPressure (wc_refill cfg) icao) (\<lambda>_.
         andThen (callRequestRefillIfPoolLow (wc_refill cfg) icao ps) (\<lambda>_.
         andThen (noteGovernor noteBroadcastAccepted) (\<lambda>_.
         andThen (peek (\<lambda>w. resultOf cfg localTxid icao (pw_record_type pending) (pw_flight_id pending) None u built (tw_clock w))) (\<lambda>row.
         andThen (during a' (callInsertTxResult row)) (\<lambda>_.
         andThen (callPublish row) (\<lambda>_.
         andThen (during a' (callDeletePending (pw_id pending))) (\<lambda>_.
         ret (Succeeded (Some (dependencyMessage (codeOrDescription result)))))))))))))"

definition retryRefused ::
  "PendingWriteRow \<Rightarrow> UTXORecord \<Rightarrow> BroadcastOutcome \<Rightarrow> ('z, Attempt \<times> failure, RetryWriteOutcome) writer_job" where
  "retryRefused pending u result =
     (let icao = pw_aircraft_icao pending; a = \<lparr> at_input = Some u, at_broadcast = True \<rparr>
      in if isLocalBackpressureBroadcastFailure result then raise (a, Message (backpressureMessage result))
         else if isTransientBroadcastFailure result then
           andThen (noteUtxos (\<lambda>now. delaySpendRetries now (txid u) (vout u) (Some TRANSIENT_BROADCAST_COOLDOWN_MS))) (\<lambda>_.
           andThen (inBackground (Reconcile_aircraft icao)) (\<lambda>_.
           raise (a, Message (transientMessage result))))
         else
           andThen (callDeleteStaleUtxo u) (\<lambda>_.
           raise (\<lparr> at_input = None, at_broadcast = True \<rparr>, Message (failedMessage result))))"

text \<open>The body of the \<open>try\<close> block.\<close>

definition retryAttempt :: "WriterConfig \<Rightarrow> PendingWriteRow \<Rightarrow> ('z, Attempt \<times> failure, RetryWriteOutcome) writer_job" where
  "retryAttempt cfg pending =
     (let icao = pw_aircraft_icao pending; none = \<lparr> at_input = None, at_broadcast = False \<rparr>
      in case aircraftLock (wc_refill cfg) icao of
           None \<Rightarrow> andThen (peek ww_error) (\<lambda>txt. raise (none, Message txt))
         | Some lock \<Rightarrow>
             andThen (peek (\<lambda>w. nat (getRetryReadyReserve (wc_refill cfg) (tw_clock w) icao (rw_refill w)))) (\<lambda>reserve.
             andThen (during none (callAcquireUtxo icao reserve)) (\<lambda>u.
             andThen (peek tw_clock) (\<lambda>now.
             andThen (during \<lparr> at_input = Some u, at_broadcast = False \<rparr>
                (calling (await () (\<lambda>w. (buildRawOpReturnTx lock u icao now (pw_record_type pending) (pw_payload pending), w))))) (\<lambda>r.
             case r of
               Inl _ \<Rightarrow> andThen (peek ww_error) (\<lambda>txt. raise (\<lparr> at_input = Some u, at_broadcast = False \<rparr>, Message txt))
             | Inr built \<Rightarrow>
                 andThen (during \<lparr> at_input = Some u, at_broadcast = True \<rparr> (calling (await () (sendTx (br_tx built))))) (\<lambda>result.
                 if bo_status result = FAILED then
                   if isDependencyPendingBroadcastFailure result \<and> \<not> wc_hasSeenOnNetworkGate cfg
                   then retryOptimistic cfg pending u built result
                   else retryRefused pending u result
                 else retryAccepted cfg pending u built (bo_txid result)))))))"

text \<open>The handler of its exceptions.\<close>

definition retryFailed :: "WriterConfig \<Rightarrow> PendingWriteRow \<Rightarrow> Attempt \<times> failure \<Rightarrow> ('z, unit, RetryWriteOutcome) writer_job" where
  "retryFailed cfg pending e =
     (let icao = pw_aircraft_icao pending; a = fst e; msg = messageOf icao (snd e);
          requestsRefill = isUtxoUnavailableWriteDeferral msg
      in andThen (case at_input a of
             None \<Rightarrow> ret ()
           | Some u \<Rightarrow> if \<not> at_broadcast a \<or> isUnsentBroadcastError msg then callReleaseUtxo u
                        else inBackground (Reconcile_aircraft icao)) (\<lambda>_.
         andThen (onlyIf requestsRefill (andThen (callNoteRetryPressure (wc_refill cfg) icao) (\<lambda>_.
             callRequestRefill (wc_refill cfg) icao))) (\<lambda>_.
         if isTransientWriteDeferral msg
         then andThen (swallowing (andThen (await () (onStore (\<lambda>_. markWriteDeferred (pw_id pending) msg))) (\<lambda>_. ret ()))) (\<lambda>_.
              ret (Deferred requestsRefill (if requestsRefill then Some msg else None)))
         else andThen (swallowing (andThen (await () (onStore (\<lambda>_. markWriteRetried (pw_id pending) msg))) (\<lambda>_. ret ()))) (\<lambda>_.
              ret Failed))))"

definition retryPendingWrite :: "WriterConfig \<Rightarrow> PendingWriteRow \<Rightarrow> ('z, unit, RetryWriteOutcome) writer_job" where
  "retryPendingWrite cfg pending = onError (retryAttempt cfg pending) (retryFailed cfg pending)"

subsection \<open>The writes of one aircraft\<close>

record RetryGroupOutcome =
  go_successCount :: nat
  go_deferredCount :: nat
  go_failedByIcao :: "string \<rightharpoonup> nat"
  go_deferredByIcao :: "string \<rightharpoonup> nat"
  go_refillRequested :: "string set"

definition noOutcome :: RetryGroupOutcome where
  "noOutcome =
     \<lparr> go_successCount = 0, go_deferredCount = 0, go_failedByIcao = Map.empty, go_deferredByIcao = Map.empty,
       go_refillRequested = {} \<rparr>"

definition bump :: "string \<Rightarrow> nat \<Rightarrow> (string \<rightharpoonup> nat) \<Rightarrow> (string \<rightharpoonup> nat)" where
  "bump k n m = m(k \<mapsto> (case m k of Some x \<Rightarrow> x | None \<Rightarrow> 0) + n)"

definition noteDeferral :: "string \<Rightarrow> RetryGroupOutcome \<Rightarrow> RetryGroupOutcome" where
  "noteDeferral icao o1 =
     o1\<lparr>go_deferredCount := go_deferredCount o1 + 1, go_deferredByIcao := bump icao 1 (go_deferredByIcao o1)\<rparr>"

text \<open>The counts after one outcome, and the reason that blocks the writes behind it.\<close>

fun noteOutcome ::
  "string \<Rightarrow> RetryWriteOutcome \<Rightarrow> RetryGroupOutcome \<times> string option \<Rightarrow> RetryGroupOutcome \<times> string option" where
  "noteOutcome icao (Succeeded why) (o1, blocked) =
     (o1\<lparr>go_successCount := go_successCount o1 + 1\<rparr>, if why = None then blocked else why)"
| "noteOutcome icao (Deferred refill why) (o1, blocked) =
     (let o2 = noteDeferral icao o1
      in (if refill then o2\<lparr>go_refillRequested := insert icao (go_refillRequested o2)\<rparr> else o2,
          if why = None then blocked else why))"
| "noteOutcome icao Failed (o1, blocked) = (o1\<lparr>go_failedByIcao := bump icao 1 (go_failedByIcao o1)\<rparr>, blocked)"

fun retryWrites ::
  "WriterConfig \<Rightarrow> string \<Rightarrow> PendingWriteRow list \<Rightarrow> RetryGroupOutcome \<times> string option \<Rightarrow> ('z, unit, RetryGroupOutcome) writer_job" where
  "retryWrites cfg icao [] st = ret (fst st)"
| "retryWrites cfg icao (pending # rest) st =
     (case snd st of
        Some why \<Rightarrow>
          andThen (swallowing (andThen (await () (onStore (\<lambda>_. markWriteDeferred (pw_id pending) why))) (\<lambda>_. ret ()))) (\<lambda>_.
          retryWrites cfg icao rest (noteDeferral icao (fst st), Some why))
      | None \<Rightarrow> andThen (retryPendingWrite cfg pending) (\<lambda>outcome. retryWrites cfg icao rest (noteOutcome icao outcome st)))"

definition allDeferred :: "string \<Rightarrow> nat \<Rightarrow> RetryGroupOutcome" where
  "allDeferred icao n = noOutcome\<lparr>go_deferredCount := n, go_deferredByIcao := [icao \<mapsto> n]\<rparr>"

definition retryAircraftWrites :: "WriterConfig \<Rightarrow> PendingWriteRow list \<Rightarrow> ('z, unit, RetryGroupOutcome) writer_job" where
  "retryAircraftWrites cfg writes =
     (case writes of
        [] \<Rightarrow> ret noOutcome
      | first # _ \<Rightarrow>
          (let icao = pw_aircraft_icao first in
           if icao = [] then ret noOutcome
           else andThen (peek (\<lambda>w. blocksAircraft icao (hold (rw_utxos w)))) (\<lambda>isBlocked.
                if isBlocked then ret (allDeferred icao (length writes))
                else andThen (peek (\<lambda>w. fst (getRetryBackoffRemainingMs (tw_clock w) icao (rw_refill w)))) (\<lambda>remaining.
                     andThen (alter (\<lambda>w. w\<lparr>rw_refill := snd (getRetryBackoffRemainingMs (tw_clock w) icao (rw_refill w))\<rparr>)) (\<lambda>_.
                     if remaining > 0 then ret (allDeferred icao (length writes))
                     else retryWrites cfg icao writes (noOutcome, None))))))"

subsection \<open>A cycle\<close>

fun addToGroup :: "PendingWriteRow \<Rightarrow> (string \<times> PendingWriteRow list) list \<Rightarrow> (string \<times> PendingWriteRow list) list" where
  "addToGroup r [] = [(pw_aircraft_icao r, [r])]"
| "addToGroup r ((icao, rs) # groups) =
     (if icao = pw_aircraft_icao r then (icao, rs @ [r]) # groups else (icao, rs) # addToGroup r groups)"

definition groupPendingWritesByAircraft :: "PendingWriteRow list \<Rightarrow> PendingWriteRow list list" where
  "groupPendingWritesByAircraft pending = map snd (fold addToGroup pending [])"

definition getRetryParallelism :: "WriterConfig \<Rightarrow> nat \<Rightarrow> nat" where
  "getRetryParallelism cfg groupCount =
     (let byArcCapacity = max 1 (wc_maxConcurrentBroadcasts cfg div RETRY_CONCURRENCY_DIVISOR)
      in max 1 (min groupCount (min RETRY_MAX_PARALLEL_AIRCRAFT byArcCapacity)))"

fun retryGroups :: "WriterConfig \<Rightarrow> PendingWriteRow list list \<Rightarrow> nat \<Rightarrow> ('z, unit, nat) writer_job" where
  "retryGroups cfg [] n = ret n"
| "retryGroups cfg (writes # rest) n =
     andThen (retryAircraftWrites cfg writes) (\<lambda>outcome. retryGroups cfg rest (n + go_successCount outcome))"

text \<open>What keeps a cycle from starting, in the order of the checks.\<close>

definition standsDown :: "('z, 'e, bool) writer_job" where
  "standsDown =
     andThen (peek (\<lambda>w. isHeld (hold (rw_utxos w)))) (\<lambda>isHeldNow.
     if isHeldNow then ret True
     else andThen askGovernor (\<lambda>ok.
          if \<not> ok then ret True
          else peek (\<lambda>w. ww_degraded w \<or> isTreasuryBlocked (tw_clock w) (rw_refill w)
                        \<or> (wb_drainBatchSize (ww_buffer w) = None \<and> ww_fundingDry w))))"

definition retryCycle :: "WriterConfig \<Rightarrow> ('z, unit, nat) writer_job" where
  "retryCycle cfg =
     andThen standsDown (\<lambda>skip.
     if skip then ret 0
     else andThen (peek (\<lambda>w. case wb_drainBatchSize (ww_buffer w) of Some n \<Rightarrow> n | None \<Rightarrow> RETRY_BATCH_SIZE)) (\<lambda>batchSize.
          andThen (await () (onStore (\<lambda>_ s. (getPendingWrites batchSize s, s)))) (\<lambda>pending.
          if pending = [] then ret 0 else retryGroups cfg (groupPendingWritesByAircraft pending) 0)))"

definition setRetrying :: "bool \<Rightarrow> ('z, 'e, unit) writer_job" where
  "setRetrying b = alter (\<lambda>w. w\<lparr>ww_buffer := (ww_buffer w)\<lparr>wb_retrying := b\<rparr>\<rparr>)"

text \<open>An exception of the cycle is logged.\<close>

definition retry :: "WriterConfig \<Rightarrow> ('z, unit, nat) writer_job" where
  "retry cfg =
     andThen (peek (\<lambda>w. wb_retrying (ww_buffer w))) (\<lambda>running.
     if running then ret 0
     else andThen (setRetrying True) (\<lambda>_.
          andThen (onError (retryCycle cfg) (\<lambda>_. ret 0)) (\<lambda>n.
          andThen (setRetrying False) (\<lambda>_. ret n))))"

subsection \<open>The waiting write is kept\<close>

lemma ww_store_calls [simp]:
  "ww_store (snd (onUtxos f w)) = ww_store w" "ww_store (snd (toUtxos g w)) = ww_store w"
  "ww_store (snd (sendTx t w)) = ww_store w" "ww_store (askRefill cfg icao w) = ww_store w"
  by (simp_all add: onUtxos_def toUtxos_def sendTx_def askRefill_def Let_def split: prod.split)

lemma store_onStore: "ww_store (snd (onStore f w)) = snd (f (tw_clock w) (ww_store w))"
  by (simp add: onStore_def split: prod.split)

lemma wp_peek_eq: "wpr (peek f) Q E s = Q (f (world s)) s"
  by (simp add: wpr_def peek_def gets_def)

lemma keeps_calling: "keeps R P m \<Longrightarrow> keeps R P (calling m)"
  unfolding calling_def by (intro keeps_intros)

lemma keeps_swallowing: "keeps R P m \<Longrightarrow> keeps R P (swallowing m)"
  unfolding swallowing_def by (intro keeps_intros)

lemma keeps_during: "keeps R P m \<Longrightarrow> keeps R P (during a m)"
  unfolding during_def by (intro keeps_intros)

lemma keeps_sum: "(\<And>e. keeps R P (f e)) \<Longrightarrow> (\<And>x. keeps R P (g x)) \<Longrightarrow> keeps R P (case v of Inl e \<Rightarrow> f e | Inr x \<Rightarrow> g x)"
  by (simp split: sum.split)

lemma keeps_option: "keeps R P m \<Longrightarrow> (\<And>x. keeps R P (g x)) \<Longrightarrow> keeps R P (case v of None \<Rightarrow> m | Some x \<Rightarrow> g x)"
  by (simp split: option.split)

lemmas keeps_calls = keeps_sum keeps_option keeps_intros keeps_calling keeps_swallowing keeps_during

lemma store_await:
  "stableUnder R (\<lambda>w. p (ww_store w)) \<Longrightarrow> (\<And>w. ww_store (snd (f w)) = ww_store w) \<Longrightarrow>
     keeps R (\<lambda>w. p (ww_store w)) (await e f)"
  by (rule keeps_await) simp_all

lemma store_alter: "(\<And>w. ww_store (f w) = ww_store w) \<Longrightarrow> keeps R (\<lambda>w. p (ww_store w)) (alter f)"
  by (rule keeps_alter) simp

lemma store_acquire:
  assumes "stableUnder R (\<lambda>w. p (ww_store w))"
  shows "keeps R (\<lambda>w. p (ww_store w)) (acquireTries icao reserve maxDepth n)"
proof (induction n)
  case (Suc n)
  then show ?case
    unfolding acquireTries.simps
    by (intro keeps_calls store_await assms Suc) simp_all
qed (simp add: keeps_raise)

text \<open>Every part of an attempt but the statements on the store.\<close>

lemma store_calls:
  assumes "stableUnder R (\<lambda>w. p (ww_store w))"
  shows "keeps R (\<lambda>w. p (ww_store w)) (callAcquireUtxo icao reserve)"
    and "keeps R (\<lambda>w. p (ww_store w)) (callRecordSpend cfg u t c icao)"
    and "keeps R (\<lambda>w. p (ww_store w)) (callReleaseUtxo u)"
    and "keeps R (\<lambda>w. p (ww_store w)) (callDeleteStaleUtxo u)"
    and "keeps R (\<lambda>w. p (ww_store w)) (callPublish x)"
    and "keeps R (\<lambda>w. p (ww_store w)) (callRequestRefill rc icao)"
    and "keeps R (\<lambda>w. p (ww_store w)) (callRequestRefillIfPoolLow rc icao ps)"
    and "keeps R (\<lambda>w. p (ww_store w)) (callNoteRetryPressure rc icao)"
    and "keeps R (\<lambda>w. p (ww_store w)) (noteUtxos f)"
    and "keeps R (\<lambda>w. p (ww_store w)) (noteGovernor g)"
    and "keeps R (\<lambda>w. p (ww_store w)) (inBackground b)"
    and "keeps R (\<lambda>w. p (ww_store w)) (await e (sendTx tx))"
    and "keeps R (\<lambda>w. p (ww_store w)) (await e (\<lambda>w. (v w, w)))"
proof -
  note aw = store_await [OF assms] and st = store_alter [of _ R p]
  show n: "keeps R (\<lambda>w. p (ww_store w)) (noteUtxos f)" for f unfolding noteUtxos_def by (rule st) simp
  show "keeps R (\<lambda>w. p (ww_store w)) (noteGovernor g)" unfolding noteGovernor_def by (rule st) simp
  show "keeps R (\<lambda>w. p (ww_store w)) (inBackground b)" unfolding inBackground_def by (rule st) simp
  show "keeps R (\<lambda>w. p (ww_store w)) (await e (sendTx tx))" by (rule aw) simp
  show "keeps R (\<lambda>w. p (ww_store w)) (await e (\<lambda>w. (v w, w)))" by (rule aw) simp
  show "keeps R (\<lambda>w. p (ww_store w)) (callRequestRefill rc icao)" unfolding callRequestRefill_def by (rule st) simp
  show "keeps R (\<lambda>w. p (ww_store w)) (callRequestRefillIfPoolLow rc icao ps)"
    unfolding callRequestRefillIfPoolLow_def by (rule st) simp
  show "keeps R (\<lambda>w. p (ww_store w)) (callNoteRetryPressure rc icao)" unfolding callNoteRetryPressure_def by (rule st) simp
  show "keeps R (\<lambda>w. p (ww_store w)) (callPublish x)" unfolding callPublish_def by (intro keeps_calls aw) simp
  show "keeps R (\<lambda>w. p (ww_store w)) (callReleaseUtxo u)" unfolding callReleaseUtxo_def by (intro keeps_calls aw) simp
  show "keeps R (\<lambda>w. p (ww_store w)) (callDeleteStaleUtxo u)"
    unfolding callDeleteStaleUtxo_def by (intro keeps_calls aw n) simp
  show "keeps R (\<lambda>w. p (ww_store w)) (callRecordSpend cfg u t c icao)"
    unfolding callRecordSpend_def by (intro keeps_calls aw n) simp_all
  show "keeps R (\<lambda>w. p (ww_store w)) (callAcquireUtxo icao reserve)"
    unfolding callAcquireUtxo_def by (intro keeps_calls n store_acquire assms)
qed

text \<open>The write still waits, or a row with its envelope is in the results.\<close>

definition waiting :: "PendingWriteRow \<Rightarrow> WriteStore \<Rightarrow> bool" where
  "waiting r s \<longleftrightarrow> writes_inv s \<and> (\<exists>r'\<in>set (ws_pending s). sameWrite r r')"

definition recordsWrite :: "PendingWriteRow \<Rightarrow> TxResultRow \<Rightarrow> bool" where
  "recordsWrite r x \<longleftrightarrow>
     rx_aircraft_icao x = pw_aircraft_icao r \<and> rx_record_type x = pw_record_type r \<and> rx_flight_id x = pw_flight_id r
   \<and> (\<exists>now :: millis. \<exists>envelope. rx_op_return x = Some envelope
        \<and> buildOpReturnPayload (pw_aircraft_icao r) (Some (of_int now)) (pw_record_type r) (pw_payload r) = Inr envelope)"

definition recorded :: "PendingWriteRow \<Rightarrow> WriteStore \<Rightarrow> bool" where
  "recorded r s \<longleftrightarrow> writes_inv s \<and> (\<exists>x\<in>set (ws_results s). recordsWrite r x)"

definition accounted :: "PendingWriteRow \<Rightarrow> WriteStore \<Rightarrow> bool" where
  "accounted r s \<longleftrightarrow> waiting r s \<or> recorded r s"

text \<open>What the other tasks may do: everything that does not drop this write.\<close>

definition othersKeep :: "PendingWriteRow \<Rightarrow> 'z WriterWorld_scheme \<Rightarrow> 'z WriterWorld_scheme \<Rightarrow> bool" where
  "othersKeep r w w' \<longleftrightarrow> (\<exists>es. ww_store w' = fold storeStep es (ww_store w) \<and> \<not> list_ex (mayDrop r) es)"

text \<open>What a result row says of its write is never changed.\<close>

definition saysOf :: "TxResultRow \<Rightarrow> string \<times> string \<times> RecordType \<times> string option \<times> byte list option" where
  "saysOf x = (rx_txid x, rx_aircraft_icao x, rx_record_type x, rx_flight_id x, rx_op_return x)"

lemma says_update:
  assumes "\<And>x. saysOf (f x) = saysOf x"
  shows "saysOf ` set (ws_results (snd (updateResults P f s))) = saysOf ` set (ws_results s)"
proof -
  have "saysOf (if P x then f x else x) = saysOf x" for x by (simp add: assms)
  moreover have "ws_results (snd (updateResults P f s)) = map (\<lambda>r. if P r then f r else r) (ws_results s)"
    by (simp add: updateResults_def)
  ultimately show ?thesis by (simp only: set_map image_image)
qed

lemma results_say:
  "saysOf ` set (ws_results s) \<subseteq> saysOf ` set (ws_results (storeStep e s))"
proof (cases "touchesPending e")
  case True
  then show ?thesis using pending_leaves_results by simp
next
  case False
  then show ?thesis
  proof (cases e)
    case (Insert_result x)
    then show ?thesis by (auto simp: insertTxResult_def)
  next
    case (Update_status t st h p)
    then show ?thesis by (simp add: updateTxStatus_def) (subst says_update; simp add: saysOf_def)
  next
    case (Mark_rejected t d)
    show ?thesis unfolding Mark_rejected storeStep.simps markTxRejected_def Let_def
      by (subst says_update) (simp_all add: saysOf_def)
  next
    case (Claim_requeue t n)
    have "saysOf ` set (ws_results (snd (updateResults (\<lambda>r. rx_txid r = t) (\<lambda>r. r\<lparr>rx_reject_requeues := k\<rparr>) s)))
        = saysOf ` set (ws_results s)" for k
      by (rule says_update) (simp add: saysOf_def)
    then show ?thesis using claim_cases [of t n s] Claim_requeue by auto
  qed (use False in \<open>simp_all add: touchesPending_def\<close>)
qed

lemma results_say_all: "saysOf ` set (ws_results s) \<subseteq> saysOf ` set (ws_results (fold storeStep es s))"
  by (induction es arbitrary: s) (simp_all, use results_say in blast)

lemma recordsWrite_says: "saysOf x = saysOf y \<Longrightarrow> recordsWrite r x \<Longrightarrow> recordsWrite r y"
  by (simp add: recordsWrite_def saysOf_def)

lemma recorded_step:
  assumes "recorded r s"
  shows "recorded r (storeStep e s)"
proof -
  obtain x where x: "x \<in> set (ws_results s)" "recordsWrite r x" using assms by (auto simp: recorded_def)
  then obtain y where "y \<in> set (ws_results (storeStep e s))" "saysOf y = saysOf x" using results_say [of s e] by fastforce
  then show ?thesis using assms storeStep_inv recordsWrite_says [of x y r] x(2) by (auto simp: recorded_def)
qed

lemma waiting_step: "waiting r s \<Longrightarrow> \<not> mayDrop r e \<Longrightarrow> waiting r (storeStep e s)"
proof -
  assume w: "waiting r s" and e: "\<not> mayDrop r e"
  then obtain r' where r': "writes_inv s" "r' \<in> set (ws_pending s)" "sameWrite r r'" by (auto simp: waiting_def)
  have "\<not> mayDrop r' e" using mayDrop_same [OF r'(3)] e by simp
  from storeStep_keeps [OF r'(1,2) this] obtain r'' where "r'' \<in> set (ws_pending (storeStep e s))" "sameWrite r' r''" by auto
  then show ?thesis using storeStep_inv [OF r'(1)] sameWrite_trans [OF r'(3)] by (auto simp: waiting_def)
qed

lemma accounted_step: "accounted r s \<Longrightarrow> \<not> mayDrop r e \<Longrightarrow> accounted r (storeStep e s)"
  using waiting_step recorded_step by (auto simp: accounted_def)

lemma accounted_steps: "accounted r s \<Longrightarrow> \<not> list_ex (mayDrop r) es \<Longrightarrow> accounted r (fold storeStep es s)"
  by (induction es arbitrary: s) (auto intro: accounted_step)

lemma recorded_steps: "recorded r s \<Longrightarrow> recorded r (fold storeStep es s)"
  by (induction es arbitrary: s) (auto intro: recorded_step)

lemma keep_stable:
  "stableUnder (othersKeep r) (\<lambda>w. accounted r (ww_store w))"
  "stableUnder (othersKeep r) (\<lambda>w. recorded r (ww_store w))"
  by (auto simp: stableUnder_def othersKeep_def intro: accounted_steps recorded_steps)

lemma recorded_accounted: "recorded r s \<Longrightarrow> accounted r s"
  by (simp add: accounted_def)

lemma raw_envelope:
  assumes "buildRawOpReturnTx lock u icao now recordType payload = Inr built"
  shows "\<exists>envelope. br_opReturn built = Some envelope \<and> buildOpReturnPayload icao (Some (of_int now)) recordType payload = Inr envelope"
  using assms
  by (auto simp: buildRawOpReturnTx_def buildEnvelopeTx_def buildOpReturnTx_def Let_def split: sum.splits if_splits)

text \<open>A result row for the write.\<close>

definition describes :: "PendingWriteRow \<Rightarrow> NewTxResult \<Rightarrow> bool" where
  "describes r x \<longleftrightarrow> recordsWrite r (resultRow x)"

lemma describes_resultOf:
  assumes "buildRawOpReturnTx lock u (pw_aircraft_icao r) now (pw_record_type r) (pw_payload r) = Inr built"
  shows "describes r (resultOf cfg t (pw_aircraft_icao r) (pw_record_type r) (pw_flight_id r) chronicle u built now')"
  using raw_envelope [OF assms] unfolding describes_def recordsWrite_def resultRow_def resultOf_def by auto

lemma insert_spec:
  fixes s :: "'z WriterWorld_scheme System"
  assumes "under R P s" "stableUnder R P" "stableUnder R Q" "\<And>w. Q w \<Longrightarrow> P w"
    and "\<And>w st. P w \<Longrightarrow> insertTxResult x (ww_store w) = Some st \<Longrightarrow> Q (w\<lparr>ww_store := st\<rparr>)"
  shows "wpr (callInsertTxResult x) (\<lambda>_. under R Q) (\<lambda>_. under R P) s"
proof -
  let ?f = "\<lambda>_ st. case insertTxResult x st of None \<Rightarrow> (False, st) | Some st' \<Rightarrow> (True, st')"
  let ?Q = "\<lambda>stored w. if stored then Q w else P w"
  have step: "?Q b w'" if "P w" "onStore ?f w = (b, w')" for w w' :: "'z WriterWorld_scheme" and b
    using that assms(5) [OF that(1)] by (cases "insertTxResult x (ww_store w)") (auto simp: onStore_def)
  have "wpr (await () (onStore ?f)) (\<lambda>b. under R (?Q b)) (\<lambda>e. under R (\<lambda>w. e = () \<and> P w)) s"
  proof (rule wp_await [OF assms(1,2) _ assms(2)])
    show "stableUnder R (?Q b)" for b by (cases b) (simp_all add: assms(2,3))
    show "?Q b w'" if "P w" "onStore ?f w = (b, w')" for w w' :: "'z WriterWorld_scheme" and b by (rule step [OF that])
    show "P w" if "?Q b w" for b w using that assms(4) by (cases b) simp_all
  qed simp
  then show ?thesis
    unfolding callInsertTxResult_def calling_def wp_andThen wp_onError
    by (rule wpr_mono) (auto simp: wp_ret wp_raise wp_andThen wp_peek_eq split: if_splits)
qed

lemma insert_records:
  fixes s :: "'z WriterWorld_scheme System"
  assumes "under (othersKeep r) (\<lambda>w. accounted r (ww_store w)) s" "describes r x"
  shows "wpr (callInsertTxResult x) (\<lambda>_. under (othersKeep r) (\<lambda>w. recorded r (ww_store w)))
     (\<lambda>_. under (othersKeep r) (\<lambda>w. accounted r (ww_store w))) s"
proof (rule insert_spec [OF assms(1) keep_stable recorded_accounted])
  fix w :: "'z WriterWorld_scheme" and st assume w: "accounted r (ww_store w)" "insertTxResult x (ww_store w) = Some st"
  then have st: "st = storeStep (Insert_result x) (ww_store w)" by simp
  have "writes_inv (ww_store w)" using w(1) by (auto simp: accounted_def waiting_def recorded_def)
  then have "writes_inv st" unfolding st by (rule storeStep_inv)
  moreover have "resultRow x \<in> set (ws_results st)" using w(2) by (auto simp: insertTxResult_def split: if_splits)
  ultimately show "recorded r (ww_store (w\<lparr>ww_store := st\<rparr>))" using assms(2) by (auto simp: recorded_def describes_def)
qed

lemma delete_after_record:
  "keeps (othersKeep r) (\<lambda>w. recorded r (ww_store w)) (during a (callDeletePending n))"
  unfolding callDeletePending_def
  by (intro keeps_calls keeps_await keep_stable)
     (use recorded_step [of r _ "Delete_pending n"] in \<open>simp add: store_onStore\<close>)

lemma wpr_keeps_then:
  assumes "keeps R P m" "under R P s" "\<And>x s'. under R P s' \<Longrightarrow> wpr (k x) Q (\<lambda>_. under R P) s'"
  shows "wpr (andThen m k) Q (\<lambda>_. under R P) s"
  by (rule wpr_then [OF keepsD [OF assms(1,2)] assms(3)])

lemma wpr_peek_then: "wpr (k (f (world s))) Q E s \<Longrightarrow> wpr (andThen (peek f) k) Q E s"
  by (simp add: wp_andThen wp_peek_eq)

lemma wpr_true: "wpr m (\<lambda>_ _. True) (\<lambda>_ _. True) s"
  by (simp add: wpr_def split: prod.split outcome.split)

lemma finish_records:
  assumes "under (othersKeep r) (\<lambda>w. recorded r (ww_store w)) s"
  shows "wpr (andThen (callPublish row) (\<lambda>_. andThen (during a (callDeletePending n)) (\<lambda>_. ret x)))
     (\<lambda>_. under (othersKeep r) (\<lambda>w. recorded r (ww_store w))) (\<lambda>_. under (othersKeep r) (\<lambda>w. accounted r (ww_store w))) s"
proof -
  have "keeps (othersKeep r) (\<lambda>w. recorded r (ww_store w))
      (andThen (callPublish row) (\<lambda>_. andThen (during a (callDeletePending n)) (\<lambda>_. ret x)))"
    by (intro keeps_andThen keeps_ret store_calls(5) keep_stable delete_after_record)
  from keepsD [OF this assms] show ?thesis
    by (rule wpr_mono) (auto simp: under_def recorded_accounted)
qed

lemma insert_and_finish:
  assumes "under (othersKeep r) (\<lambda>w. accounted r (ww_store w)) s" "describes r row"
  shows "wpr (andThen (during a (callInsertTxResult row)) (\<lambda>_. andThen (callPublish row) (\<lambda>_.
        andThen (during a (callDeletePending n)) (\<lambda>_. ret x))))
     (\<lambda>_. under (othersKeep r) (\<lambda>w. recorded r (ww_store w))) (\<lambda>_. under (othersKeep r) (\<lambda>w. accounted r (ww_store w))) s"
proof (rule wpr_then)
  show "wpr (during a (callInsertTxResult row)) (\<lambda>_. under (othersKeep r) (\<lambda>w. recorded r (ww_store w)))
      (\<lambda>_. under (othersKeep r) (\<lambda>w. accounted r (ww_store w))) s"
    unfolding during_def wp_onError by (rule wpr_mono [OF insert_records [OF assms]]) (simp_all add: wp_raise)
qed (rule finish_records)

lemma accepted_records:
  assumes "under (othersKeep r) (\<lambda>w. accounted r (ww_store w)) s"
    and "buildRawOpReturnTx lock u (pw_aircraft_icao r) now (pw_record_type r) (pw_payload r) = Inr built"
  shows "wpr (retryAccepted cfg r u built t) (\<lambda>_. under (othersKeep r) (\<lambda>w. recorded r (ww_store w)))
     (\<lambda>_. under (othersKeep r) (\<lambda>w. accounted r (ww_store w))) s"
  unfolding retryAccepted_def Let_def
  by (intro wpr_keeps_then [OF keeps_during [OF store_calls(2)]] wpr_keeps_then [OF store_calls(7)]
      wpr_keeps_then [OF store_calls(10)] keep_stable assms(1) wpr_peek_then insert_and_finish
      describes_resultOf [OF assms(2)])

lemma optimistic_records:
  assumes "under (othersKeep r) (\<lambda>w. accounted r (ww_store w)) s"
    and "buildRawOpReturnTx lock u (pw_aircraft_icao r) now (pw_record_type r) (pw_payload r) = Inr built"
  shows "wpr (retryOptimistic cfg r u built result) (\<lambda>_. under (othersKeep r) (\<lambda>w. recorded r (ww_store w)))
     (\<lambda>_. under (othersKeep r) (\<lambda>w. accounted r (ww_store w))) s"
  unfolding retryOptimistic_def Let_def
  by (intro wpr_keeps_then [OF keeps_during [OF store_calls(2)]] wpr_keeps_then [OF store_calls(8)]
      wpr_keeps_then [OF store_calls(7)] wpr_keeps_then [OF store_calls(10)] keep_stable assms(1) wpr_peek_then insert_and_finish
      describes_resultOf [OF assms(2)])

lemma refused_accounts:
  assumes "under (othersKeep r) (\<lambda>w. accounted r (ww_store w)) s"
  shows "wpr (retryRefused r u result) (\<lambda>_ _. False) (\<lambda>_. under (othersKeep r) (\<lambda>w. accounted r (ww_store w))) s"
  unfolding retryRefused_def Let_def using assms
  by (auto simp: wp_raise intro!: wpr_keeps_then [OF store_calls(9)] wpr_keeps_then [OF store_calls(11)]
      wpr_keeps_then [OF store_calls(4)] keep_stable)

lemma attempt_records:
  assumes "under (othersKeep r) (\<lambda>w. accounted r (ww_store w)) s"
  shows "wpr (retryAttempt cfg r) (\<lambda>_. under (othersKeep r) (\<lambda>w. recorded r (ww_store w)))
     (\<lambda>_. under (othersKeep r) (\<lambda>w. accounted r (ww_store w))) s"
proof (cases "aircraftLock (wc_refill cfg) (pw_aircraft_icao r)")
  case None
  then show ?thesis using assms by (simp add: retryAttempt_def wp_andThen wp_peek_eq wp_raise)
next
  case (Some lock)
  let ?R = "othersKeep r" and ?A = "\<lambda>w. accounted r (ww_store w)" and ?Rec = "\<lambda>w. recorded r (ww_store w)"
  have sent: "wpr (andThen (during a (calling (await () (sendTx (br_tx built))))) (\<lambda>result.
        if bo_status result = FAILED then
          if isDependencyPendingBroadcastFailure result \<and> \<not> wc_hasSeenOnNetworkGate cfg
          then retryOptimistic cfg r u built result else retryRefused r u result
        else retryAccepted cfg r u built (bo_txid result))) (\<lambda>_. under ?R ?Rec) (\<lambda>_. under ?R ?A) s1"
    if "under ?R ?A s1" "buildRawOpReturnTx lock u (pw_aircraft_icao r) now (pw_record_type r) (pw_payload r) = Inr built"
    for s1 :: "'a WriterWorld_scheme System" and a u now built
  proof (rule wpr_keeps_then [OF keeps_during [OF keeps_calling [OF store_calls(12)]] that(1)])
    fix result and s2 :: "'a WriterWorld_scheme System" assume s2: "under ?R ?A s2"
    have "wpr (retryRefused r u result) (\<lambda>_. under ?R ?Rec) (\<lambda>_. under ?R ?A) s2"
      by (rule wpr_mono [OF refused_accounts [OF s2]]) auto
    then show "wpr (if bo_status result = FAILED then
          if isDependencyPendingBroadcastFailure result \<and> \<not> wc_hasSeenOnNetworkGate cfg
          then retryOptimistic cfg r u built result else retryRefused r u result
        else retryAccepted cfg r u built (bo_txid result)) (\<lambda>_. under ?R ?Rec) (\<lambda>_. under ?R ?A) s2"
      using accepted_records [OF s2 that(2)] optimistic_records [OF s2 that(2)] by simp
  qed (rule keep_stable)
  show ?thesis
    unfolding retryAttempt_def Let_def Some option.case
  proof (rule wpr_keeps_then [OF keeps_peek assms], rule wpr_keeps_then [OF keeps_during [OF store_calls(1)]])
    fix u and s1 :: "'a WriterWorld_scheme System" assume s1: "under ?R ?A s1"
    let ?now = "tw_clock (world s1)"
    let ?r = "buildRawOpReturnTx lock u (pw_aircraft_icao r) ?now (pw_record_type r) (pw_payload r)"
    let ?a = "\<lparr> at_input = Some u, at_broadcast = False \<rparr>"
    have "wpr (during ?a (calling (await () (\<lambda>w. (?r, w))))) (\<lambda>x s. under ?R ?A s \<and> x = ?r) (\<lambda>_. under ?R ?A) s1"
    proof -
      have "wpr (await () (\<lambda>w. (?r, w))) (\<lambda>x. under ?R (\<lambda>w. ?A w \<and> x = ?r)) (\<lambda>e. under ?R (\<lambda>w. e = () \<and> ?A w)) s1"
        by (rule wp_await [OF s1 keep_stable(1) stableUnder_conj [OF keep_stable(1) stableUnder_const] keep_stable(1)]) auto
      then show ?thesis
        unfolding during_def calling_def wp_onError
        by (rule wpr_mono) (auto simp: wp_andThen wp_peek_eq wp_raise under_def)
    qed
    then show "wpr (andThen (peek tw_clock) (\<lambda>now. andThen (during ?a
          (calling (await () (\<lambda>w. (buildRawOpReturnTx lock u (pw_aircraft_icao r) now (pw_record_type r) (pw_payload r), w))))) (\<lambda>x.
          case x of
            Inl _ \<Rightarrow> andThen (peek ww_error) (\<lambda>txt. raise (?a, Message txt))
          | Inr built \<Rightarrow> andThen (during \<lparr> at_input = Some u, at_broadcast = True \<rparr> (calling (await () (sendTx (br_tx built))))) (\<lambda>result.
              if bo_status result = FAILED then
                if isDependencyPendingBroadcastFailure result \<and> \<not> wc_hasSeenOnNetworkGate cfg
                then retryOptimistic cfg r u built result else retryRefused r u result
              else retryAccepted cfg r u built (bo_txid result))))) (\<lambda>_. under ?R ?Rec) (\<lambda>_. under ?R ?A) s1"
      unfolding wp_andThen [of "peek tw_clock"] wp_peek_eq
    proof (rule wpr_then)
      fix x and s2 :: "'a WriterWorld_scheme System" assume x: "under ?R ?A s2 \<and> x = ?r"
      show "wpr (case x of
            Inl _ \<Rightarrow> andThen (peek ww_error) (\<lambda>txt. raise (?a, Message txt))
          | Inr built \<Rightarrow> andThen (during \<lparr> at_input = Some u, at_broadcast = True \<rparr> (calling (await () (sendTx (br_tx built))))) (\<lambda>result.
              if bo_status result = FAILED then
                if isDependencyPendingBroadcastFailure result \<and> \<not> wc_hasSeenOnNetworkGate cfg
                then retryOptimistic cfg r u built result else retryRefused r u result
              else retryAccepted cfg r u built (bo_txid result))) (\<lambda>_. under ?R ?Rec) (\<lambda>_. under ?R ?A) s2"
      proof (cases x)
        case (Inl e)
        then show ?thesis using x by (simp add: wp_andThen wp_peek_eq wp_raise)
      next
        case (Inr built)
        then show ?thesis using sent [of s2 u ?now built] x by simp
      qed
    qed
  qed (rule keep_stable)
qed

lemma mark_keeps:
  assumes "\<And>st. snd (f st) = storeStep e st" "\<not> mayDrop r e"
  shows "keeps (othersKeep r) (\<lambda>w. accounted r (ww_store w)) (swallowing (andThen (await () (onStore (\<lambda>_. f))) (\<lambda>_. ret ())))"
  by (intro keeps_calls keeps_await keep_stable) (simp add: store_onStore assms accounted_step)

lemma failed_keeps: "keeps (othersKeep r) (\<lambda>w. accounted r (ww_store w)) (retryFailed cfg r e)"
  unfolding retryFailed_def Let_def
  by (intro keeps_calls store_calls keep_stable mark_keeps [where e = "Mark_deferred n msg" for n msg]
      mark_keeps [where e = "Mark_retried n msg" for n msg]) simp_all

text \<open>The handler always ends, and never with a success.\<close>

lemma wpr_ends:
  assumes "\<And>s. wpr m (\<lambda>_ _. True) (\<lambda>_ _. False) s" "\<And>x s. wpr (k x) Q E s"
  shows "wpr (andThen m k) Q E s"
  unfolding wp_andThen by (rule wpr_mono [OF assms(1)]) (simp_all add: assms(2))

lemma swallowing_ends: "wpr (swallowing m) (\<lambda>_ _. True) (\<lambda>_ _. False) s"
  unfolding swallowing_def wp_onError by (rule wpr_mono [OF wpr_true]) (simp_all add: wp_ret)

lemma alter_ends: "wpr (alter f) (\<lambda>_ _. True) (\<lambda>_ _. False) s"
  by (simp add: alter_def wp_modify)

lemma pressure_ends:
  "wpr (onlyIf b (andThen (callNoteRetryPressure cfg icao) (\<lambda>_. callRequestRefill cfg icao))) (\<lambda>_ _. True) (\<lambda>_ _. False) s"
  unfolding wp_onlyIf callNoteRetryPressure_def callRequestRefill_def by (simp add: alter_def wp_simps)

lemma settle_ends:
  "wpr (case v of None \<Rightarrow> ret () | Some u \<Rightarrow> if b then callReleaseUtxo u else inBackground t) (\<lambda>_ _. True) (\<lambda>_ _. False) s"
  using swallowing_ends alter_ends by (auto simp: callReleaseUtxo_def inBackground_def wp_ret split: option.split)

lemma failed_ends: "wpr (retryFailed cfg r e) (\<lambda>x _. \<forall>why. x \<noteq> Succeeded why) (\<lambda>_ _. False) s"
  unfolding retryFailed_def Let_def
  by (rule wpr_ends [OF settle_ends], rule wpr_ends [OF pressure_ends])
     (auto intro!: wpr_ends [OF swallowing_ends] simp: wp_ret)

text \<open>
  C34: a waiting write is not lost by a retry. Whatever calls fail and with whatever text, and whatever the other tasks do
  to the store without dropping this write, the retry ends with an outcome, and the write still waits, or a result
  row of its aircraft, type and flight holds the envelope built from its payload. When the retry reports a
  success, that row is there: the write leaves the table only after its record is stored.
\<close>

theorem retried_write_not_lost:
  assumes "obeys (othersKeep pending) s" "waiting pending (ww_store (world s))" "retryPendingWrite cfg pending s = (r, s')"
  shows "\<exists>outcome. r = Returned outcome
    \<and> (waiting pending (ww_store (world s')) \<or> recorded pending (ww_store (world s')))
    \<and> (\<forall>why. outcome = Succeeded why \<longrightarrow> recorded pending (ww_store (world s')))"
proof -
  let ?R = "othersKeep pending" and ?A = "\<lambda>w. accounted pending (ww_store w)" and ?Rec = "\<lambda>w. recorded pending (ww_store w)"
  have s: "under ?R ?A s" using assms(1,2) by (simp add: under_def accounted_def)
  have failed: "wpr (retryFailed cfg pending e) (\<lambda>x s. under ?R ?A s \<and> (\<forall>why. x = Succeeded why \<longrightarrow> ?Rec (world s))) (\<lambda>_ _. False) s1"
    if "under ?R ?A s1" for e and s1 :: "'a WriterWorld_scheme System"
    using keepsD [OF failed_keeps that, of cfg e] failed_ends [of cfg pending e s1]
    by (auto simp: wpr_def split: prod.splits outcome.splits)
  have "wpr (retryPendingWrite cfg pending) (\<lambda>x s. under ?R ?A s \<and> (\<forall>why. x = Succeeded why \<longrightarrow> ?Rec (world s))) (\<lambda>_ _. False) s"
    unfolding retryPendingWrite_def wp_onError
    by (rule wpr_mono [OF attempt_records [OF s]], simp add: under_def recorded_accounted, rule failed)
  from wpr_run [OF this assms(3)] show ?thesis by (cases r) (auto simp: under_def accounted_def)
qed


subsection \<open>Inputs that were sent stay locked\<close>

definition lockedAway :: "string \<times> nat \<Rightarrow> UTXORecord list \<Rightarrow> bool" where
  "lockedAway k rows \<longleftrightarrow> (\<forall>r\<in>set rows. keyOfRow r = k \<longrightarrow> is_locked r)"

text \<open>What this argument looks at.\<close>

type_synonym lock_view = "UTXORecord list \<times> Transaction list \<times> (Transaction list \<Rightarrow> Transaction \<Rightarrow> BroadcastOutcome) \<times> string"

definition lockView :: "'z WriterWorld_scheme \<Rightarrow> lock_view" where
  "lockView w = (pool (rw_utxos w), tw_sent w, tw_answer w, ww_error w)"

text \<open>The others neither free a held output nor bring an output back that was sent, and no exception reads like a
  refusal of the writer itself.\<close>

definition leavesLocks :: "'z WriterWorld_scheme \<Rightarrow> 'z WriterWorld_scheme \<Rightarrow> bool" where
  "leavesLocks w w' \<longleftrightarrow>
     tw_sent w' = tw_sent w \<and> tw_answer w' = tw_answer w
   \<and> (isUnsentBroadcastError (ww_error w') \<longrightarrow> isUnsentBroadcastError (ww_error w))
   \<and> (\<forall>k. held k (pool (rw_utxos w)) \<and> lockedAway k (pool (rw_utxos w)) \<longrightarrow>
          held k (pool (rw_utxos w')) \<and> lockedAway k (pool (rw_utxos w')))
   \<and> (\<forall>t\<in>set (tw_sent w). \<forall>i\<in>set (tx_inputs t). lockedAway (in_txid i, in_vout i) (pool (rw_utxos w)) \<longrightarrow>
          lockedAway (in_txid i, in_vout i) (pool (rw_utxos w')))"

text \<open>Nothing sent yet; the output \<open>u\<close> held for it; and the transaction that spends it sent.\<close>

fun unsentYet :: "Transaction list \<Rightarrow> (Transaction list \<Rightarrow> Transaction \<Rightarrow> BroadcastOutcome) \<Rightarrow> lock_view \<Rightarrow> bool" where
  "unsentYet ts ans (rows, sent, a, err) \<longleftrightarrow> sent = ts \<and> a = ans \<and> \<not> isUnsentBroadcastError err"

fun holding :: "Transaction list \<Rightarrow> (Transaction list \<Rightarrow> Transaction \<Rightarrow> BroadcastOutcome) \<Rightarrow> UTXORecord \<Rightarrow> lock_view \<Rightarrow> bool" where
  "holding ts ans u (rows, sent, a, err) \<longleftrightarrow>
     unsentYet ts ans (rows, sent, a, err) \<and> held (keyOfRow u) rows \<and> lockedAway (keyOfRow u) rows"

fun sentLocked ::
  "Transaction list \<Rightarrow> (Transaction list \<Rightarrow> Transaction \<Rightarrow> BroadcastOutcome) \<Rightarrow> Transaction \<Rightarrow> UTXORecord \<Rightarrow> lock_view \<Rightarrow> bool" where
  "sentLocked ts ans tx u (rows, sent, a, err) \<longleftrightarrow>
     sent = ts @ [tx] \<and> tx_inputs tx = [inputOf u] \<and> a = ans \<and> \<not> isUnsentBroadcastError err \<and> lockedAway (keyOfRow u) rows"

definition settled :: "Transaction list \<Rightarrow> (Transaction list \<Rightarrow> Transaction \<Rightarrow> BroadcastOutcome) \<Rightarrow> lock_view \<Rightarrow> bool" where
  "settled ts ans v \<longleftrightarrow> unsentYet ts ans v \<or> (\<exists>tx u. sentLocked ts ans tx u v)"

lemma inputOf_key: "(in_txid (inputOf u), in_vout (inputOf u)) = keyOfRow u"
  by (simp add: inputOf_def keyOfRow_def)

lemma sent_stays:
  assumes "leavesLocks w w'" "sentLocked ts ans tx u (lockView w)"
  shows "sentLocked ts ans tx u (lockView w')"
proof -
  have t: "tw_sent w = ts @ [tx]" "tx_inputs tx = [inputOf u]" using assms(2) by (auto simp: lockView_def)
  have "lockedAway (keyOfRow u) (pool (rw_utxos w'))"
    using assms t inputOf_key [of u] unfolding leavesLocks_def lockView_def by fastforce
  then show ?thesis using assms t by (auto simp: leavesLocks_def lockView_def)
qed

lemma locks_stable:
  shows "stableUnder leavesLocks (\<lambda>w. unsentYet ts ans (lockView w))"
    and "stableUnder leavesLocks (\<lambda>w. holding ts ans u (lockView w))"
    and "stableUnder leavesLocks (\<lambda>w. sentLocked ts ans tx u (lockView w))"
proof -
  show "stableUnder leavesLocks (\<lambda>w. unsentYet ts ans (lockView w))"
    by (auto simp: stableUnder_def leavesLocks_def lockView_def)
  show "stableUnder leavesLocks (\<lambda>w. holding ts ans u (lockView w))"
    by (cases "keyOfRow u") (auto simp: stableUnder_def leavesLocks_def lockView_def)
  show "stableUnder leavesLocks (\<lambda>w. sentLocked ts ans tx u (lockView w))"
    using sent_stays by (auto simp only: stableUnder_def)
qed

lemma settled_stable: "stableUnder leavesLocks (\<lambda>w. settled ts ans (lockView w))"
  using locks_stable by (fastforce simp: stableUnder_def settled_def)

lemma lockView_calls [simp]:
  "lockView (snd (onStore f w)) = lockView w" "lockView (askRefill cfg icao w) = lockView w"
  "lockView (snd (onUtxos (\<lambda>now. checkBalance now icao) w)) = lockView w"
  by (simp_all add: lockView_def onStore_def askRefill_def onUtxos_def checkBalance_def pruneExpiredCooldowns_def Let_def
      split: prod.split)

lemma lock_await:
  "stableUnder R (\<lambda>w. q (lockView w)) \<Longrightarrow> (\<And>w. lockView (snd (f w)) = lockView w) \<Longrightarrow>
     keeps R (\<lambda>w. q (lockView w)) (await e f)"
  by (rule keeps_await) simp_all

lemma lock_alter: "(\<And>w. lockView (f w) = lockView w) \<Longrightarrow> keeps R (\<lambda>w. q (lockView w)) (alter f)"
  by (rule keeps_alter) simp

lemma lock_noteUtxos:
  "(\<And>now m. pool (f now m) = pool m) \<Longrightarrow> keeps R (\<lambda>w. q (lockView w)) (noteUtxos f)"
  unfolding noteUtxos_def by (rule lock_alter) (simp add: lockView_def)

lemma lock_calls:
  assumes "stableUnder R (\<lambda>w. q (lockView w))"
  shows "keeps R (\<lambda>w. q (lockView w)) (callInsertTxResult x)"
    and "keeps R (\<lambda>w. q (lockView w)) (callDeletePending n)"
    and "keeps R (\<lambda>w. q (lockView w)) (callPublish x)"
    and "keeps R (\<lambda>w. q (lockView w)) (callRequestRefill rc icao)"
    and "keeps R (\<lambda>w. q (lockView w)) (callRequestRefillIfPoolLow rc icao ps)"
    and "keeps R (\<lambda>w. q (lockView w)) (callNoteRetryPressure rc icao)"
    and "keeps R (\<lambda>w. q (lockView w)) (noteGovernor g)"
    and "keeps R (\<lambda>w. q (lockView w)) (inBackground b)"
    and "keeps R (\<lambda>w. q (lockView w)) (await e (onStore f))"
    and "keeps R (\<lambda>w. q (lockView w)) (await e (\<lambda>w. (v w, w)))"
proof -
  note aw = lock_await [OF assms] and st = lock_alter [of _ R q]
  show "keeps R (\<lambda>w. q (lockView w)) (await e (onStore f))" by (rule aw) simp
  show "keeps R (\<lambda>w. q (lockView w)) (callInsertTxResult x)" unfolding callInsertTxResult_def by (intro keeps_calls aw) simp
  show "keeps R (\<lambda>w. q (lockView w)) (callDeletePending n)" unfolding callDeletePending_def by (intro keeps_calls aw) simp
  show "keeps R (\<lambda>w. q (lockView w)) (callPublish x)" unfolding callPublish_def by (intro keeps_calls aw) (simp add: lockView_def)
  show "keeps R (\<lambda>w. q (lockView w)) (callRequestRefill rc icao)" unfolding callRequestRefill_def by (rule st) simp
  show "keeps R (\<lambda>w. q (lockView w)) (callRequestRefillIfPoolLow rc icao ps)"
    unfolding callRequestRefillIfPoolLow_def by (rule st) simp
  show "keeps R (\<lambda>w. q (lockView w)) (callNoteRetryPressure rc icao)"
    unfolding callNoteRetryPressure_def by (rule st) (simp add: lockView_def)
  show "keeps R (\<lambda>w. q (lockView w)) (noteGovernor g)" unfolding noteGovernor_def by (rule st) (simp add: lockView_def)
  show "keeps R (\<lambda>w. q (lockView w)) (inBackground b)" unfolding inBackground_def by (rule st) (simp add: lockView_def)
  show "keeps R (\<lambda>w. q (lockView w)) (await e (\<lambda>w. (v w, w)))" by (rule aw) simp
qed

lemma lockedAway_delete: "lockedAway k rows \<Longrightarrow> lockedAway k (deleteRows t v rows)"
  by (auto simp: lockedAway_def deleteRows_def)

lemma spendRows_locks:
  assumes "spendRows now u t c icao m = Some m'" "t \<noteq> txid u" "lockedAway (keyOfRow u) (pool m)"
  shows "lockedAway (keyOfRow u) (pool m')"
  using assms
  by (auto simp: spendRows_def recordSpend_def lockedAway_def keyOfRow_def Let_def deleteRows_def refreshMetrics_prunes
      pruneExpiredCooldowns_def setUtxoCooldown_def clearUtxoCooldown_def split: option.splits if_splits)

lemma notes_pool [simp]: "pool (spendNotes now cool u t c m) = pool m" "pool (delaySpendRetries now t' v ms m) = pool m"
  "pool (clearUtxoCooldown t' v m) = pool m" "pool (pruneExpiredCooldowns now m) = pool m"
  by (simp_all add: spendNotes_def delaySpendRetries_def setUtxoCooldown_def clearUtxoCooldown_def pruneExpiredCooldowns_def Let_def)

text \<open>A job that keeps \<open>P\<close> and whose exceptions do not read like a refusal.\<close>

definition speaksFor :: "('z WriterWorld_scheme \<Rightarrow> 'z WriterWorld_scheme \<Rightarrow> bool) \<Rightarrow> ('z WriterWorld_scheme \<Rightarrow> bool)
    \<Rightarrow> ('z, failure, 'a) writer_job \<Rightarrow> bool" where
  "speaksFor R P m \<longleftrightarrow> (\<forall>s. under R P s \<longrightarrow>
     wpr m (\<lambda>_. under R P) (\<lambda>f s'. under R P s' \<and> (\<forall>icao. \<not> isUnsentBroadcastError (messageOf icao f))) s)"

lemma speaks_calling:
  assumes "keeps R P m" "\<And>w. P w \<Longrightarrow> \<not> isUnsentBroadcastError (ww_error w)"
  shows "speaksFor R P (calling m)"
  unfolding speaksFor_def calling_def wp_onError
proof (intro allI impI)
  fix s assume "under R P s"
  from keepsD [OF assms(1) this]
  show "wpr m (\<lambda>_. under R P) (\<lambda>e. wpr (andThen (peek ww_error) (\<lambda>txt. raise (Message txt))) (\<lambda>_. under R P)
      (\<lambda>f s'. under R P s' \<and> (\<forall>icao. \<not> isUnsentBroadcastError (messageOf icao f)))) s"
    by (rule wpr_mono) (auto simp: wp_andThen wp_peek_eq wp_raise messageOf_def under_def dest: assms(2))
qed

lemma speaks_andThen:
  assumes "speaksFor R P m" "\<And>x. speaksFor R P (k x)"
  shows "speaksFor R P (andThen m k)"
  unfolding speaksFor_def wp_andThen
proof (intro allI impI)
  fix s assume "under R P s"
  then have "wpr m (\<lambda>_. under R P) (\<lambda>f s'. under R P s' \<and> (\<forall>icao. \<not> isUnsentBroadcastError (messageOf icao f))) s"
    using assms(1) by (simp add: speaksFor_def)
  then show "wpr m (\<lambda>x. wpr (k x) (\<lambda>_. under R P) (\<lambda>f s'. under R P s' \<and> (\<forall>icao. \<not> isUnsentBroadcastError (messageOf icao f))))
      (\<lambda>f s'. under R P s' \<and> (\<forall>icao. \<not> isUnsentBroadcastError (messageOf icao f))) s"
    by (rule wpr_mono) (use assms(2) in \<open>auto simp: speaksFor_def\<close>)
qed

lemma speaks_error:
  assumes "\<And>w. P w \<Longrightarrow> \<not> isUnsentBroadcastError (ww_error w)"
  shows "speaksFor R P (andThen (peek ww_error) (\<lambda>txt. raise (Message txt)))"
  using assms by (simp add: speaksFor_def wp_andThen wp_peek_eq wp_raise messageOf_def under_def)

lemma speaks_ret: "speaksFor R P (ret x)"
  by (simp add: speaksFor_def wp_ret)

lemma speaks_if: "speaksFor R P m \<Longrightarrow> speaksFor R P k \<Longrightarrow> speaksFor R P (if b then m else k)"
  by simp

lemma speaks_noteUtxos: "keeps R P (noteUtxos f :: ('z, failure, unit) writer_job) \<Longrightarrow> speaksFor R P (noteUtxos f)"
  by (simp add: speaksFor_def keeps_def noteUtxos_def alter_def wp_modify)

abbreviation sentSafe where
  "sentSafe ts ans tx u w \<equiv> sentLocked ts ans tx u (lockView w)"

lemma sentSafe_quiet: "sentSafe ts ans tx u w \<Longrightarrow> \<not> isUnsentBroadcastError (ww_error w)"
  by (simp add: lockView_def)

lemma recordSpend_speaks:
  assumes "t \<noteq> txid u"
  shows "speaksFor leavesLocks (sentSafe ts ans tx u) (callRecordSpend cfg u t c icao)"
proof -
  let ?f = "\<lambda>now m. case spendRows now u t c icao m of None \<Rightarrow> (False, m) | Some m' \<Rightarrow> (True, m')"
  have step: "sentSafe ts ans tx u (snd (onUtxos ?f w))" if "sentSafe ts ans tx u w" for w :: "'z WriterWorld_scheme"
  proof (cases "spendRows (tw_clock w) u t c icao (rw_utxos w)")
    case None
    then show ?thesis using that by (simp add: onUtxos_def)
  next
    case (Some m')
    then show ?thesis using that spendRows_locks [OF Some assms] by (simp add: onUtxos_def lockView_def)
  qed
  show ?thesis
    unfolding callRecordSpend_def
    by (intro speaks_andThen speaks_calling speaks_if speaks_error speaks_noteUtxos keeps_await lock_noteUtxos
        lock_await [where q = "sentLocked ts ans tx u"] locks_stable)
       (use step sentSafe_quiet in \<open>simp_all\<close>)
qed

text \<open>What holds when the handler of the attempt takes over.\<close>

definition handled ::
  "Transaction list \<Rightarrow> (Transaction list \<Rightarrow> Transaction \<Rightarrow> BroadcastOutcome) \<Rightarrow> string \<Rightarrow> Attempt \<times> failure \<Rightarrow> lock_view \<Rightarrow> bool" where
  "handled ts ans icao e v \<longleftrightarrow>
     unsentYet ts ans v
   \<or> (\<exists>tx u. sentLocked ts ans tx u v \<and> (at_input (fst e) = None
          \<or> at_broadcast (fst e) \<and> \<not> isUnsentBroadcastError (messageOf icao (snd e))))"

lemma speaks_during:
  assumes "speaksFor leavesLocks (sentSafe ts ans tx u) m" "under leavesLocks (sentSafe ts ans tx u) s"
    and "at_input a = None \<or> at_broadcast a"
  shows "wpr (during a m) (\<lambda>_. under leavesLocks (sentSafe ts ans tx u))
     (\<lambda>e. under leavesLocks (\<lambda>w. handled ts ans icao e (lockView w))) s"
proof -
  have "wpr m (\<lambda>_. under leavesLocks (sentSafe ts ans tx u))
      (\<lambda>f s'. under leavesLocks (sentSafe ts ans tx u) s' \<and> (\<forall>icao. \<not> isUnsentBroadcastError (messageOf icao f))) s"
    using assms(1,2) by (simp add: speaksFor_def)
  then show ?thesis
    unfolding during_def wp_onError
    by (rule wpr_mono) (use assms(3) in \<open>auto simp: wp_raise under_def handled_def\<close>)
qed

lemma speaks_insert: "speaksFor leavesLocks (sentSafe ts ans tx u) (callInsertTxResult x)"
  unfolding callInsertTxResult_def
  by (intro speaks_andThen speaks_calling speaks_if speaks_error speaks_ret lock_calls(9) [where q = "sentLocked ts ans tx u"]
      locks_stable) (simp_all add: sentSafe_quiet)

lemma speaks_delete: "speaksFor leavesLocks (sentSafe ts ans tx u) (callDeletePending n)"
  unfolding callDeletePending_def
  by (intro speaks_andThen speaks_calling speaks_ret lock_calls(9) [where q = "sentLocked ts ans tx u"]
      locks_stable) (simp_all add: sentSafe_quiet)

text \<open>A step that cannot raise.\<close>

lemma quiet_then:
  assumes "keeps R P m" "\<And>s. wpr m (\<lambda>_ _. True) (\<lambda>_ _. False) s" "under R P s"
    and "\<And>s'. under R P s' \<Longrightarrow> wpr (k ()) Q E s'"
  shows "wpr (andThen m k) Q E s"
proof -
  have "wpr m (\<lambda>_. under R P) E s"
    using keepsD [OF assms(1,3)] assms(2) [of s] by (auto simp: wpr_def split: prod.splits outcome.splits)
  then show ?thesis by (rule wpr_then) (use assms(4) in auto)
qed

lemmas quiet_sent = quiet_then [where R = leavesLocks and P = "sentSafe ts ans tx u" for ts ans tx u]

lemma quiet_steps:
  "wpr (callRequestRefillIfPoolLow rc icao ps) (\<lambda>_ _. True) (\<lambda>_ _. False) s"
  "wpr (callNoteRetryPressure rc icao) (\<lambda>_ _. True) (\<lambda>_ _. False) s"
  "wpr (noteGovernor g) (\<lambda>_ _. True) (\<lambda>_ _. False) s"
  "wpr (noteUtxos f) (\<lambda>_ _. True) (\<lambda>_ _. False) s"
  "wpr (inBackground b) (\<lambda>_ _. True) (\<lambda>_ _. False) s"
  "wpr (callPublish x) (\<lambda>_ _. True) (\<lambda>_ _. False) s"
  "wpr (callDeleteStaleUtxo u) (\<lambda>_ _. True) (\<lambda>_ _. False) s"
  unfolding callRequestRefillIfPoolLow_def callNoteRetryPressure_def noteGovernor_def noteUtxos_def inBackground_def
    callPublish_def callDeleteStaleUtxo_def
  by (rule alter_ends swallowing_ends)+

lemma accepted_locks:
  assumes "under leavesLocks (sentSafe ts ans tx u) s" "t \<noteq> txid u"
  shows "wpr (retryAccepted cfg r u built t) (\<lambda>_. under leavesLocks (sentSafe ts ans tx u))
     (\<lambda>e. under leavesLocks (\<lambda>w. handled ts ans icao e (lockView w))) s"
  unfolding retryAccepted_def Let_def
  by (intro wpr_then [OF speaks_during] recordSpend_speaks quiet_sent [OF lock_calls(5) quiet_steps(1)]
      quiet_sent [OF lock_calls(7) quiet_steps(3)] wpr_peek_then speaks_insert speaks_delete
      quiet_sent [OF lock_calls(3) quiet_steps(6)] locks_stable)
     (use assms in \<open>simp_all add: wp_ret recordSpend_speaks\<close>)

lemma optimistic_locks:
  assumes "under leavesLocks (sentSafe ts ans tx u) s" "wc_computeTxid cfg (br_tx built) \<noteq> txid u"
  shows "wpr (retryOptimistic cfg r u built result) (\<lambda>_. under leavesLocks (sentSafe ts ans tx u))
     (\<lambda>e. under leavesLocks (\<lambda>w. handled ts ans icao e (lockView w))) s"
  unfolding retryOptimistic_def Let_def
  by (intro wpr_then [OF speaks_during] recordSpend_speaks quiet_sent [OF lock_calls(5) quiet_steps(1)]
      quiet_sent [OF lock_calls(6) quiet_steps(2)]
      quiet_sent [OF lock_calls(7) quiet_steps(3)] wpr_peek_then speaks_insert speaks_delete
      quiet_sent [OF lock_calls(3) quiet_steps(6)] locks_stable)
     (use assms in \<open>simp_all add: wp_ret recordSpend_speaks\<close>)

text \<open>A refusal of the writer itself leaves everything unsent; after any other failure the transaction counts as sent.\<close>

lemma refused_locks:
  assumes "if isLocalBackpressureBroadcastFailure result then under leavesLocks (\<lambda>w. unsentYet ts ans (lockView w)) s
      else under leavesLocks (sentSafe ts ans tx u) s"
    and "isTransientBroadcastFailure result \<Longrightarrow> \<not> isUnsentBroadcastError (transientMessage result)"
  shows "wpr (retryRefused r u result) (\<lambda>_ _. False)
     (\<lambda>e. under leavesLocks (\<lambda>w. handled ts ans icao e (lockView w))) s"
proof (cases "isLocalBackpressureBroadcastFailure result")
  case True
  then show ?thesis using assms(1) by (simp add: retryRefused_def Let_def wp_raise under_def handled_def)
next
  case False
  then have s: "under leavesLocks (sentSafe ts ans tx u) s" using assms(1) by simp
  have delay: "keeps leavesLocks (sentSafe ts ans tx u) (noteUtxos (\<lambda>now. delaySpendRetries now (txid u) (vout u) ms))" for ms
    by (rule lock_noteUtxos) simp
  have stale: "keeps leavesLocks (sentSafe ts ans tx u) (callDeleteStaleUtxo u)"
    unfolding callDeleteStaleUtxo_def
    by (intro keeps_calls keeps_await lock_noteUtxos locks_stable)
       (auto simp: toUtxos_def lockView_def lockedAway_delete)
  show ?thesis
    unfolding retryRefused_def Let_def if_not_P [OF False]
    by (cases "isTransientBroadcastFailure result"; simp)
       (intro quiet_sent [OF delay quiet_steps(4) s] quiet_sent [OF lock_calls(8) quiet_steps(5)] locks_stable
          quiet_sent [OF stale quiet_steps(7) s];
        use assms(2) in \<open>simp add: wp_raise under_def handled_def messageOf_def; blast\<close>)+
qed

text \<open>The input of the transaction that was sent is still there, locked.\<close>

abbreviation heldSent where
  "heldSent ts ans tx u w \<equiv> sentSafe ts ans tx u w \<and> held (keyOfRow u) (pool (rw_utxos w))"

lemma held_stable: "stableUnder leavesLocks (\<lambda>w. heldSent ts ans tx u w)"
proof -
  have "heldSent ts ans tx u w'" if "leavesLocks w w'" "heldSent ts ans tx u w" for w w' :: "'z WriterWorld_scheme"
  proof -
    have "sentSafe ts ans tx u w'" using sent_stays that by blast
    moreover have "held (keyOfRow u) (pool (rw_utxos w'))"
      using that by (cases "keyOfRow u") (auto simp: leavesLocks_def lockView_def)
    ultimately show ?thesis by simp
  qed
  then show ?thesis by (auto simp only: stableUnder_def)
qed

lemma send_holds:
  fixes s :: "'z WriterWorld_scheme System"
  assumes "under leavesLocks (\<lambda>w. holding ts ans u (lockView w)) s" "tx_inputs t = [inputOf u]"
  shows "wpr (calling (await () (sendTx t)))
     (\<lambda>result s'. result = ans ts t
        \<and> (if isLocalBackpressureBroadcastFailure result then under leavesLocks (\<lambda>w. unsentYet ts ans (lockView w)) s'
           else under leavesLocks (\<lambda>w. heldSent ts ans t u w) s'))
     (\<lambda>f. under leavesLocks (\<lambda>w. (unsentYet ts ans (lockView w) \<or> heldSent ts ans t u w)
        \<and> (\<forall>icao. \<not> isUnsentBroadcastError (messageOf icao f)))) s"
proof -
  let ?Q = "\<lambda>result w. result = ans ts t
     \<and> (if isLocalBackpressureBroadcastFailure (ans ts t) then unsentYet ts ans (lockView w) else heldSent ts ans t u w)"
  let ?E = "\<lambda>w :: 'z WriterWorld_scheme. unsentYet ts ans (lockView w) \<or> heldSent ts ans t u w"
  have "wpr (await () (sendTx t)) (\<lambda>x. under leavesLocks (?Q x)) (\<lambda>e. under leavesLocks (\<lambda>w. e = () \<and> ?E w)) s"
  proof (rule wp_await [OF assms(1) locks_stable(2)])
    show "stableUnder leavesLocks (?Q x)" for x
      by (intro stableUnder_conj stableUnder_const)
         (cases "isLocalBackpressureBroadcastFailure (ans ts t)"; simp only: if_True if_False locks_stable held_stable)
    show "stableUnder leavesLocks ?E"
      using locks_stable(1) [of ts ans] held_stable [of ts ans t u] unfolding stableUnder_def by blast
    show "?Q x w'" if "holding ts ans u (lockView w)" "sendTx t w = (x, w')" for w w' :: "'z WriterWorld_scheme" and x
      using that assms(2) by (auto simp: sendTx_def lockView_def Let_def)
    show "?E w" if "holding ts ans u (lockView w)" for w :: "'z WriterWorld_scheme" using that by (simp add: lockView_def)
    show "?E w" if "?Q x w" for x and w :: "'z WriterWorld_scheme" using that by (auto split: if_splits)
  qed
  then show ?thesis
    unfolding calling_def wp_onError
    by (rule wpr_mono)
       (auto simp: wp_andThen wp_peek_eq wp_raise under_def messageOf_def lockView_def split: if_splits)
qed

text \<open>The broadcast itself.\<close>

lemma send_locks:
  fixes s :: "'z WriterWorld_scheme System"
  assumes "under leavesLocks (\<lambda>w. holding ts ans u (lockView w)) s" "tx_inputs t = [inputOf u]"
  shows "wpr (during \<lparr> at_input = Some u, at_broadcast = True \<rparr> (calling (await () (sendTx t))))
     (\<lambda>result s'. result = ans ts t
        \<and> (if isLocalBackpressureBroadcastFailure result then under leavesLocks (\<lambda>w. unsentYet ts ans (lockView w)) s'
           else under leavesLocks (sentSafe ts ans t u) s'))
     (\<lambda>e. under leavesLocks (\<lambda>w. handled ts ans icao e (lockView w))) s"
  unfolding during_def wp_onError
  by (rule wpr_mono [OF send_holds [OF assms]]) (auto simp: wp_raise under_def handled_def)

lemma acquire_locks:
  fixes s :: "'z WriterWorld_scheme System"
  assumes "under leavesLocks (\<lambda>w. unsentYet ts ans (lockView w)) s"
  shows "wpr (acquireTries icao reserve maxDepth n) (\<lambda>u. under leavesLocks (\<lambda>w. holding ts ans u (lockView w)))
     (\<lambda>_. under leavesLocks (\<lambda>w. unsentYet ts ans (lockView w))) s"
  using assms
proof (induction n arbitrary: s)
  case (Suc n)
  let ?P = "\<lambda>w :: 'z WriterWorld_scheme. unsentYet ts ans (lockView w)"
  have lock: "wpr (calling (await () (onUtxos (\<lambda>now. lockRow now ready))))
      (\<lambda>locked. under leavesLocks (\<lambda>w. if locked > 0 then holding ts ans ready (lockView w) else ?P w)) (\<lambda>_. under leavesLocks ?P) s1"
    if "under leavesLocks ?P s1" for ready and s1 :: "'z WriterWorld_scheme System"
  proof -
    let ?Q = "\<lambda>locked w. if (locked :: nat) > 0 then holding ts ans ready (lockView w) else ?P w"
    have "wpr (await () (onUtxos (\<lambda>now. lockRow now ready))) (\<lambda>x. under leavesLocks (?Q x)) (\<lambda>e. under leavesLocks (\<lambda>w. e = () \<and> ?P w)) s1"
    proof (rule wp_await [OF that locks_stable(1) _ locks_stable(1)])
      show "stableUnder leavesLocks (?Q x)" for x by (cases "x > 0") (simp_all add: locks_stable)
      show "?Q x w'" if "?P w" "onUtxos (\<lambda>now. lockRow now ready) w = (x, w')" for w w' :: "'z WriterWorld_scheme" and x
      proof -
        have w': "x = fst (lockRow (tw_clock w) ready (rw_utxos w))" "w' = w\<lparr>rw_utxos := snd (lockRow (tw_clock w) ready (rw_utxos w))\<rparr>"
          using that(2) by (auto simp: onUtxos_def split: prod.splits)
        have "lockedAway (keyOfRow ready) (pool (snd (lockRow (tw_clock w) ready (rw_utxos w))))"
          by (auto simp: lockRow_pool updateWhere_def lockedAway_def keyOfRow_def split: if_splits)
        moreover have "held (keyOfRow ready) (pool (snd (lockRow (tw_clock w) ready (rw_utxos w))))" if "x > 0"
          using that unfolding w'(1) by (rule lockRow_holds)
        ultimately show ?thesis using that(1) w' by (auto simp: lockView_def)
      qed
      show "?P w" if "?Q x w" for x and w :: "'z WriterWorld_scheme" using that by (cases "lockView w") (auto split: if_splits)
    qed simp
    then show ?thesis
      unfolding calling_def wp_onError by (rule wpr_mono) (auto simp: wp_andThen wp_peek_eq wp_raise under_def)
  qed
  show ?case
    unfolding acquireTries.simps
  proof (rule wpr_keeps_then [OF keeps_calling [OF lock_calls(10) [where q = "unsentYet ts ans"]] Suc.prems])
    fix x and s1 :: "'z WriterWorld_scheme System" assume s1: "under leavesLocks ?P s1"
    show "wpr (case x of Inl e \<Rightarrow> raise (NoOutput e)
        | Inr ready \<Rightarrow> andThen (calling (await () (onUtxos (\<lambda>now. lockRow now ready)))) (\<lambda>locked.
                     if locked > 0 then ret ready else acquireTries icao reserve maxDepth n))
        (\<lambda>u. under leavesLocks (\<lambda>w. holding ts ans u (lockView w))) (\<lambda>_. under leavesLocks ?P) s1"
    proof (cases x)
      case (Inl e)
      then show ?thesis using s1 by (simp add: wp_raise)
    next
      case (Inr ready)
      show ?thesis
        unfolding Inr sum.case
        by (rule wpr_then [OF lock [OF s1]]) (use Suc.IH in \<open>auto simp: wp_ret\<close>)
    qed
  qed (rule locks_stable)
qed (simp add: wp_raise)

lemma raw_inputs: "buildRawOpReturnTx lock u icao now recordType payload = Inr built \<Longrightarrow> tx_inputs (br_tx built) = [inputOf u]"
  by (auto simp: buildRawOpReturnTx_def buildEnvelopeTx_def buildOpReturnTx_def Let_def addInput_def addOutput_def
      newTransaction_def split: sum.splits if_splits)

lemma acquire_call_locks:
  assumes "under leavesLocks (\<lambda>w. unsentYet ts ans (lockView w)) s"
  shows "wpr (callAcquireUtxo icao reserve) (\<lambda>u. under leavesLocks (\<lambda>w. holding ts ans u (lockView w)))
     (\<lambda>_. under leavesLocks (\<lambda>w. unsentYet ts ans (lockView w))) s"
  unfolding callAcquireUtxo_def
  by (rule wpr_keeps_then [OF lock_noteUtxos [where q = "unsentYet ts ans"] assms], simp)
     (rule wpr_peek_then, rule acquire_locks)

definition txidsAreFresh :: "WriterConfig \<Rightarrow> (Transaction \<Rightarrow> BroadcastOutcome) \<Rightarrow> bool" where
  "txidsAreFresh cfg answer \<longleftrightarrow>
     (\<forall>t. \<forall>i\<in>set (tx_inputs t). bo_txid (answer t) \<noteq> in_txid i \<and> wc_computeTxid cfg t \<noteq> in_txid i)"

definition transientTextsDiffer :: "(Transaction \<Rightarrow> BroadcastOutcome) \<Rightarrow> bool" where
  "transientTextsDiffer answer \<longleftrightarrow>
     (\<forall>t. isTransientBroadcastFailure (answer t) \<longrightarrow> \<not> isUnsentBroadcastError (transientMessage (answer t)))"

lemma sent_settles: "under leavesLocks (sentSafe ts ans tx u) s \<Longrightarrow> under leavesLocks (\<lambda>w. settled ts ans (lockView w)) s"
  by (auto simp: under_def settled_def)

lemma broadcast_locks:
  fixes s :: "'z WriterWorld_scheme System"
  assumes s: "under leavesLocks (\<lambda>w. holding ts ans u (lockView w)) s"
    and b: "tx_inputs (br_tx built) = [inputOf u]" and h: "txidsAreFresh cfg (ans ts)" "transientTextsDiffer (ans ts)"
  shows "wpr (andThen (during \<lparr> at_input = Some u, at_broadcast = True \<rparr> (calling (await () (sendTx (br_tx built))))) (\<lambda>result.
        if bo_status result = FAILED then
          if isDependencyPendingBroadcastFailure result \<and> \<not> wc_hasSeenOnNetworkGate cfg
          then retryOptimistic cfg r u built result else retryRefused r u result
        else retryAccepted cfg r u built (bo_txid result))) (\<lambda>_. under leavesLocks (\<lambda>w. settled ts ans (lockView w)))
     (\<lambda>e. under leavesLocks (\<lambda>w. handled ts ans icao e (lockView w))) s"
proof (rule wpr_then [OF send_locks [OF s b]])
  fix result and s1 :: "'z WriterWorld_scheme System"
  assume a: "result = ans ts (br_tx built)
        \<and> (if isLocalBackpressureBroadcastFailure result then under leavesLocks (\<lambda>w. unsentYet ts ans (lockView w)) s1
           else under leavesLocks (sentSafe ts ans (br_tx built) u) s1)"
  have fresh: "bo_txid result \<noteq> txid u" "wc_computeTxid cfg (br_tx built) \<noteq> txid u"
    using bspec [OF spec [OF h(1) [unfolded txidsAreFresh_def], of "br_tx built"], of "inputOf u"] b a
    by (simp_all add: inputOf_def)
  have refused: "wpr (retryRefused r u result) (\<lambda>_ _. False) (\<lambda>e. under leavesLocks (\<lambda>w. handled ts ans icao e (lockView w))) s1"
    by (rule refused_locks) (use a h(2) in \<open>auto simp: transientTextsDiffer_def\<close>)
  have sent: "under leavesLocks (sentSafe ts ans (br_tx built) u) s1" if "\<not> isLocalBackpressureBroadcastFailure result" using a that by simp
  have dep: "\<not> isLocalBackpressureBroadcastFailure result" if "isDependencyPendingBroadcastFailure result"
    using failure_classes_disjoint(1) [OF that] .
  have ok: "\<not> isLocalBackpressureBroadcastFailure result" if "bo_status result \<noteq> FAILED"
    using that by (simp add: isLocalBackpressureBroadcastFailure_def)
  show "wpr (if bo_status result = FAILED then
          if isDependencyPendingBroadcastFailure result \<and> \<not> wc_hasSeenOnNetworkGate cfg
          then retryOptimistic cfg r u built result else retryRefused r u result
        else retryAccepted cfg r u built (bo_txid result)) (\<lambda>_. under leavesLocks (\<lambda>w. settled ts ans (lockView w)))
     (\<lambda>e. under leavesLocks (\<lambda>w. handled ts ans icao e (lockView w))) s1"
    using wpr_mono [OF refused] wpr_mono [OF optimistic_locks [OF sent [OF dep] fresh(2)]]
      wpr_mono [OF accepted_locks [OF sent [OF ok] fresh(1)]]
    by (auto simp: sent_settles)
qed

lemma attempt_locks:
  fixes s :: "'z WriterWorld_scheme System"
  assumes s: "under leavesLocks (\<lambda>w. unsentYet ts ans (lockView w)) s"
    and h: "txidsAreFresh cfg (ans ts)" "transientTextsDiffer (ans ts)"
  shows "wpr (retryAttempt cfg r) (\<lambda>_. under leavesLocks (\<lambda>w. settled ts ans (lockView w)))
     (\<lambda>e. under leavesLocks (\<lambda>w. handled ts ans icao e (lockView w))) s"
proof (cases "aircraftLock (wc_refill cfg) (pw_aircraft_icao r)")
  case None
  then show ?thesis using s by (simp add: retryAttempt_def wp_andThen wp_peek_eq wp_raise under_def handled_def)
next
  case (Some lock)
  let ?E = "\<lambda>e. under leavesLocks (\<lambda>w. handled ts ans icao e (lockView w))"
  have acquired: "wpr (during \<lparr> at_input = None, at_broadcast = False \<rparr> (callAcquireUtxo (pw_aircraft_icao r) reserve))
      (\<lambda>u. under leavesLocks (\<lambda>w. holding ts ans u (lockView w))) ?E s" for reserve
    unfolding during_def wp_onError
    by (rule wpr_mono [OF acquire_call_locks [OF s]]) (auto simp: wp_raise under_def handled_def)
  have build: "wpr (during \<lparr> at_input = Some u, at_broadcast = False \<rparr> (calling (await () (\<lambda>w. (x, w)))))
      (\<lambda>y s. under leavesLocks (\<lambda>w. holding ts ans u (lockView w)) s \<and> y = x) ?E s1"
    if "under leavesLocks (\<lambda>w. holding ts ans u (lockView w)) s1" for u s1 and x :: "build_error + BuildResult"
  proof -
    have "wpr (await () (\<lambda>w. (x, w))) (\<lambda>y. under leavesLocks (\<lambda>w. holding ts ans u (lockView w) \<and> y = x))
        (\<lambda>e. under leavesLocks (\<lambda>w. e = () \<and> holding ts ans u (lockView w))) s1"
      by (rule wp_await [OF that locks_stable(2) stableUnder_conj [OF locks_stable(2) stableUnder_const] locks_stable(2)]) auto
    then show ?thesis
      unfolding during_def calling_def wp_onError
      by (rule wpr_mono) (auto simp: wp_andThen wp_peek_eq wp_raise under_def handled_def lockView_def)
  qed
  show ?thesis
    unfolding retryAttempt_def Let_def Some option.case
  proof (intro wpr_peek_then wpr_then [OF acquired] wpr_peek_then)
    fix u and s1 :: "'z WriterWorld_scheme System" assume s1: "under leavesLocks (\<lambda>w. holding ts ans u (lockView w)) s1"
    let ?r = "buildRawOpReturnTx lock u (pw_aircraft_icao r) (tw_clock (world s1)) (pw_record_type r) (pw_payload r)"
    show "wpr (andThen (during \<lparr> at_input = Some u, at_broadcast = False \<rparr> (calling (await () (\<lambda>w. (?r, w))))) (\<lambda>x.
          case x of
            Inl _ \<Rightarrow> andThen (peek ww_error) (\<lambda>txt. raise (\<lparr> at_input = Some u, at_broadcast = False \<rparr>, Message txt))
          | Inr built \<Rightarrow> andThen (during \<lparr> at_input = Some u, at_broadcast = True \<rparr> (calling (await () (sendTx (br_tx built))))) (\<lambda>result.
              if bo_status result = FAILED then
                if isDependencyPendingBroadcastFailure result \<and> \<not> wc_hasSeenOnNetworkGate cfg
                then retryOptimistic cfg r u built result else retryRefused r u result
              else retryAccepted cfg r u built (bo_txid result))))
        (\<lambda>_. under leavesLocks (\<lambda>w. settled ts ans (lockView w))) ?E s1"
    proof (rule wpr_then [OF build [OF s1]])
      fix x and s2 :: "'z WriterWorld_scheme System" assume x: "under leavesLocks (\<lambda>w. holding ts ans u (lockView w)) s2 \<and> x = ?r"
      show "wpr (case x of
            Inl _ \<Rightarrow> andThen (peek ww_error) (\<lambda>txt. raise (\<lparr> at_input = Some u, at_broadcast = False \<rparr>, Message txt))
          | Inr built \<Rightarrow> andThen (during \<lparr> at_input = Some u, at_broadcast = True \<rparr> (calling (await () (sendTx (br_tx built))))) (\<lambda>result.
              if bo_status result = FAILED then
                if isDependencyPendingBroadcastFailure result \<and> \<not> wc_hasSeenOnNetworkGate cfg
                then retryOptimistic cfg r u built result else retryRefused r u result
              else retryAccepted cfg r u built (bo_txid result)))
        (\<lambda>_. under leavesLocks (\<lambda>w. settled ts ans (lockView w))) ?E s2"
      proof (cases x)
        case (Inl e)
        then show ?thesis using x by (auto simp: wp_andThen wp_peek_eq wp_raise under_def handled_def lockView_def)
      next
        case (Inr built)
        then have "tx_inputs (br_tx built) = [inputOf u]" using x raw_inputs by metis
        from broadcast_locks [OF conjunct1 [OF x] this h] show ?thesis using Inr by simp
      qed
    qed
  qed
qed

lemma failed_locks:
  fixes s :: "'z WriterWorld_scheme System"
  assumes "under leavesLocks (\<lambda>w. handled ts ans (pw_aircraft_icao r) e (lockView w)) s"
  shows "wpr (retryFailed cfg r e) (\<lambda>_. under leavesLocks (\<lambda>w. settled ts ans (lockView w))) (\<lambda>_ _. False) s"
proof -
  let ?S = "\<lambda>w :: 'z WriterWorld_scheme. settled ts ans (lockView w)"
  let ?msg = "messageOf (pw_aircraft_icao r) (snd e)"
  let ?settle = "case at_input (fst e) of None \<Rightarrow> ret ()
           | Some u \<Rightarrow> if \<not> at_broadcast (fst e) \<or> isUnsentBroadcastError ?msg then callReleaseUtxo u
                        else inBackground (Reconcile_aircraft (pw_aircraft_icao r))"
  have release: "keeps leavesLocks (\<lambda>w. unsentYet ts ans (lockView w)) (callReleaseUtxo u)" for u
    unfolding callReleaseUtxo_def by (intro keeps_calls keeps_await locks_stable) (auto simp: toUtxos_def lockView_def)
  have settle: "wpr ?settle (\<lambda>_. under leavesLocks ?S) (\<lambda>_. under leavesLocks ?S) s"
  proof (cases "unsentYet ts ans (lockView (world s))")
    case True
    have "keeps leavesLocks (\<lambda>w. unsentYet ts ans (lockView w)) ?settle"
      by (intro keeps_calls release lock_calls(8) locks_stable)
    from keepsD [OF this, of s] True assms show ?thesis
      by (auto simp: under_def settled_def elim!: wpr_mono)
  next
    case False
    then obtain tx u where u: "under leavesLocks (sentSafe ts ans tx u) s"
      and a: "at_input (fst e) = None \<or> at_broadcast (fst e) \<and> \<not> isUnsentBroadcastError ?msg"
      using assms by (auto simp: under_def handled_def)
    have "keeps leavesLocks (sentSafe ts ans tx u) ?settle"
      using a by (auto intro!: keeps_ret lock_calls(8) locks_stable split: option.split)
    from keepsD [OF this u] show ?thesis by (rule wpr_mono) (rule sent_settles, assumption)+
  qed
  have rest: "keeps leavesLocks ?S (andThen (onlyIf b (andThen (callNoteRetryPressure rc icao) (\<lambda>_. callRequestRefill rc icao))) (\<lambda>_.
         if c then andThen (swallowing (andThen (await () (onStore f)) (\<lambda>_. ret ()))) (\<lambda>_. ret x)
         else andThen (swallowing (andThen (await () (onStore g)) (\<lambda>_. ret ()))) (\<lambda>_. ret y)))" for b c rc icao x y
      and f g :: "millis \<Rightarrow> WriteStore \<Rightarrow> nat \<times> WriteStore"
    by (intro keeps_calls lock_calls settled_stable)
  have "wpr (retryFailed cfg r e) (\<lambda>_. under leavesLocks ?S) (\<lambda>_. under leavesLocks ?S) s"
    unfolding retryFailed_def Let_def by (rule wpr_then [OF settle], rule keepsD [OF rest])
  then show ?thesis using failed_ends [of cfg r e s] by (auto simp: wpr_def split: prod.splits outcome.splits)
qed



subsection \<open>The numbers of a group\<close>

definition countedFor :: "string \<Rightarrow> RetryGroupOutcome \<Rightarrow> nat" where
  "countedFor icao o1 =
     go_successCount o1 + go_deferredCount o1 + (case go_failedByIcao o1 icao of Some n \<Rightarrow> n | None \<Rightarrow> 0)"

lemma counted_outcome [simp]: "countedFor icao (fst (noteOutcome icao x st)) = countedFor icao (fst st) + 1"
  by (cases "(icao, x, st)" rule: noteOutcome.cases) (auto simp: countedFor_def noteDeferral_def bump_def Let_def)

lemma counted_deferral [simp]: "countedFor icao (noteDeferral icao o1) = countedFor icao o1 + 1"
  by (simp add: countedFor_def noteDeferral_def)

lemma retry_ends: "wpr (retryPendingWrite cfg r) (\<lambda>_ _. True) (\<lambda>_ _. False) s"
  unfolding retryPendingWrite_def wp_onError
  by (rule wpr_mono [OF wpr_true]) (auto intro: wpr_mono [OF failed_ends])

lemma writes_counted:
  fixes s :: "'z WriterWorld_scheme System"
  shows "wpr (retryWrites cfg icao rs st) (\<lambda>o1 _. countedFor icao o1 = countedFor icao (fst st) + length rs) (\<lambda>_ _. False) s"
proof (induction rs arbitrary: st s)
  case (Cons r rs)
  have step: "wpr (retryWrites cfg icao rs st') (\<lambda>o1 _. countedFor icao o1 = countedFor icao (fst st) + length (r # rs)) (\<lambda>_ _. False) s'"
    if "countedFor icao (fst st') = countedFor icao (fst st) + 1" for st' and s' :: "'z WriterWorld_scheme System"
  proof (rule wpr_mono [OF Cons.IH])
    show "countedFor icao o1 = countedFor icao (fst st) + length (r # rs)"
      if "countedFor icao o1 = countedFor icao (fst st') + length rs" for o1
      using that \<open>countedFor icao (fst st') = countedFor icao (fst st) + 1\<close> by simp
  qed
  show ?case
  proof (cases "snd st")
    case None
    then show ?thesis unfolding retryWrites.simps None option.case by (intro wpr_ends [OF retry_ends] step) simp
  next
    case (Some why)
    then show ?thesis unfolding retryWrites.simps Some option.case by (intro wpr_ends [OF swallowing_ends] step) simp
  qed
qed (simp add: wp_ret)

lemma wpr_if: "wpr m Q E s \<Longrightarrow> wpr k Q E s \<Longrightarrow> wpr (if b then m else k) Q E s"
  by simp

text \<open>The retry of the writes of an aircraft ends without an exception, and every write is counted once.\<close>

lemma group_counted:
  assumes "retryAircraftWrites cfg writes s = (r, s')" "writes = first # rest" "pw_aircraft_icao first \<noteq> []"
  shows "\<exists>o1. r = Returned o1 \<and> countedFor (pw_aircraft_icao first) o1 = length writes"
proof -
  let ?icao = "pw_aircraft_icao first"
  have none: "countedFor ?icao noOutcome = 0" by (simp add: countedFor_def noOutcome_def)
  have all: "countedFor ?icao (allDeferred ?icao n) = n" for n by (simp add: countedFor_def allDeferred_def noOutcome_def)
  have some: "wpr (retryWrites cfg ?icao (first # rest) (noOutcome, None))
      (\<lambda>o1 _. countedFor ?icao o1 = length (first # rest)) (\<lambda>_ _. False) s1" for s1 :: "'a WriterWorld_scheme System"
    using writes_counted [of cfg ?icao "first # rest" "(noOutcome, None)" s1] by (simp only: none fst_conv add_0)
  have "wpr (retryAircraftWrites cfg writes) (\<lambda>o1 _. countedFor ?icao o1 = length writes) (\<lambda>_ _. False) s"
    unfolding retryAircraftWrites_def assms(2) list.case Let_def if_not_P [OF assms(3)]
  proof (rule wpr_peek_then, rule wpr_if)
    show "wpr (ret (allDeferred ?icao (length (first # rest)))) (\<lambda>o1 _. countedFor ?icao o1 = length (first # rest)) (\<lambda>_ _. False) s"
      by (simp only: wp_ret all)
    show "wpr (andThen (peek (\<lambda>w. fst (getRetryBackoffRemainingMs (tw_clock w) ?icao (rw_refill w)))) (\<lambda>remaining.
        andThen (alter (\<lambda>w. w\<lparr>rw_refill := snd (getRetryBackoffRemainingMs (tw_clock w) ?icao (rw_refill w))\<rparr>)) (\<lambda>_.
        if remaining > 0 then ret (allDeferred ?icao (length (first # rest)))
        else retryWrites cfg ?icao (first # rest) (noOutcome, None)))) (\<lambda>o1 _. countedFor ?icao o1 = length (first # rest)) (\<lambda>_ _. False) s"
      by (rule wpr_peek_then, rule wpr_ends [OF alter_ends], rule wpr_if) (simp only: wp_ret all, rule some)
  qed
  from wpr_run [OF this assms(1)] show ?thesis by (cases r) auto
qed

subsection \<open>A parent that is not seen yet\<close>

lemma delete_gone: "keyOfRow u \<notin> keyOfRow ` set (deleteRows (txid u) (vout u) rows)"
  by (auto simp: deleteRows_def keyOfRow_def)

lemma failed_leaves_pool:
  assumes "at_input a = None" "retryFailed cfg r (a, f) \<lparr> world = w, script = [] \<rparr> = (x, s')"
  shows "tw_sent (world s') = tw_sent w \<and> pool (rw_utxos (world s')) = pool (rw_utxos w)"
proof -
  let ?same = "\<lambda>w w' :: 'z WriterWorld_scheme. w' = w"
  let ?q = "\<lambda>v. fst v = pool (rw_utxos w) \<and> fst (snd v) = tw_sent w"
  have st: "stableUnder ?same (\<lambda>w'. ?q (lockView w'))" by (simp add: stableUnder_def)
  have "keeps ?same (\<lambda>w'. ?q (lockView w')) (retryFailed cfg r (a, f))"
    unfolding retryFailed_def Let_def fst_conv snd_conv assms(1) option.case
    by (intro keeps_calls lock_calls [where q = ?q] st)
  then have "wpr (retryFailed cfg r (a, f)) (\<lambda>_. under ?same (\<lambda>w'. ?q (lockView w'))) (\<lambda>_. under ?same (\<lambda>w'. ?q (lockView w')))
      \<lparr> world = w, script = [] \<rparr>"
    by (rule keepsD) (simp add: under_def obeys_def lockView_def)
  from wpr_run [OF this assms(2)] show ?thesis by (cases x) (auto simp: under_def lockView_def)
qed

text \<open>
  With a gate that waits for a transaction to be seen, a retry whose transaction was posted but not seen in time
  deletes its input from the pool, although the network may still accept the transaction and with it the input's
  successor. The live path keeps the input and waits instead; the comment on \<open>NOT_SEEN_ON_NETWORK_CODE\<close>
  in \<open>broadcaster.ts\<close> forbids every caller to delete it.
\<close>

lemma retry_forgets_pending_input:
  fixes w :: "'z WriterWorld_scheme"
  assumes "aircraftLock (wc_refill cfg) (pw_aircraft_icao pending) = Some lock" "wc_hasSeenOnNetworkGate cfg"
    and "callAcquireUtxo (pw_aircraft_icao pending)
        (nat (getRetryReadyReserve (wc_refill cfg) (tw_clock w) (pw_aircraft_icao pending) (rw_refill w)))
        \<lparr> world = w, script = [] \<rparr> = (Returned u, \<lparr> world = w1, script = [] \<rparr>)"
    and "buildRawOpReturnTx lock u (pw_aircraft_icao pending) (tw_clock w1) (pw_record_type pending) (pw_payload pending) = Inr built"
    and "isDependencyPendingBroadcastFailure (tw_answer w1 (tw_sent w1) (br_tx built))"
    and "retryPendingWrite cfg pending \<lparr> world = w, script = [] \<rparr> = (r, s')"
  shows "tw_sent (world s') = tw_sent w1 @ [br_tx built] \<and> in_txid (hd (tx_inputs (br_tx built))) = txid u
    \<and> keyOfRow u \<notin> keyOfRow ` set (pool (rw_utxos (world s')))"
proof -
  let ?a = "tw_answer w1 (tw_sent w1) (br_tx built)"
  have c: "bo_status ?a = FAILED" "\<not> isLocalBackpressureBroadcastFailure ?a" "\<not> isTransientBroadcastFailure ?a"
    using assms(5) failure_classes_disjoint(1,2) [OF assms(5)] by (auto simp: isDependencyPendingBroadcastFailure_def)
  have sent: "sendTx (br_tx built) w1 = (?a, w1\<lparr>tw_sent := tw_sent w1 @ [br_tx built]\<rparr>)"
    using c(2) by (simp add: sendTx_def Let_def)
  let ?w2 = "w1\<lparr>tw_sent := tw_sent w1 @ [br_tx built]\<rparr>"
  let ?w3 = "?w2\<lparr>rw_utxos := clearUtxoCooldown (txid u) (vout u)
      ((rw_utxos ?w2)\<lparr>pool := deleteRows (txid u) (vout u) (pool (rw_utxos ?w2))\<rparr>)\<rparr>"
  have refused: "retryRefused pending u ?a \<lparr> world = ?w2, script = [] \<rparr>
      = (Raised (\<lparr> at_input = None, at_broadcast = True \<rparr>, Message (failedMessage ?a)), \<lparr> world = ?w3, script = [] \<rparr>)"
    by (simp add: retryRefused_def Let_def c callDeleteStaleUtxo_def swallowing_def andThen_def onError_def await_def
        toUtxos_def noteUtxos_def alter_def modify_def raise_def ret_def)
  have "retryAttempt cfg pending \<lparr> world = w, script = [] \<rparr>
      = retryRefused pending u ?a \<lparr> world = ?w2, script = [] \<rparr>"
    unfolding retryAttempt_def Let_def assms(1) option.case
    by (simp add: andThen_def peek_def gets_def during_def onError_def assms(2,3,4,5) calling_def await_def sent c)
  then have "retryPendingWrite cfg pending \<lparr> world = w, script = [] \<rparr>
      = retryFailed cfg pending (\<lparr> at_input = None, at_broadcast = True \<rparr>, Message (failedMessage ?a)) \<lparr> world = ?w3, script = [] \<rparr>"
    by (simp add: retryPendingWrite_def onError_def refused)
  with assms(6) have run: "retryFailed cfg pending (\<lparr> at_input = None, at_broadcast = True \<rparr>, Message (failedMessage ?a))
      \<lparr> world = ?w3, script = [] \<rparr> = (r, s')" by simp
  show ?thesis
    using failed_leaves_pool [OF _ run] raw_inputs [OF assms(4)] delete_gone [of u "pool (rw_utxos w1)"]
    by (simp add: inputOf_def)
qed

subsection \<open>Examples\<close>

lemma exampleScript: "\<exists>script. buildOpReturnScript ''a1b2c3'' (Some 1000) TELEMETRY [7] = Inr script \<and> length script = 30"
proof -
  have "isIcaoHex ''a1b2c3''" by code_simp
  moreover have "length (toLe 8 (1000 :: 64 word) :: byte list) = 8" by simp
  ultimately show ?thesis
    by (simp add: buildOpReturnScript_def encodeIcaoHex_def encodeTimestamp_def appendPush_def pushBytes_def Let_def
        PROTOCOL_ID_BYTES_def)
qed

definition exampleInput :: UTXORecord where
  "exampleInput =
     \<lparr> aircraft_icao = ''a1b2c3'', txid = ''aa'', vout = 0, satoshis = 1000, locking_script = ''a1'', is_locked = False,
       locked_at = None, unconfirmed_depth = 0, created_at = None \<rparr>"

definition exampleWrite :: NewPendingWrite where
  "exampleWrite =
     \<lparr> np_aircraft_icao = ''a1b2c3'', np_record_type = TELEMETRY, np_payload = [7], np_flight_id = None, np_preserved = None \<rparr>"

text \<open>An id that no input of the transaction has.\<close>

definition exampleTxid :: "Transaction \<Rightarrow> string" where
  "exampleTxid t = CHR ''c'' # concat (map in_txid (tx_inputs t))"

definition exampleWriter :: WriterConfig where
  "exampleWriter =
     \<lparr> wc_refill = exampleConfig, wc_spendCooldownMs = 1000, wc_hasSeenOnNetworkGate = True, wc_computeTxid = exampleTxid,
       wc_txBytes = (\<lambda>_. 232), wc_maxConcurrentBroadcasts = 8, wc_maxQueueDepth = 100 \<rparr>"

definition exampleWriterWorld :: "(Transaction list \<Rightarrow> Transaction \<Rightarrow> BroadcastOutcome) \<Rightarrow> WriterWorld" where
  "exampleWriterWorld answer =
     RefillWorld.extend (exampleRefillWorld\<lparr>tw_answer := answer, rw_utxos := newUtxoManager [exampleInput] newHold\<rparr>)
       \<lparr> ww_store = insertPendingWrite 10 exampleWrite newWriteStore, ww_governor = newGovernor demoGuard, ww_published = [],
         ww_buffer = newWriteBuffer,
         ww_upstream = \<lparr> st_inFlight = 0, st_queueDepth = 0, st_circuitOpen = False, st_circuitOpenRemainingMs = 0 \<rparr>,
         ww_degraded = False, ww_fundingDry = False, ww_prunePaused = False, ww_random = 0, ww_error = ''timeout'' \<rparr>"

definition accepting :: "Transaction list \<Rightarrow> Transaction \<Rightarrow> BroadcastOutcome" where
  "accepting sent t = \<lparr> bo_txid = exampleTxid t, bo_status = SEEN_ON_NETWORK, bo_code = None, bo_description = None \<rparr>"

lemma example_build: "\<exists>built. buildRawOpReturnTx ''a1'' exampleInput ''a1b2c3'' 1000 TELEMETRY [7] = Inr built"
proof -
  obtain sc where sc: "buildOpReturnScript ''a1b2c3'' (Some 1000) TELEMETRY [7] = Inr sc" "length sc = 30"
    using exampleScript by blast
  have "isIcaoHex ''a1b2c3''" by code_simp
  then obtain p where p: "buildOpReturnPayload ''a1b2c3'' (Some 1000) TELEMETRY [7] = Inr p"
    by (auto simp: buildOpReturnPayload_def encodeIcaoHex_def encodeTimestamp_def)
  have size: "opReturnTxSize 30 = 232"
    by (simp add: opReturnTxSize_def TX_OVERHEAD_def varintSize_def INPUT_OVERHEAD_def P2PKH_UNLOCK_SIZE_def P2PKH_OUTPUT_SIZE_def)
  have "calculateFee 232 \<le> 27" using fee_within_one_sat [of 232] by simp
  then show ?thesis
    by (simp add: buildRawOpReturnTx_def buildEnvelopeTx_def buildOpReturnTx_def sc p size Let_def exampleInput_def)
qed

lemmas example_world = exampleWriterWorld_def RefillWorld.extend_def exampleRefillWorld_def exampleWorld_def
  TreasuryWorld.extend_def newUtxoManager_def

lemma example_acquired:
  "callAcquireUtxo ''a1b2c3'' (nat (getRetryReadyReserve (wc_refill exampleWriter) (tw_clock (exampleWriterWorld answer)) ''a1b2c3''
        (rw_refill (exampleWriterWorld answer)))) \<lparr> world = exampleWriterWorld answer, script = [] \<rparr>
     = (Returned exampleInput, \<lparr> world = (exampleWriterWorld answer)\<lparr>rw_utxos :=
         snd (lockRow 1000 exampleInput (pruneExpiredCooldowns 1000 (newUtxoManager [exampleInput] newHold)))\<rparr>, script = [] \<rparr>)"
proof -
  let ?m = "pruneExpiredCooldowns 1000 (newUtxoManager [exampleInput] newHold)"
  have key: "outpointKey t v = k \<Longrightarrow> utxoCooldownUntil ?m k = None" for t v k
    by (simp add: pruneExpiredCooldowns_def newUtxoManager_def)
  have pool: "pool ?m = [exampleInput]" by (simp add: newUtxoManager_def)
  have depth: "getMaxUnconfirmedChainDepth (newUtxoManager [exampleInput] newHold) = 5"
    by (simp add: getMaxUnconfirmedChainDepth_def newUtxoManager_def pruneExpiredCooldowns_def DEFAULT_MAX_UNCONFIRMED_CHAIN_DEPTH_def)
  have five: "(5 :: nat) = Suc 4" by simp
  have choice: "chooseUtxo 1000 ''a1b2c3'' 0 5 ?m = Inr exampleInput"
  proof -
    have "spendable ''a1b2c3'' 5 exampleInput" by (simp add: spendable_def exampleInput_def MIN_USABLE_SATS_def)
    moreover have "pool (newUtxoManager [exampleInput] newHold) = [exampleInput]" by (simp add: newUtxoManager_def)
    ultimately have "spendableRows ''a1b2c3'' 5 (pool ?m) = [exampleInput]" by (simp add: spendableRows_def spendable_def)
    then show ?thesis
      unfolding chooseUtxo_def by (simp add: isUtxoCooling_def key Let_def)
  qed
  have locked: "fst (lockRow 1000 exampleInput ?m) > 0"
    unfolding lockRow_count pool by (simp add: exampleInput_def)
  have inactive: "getRetryReadyReserve c now icao (newAutoRefill None) = 0" for c now icao
    by (simp add: getRetryReadyReserve_def isActive_def newAutoRefill_def)
  have clock: "tw_clock (exampleWriterWorld answer) = 1000" "rw_refill (exampleWriterWorld answer) = newAutoRefill None"
    and utxos: "rw_utxos (exampleWriterWorld answer) = newUtxoManager [exampleInput] newHold"
    by (simp_all add: exampleWriterWorld_def RefillWorld.extend_def exampleRefillWorld_def TreasuryWorld.extend_def exampleWorld_def)
  show ?thesis
    unfolding clock inactive callAcquireUtxo_def five acquireTries.simps
    by (simp add: andThen_def noteUtxos_def alter_def modify_def peek_def gets_def clock utxos depth
        calling_def onError_def await_def choice onUtxos_def ret_def split: prod.split)
       (use locked in auto)
qed

lemma exampleTxid_fresh: "i \<in> set (tx_inputs t) \<Longrightarrow> exampleTxid t \<noteq> in_txid i"
proof -
  assume "i \<in> set (tx_inputs t)"
  then have "length (in_txid i) \<le> length (concat (map in_txid (tx_inputs t)))"
    by (induction "tx_inputs t" arbitrary: t rule: list.induct) (auto simp: length_concat intro: member_le_sum_list)
  then show ?thesis unfolding exampleTxid_def by (metis Suc_n_not_le_n length_Cons)
qed

lemma example_fresh: "txidsAreFresh exampleWriter (accepting sent)"
  unfolding txidsAreFresh_def by (metis (no_types, lifting) exampleTxid_fresh accepting_def BroadcastOutcome.select_convs(1)
    exampleWriter_def WriterConfig.select_convs(4))

lemma example_waiting:
  "waiting (pendingRow 10 1 exampleWrite) (ww_store (exampleWriterWorld answer))"
  using storeStep_inv [OF newWriteStore_inv, of "Insert_pending 10 exampleWrite"]
  by (simp add: exampleWriterWorld_def RefillWorld.extend_def waiting_def insertPendingWrite_def newWriteStore_def)

theorem retried_write_not_lost_witness:
  "\<exists>outcome s'. retryPendingWrite exampleWriter (pendingRow 10 1 exampleWrite)
        \<lparr> world = exampleWriterWorld accepting, script = [] \<rparr> = (Returned outcome, s')
     \<and> (waiting (pendingRow 10 1 exampleWrite) (ww_store (world s')) \<or> recorded (pendingRow 10 1 exampleWrite) (ww_store (world s')))"
proof -
  let ?s = "\<lparr> world = exampleWriterWorld accepting, script = [] \<rparr>" and ?p = "pendingRow 10 1 exampleWrite"
  obtain r s' where r: "retryPendingWrite exampleWriter ?p ?s = (r, s')" by (metis surj_pair)
  show ?thesis
    using retried_write_not_lost [of ?p ?s exampleWriter r s', OF obeys_new _ r] r example_waiting [of accepting] by auto
qed


definition notSeen :: "Transaction list \<Rightarrow> Transaction \<Rightarrow> BroadcastOutcome" where
  "notSeen sent t = failedWith ''NOT_SEEN_ON_NETWORK'' ''not seen within the timeout''"

lemma retry_forgets_pending_input_witness:
  "\<exists>r s' t. retryPendingWrite exampleWriter (pendingRow 10 1 exampleWrite)
        \<lparr> world = exampleWriterWorld notSeen, script = [] \<rparr> = (r, s')
     \<and> tw_sent (world s') = tw_sent (exampleWriterWorld notSeen) @ [t] \<and> in_txid (hd (tx_inputs t)) = ''aa''
     \<and> (''aa'', 0) \<notin> keyOfRow ` set (pool (rw_utxos (world s')))"
proof -
  let ?w = "exampleWriterWorld notSeen" and ?p = "pendingRow 10 1 exampleWrite"
  let ?w1 = "?w\<lparr>rw_utxos := snd (lockRow 1000 exampleInput (pruneExpiredCooldowns 1000 (newUtxoManager [exampleInput] newHold)))\<rparr>"
  obtain r s' where r: "retryPendingWrite exampleWriter ?p \<lparr> world = ?w, script = [] \<rparr> = (r, s')" by (metis surj_pair)
  obtain built where built: "buildRawOpReturnTx ''a1'' exampleInput ''a1b2c3'' 1000 TELEMETRY [7] = Inr built"
    using example_build by blast
  have p: "pw_aircraft_icao ?p = ''a1b2c3''" "pw_record_type ?p = TELEMETRY" "pw_payload ?p = [7]"
    by (simp_all add: pendingRow_def exampleWrite_def)
  have c: "aircraftLock (wc_refill exampleWriter) icao = Some ''a1''" "wc_hasSeenOnNetworkGate exampleWriter" for icao
    by (simp_all add: exampleWriter_def exampleConfig_def)
  have clock: "tw_clock ?w1 = 1000" and ans: "tw_answer ?w1 = notSeen"
    by (simp_all add: exampleWriterWorld_def RefillWorld.extend_def exampleRefillWorld_def TreasuryWorld.extend_def exampleWorld_def)
  have code: "js_upper (js_trim ''NOT_SEEN_ON_NETWORK'') \<in> DEPENDENCY_PENDING_CODES" by code_simp
  have pending: "isDependencyPendingBroadcastFailure (notSeen sent t)" for sent t
    using code by (simp add: isDependencyPendingBroadcastFailure_def notSeen_def failedWith_def codeOf_def)
  have key: "keyOfRow exampleInput = (''aa'', 0)" "txid exampleInput = ''aa''" by (simp_all add: keyOfRow_def exampleInput_def)
  have "tw_sent (world s') = tw_sent ?w1 @ [br_tx built] \<and> in_txid (hd (tx_inputs (br_tx built))) = txid exampleInput
    \<and> keyOfRow exampleInput \<notin> keyOfRow ` set (pool (rw_utxos (world s')))"
    by (rule retry_forgets_pending_input [of exampleWriter ?p "''a1''" ?w exampleInput ?w1 built r s'])
       (simp_all only: p c clock ans pending example_acquired built r)
  then show ?thesis using r key by auto
qed

end
