(* ===== verification/Live_Write.thy ===== *)
theory Live_Write
  imports Write_Buffer
begin

text \<open>
  The live path of the writer, \<open>services/blockchain-writer/src/index.ts\<close>: what happens to a telemetry sample or
  a flight event that arrives on its Redis channel, from the checks that defer it to its broadcast, its record,
  or its row in the write buffer. The world and the calls are those of \<open>Writer_Calls\<close>.

  \<open>JSON.parse\<close> is an argument's job: a handler gets the parsed message, or \<open>None\<close> when it is not valid JSON. The
  encoders of the payloads, which are CBOR, are arguments. The result of a handler is the label it counts its outcome
  under; an exception of the job is a rejected promise that nobody handles. The nudge of the confirmation
  poller, counters and log lines are not modelled.

  Results: what is reported as broadcast or as deferred is in the store; an input that was handed to
  the network is not unlocked, and that of a transaction that is not seen yet stays in the pool.
\<close>

subsection \<open>What the two handlers share\<close>

datatype LiveOutcome =
  Invalid_json | Buffer_persist_failed | Buffered_spend_halted | Buffered_preemptive | Buffered_utxo_unavailable
| Optimistic_orphan | Broadcasted | Buffered_after_backpressure | Buffered_after_failure

text \<open>A write of the live path: what is buffered, how its transaction is built, and the mark of its row.\<close>

record LiveWrite =
  lw_icao :: string
  lw_record_type :: RecordType
  lw_payload :: "byte list"
  lw_flight_id :: "string option"
  lw_build :: "string \<Rightarrow> millis \<Rightarrow> UTXORecord \<Rightarrow> build_error + BuildResult"
  lw_chronicle :: "BuildResult \<Rightarrow> bool option"

definition shouldRequestRefillForAcquireError :: "string \<Rightarrow> bool" where
  "shouldRequestRefillForAcquireError msg \<longleftrightarrow>
     js_includes msg ''No available UTXOs'' \<or> js_includes msg ''UTXO spend cooling down''"

definition handleAcquireFailure :: "WriterConfig \<Rightarrow> string \<Rightarrow> failure \<Rightarrow> ('z, 'e, unit) writer_job" where
  "handleAcquireFailure cfg icao f =
     (case f of
        NoOutput (StalePool _) \<Rightarrow>
          andThen (inBackground (Reconcile_aircraft icao)) (\<lambda>_. callRequestRefill (wc_refill cfg) icao)
      | NoOutput (ChainDepthExhausted _ _) \<Rightarrow> callRequestRefill (wc_refill cfg) icao
      | _ \<Rightarrow> onlyIf (shouldRequestRefillForAcquireError (messageOf icao f)) (callRequestRefill (wc_refill cfg) icao))"

definition isHandledBackpressureError :: "string \<Rightarrow> bool" where
  "isHandledBackpressureError msg \<longleftrightarrow>
     js_includes msg ''Broadcast dependency pending'' \<or> js_includes msg ''Broadcast local backpressure''
   \<or> js_includes msg ''UTXO spend cooling down'' \<or> js_includes msg ''Unconfirmed chain depth ceiling reached''
   \<or> js_includes msg ''Broadcast transient failure''"

definition settleInputAfterFailedWrite :: "string \<Rightarrow> UTXORecord \<Rightarrow> bool \<Rightarrow> string \<Rightarrow> ('z, 'e, unit) writer_job" where
  "settleInputAfterFailedWrite icao u broadcastAttempted msg =
     (if \<not> broadcastAttempted \<or> isUnsentBroadcastError msg then callReleaseUtxo u
      else inBackground (Reconcile_aircraft icao))"

definition handleFailedAircraftBroadcast :: "string \<Rightarrow> UTXORecord \<Rightarrow> BroadcastOutcome \<Rightarrow> ('z, 'e, failure) writer_job" where
  "handleFailedAircraftBroadcast icao u result =
     (if isDependencyPendingBroadcastFailure result then
        andThen (noteUtxos (\<lambda>now. delaySpendRetries now (txid u) (vout u) None)) (\<lambda>_.
        ret (Message (dependencyMessage (codeOr result))))
      else if isLocalBackpressureBroadcastFailure result then ret (Message (backpressureMessage result))
      else if isTransientBroadcastFailure result then
        andThen (noteUtxos (\<lambda>now. delaySpendRetries now (txid u) (vout u) (Some TRANSIENT_BROADCAST_COOLDOWN_MS))) (\<lambda>_.
        andThen (inBackground (Reconcile_aircraft icao)) (\<lambda>_.
        ret (Message (transientMessage result))))
      else andThen (callDeleteStaleUtxo u) (\<lambda>_. ret (Message (failedMessage result))))"

definition bufferLive :: "LiveWrite \<Rightarrow> ('z, failure, unit) writer_job" where
  "bufferLive lw = buffer (lw_icao lw) (lw_record_type lw) (lw_payload lw) (lw_flight_id lw)"

text \<open>A write that is deferred without an attempt, counted under the given label.\<close>

definition bufferDeferredWrite :: "LiveWrite \<Rightarrow> LiveOutcome \<Rightarrow> ('z, failure, LiveOutcome) writer_job" where
  "bufferDeferredWrite lw label =
     onError (andThen (bufferLive lw) (\<lambda>_. ret label)) (\<lambda>_. ret Buffer_persist_failed)"

definition liveResult :: "WriterConfig \<Rightarrow> LiveWrite \<Rightarrow> UTXORecord \<Rightarrow> BuildResult \<Rightarrow> string \<Rightarrow> millis \<Rightarrow> NewTxResult" where
  "liveResult cfg lw u built t now =
     resultOf cfg t (lw_icao lw) (lw_record_type lw) (lw_flight_id lw) (lw_chronicle lw built) u built now"

definition liveAccepted ::
  "WriterConfig \<Rightarrow> LiveWrite \<Rightarrow> UTXORecord \<Rightarrow> BuildResult \<Rightarrow> string \<Rightarrow> ('z, Attempt \<times> failure, LiveOutcome) writer_job" where
  "liveAccepted cfg lw u built t =
     (let icao = lw_icao lw; a = \<lparr> at_input = Some u, at_broadcast = True \<rparr>
      in andThen (during a (callRecordSpend cfg u t (br_change built) icao)) (\<lambda>ps.
         andThen (callRequestRefillIfPoolLow (wc_refill cfg) icao ps) (\<lambda>_.
         andThen (noteGovernor noteBroadcastAccepted) (\<lambda>_.
         andThen (peek (\<lambda>w. liveResult cfg lw u built t (tw_clock w))) (\<lambda>row.
         andThen (during a (callInsertTxResult row)) (\<lambda>_.
         andThen (callPublish row) (\<lambda>_.
         ret Broadcasted)))))))"

definition liveOptimistic ::
  "WriterConfig \<Rightarrow> LiveWrite \<Rightarrow> UTXORecord \<Rightarrow> BuildResult \<Rightarrow> ('z, Attempt \<times> failure, LiveOutcome) writer_job" where
  "liveOptimistic cfg lw u built =
     (let icao = lw_icao lw; a = \<lparr> at_input = Some u, at_broadcast = True \<rparr>; localTxid = wc_computeTxid cfg (br_tx built)
      in andThen (during a (callRecordSpend cfg u localTxid (br_change built) icao)) (\<lambda>ps.
         andThen (callNoteRetryPressure (wc_refill cfg) icao) (\<lambda>_.
         andThen (callRequestRefillIfPoolLow (wc_refill cfg) icao ps) (\<lambda>_.
         andThen (peek (\<lambda>w. liveResult cfg lw u built localTxid (tw_clock w))) (\<lambda>row.
         andThen (during a (callInsertTxResult row)) (\<lambda>_.
         andThen (callPublish row) (\<lambda>_.
         andThen (noteGovernor noteBroadcastAccepted) (\<lambda>_.
         ret Optimistic_orphan))))))))"

text \<open>The body of the \<open>try\<close> block.\<close>

definition liveAttempt ::
  "WriterConfig \<Rightarrow> LiveWrite \<Rightarrow> string \<Rightarrow> UTXORecord \<Rightarrow> ('z, Attempt \<times> failure, LiveOutcome) writer_job" where
  "liveAttempt cfg lw lock u =
     (let unsent = \<lparr> at_input = Some u, at_broadcast = False \<rparr>; a = \<lparr> at_input = Some u, at_broadcast = True \<rparr>
      in andThen (peek tw_clock) (\<lambda>now.
         andThen (during unsent (calling (await () (\<lambda>w. (lw_build lw lock now u, w))))) (\<lambda>r.
         case r of
           Inl _ \<Rightarrow> andThen (peek ww_error) (\<lambda>txt. raise (unsent, Message txt))
         | Inr built \<Rightarrow>
             andThen (during a (calling (await () (sendTx (br_tx built))))) (\<lambda>result.
             if bo_status result = FAILED then
               if isDependencyPendingBroadcastFailure result \<and> \<not> wc_hasSeenOnNetworkGate cfg
               then liveOptimistic cfg lw u built
               else andThen (handleFailedAircraftBroadcast (lw_icao lw) u result) (\<lambda>f. raise (a, f))
             else liveAccepted cfg lw u built (bo_txid result)))))"

text \<open>The handler of its exceptions.\<close>

definition liveFailed :: "LiveWrite \<Rightarrow> UTXORecord \<Rightarrow> Attempt \<times> failure \<Rightarrow> ('z, failure, LiveOutcome) writer_job" where
  "liveFailed lw u e =
     (let msg = messageOf (lw_icao lw) (snd e)
      in andThen (settleInputAfterFailedWrite (lw_icao lw) u (at_broadcast (fst e)) msg) (\<lambda>_.
         andThen (onError (bufferLive lw) (\<lambda>_. ret ())) (\<lambda>_.
         ret (if isHandledBackpressureError msg then Buffered_after_backpressure else Buffered_after_failure))))"

text \<open>A write that is not deferred. The keys of an aircraft that is not in the vault raise an exception outside of every
  handler.\<close>

definition writeNow :: "WriterConfig \<Rightarrow> LiveWrite \<Rightarrow> ('z, failure, LiveOutcome) writer_job" where
  "writeNow cfg lw =
     (case aircraftLock (wc_refill cfg) (lw_icao lw) of
        None \<Rightarrow> andThen (peek ww_error) (\<lambda>txt. raise (Message txt))
      | Some lock \<Rightarrow>
          andThen (onError (andThen (callAcquireUtxo (lw_icao lw) 0) (\<lambda>u. ret (Inr u))) (\<lambda>f. ret (Inl f))) (\<lambda>acquired.
          case acquired of
            Inl f \<Rightarrow> andThen (handleAcquireFailure cfg (lw_icao lw) f) (\<lambda>_. bufferDeferredWrite lw Buffered_utxo_unavailable)
          | Inr u \<Rightarrow> onError (liveAttempt cfg lw lock u) (liveFailed lw u)))"

subsection \<open>The two handlers\<close>

definition telemetryWrite :: "(TelemetryRecord \<Rightarrow> byte list) \<Rightarrow> string \<Rightarrow> TelemetryRecord \<Rightarrow> LiveWrite" where
  "telemetryWrite encode icao telemetry =
     \<lparr> lw_icao = icao, lw_record_type = TELEMETRY, lw_payload = encode telemetry, lw_flight_id = tr_flight_id telemetry,
       lw_build = (\<lambda>lock _ u. buildTelemetryTx encode lock u telemetry TELEMETRY),
       lw_chronicle = (\<lambda>built. Some (ch_isChronicle (br_change built))) \<rparr>"

definition processTelemetryWrite ::
  "WriterConfig \<Rightarrow> (TelemetryRecord \<Rightarrow> byte list) \<Rightarrow> string \<Rightarrow> TelemetryRecord option \<Rightarrow> ('z, failure, LiveOutcome) writer_job" where
  "processTelemetryWrite cfg encode icao parsed =
     (case parsed of
        None \<Rightarrow> ret Invalid_json
      | Some telemetry \<Rightarrow>
          (let lw = telemetryWrite encode icao telemetry;
               liveTelemetryQueueReserve = max 1 (wc_maxConcurrentBroadcasts cfg);
               limit = max 1 (wc_maxQueueDepth cfg - liveTelemetryQueueReserve)
           in andThen askGovernor (\<lambda>ok.
              andThen (peek (\<lambda>w. \<not> ok \<or> blocksBroadcast (Some icao) None (hold (rw_utxos w)))) (\<lambda>spendHalted.
              andThen (peek (\<lambda>w. spendHalted \<or> st_circuitOpen (ww_upstream w) \<or> st_queueDepth (ww_upstream w) \<ge> limit))
                (\<lambda>shouldDeferTelemetry.
              if shouldDeferTelemetry
              then bufferDeferredWrite lw (if spendHalted then Buffered_spend_halted else Buffered_preemptive)
              else writeNow cfg lw)))))"

text \<open>\<open>encode\<close>, \<open>icaoOf\<close> and \<open>flightOf\<close> stand for the encoder and the fields of an event.\<close>

definition flightEventWrite ::
  "('ev \<Rightarrow> byte list) \<Rightarrow> ('ev \<Rightarrow> string) \<Rightarrow> ('ev \<Rightarrow> string option) \<Rightarrow> string \<Rightarrow> 'ev \<Rightarrow> LiveWrite" where
  "flightEventWrite encode icaoOf flightOf icao event =
     \<lparr> lw_icao = icao, lw_record_type = FLIGHT_EVENT, lw_payload = encode event, lw_flight_id = flightOf event,
       lw_build = (\<lambda>lock now u. buildFlightEventTx encode icaoOf now lock u event), lw_chronicle = (\<lambda>_. None) \<rparr>"

definition processFlightEventWrite ::
  "WriterConfig \<Rightarrow> ('ev \<Rightarrow> byte list) \<Rightarrow> ('ev \<Rightarrow> string) \<Rightarrow> ('ev \<Rightarrow> string option) \<Rightarrow> string \<Rightarrow> 'ev option
     \<Rightarrow> ('z, failure, LiveOutcome) writer_job" where
  "processFlightEventWrite cfg encode icaoOf flightOf icao parsed =
     (case parsed of
        None \<Rightarrow> ret Invalid_json
      | Some event \<Rightarrow>
          (let lw = flightEventWrite encode icaoOf flightOf icao event
           in andThen askGovernor (\<lambda>ok.
              andThen (peek (\<lambda>w. \<not> ok \<or> blocksBroadcast (Some icao) None (hold (rw_utxos w)))) (\<lambda>spendHalted.
              andThen (peek (\<lambda>w. spendHalted \<or> st_circuitOpen (ww_upstream w))) (\<lambda>deferred.
              if deferred
              then bufferDeferredWrite lw (if spendHalted then Buffered_spend_halted else Buffered_preemptive)
              else writeNow cfg lw)))))"

subsection \<open>Messages\<close>

definition AIRCRAFT_ACTIVITY_CHANNEL :: string where "AIRCRAFT_ACTIVITY_CHANNEL = ''aircraft-activity''"

datatype WriterMessage = Live_telemetry string | Live_event string | Only_activity

text \<open>The part of a channel name before its first colon, and the part after it.\<close>

fun splitChannel :: "string \<Rightarrow> (string \<times> string) option" where
  "splitChannel [] = None"
| "splitChannel (c # cs) =
     (if c = CHR '':'' then Some ([], cs)
      else (case splitChannel cs of None \<Rightarrow> None | Some (before, icao) \<Rightarrow> Some (c # before, icao)))"

text \<open>A name without a colon loses its last character as prefix (\<open>slice (0, -1)\<close>) and is its own address.\<close>

definition onMessage ::
  "RefillConfig \<Rightarrow> millis \<Rightarrow> string set \<Rightarrow> string \<Rightarrow> string \<Rightarrow> AutoRefill \<Rightarrow> WriterMessage \<times> AutoRefill" where
  "onMessage cfg now trackedIcaos channel message st =
     (if channel = AIRCRAFT_ACTIVITY_CHANNEL then
        (let icao = js_upper (js_trim message)
         in (Only_activity, if icao \<in> trackedIcaos then recordActivity now icao st else st))
      else
        (let (name, icao) = (case splitChannel channel of Some p \<Rightarrow> p | None \<Rightarrow> (butlast channel, channel));
             st' = recordActivity now icao st
         in (if name = ''write'' then Live_telemetry icao
             else if name = ''flight-event'' then Live_event icao else Only_activity, st')))"


subsection \<open>What is reported is stored\<close>

text \<open>A row that waits with the content of the write, and a result row with an envelope that was built for it.\<close>

definition isSample :: "LiveWrite \<Rightarrow> PendingWriteRow \<Rightarrow> bool" where
  "isSample lw r \<longleftrightarrow>
     pw_aircraft_icao r = lw_icao lw \<and> pw_record_type r = lw_record_type lw \<and> pw_payload r = lw_payload lw
   \<and> pw_flight_id r = lw_flight_id lw"

definition sampleWaits :: "LiveWrite \<Rightarrow> WriteStore \<Rightarrow> bool" where
  "sampleWaits lw s \<longleftrightarrow> writes_inv s \<and> (\<exists>r\<in>set (ws_pending s). isSample lw r)"

definition recordsSample :: "LiveWrite \<Rightarrow> TxResultRow \<Rightarrow> bool" where
  "recordsSample lw x \<longleftrightarrow>
     rx_aircraft_icao x = lw_icao lw \<and> rx_record_type x = lw_record_type lw \<and> rx_flight_id x = lw_flight_id lw
   \<and> (\<exists>lock now u built. lw_build lw lock now u = Inr built \<and> rx_op_return x = br_opReturn built)"

definition sampleRecorded :: "LiveWrite \<Rightarrow> WriteStore \<Rightarrow> bool" where
  "sampleRecorded lw s \<longleftrightarrow> writes_inv s \<and> (\<exists>x\<in>set (ws_results s). recordsSample lw x)"

text \<open>What each outcome says of the store.\<close>

fun storedAs :: "LiveWrite \<Rightarrow> LiveOutcome \<Rightarrow> WriteStore \<Rightarrow> bool" where
  "storedAs lw Broadcasted s = sampleRecorded lw s"
| "storedAs lw Optimistic_orphan s = sampleRecorded lw s"
| "storedAs lw Buffered_spend_halted s = sampleWaits lw s"
| "storedAs lw Buffered_preemptive s = sampleWaits lw s"
| "storedAs lw Buffered_utxo_unavailable s = sampleWaits lw s"
| "storedAs lw outcome s = writes_inv s"

text \<open>The other tasks do anything to the store that drops no row with this content.\<close>

definition othersKeepSample :: "LiveWrite \<Rightarrow> 'z WriterWorld_scheme \<Rightarrow> 'z WriterWorld_scheme \<Rightarrow> bool" where
  "othersKeepSample lw w w' \<longleftrightarrow>
     (\<exists>es. ww_store w' = fold storeStep es (ww_store w)
         \<and> (\<forall>r\<in>set (ws_pending (ww_store w)). isSample lw r \<longrightarrow> \<not> list_ex (mayDrop r) es))"

lemma isSample_same: "sameWrite r r' \<Longrightarrow> isSample lw r \<Longrightarrow> isSample lw r'"
  by (simp add: sameWrite_def isSample_def)

lemma waiting_steps: "waiting r s \<Longrightarrow> \<not> list_ex (mayDrop r) es \<Longrightarrow> waiting r (fold storeStep es s)"
  by (induction es arbitrary: s) (auto intro: waiting_step)

lemma sample_waits_steps:
  assumes "sampleWaits lw s" "\<forall>r\<in>set (ws_pending s). isSample lw r \<longrightarrow> \<not> list_ex (mayDrop r) es"
  shows "sampleWaits lw (fold storeStep es s)"
proof -
  obtain r where r: "r \<in> set (ws_pending s)" "isSample lw r" "writes_inv s" using assms(1) by (auto simp: sampleWaits_def)
  then have "waiting r (fold storeStep es s)"
    using assms(2) by (intro waiting_steps) (auto simp: waiting_def intro: sameWrite_refl)
  then show ?thesis using isSample_same r(2) by (auto simp: waiting_def sampleWaits_def)
qed

lemma sample_recorded_steps: "sampleRecorded lw s \<Longrightarrow> sampleRecorded lw (fold storeStep es s)"
proof -
  assume "sampleRecorded lw s"
  then obtain x where x: "writes_inv s" "x \<in> set (ws_results s)" "recordsSample lw x" by (auto simp: sampleRecorded_def)
  then obtain y where y: "y \<in> set (ws_results (fold storeStep es s))" "saysOf y = saysOf x"
    using results_say_all [of s es] by fastforce
  then have "recordsSample lw y" using x(3) by (simp add: recordsSample_def saysOf_def)
  then show ?thesis using y(1) store_reachable [OF x(1)] by (auto simp: sampleRecorded_def)
qed

lemma sample_stable:
  "stableUnder (othersKeepSample lw) (\<lambda>w. writes_inv (ww_store w))"
  "stableUnder (othersKeepSample lw) (\<lambda>w. sampleWaits lw (ww_store w))"
  "stableUnder (othersKeepSample lw) (\<lambda>w. sampleRecorded lw (ww_store w))"
  by (auto simp: stableUnder_def othersKeepSample_def intro: store_reachable sample_waits_steps sample_recorded_steps)

lemma storedAs_inv: "storedAs lw x s \<Longrightarrow> writes_inv s"
  by (cases x) (simp_all add: sampleRecorded_def sampleWaits_def)

lemma insert_waits:
  assumes "writes_inv s" "np_aircraft_icao x = lw_icao lw" "np_record_type x = lw_record_type lw" "np_payload x = lw_payload lw"
    "np_flight_id x = lw_flight_id lw"
  shows "sampleWaits lw (insertPendingWrite now x s)"
proof -
  have "writes_inv (insertPendingWrite now x s)" using storeStep_inv [OF assms(1), of "Insert_pending now x"] by simp
  moreover have "pendingRow now (ws_nextId s) x \<in> set (ws_pending (insertPendingWrite now x s))"
    by (simp add: insertPendingWrite_def)
  ultimately show ?thesis using assms(2-) by (force simp: sampleWaits_def isSample_def pendingRow_def)
qed

lemma upsert_waits:
  assumes "writes_inv s" "np_aircraft_icao x = lw_icao lw" "lw_record_type lw = TELEMETRY" "np_payload x = lw_payload lw"
    "np_flight_id x = lw_flight_id lw"
  shows "sampleWaits lw (snd (upsertPendingTelemetryWrite now x s))"
proof (cases "latestCollapsible (np_aircraft_icao x) (ws_pending s)")
  case None
  then show ?thesis using assms by (simp add: upsertPendingTelemetryWrite_def) (rule insert_waits; simp)
next
  case (Some e)
  have e: "e \<in> set (ws_pending s)" "collapsible (np_aircraft_icao x) e" using latest_in [OF Some] by simp_all
  let ?e = "e\<lparr>pw_payload := np_payload x, pw_flight_id := np_flight_id x, pw_created_at := now, pw_retry_count := 0,
      pw_last_error := None\<rparr>"
  have "writes_inv (snd (upsertPendingTelemetryWrite now x s))"
    using storeStep_inv [OF assms(1), of "Upsert_telemetry now x"] by simp
  moreover have "?e \<in> set (ws_pending (snd (upsertPendingTelemetryWrite now x s)))"
    using e(1) by (auto simp: upsertPendingTelemetryWrite_def Some intro!: image_eqI [of _ _ e])
  moreover have "isSample lw ?e" using e(2) assms(2-) by (simp add: isSample_def collapsible_def)
  ultimately show ?thesis by (auto simp: sampleWaits_def)
qed

text \<open>Buffering.\<close>

lemma store_askGovernor: "keeps R (\<lambda>w. p (ww_store w)) askGovernor"
  unfolding askGovernor_def noteGovernor_def by (intro keeps_intros store_alter) simp

lemma store_preserves: "keeps R (\<lambda>w. p (ww_store w)) (preservesStream icao)"
  unfolding preservesStream_def by (intro keeps_intros store_askGovernor)

lemma store_write:
  fixes s :: "'z WriterWorld_scheme System"
  assumes "under (othersKeepSample lw) (\<lambda>w. writes_inv (ww_store w)) s"
    and "\<And>now st. writes_inv st \<Longrightarrow> sampleWaits lw (snd (f now st))"
  shows "wpr (calling (await () (onStore f))) (\<lambda>_. under (othersKeepSample lw) (\<lambda>w. sampleWaits lw (ww_store w)))
     (\<lambda>_. under (othersKeepSample lw) (\<lambda>w. writes_inv (ww_store w))) s"
proof -
  have "wpr (await () (onStore f)) (\<lambda>_. under (othersKeepSample lw) (\<lambda>w. sampleWaits lw (ww_store w)))
      (\<lambda>e. under (othersKeepSample lw) (\<lambda>w. e = () \<and> writes_inv (ww_store w))) s"
  proof (rule wp_await [OF assms(1) sample_stable(1,2,1)])
    fix w w' :: "'z WriterWorld_scheme" and x assume "writes_inv (ww_store w)" "onStore f w = (x, w')"
    then show "sampleWaits lw (ww_store w')" using assms(2) store_onStore [of f w] by auto
  qed (simp_all add: sampleWaits_def)
  then show ?thesis
    unfolding calling_def wp_onError by (rule wpr_mono) (auto simp: wp_andThen wp_peek_eq wp_raise)
qed

lemma buffer_stores:
  fixes s :: "'z WriterWorld_scheme System"
  assumes "under (othersKeepSample lw) (\<lambda>w. writes_inv (ww_store w)) s"
  shows "wpr (bufferLive lw) (\<lambda>_. under (othersKeepSample lw) (\<lambda>w. sampleWaits lw (ww_store w)))
     (\<lambda>_. under (othersKeepSample lw) (\<lambda>w. writes_inv (ww_store w))) s"
  unfolding bufferLive_def buffer_def
proof (rule wpr_keeps_then [OF store_preserves assms])
  fix preserve and s1 :: "'z WriterWorld_scheme System"
  assume s1: "under (othersKeepSample lw) (\<lambda>w. writes_inv (ww_store w)) s1"
  let ?x = "\<lparr> np_aircraft_icao = lw_icao lw, np_record_type = lw_record_type lw, np_payload = lw_payload lw,
      np_flight_id = lw_flight_id lw, np_preserved = Some preserve \<rparr>"
  show "wpr (let x = ?x in if lw_record_type lw = TELEMETRY \<and> \<not> preserve
        then andThen (calling (await () (onStore (\<lambda>now. upsertPendingTelemetryWrite now x)))) (\<lambda>_. ret ())
        else calling (await () (onStore (\<lambda>now s. ((), insertPendingWrite now x s)))))
      (\<lambda>_. under (othersKeepSample lw) (\<lambda>w. sampleWaits lw (ww_store w)))
      (\<lambda>_. under (othersKeepSample lw) (\<lambda>w. writes_inv (ww_store w))) s1"
  proof (cases "lw_record_type lw = TELEMETRY \<and> \<not> preserve")
    case True
    have "wpr (calling (await () (onStore (\<lambda>now. upsertPendingTelemetryWrite now ?x))))
        (\<lambda>_. under (othersKeepSample lw) (\<lambda>w. sampleWaits lw (ww_store w)))
        (\<lambda>_. under (othersKeepSample lw) (\<lambda>w. writes_inv (ww_store w))) s1"
      by (rule store_write [OF s1]) (use True in \<open>auto intro: upsert_waits\<close>)
    then show ?thesis unfolding Let_def if_P [OF True] by (rule wpr_then) (simp only: wp_ret)
  next
    case False
    have "wpr (calling (await () (onStore (\<lambda>now s. ((), insertPendingWrite now ?x s)))))
        (\<lambda>_. under (othersKeepSample lw) (\<lambda>w. sampleWaits lw (ww_store w)))
        (\<lambda>_. under (othersKeepSample lw) (\<lambda>w. writes_inv (ww_store w))) s1"
      by (rule store_write [OF s1]) (auto intro: insert_waits)
    then show ?thesis unfolding Let_def if_not_P [OF False] .
  qed
qed

lemma stored_ret:
  "under (othersKeepSample lw) (\<lambda>w. storedAs lw x (ww_store w)) s \<Longrightarrow>
     wpr (ret x) (\<lambda>x. under (othersKeepSample lw) (\<lambda>w. storedAs lw x (ww_store w))) E s"
  by (simp only: wp_ret)

text \<open>A deferred write under a label that says so.\<close>

lemma deferred_stores:
  assumes "under (othersKeepSample lw) (\<lambda>w. writes_inv (ww_store w)) s"
    and "label \<in> {Buffered_spend_halted, Buffered_preemptive, Buffered_utxo_unavailable}"
  shows "wpr (bufferDeferredWrite lw label) (\<lambda>x. under (othersKeepSample lw) (\<lambda>w. storedAs lw x (ww_store w)))
     (\<lambda>_. under (othersKeepSample lw) (\<lambda>w. writes_inv (ww_store w))) s"
  unfolding bufferDeferredWrite_def wp_onError wp_andThen
  by (rule wpr_mono [OF buffer_stores [OF assms(1)]]) (rule stored_ret, use assms(2) in auto)+

lemma recorded_result:
  assumes "lw_build lw lock now u = Inr built" "writes_inv st" "insertTxResult (liveResult cfg lw u' built t now') st = Some st'"
  shows "sampleRecorded lw st'"
proof -
  have "st' = storeStep (Insert_result (liveResult cfg lw u' built t now')) st" using assms(3) by simp
  then have "writes_inv st'" using storeStep_inv [OF assms(2)] by (simp only:)
  moreover have "resultRow (liveResult cfg lw u' built t now') \<in> set (ws_results st')"
    using assms(3) by (auto simp: insertTxResult_def split: if_splits)
  moreover have "recordsSample lw (resultRow (liveResult cfg lw u' built t now'))"
    using assms(1) by (auto simp: recordsSample_def resultRow_def liveResult_def resultOf_def)
  ultimately show ?thesis by (auto simp: sampleRecorded_def)
qed

lemma insert_sample:
  fixes s :: "'z WriterWorld_scheme System"
  assumes "under (othersKeepSample lw) (\<lambda>w. writes_inv (ww_store w)) s" "lw_build lw lock now u = Inr built"
  shows "wpr (during a (callInsertTxResult (liveResult cfg lw u' built t now')))
     (\<lambda>_. under (othersKeepSample lw) (\<lambda>w. sampleRecorded lw (ww_store w)))
     (\<lambda>_. under (othersKeepSample lw) (\<lambda>w. writes_inv (ww_store w))) s"
proof -
  have "wpr (callInsertTxResult (liveResult cfg lw u' built t now'))
     (\<lambda>_. under (othersKeepSample lw) (\<lambda>w. sampleRecorded lw (ww_store w)))
     (\<lambda>_. under (othersKeepSample lw) (\<lambda>w. writes_inv (ww_store w))) s"
    by (rule insert_spec [OF assms(1) sample_stable(1,3)])
       (auto simp: sampleRecorded_def [of lw "ww_store w" for w] intro: recorded_result [OF assms(2)])
  then show ?thesis unfolding during_def wp_onError by (rule wpr_mono) (simp_all only: wp_raise)
qed

text \<open>What is done after the record was stored.\<close>

lemma recorded_end:
  fixes m :: "('z, 'e, unit) writer_job"
  assumes "under (othersKeepSample lw) (\<lambda>w. sampleRecorded lw (ww_store w)) s" "x = Broadcasted \<or> x = Optimistic_orphan"
    and "keeps (othersKeepSample lw) (\<lambda>w. sampleRecorded lw (ww_store w)) m"
  shows "wpr (andThen m (\<lambda>_. ret x)) (\<lambda>x. under (othersKeepSample lw) (\<lambda>w. storedAs lw x (ww_store w)))
     (\<lambda>_. under (othersKeepSample lw) (\<lambda>w. writes_inv (ww_store w))) s"
  unfolding wp_andThen
  by (rule wpr_mono [OF keepsD [OF assms(3,1)]]) (rule stored_ret, use assms(2) in \<open>auto simp: under_def sampleRecorded_def\<close>)+

lemma accepted_stores:
  assumes "under (othersKeepSample lw) (\<lambda>w. writes_inv (ww_store w)) s" "lw_build lw lock now u0 = Inr built"
  shows "wpr (liveAccepted cfg lw u built t) (\<lambda>x. under (othersKeepSample lw) (\<lambda>w. storedAs lw x (ww_store w)))
     (\<lambda>_. under (othersKeepSample lw) (\<lambda>w. writes_inv (ww_store w))) s"
  unfolding liveAccepted_def Let_def
  by (intro wpr_keeps_then [OF keeps_during [OF store_calls(2)]] wpr_keeps_then [OF store_calls(7)]
      wpr_keeps_then [OF store_calls(10)] sample_stable(1) assms(1) wpr_peek_then wpr_then [OF insert_sample [OF _ assms(2)]]
      recorded_end store_calls(5) sample_stable(3)) simp_all

lemma optimistic_stores:
  assumes "under (othersKeepSample lw) (\<lambda>w. writes_inv (ww_store w)) s" "lw_build lw lock now u0 = Inr built"
  shows "wpr (liveOptimistic cfg lw u built) (\<lambda>x. under (othersKeepSample lw) (\<lambda>w. storedAs lw x (ww_store w)))
     (\<lambda>_. under (othersKeepSample lw) (\<lambda>w. writes_inv (ww_store w))) s"
proof -
  have finish: "wpr (andThen (callPublish row) (\<lambda>_. andThen (noteGovernor noteBroadcastAccepted) (\<lambda>_. ret Optimistic_orphan)))
      (\<lambda>x. under (othersKeepSample lw) (\<lambda>w. storedAs lw x (ww_store w)))
      (\<lambda>_. under (othersKeepSample lw) (\<lambda>w. writes_inv (ww_store w))) s1"
    if "under (othersKeepSample lw) (\<lambda>w. sampleRecorded lw (ww_store w)) s1" for row and s1 :: "'a WriterWorld_scheme System"
  proof -
    have "wpr (callPublish row) (\<lambda>_. under (othersKeepSample lw) (\<lambda>w. sampleRecorded lw (ww_store w)))
        (\<lambda>_. under (othersKeepSample lw) (\<lambda>w. writes_inv (ww_store w))) s1"
      by (rule wpr_mono [OF keepsD [OF store_calls(5) [OF sample_stable(3)] that]]) (auto simp: under_def sampleRecorded_def)
    then show ?thesis
      by (rule wpr_then) (intro recorded_end store_calls(10) sample_stable(3), simp_all)
  qed
  show ?thesis
    unfolding liveOptimistic_def Let_def
    by (intro wpr_keeps_then [OF keeps_during [OF store_calls(2)]] wpr_keeps_then [OF store_calls(7)]
        wpr_keeps_then [OF store_calls(8)] sample_stable(1) assms(1) wpr_peek_then wpr_then [OF insert_sample [OF _ assms(2)]]
        finish)
qed

lemma refused_keeps_store:
  "stableUnder R (\<lambda>w. p (ww_store w)) \<Longrightarrow> keeps R (\<lambda>w. p (ww_store w)) (handleFailedAircraftBroadcast icao u result)"
  unfolding handleFailedAircraftBroadcast_def by (intro keeps_intros store_calls)

lemma settle_keeps_store:
  "stableUnder R (\<lambda>w. p (ww_store w)) \<Longrightarrow> keeps R (\<lambda>w. p (ww_store w)) (settleInputAfterFailedWrite icao u b msg)"
  unfolding settleInputAfterFailedWrite_def by (intro keeps_intros store_calls)

lemma acquire_failure_keeps_store:
  "stableUnder R (\<lambda>w. p (ww_store w)) \<Longrightarrow> keeps R (\<lambda>w. p (ww_store w)) (handleAcquireFailure cfg icao f)"
  unfolding handleAcquireFailure_def
  by (cases f; simp split: acquire_error.split; intro conjI allI impI keeps_intros store_calls; assumption)

lemma live_attempt_stores:
  fixes s :: "'z WriterWorld_scheme System"
  assumes "under (othersKeepSample lw) (\<lambda>w. writes_inv (ww_store w)) s"
  shows "wpr (liveAttempt cfg lw lock u) (\<lambda>x. under (othersKeepSample lw) (\<lambda>w. storedAs lw x (ww_store w)))
     (\<lambda>_. under (othersKeepSample lw) (\<lambda>w. writes_inv (ww_store w))) s"
proof -
  let ?R = "othersKeepSample lw" and ?I = "\<lambda>w :: 'z WriterWorld_scheme. writes_inv (ww_store w)"
  let ?Q = "\<lambda>x. under ?R (\<lambda>w. storedAs lw x (ww_store w))"
  let ?b = "lw_build lw lock (tw_clock (world s)) u" and ?unsent = "\<lparr> at_input = Some u, at_broadcast = False \<rparr>"
  let ?a = "\<lparr> at_input = Some u, at_broadcast = True \<rparr>"
  have sent: "wpr (andThen (during ?a (calling (await () (sendTx (br_tx built))))) (\<lambda>result.
        if bo_status result = FAILED then
          if isDependencyPendingBroadcastFailure result \<and> \<not> wc_hasSeenOnNetworkGate cfg
          then liveOptimistic cfg lw u built
          else andThen (handleFailedAircraftBroadcast (lw_icao lw) u result) (\<lambda>f. raise (?a, f))
        else liveAccepted cfg lw u built (bo_txid result))) ?Q (\<lambda>_. under ?R ?I) s1"
    if "under ?R ?I s1" "?b = Inr built" for s1 built
  proof (rule wpr_keeps_then [OF keeps_during [OF keeps_calling [OF store_calls(12)]] that(1)])
    fix result and s2 :: "'z WriterWorld_scheme System" assume s2: "under ?R ?I s2"
    have "wpr (andThen (handleFailedAircraftBroadcast (lw_icao lw) u result) (\<lambda>f. raise (?a, f))) ?Q (\<lambda>_. under ?R ?I) s2"
      by (rule wpr_keeps_then [OF refused_keeps_store [OF sample_stable(1)] s2]) (simp only: wp_raise)
    then show "wpr (if bo_status result = FAILED then
          if isDependencyPendingBroadcastFailure result \<and> \<not> wc_hasSeenOnNetworkGate cfg
          then liveOptimistic cfg lw u built
          else andThen (handleFailedAircraftBroadcast (lw_icao lw) u result) (\<lambda>f. raise (?a, f))
        else liveAccepted cfg lw u built (bo_txid result)) ?Q (\<lambda>_. under ?R ?I) s2"
      using accepted_stores [OF s2 that(2)] optimistic_stores [OF s2 that(2)] by (simp only: split: if_split) simp
  qed (rule sample_stable)
  have built: "wpr (during ?unsent (calling (await () (\<lambda>w. (?b, w))))) (\<lambda>x s. under ?R ?I s \<and> x = ?b) (\<lambda>_. under ?R ?I) s"
  proof -
    have "wpr (await () (\<lambda>w. (?b, w))) (\<lambda>x. under ?R (\<lambda>w. ?I w \<and> x = ?b)) (\<lambda>e. under ?R (\<lambda>w. e = () \<and> ?I w)) s"
      by (rule wp_await [OF assms sample_stable(1) stableUnder_conj [OF sample_stable(1) stableUnder_const] sample_stable(1)]) auto
    then show ?thesis
      unfolding during_def calling_def wp_onError
      by (rule wpr_mono) (auto simp: wp_andThen wp_peek_eq wp_raise under_def)
  qed
  show ?thesis
    unfolding liveAttempt_def Let_def
  proof (rule wpr_peek_then, rule wpr_then [OF built])
    fix x and s1 :: "'z WriterWorld_scheme System" assume x: "under ?R ?I s1 \<and> x = ?b"
    show "wpr (case x of
          Inl _ \<Rightarrow> andThen (peek ww_error) (\<lambda>txt. raise (?unsent, Message txt))
        | Inr built \<Rightarrow> andThen (during ?a (calling (await () (sendTx (br_tx built))))) (\<lambda>result.
            if bo_status result = FAILED then
              if isDependencyPendingBroadcastFailure result \<and> \<not> wc_hasSeenOnNetworkGate cfg
              then liveOptimistic cfg lw u built
              else andThen (handleFailedAircraftBroadcast (lw_icao lw) u result) (\<lambda>f. raise (?a, f))
            else liveAccepted cfg lw u built (bo_txid result))) ?Q (\<lambda>_. under ?R ?I) s1"
    proof (cases x)
      case (Inl e)
      have "wpr (andThen (peek ww_error) (\<lambda>txt. raise (?unsent, Message txt))) ?Q (\<lambda>_. under ?R ?I) s1"
        by (rule wpr_peek_then) (use x in \<open>simp only: wp_raise\<close>)
      then show ?thesis unfolding Inl sum.case .
    next
      case (Inr built)
      then show ?thesis using sent [of s1 built] x by simp
    qed
  qed
qed

lemma live_failed_stores:
  fixes s :: "'z WriterWorld_scheme System"
  assumes "under (othersKeepSample lw) (\<lambda>w. writes_inv (ww_store w)) s"
  shows "wpr (liveFailed lw u e) (\<lambda>x. under (othersKeepSample lw) (\<lambda>w. storedAs lw x (ww_store w)))
     (\<lambda>_. under (othersKeepSample lw) (\<lambda>w. writes_inv (ww_store w))) s"
  unfolding liveFailed_def Let_def
proof (rule wpr_keeps_then [OF settle_keeps_store [OF sample_stable(1)] assms], rule wpr_then)
  fix s1 :: "'z WriterWorld_scheme System" assume s1: "under (othersKeepSample lw) (\<lambda>w. writes_inv (ww_store w)) s1"
  show "wpr (onError (bufferLive lw) (\<lambda>_. ret ())) (\<lambda>_. under (othersKeepSample lw) (\<lambda>w. writes_inv (ww_store w)))
      (\<lambda>_. under (othersKeepSample lw) (\<lambda>w. writes_inv (ww_store w))) s1"
    unfolding wp_onError wp_ret
    by (rule wpr_mono [OF buffer_stores [OF s1]]) (auto simp: under_def sampleWaits_def)
  show "wpr (ret (if b then Buffered_after_backpressure else Buffered_after_failure))
      (\<lambda>x. under (othersKeepSample lw) (\<lambda>w. storedAs lw x (ww_store w)))
      (\<lambda>_. under (othersKeepSample lw) (\<lambda>w. writes_inv (ww_store w))) s2"
    if "under (othersKeepSample lw) (\<lambda>w. writes_inv (ww_store w)) s2" for b s2
    using that by (simp only: wp_ret split: if_split) simp
qed

lemma write_stores:
  fixes s :: "'z WriterWorld_scheme System"
  assumes "under (othersKeepSample lw) (\<lambda>w. writes_inv (ww_store w)) s"
  shows "wpr (writeNow cfg lw) (\<lambda>x. under (othersKeepSample lw) (\<lambda>w. storedAs lw x (ww_store w)))
     (\<lambda>_. under (othersKeepSample lw) (\<lambda>w. writes_inv (ww_store w))) s"
proof (cases "aircraftLock (wc_refill cfg) (lw_icao lw)")
  case None
  have "wpr (andThen (peek ww_error) (\<lambda>txt. raise (Message txt))) (\<lambda>x. under (othersKeepSample lw) (\<lambda>w. storedAs lw x (ww_store w)))
      (\<lambda>_. under (othersKeepSample lw) (\<lambda>w. writes_inv (ww_store w))) s"
    by (rule wpr_peek_then) (use assms in \<open>simp only: wp_raise\<close>)
  then show ?thesis unfolding writeNow_def None option.case .
next
  case (Some lock)
  have acquire: "keeps (othersKeepSample lw) (\<lambda>w. writes_inv (ww_store w))
      (onError (andThen (callAcquireUtxo (lw_icao lw) 0) (\<lambda>u. ret (Inr u))) (\<lambda>f. ret (Inl f)))"
    by (intro keeps_intros store_calls sample_stable)
  show ?thesis
    unfolding writeNow_def Some option.case
  proof (rule wpr_keeps_then [OF acquire assms])
    fix acquired and s1 :: "'z WriterWorld_scheme System"
    assume s1: "under (othersKeepSample lw) (\<lambda>w. writes_inv (ww_store w)) s1"
    have failed: "wpr (andThen (handleAcquireFailure cfg (lw_icao lw) f) (\<lambda>_. bufferDeferredWrite lw Buffered_utxo_unavailable))
        (\<lambda>x. under (othersKeepSample lw) (\<lambda>w. storedAs lw x (ww_store w)))
        (\<lambda>_. under (othersKeepSample lw) (\<lambda>w. writes_inv (ww_store w))) s1" for f
      by (rule wpr_keeps_then [OF acquire_failure_keeps_store [OF sample_stable(1)] s1], rule deferred_stores) simp_all
    have tried: "wpr (onError (liveAttempt cfg lw lock u) (liveFailed lw u))
        (\<lambda>x. under (othersKeepSample lw) (\<lambda>w. storedAs lw x (ww_store w)))
        (\<lambda>_. under (othersKeepSample lw) (\<lambda>w. writes_inv (ww_store w))) s1" for u
      unfolding wp_onError by (rule wpr_mono [OF live_attempt_stores [OF s1]]) (assumption, rule live_failed_stores)
    show "wpr (case acquired of
          Inl f \<Rightarrow> andThen (handleAcquireFailure cfg (lw_icao lw) f) (\<lambda>_. bufferDeferredWrite lw Buffered_utxo_unavailable)
        | Inr u \<Rightarrow> onError (liveAttempt cfg lw lock u) (liveFailed lw u))
        (\<lambda>x. under (othersKeepSample lw) (\<lambda>w. storedAs lw x (ww_store w)))
        (\<lambda>_. under (othersKeepSample lw) (\<lambda>w. writes_inv (ww_store w))) s1"
      by (cases acquired) (simp_all only: sum.case failed tried)
  qed
qed

text \<open>The checks of both handlers before a write.\<close>

definition whenAllowed :: "(bool \<Rightarrow> 'z WriterWorld_scheme \<Rightarrow> bool) \<Rightarrow> WriterConfig \<Rightarrow> LiveWrite \<Rightarrow> ('z, failure, LiveOutcome) writer_job" where
  "whenAllowed busy cfg lw =
     andThen askGovernor (\<lambda>ok.
     andThen (peek (\<lambda>w. \<not> ok \<or> blocksBroadcast (Some (lw_icao lw)) None (hold (rw_utxos w)))) (\<lambda>spendHalted.
     andThen (peek (busy spendHalted)) (\<lambda>deferred.
     if deferred then bufferDeferredWrite lw (if spendHalted then Buffered_spend_halted else Buffered_preemptive)
     else writeNow cfg lw)))"

lemma handlers_checked:
  "\<exists>busy. processTelemetryWrite cfg encode icao (Some telemetry) = whenAllowed busy cfg (telemetryWrite encode icao telemetry)"
  "\<exists>busy. processFlightEventWrite cfg encodeEvent icaoOf flightOf icao (Some event)
     = whenAllowed busy cfg (flightEventWrite encodeEvent icaoOf flightOf icao event)"
proof -
  have icao: "lw_icao (telemetryWrite encode icao telemetry) = icao"
    "lw_icao (flightEventWrite encodeEvent icaoOf flightOf icao event) = icao"
    by (simp_all add: telemetryWrite_def flightEventWrite_def)
  show "\<exists>busy. processTelemetryWrite cfg encode icao (Some telemetry) = whenAllowed busy cfg (telemetryWrite encode icao telemetry)"
    unfolding processTelemetryWrite_def option.case Let_def whenAllowed_def icao by (rule exI) (rule refl)
  show "\<exists>busy. processFlightEventWrite cfg encodeEvent icaoOf flightOf icao (Some event)
      = whenAllowed busy cfg (flightEventWrite encodeEvent icaoOf flightOf icao event)"
    unfolding processFlightEventWrite_def option.case Let_def whenAllowed_def icao by (rule exI) (rule refl)
qed

lemma allowed_stores:
  fixes s :: "'z WriterWorld_scheme System"
  assumes "obeys (othersKeepSample lw) s" "writes_inv (ww_store (world s))" "whenAllowed busy cfg lw s = (Returned x, s')"
  shows "storedAs lw x (ww_store (world s'))"
proof -
  let ?Q = "\<lambda>x. under (othersKeepSample lw) (\<lambda>w. storedAs lw x (ww_store w))"
  let ?I = "under (othersKeepSample lw) (\<lambda>w. writes_inv (ww_store w))"
  have s: "?I s" using assms(1,2) by (simp add: under_def)
  have "wpr (whenAllowed busy cfg lw) ?Q (\<lambda>_. ?I) s"
    unfolding whenAllowed_def
  proof (rule wpr_keeps_then [OF store_askGovernor s], rule wpr_peek_then, rule wpr_peek_then)
    fix ok and s1 :: "'z WriterWorld_scheme System" assume s1: "?I s1"
    show "wpr (if deferred then bufferDeferredWrite lw (if halted then Buffered_spend_halted else Buffered_preemptive)
        else writeNow cfg lw) ?Q (\<lambda>_. ?I) s1" for deferred halted
      by (rule wpr_if [OF deferred_stores [OF s1] write_stores [OF s1]]) simp
  qed
  from wpr_run [OF this assms(3)] show ?thesis by (simp add: under_def)
qed

text \<open>
  C36: what the live path reports is true. When the handler of a sample counts it as broadcast, a result row of
  its aircraft and flight holds an envelope that was built from it; when it counts it as deferred before an attempt, a
  row with its payload waits in the buffer. This holds whatever calls fail and whatever the other tasks do to
  the store, as long as they do not drop a row with that payload meanwhile. Nothing is claimed for
  \<open>buffered_after_failure\<close>: that label is counted although the row may have been refused.
\<close>

theorem live_reports_are_stored:
  fixes s :: "'z WriterWorld_scheme System"
  assumes "obeys (othersKeepSample (telemetryWrite encode icao telemetry)) s" "writes_inv (ww_store (world s))"
    and "processTelemetryWrite cfg encode icao (Some telemetry) s = (Returned outcome, s')"
  shows "(outcome \<in> {Broadcasted, Optimistic_orphan} \<longrightarrow>
           (\<exists>x\<in>set (ws_results (ww_store (world s'))). rx_aircraft_icao x = icao \<and> rx_record_type x = TELEMETRY
              \<and> rx_flight_id x = tr_flight_id telemetry
              \<and> (\<exists>envelope. rx_op_return x = Some envelope \<and> buildOpReturnPayload (tr_icao telemetry)
                   (map_option of_int (tr_ts telemetry)) TELEMETRY (encode telemetry) = Inr envelope)))
    \<and> (outcome \<in> {Buffered_spend_halted, Buffered_preemptive, Buffered_utxo_unavailable} \<longrightarrow>
           (\<exists>r\<in>set (ws_pending (ww_store (world s'))). pw_aircraft_icao r = icao \<and> pw_record_type r = TELEMETRY
              \<and> pw_payload r = encode telemetry \<and> pw_flight_id r = tr_flight_id telemetry))"
proof -
  let ?lw = "telemetryWrite encode icao telemetry" and ?st = "ww_store (world s')"
  obtain busy where "(processTelemetryWrite cfg encode icao (Some telemetry) :: ('z, failure, LiveOutcome) writer_job) = whenAllowed busy cfg ?lw"
    using handlers_checked(1) by blast
  with assms(3) have "whenAllowed busy cfg ?lw s = (Returned outcome, s')" by simp
  from allowed_stores [OF assms(1,2) this] have stored: "storedAs ?lw outcome ?st" .
  have "\<exists>envelope. br_opReturn built = Some envelope \<and> buildOpReturnPayload (tr_icao telemetry)
      (map_option of_int (tr_ts telemetry)) TELEMETRY (encode telemetry) = Inr envelope"
    if "lw_build ?lw lock now u = Inr built" for lock now u built
    using that by (auto simp: telemetryWrite_def buildTelemetryTx_def buildEnvelopeTx_def buildOpReturnTx_def Let_def
        split: sum.splits if_splits)
  then have "recordsSample ?lw x \<Longrightarrow> rx_aircraft_icao x = icao \<and> rx_record_type x = TELEMETRY
      \<and> rx_flight_id x = tr_flight_id telemetry
      \<and> (\<exists>envelope. rx_op_return x = Some envelope \<and> buildOpReturnPayload (tr_icao telemetry)
           (map_option of_int (tr_ts telemetry)) TELEMETRY (encode telemetry) = Inr envelope)" for x
    by (fastforce simp: recordsSample_def telemetryWrite_def)
  moreover have "isSample ?lw r \<Longrightarrow> pw_aircraft_icao r = icao \<and> pw_record_type r = TELEMETRY
      \<and> pw_payload r = encode telemetry \<and> pw_flight_id r = tr_flight_id telemetry" for r
    by (simp add: isSample_def telemetryWrite_def)
  ultimately show ?thesis using stored by (auto simp: sampleRecorded_def sampleWaits_def) blast+
qed

subsection \<open>The input of a write\<close>

text \<open>The transaction is sent and its input locked; when it is not seen yet, the input is still in the pool.\<close>

definition fineSent ::
  "WriterConfig \<Rightarrow> Transaction list \<Rightarrow> (Transaction list \<Rightarrow> Transaction \<Rightarrow> BroadcastOutcome) \<Rightarrow> Transaction \<Rightarrow> UTXORecord
     \<Rightarrow> 'z WriterWorld_scheme \<Rightarrow> bool" where
  "fineSent cfg ts ans tx u w \<longleftrightarrow>
     sentSafe ts ans tx u w
   \<and> (isDependencyPendingBroadcastFailure (ans ts tx) \<and> wc_hasSeenOnNetworkGate cfg \<longrightarrow> held (keyOfRow u) (pool (rw_utxos w)))"

definition fineEnd ::
  "WriterConfig \<Rightarrow> Transaction list \<Rightarrow> (Transaction list \<Rightarrow> Transaction \<Rightarrow> BroadcastOutcome) \<Rightarrow> 'z WriterWorld_scheme \<Rightarrow> bool" where
  "fineEnd cfg ts ans w \<longleftrightarrow> unsentYet ts ans (lockView w) \<or> (\<exists>tx u. fineSent cfg ts ans tx u w)"

definition fineFailure ::
  "WriterConfig \<Rightarrow> Transaction list \<Rightarrow> (Transaction list \<Rightarrow> Transaction \<Rightarrow> BroadcastOutcome) \<Rightarrow> string \<Rightarrow> Attempt \<times> failure
     \<Rightarrow> 'z WriterWorld_scheme \<Rightarrow> bool" where
  "fineFailure cfg ts ans icao e w \<longleftrightarrow>
     unsentYet ts ans (lockView w)
   \<or> (\<exists>tx u. fineSent cfg ts ans tx u w) \<and> at_broadcast (fst e) \<and> \<not> isUnsentBroadcastError (messageOf icao (snd e))"

text \<open>What it depends on.\<close>

definition failureTextsDiffer :: "(Transaction \<Rightarrow> BroadcastOutcome) \<Rightarrow> bool" where
  "failureTextsDiffer answer \<longleftrightarrow>
     (\<forall>t. \<not> isUnsentBroadcastError (dependencyMessage (codeOr (answer t)))
        \<and> \<not> isUnsentBroadcastError (transientMessage (answer t)) \<and> \<not> isUnsentBroadcastError (failedMessage (answer t)))"

lemma fine_stable: "stableUnder leavesLocks (fineSent cfg ts ans tx u)"
proof -
  have "fineSent cfg ts ans tx u w'" if "leavesLocks w w'" "fineSent cfg ts ans tx u w" for w w' :: "'z WriterWorld_scheme"
  proof (cases "held (keyOfRow u) (pool (rw_utxos w))")
    case True
    then have "heldSent ts ans tx u w" using that(2) by (simp add: fineSent_def)
    then have "heldSent ts ans tx u w'" using held_stable [of ts ans tx u] that(1) unfolding stableUnder_def by blast
    then show ?thesis by (simp add: fineSent_def)
  next
    case False
    then show ?thesis using that sent_stays [OF that(1)] by (auto simp: fineSent_def)
  qed
  then show ?thesis by (auto simp only: stableUnder_def)
qed

lemma fineEnd_stable: "stableUnder leavesLocks (fineEnd cfg ts ans)"
  using fine_stable [of cfg ts ans] locks_stable(1) [of ts ans] unfolding stableUnder_def fineEnd_def by blast

text \<open>Both are about the view that the steps of the write path keep.\<close>

lemma fine_view:
  "fineSent cfg ts ans tx u w \<longleftrightarrow> sentLocked ts ans tx u (lockView w)
     \<and> (isDependencyPendingBroadcastFailure (ans ts tx) \<and> wc_hasSeenOnNetworkGate cfg \<longrightarrow> held (keyOfRow u) (fst (lockView w)))"
  "fineEnd cfg ts ans w \<longleftrightarrow> unsentYet ts ans (lockView w) \<or> (\<exists>tx u. sentLocked ts ans tx u (lockView w)
     \<and> (isDependencyPendingBroadcastFailure (ans ts tx) \<and> wc_hasSeenOnNetworkGate cfg \<longrightarrow> held (keyOfRow u) (fst (lockView w))))"
  by (simp_all add: fineSent_def fineEnd_def lockView_def)

lemma fine_keeps:
  assumes "\<And>q :: lock_view \<Rightarrow> bool. stableUnder leavesLocks (\<lambda>w :: 'z WriterWorld_scheme. q (lockView w)) \<Longrightarrow>
      keeps leavesLocks (\<lambda>w :: 'z WriterWorld_scheme. q (lockView w)) m"
  shows "keeps leavesLocks (fineSent cfg ts ans tx u) m" "keeps leavesLocks (fineEnd cfg ts ans) m"
proof -
  let ?q = "\<lambda>v. sentLocked ts ans tx u v
     \<and> (isDependencyPendingBroadcastFailure (ans ts tx) \<and> wc_hasSeenOnNetworkGate cfg \<longrightarrow> held (keyOfRow u) (fst v))"
  have eq: "(\<lambda>w. ?q (lockView w)) = fineSent cfg ts ans tx u" by (intro ext) (simp only: fine_view)
  have "stableUnder leavesLocks (\<lambda>w. ?q (lockView w))" unfolding eq by (rule fine_stable)
  from assms [OF this] show "keeps leavesLocks (fineSent cfg ts ans tx u) m" unfolding eq .
  let ?q = "\<lambda>v. unsentYet ts ans v \<or> (\<exists>tx u. sentLocked ts ans tx u v
     \<and> (isDependencyPendingBroadcastFailure (ans ts tx) \<and> wc_hasSeenOnNetworkGate cfg \<longrightarrow> held (keyOfRow u) (fst v)))"
  have eq: "(\<lambda>w. ?q (lockView w)) = fineEnd cfg ts ans" by (intro ext) (simp only: fine_view)
  have "stableUnder leavesLocks (\<lambda>w. ?q (lockView w))" unfolding eq by (rule fineEnd_stable)
  from assms [OF this] show "keeps leavesLocks (fineEnd cfg ts ans) m" unfolding eq .
qed

lemma lock_buffer:
  assumes "stableUnder R (\<lambda>w. q (lockView w))"
  shows "keeps R (\<lambda>w. q (lockView w)) askGovernor" "keeps R (\<lambda>w. q (lockView w)) (bufferLive lw)"
proof -
  show ask: "keeps R (\<lambda>w. q (lockView w)) askGovernor"
    unfolding askGovernor_def by (intro keeps_intros lock_calls(7) assms)
  have preserves: "keeps R (\<lambda>w. q (lockView w)) (preservesStream icao)" for icao
    unfolding preservesStream_def askGovernor_def by (intro keeps_intros lock_calls(7) assms)
  show "keeps R (\<lambda>w. q (lockView w)) (bufferLive lw)"
    unfolding bufferLive_def buffer_def Let_def
    by (intro keeps_calls preserves lock_calls(9) assms)
qed

text \<open>An attempt that was not refused keeps the input locked; its failure does not read like a refusal.\<close>

lemma during_fails:
  assumes "speaksFor leavesLocks (sentSafe ts ans tx u) m" "under leavesLocks (sentSafe ts ans tx u) s"
  shows "wpr (during a m) (\<lambda>_. under leavesLocks (sentSafe ts ans tx u))
     (\<lambda>e. under leavesLocks (\<lambda>w. sentSafe ts ans tx u w \<and> fst e = a \<and> \<not> isUnsentBroadcastError (messageOf icao (snd e)))) s"
proof -
  have "wpr m (\<lambda>_. under leavesLocks (sentSafe ts ans tx u))
      (\<lambda>f s'. under leavesLocks (sentSafe ts ans tx u) s' \<and> (\<forall>icao. \<not> isUnsentBroadcastError (messageOf icao f))) s"
    using assms by (simp add: speaksFor_def)
  then show ?thesis unfolding during_def wp_onError by (rule wpr_mono) (auto simp: wp_raise under_def)
qed

lemma accepted_live_locks:
  assumes "under leavesLocks (sentSafe ts ans tx u) s" "t \<noteq> txid u"
  shows "wpr (liveAccepted cfg lw u built t) (\<lambda>_. under leavesLocks (sentSafe ts ans tx u))
     (\<lambda>e. under leavesLocks (\<lambda>w. sentSafe ts ans tx u w \<and> fst e = \<lparr> at_input = Some u, at_broadcast = True \<rparr>
        \<and> \<not> isUnsentBroadcastError (messageOf icao (snd e)))) s"
  unfolding liveAccepted_def Let_def
  by (intro wpr_then [OF during_fails] recordSpend_speaks quiet_sent [OF lock_calls(5) quiet_steps(1)]
      quiet_sent [OF lock_calls(7) quiet_steps(3)] wpr_peek_then speaks_insert
      quiet_sent [OF lock_calls(3) quiet_steps(6)] locks_stable)
     (use assms in \<open>simp_all add: wp_ret recordSpend_speaks\<close>)

lemma optimistic_live_locks:
  assumes "under leavesLocks (sentSafe ts ans tx u) s" "wc_computeTxid cfg (br_tx built) \<noteq> txid u"
  shows "wpr (liveOptimistic cfg lw u built) (\<lambda>_. under leavesLocks (sentSafe ts ans tx u))
     (\<lambda>e. under leavesLocks (\<lambda>w. sentSafe ts ans tx u w \<and> fst e = \<lparr> at_input = Some u, at_broadcast = True \<rparr>
        \<and> \<not> isUnsentBroadcastError (messageOf icao (snd e)))) s"
  unfolding liveOptimistic_def Let_def
  by (intro wpr_then [OF during_fails] recordSpend_speaks quiet_sent [OF lock_calls(5) quiet_steps(1)]
      quiet_sent [OF lock_calls(6) quiet_steps(2)]
      quiet_sent [OF lock_calls(7) quiet_steps(3)] wpr_peek_then speaks_insert
      quiet_sent [OF lock_calls(3) quiet_steps(6)] locks_stable)
     (use assms in \<open>simp_all add: wp_ret recordSpend_speaks\<close>)


lemma delay_locks:
  "stableUnder leavesLocks (\<lambda>w. q (lockView w)) \<Longrightarrow>
     keeps leavesLocks (\<lambda>w. q (lockView w)) (noteUtxos (\<lambda>now. delaySpendRetries now (txid u) (vout u) ms))"
  by (rule lock_noteUtxos) simp

lemma refused_live_locks:
  assumes "under leavesLocks (fineSent cfg ts ans tx u) s" "failureTextsDiffer (ans ts)" "result = ans ts tx"
    and "\<not> isLocalBackpressureBroadcastFailure result" "wc_hasSeenOnNetworkGate cfg \<or> \<not> isDependencyPendingBroadcastFailure result"
  shows "wpr (handleFailedAircraftBroadcast icao u result)
     (\<lambda>f. under leavesLocks (\<lambda>w. fineSent cfg ts ans tx u w \<and> \<not> isUnsentBroadcastError (messageOf icao f))) (\<lambda>_ _. False) s"
proof -
  have texts: "\<not> isUnsentBroadcastError (messageOf icao' (Message (dependencyMessage (codeOr result))))"
    "\<not> isUnsentBroadcastError (messageOf icao' (Message (transientMessage result)))"
    "\<not> isUnsentBroadcastError (messageOf icao' (Message (failedMessage result)))" for icao'
    using assms(2,3) by (simp_all add: failureTextsDiffer_def messageOf_def)
  have finish: "wpr (ret (Message m)) (\<lambda>f. under leavesLocks (\<lambda>w. fineSent cfg ts ans tx u w \<and> \<not> isUnsentBroadcastError (messageOf icao f)))
      (\<lambda>_ _. False) s1"
    if "under leavesLocks (fineSent cfg ts ans tx u) s1" "\<And>icao'. \<not> isUnsentBroadcastError (messageOf icao' (Message m))" for m s1
    using that by (simp only: wp_ret under_def simp_thms)
  note delay = quiet_then [OF fine_keeps(1) [OF delay_locks] quiet_steps(4)]
  show ?thesis
  proof (cases "isDependencyPendingBroadcastFailure result")
    case True
    show ?thesis
      unfolding handleFailedAircraftBroadcast_def if_P [OF True]
      by (rule delay [OF _ assms(1)]) (assumption, rule finish [OF _ texts(1)])
  next
    case False
    note dep = False
    show ?thesis
    proof (cases "isTransientBroadcastFailure result")
      case True
      show ?thesis
        unfolding handleFailedAircraftBroadcast_def if_not_P [OF dep] if_not_P [OF assms(4)] if_P [OF True]
        by (rule delay [OF _ assms(1)], assumption, rule quiet_then [OF fine_keeps(1) [OF lock_calls(8)] quiet_steps(5)])
           (assumption, assumption, rule finish [OF _ texts(2)])
    next
      case False
      have s: "under leavesLocks (sentSafe ts ans tx u) s" using assms(1) by (simp add: under_def fineSent_def)
      have stale: "keeps leavesLocks (sentSafe ts ans tx u) (callDeleteStaleUtxo u)"
        unfolding callDeleteStaleUtxo_def
        by (intro keeps_calls keeps_await lock_noteUtxos locks_stable) (auto simp: toUtxos_def lockView_def lockedAway_delete)
      have fine: "under leavesLocks (fineSent cfg ts ans tx u) s1" if "under leavesLocks (sentSafe ts ans tx u) s1" for s1
        using that dep assms(3) by (simp add: under_def fineSent_def)
      show ?thesis
        unfolding handleFailedAircraftBroadcast_def if_not_P [OF dep] if_not_P [OF assms(4)] if_not_P [OF False]
        by (rule quiet_then [OF stale quiet_steps(7) s], rule finish [OF fine texts(3)])
    qed
  qed
qed

text \<open>From the broadcast on.\<close>

lemma live_broadcast_locks:
  fixes s :: "'z WriterWorld_scheme System"
  assumes s: "under leavesLocks (\<lambda>w. holding ts ans u (lockView w)) s"
    and b: "tx_inputs (br_tx built) = [inputOf u]" and h: "txidsAreFresh cfg (ans ts)" "failureTextsDiffer (ans ts)"
  shows "wpr (andThen (during \<lparr> at_input = Some u, at_broadcast = True \<rparr> (calling (await () (sendTx (br_tx built))))) (\<lambda>result.
        if bo_status result = FAILED then
          if isDependencyPendingBroadcastFailure result \<and> \<not> wc_hasSeenOnNetworkGate cfg
          then liveOptimistic cfg lw u built
          else andThen (handleFailedAircraftBroadcast icao u result) (\<lambda>f. raise (\<lparr> at_input = Some u, at_broadcast = True \<rparr>, f))
        else liveAccepted cfg lw u built (bo_txid result))) (\<lambda>_. under leavesLocks (fineEnd cfg ts ans))
     (\<lambda>e. under leavesLocks (fineFailure cfg ts ans icao e)) s"
proof -
  let ?t = "br_tx built" and ?a = "\<lparr> at_input = Some u, at_broadcast = True \<rparr>"
  let ?End = "\<lambda>_. under leavesLocks (fineEnd cfg ts ans)" and ?Err = "\<lambda>e. under leavesLocks (fineFailure cfg ts ans icao e)"
  have send: "wpr (during ?a (calling (await () (sendTx ?t))))
      (\<lambda>result s'. result = ans ts ?t
         \<and> (if isLocalBackpressureBroadcastFailure result then under leavesLocks (\<lambda>w. unsentYet ts ans (lockView w)) s'
            else under leavesLocks (\<lambda>w. heldSent ts ans ?t u w) s')) ?Err s"
    unfolding during_def wp_onError
    by (rule wpr_mono [OF send_holds [OF s b]]) (auto simp: wp_raise under_def fineFailure_def fineSent_def)
  show ?thesis
  proof (rule wpr_then [OF send])
    fix result and s1 :: "'z WriterWorld_scheme System"
    assume a: "result = ans ts ?t
         \<and> (if isLocalBackpressureBroadcastFailure result then under leavesLocks (\<lambda>w. unsentYet ts ans (lockView w)) s1
            else under leavesLocks (\<lambda>w. heldSent ts ans ?t u w) s1)"
    have fresh: "bo_txid result \<noteq> txid u" "wc_computeTxid cfg ?t \<noteq> txid u"
      using bspec [OF spec [OF h(1) [unfolded txidsAreFresh_def], of ?t], of "inputOf u"] b a by (simp_all add: inputOf_def)
    have safe: "under leavesLocks (sentSafe ts ans ?t u) s1" if "\<not> isLocalBackpressureBroadcastFailure result"
      using a that by (auto simp: under_def)
    have fine: "under leavesLocks (fineSent cfg ts ans ?t u) s1" if "\<not> isLocalBackpressureBroadcastFailure result"
      using a that by (auto simp: under_def fineSent_def)
    have done': "under leavesLocks (fineEnd cfg ts ans) s2"
      if "under leavesLocks (sentSafe ts ans ?t u) s2" "\<not> (isDependencyPendingBroadcastFailure result \<and> wc_hasSeenOnNetworkGate cfg)"
      for s2 using that a by (auto simp: under_def fineEnd_def fineSent_def)
    have fails: "under leavesLocks (fineFailure cfg ts ans icao e) s2"
      if "under leavesLocks (\<lambda>w. sentSafe ts ans ?t u w \<and> fst e = ?a \<and> \<not> isUnsentBroadcastError (messageOf icao (snd e))) s2"
        "\<not> (isDependencyPendingBroadcastFailure result \<and> wc_hasSeenOnNetworkGate cfg)" for e s2
      using that a by (auto simp: under_def fineFailure_def fineSent_def)
    have accepted: "wpr (liveAccepted cfg lw u built (bo_txid result)) ?End ?Err s1" if "bo_status result \<noteq> FAILED"
    proof -
      have n: "\<not> isLocalBackpressureBroadcastFailure result" "\<not> isDependencyPendingBroadcastFailure result"
        using that by (simp_all add: isLocalBackpressureBroadcastFailure_def isDependencyPendingBroadcastFailure_def)
      show ?thesis
        by (rule wpr_mono [OF accepted_live_locks [OF safe [OF n(1)] fresh(1)]]) (use n(2) done' fails in blast)+
    qed
    have optimistic: "wpr (liveOptimistic cfg lw u built) ?End ?Err s1"
      if "isDependencyPendingBroadcastFailure result \<and> \<not> wc_hasSeenOnNetworkGate cfg"
    proof -
      have n: "\<not> isLocalBackpressureBroadcastFailure result" using failure_classes_disjoint(1) that by blast
      show ?thesis
        by (rule wpr_mono [OF optimistic_live_locks [OF safe [OF n] fresh(2)]]) (use that done' fails in blast)+
    qed
    have refused: "wpr (andThen (handleFailedAircraftBroadcast icao u result) (\<lambda>f. raise (?a, f))) ?End ?Err s1"
      if "\<not> (isDependencyPendingBroadcastFailure result \<and> \<not> wc_hasSeenOnNetworkGate cfg)"
    proof (cases "isLocalBackpressureBroadcastFailure result")
      case True
      have nd: "\<not> isDependencyPendingBroadcastFailure result" using failure_classes_disjoint(1) True by blast
      have "under leavesLocks (\<lambda>w. unsentYet ts ans (lockView w)) s1" using a True by simp
      then show ?thesis
        unfolding handleFailedAircraftBroadcast_def if_not_P [OF nd] if_P [OF True]
        by (simp add: wp_andThen wp_ret wp_raise under_def fineFailure_def)
    next
      case False
      show ?thesis
        unfolding wp_andThen
        by (rule wpr_mono [OF refused_live_locks [OF fine [OF False] h(2) conjunct1 [OF a] False]])
           (use that in \<open>auto simp: wp_raise under_def fineFailure_def\<close>)
    qed
    show "wpr (if bo_status result = FAILED then
          if isDependencyPendingBroadcastFailure result \<and> \<not> wc_hasSeenOnNetworkGate cfg
          then liveOptimistic cfg lw u built
          else andThen (handleFailedAircraftBroadcast icao u result) (\<lambda>f. raise (?a, f))
        else liveAccepted cfg lw u built (bo_txid result)) ?End ?Err s1"
      using accepted optimistic refused by (simp only: split: if_split) blast
  qed
qed

text \<open>Every builder spends the one input it is given.\<close>

definition spendsOnly :: "LiveWrite \<Rightarrow> bool" where
  "spendsOnly lw \<longleftrightarrow> (\<forall>lock now u built. lw_build lw lock now u = Inr built \<longrightarrow> tx_inputs (br_tx built) = [inputOf u])"

lemma envelope_inputs:
  "buildEnvelopeTx lock u icao ts recordType payload v = Inr built \<Longrightarrow> tx_inputs (br_tx built) = [inputOf u]"
  by (auto simp: buildEnvelopeTx_def buildOpReturnTx_def Let_def addInput_def addOutput_def newTransaction_def
      split: sum.splits if_splits)

lemma live_spends:
  "spendsOnly (telemetryWrite encode icao telemetry)"
  "spendsOnly (flightEventWrite encodeEvent icaoOf flightOf icao event)"
  using envelope_inputs
  by (auto simp: spendsOnly_def telemetryWrite_def flightEventWrite_def buildTelemetryTx_def buildFlightEventTx_def)

lemma live_attempt_locks:
  fixes s :: "'z WriterWorld_scheme System"
  assumes s: "under leavesLocks (\<lambda>w. holding ts ans u (lockView w)) s" and lw: "spendsOnly lw"
    and h: "txidsAreFresh cfg (ans ts)" "failureTextsDiffer (ans ts)"
  shows "wpr (liveAttempt cfg lw lock u) (\<lambda>_. under leavesLocks (fineEnd cfg ts ans))
     (\<lambda>e. under leavesLocks (fineFailure cfg ts ans (lw_icao lw) e)) s"
proof -
  let ?b = "lw_build lw lock (tw_clock (world s)) u" and ?unsent = "\<lparr> at_input = Some u, at_broadcast = False \<rparr>"
  let ?End = "\<lambda>_. under leavesLocks (fineEnd cfg ts ans)" and ?Err = "\<lambda>e. under leavesLocks (fineFailure cfg ts ans (lw_icao lw) e)"
  have built: "wpr (during ?unsent (calling (await () (\<lambda>w. (?b, w)))))
      (\<lambda>x s. under leavesLocks (\<lambda>w. holding ts ans u (lockView w)) s \<and> x = ?b) ?Err s"
  proof -
    have "wpr (await () (\<lambda>w. (?b, w))) (\<lambda>x. under leavesLocks (\<lambda>w. holding ts ans u (lockView w) \<and> x = ?b))
        (\<lambda>e. under leavesLocks (\<lambda>w. e = () \<and> holding ts ans u (lockView w))) s"
      by (rule wp_await [OF s locks_stable(2) stableUnder_conj [OF locks_stable(2) stableUnder_const] locks_stable(2)]) auto
    then show ?thesis
      unfolding during_def calling_def wp_onError
      by (rule wpr_mono) (auto simp: wp_andThen wp_peek_eq wp_raise under_def fineFailure_def lockView_def)
  qed
  show ?thesis
    unfolding liveAttempt_def Let_def
  proof (rule wpr_peek_then, rule wpr_then [OF built])
    fix x and s1 :: "'z WriterWorld_scheme System"
    assume x: "under leavesLocks (\<lambda>w. holding ts ans u (lockView w)) s1 \<and> x = ?b"
    show "wpr (case x of
          Inl _ \<Rightarrow> andThen (peek ww_error) (\<lambda>txt. raise (?unsent, Message txt))
        | Inr built \<Rightarrow> andThen (during \<lparr> at_input = Some u, at_broadcast = True \<rparr> (calling (await () (sendTx (br_tx built))))) (\<lambda>result.
            if bo_status result = FAILED then
              if isDependencyPendingBroadcastFailure result \<and> \<not> wc_hasSeenOnNetworkGate cfg
              then liveOptimistic cfg lw u built
              else andThen (handleFailedAircraftBroadcast (lw_icao lw) u result)
                (\<lambda>f. raise (\<lparr> at_input = Some u, at_broadcast = True \<rparr>, f))
            else liveAccepted cfg lw u built (bo_txid result))) ?End ?Err s1"
    proof (cases x)
      case (Inl e)
      then show ?thesis using x by (auto simp: wp_andThen wp_peek_eq wp_raise under_def fineFailure_def lockView_def)
    next
      case (Inr built)
      have "tx_inputs (br_tx built) = [inputOf u]" using lw x Inr unfolding spendsOnly_def by metis
      from live_broadcast_locks [OF conjunct1 [OF x] this h] show ?thesis unfolding Inr sum.case .
    qed
  qed
qed

lemma live_failed_locks:
  fixes s :: "'z WriterWorld_scheme System"
  assumes "under leavesLocks (fineFailure cfg ts ans (lw_icao lw) e) s"
  shows "wpr (liveFailed lw u e) (\<lambda>_. under leavesLocks (fineEnd cfg ts ans)) (\<lambda>_. under leavesLocks (fineEnd cfg ts ans)) s"
proof -
  let ?End = "\<lambda>_. under leavesLocks (fineEnd cfg ts ans)"
  let ?settle = "settleInputAfterFailedWrite (lw_icao lw) u (at_broadcast (fst e)) (messageOf (lw_icao lw) (snd e))"
  have settle: "wpr ?settle ?End ?End s"
  proof (cases "unsentYet ts ans (lockView (world s))")
    case True
    have "keeps leavesLocks (\<lambda>w. unsentYet ts ans (lockView w)) (callReleaseUtxo u)"
      unfolding callReleaseUtxo_def by (intro keeps_calls keeps_await locks_stable) (auto simp: toUtxos_def lockView_def)
    then have "keeps leavesLocks (\<lambda>w. unsentYet ts ans (lockView w)) ?settle"
      unfolding settleInputAfterFailedWrite_def by (intro keeps_if lock_calls(8) locks_stable)
    from keepsD [OF this, of s] True assms show ?thesis by (auto simp: under_def fineEnd_def elim!: wpr_mono)
  next
    case False
    then have b: "under leavesLocks (fineEnd cfg ts ans) s"
      "\<not> (\<not> at_broadcast (fst e) \<or> isUnsentBroadcastError (messageOf (lw_icao lw) (snd e)))"
      using assms by (auto simp: under_def fineFailure_def fineEnd_def)
    show ?thesis
      unfolding settleInputAfterFailedWrite_def if_not_P [OF b(2)]
      by (rule keepsD [OF fine_keeps(2) [OF lock_calls(8)] b(1)])
  qed
  have buffer: "keeps leavesLocks (fineEnd cfg ts ans) (onError (bufferLive lw) (\<lambda>_. ret ()) :: ('z, failure, unit) writer_job)"
    by (intro keeps_onError keeps_ret fine_keeps(2) lock_buffer)
  show ?thesis
    unfolding liveFailed_def Let_def
    by (rule wpr_then [OF settle], rule keepsD, intro keeps_andThen keeps_ret buffer)
qed

lemma deferred_locks:
  "stableUnder R (\<lambda>w. q (lockView w)) \<Longrightarrow> keeps R (\<lambda>w. q (lockView w)) (bufferDeferredWrite lw label)"
  unfolding bufferDeferredWrite_def by (intro keeps_intros lock_buffer)

lemma acquire_failure_locks:
  "stableUnder R (\<lambda>w. q (lockView w)) \<Longrightarrow> keeps R (\<lambda>w. q (lockView w)) (handleAcquireFailure cfg icao f)"
  unfolding handleAcquireFailure_def
  by (cases f; simp split: acquire_error.split; intro conjI allI impI keeps_intros lock_calls; assumption)

lemma allowed_locks:
  fixes s :: "'z WriterWorld_scheme System"
  assumes s: "under leavesLocks (\<lambda>w. unsentYet ts ans (lockView w)) s" and lw: "spendsOnly lw"
    and h: "txidsAreFresh cfg (ans ts)" "failureTextsDiffer (ans ts)"
  shows "wpr (whenAllowed busy cfg lw) (\<lambda>_. under leavesLocks (fineEnd cfg ts ans)) (\<lambda>_. under leavesLocks (fineEnd cfg ts ans)) s"
proof -
  let ?End = "\<lambda>_. under leavesLocks (fineEnd cfg ts ans)" and ?U = "under leavesLocks (\<lambda>w :: 'z WriterWorld_scheme. unsentYet ts ans (lockView w))"
  have unsent: "under leavesLocks (fineEnd cfg ts ans) s1" if "?U s1" for s1 using that by (simp add: under_def fineEnd_def)
  have deferred: "wpr (bufferDeferredWrite lw label) ?End ?End s1" if "?U s1" for label s1
    by (rule wpr_mono [OF keepsD [OF deferred_locks [OF locks_stable(1)] that]]) (erule unsent)+
  have now: "wpr (writeNow cfg lw) ?End ?End s1" if "?U s1" for s1
  proof (cases "aircraftLock (wc_refill cfg) (lw_icao lw)")
    case None
    show ?thesis
      unfolding writeNow_def None option.case by (rule wpr_peek_then) (use unsent [OF that] in \<open>simp only: wp_raise\<close>)
  next
    case (Some lock)
    have acquire: "wpr (onError (andThen (callAcquireUtxo (lw_icao lw) 0) (\<lambda>u. ret (Inr u))) (\<lambda>f. ret (Inl f)))
        (\<lambda>x. under leavesLocks (\<lambda>w. case x of Inl _ \<Rightarrow> unsentYet ts ans (lockView w) | Inr u \<Rightarrow> holding ts ans u (lockView w))) ?End s1"
      unfolding wp_onError wp_andThen
      by (rule wpr_mono [OF acquire_call_locks [OF that]]) (simp_all add: wp_ret under_def)
    show ?thesis
      unfolding writeNow_def Some option.case
    proof (rule wpr_then [OF acquire])
      fix x :: "failure + UTXORecord" and s2 :: "'z WriterWorld_scheme System"
      assume x: "under leavesLocks (\<lambda>w. case x of Inl _ \<Rightarrow> unsentYet ts ans (lockView w) | Inr u \<Rightarrow> holding ts ans u (lockView w)) s2"
      show "wpr (case x of
            Inl f \<Rightarrow> andThen (handleAcquireFailure cfg (lw_icao lw) f) (\<lambda>_. bufferDeferredWrite lw Buffered_utxo_unavailable)
          | Inr u \<Rightarrow> onError (liveAttempt cfg lw lock u) (liveFailed lw u)) ?End ?End s2"
      proof (cases x)
        case (Inl f)
        have u: "?U s2" using x Inl by simp
        have "keeps leavesLocks (\<lambda>w :: 'z WriterWorld_scheme. unsentYet ts ans (lockView w))
            (andThen (handleAcquireFailure cfg (lw_icao lw) f) (\<lambda>_. bufferDeferredWrite lw Buffered_utxo_unavailable))"
          by (intro keeps_andThen acquire_failure_locks deferred_locks locks_stable)
        then show ?thesis unfolding Inl sum.case by (rule wpr_mono [OF keepsD [OF _ u]]) (erule unsent)+
      next
        case (Inr u)
        then have hold: "under leavesLocks (\<lambda>w. holding ts ans u (lockView w)) s2" using x by simp
        show ?thesis
          unfolding Inr sum.case wp_onError
          by (rule wpr_mono [OF live_attempt_locks [OF hold lw h]]) (assumption, rule live_failed_locks)
      qed
    qed
  qed
  have ask: "keeps leavesLocks (\<lambda>w :: 'z WriterWorld_scheme. unsentYet ts ans (lockView w)) (askGovernor :: ('z, failure, bool) writer_job)"
    by (rule lock_buffer(1) [OF locks_stable(1)])
  show ?thesis
    unfolding whenAllowed_def
  proof (rule wpr_then)
    show "wpr (askGovernor :: ('z, failure, bool) writer_job) (\<lambda>_. ?U) ?End s" by (rule wpr_mono [OF keepsD [OF ask s]]) (simp, erule unsent)
    show "wpr (andThen (peek (\<lambda>w. \<not> ok \<or> blocksBroadcast (Some (lw_icao lw)) None (hold (rw_utxos w)))) (\<lambda>spendHalted.
         andThen (peek (busy spendHalted)) (\<lambda>deferred.
         if deferred then bufferDeferredWrite lw (if spendHalted then Buffered_spend_halted else Buffered_preemptive)
         else writeNow cfg lw))) ?End ?End s1" if "?U s1" for ok s1
      by (intro wpr_peek_then wpr_if deferred now that)
  qed
qed


subsection \<open>A handler ends\<close>

lemma ends_onError:
  "(\<And>e s. wpr (h e) (\<lambda>_ _. True) (\<lambda>_ _. False) s) \<Longrightarrow> wpr (onError m h) (\<lambda>_ _. True) (\<lambda>_ _. False) s"
  unfolding wp_onError by (rule wpr_mono [OF wpr_true]) simp_all

lemma ends_now: "wpr (ret x) (\<lambda>_ _. True) (\<lambda>_ _. False) s"
  by (simp only: wp_ret)

lemma ends_askGovernor: "wpr askGovernor (\<lambda>_ _. True) (\<lambda>_ _. False) s"
  unfolding askGovernor_def noteGovernor_def by (rule wpr_peek_then, rule wpr_ends [OF alter_ends], rule ends_now)

lemma ends_refill: "wpr (callRequestRefill rc icao) (\<lambda>_ _. True) (\<lambda>_ _. False) s"
  unfolding callRequestRefill_def by (rule alter_ends)

lemma ends_acquire_failure: "wpr (handleAcquireFailure cfg icao f) (\<lambda>_ _. True) (\<lambda>_ _. False) s"
  unfolding handleAcquireFailure_def
  by (auto simp: wp_onlyIf ends_refill inBackground_def split: failure.split acquire_error.split
      intro!: wpr_ends [OF alter_ends])

text \<open>The handlers of an aircraft of the vault never reject.\<close>

lemma allowed_ends:
  assumes "aircraftLock (wc_refill cfg) (lw_icao lw) = Some lock"
  shows "wpr (whenAllowed busy cfg lw) (\<lambda>_ _. True) (\<lambda>_ _. False) s"
proof -
  have deferred: "wpr (bufferDeferredWrite lw label) (\<lambda>_ _. True) (\<lambda>_ _. False) s" for label s
    unfolding bufferDeferredWrite_def by (rule ends_onError, rule ends_now)
  have settle: "wpr (settleInputAfterFailedWrite icao u b msg) (\<lambda>_ _. True) (\<lambda>_ _. False) s" for icao u b msg s
    unfolding settleInputAfterFailedWrite_def callReleaseUtxo_def inBackground_def
    by (rule wpr_if, rule swallowing_ends, rule alter_ends)
  have failed: "wpr (liveFailed lw u e) (\<lambda>_ _. True) (\<lambda>_ _. False) s" for u e s
    unfolding liveFailed_def Let_def
    by (rule wpr_ends [OF settle], rule wpr_ends [OF ends_onError], rule ends_now, rule ends_now)
  have now: "wpr (writeNow cfg lw) (\<lambda>_ _. True) (\<lambda>_ _. False) s" for s
    unfolding writeNow_def assms option.case
  proof (rule wpr_ends [OF ends_onError [OF ends_now]])
    fix x :: "failure + UTXORecord" and s
    show "wpr (case x of
          Inl f \<Rightarrow> andThen (handleAcquireFailure cfg (lw_icao lw) f) (\<lambda>_. bufferDeferredWrite lw Buffered_utxo_unavailable)
        | Inr u \<Rightarrow> onError (liveAttempt cfg lw lock u) (liveFailed lw u)) (\<lambda>_ _. True) (\<lambda>_ _. False) s"
    proof (cases x)
      case (Inl f)
      show ?thesis unfolding Inl sum.case by (rule wpr_ends [OF ends_acquire_failure], rule deferred)
    next
      case (Inr u)
      show ?thesis unfolding Inr sum.case by (rule ends_onError, rule failed)
    qed
  qed
  show ?thesis
    unfolding whenAllowed_def by (rule wpr_ends [OF ends_askGovernor], intro wpr_peek_then wpr_if deferred now)
qed

subsection \<open>Examples\<close>

definition exampleTelemetry :: TelemetryRecord where
  "exampleTelemetry = emptyRecord\<lparr>tr_icao := ''a1b2c3'', tr_ts := Some 1000\<rparr>"

lemma live_example_runs:
  "\<exists>x s'. processTelemetryWrite exampleWriter (\<lambda>_. [7]) ''a1b2c3'' (Some exampleTelemetry)
     (s :: 'z WriterWorld_scheme System) = (Returned x, s')"
proof -
  let ?lw = "telemetryWrite (\<lambda>_. [7]) ''a1b2c3'' exampleTelemetry"
  obtain busy where b: "(processTelemetryWrite exampleWriter (\<lambda>_. [7]) ''a1b2c3'' (Some exampleTelemetry) :: ('z, failure, LiveOutcome) writer_job)
      = whenAllowed busy exampleWriter ?lw"
    using handlers_checked(1) by blast
  have "aircraftLock (wc_refill exampleWriter) (lw_icao ?lw) = Some ''a1''" by (simp add: exampleWriter_def exampleConfig_def)
  from allowed_ends [OF this, of busy s] show ?thesis
    unfolding b by (cases "whenAllowed busy exampleWriter ?lw s") (auto simp: wpr_def split: outcome.splits)
qed

theorem live_reports_are_stored_witness:
  "\<exists>outcome s'. processTelemetryWrite exampleWriter (\<lambda>_. [7]) ''a1b2c3'' (Some exampleTelemetry)
        \<lparr> world = exampleWriterWorld accepting, script = [] \<rparr> = (Returned outcome, s')
     \<and> (outcome = Broadcasted \<longrightarrow> (\<exists>x\<in>set (ws_results (ww_store (world s'))). rx_aircraft_icao x = ''a1b2c3''))
     \<and> (outcome = Buffered_preemptive \<longrightarrow> (\<exists>r\<in>set (ws_pending (ww_store (world s'))). pw_payload r = [7]))"
proof -
  let ?s = "\<lparr> world = exampleWriterWorld accepting, script = [] \<rparr>"
  obtain x s' where run: "processTelemetryWrite exampleWriter (\<lambda>_. [7]) ''a1b2c3'' (Some exampleTelemetry) ?s = (Returned x, s')"
    using live_example_runs by blast
  have "writes_inv (ww_store (world ?s))" using example_waiting [of accepting] by (simp add: waiting_def)
  from live_reports_are_stored [OF obeys_new this run] run show ?thesis by auto
qed


end
