(* ===== verification/Rejections.thy ===== *)
theory Rejections
  imports Live_Write Network_Spent Codec
begin

text \<open>
  What the writer does when the network refuses a transaction: \<open>handleTerminalRejection\<close> of
  \<open>services/blockchain-writer/src/index.ts\<close>, \<open>missing-tx-unwind.ts\<close> and \<open>rebuffer-rejected.ts\<close>.

  \<open>RejectionWorld\<close> adds to the world of a write the registry of spent outpoints, the creation times of the
  results and what the chain lists. Keys are derived by the Bitcoin library, so the script of an aircraft is a
  parameter that may fail. A reconciliation is one call; that another pass is in flight is part of the
  world. Only that a call fails matters here, not with what text.

  The locale \<open>rejection_frame\<close> says what a condition has to survive to be kept by every operation of this
  theory; it is interpreted here on the registry of spent outpoints, and on the marks of the detector of lost
  transactions in \<open>Lost_Transactions\<close>.
\<close>

subsection \<open>The world\<close>

record RejectionConfig =
  jc_writer :: WriterConfig
  jc_guardMs :: millis
  jc_fundingGuardMs :: millis
  jc_fundingScript :: string
  jc_scriptFor :: "string \<Rightarrow> string option"
  jc_minAgeMs :: millis
  jc_recheckMs :: millis
  jc_batch :: nat

record RejectionWorld = WriterWorld +
  jw_keys :: "string set"
  jw_quarantined :: "(string \<times> nat) \<rightharpoonup> (string \<times> string)"
  jw_createdAt :: "string \<Rightarrow> millis"
  jw_aircraftChain :: "string \<Rightarrow> WocUtxo list option"
  jw_aircraftJoined :: "string \<Rightarrow> bool"
  jw_fundingChain :: chain_answer
  jw_fundingJoined :: "FundingReconcileOutcome option"

type_synonym ('z, 'a) reject_job = "('z RejectionWorld_scheme, unit, 'a) job"

definition FLEET_PSEUDO_ICAO :: string where "FLEET_PSEUDO_ICAO = ''000000''"

definition reading :: "('z RejectionWorld_scheme \<Rightarrow> 'a) \<Rightarrow> ('z, 'a) reject_job" where
  "reading f = await () (\<lambda>w. (f w, w))"

text \<open>What a listing leaves out: \<open>excludeNetworkSpent\<close> of both pools.\<close>

definition notNetworkSpent :: "'z RejectionWorld_scheme \<Rightarrow> WocUtxo list \<Rightarrow> WocUtxo list" where
  "notNetworkSpent w us = filter (\<lambda>u. outpointKey (js_trim (tx_hash u)) (tx_pos u) \<notin> jw_keys w) us"

definition callReconcile :: "RejectionConfig \<Rightarrow> string \<Rightarrow> ('z, unit) reject_job" where
  "callReconcile cfg icao =
     (case jc_scriptFor cfg icao of
        None \<Rightarrow> throw
      | Some lockScript \<Rightarrow>
          andThen (await () (\<lambda>w. onUtxos (\<lambda>now. reconcile now (jc_guardMs cfg) (jw_aircraftJoined w icao) False icao lockScript
             (fetchFromChain (notNetworkSpent w) (jw_aircraftChain w icao))) w)) (\<lambda>_. ret ()))"

definition callFundingReconcile :: "RejectionConfig \<Rightarrow> ('z, unit) reject_job" where
  "callFundingReconcile cfg =
     andThen (await () (\<lambda>w. onFunding (\<lambda>now. fundingReconcile now (jc_fundingGuardMs cfg) (jw_fundingJoined w) False
        (jc_fundingScript cfg) (fundingFetch (notNetworkSpent w) (jw_fundingChain w))) w)) (\<lambda>_. ret ())"

text \<open>\<open>quarantine\<close>: the keys are kept at once, the statements may fail one by one.\<close>

definition freshOutpoints :: "NetworkSpentOutpoint list \<Rightarrow> 'z RejectionWorld_scheme \<Rightarrow> NetworkSpentOutpoint list" where
  "freshOutpoints outs w = filter (\<lambda>ou. outpointKey (js_trim (nso_txid ou)) (nso_vout ou) \<notin> jw_keys w) outs"

definition insertQuarantined ::
  "NetworkSpentOutpoint list \<Rightarrow> string \<Rightarrow> 'z RejectionWorld_scheme \<Rightarrow> 'z RejectionWorld_scheme" where
  "insertQuarantined outs rejected w =
     w\<lparr>jw_quarantined := fold (\<lambda>ou t. if t (nso_txid ou, nso_vout ou) = None
         then t((nso_txid ou, nso_vout ou) \<mapsto> (nso_spentBy ou, rejected)) else t) outs (jw_quarantined w)\<rparr>"

definition callQuarantine :: "NetworkSpentOutpoint list \<Rightarrow> string \<Rightarrow> ('z, unit) reject_job" where
  "callQuarantine outs rejected =
     andThen (peek (freshOutpoints outs)) (\<lambda>fresh.
     andThen (alter (\<lambda>w. w\<lparr>jw_keys := jw_keys w \<union> set (map (\<lambda>ou. outpointKey (nso_txid ou) (nso_vout ou)) fresh)\<rparr>)) (\<lambda>_.
     tryCatch
       (andThen (onlyIf (fresh \<noteq> []) (await () (\<lambda>w. ((), insertQuarantined fresh rejected w)))) (\<lambda>_.
        forEach (\<lambda>ou.
          andThen (await () (toUtxos (\<lambda>_ m. m\<lparr>pool := deleteRows (nso_txid ou) (nso_vout ou) (pool m)\<rparr>))) (\<lambda>_.
          await () (toFunding (\<lambda>_ m. m\<lparr>funding_pool := deleteFundingUtxo (nso_txid ou) (nso_vout ou) (funding_pool m)\<rparr>))))
          outs))
       (ret ())))"

subsection \<open>Outputs of a transaction that does not exist\<close>

record PoolUnwind =
  pu_aircraftDeleted :: nat
  pu_aircraftIcaos :: "string list"
  pu_aircraftVouts :: "nat list"
  pu_fundingDeleted :: nat
  pu_fundingVouts :: "nat list"
  pu_aircraftConfirmedSkipped :: nat
  pu_fundingConfirmedSkipped :: nat

definition noUnwind :: PoolUnwind where
  "noUnwind = \<lparr> pu_aircraftDeleted = 0, pu_aircraftIcaos = [], pu_aircraftVouts = [], pu_fundingDeleted = 0,
     pu_fundingVouts = [], pu_aircraftConfirmedSkipped = 0, pu_fundingConfirmedSkipped = 0 \<rparr>"

definition noteAircraftDeleted :: "UTXORecord \<Rightarrow> nat \<Rightarrow> PoolUnwind \<Rightarrow> PoolUnwind" where
  "noteAircraftDeleted r deleted u =
     (if deleted > 0 then
        (let icao = js_upper (js_trim (aircraft_icao r)) in
         u\<lparr>pu_aircraftDeleted := pu_aircraftDeleted u + deleted, pu_aircraftVouts := pu_aircraftVouts u @ [vout r],
           pu_aircraftIcaos := (if icao = [] \<or> icao \<in> set (pu_aircraftIcaos u) then pu_aircraftIcaos u
                                else pu_aircraftIcaos u @ [icao])\<rparr>)
      else u)"

fun deleteAircraftOutputs :: "string \<Rightarrow> UTXORecord list \<Rightarrow> PoolUnwind \<Rightarrow> ('z, PoolUnwind) reject_job" where
  "deleteAircraftOutputs t [] u = ret u"
| "deleteAircraftOutputs t (r # rs) u =
     (if unconfirmed_depth r \<le> 0
      then deleteAircraftOutputs t rs (u\<lparr>pu_aircraftConfirmedSkipped := pu_aircraftConfirmedSkipped u + 1\<rparr>)
      else andThen (await () (onUtxos (\<lambda>_ m. (length (filter (\<lambda>x. keyOfRow x = (t, vout r)) (pool m)),
                                             m\<lparr>pool := deleteRows t (vout r) (pool m)\<rparr>)))) (\<lambda>deleted.
           deleteAircraftOutputs t rs (noteAircraftDeleted r deleted u)))"

definition noteFundingDeleted :: "FundingUtxoRow \<Rightarrow> nat \<Rightarrow> PoolUnwind \<Rightarrow> PoolUnwind" where
  "noteFundingDeleted r deleted u =
     (if deleted > 0 then u\<lparr>pu_fundingDeleted := pu_fundingDeleted u + deleted, pu_fundingVouts := pu_fundingVouts u @ [fu_vout r]\<rparr>
      else u)"

fun deleteFundingOutputs :: "string \<Rightarrow> FundingUtxoRow list \<Rightarrow> PoolUnwind \<Rightarrow> ('z, PoolUnwind) reject_job" where
  "deleteFundingOutputs t [] u = ret u"
| "deleteFundingOutputs t (r # rs) u =
     andThen (peek (\<lambda>w. isFundingOutputConfirmed t (fu_vout r) (tw_funding w))) (\<lambda>confirmed.
     if confirmed then deleteFundingOutputs t rs (u\<lparr>pu_fundingConfirmedSkipped := pu_fundingConfirmedSkipped u + 1\<rparr>)
     else andThen (await () (onFunding (\<lambda>_ m. (length (filter (\<lambda>x. keyOfFunding x = (t, fu_vout r)) (funding_pool m)),
                                              m\<lparr>funding_pool := deleteFundingUtxo t (fu_vout r) (funding_pool m)\<rparr>)))) (\<lambda>deleted.
          deleteFundingOutputs t rs (noteFundingDeleted r deleted u)))"

definition deleteUnconfirmedOutputsOf :: "string \<Rightarrow> ('z, PoolUnwind) reject_job" where
  "deleteUnconfirmedOutputsOf t0 =
     (let t = js_trim t0 in
      andThen (reading (\<lambda>w. filter (\<lambda>r. txid r = t) (pool (rw_utxos w)))) (\<lambda>aircraftRows.
      andThen (deleteAircraftOutputs t aircraftRows noUnwind) (\<lambda>u.
      andThen (reading (\<lambda>w. filter (\<lambda>r. fu_txid r = t) (funding_pool (tw_funding w)))) (\<lambda>fundingRows.
      deleteFundingOutputs t fundingRows u))))"

datatype SettledRejection = Settled_recorded nat | Settled_mined | Settled_present | Settled_missing PoolUnwind

definition statusOf :: "string \<Rightarrow> WriteStore \<Rightarrow> TxStatus option" where
  "statusOf t s = map_option rx_status (List.find (\<lambda>r. rx_txid r = t) (ws_results s))"

definition settleTerminalRejectionMark :: "string \<Rightarrow> TxRejectDetail \<Rightarrow> ('z, SettledRejection) reject_job" where
  "settleTerminalRejectionMark t0 detail =
     (let t = js_trim t0 in
      andThen (await () (onStore (\<lambda>_. markTxRejected t detail))) (\<lambda>marked.
      if marked > 0 then ret (Settled_recorded marked)
      else andThen (reading (\<lambda>w. statusOf t (ww_store w))) (\<lambda>row.
           case row of
             Some st \<Rightarrow> ret (if st = TxStatus.MINED then Settled_mined else Settled_present)
           | None \<Rightarrow> andThen (deleteUnconfirmedOutputsOf t) (\<lambda>u. ret (Settled_missing u)))))"

text \<open>\<open>invalidateOutputsOf\<close> of the aircraft pool, one call at a time.\<close>

definition callInvalidateOutputsOf :: "string \<Rightarrow> ('z, unit) reject_job" where
  "callInvalidateOutputsOf t0 =
     (let t = js_trim t0 in
      andThen (reading (\<lambda>w. map vout (filter (\<lambda>r. txid r = t) (pool (rw_utxos w))))) (\<lambda>vouts.
      if vouts = [] then ret ()
      else andThen (await () (toUtxos (\<lambda>_ m. m\<lparr>pool := filter (\<lambda>r. txid r \<noteq> t) (pool m)\<rparr>))) (\<lambda>_.
           noteUtxos (\<lambda>_. noteOutputsInvalidated t vouts))))"

subsection \<open>The payload is queued again\<close>

definition MAX_REJECT_REQUEUES :: int where "MAX_REJECT_REQUEUES = 3"

datatype RebufferOutcome = Requeued | Skipped_no_claim | Skipped_unparseable | Rebuffer_failed

definition isRebufferableRecordType :: "RecordType \<Rightarrow> bool" where
  "isRebufferableRecordType rt \<longleftrightarrow>
     rt = TELEMETRY \<or> rt = FLIGHT_EVENT \<or> rt = TELEMETRY_DELTA \<or> rt = AGENT_ANALYSIS \<or> rt = AGENT_MONITOR"

definition requeuedWrite :: "RejectRequeueClaim \<Rightarrow> ParsedPayload \<Rightarrow> NewPendingWrite" where
  "requeuedWrite claim parsed =
     \<lparr> np_aircraft_icao = js_upper (js_trim (if pp_icao parsed = [] then rc_aircraft_icao claim else pp_icao parsed)),
       np_record_type = pp_recordType parsed, np_payload = pp_payload parsed,
       np_flight_id = rc_flight_id claim, np_preserved = Some True \<rparr>"

definition rebufferRejectedTransaction :: "string \<Rightarrow> int option \<Rightarrow> ('z, RebufferOutcome) reject_job" where
  "rebufferRejectedTransaction t maxRequeues =
     (let limit = (case maxRequeues of Some n \<Rightarrow> n | None \<Rightarrow> MAX_REJECT_REQUEUES) in
      tryCatch
        (andThen (await () (onStore (\<lambda>_. claimRejectRequeue t limit))) (\<lambda>claim.
         case claim of
           None \<Rightarrow> ret Skipped_no_claim
         | Some c \<Rightarrow>
             (case parseOpReturnPayload (rc_op_return c) of
                Inl _ \<Rightarrow> ret Skipped_unparseable
              | Inr parsed \<Rightarrow>
                  if \<not> isRebufferableRecordType (pp_recordType parsed) then ret Skipped_unparseable
                  else andThen (await () (onStore (\<lambda>now s. ((), insertPendingWrite now (requeuedWrite c parsed) s))))
                         (\<lambda>_. ret Requeued))))
        (ret Rebuffer_failed))"


subsection \<open>A terminal rejection\<close>

record TerminalRejectionContext =
  jr_status :: string
  jr_reason :: "string option"
  jr_competingTxs :: "string list option"
  jr_upstreamSnippet :: "string option"

definition broadcastInstantMs :: "millis option \<Rightarrow> millis option" where
  "broadcastInstantMs t = (case t of Some ms \<Rightarrow> if ms > 0 then Some ms else None | None \<Rightarrow> None)"

text \<open>The first row in the order of their creation; rows without a time come last.\<close>

definition earliestCreatedAt :: "millis option list \<Rightarrow> millis option" where
  "earliestCreatedAt ts = (case List.map_filter id ts of [] \<Rightarrow> None | t # us \<Rightarrow> Some (fold min us t))"

definition lookupRejectionBroadcastAtMs :: "string \<Rightarrow> ('z, millis option) reject_job" where
  "lookupRejectionBroadcastAtMs t =
     andThen (reading (\<lambda>w. case List.find (\<lambda>r. rx_txid r = t) (ws_results (ww_store w)) of
         None \<Rightarrow> None
       | Some r \<Rightarrow> (case broadcastInstantMs (Some (rx_timestamp r)) of
           Some ms \<Rightarrow> Some ms | None \<Rightarrow> broadcastInstantMs (Some (jw_createdAt w t))))) (\<lambda>fromRecord.
     case fromRecord of
       Some ms \<Rightarrow> ret (Some ms)
     | None \<Rightarrow>
         andThen (reading (\<lambda>w. earliestCreatedAt (map created_at (filter (\<lambda>r. txid r = t) (pool (rw_utxos w)))))) (\<lambda>aircraft.
         andThen (reading (\<lambda>w. earliestCreatedAt (map (\<lambda>r. Some (fu_created_at r))
                    (filter (\<lambda>r. fu_txid r = t) (funding_pool (tw_funding w)))))) (\<lambda>funding.
         ret (case (broadcastInstantMs aircraft, broadcastInstantMs funding) of
                (None, f) \<Rightarrow> f
              | (Some a, None) \<Rightarrow> Some a
              | (Some a, Some f) \<Rightarrow> Some (min a f)))))"

text \<open>A read that fails leaves the time undefined, so the verdict counts.\<close>

definition rejectionClock :: "string \<Rightarrow> ('z, BroadcastTime) reject_job" where
  "rejectionClock t =
     tryCatch
       (andThen (lookupRejectionBroadcastAtMs t) (\<lambda>clock. ret (case clock of None \<Rightarrow> Null | Some ms \<Rightarrow> AtMs ms)))
       (ret Omitted)"

definition noteRejectionForGovernor :: "NetworkSpentOutpoint list \<Rightarrow> BroadcastTime \<Rightarrow> ('z, unit) reject_job" where
  "noteRejectionForGovernor spentInputs clock =
     (if spentInputs \<noteq> [] then ret () else noteGovernor (\<lambda>now. noteTerminalRejection now clock))"

definition rejectDetail :: "TerminalRejectionContext option \<Rightarrow> TxRejectDetail" where
  "rejectDetail rejection =
     (case rejection of
        None \<Rightarrow> \<lparr> rd_status = ''REJECTED'', rd_reason = None, rd_competingTxs = None \<rparr>
      | Some j \<Rightarrow>
          \<lparr> rd_status = jr_status j,
            rd_reason = (case jr_reason j of
               Some why \<Rightarrow> Some why
             | None \<Rightarrow> (case jr_upstreamSnippet j of
                 Some snippet \<Rightarrow> if snippet = [] then None else Some (''no reason field; upstream='' @ snippet)
               | None \<Rightarrow> None)),
            rd_competingTxs = jr_competingTxs j \<rparr>)"

datatype RejectionAction = Act_recorded | Act_missing | Act_ignored

text \<open>What is left of a transaction that has no row among the results.\<close>

definition unwindMissing ::
  "RejectionConfig \<Rightarrow> string \<Rightarrow> NetworkSpentOutpoint list \<Rightarrow> BroadcastTime \<Rightarrow> PoolUnwind \<Rightarrow> ('z, RejectionAction) reject_job" where
  "unwindMissing cfg t spentInputs clock u =
     andThen (noteRejectionForGovernor spentInputs clock) (\<lambda>_.
     andThen (noteUtxos (\<lambda>_. noteOutputsInvalidated t (pu_aircraftVouts u))) (\<lambda>_.
     andThen (alter (\<lambda>w. w\<lparr>tw_funding := fundingOutputsInvalidated t (pu_fundingVouts u) (tw_funding w)\<rparr>)) (\<lambda>_.
     andThen (tryCatch
        (andThen (forEach (callReconcile cfg) (pu_aircraftIcaos u)) (\<lambda>_.
         onlyIf (pu_fundingDeleted u > 0) (callFundingReconcile cfg)))
        (ret ())) (\<lambda>_.
     ret Act_missing))))"

definition unwindRecorded :: "RejectionConfig \<Rightarrow> string \<Rightarrow> ('z, unit) reject_job" where
  "unwindRecorded cfg t =
     tryCatch
       (andThen (callInvalidateOutputsOf t) (\<lambda>_.
        andThen (reading (\<lambda>w. map_option rx_aircraft_icao (List.find (\<lambda>r. rx_txid r = t) (ws_results (ww_store w))))) (\<lambda>owner.
        let icao = (case owner of None \<Rightarrow> [] | Some o1 \<Rightarrow> js_upper (js_trim o1)) in
        if icao \<noteq> [] \<and> icao \<noteq> FLEET_PSEUDO_ICAO
        then andThen (callReconcile cfg icao) (\<lambda>_. callRequestRefill (wc_refill (jc_writer cfg)) icao)
        else callFundingReconcile cfg)))
       (ret ())"

definition askRequeueLimit :: "('z, nat) reject_job" where
  "askRequeueLimit =
     andThen (peek (\<lambda>w. fst (rejectRequeueLimit (tw_clock w) (ww_governor w)))) (\<lambda>n.
     andThen (noteGovernor (\<lambda>now g. snd (rejectRequeueLimit now g))) (\<lambda>_. ret n))"

definition afterQuarantine ::
  "RejectionConfig \<Rightarrow> string \<Rightarrow> TerminalRejectionContext option \<Rightarrow> NetworkSpentOutpoint list \<Rightarrow> BroadcastTime
     \<Rightarrow> ('z, RejectionAction) reject_job" where
  "afterQuarantine cfg t rejection spentInputs clock =
     andThen (settleTerminalRejectionMark t (rejectDetail rejection)) (\<lambda>settled.
     case settled of
       Settled_mined \<Rightarrow> ret Act_ignored
     | Settled_present \<Rightarrow> ret Act_ignored
     | Settled_missing u \<Rightarrow> unwindMissing cfg t spentInputs clock u
     | Settled_recorded _ \<Rightarrow>
         andThen (noteRejectionForGovernor spentInputs clock) (\<lambda>_.
         andThen (unwindRecorded cfg t) (\<lambda>_.
         andThen askRequeueLimit (\<lambda>limit.
         if limit = 0 then ret Act_recorded
         else andThen (rebufferRejectedTransaction t (Some (int limit))) (\<lambda>_. ret Act_recorded)))))"

definition handleTerminalRejection ::
  "RejectionConfig \<Rightarrow> string \<Rightarrow> TerminalRejectionContext option \<Rightarrow> ('z, RejectionAction) reject_job" where
  "handleTerminalRejection cfg t rejection =
     andThen (rejectionClock t) (\<lambda>clock.
     let spentInputs = parseNetworkSpentOutpoints (Option.bind rejection jr_reason) in
     andThen (onlyIf (spentInputs \<noteq> []) (callQuarantine spentInputs t)) (\<lambda>_.
     afterQuarantine cfg t rejection spentInputs clock))"

subsection \<open>What every operation keeps\<close>

lemma wp_alter_eq: "wpr (alter f) Q E s = Q () (s\<lparr>world := f (world s)\<rparr>)"
  by (simp add: wpr_def alter_def modify_def)

lemma under_world: "under R P s \<Longrightarrow> Q w \<Longrightarrow> under R Q (s\<lparr>world := w\<rparr>)"
  by (simp add: under_def obeys_def)

definition unregistered :: "'z RejectionWorld_scheme \<Rightarrow> (string \<times> nat) set" where
  "unregistered w = {k. outpointKey (fst k) (snd k) \<notin> jw_keys w}"

locale rejection_frame =
  fixes R :: "'z RejectionWorld_scheme \<Rightarrow> 'z RejectionWorld_scheme \<Rightarrow> bool" and P :: "'z RejectionWorld_scheme \<Rightarrow> bool"
  assumes stable: "stableUnder R P"
    and on_store: "\<And>w st. P w \<Longrightarrow> P (w\<lparr>ww_store := st\<rparr>)"
    and on_governor: "\<And>w g. P w \<Longrightarrow> P (w\<lparr>ww_governor := g\<rparr>)"
    and on_refill: "\<And>w g st bg. P w \<Longrightarrow> P (w\<lparr>ww_governor := g, rw_refill := st, rw_background := bg\<rparr>)"
    and on_keys: "\<And>w ks. P w \<Longrightarrow> jw_keys w \<subseteq> ks \<Longrightarrow> P (w\<lparr>jw_keys := ks\<rparr>)"
    and on_table: "\<And>w q. P w \<Longrightarrow> P (w\<lparr>jw_quarantined := q\<rparr>)"
    and on_rows: "\<And>w m. P w \<Longrightarrow> keyOfRow ` set (pool m) \<subseteq> keyOfRow ` set (pool (rw_utxos w)) \<union> unregistered w
      \<Longrightarrow> P (w\<lparr>rw_utxos := m\<rparr>)"
    and on_funding: "\<And>w m. P w \<Longrightarrow> keyOfFunding ` set (funding_pool m)
        \<subseteq> keyOfFunding ` set (funding_pool (tw_funding w)) \<union> unregistered w \<Longrightarrow> P (w\<lparr>tw_funding := m\<rparr>)"
begin

lemma kept_reading: "keeps R P (reading f)"
  unfolding reading_def by (rule keeps_await [OF stable]) simp

lemma kept_store: "keeps R P (await () (onStore f))"
  by (rule keeps_await [OF stable]) (simp add: onStore_def on_store split: prod.split)

lemma kept_fewer_rows:
  assumes "\<And>now m. keyOfRow ` set (pool (f now m)) \<subseteq> keyOfRow ` set (pool m)"
  shows "keeps R P (await () (toUtxos f))"
  by (rule keeps_await [OF stable]) (use assms in \<open>fastforce simp: toUtxos_def intro!: on_rows\<close>)

lemma kept_fewer_rows_counted:
  assumes "\<And>now m. keyOfRow ` set (pool (snd (f now m))) \<subseteq> keyOfRow ` set (pool m)"
  shows "keeps R P (await () (onUtxos f))"
proof (rule keeps_await [OF stable])
  fix w assume "P w"
  then have "P (w\<lparr>rw_utxos := snd (f (tw_clock w) (rw_utxos w))\<rparr>)"
    using assms [of "tw_clock w" "rw_utxos w"] by (intro on_rows) auto
  then show "P (snd (onUtxos f w))" by (cases "f (tw_clock w) (rw_utxos w)") (simp add: onUtxos_def)
qed

lemma kept_fewer_funding:
  assumes "\<And>now m. keyOfFunding ` set (funding_pool (f now m)) \<subseteq> keyOfFunding ` set (funding_pool m)"
  shows "keeps R P (await () (toFunding f))"
  by (rule keeps_await [OF stable]) (use assms in \<open>fastforce simp: toFunding_def intro!: on_funding\<close>)

lemma kept_fewer_funding_counted:
  assumes "\<And>now m. keyOfFunding ` set (funding_pool (snd (f now m))) \<subseteq> keyOfFunding ` set (funding_pool m)"
  shows "keeps R P (await () (onFunding f))"
proof (rule keeps_await [OF stable])
  fix w assume "P w"
  then have "P (w\<lparr>tw_funding := snd (f (tw_clock w) (tw_funding w))\<rparr>)"
    using assms [of "tw_clock w" "tw_funding w"] by (intro on_funding) auto
  then show "P (snd (onFunding f w))" by (cases "f (tw_clock w) (tw_funding w)") (simp add: onFunding_def)
qed

lemma kept_noteGovernor: "keeps R P (noteGovernor f)"
  unfolding noteGovernor_def by (rule keeps_alter) (rule on_governor)

lemma kept_noteUtxos:
  assumes "\<And>now m. pool (f now m) = pool m"
  shows "keeps R P (noteUtxos f)"
  unfolding noteUtxos_def by (rule keeps_alter) (rule on_rows, simp_all add: assms)

lemma kept_invalidate_funding: "keeps R P (alter (\<lambda>w. w\<lparr>tw_funding := fundingOutputsInvalidated t vs (tw_funding w)\<rparr>))"
  by (rule keeps_alter) (rule on_funding, simp_all)

lemma listed_unregistered: "(\<lambda>u. (tx_hash u, tx_pos u)) ` set (notNetworkSpent w us) \<subseteq> unregistered w"
  by (auto simp: notNetworkSpent_def unregistered_def outpointKey_trim)

lemma kept_callReconcile: "keeps R P (callReconcile cfg icao)"
proof (cases "jc_scriptFor cfg icao")
  case (Some lockScript)
  have "keeps R P (await () (\<lambda>w. onUtxos (\<lambda>now. reconcile now (jc_guardMs cfg) (jw_aircraftJoined w icao) False icao lockScript
             (fetchFromChain (notNetworkSpent w) (jw_aircraftChain w icao))) w))"
  proof (rule keeps_await [OF stable])
    fix w assume P: "P w"
    let ?m = "snd (reconcile (tw_clock w) (jc_guardMs cfg) (jw_aircraftJoined w icao) False icao lockScript
        (fetchFromChain (notNetworkSpent w) (jw_aircraftChain w icao)) (rw_utxos w))"
    have "(case fetchFromChain (notNetworkSpent w) (jw_aircraftChain w icao) of None \<Rightarrow> {}
        | Some us \<Rightarrow> (\<lambda>u. (tx_hash u, tx_pos u)) ` set us) \<subseteq> unregistered w"
      by (cases "jw_aircraftChain w icao") (simp_all add: fetchFromChain_def listed_unregistered)
    then have "keyOfRow ` set (pool ?m) \<subseteq> keyOfRow ` set (pool (rw_utxos w)) \<union> unregistered w"
      by (rule subset_trans [OF reconcile_keys Un_mono [OF subset_refl]])
    from on_rows [OF P this]
    show "P (snd (onUtxos (\<lambda>now. reconcile now (jc_guardMs cfg) (jw_aircraftJoined w icao) False icao lockScript
             (fetchFromChain (notNetworkSpent w) (jw_aircraftChain w icao))) w))"
      by (simp add: onUtxos_def case_prod_beta)
  qed
  then show ?thesis by (simp add: callReconcile_def Some keeps_andThen keeps_ret)
qed (simp add: callReconcile_def keeps_raise)

lemma kept_callFundingReconcile: "keeps R P (callFundingReconcile cfg)"
proof -
  have "keeps R P (await () (\<lambda>w. onFunding (\<lambda>now. fundingReconcile now (jc_fundingGuardMs cfg) (jw_fundingJoined w) False
        (jc_fundingScript cfg) (fundingFetch (notNetworkSpent w) (jw_fundingChain w))) w))"
  proof (rule keeps_await [OF stable])
    fix w assume P: "P w"
    let ?m = "snd (fundingReconcile (tw_clock w) (jc_fundingGuardMs cfg) (jw_fundingJoined w) False (jc_fundingScript cfg)
        (fundingFetch (notNetworkSpent w) (jw_fundingChain w)) (tw_funding w))"
    have "(case fundingFetch (notNetworkSpent w) (jw_fundingChain w) of Unreachable _ \<Rightarrow> {}
        | Listing us \<Rightarrow> (\<lambda>u. (tx_hash u, tx_pos u)) ` set us) \<subseteq> unregistered w"
      by (cases "jw_fundingChain w") (simp_all add: fundingFetch_def listed_unregistered)
    then have "keyOfFunding ` set (funding_pool ?m) \<subseteq> keyOfFunding ` set (funding_pool (tw_funding w)) \<union> unregistered w"
      by (rule subset_trans [OF fundingReconcile_keys Un_mono [OF subset_refl]])
    from on_funding [OF P this]
    show "P (snd (onFunding (\<lambda>now. fundingReconcile now (jc_fundingGuardMs cfg) (jw_fundingJoined w) False (jc_fundingScript cfg)
        (fundingFetch (notNetworkSpent w) (jw_fundingChain w))) w))"
      by (simp add: onFunding_def case_prod_beta)
  qed
  then show ?thesis by (simp add: callFundingReconcile_def keeps_andThen keeps_ret)
qed

lemma kept_deletions:
  "keeps R P (await () (toUtxos (\<lambda>_ m. m\<lparr>pool := deleteRows t v (pool m)\<rparr>)))"
  "keeps R P (await () (toFunding (\<lambda>_ m. m\<lparr>funding_pool := deleteFundingUtxo t v (funding_pool m)\<rparr>)))"
  "keeps R P (await () (onUtxos (\<lambda>_ m. (n m, m\<lparr>pool := deleteRows t v (pool m)\<rparr>))))"
  "keeps R P (await () (onFunding (\<lambda>_ m. (k m, m\<lparr>funding_pool := deleteFundingUtxo t v (funding_pool m)\<rparr>))))"
  "keeps R P (await () (toUtxos (\<lambda>_ m. m\<lparr>pool := filter q (pool m)\<rparr>)))"
  by (rule kept_fewer_rows kept_fewer_funding kept_fewer_rows_counted kept_fewer_funding_counted,
      force simp: deleteRows_def deleteFundingUtxo_def deleteFunding_def)+

lemma kept_callQuarantine: "keeps R P (callQuarantine outs t)"
proof -
  have "keeps R P (alter (\<lambda>w. w\<lparr>jw_keys := jw_keys w \<union> K\<rparr>))" for K
    by (rule keeps_alter) (rule on_keys, auto)
  moreover have "keeps R P (await () (\<lambda>w. ((), insertQuarantined fresh t w)))" for fresh
    by (rule keeps_await [OF stable]) (simp add: insertQuarantined_def on_table)
  ultimately show ?thesis
    unfolding callQuarantine_def by (intro keeps_intros keeps_forEach kept_deletions)
qed

lemma kept_deleteAircraftOutputs: "keeps R P (deleteAircraftOutputs t rows u)"
  by (induction rows arbitrary: u) (auto intro!: keeps_intros kept_deletions)

lemma kept_deleteFundingOutputs: "keeps R P (deleteFundingOutputs t rows u)"
  by (induction rows arbitrary: u) (auto intro!: keeps_intros kept_deletions)

lemma kept_deleteUnconfirmedOutputsOf: "keeps R P (deleteUnconfirmedOutputsOf t)"
  unfolding deleteUnconfirmedOutputsOf_def Let_def
  by (intro keeps_intros kept_reading kept_deleteAircraftOutputs kept_deleteFundingOutputs)

lemma kept_settle: "keeps R P (settleTerminalRejectionMark t d)"
  unfolding settleTerminalRejectionMark_def Let_def
  by (auto intro!: keeps_intros kept_store kept_reading kept_deleteUnconfirmedOutputsOf split: option.split)

lemma kept_invalidated: "keeps R P (noteUtxos (\<lambda>_. noteOutputsInvalidated t vs))"
  by (rule kept_noteUtxos) (simp add: noteOutputsInvalidated_def)

lemma kept_callInvalidateOutputsOf: "keeps R P (callInvalidateOutputsOf t)"
  unfolding callInvalidateOutputsOf_def Let_def by (intro keeps_intros kept_reading kept_deletions kept_invalidated)

lemma kept_rebuffer: "keeps R P (rebufferRejectedTransaction t n)"
  unfolding rebufferRejectedTransaction_def Let_def
  by (auto intro!: keeps_intros kept_store split: option.split sum.split)

lemma kept_rejectionClock: "keeps R P (rejectionClock t)"
  unfolding rejectionClock_def lookupRejectionBroadcastAtMs_def
  by (intro keeps_intros kept_reading) (auto intro!: keeps_intros kept_reading split: option.split)

lemma kept_noteRejectionForGovernor: "keeps R P (noteRejectionForGovernor outs clock)"
  unfolding noteRejectionForGovernor_def by (intro keeps_intros kept_noteGovernor)

lemma kept_unwindMissing: "keeps R P (unwindMissing cfg t outs clock u)"
  unfolding unwindMissing_def
  by (intro keeps_intros keeps_forEach kept_noteRejectionForGovernor kept_invalidated kept_invalidate_funding
      kept_callReconcile kept_callFundingReconcile)

lemma kept_callRequestRefill: "keeps R P (callRequestRefill cfg icao)"
  unfolding callRequestRefill_def by (rule keeps_alter) (simp only: askRefill_def Let_def case_prod_beta on_refill)

lemma kept_unwindRecorded: "keeps R P (unwindRecorded cfg t)"
  unfolding unwindRecorded_def Let_def
  by (intro keeps_intros kept_callInvalidateOutputsOf kept_reading kept_callReconcile kept_callFundingReconcile kept_callRequestRefill)

lemma kept_askRequeueLimit: "keeps R P askRequeueLimit"
  unfolding askRequeueLimit_def by (intro keeps_intros kept_noteGovernor)

lemma kept_afterQuarantine: "keeps R P (afterQuarantine cfg t rejection outs clock)"
proof -
  have "keeps R P (case settled of
       Settled_mined \<Rightarrow> ret Act_ignored | Settled_present \<Rightarrow> ret Act_ignored
     | Settled_missing u \<Rightarrow> unwindMissing cfg t outs clock u
     | Settled_recorded _ \<Rightarrow>
       andThen (noteRejectionForGovernor outs clock) (\<lambda>_. andThen (unwindRecorded cfg t) (\<lambda>_. andThen askRequeueLimit (\<lambda>limit.
         if limit = 0 then ret Act_recorded
         else andThen (rebufferRejectedTransaction t (Some (int limit))) (\<lambda>_. ret Act_recorded)))))" for settled
    by (cases settled)
      (auto intro!: keeps_intros kept_noteRejectionForGovernor kept_unwindRecorded kept_askRequeueLimit kept_rebuffer kept_unwindMissing)
  then show ?thesis unfolding afterQuarantine_def by (intro keeps_intros kept_settle)
qed

lemma kept_handle: "keeps R P (handleTerminalRejection cfg t rejection)"
  unfolding handleTerminalRejection_def Let_def
  by (intro keeps_intros kept_rejectionClock kept_callQuarantine kept_afterQuarantine)

end

subsection \<open>What is queued again\<close>

text \<open>A waiting row with the content of a record, marked as preserved; the row whose envelope carries it.\<close>

definition isRequeued :: "string \<Rightarrow> RecordType \<Rightarrow> byte list \<Rightarrow> string option \<Rightarrow> PendingWriteRow \<Rightarrow> bool" where
  "isRequeued icao rt payload flight r \<longleftrightarrow>
     pw_aircraft_icao r = icao \<and> pw_record_type r = rt \<and> pw_payload r = payload \<and> pw_flight_id r = flight \<and> pw_preserved r"

definition carries :: "string \<Rightarrow> byte list \<Rightarrow> string option \<Rightarrow> WriteStore \<Rightarrow> bool" where
  "carries t bs flight s \<longleftrightarrow>
     writes_inv s \<and> (\<exists>x\<in>set (ws_results s). rx_txid x = t \<and> rx_op_return x = Some bs \<and> rx_flight_id x = flight)"

text \<open>The other tasks do anything to the store that drops no row with this content.\<close>

definition othersKeepRequeued ::
  "(PendingWriteRow \<Rightarrow> bool) \<Rightarrow> 'z RejectionWorld_scheme \<Rightarrow> 'z RejectionWorld_scheme \<Rightarrow> bool" where
  "othersKeepRequeued sample w w' \<longleftrightarrow>
     (\<exists>es. ww_store w' = fold storeStep es (ww_store w)
         \<and> (\<forall>r\<in>set (ws_pending (ww_store w)). sample r \<longrightarrow> \<not> list_ex (mayDrop r) es))"

lemma carries_steps: "carries t bs flight s \<Longrightarrow> carries t bs flight (fold storeStep es s)"
proof -
  assume c: "carries t bs flight s"
  then obtain x where x: "x \<in> set (ws_results s)" "rx_txid x = t \<and> rx_op_return x = Some bs \<and> rx_flight_id x = flight"
    by (auto simp: carries_def)
  then obtain y where y: "y \<in> set (ws_results (fold storeStep es s))" "saysOf y = saysOf x"
    using results_say_all [of s es] by fastforce
  have "rx_txid y = t \<and> rx_op_return y = Some bs \<and> rx_flight_id y = flight" using y(2) x(2) by (simp add: saysOf_def)
  then show ?thesis using y(1) store_reachable [of s es] c by (auto simp: carries_def)
qed

lemma requeued_steps:
  assumes "writes_inv s" "\<exists>r\<in>set (ws_pending s). isRequeued icao rt payload flight r"
    and "\<forall>r\<in>set (ws_pending s). isRequeued icao rt payload flight r \<longrightarrow> \<not> list_ex (mayDrop r) es"
  shows "\<exists>r\<in>set (ws_pending (fold storeStep es s)). isRequeued icao rt payload flight r"
proof -
  obtain r where r: "r \<in> set (ws_pending s)" "isRequeued icao rt payload flight r" using assms(2) by blast
  then have "waiting r (fold storeStep es s)"
    using assms(1,3) by (intro waiting_steps) (auto simp: waiting_def intro: sameWrite_refl)
  then obtain r' where "r' \<in> set (ws_pending (fold storeStep es s))" "sameWrite r r'" by (auto simp: waiting_def)
  then show ?thesis using r(2) by (auto simp: isRequeued_def sameWrite_def)
qed

abbreviation requeuedIn where
  "requeuedIn t bs flight icao rt payload w \<equiv>
     carries t bs flight (ww_store w) \<and> (\<exists>r\<in>set (ws_pending (ww_store w)). isRequeued icao rt payload flight r)"

lemma requeue_stable:
  "stableUnder (othersKeepRequeued (isRequeued icao rt payload flight)) (\<lambda>w :: 'z RejectionWorld_scheme. carries t bs flight (ww_store w))"
  "stableUnder (othersKeepRequeued (isRequeued icao rt payload flight))
     (\<lambda>w :: 'z RejectionWorld_scheme. requeuedIn t bs flight icao rt payload w)"
proof -
  show "stableUnder (othersKeepRequeued (isRequeued icao rt payload flight)) (\<lambda>w :: 'z RejectionWorld_scheme. carries t bs flight (ww_store w))"
    by (auto simp: stableUnder_def othersKeepRequeued_def carries_steps)
  show "stableUnder (othersKeepRequeued (isRequeued icao rt payload flight))
     (\<lambda>w :: 'z RejectionWorld_scheme. requeuedIn t bs flight icao rt payload w)"
    unfolding stableUnder_def
  proof (intro allI impI)
    fix w w' :: "'z RejectionWorld_scheme"
    assume o: "othersKeepRequeued (isRequeued icao rt payload flight) w w'" and q: "requeuedIn t bs flight icao rt payload w"
    from o obtain es where es: "ww_store w' = fold storeStep es (ww_store w)"
      "\<forall>r\<in>set (ws_pending (ww_store w)). isRequeued icao rt payload flight r \<longrightarrow> \<not> list_ex (mayDrop r) es"
      by (auto simp: othersKeepRequeued_def)
    have "writes_inv (ww_store w)" using q by (simp add: carries_def)
    from requeued_steps [OF this _ es(2)] q carries_steps [of t bs flight "ww_store w" es]
    show "requeuedIn t bs flight icao rt payload w'" unfolding es(1) by blast
  qed
qed

text \<open>The slot is that of the row with the transaction id.\<close>

lemma claim_is_of_row:
  assumes "carries t bs flight s" "claimRejectRequeue t n s = (Some c, s')"
  shows "rc_op_return c = bs \<and> rc_flight_id c = flight"
proof -
  obtain x where x: "x \<in> set (ws_results s)" "rx_txid x = t" "rx_op_return x = Some bs" "rx_flight_id x = flight"
    and inv: "writes_inv s" using assms(1) by (auto simp: carries_def)
  from assms(2) obtain row where row: "List.find (\<lambda>r. rx_txid r = t \<and> rx_status r \<noteq> TxStatus.MINED \<and> rx_op_return r \<noteq> None)
      (ws_results s) = Some row" and c: "rc_op_return c = the (rx_op_return row)" "rc_flight_id c = rx_flight_id row"
    by (auto simp: claimRejectRequeue_def Let_def split: option.splits if_splits)
  have "row \<in> set (ws_results s)" "rx_txid row = t" using row by (auto simp: find_Some_iff)
  then have "row = x" using inv x(1,2) by (auto simp: writes_inv_def dest: inj_onD [OF distinct_map [THEN iffD1, THEN conjunct2]])
  then show ?thesis using c x by simp
qed

lemma claim_steps: "snd (claimRejectRequeue t n s) = storeStep (Claim_requeue t n) s"
  by simp

lemma claim_carries: "carries t bs flight s \<Longrightarrow> carries t bs flight (snd (claimRejectRequeue u n s))"
  using carries_steps [of t bs flight s "[Claim_requeue u n]"] by simp


lemma insert_requeues:
  assumes "carries t bs flight s" "np_preserved x = Some True"
    and "isRequeued (np_aircraft_icao x) (np_record_type x) (np_payload x) (np_flight_id x) = isRequeued icao rt payload flight"
  shows "carries t bs flight (insertPendingWrite now x s)"
    and "\<exists>r\<in>set (ws_pending (insertPendingWrite now x s)). isRequeued icao rt payload flight r"
proof -
  show "carries t bs flight (insertPendingWrite now x s)"
    using carries_steps [OF assms(1), of "[Insert_pending now x]"] by simp
  have "isRequeued icao rt payload flight (pendingRow now (ws_nextId s) x)"
    unfolding assms(3) [symmetric] using assms(2) by (simp add: isRequeued_def pendingRow_def)
  then show "\<exists>r\<in>set (ws_pending (insertPendingWrite now x s)). isRequeued icao rt payload flight r"
    by (auto simp: insertPendingWrite_def)
qed

lemma onStore_step: "ww_store (snd (onStore f w)) = snd (f (tw_clock w) (ww_store w))"
  by (simp add: onStore_def split: prod.split)

lemma trim_without_space: "list_all (\<lambda>c. \<not> js_ws c) s \<Longrightarrow> js_trim s = s"
proof -
  have left: "trim_left s = s" if "list_all (\<lambda>c. \<not> js_ws c) s" for s
    using that by (cases s) (simp_all add: trim_left_def)
  assume "list_all (\<lambda>c. \<not> js_ws c) s"
  then show ?thesis using left [of s] left [of "rev s"] by (simp add: js_trim_def)
qed

lemma trim_icao: "isIcaoHex icao \<Longrightarrow> js_trim icao = icao"
  by (rule trim_without_space) (auto simp: isIcaoHex_def list_all_iff hexVal_def js_ws_def Let_def split: if_splits)

text \<open>What is read from an envelope that was built for a record, whichever time it was given.\<close>

lemma requeued_content:
  assumes "buildOpReturnPayload icao (Some ms) rt payload = Inr bs" "parseOpReturnPayload bs = Inr p"
    and "rc_flight_id c = flight" "rc_op_return c = bs"
  shows "requeuedWrite c p = \<lparr> np_aircraft_icao = js_upper icao, np_record_type = rt, np_payload = payload,
     np_flight_id = flight, np_preserved = Some True \<rparr>"
proof -
  from parse_built [OF assms(1)] obtain b where
    "parseOpReturnPayload bs = (case decodeTimestamp b of Inl e \<Rightarrow> Inl e
      | Inr ts \<Rightarrow> Inr \<lparr> pp_version = PROTOCOL_VERSION, pp_icao = js_upper icao, pp_timestamp = ts,
                        pp_recordType = rt, pp_payload = payload \<rparr>)" .
  then have p: "pp_icao p = js_upper icao" "pp_recordType p = rt" "pp_payload p = payload"
    using assms(2) by (auto split: sum.splits)
  have hex: "isIcaoHex icao" using assms(1) by (auto simp: buildOpReturnPayload_def encodeIcaoHex_def split: if_splits)
  have "js_upper (js_trim (js_upper icao)) = js_upper icao" "js_upper icao \<noteq> []"
    using hex trim_icao [OF hex] by (simp_all add: js_trim_upper) (auto simp: isIcaoHex_def js_upper_def)
  then show ?thesis using p assms(3) by (simp add: requeuedWrite_def)
qed

lemma rebuffer_requeues:
  fixes s :: "'z RejectionWorld_scheme System"
  assumes built: "buildOpReturnPayload icao (Some ms) rt payload = Inr bs"
    and s: "under (othersKeepRequeued (isRequeued (js_upper icao) rt payload flight)) (\<lambda>w. carries t bs flight (ww_store w)) s"
  shows "wpr (rebufferRejectedTransaction t n)
     (\<lambda>out. under (othersKeepRequeued (isRequeued (js_upper icao) rt payload flight))
        (\<lambda>w. carries t bs flight (ww_store w)
           \<and> (out = Requeued \<longrightarrow> (\<exists>r\<in>set (ws_pending (ww_store w)). isRequeued (js_upper icao) rt payload flight r))))
     (\<lambda>_ _. False) s"
proof -
  let ?R = "othersKeepRequeued (isRequeued (js_upper icao) rt payload flight) :: 'z RejectionWorld_scheme \<Rightarrow> _"
  let ?P = "\<lambda>w :: 'z RejectionWorld_scheme. carries t bs flight (ww_store w)"
  let ?Q = "\<lambda>w :: 'z RejectionWorld_scheme. requeuedIn t bs flight (js_upper icao) rt payload w"
  let ?C = "\<lambda>claim w :: 'z RejectionWorld_scheme. carries t bs flight (ww_store w)
      \<and> (\<forall>c. claim = Some c \<longrightarrow> rc_op_return c = bs \<and> rc_flight_id c = flight)"
  note st = requeue_stable [of "js_upper icao" rt payload flight t bs]
  have stC: "stableUnder ?R (?C x)" for x by (rule stableUnder_conj [OF st(1) stableUnder_const])
  have claim: "wpr (await () (onStore (\<lambda>_. claimRejectRequeue t k))) (\<lambda>x. under ?R (?C x)) (\<lambda>e. under ?R (\<lambda>w. e = () \<and> ?P w)) s" for k
  proof (rule wp_await [OF s st(1) stC st(1)])
    fix w x w' assume "?P w" "onStore (\<lambda>_. claimRejectRequeue t k) w = (x, w')"
    then show "?C x w'"
      using claim_carries [of t bs flight "ww_store w" t k] claim_is_of_row [of t bs flight "ww_store w" k]
      by (cases "claimRejectRequeue t k (ww_store w)") (auto simp: onStore_def)
  qed auto
  have insert: "wpr (await () (onStore (\<lambda>now st. ((), insertPendingWrite now (requeuedWrite c p) st))))
      (\<lambda>_. under ?R ?Q) (\<lambda>e. under ?R (\<lambda>w. e = () \<and> ?P w)) s'"
    if "under ?R ?P s'" "parseOpReturnPayload bs = Inr p" "rc_op_return c = bs" "rc_flight_id c = flight" for s' c p
  proof (rule wp_await [OF that(1) st st(1)])
    fix w x w' assume "?P w" "onStore (\<lambda>now st. ((), insertPendingWrite now (requeuedWrite c p) st)) w = (x, w')"
    then show "?Q w'"
      using insert_requeues [where s = "ww_store w" and x = "requeuedWrite c p" and icao = "js_upper icao" and rt = rt
            and payload = payload and flight = flight and t = t and bs = bs and now = "tw_clock w"]
        requeued_content [OF built that(2,4,3)]
      by (auto simp: onStore_def)
  qed auto
  have rest: "wpr (case claim of None \<Rightarrow> ret Skipped_no_claim
       | Some c \<Rightarrow> (case parseOpReturnPayload (rc_op_return c) of Inl _ \<Rightarrow> ret Skipped_unparseable
           | Inr parsed \<Rightarrow>
               if \<not> isRebufferableRecordType (pp_recordType parsed) then ret Skipped_unparseable
               else andThen (await () (onStore (\<lambda>now s. ((), insertPendingWrite now (requeuedWrite c parsed) s)))) (\<lambda>_. ret Requeued)))
     (\<lambda>out. under ?R (\<lambda>w. ?P w \<and> (out = Requeued \<longrightarrow> ?Q w))) (\<lambda>_. under ?R ?P) s'" if "under ?R (?C claim) s'" for claim s'
  proof -
    have P: "under ?R ?P s'" using that by (auto simp: under_def)
    show ?thesis
    proof (cases claim)
      case None
      then show ?thesis using P by (simp add: wp_ret under_def)
    next
      case (Some c)
      then have c: "rc_op_return c = bs" "rc_flight_id c = flight" using that by (auto simp: under_def)
      show ?thesis
      proof (cases "parseOpReturnPayload bs")
        case (Inr p)
        have "wpr (andThen (await () (onStore (\<lambda>now s. ((), insertPendingWrite now (requeuedWrite c p) s)))) (\<lambda>_. ret Requeued))
          (\<lambda>out. under ?R (\<lambda>w. ?P w \<and> (out = Requeued \<longrightarrow> ?Q w))) (\<lambda>_. under ?R ?P) s'"
          unfolding wp_andThen wp_ret by (rule wpr_mono [OF insert [OF P Inr c]]) (auto simp: under_def)
        then show ?thesis using P by (simp add: Some c Inr wp_ret under_def)
      qed (use P in \<open>simp add: Some c wp_ret under_def\<close>)
    qed
  qed
  show ?thesis
    unfolding rebufferRejectedTransaction_def Let_def wp_onError wp_andThen
    by (rule wpr_mono [OF claim]) (rule wpr_mono [OF rest], auto simp: wp_ret under_def)
qed



subsection \<open>An outpoint the network reports as spent stays out\<close>

definition registered :: "string \<times> nat \<Rightarrow> 'z RejectionWorld_scheme \<Rightarrow> bool" where
  "registered k w \<longleftrightarrow> outpointKey (fst k) (snd k) \<in> jw_keys w"

definition inPool :: "string \<times> nat \<Rightarrow> 'z RejectionWorld_scheme \<Rightarrow> bool" where
  "inPool k w \<longleftrightarrow> k \<in> keyOfRow ` set (pool (rw_utxos w))"

definition inTreasury :: "string \<times> nat \<Rightarrow> 'z RejectionWorld_scheme \<Rightarrow> bool" where
  "inTreasury k w \<longleftrightarrow> k \<in> keyOfFunding ` set (funding_pool (tw_funding w))"

definition outOfPools :: "string \<times> nat \<Rightarrow> 'z RejectionWorld_scheme \<Rightarrow> bool" where
  "outOfPools k w \<longleftrightarrow> registered k w \<and> \<not> inPool k w \<and> \<not> inTreasury k w"

text \<open>The other tasks keep the registry, and add no row for an outpoint that is registered.\<close>

definition othersAddNoSpent :: "string \<times> nat \<Rightarrow> 'z RejectionWorld_scheme \<Rightarrow> 'z RejectionWorld_scheme \<Rightarrow> bool" where
  "othersAddNoSpent k w w' \<longleftrightarrow>
     (registered k w \<longrightarrow> registered k w' \<and> (inPool k w' \<longrightarrow> inPool k w) \<and> (inTreasury k w' \<longrightarrow> inTreasury k w))"

lemmas pool_facts = registered_def inPool_def inTreasury_def outOfPools_def

interpretation out: rejection_frame "othersAddNoSpent k" "outOfPools k" for k :: "string \<times> nat"
proof
  show "stableUnder (othersAddNoSpent k) (outOfPools k)"
    by (auto simp: stableUnder_def othersAddNoSpent_def outOfPools_def)
qed (auto simp: pool_facts unregistered_def)

text \<open>Progress of the deletions.\<close>

definition outOnce :: "string \<times> nat \<Rightarrow> bool \<Rightarrow> 'z RejectionWorld_scheme \<Rightarrow> bool" where
  "outOnce k gone w \<longleftrightarrow> registered k w \<and> (gone \<longrightarrow> \<not> inPool k w \<and> \<not> inTreasury k w)"

definition halfOut :: "string \<times> nat \<Rightarrow> bool \<Rightarrow> bool \<Rightarrow> 'z RejectionWorld_scheme \<Rightarrow> bool" where
  "halfOut k gone hit w \<longleftrightarrow> outOnce k gone w \<and> (hit \<longrightarrow> \<not> inPool k w)"

lemma outOnce_stable: "stableUnder (othersAddNoSpent k) (outOnce k gone)" "stableUnder (othersAddNoSpent k) (halfOut k gone hit)"
  by (auto simp: stableUnder_def othersAddNoSpent_def outOnce_def halfOut_def)

lemma pool_deletes:
  "outOnce k gone w \<Longrightarrow> halfOut k gone ((t, v) = k) (snd (toUtxos (\<lambda>_ m. m\<lparr>pool := deleteRows t v (pool m)\<rparr>) w))"
  by (auto simp: halfOut_def outOnce_def toUtxos_def pool_facts deleteRows_def)

lemma treasury_deletes:
  "halfOut k gone ((t, v) = k) w \<Longrightarrow>
     outOnce k (gone \<or> (t, v) = k) (snd (toFunding (\<lambda>_ m. m\<lparr>funding_pool := deleteFundingUtxo t v (funding_pool m)\<rparr>) w))"
  by (auto simp: halfOut_def outOnce_def toFunding_def pool_facts deleteFundingUtxo_def deleteFunding_def)

lemma deletions_remove:
  fixes s :: "'z RejectionWorld_scheme System"
  assumes "underDone (othersAddNoSpent k) (outOnce k gone) s"
  shows "wpr (forEach (\<lambda>ou.
          andThen (await () (toUtxos (\<lambda>_ m. m\<lparr>pool := deleteRows (nso_txid ou) (nso_vout ou) (pool m)\<rparr>))) (\<lambda>_.
          await () (toFunding (\<lambda>_ m. m\<lparr>funding_pool := deleteFundingUtxo (nso_txid ou) (nso_vout ou) (funding_pool m)\<rparr>)))) outs)
     (\<lambda>_. underDone (othersAddNoSpent k) (outOnce k (gone \<or> k \<in> (\<lambda>ou. (nso_txid ou, nso_vout ou)) ` set outs))) E s"
  using assms
proof (induction outs arbitrary: s gone)
  case Nil
  then show ?case by (simp add: wp_ret)
next
  case (Cons ou outs)
  let ?hit = "(nso_txid ou, nso_vout ou) = k"
  let ?rest = "(\<lambda>ou. (nso_txid ou, nso_vout ou)) ` set outs"
  show ?case
    unfolding forEach.simps
  proof (rule wpr_then)
    show "wpr (andThen (await () (toUtxos (\<lambda>_ m. m\<lparr>pool := deleteRows (nso_txid ou) (nso_vout ou) (pool m)\<rparr>))) (\<lambda>_.
          await () (toFunding (\<lambda>_ m. m\<lparr>funding_pool := deleteFundingUtxo (nso_txid ou) (nso_vout ou) (funding_pool m)\<rparr>))))
        (\<lambda>_. underDone (othersAddNoSpent k) (outOnce k (gone \<or> ?hit))) E s"
      by (rule wpr_then, rule wp_await_done [OF Cons.prems outOnce_stable pool_deletes], assumption)
        (rule wp_await_done [OF _ outOnce_stable(2,1) treasury_deletes])
  next
    fix x and s' :: "'z RejectionWorld_scheme System" assume "underDone (othersAddNoSpent k) (outOnce k (gone \<or> ?hit)) s'"
    from Cons.IH [OF this]
    show "wpr (forEach (\<lambda>ou.
          andThen (await () (toUtxos (\<lambda>_ m. m\<lparr>pool := deleteRows (nso_txid ou) (nso_vout ou) (pool m)\<rparr>))) (\<lambda>_.
          await () (toFunding (\<lambda>_ m. m\<lparr>funding_pool := deleteFundingUtxo (nso_txid ou) (nso_vout ou) (funding_pool m)\<rparr>)))) outs)
      (\<lambda>_. underDone (othersAddNoSpent k) (outOnce k (gone \<or> k \<in> (\<lambda>ou. (nso_txid ou, nso_vout ou)) ` set (ou # outs)))) E s'"
      by (rule wpr_mono) (auto elim!: underDone_mono simp: outOnce_def)
  qed
qed


text \<open>The clock is read, and the keys are registered before the first deletion.\<close>

lemma clock_done:
  fixes s :: "'z RejectionWorld_scheme System"
  assumes "underDone R (\<lambda>_. True) s"
  shows "wpr (rejectionClock t) (\<lambda>_. underDone R (\<lambda>_. True)) (\<lambda>_ _. False) s"
proof -
  have true: "stableUnder R (\<lambda>_. True)" by (simp add: stableUnder_def)
  have read: "wpr (reading f) (\<lambda>_. underDone R (\<lambda>_. True)) E s'" if "underDone R (\<lambda>_. True) s'" for f E and s' :: "'z RejectionWorld_scheme System"
    unfolding reading_def by (rule wp_await_done [OF that true true]) simp
  have rest: "wpr (case x of Some ms \<Rightarrow> ret (Some ms) | None \<Rightarrow> andThen (reading f) (\<lambda>a. andThen (reading g) (\<lambda>b. ret (h a b))))
      (\<lambda>_. underDone R (\<lambda>_. True)) E s'" if "underDone R (\<lambda>_. True) s'" for x f g h E and s' :: "'z RejectionWorld_scheme System"
    using that
    by (cases x) (auto simp: wp_ret wp_andThen intro!: wpr_mono [OF read] elim: wpr_mono [OF read])
  show ?thesis
    unfolding rejectionClock_def lookupRejectionBroadcastAtMs_def wp_onError wp_andThen wp_ret
    by (rule wpr_mono [OF read [OF assms]], rule rest, assumption, assumption)
qed

lemma registering:
  "ou \<in> set outs \<Longrightarrow> fresh = freshOutpoints outs w \<Longrightarrow>
     registered (nso_txid ou, nso_vout ou)
       (w\<lparr>jw_keys := jw_keys w \<union> set (map (\<lambda>ou. outpointKey (nso_txid ou) (nso_vout ou)) fresh)\<rparr>)"
  by (auto simp: registered_def freshOutpoints_def outpointKey_trim)

lemma quarantine_done:
  fixes s :: "'z RejectionWorld_scheme System"
  assumes s: "underDone (othersAddNoSpent (nso_txid ou, nso_vout ou)) (\<lambda>_. True) s" and ou: "ou \<in> set outs"
  shows "wpr (callQuarantine outs t) (\<lambda>_. underDone (othersAddNoSpent (nso_txid ou, nso_vout ou)) (outOfPools (nso_txid ou, nso_vout ou)))
     (\<lambda>_ _. False) s"
proof -
  let ?k = "(nso_txid ou, nso_vout ou)"
  let ?R = "othersAddNoSpent ?k :: 'z RejectionWorld_scheme \<Rightarrow> _"
  let ?fresh = "freshOutpoints outs (world s)"
  let ?s1 = "s\<lparr>world := (world s)\<lparr>jw_keys := jw_keys (world s) \<union> set (map (\<lambda>ou. outpointKey (nso_txid ou) (nso_vout ou)) ?fresh)\<rparr>\<rparr>"
  have s1: "underDone ?R (outOnce ?k False) ?s1"
    using s registering [OF ou refl, of "world s"]
    by (simp add: underDone_def under_def obeys_def allDone_def outOnce_def)
  have table: "wpr (onlyIf (?fresh \<noteq> []) (await () (\<lambda>w. ((), insertQuarantined ?fresh t w)))) (\<lambda>_. underDone ?R (outOnce ?k False)) E ?s1" for E
  proof -
    have "wpr (await () (\<lambda>w. ((), insertQuarantined ?fresh t w))) (\<lambda>_. underDone ?R (outOnce ?k False)) E ?s1"
      by (rule wp_await_done [OF s1 outOnce_stable(1,1)]) (simp add: outOnce_def insertQuarantined_def pool_facts)
    then show ?thesis using s1 unfolding wp_onlyIf if_bool_eq_conj by blast
  qed
  have gone: "outOnce ?k (?k \<in> (\<lambda>ou. (nso_txid ou, nso_vout ou)) ` set outs) w \<Longrightarrow> outOfPools ?k w" for w :: "'z RejectionWorld_scheme"
    using ou by (auto simp: outOnce_def outOfPools_def)
  show ?thesis
    unfolding callQuarantine_def wp_andThen wp_peek_eq wp_alter_eq wp_onError
    by (rule wpr_mono [OF table], rule wpr_mono [OF deletions_remove], assumption)
      (simp_all only: simp_thms, erule underDone_mono, erule gone)
qed



text \<open>
  C39: what is queued again is what was refused. If a result carries an envelope that was built for a record and
  the transaction is queued again, a write waits with the aircraft, the type, the payload and the flight of that
  record, and it is marked as preserved, whatever the other tasks do that drop no such write. The operation
  never raises.
\<close>

theorem requeued_sample_is_kept:
  fixes s :: "'z RejectionWorld_scheme System"
  assumes "obeys (othersKeepRequeued (isRequeued (js_upper icao) rt payload flight)) s"
    and "writes_inv (ww_store (world s))" and "x \<in> set (ws_results (ww_store (world s)))"
    and "rx_txid x = t" "rx_flight_id x = flight" "rx_op_return x = Some bs"
    and "buildOpReturnPayload icao (Some ms) rt payload = Inr bs"
    and "rebufferRejectedTransaction t n s = (r, s')"
  shows "r \<noteq> Threw
    \<and> (r = Returned Requeued \<longrightarrow>
        (\<exists>w\<in>set (ws_pending (ww_store (world s'))). isRequeued (js_upper icao) rt payload flight w))"
proof -
  have "under (othersKeepRequeued (isRequeued (js_upper icao) rt payload flight)) (\<lambda>w. carries t bs flight (ww_store w)) s"
    using assms(1-6) by (auto simp: under_def carries_def)
  from wpr_run [OF rebuffer_requeues [OF assms(7) this] assms(8)] show ?thesis
    by (cases r) (auto simp: under_def)
qed

subsection \<open>Examples\<close>

definition exampleRejection :: RejectionConfig where
  "exampleRejection =
     \<lparr> jc_writer = exampleWriter, jc_guardMs = 30000, jc_fundingGuardMs = 30000, jc_fundingScript = ''f1'',
       jc_scriptFor = (\<lambda>_. None), jc_minAgeMs = 100, jc_recheckMs = 500, jc_batch = 50 \<rparr>"

definition exampleResult :: "TxStatus \<Rightarrow> byte list option \<Rightarrow> NewTxResult" where
  "exampleResult st opReturn =
     \<lparr> nx_txid = ''dd'', nx_aircraft_icao = ''A1B2C3'', nx_record_type = TELEMETRY, nx_status = st, nx_block_height = None,
       nx_merkle_path = None, nx_timestamp = 100, nx_fee_sats = 24, nx_size_bytes = 232, nx_flight_id = None,
       nx_chronicle_validated = None, nx_op_return = opReturn \<rparr>"

definition exampleSpentTxid :: string where "exampleSpentTxid = replicate 64 (CHR ''a'')"

definition exampleReason :: TerminalRejectionContext where
  "exampleReason = \<lparr> jr_status = ''DOUBLE_SPEND_ATTEMPTED'',
     jr_reason = Some (exampleSpentTxid @ '':0 utxo already spent by tx '' @ replicate 64 (CHR ''b'')),
     jr_competingTxs = None, jr_upstreamSnippet = None \<rparr>"

definition exampleRejectionWorld :: "TxStatus \<Rightarrow> byte list option \<Rightarrow> RejectionWorld" where
  "exampleRejectionWorld st opReturn =
     WriterWorld.extend ((exampleWriterWorld accepting)\<lparr>
         ww_store := newWriteStore\<lparr>ws_results := [resultRow (exampleResult st opReturn)]\<rparr>,
         rw_utxos := newUtxoManager [exampleInput\<lparr>txid := exampleSpentTxid\<rparr>] newHold\<rparr>)
       \<lparr> jw_keys = {}, jw_quarantined = Map.empty, jw_createdAt = (\<lambda>_. 100), jw_aircraftChain = (\<lambda>_. None),
         jw_aircraftJoined = (\<lambda>_. False), jw_fundingChain = Unreachable False, jw_fundingJoined = None \<rparr>"

lemmas run_simps = andThen_def onError_def ret_def raise_def peek_def gets_def alter_def modify_def onlyIf_def
  reading_def

lemma await_now: "script s = [] \<Longrightarrow> await e f s = (case f (world s) of (x, w) \<Rightarrow> (Returned x, s\<lparr>world := w\<rparr>))"
  by (simp add: await_def)

lemma example_reason:
  "\<lparr> nso_txid = exampleSpentTxid, nso_vout = 0, nso_spentBy = replicate 64 (CHR ''b'') \<rparr>
     \<in> set (parseNetworkSpentOutpoints (jr_reason exampleReason))"
proof -
  let ?a = "replicate 64 (CHR ''a'')" and ?b = "replicate 64 (CHR ''b'')"
  let ?txt = "?a @ '':0'' @ spentLiteral @ ?b"
  have hex: "isTxid ?a" "isTxid ?b" by (simp_all add: isTxid_def list_all_iff, code_simp+)
  have digits: "is_digit (CHR ''0'')" "\<not> is_digit (CHR '' '')" by code_simp+
  have small: "lower_char (CHR ''a'') = CHR ''a''" "lower_char (CHR ''b'') = CHR ''b''" "js_lower '':0'' = '':0''"
    "js_lower spentLiteral = spentLiteral" by code_simp+
  have "takeWhile is_digit (spentLiteral @ ?b) = []"
    using digits by (simp add: spentLiteral_def)
  then have "matchSpent ?txt = Some ((?a, ''0'', ?b), [])"
    using hex digits by (simp add: matchSpent_def Let_def)
  then have all: "matchAllSpent ?txt = [(?a, ''0'', ?b)]"
    by (subst matchAllSpent.simps) (simp, subst matchAllSpent.simps, simp)
  have "js_lower ?txt = ?txt" using small by (simp add: js_lower_def)
  moreover have "jr_reason exampleReason = Some ?txt" by (simp add: exampleReason_def exampleSpentTxid_def spentLiteral_def)
  moreover have "decToNat ''0'' = 0" by code_simp
  ultimately show ?thesis
    using all by (simp add: parseNetworkSpentOutpoints_def exampleSpentTxid_def MAX_SAFE_INTEGER_def)
qed


lemma example_envelope:
  obtains bs p where "buildOpReturnPayload ''a1b2c3'' (Some 1000) TELEMETRY [7] = Inr bs" "parseOpReturnPayload bs = Inr p"
proof -
  have "isIcaoHex ''a1b2c3''" by code_simp
  then obtain bs where bs: "buildOpReturnPayload ''a1b2c3'' (Some 1000) TELEMETRY [7] = Inr bs"
    by (auto simp: buildOpReturnPayload_def encodeIcaoHex_def encodeTimestamp_def)
  from parse_built [OF bs] obtain b where b: "encodeTimestamp (Some 1000) = Inr b"
    "parseOpReturnPayload bs = (case decodeTimestamp b of Inl e \<Rightarrow> Inl e
      | Inr ts \<Rightarrow> Inr \<lparr> pp_version = PROTOCOL_VERSION, pp_icao = js_upper ''a1b2c3'', pp_timestamp = ts,
                        pp_recordType = TELEMETRY, pp_payload = [7] \<rparr>)" .
  have "b = toLe 8 (1000 :: 64 word)" using b(1) by (simp add: encodeTimestamp_ok)
  then have "decodeTimestamp b = Inr 1000"
    using timestamp_roundtrip [of 1000] by (simp add: MAX_SAFE_INTEGER_def)
  then show thesis using that [OF bs] b(2) by simp
qed

theorem requeued_sample_is_kept_witness:
  "\<exists>bs s'. rebufferRejectedTransaction ''dd'' (Some 3)
       \<lparr> world = exampleRejectionWorld TxStatus.FAILED (Some bs), script = [] \<rparr> = (Returned Requeued, s')
     \<and> (\<exists>w\<in>set (ws_pending (ww_store (world s'))). pw_aircraft_icao w = ''A1B2C3'' \<and> pw_payload w = [7] \<and> pw_preserved w)"
proof -
  obtain bs p where bs: "buildOpReturnPayload ''a1b2c3'' (Some 1000) TELEMETRY [7] = Inr bs" and p: "parseOpReturnPayload bs = Inr p"
    by (rule example_envelope)
  let ?s = "\<lparr> world = exampleRejectionWorld TxStatus.FAILED (Some bs), script = [] \<rparr>"
  have store: "ww_store (exampleRejectionWorld TxStatus.FAILED (Some bs)) = newWriteStore\<lparr>ws_results := [resultRow (exampleResult TxStatus.FAILED (Some bs))]\<rparr>"
    by (simp add: exampleRejectionWorld_def WriterWorld.extend_def)
  have rt: "isRebufferableRecordType (pp_recordType p)" by (cases "pp_recordType p") (simp_all add: isRebufferableRecordType_def)
  obtain s' where run: "rebufferRejectedTransaction ''dd'' (Some 3) ?s = (Returned Requeued, s')"
    by (simp add: rebufferRejectedTransaction_def run_simps await_now onStore_def store claimRejectRequeue_def newWriteStore_def
        resultRow_def exampleResult_def Let_def p rt)
  have "writes_inv (ww_store (world ?s))" by (simp add: store writes_inv_def newWriteStore_def)
  from requeued_sample_is_kept [OF obeys_new this _ _ _ _ bs run, of "resultRow (exampleResult TxStatus.FAILED (Some bs))" None]
  have "\<exists>w\<in>set (ws_pending (ww_store (world s'))). isRequeued (js_upper ''a1b2c3'') TELEMETRY [7] None w"
    by (simp add: store resultRow_def exampleResult_def)
  moreover have "js_upper ''a1b2c3'' = ''A1B2C3''" by code_simp
  ultimately show ?thesis using run by (auto simp: isRequeued_def)
qed

end
