(* ===== verification/Lost_Transactions.thy ===== *)
theory Lost_Transactions
  imports Rejections
begin

text \<open>
  Transactions that were reported as seen and that the chain does not have: \<open>probeTx\<close> of
  \<open>services/blockchain-writer/src/chain-lookup.ts\<close> and \<open>lost-tx-detector.ts\<close>. A provider is its name, whether it serves
  transactions, whether it is limited now, and what it answers. The world adds to that of a rejection what a
  probe answers and the marks of the detector; \<open>jw_trail\<close> records the answers and the verdicts for the theorem
  about them, and no operation reads it. The timer that runs the cycles does not wait for the
  previous one, so the environment may run a cycle of its own. Log lines and metrics are left out.
\<close>

subsection \<open>Probing a transaction\<close>

datatype Presence = Tx_found | Tx_absent | Tx_unknown

record TxProbe =
  pr_presence :: Presence
  pr_providers :: "string list"

text \<open>What a provider answers: a definite 404, a body that names the transaction or another, or an error.\<close>

datatype ProviderAnswer = Not_found | Body string | Failing

record ChainProvider =
  cp_name :: string
  cp_servesTx :: bool
  cp_rateLimited :: bool
  cp_answer :: "string \<Rightarrow> ProviderAnswer"

fun probeProviders :: "string \<Rightarrow> ChainProvider list \<Rightarrow> string list \<Rightarrow> TxProbe" where
  "probeProviders t [] absent =
     (if absent = [] then \<lparr> pr_presence = Tx_unknown, pr_providers = [] \<rparr>
      else \<lparr> pr_presence = Tx_absent, pr_providers = absent \<rparr>)"
| "probeProviders t (p # ps) absent =
     (if cp_rateLimited p then \<lparr> pr_presence = Tx_unknown, pr_providers = [] \<rparr>
      else case cp_answer p t of
        Failing \<Rightarrow> \<lparr> pr_presence = Tx_unknown, pr_providers = [] \<rparr>
      | Not_found \<Rightarrow> probeProviders t ps (absent @ [cp_name p])
      | Body i \<Rightarrow> if js_lower (js_trim i) = t then \<lparr> pr_presence = Tx_found, pr_providers = [cp_name p] \<rparr>
                  else \<lparr> pr_presence = Tx_unknown, pr_providers = [] \<rparr>)"

definition isHex64 :: "string \<Rightarrow> bool" where
  "isHex64 s \<longleftrightarrow> length s = 64 \<and> list_all (\<lambda>c. c \<in> set ''0123456789abcdef'') s"

definition probeTx :: "ChainProvider list \<Rightarrow> string \<Rightarrow> TxProbe" where
  "probeTx providers t =
     (let normalised = js_lower (js_trim t) in
      if \<not> isHex64 normalised then \<lparr> pr_presence = Tx_unknown, pr_providers = [] \<rparr>
      else probeProviders normalised (filter cp_servesTx providers) [])"

subsection \<open>The world of the detector\<close>

record AbsentMark =
  am_at :: millis
  am_nextEligible :: millis

datatype trail = Answered millis string TxProbe | Declared millis string

record LostWorld = RejectionWorld +
  jw_probe :: "string \<Rightarrow> TxProbe"
  jw_absent :: "(string \<times> AbsentMark) list"
  jw_trail :: "trail list"

type_synonym ('z, 'a) lost_job = "('z LostWorld_scheme, unit, 'a) job"

subsection \<open>Transactions the chain has lost\<close>

definition LOST_REQUEUE_ONCE :: int where "LOST_REQUEUE_ONCE = 1"
definition STATE_CAP :: nat where "STATE_CAP = 10000"

definition LOST_REASON :: string where
  "LOST_REASON = ''Reported SEEN_ON_NETWORK but the chain has no record of this transaction''"

definition lostTxDetectionEnabled :: "(string \<rightharpoonup> string) \<Rightarrow> bool" where
  "lostTxDetectionEnabled env = readBoolEnv ''LOST_TX_DETECTION_ENABLED'' True env"

definition lostTxCheckIntervalMs :: "(string \<Rightarrow> jsnum) \<Rightarrow> (string \<rightharpoonup> string) \<Rightarrow> int" where
  "lostTxCheckIntervalMs number env =
     (let ms = readNonNegativeInt number ''LOST_TX_CHECK_INTERVAL_MS'' 60000 env in if ms > 0 then ms else 60000)"

definition lostTxBatchSize :: "(string \<Rightarrow> jsnum) \<Rightarrow> (string \<rightharpoonup> string) \<Rightarrow> int" where
  "lostTxBatchSize number env =
     (let batch = readNonNegativeInt number ''LOST_TX_BATCH'' 50 env in if batch > 0 then batch else 50)"

definition lostTxMinAgeMs :: "(string \<Rightarrow> jsnum) \<Rightarrow> (string \<rightharpoonup> string) \<Rightarrow> int" where
  "lostTxMinAgeMs number env = readNonNegativeInt number ''LOST_TX_MIN_AGE_MS'' (20 * 60000) env"

definition lostTxRecheckMs :: "(string \<Rightarrow> jsnum) \<Rightarrow> (string \<rightharpoonup> string) \<Rightarrow> int" where
  "lostTxRecheckMs number env = readNonNegativeInt number ''LOST_TX_RECHECK_MS'' (5 * 60000) env"

record LostTxCycleSummary =
  lc_checked :: nat
  lc_found :: nat
  lc_absent :: nat
  lc_unknown :: nat
  lc_lost :: nat

definition emptySummary :: LostTxCycleSummary where
  "emptySummary = \<lparr> lc_checked = 0, lc_found = 0, lc_absent = 0, lc_unknown = 0, lc_lost = 0 \<rparr>"

text \<open>A new mark drops the oldest one when the table is full.\<close>

definition rememberAbsent ::
  "string \<Rightarrow> AbsentMark \<Rightarrow> (string \<times> AbsentMark) list \<Rightarrow> (string \<times> AbsentMark) list" where
  "rememberAbsent t mark marks =
     AList.update t mark (if map_of marks t = None \<and> length marks \<ge> STATE_CAP then tl marks else marks)"

definition dbRows :: "millis \<Rightarrow> nat \<Rightarrow> 'z LostWorld_scheme \<Rightarrow> (string \<times> string) list" where
  "dbRows cutoff batch w =
     map (\<lambda>r. (rx_txid r, rx_aircraft_icao r))
       (take (batch * 8) (sort_key (\<lambda>r. jw_createdAt w (rx_txid r))
          (filter (\<lambda>r. rx_status r = TxStatus.SEEN_ON_NETWORK \<and> jw_createdAt w (rx_txid r) \<le> cutoff) (ws_results (ww_store w)))))"

text \<open>A row is chosen before the length is compared with the batch.\<close>

definition eligible :: "millis \<Rightarrow> (string \<times> AbsentMark) list \<Rightarrow> string \<times> string \<Rightarrow> bool" where
  "eligible now marks row =
     (case map_of marks (js_trim (fst row)) of Some m \<Rightarrow> \<not> am_nextEligible m > now | None \<Rightarrow> True)"

definition chooseRows :: "millis \<Rightarrow> nat \<Rightarrow> (string \<times> AbsentMark) list \<Rightarrow> (string \<times> string) list \<Rightarrow> (string \<times> string) list" where
  "chooseRows now batch marks rows = take (max 1 batch) (filter (eligible now marks) rows)"

definition selectCandidates :: "RejectionConfig \<Rightarrow> millis \<Rightarrow> ('z, (string \<times> string) list) lost_job" where
  "selectCandidates cfg now =
     andThen (reading (dbRows (now - jc_minAgeMs cfg) (jc_batch cfg))) (\<lambda>rows.
     peek (\<lambda>w. chooseRows now (jc_batch cfg) (jw_absent w) rows))"

definition forgetAbsent :: "string \<Rightarrow> ('z, unit) lost_job" where
  "forgetAbsent t = alter (\<lambda>w. w\<lparr>jw_absent := AList.delete t (jw_absent w)\<rparr>)"

definition noteTrail :: "trail \<Rightarrow> ('z, unit) lost_job" where
  "noteTrail e = alter (\<lambda>w. w\<lparr>jw_trail := jw_trail w @ [e]\<rparr>)"

definition unwindLost :: "RejectionConfig \<Rightarrow> string \<Rightarrow> string \<Rightarrow> ('z, unit) lost_job" where
  "unwindLost cfg t owner =
     tryCatch
       (andThen (callInvalidateOutputsOf t) (\<lambda>_.
        andThen (deleteUnconfirmedOutputsOf t) (\<lambda>u.
        andThen (onlyIf (pu_fundingVouts u \<noteq> [])
           (alter (\<lambda>w. w\<lparr>tw_funding := fundingOutputsInvalidated t (pu_fundingVouts u) (tw_funding w)\<rparr>))) (\<lambda>_.
        let icao = js_upper (js_trim owner); fleet = (icao = [] \<or> icao = FLEET_PSEUDO_ICAO) in
        andThen (onlyIf (\<not> fleet) (callReconcile cfg icao)) (\<lambda>_.
        onlyIf (fleet \<or> pu_fundingDeleted u > 0) (callFundingReconcile cfg))))))
       (ret ())"

definition confirmLost :: "RejectionConfig \<Rightarrow> string \<Rightarrow> string \<Rightarrow> ('z, bool) lost_job" where
  "confirmLost cfg t owner =
     andThen (settleTerminalRejectionMark t \<lparr> rd_status = ''LOST'', rd_reason = Some LOST_REASON, rd_competingTxs = None \<rparr>) (\<lambda>settled.
     if settled = Settled_mined \<or> settled = Settled_present then ret False
     else andThen (unwindLost cfg t owner) (\<lambda>_.
          andThen (rebufferRejectedTransaction t (Some LOST_REQUEUE_ONCE)) (\<lambda>_. ret True)))"

text \<open>One candidate, and what it adds to the summary.\<close>

definition twoChecks :: "millis \<Rightarrow> millis \<Rightarrow> AbsentMark option \<Rightarrow> bool" where
  "twoChecks now recheckMs prior =
     (case prior of None \<Rightarrow> False | Some m \<Rightarrow> now - am_at m \<ge> recheckMs \<and> now \<ge> am_nextEligible m)"

definition judgeAbsent :: "RejectionConfig \<Rightarrow> millis \<Rightarrow> string \<Rightarrow> string \<Rightarrow> TxProbe \<Rightarrow> LostTxCycleSummary \<Rightarrow> ('z, LostTxCycleSummary) lost_job" where
  "judgeAbsent cfg now t owner pr s =
     andThen (peek (\<lambda>w. map_of (jw_absent w) t)) (\<lambda>prior.
     if \<not> length (pr_providers pr) \<ge> 2 \<and> \<not> twoChecks now (jc_recheckMs cfg) prior
     then (let since = (case prior of Some m \<Rightarrow> am_at m | None \<Rightarrow> now) in
           andThen (alter (\<lambda>w. w\<lparr>jw_absent := rememberAbsent t \<lparr> am_at = since, am_nextEligible = since + jc_recheckMs cfg \<rparr>
              (jw_absent w)\<rparr>)) (\<lambda>_. ret s))
     else andThen (noteTrail (Declared now t)) (\<lambda>_.
          andThen (confirmLost cfg t owner) (\<lambda>lost.
          if lost then andThen (forgetAbsent t) (\<lambda>_. ret (s\<lparr>lc_lost := lc_lost s + 1\<rparr>)) else ret s)))"

definition checkRow :: "RejectionConfig \<Rightarrow> millis \<Rightarrow> string \<times> string \<Rightarrow> LostTxCycleSummary \<Rightarrow> ('z, LostTxCycleSummary) lost_job" where
  "checkRow cfg now row s0 =
     (let t = js_trim (fst row); s = s0\<lparr>lc_checked := lc_checked s0 + 1\<rparr>; failed = s\<lparr>lc_unknown := lc_unknown s + 1\<rparr> in
      andThen (tryCatch (andThen (reading (\<lambda>w. jw_probe w t)) (\<lambda>pr. ret (Some pr))) (ret None)) (\<lambda>answer.
      case answer of
        None \<Rightarrow> ret failed
      | Some pr \<Rightarrow>
          andThen (noteTrail (Answered now t pr)) (\<lambda>_.
          case pr_presence pr of
            Tx_found \<Rightarrow> andThen (forgetAbsent t) (\<lambda>_. ret (s\<lparr>lc_found := lc_found s + 1\<rparr>))
          | Tx_unknown \<Rightarrow> ret failed
          | Tx_absent \<Rightarrow> judgeAbsent cfg now t (snd row) pr (s\<lparr>lc_absent := lc_absent s + 1\<rparr>))))"

fun checkRows :: "RejectionConfig \<Rightarrow> millis \<Rightarrow> (string \<times> string) list \<Rightarrow> LostTxCycleSummary \<Rightarrow> ('z, LostTxCycleSummary) lost_job" where
  "checkRows cfg now [] s = ret s"
| "checkRows cfg now (row # rows) s = andThen (checkRow cfg now row s) (checkRows cfg now rows)"

definition runOnce :: "RejectionConfig \<Rightarrow> ('z, LostTxCycleSummary) lost_job" where
  "runOnce cfg =
     andThen (peek tw_clock) (\<lambda>now.
     andThen (selectCandidates cfg now) (\<lambda>rows. checkRows cfg now rows emptySummary))"


subsection \<open>A verdict has evidence\<close>

text \<open>The times at which a transaction was found absent since it was last found.\<close>

definition noteAnswer :: "string \<Rightarrow> millis list \<Rightarrow> trail \<Rightarrow> millis list" where
  "noteAnswer t ts e =
     (case e of
        Declared _ _ \<Rightarrow> ts
      | Answered a t' pr \<Rightarrow>
          if t' \<noteq> t then ts
          else (case pr_presence pr of Tx_found \<Rightarrow> [] | Tx_absent \<Rightarrow> ts @ [a] | Tx_unknown \<Rightarrow> ts))"

definition absences :: "string \<Rightarrow> trail list \<Rightarrow> millis list" where
  "absences t tr = foldl (noteAnswer t) [] tr"

text \<open>Two providers deny the transaction now, or one does and one did long enough ago, and none found it in between.\<close>

definition justified :: "millis \<Rightarrow> millis \<Rightarrow> string \<Rightarrow> trail list \<Rightarrow> bool" where
  "justified recheckMs now t tr \<longleftrightarrow>
     (case rev tr of
        Answered a t' pr # before \<Rightarrow>
          a = now \<and> t' = t \<and> pr_presence pr = Tx_absent
        \<and> (length (pr_providers pr) \<ge> 2 \<or> list_ex (\<lambda>t0. now - t0 \<ge> recheckMs) (absences t (rev before)))
      | _ \<Rightarrow> False)"

definition soundTrail :: "millis \<Rightarrow> trail list \<Rightarrow> bool" where
  "soundTrail recheckMs tr \<longleftrightarrow>
     list_all (\<lambda>i. case tr ! i of Declared now t \<Rightarrow> justified recheckMs now t (take i tr) | _ \<Rightarrow> True) [0..<length tr]"

definition detector_inv :: "millis \<Rightarrow> (string \<times> AbsentMark) list \<times> trail list \<Rightarrow> bool" where
  "detector_inv recheckMs v \<longleftrightarrow>
     soundTrail recheckMs (snd v) \<and> (\<forall>(t, m) \<in> set (fst v). am_at m \<in> set (absences t (snd v)))"

definition detector :: "'z LostWorld_scheme \<Rightarrow> (string \<times> AbsentMark) list \<times> trail list" where
  "detector w = (jw_absent w, jw_trail w)"

text \<open>The rest of the program, which may run a cycle of its own at the same time, keeps the invariant.\<close>

definition othersKeepDetector :: "millis \<Rightarrow> 'z LostWorld_scheme \<Rightarrow> 'z LostWorld_scheme \<Rightarrow> bool" where
  "othersKeepDetector recheckMs w w' \<longleftrightarrow> (detector_inv recheckMs (detector w) \<longrightarrow> detector_inv recheckMs (detector w'))"

lemma absences_snoc: "absences t (tr @ [e]) = noteAnswer t (absences t tr) e"
  by (simp add: absences_def)

lemma soundTrail_snoc:
  "soundTrail r (tr @ [e]) \<longleftrightarrow> soundTrail r tr \<and> (case e of Declared now t \<Rightarrow> justified r now t tr | _ \<Rightarrow> True)"
  by (auto simp: soundTrail_def list_all_iff nth_append split: trail.splits)

lemma set_update_mark: "x \<in> set (AList.update t m xs) \<Longrightarrow> x = (t, m) \<or> x \<in> set xs"
  by (induction xs) (auto split: if_splits)

lemma set_rememberAbsent: "x \<in> set (rememberAbsent t m xs) \<Longrightarrow> x = (t, m) \<or> x \<in> set xs"
  by (cases xs) (auto simp: rememberAbsent_def dest!: set_update_mark split: if_splits)

lemma set_delete_mark: "x \<in> set (AList.delete t xs) \<longleftrightarrow> x \<in> set xs \<and> fst x \<noteq> t"
  by (auto simp: AList.delete_eq)

abbreviation keepsDetector :: "millis \<Rightarrow> ('z, 'a) lost_job \<Rightarrow> bool" where
  "keepsDetector r m \<equiv> keeps (othersKeepDetector r) (\<lambda>w. detector_inv r (detector w)) m"

interpretation det: rejection_frame "othersKeepDetector r" "\<lambda>w. detector_inv r (detector w)" for r :: millis
proof
  show "stableUnder (othersKeepDetector r) (\<lambda>w. detector_inv r (detector w))"
    by (simp add: stableUnder_def othersKeepDetector_def)
qed (simp_all add: detector_def)

lemma keepsDetector_unwindLost: "keepsDetector r (unwindLost cfg t owner)"
  unfolding unwindLost_def Let_def
  by (intro keeps_intros det.kept_callInvalidateOutputsOf det.kept_deleteUnconfirmedOutputsOf det.kept_invalidate_funding
      det.kept_callReconcile det.kept_callFundingReconcile)

lemma keepsDetector_confirmLost: "keepsDetector r (confirmLost cfg t owner)"
  unfolding confirmLost_def
  by (intro keeps_intros det.kept_settle keepsDetector_unwindLost det.kept_rebuffer)

text \<open>A mark is kept or taken only when the last answer says so.\<close>

lemma detector_inv_answer:
  assumes "detector_inv r (marks, tr)"
  shows "pr_presence pr \<noteq> Tx_found \<Longrightarrow> detector_inv r (marks, tr @ [Answered now t pr])"
    and "detector_inv r (AList.delete t marks, tr @ [Answered now t pr])"
  using assms
  by (fastforce simp: detector_inv_def soundTrail_snoc absences_snoc noteAnswer_def set_delete_mark split: Presence.splits)+

lemma detector_inv_delete: "detector_inv r (marks, tr) \<Longrightarrow> detector_inv r (AList.delete t marks, tr)"
  by (auto simp: detector_inv_def set_delete_mark)

lemma detector_inv_declared:
  "detector_inv r (marks, tr) \<Longrightarrow> justified r now t tr \<Longrightarrow> detector_inv r (marks, tr @ [Declared now t])"
  by (auto simp: detector_inv_def soundTrail_snoc absences_snoc noteAnswer_def)

lemma detector_inv_remember:
  assumes "detector_inv r (marks, tr)" "since \<in> set (absences t tr)"
  shows "detector_inv r (rememberAbsent t \<lparr> am_at = since, am_nextEligible = e \<rparr> marks, tr)"
  using assms by (auto simp: detector_inv_def dest!: set_rememberAbsent)

lemma absent_now:
  "pr_presence pr = Tx_absent \<Longrightarrow> now \<in> set (absences t (tr @ [Answered now t pr]))"
  by (simp add: absences_snoc noteAnswer_def)

lemma still_absent:
  "pr_presence pr = Tx_absent \<Longrightarrow> t0 \<in> set (absences t tr) \<Longrightarrow> t0 \<in> set (absences t (tr @ [Answered now t pr]))"
  by (simp add: absences_snoc noteAnswer_def)

lemma justified_now:
  assumes "pr_presence pr = Tx_absent" "detector_inv r (marks, tr)"
    and "2 \<le> length (pr_providers pr) \<or> twoChecks now r (map_of marks t)"
  shows "justified r now t (tr @ [Answered now t pr])"
proof (cases "2 \<le> length (pr_providers pr)")
  case False
  then obtain m where m: "map_of marks t = Some m" "r \<le> now - am_at m"
    using assms(3) by (auto simp: twoChecks_def split: option.splits)
  then have "am_at m \<in> set (absences t tr)"
    using assms(2) by (auto simp: detector_inv_def dest: map_of_SomeD)
  then show ?thesis using assms(1) m(2) by (auto simp: justified_def list_ex_iff)
qed (use assms(1) in \<open>simp add: justified_def\<close>)


lemma keepsDetector_judged:
  assumes "pr_presence pr = Tx_absent"
  shows "keepsDetector (jc_recheckMs cfg)
     (andThen (noteTrail (Answered now t pr)) (\<lambda>_. judgeAbsent cfg now t owner pr s0))"
  unfolding keeps_def
proof (intro allI impI)
  let ?r = "jc_recheckMs cfg"
  let ?U = "under (othersKeepDetector ?r) (\<lambda>w. detector_inv ?r (detector w))"
  fix s :: "'z LostWorld_scheme System"
  assume s: "?U s"
  let ?w = "world s"
  let ?s1 = "s\<lparr>world := ?w\<lparr>jw_trail := jw_trail ?w @ [Answered now t pr]\<rparr>\<rparr>"
  have inv: "detector_inv ?r (jw_absent ?w, jw_trail ?w)" using s by (simp add: under_def detector_def)
  note answered = detector_inv_answer(1) [OF inv, of pr now t]
  define prior where "prior = map_of (jw_absent ?w) t"
  have remember: "?U (s\<lparr>world := (world ?s1)\<lparr>jw_absent := rememberAbsent t
       \<lparr> am_at = (case prior of Some m \<Rightarrow> am_at m | None \<Rightarrow> now), am_nextEligible = e \<rparr> (jw_absent ?w)\<rparr>\<rparr>)" for e
  proof (rule under_world [OF s])
    have "(case prior of Some m \<Rightarrow> am_at m | None \<Rightarrow> now) \<in> set (absences t (jw_trail ?w @ [Answered now t pr]))"
      using inv by (auto simp: prior_def detector_inv_def intro: absent_now [OF assms] still_absent [OF assms]
          dest: map_of_SomeD split: option.split)
    from detector_inv_remember [OF answered this]
    show "detector_inv ?r (detector ((world ?s1)\<lparr>jw_absent := rememberAbsent t
       \<lparr> am_at = (case prior of Some m \<Rightarrow> am_at m | None \<Rightarrow> now), am_nextEligible = e \<rparr> (jw_absent ?w)\<rparr>))"
      using assms by (simp add: detector_def)
  qed
  have declared: "?U (s\<lparr>world := (world ?s1)\<lparr>jw_trail := jw_trail (world ?s1) @ [Declared now t]\<rparr>\<rparr>)"
    if "2 \<le> length (pr_providers pr) \<or> twoChecks now ?r prior"
  proof (rule under_world [OF s])
    from detector_inv_declared [OF answered justified_now [OF assms inv]] that assms
    show "detector_inv ?r (detector ((world ?s1)\<lparr>jw_trail := jw_trail (world ?s1) @ [Declared now t]\<rparr>))"
      by (simp add: detector_def prior_def)
  qed
  have forget: "keepsDetector ?r (forgetAbsent t)"
    using detector_inv_delete by (auto intro!: keeps_alter simp: forgetAbsent_def detector_def)
  have ending: "keepsDetector ?r (andThen (confirmLost cfg t owner) (\<lambda>lost.
      if lost then andThen (forgetAbsent t) (\<lambda>_. ret (s0\<lparr>lc_lost := lc_lost s0 + 1\<rparr>)) else ret s0))"
    by (intro keeps_intros keepsDetector_confirmLost forget)
  show "wpr (andThen (noteTrail (Answered now t pr)) (\<lambda>_. judgeAbsent cfg now t owner pr s0)) (\<lambda>_. ?U) (\<lambda>_. ?U) s"
    using remember keepsD [OF ending declared]
    by (auto simp: wp_andThen noteTrail_def judgeAbsent_def wp_alter_eq wp_peek_eq wp_ret prior_def not_le Let_def)
qed

lemma keepsDetector_checkRow: "keepsDetector (jc_recheckMs cfg) (checkRow cfg now row s0)"
proof -
  let ?r = "jc_recheckMs cfg"
  have found: "keepsDetector ?r (andThen (noteTrail (Answered now t pr)) (\<lambda>_. andThen (forgetAbsent t) (\<lambda>_. ret x)))" for t pr x
    using detector_inv_answer(2)
    by (auto simp: keeps_def wp_andThen noteTrail_def forgetAbsent_def wp_alter_eq wp_ret under_def obeys_def detector_def)
  have unknown: "keepsDetector ?r (andThen (noteTrail (Answered now t pr)) (\<lambda>_. ret x))" if "pr_presence pr = Tx_unknown" for t pr x
    using detector_inv_answer(1) that
    by (auto simp: noteTrail_def detector_def intro!: keeps_intros keeps_alter)
  show ?thesis
    unfolding checkRow_def Let_def
    by (intro keeps_intros det.kept_reading)
      (auto intro: found unknown keepsDetector_judged keeps_ret split: option.split Presence.split)
qed

lemma keepsDetector_runOnce: "keepsDetector (jc_recheckMs cfg) (runOnce cfg)"
proof -
  have rows: "keepsDetector (jc_recheckMs cfg) (checkRows cfg now rows s)" for now rows s
    by (induction rows arbitrary: s) (auto intro: keeps_intros keepsDetector_checkRow)
  show ?thesis
    unfolding runOnce_def selectCandidates_def by (intro keeps_intros det.kept_reading rows)
qed


lemma justified_at:
  assumes "soundTrail r (pre @ Declared now t # post)"
  shows "justified r now t pre"
proof -
  let ?tr = "pre @ Declared now t # post"
  have "length pre \<in> set [0..<length ?tr]" by simp
  then have "case ?tr ! length pre of Declared a u \<Rightarrow> justified r a u (take (length pre) ?tr) | _ \<Rightarrow> True"
    using assms unfolding soundTrail_def list_all_iff by blast
  then show ?thesis by simp
qed


lemma fresh_detector: "detector_inv r ([], [])"
  by (simp add: detector_inv_def soundTrail_def)



definition exampleLostWorld :: "TxStatus \<Rightarrow> LostWorld" where
  "exampleLostWorld st =
     RejectionWorld.extend (exampleRejectionWorld st None)
       \<lparr> jw_probe = (\<lambda>_. \<lparr> pr_presence = Tx_absent, pr_providers = [''woc'', ''bananablocks''] \<rparr>), jw_absent = [], jw_trail = [] \<rparr>"

lemma lost_example_runs:
  "\<exists>s'. runOnce exampleRejection \<lparr> world = exampleLostWorld TxStatus.SEEN_ON_NETWORK, script = [] \<rparr>
      = (Returned (emptySummary\<lparr>lc_checked := 1, lc_absent := 1, lc_lost := 1\<rparr>), s')
    \<and> jw_trail (world s') = [Answered 1000 ''dd'' \<lparr> pr_presence = Tx_absent, pr_providers = [''woc'', ''bananablocks''] \<rparr>,
                            Declared 1000 ''dd'']"
proof -
  have trim: "js_trim ''dd'' = ''dd''" "js_upper (js_trim ''A1B2C3'') = ''A1B2C3''" by code_simp+
  have fleet: "''A1B2C3'' \<noteq> FLEET_PSEUDO_ICAO" by (simp add: FLEET_PSEUDO_ICAO_def)
  have other: "exampleSpentTxid \<noteq> ''dd''" by (simp add: exampleSpentTxid_def numeral_eq_Suc)
  show ?thesis
    by (simp add: runOnce_def selectCandidates_def run_simps exampleLostWorld_def RejectionWorld.extend_def
        exampleRejectionWorld_def WriterWorld.extend_def example_world
        exampleRejection_def dbRows_def newWriteStore_def resultRow_def exampleResult_def chooseRows_def eligible_def
        checkRow_def noteTrail_def judgeAbsent_def trim emptySummary_def Let_def await_now confirmLost_def
        settleTerminalRejectionMark_def onStore_def markTxRejected_def updateResults_def unwindLost_def callInvalidateOutputsOf_def
        exampleInput_def deleteUnconfirmedOutputsOf_def noUnwind_def newFundingUtxoManager_def newFundingRow_def fleet other
        callReconcile_def rebufferRejectedTransaction_def claimRejectRequeue_def forgetAbsent_def)
qed


end
