(* ===== verification/Spec2Isabelle.thy ===== *)
theory Spec2Isabelle
  imports Phase_Engine Utxo_Manager Alerts Poll_Cycle Write_Rate Codec Broadcast_Gate Task_Queue Header_Store Network_Spent Airports
    Auto_Refill Live_Write Lost_Transactions
begin

text \<open>
  Airchive follows aircraft through ADS-B feeds, decides when a record of each aircraft is worth
  keeping, writes those records as OP_RETURN outputs of Bitcoin SV transactions, and proves with
  block headers that they were mined. This development models the parts that decide: pure
  functions and state machines under \<open>packages/\<close> and \<open>services/\<close>.

  How the parts interact. The ingestion service polls the feeds, merges their answers, suppresses
  duplicates and publishes telemetry (\<open>Feed_Clients\<close>, \<open>Feed_Merge\<close>, \<open>Poll_Cycle\<close>); its phase
  engine runs the phase detector (\<open>Flight_Phase\<close>) and the write-rate controller (\<open>Write_Rate\<close>) on
  each record and asks the writer for a write. The alert engine runs a detector of its own and
  raises alerts (\<open>Alerts\<close>). The blockchain writer encodes the record (\<open>Codec\<close>), takes an output
  from the aircraft's pool (\<open>Utxo_Manager\<close>), and broadcasts through the gate that the spend governor
  and the hold control (\<open>Spend_Governor\<close>, \<open>Broadcast_Gate\<close>), on a bounded queue (\<open>Task_Queue\<close>). It
  remembers what it spent and what the network rejected (\<open>Live_Path\<close>, \<open>Network_Spent\<close>). Once a
  transaction is in a block, a Merkle branch (\<open>Merkle\<close>) is checked against headers it verified
  (\<open>Header_Store\<close>), and the overlay node reads the envelope back (\<open>Codec\<close>).

  The theories, in dependency order; definitions bear the names of the functions they model.

  \<^item> \<open>Prelude\<close>: strings as ASCII \<open>char list\<close>, JavaScript's \<open>trim\<close>, case and padding functions, the
    type \<open>jsnum\<close> of a number that may not be finite, and the interface \<open>keyed_component\<close> of a table
    keyed by aircraft, with the lemma that operations on different keys do not interfere. It is
    interpreted by the detector, the write times, the broadcast blocks and the published records.
  \<^item> \<open>Types\<close>: \<open>packages/types/src/index.ts\<close>.
  \<^item> \<open>Flight_Phase\<close>: \<open>packages/flight-phase/src/state-machine.ts\<close>. One update is \<open>updateState\<close>; the
    loop of airborne steps keeps the source's bound of 16, and the theorem on its convergence shows
    that three are enough. Shown: the state invariant, the edges a reported transition can take, the
    dwell before PARKED, that descent is one way, that a level climb reaches CRUISE.
  \<^item> \<open>Write_Rate\<close>: \<open>write-rate.ts\<close>, \<open>emergency.ts\<close> and the write decision of the phase engine:
    freshness and spacing of what is archived, agreement of the two decision functions.
  \<^item> \<open>Codec\<close>: \<open>packages/telemetry-codec/src/\<close> and the script reader of the overlay node: the round
    trip of the envelope, exactness of the parser, agreement of the two script readers (two
    interpretations of the interface \<open>push_reader\<close>). The loop of one reader need not end: it is a
    \<open>partial_function (option)\<close>, and a script on which it does not is exhibited.
  \<^item> \<open>Spend_Governor\<close>, \<open>Broadcast_Gate\<close>: \<open>spend-governor.ts\<close>, \<open>broadcast-hold.ts\<close>,
    \<open>governed-broadcaster.ts\<close>: the posture as a function of the window of verdicts, halts, trials and
    their backoff; what passes the gate. The interface \<open>trial_gate\<close> bounds what a trial sends and is
    interpreted on the governed broadcaster.
  \<^item> \<open>Task_Queue\<close>: \<open>task-queue.ts\<close>: bounded, first in first out, drained.
  \<^item> \<open>Live_Path\<close>, \<open>Network_Spent\<close>: \<open>live-path-policy.ts\<close>, \<open>network-spent-outpoints.ts\<close>: guard windows,
    the bounded ledger of recent spends, the depth of treasury outputs, the quarantine.
  \<^item> \<open>Utxo_Manager\<close>: \<open>utxo-manager.ts\<close> with its statements of \<open>packages/db/src/queries.ts\<close>: one owner
    per output under interleaving, and what a forced reconciliation leaves in the pool.
  \<^item> \<open>Effects\<close>: code that awaits other services. A handler is an action (a state, and a result or an
    exception); an environment decides how each call ends and what the rest of the program does
    while it is awaited; \<open>keeps\<close> and the weakest preconditions are what the proofs about handlers use.
  \<^item> \<open>Doubles\<close>, \<open>Tx_Builder\<close>: IEEE doubles with rounding to even, and \<open>tx-builder.ts\<close>: fee
    estimates as the code rounds them, and that a built transaction conserves value.
  \<^item> \<open>Funding_Pool\<close>, \<open>Treasury\<close>: \<open>funding-utxo-manager.ts\<close>, its pool, selection of inputs, chain depth
    and reconciliation, and the reshaping of the treasury (split and consolidation) as actions.
  \<^item> \<open>Arc_Broadcaster\<close>: \<open>broadcaster.ts\<close>: the classes of failure, retries, queue and circuit breaker.
  \<^item> \<open>Auto_Refill\<close>: \<open>auto-refill.ts\<close>: which aircraft is refilled, slots, backoff, and a refill as an
    action on the world of both pools.
  \<^item> \<open>Write_Store\<close>, \<open>Writer_Calls\<close>, \<open>Write_Buffer\<close>, \<open>Live_Write\<close>: the tables \<open>pending_writes\<close> and
    \<open>tx_results\<close> with their statements, the calls of a write, \<open>write-buffer.ts\<close> and the handlers of
    \<open>index.ts\<close> for live telemetry and flight events. Shown for every environment that leaves the row of
    the write alone: a retried write is waiting or recorded afterwards, the outcome a live write reports is
    what is stored, and an input that was sent stays locked.
  \<^item> \<open>Rejections\<close>, \<open>Lost_Transactions\<close>: \<open>handleTerminalRejection\<close> of \<open>index.ts\<close>, \<open>missing-tx-unwind.ts\<close>,
    \<open>rebuffer-rejected.ts\<close>, \<open>lost-tx-detector.ts\<close> and \<open>probeTx\<close> of \<open>chain-lookup.ts\<close>: a spent input stays out
    of both pools, what is queued again is what was refused, and no transaction is declared lost without
    evidence. The locale \<open>rejection_frame\<close> says what a condition must survive to be kept by all of it.
  \<^item> \<open>Merkle\<close>, \<open>Header_Store\<close>: \<open>block-merkle.ts\<close>, \<open>header-store.ts\<close>, \<open>spv.ts\<close> and the MINED callback:
    branches walk to the root and prove membership up to a collision; every held header carries its
    work, and verified rows stay matched with held headers through reorganisations.
  \<^item> \<open>Feed_Clients\<close>, \<open>Feed_Merge\<close>, \<open>Poll_Cycle\<close>: \<open>services/ingestion/src/\<close>, clients, \<open>merger.ts\<close>,
    \<open>dedup-filter.ts\<close>, \<open>publisher.ts\<close> and \<open>pollCycle\<close>: the merged record by a reference rule, its type,
    and that suppression never lets the published picture drift.
  \<^item> \<open>Alerts\<close>: \<open>services/alert-engine/src/\<close>: the exact detector edges that raise an alarm, and the
    escalation of a lost signal.
  \<^item> \<open>Session_Store\<close>, \<open>Phase_Engine\<close>: \<open>session-manager.ts\<close>, \<open>session-position-recorder.ts\<close>,
    \<open>dest-resolve-backoff.ts\<close>, \<open>phase-engine.ts\<close> and their statements of \<open>queries.ts\<close>: the life of a
    flight session, with handlers as actions. Shown for every environment: at most one open session per
    aircraft, consistent rows and paths; a take-off after a silence and a parking do what they should
    unless a call fails.
  \<^item> \<open>Airports\<close>: \<open>packages/airports/src/airport-lookup.ts\<close>: reading the table, the codes that may be
    stored, and what the nearest-airport search finds; distances are exact reals.

  Conventions. The clock, the outcome of database and network calls and the environment are
  arguments. Clock values and amounts are integers, coordinates exact reals; IEEE
  rounding is modelled for the miner fee (\<open>Doubles\<close>). A
  \<open>Map\<close> or \<open>Set\<close> whose order is read is an association list or a list, otherwise a map or a set.
  Log lines, metrics and rendered messages are left out. Parameters stand for code outside the
  repository: the double SHA-256 (with the hypothesis that a digest has 32 bytes, and collisions
  named as an alternative), the \<open>MerklePath\<close> class and key derivation of the Bitcoin library, the
  header source, the chain listing, and the transaction broadcaster.

  Not modelled: the HTTP and WebSocket front ends, the dashboard, the agents, logging, metrics,
  configuration and start-up code, which wire the modelled parts together, render them or talk to
  third-party services; the client of the Arcade service; of the writer's background jobs, the
  confirmation poller (its computation of proofs is in \<open>Merkle\<close>), the recovery of lost writes and of
  ghost spends, and the state of the funding wallet; the query side of the overlay node.
\<close>

end
